(* ===== verification/Prelude.thy ===== *)
theory Prelude
  imports Main "HOL-Library.Word" "HOL-Library.Signed_Division"
begin

text \<open>
  Shared vocabulary of the development: the named collections the component proofs use, and the
  generic facts on integers read at a width, on bits and on lists that several components share.
\<close>

unbundle bit_operations_syntax

named_theorems ir_defs \<open>unfoldings of small predicates and accessors\<close>
named_theorems width_simps \<open>integers truncated to a width\<close>

type_synonym ir_ref = int
type_synonym u64 = "64 word"
type_synonym u32 = "32 word"

section \<open>Integers at a width\<close>

text \<open>
  A machine value of width \<open>n\<close> is its bit pattern, an integer below \<open>2 ^ n\<close>; \<open>sval n\<close> reads
  a pattern as a two's complement number.
\<close>

definition sval :: "nat \<Rightarrow> int \<Rightarrow> int" where
  "sval n x = signed_take_bit (n - 1) x"

definition fits :: "nat \<Rightarrow> int \<Rightarrow> bool" where
  "fits n x \<longleftrightarrow> 0 \<le> x \<and> x < 2 ^ n"

lemma fits_iff_take_bit: "fits n x \<longleftrightarrow> take_bit n x = x"
  by (auto simp: fits_def take_bit_int_eq_self_iff)

lemma fits_take_bit [simp]: "fits n (take_bit n x)"
  by (simp add: fits_iff_take_bit)

lemma take_bit_fits: "fits n x \<Longrightarrow> take_bit n x = x"
  by (simp add: fits_iff_take_bit)

lemma fits_mono: "fits n x \<Longrightarrow> n \<le> m \<Longrightarrow> fits m x"
proof -
  assume "fits n x" "n \<le> m"
  moreover have "(2::int) ^ n \<le> 2 ^ m" using \<open>n \<le> m\<close> by simp
  ultimately show "fits m x" unfolding fits_def by linarith
qed

lemma uint_fits [simp]: "fits 64 (uint (w :: u64))"
  using uint_bounded [of w] by (simp add: fits_def)

lemma take_bit_uint [simp]: "take_bit LENGTH('a) (uint (w :: 'a::len word)) = uint w"
  by (rule bintr_uint) simp

text \<open>Truncation absorbs truncation of the operands: the facts behind every wrapping operation.\<close>

lemma take_bit_add_eqI:
  "take_bit n a = take_bit n a' \<Longrightarrow> take_bit n b = take_bit n b' \<Longrightarrow>
   take_bit n (a + b) = take_bit n (a' + b' :: int)"
  by (metis take_bit_add)

lemma take_bit_diff_eqI:
  "take_bit n a = take_bit n a' \<Longrightarrow> take_bit n b = take_bit n b' \<Longrightarrow>
   take_bit n (a - b) = take_bit n (a' - b' :: int)"
  by (metis take_bit_diff)

lemma take_bit_mult_eqI:
  "take_bit n a = take_bit n a' \<Longrightarrow> take_bit n b = take_bit n b' \<Longrightarrow>
   take_bit n (a * b) = take_bit n (a' * b' :: int)"
  by (metis take_bit_mult)

lemma take_bit_minus_eqI:
  "take_bit n a = take_bit n a' \<Longrightarrow> take_bit n (- a) = take_bit n (- a' :: int)"
  by (metis take_bit_minus)

lemma take_bit_sval [simp]: "0 < n \<Longrightarrow> take_bit n (sval n x) = take_bit n x"
  unfolding sval_def by (simp add: take_bit_signed_take_bit)

lemma sval_take_bit [simp]: "0 < n \<Longrightarrow> sval n (take_bit n x) = sval n x"
  unfolding sval_def
  by (rule bit_eqI) (auto simp: bit_take_bit_iff bit_signed_take_bit_iff min_def)

lemma sval_cong: "0 < n \<Longrightarrow> take_bit n x = take_bit n y \<Longrightarrow> sval n x = sval n y"
  by (metis sval_take_bit)

lemma sval_eq_iff: "0 < n \<Longrightarrow> sval n x = sval n y \<longleftrightarrow> take_bit n x = take_bit n y"
  by (metis sval_cong take_bit_sval)

lemma sval_bounds: "0 < n \<Longrightarrow> - (2 ^ (n - 1)) \<le> sval n x \<and> sval n x < 2 ^ (n - 1)"
  unfolding sval_def
  using signed_take_bit_int_greater_eq_minus_exp [of "n - 1" x]
    signed_take_bit_int_less_exp [of "n - 1" x] by simp

lemma sval_id: "0 < n \<Longrightarrow> - (2 ^ (n - 1)) \<le> x \<Longrightarrow> x < 2 ^ (n - 1) \<Longrightarrow> sval n x = x"
  unfolding sval_def by (simp add: signed_take_bit_int_eq_self_iff)

lemma sval_sval [simp]: "0 < n \<Longrightarrow> sval n (sval n x) = sval n x"
  by (metis sval_take_bit take_bit_sval)

end
