(* ===== verification/IR_Types.thy ===== *)
theory IR_Types
  imports Prelude
begin

text \<open>
  The data model of the IR (src/ir.h, src/ir_private.h and the tables of src/ir.c): the type enum
  with its flag, size and name tables, the opcode enum with the flag table \<open>ir_op_flags\<close>, the
  operand kinds, the instruction record and its accessors, and the start-up consistency check of
  src/ir_check.c. The target is the 64-bit little-endian one (\<open>IR_64\<close>), so \<open>ADDR\<close> is 8 bytes wide
  and \<open>INTPTR\<close>/\<open>UINTPTR\<close> are \<open>I64\<close>/\<open>U64\<close>.
\<close>

section \<open>Types\<close>

datatype ir_type =
  IR_VOID | IR_BOOL | IR_U8 | IR_U16 | IR_U32 | IR_U64 | IR_ADDR | IR_CHAR
| IR_I8 | IR_I16 | IR_I32 | IR_I64 | IR_DOUBLE | IR_FLOAT

text \<open>The value of an enumerator: its position in \<open>IR_TYPES\<close>.\<close>

primrec ir_type_num :: "ir_type \<Rightarrow> nat" where
  "ir_type_num IR_VOID = 0"
| "ir_type_num IR_BOOL = 1"
| "ir_type_num IR_U8 = 2"
| "ir_type_num IR_U16 = 3"
| "ir_type_num IR_U32 = 4"
| "ir_type_num IR_U64 = 5"
| "ir_type_num IR_ADDR = 6"
| "ir_type_num IR_CHAR = 7"
| "ir_type_num IR_I8 = 8"
| "ir_type_num IR_I16 = 9"
| "ir_type_num IR_I32 = 10"
| "ir_type_num IR_I64 = 11"
| "ir_type_num IR_DOUBLE = 12"
| "ir_type_num IR_FLOAT = 13"

abbreviation (input) IR_TYPE_SIGNED :: nat where "IR_TYPE_SIGNED \<equiv> 16"
abbreviation (input) IR_TYPE_UNSIGNED :: nat where "IR_TYPE_UNSIGNED \<equiv> 32"
abbreviation (input) IR_TYPE_FP :: nat where "IR_TYPE_FP \<equiv> 64"
abbreviation (input) IR_TYPE_SPECIAL :: nat where "IR_TYPE_SPECIAL \<equiv> 128"
abbreviation (input) IR_TYPE_BOOL :: nat where "IR_TYPE_BOOL \<equiv> IR_TYPE_SPECIAL OR IR_TYPE_UNSIGNED"
abbreviation (input) IR_TYPE_ADDR :: nat where "IR_TYPE_ADDR \<equiv> IR_TYPE_SPECIAL OR IR_TYPE_UNSIGNED"
abbreviation (input) IR_TYPE_CHAR :: nat where "IR_TYPE_CHAR \<equiv> IR_TYPE_SPECIAL OR IR_TYPE_SIGNED"

primrec ir_type_size :: "ir_type \<Rightarrow> nat" where
  "ir_type_size IR_VOID = 0"
| "ir_type_size IR_BOOL = 1"
| "ir_type_size IR_U8 = 1"
| "ir_type_size IR_U16 = 2"
| "ir_type_size IR_U32 = 4"
| "ir_type_size IR_U64 = 8"
| "ir_type_size IR_ADDR = 8"
| "ir_type_size IR_CHAR = 1"
| "ir_type_size IR_I8 = 1"
| "ir_type_size IR_I16 = 2"
| "ir_type_size IR_I32 = 4"
| "ir_type_size IR_I64 = 8"
| "ir_type_size IR_DOUBLE = 8"
| "ir_type_size IR_FLOAT = 4"

primrec ir_type_flags :: "ir_type \<Rightarrow> nat" where
  "ir_type_flags IR_VOID = 0"
| "ir_type_flags IR_BOOL = IR_TYPE_BOOL OR 1"
| "ir_type_flags IR_U8 = IR_TYPE_UNSIGNED OR 1"
| "ir_type_flags IR_U16 = IR_TYPE_UNSIGNED OR 2"
| "ir_type_flags IR_U32 = IR_TYPE_UNSIGNED OR 4"
| "ir_type_flags IR_U64 = IR_TYPE_UNSIGNED OR 8"
| "ir_type_flags IR_ADDR = IR_TYPE_ADDR OR 8"
| "ir_type_flags IR_CHAR = IR_TYPE_CHAR OR 1"
| "ir_type_flags IR_I8 = IR_TYPE_SIGNED OR 1"
| "ir_type_flags IR_I16 = IR_TYPE_SIGNED OR 2"
| "ir_type_flags IR_I32 = IR_TYPE_SIGNED OR 4"
| "ir_type_flags IR_I64 = IR_TYPE_SIGNED OR 8"
| "ir_type_flags IR_DOUBLE = IR_TYPE_FP OR 8"
| "ir_type_flags IR_FLOAT = IR_TYPE_FP OR 4"

primrec ir_type_name :: "ir_type \<Rightarrow> string" where
  "ir_type_name IR_VOID = ''void''"
| "ir_type_name IR_BOOL = ''BOOL''"
| "ir_type_name IR_U8 = ''U8''"
| "ir_type_name IR_U16 = ''U16''"
| "ir_type_name IR_U32 = ''U32''"
| "ir_type_name IR_U64 = ''U64''"
| "ir_type_name IR_ADDR = ''ADDR''"
| "ir_type_name IR_CHAR = ''CHAR''"
| "ir_type_name IR_I8 = ''I8''"
| "ir_type_name IR_I16 = ''I16''"
| "ir_type_name IR_I32 = ''I32''"
| "ir_type_name IR_I64 = ''I64''"
| "ir_type_name IR_DOUBLE = ''DOUBLE''"
| "ir_type_name IR_FLOAT = ''FLOAT''"

primrec ir_type_cname :: "ir_type \<Rightarrow> string" where
  "ir_type_cname IR_VOID = ''void''"
| "ir_type_cname IR_BOOL = ''bool''"
| "ir_type_cname IR_U8 = ''uint8_t''"
| "ir_type_cname IR_U16 = ''uint16_t''"
| "ir_type_cname IR_U32 = ''uint32_t''"
| "ir_type_cname IR_U64 = ''uint64_t''"
| "ir_type_cname IR_ADDR = ''uintptr_t''"
| "ir_type_cname IR_CHAR = ''char''"
| "ir_type_cname IR_I8 = ''int8_t''"
| "ir_type_cname IR_I16 = ''int16_t''"
| "ir_type_cname IR_I32 = ''int32_t''"
| "ir_type_cname IR_I64 = ''int64_t''"
| "ir_type_cname IR_DOUBLE = ''double''"
| "ir_type_cname IR_FLOAT = ''float''"

definition IR_IS_TYPE_UNSIGNED :: "ir_type \<Rightarrow> bool" where
  "IR_IS_TYPE_UNSIGNED t \<longleftrightarrow> ir_type_num t < ir_type_num IR_CHAR"

definition IR_IS_TYPE_SIGNED :: "ir_type \<Rightarrow> bool" where
  "IR_IS_TYPE_SIGNED t \<longleftrightarrow> ir_type_num t \<ge> ir_type_num IR_CHAR \<and> ir_type_num t < ir_type_num IR_DOUBLE"

definition IR_IS_TYPE_INT :: "ir_type \<Rightarrow> bool" where
  "IR_IS_TYPE_INT t \<longleftrightarrow> ir_type_num t < ir_type_num IR_DOUBLE"

definition IR_IS_TYPE_FP :: "ir_type \<Rightarrow> bool" where
  "IR_IS_TYPE_FP t \<longleftrightarrow> ir_type_num t \<ge> ir_type_num IR_DOUBLE"

section \<open>Opcodes\<close>

text \<open>
  An opcode is the number the enum gives it; the folding engine computes with these numbers
  (\<open>opt ^ 1\<close>, \<open>opt += 4\<close>), so the enumerators are names of numerals.
\<close>

type_synonym ir_op = nat

abbreviation (input) IR_NOP :: ir_op where "IR_NOP \<equiv> 0"
abbreviation (input) IR_C_BOOL :: ir_op where "IR_C_BOOL \<equiv> 1"
abbreviation (input) IR_C_U8 :: ir_op where "IR_C_U8 \<equiv> 2"
abbreviation (input) IR_C_U16 :: ir_op where "IR_C_U16 \<equiv> 3"
abbreviation (input) IR_C_U32 :: ir_op where "IR_C_U32 \<equiv> 4"
abbreviation (input) IR_C_U64 :: ir_op where "IR_C_U64 \<equiv> 5"
abbreviation (input) IR_C_ADDR :: ir_op where "IR_C_ADDR \<equiv> 6"
abbreviation (input) IR_C_CHAR :: ir_op where "IR_C_CHAR \<equiv> 7"
abbreviation (input) IR_C_I8 :: ir_op where "IR_C_I8 \<equiv> 8"
abbreviation (input) IR_C_I16 :: ir_op where "IR_C_I16 \<equiv> 9"
abbreviation (input) IR_C_I32 :: ir_op where "IR_C_I32 \<equiv> 10"
abbreviation (input) IR_C_I64 :: ir_op where "IR_C_I64 \<equiv> 11"
abbreviation (input) IR_C_DOUBLE :: ir_op where "IR_C_DOUBLE \<equiv> 12"
abbreviation (input) IR_C_FLOAT :: ir_op where "IR_C_FLOAT \<equiv> 13"
abbreviation (input) IR_EQ :: ir_op where "IR_EQ \<equiv> 14"
abbreviation (input) IR_NE :: ir_op where "IR_NE \<equiv> 15"
abbreviation (input) IR_LT :: ir_op where "IR_LT \<equiv> 16"
abbreviation (input) IR_GE :: ir_op where "IR_GE \<equiv> 17"
abbreviation (input) IR_LE :: ir_op where "IR_LE \<equiv> 18"
abbreviation (input) IR_GT :: ir_op where "IR_GT \<equiv> 19"
abbreviation (input) IR_ULT :: ir_op where "IR_ULT \<equiv> 20"
abbreviation (input) IR_UGE :: ir_op where "IR_UGE \<equiv> 21"
abbreviation (input) IR_ULE :: ir_op where "IR_ULE \<equiv> 22"
abbreviation (input) IR_UGT :: ir_op where "IR_UGT \<equiv> 23"
abbreviation (input) IR_ORDERED :: ir_op where "IR_ORDERED \<equiv> 24"
abbreviation (input) IR_UNORDERED :: ir_op where "IR_UNORDERED \<equiv> 25"
abbreviation (input) IR_ADD :: ir_op where "IR_ADD \<equiv> 26"
abbreviation (input) IR_SUB :: ir_op where "IR_SUB \<equiv> 27"
abbreviation (input) IR_MUL :: ir_op where "IR_MUL \<equiv> 28"
abbreviation (input) IR_DIV :: ir_op where "IR_DIV \<equiv> 29"
abbreviation (input) IR_MOD :: ir_op where "IR_MOD \<equiv> 30"
abbreviation (input) IR_NEG :: ir_op where "IR_NEG \<equiv> 31"
abbreviation (input) IR_ABS :: ir_op where "IR_ABS \<equiv> 32"
abbreviation (input) IR_SEXT :: ir_op where "IR_SEXT \<equiv> 33"
abbreviation (input) IR_ZEXT :: ir_op where "IR_ZEXT \<equiv> 34"
abbreviation (input) IR_TRUNC :: ir_op where "IR_TRUNC \<equiv> 35"
abbreviation (input) IR_BITCAST :: ir_op where "IR_BITCAST \<equiv> 36"
abbreviation (input) IR_INT2FP :: ir_op where "IR_INT2FP \<equiv> 37"
abbreviation (input) IR_FP2INT :: ir_op where "IR_FP2INT \<equiv> 38"
abbreviation (input) IR_FP2FP :: ir_op where "IR_FP2FP \<equiv> 39"
abbreviation (input) IR_PROTO :: ir_op where "IR_PROTO \<equiv> 40"
abbreviation (input) IR_ADD_OV :: ir_op where "IR_ADD_OV \<equiv> 41"
abbreviation (input) IR_SUB_OV :: ir_op where "IR_SUB_OV \<equiv> 42"
abbreviation (input) IR_MUL_OV :: ir_op where "IR_MUL_OV \<equiv> 43"
abbreviation (input) IR_OVERFLOW :: ir_op where "IR_OVERFLOW \<equiv> 44"
abbreviation (input) IR_NOT :: ir_op where "IR_NOT \<equiv> 45"
abbreviation (input) IR_OR :: ir_op where "IR_OR \<equiv> 46"
abbreviation (input) IR_AND :: ir_op where "IR_AND \<equiv> 47"
abbreviation (input) IR_XOR :: ir_op where "IR_XOR \<equiv> 48"
abbreviation (input) IR_SHL :: ir_op where "IR_SHL \<equiv> 49"
abbreviation (input) IR_SHR :: ir_op where "IR_SHR \<equiv> 50"
abbreviation (input) IR_SAR :: ir_op where "IR_SAR \<equiv> 51"
abbreviation (input) IR_ROL :: ir_op where "IR_ROL \<equiv> 52"
abbreviation (input) IR_ROR :: ir_op where "IR_ROR \<equiv> 53"
abbreviation (input) IR_BSWAP :: ir_op where "IR_BSWAP \<equiv> 54"
abbreviation (input) IR_CTPOP :: ir_op where "IR_CTPOP \<equiv> 55"
abbreviation (input) IR_CTLZ :: ir_op where "IR_CTLZ \<equiv> 56"
abbreviation (input) IR_CTTZ :: ir_op where "IR_CTTZ \<equiv> 57"
abbreviation (input) IR_MIN :: ir_op where "IR_MIN \<equiv> 58"
abbreviation (input) IR_MAX :: ir_op where "IR_MAX \<equiv> 59"
abbreviation (input) IR_COND :: ir_op where "IR_COND \<equiv> 60"
abbreviation (input) IR_VADDR :: ir_op where "IR_VADDR \<equiv> 61"
abbreviation (input) IR_FRAME_ADDR :: ir_op where "IR_FRAME_ADDR \<equiv> 62"
abbreviation (input) IR_PHI :: ir_op where "IR_PHI \<equiv> 63"
abbreviation (input) IR_COPY :: ir_op where "IR_COPY \<equiv> 64"
abbreviation (input) IR_PI :: ir_op where "IR_PI \<equiv> 65"
abbreviation (input) IR_ARGVAL :: ir_op where "IR_ARGVAL \<equiv> 66"
abbreviation (input) IR_PARAM :: ir_op where "IR_PARAM \<equiv> 67"
abbreviation (input) IR_VAR :: ir_op where "IR_VAR \<equiv> 68"
abbreviation (input) IR_FUNC_ADDR :: ir_op where "IR_FUNC_ADDR \<equiv> 69"
abbreviation (input) IR_FUNC :: ir_op where "IR_FUNC \<equiv> 70"
abbreviation (input) IR_SYM :: ir_op where "IR_SYM \<equiv> 71"
abbreviation (input) IR_LABEL :: ir_op where "IR_LABEL \<equiv> 72"
abbreviation (input) IR_STR :: ir_op where "IR_STR \<equiv> 73"
abbreviation (input) IR_CALL :: ir_op where "IR_CALL \<equiv> 74"
abbreviation (input) IR_TAILCALL :: ir_op where "IR_TAILCALL \<equiv> 75"
abbreviation (input) IR_ALLOCA :: ir_op where "IR_ALLOCA \<equiv> 76"
abbreviation (input) IR_AFREE :: ir_op where "IR_AFREE \<equiv> 77"
abbreviation (input) IR_BLOCK_BEGIN :: ir_op where "IR_BLOCK_BEGIN \<equiv> 78"
abbreviation (input) IR_BLOCK_END :: ir_op where "IR_BLOCK_END \<equiv> 79"
abbreviation (input) IR_VLOAD :: ir_op where "IR_VLOAD \<equiv> 80"
abbreviation (input) IR_VLOAD_v :: ir_op where "IR_VLOAD_v \<equiv> 81"
abbreviation (input) IR_VSTORE :: ir_op where "IR_VSTORE \<equiv> 82"
abbreviation (input) IR_VSTORE_v :: ir_op where "IR_VSTORE_v \<equiv> 83"
abbreviation (input) IR_RLOAD :: ir_op where "IR_RLOAD \<equiv> 84"
abbreviation (input) IR_RSTORE :: ir_op where "IR_RSTORE \<equiv> 85"
abbreviation (input) IR_LOAD :: ir_op where "IR_LOAD \<equiv> 86"
abbreviation (input) IR_LOAD_v :: ir_op where "IR_LOAD_v \<equiv> 87"
abbreviation (input) IR_STORE :: ir_op where "IR_STORE \<equiv> 88"
abbreviation (input) IR_STORE_v :: ir_op where "IR_STORE_v \<equiv> 89"
abbreviation (input) IR_TLS :: ir_op where "IR_TLS \<equiv> 90"
abbreviation (input) IR_TRAP :: ir_op where "IR_TRAP \<equiv> 91"
abbreviation (input) IR_VA_START :: ir_op where "IR_VA_START \<equiv> 92"
abbreviation (input) IR_VA_END :: ir_op where "IR_VA_END \<equiv> 93"
abbreviation (input) IR_VA_COPY :: ir_op where "IR_VA_COPY \<equiv> 94"
abbreviation (input) IR_VA_ARG :: ir_op where "IR_VA_ARG \<equiv> 95"
abbreviation (input) IR_GUARD :: ir_op where "IR_GUARD \<equiv> 96"
abbreviation (input) IR_GUARD_NOT :: ir_op where "IR_GUARD_NOT \<equiv> 97"
abbreviation (input) IR_SNAPSHOT :: ir_op where "IR_SNAPSHOT \<equiv> 98"
abbreviation (input) IR_START :: ir_op where "IR_START \<equiv> 99"
abbreviation (input) IR_ENTRY :: ir_op where "IR_ENTRY \<equiv> 100"
abbreviation (input) IR_BEGIN :: ir_op where "IR_BEGIN \<equiv> 101"
abbreviation (input) IR_IF_TRUE :: ir_op where "IR_IF_TRUE \<equiv> 102"
abbreviation (input) IR_IF_FALSE :: ir_op where "IR_IF_FALSE \<equiv> 103"
abbreviation (input) IR_CASE_VAL :: ir_op where "IR_CASE_VAL \<equiv> 104"
abbreviation (input) IR_CASE_RANGE :: ir_op where "IR_CASE_RANGE \<equiv> 105"
abbreviation (input) IR_CASE_DEFAULT :: ir_op where "IR_CASE_DEFAULT \<equiv> 106"
abbreviation (input) IR_MERGE :: ir_op where "IR_MERGE \<equiv> 107"
abbreviation (input) IR_LOOP_BEGIN :: ir_op where "IR_LOOP_BEGIN \<equiv> 108"
abbreviation (input) IR_END :: ir_op where "IR_END \<equiv> 109"
abbreviation (input) IR_LOOP_END :: ir_op where "IR_LOOP_END \<equiv> 110"
abbreviation (input) IR_IF :: ir_op where "IR_IF \<equiv> 111"
abbreviation (input) IR_SWITCH :: ir_op where "IR_SWITCH \<equiv> 112"
abbreviation (input) IR_IGOTO :: ir_op where "IR_IGOTO \<equiv> 113"
abbreviation (input) IR_IJMP :: ir_op where "IR_IJMP \<equiv> 114"
abbreviation (input) IR_RETURN :: ir_op where "IR_RETURN \<equiv> 115"
abbreviation (input) IR_UNREACHABLE :: ir_op where "IR_UNREACHABLE \<equiv> 116"
abbreviation (input) IR_ASM :: ir_op where "IR_ASM \<equiv> 117"
abbreviation (input) IR_ASM_OUT :: ir_op where "IR_ASM_OUT \<equiv> 118"
abbreviation (input) IR_ASM_GOTO :: ir_op where "IR_ASM_GOTO \<equiv> 119"
abbreviation (input) IR_EXITCALL :: ir_op where "IR_EXITCALL \<equiv> 120"
abbreviation (input) IR_LAST_OP :: ir_op where "IR_LAST_OP \<equiv> 121"
abbreviation (input) IR_LAST_FOLDABLE_OP :: ir_op where "IR_LAST_FOLDABLE_OP \<equiv> IR_COPY"

text \<open>Opcode flags (src/ir_private.h) and operand kinds.\<close>

abbreviation (input) IR_OP_FLAG_EDGES_MASK :: nat where "IR_OP_FLAG_EDGES_MASK \<equiv> 3"
abbreviation (input) IR_OP_FLAG_VAR_INPUTS :: nat where "IR_OP_FLAG_VAR_INPUTS \<equiv> 4"
abbreviation (input) IR_OP_FLAG_OPERANDS_MASK :: nat where "IR_OP_FLAG_OPERANDS_MASK \<equiv> 24"
abbreviation (input) IR_OP_FLAG_MEM_MASK :: nat where "IR_OP_FLAG_MEM_MASK \<equiv> 192"
abbreviation (input) IR_OP_FLAG_DATA :: nat where "IR_OP_FLAG_DATA \<equiv> 256"
abbreviation (input) IR_OP_FLAG_CONTROL :: nat where "IR_OP_FLAG_CONTROL \<equiv> 512"
abbreviation (input) IR_OP_FLAG_MEM :: nat where "IR_OP_FLAG_MEM \<equiv> 1024"
abbreviation (input) IR_OP_FLAG_COMMUTATIVE :: nat where "IR_OP_FLAG_COMMUTATIVE \<equiv> 2048"
abbreviation (input) IR_OP_FLAG_BB_START :: nat where "IR_OP_FLAG_BB_START \<equiv> 4096"
abbreviation (input) IR_OP_FLAG_BB_END :: nat where "IR_OP_FLAG_BB_END \<equiv> 8192"
abbreviation (input) IR_OP_FLAG_TERMINATOR :: nat where "IR_OP_FLAG_TERMINATOR \<equiv> 16384"
abbreviation (input) IR_OP_FLAG_PINNED :: nat where "IR_OP_FLAG_PINNED \<equiv> 32768"
abbreviation (input) IR_OP_FLAG_MEM_LOAD :: nat where "IR_OP_FLAG_MEM_LOAD \<equiv> 0"
abbreviation (input) IR_OP_FLAG_MEM_STORE :: nat where "IR_OP_FLAG_MEM_STORE \<equiv> 128"
abbreviation (input) IR_OP_FLAG_MEM_CALL :: nat where "IR_OP_FLAG_MEM_CALL \<equiv> 64"
abbreviation (input) IR_OP_FLAG_MEM_ALLOC :: nat where "IR_OP_FLAG_MEM_ALLOC \<equiv> 192"
abbreviation (input) IR_OPND_UNUSED :: nat where "IR_OPND_UNUSED \<equiv> 0"
abbreviation (input) IR_OPND_DATA :: nat where "IR_OPND_DATA \<equiv> 1"
abbreviation (input) IR_OPND_CONTROL :: nat where "IR_OPND_CONTROL \<equiv> 2"
abbreviation (input) IR_OPND_LABEL_REF :: nat where "IR_OPND_LABEL_REF \<equiv> 3"
abbreviation (input) IR_OPND_CONTROL_DEP :: nat where "IR_OPND_CONTROL_DEP \<equiv> 4"
abbreviation (input) IR_OPND_CONTROL_REF :: nat where "IR_OPND_CONTROL_REF \<equiv> 5"
abbreviation (input) IR_OPND_CONTROL_GUARD :: nat where "IR_OPND_CONTROL_GUARD \<equiv> 6"
abbreviation (input) IR_OPND_STR :: nat where "IR_OPND_STR \<equiv> 7"
abbreviation (input) IR_OPND_NUM :: nat where "IR_OPND_NUM \<equiv> 8"
abbreviation (input) IR_OPND_PROB :: nat where "IR_OPND_PROB \<equiv> 9"
abbreviation (input) IR_OPND_PROTO :: nat where "IR_OPND_PROTO \<equiv> 10"

text \<open>The flag words of \<open>ir_op_flag_d2C\<close> and its kin: class flags, edges and operands.\<close>

definition op_flag :: "nat \<Rightarrow> nat \<Rightarrow> nat \<Rightarrow> nat" where
  "op_flag cls edges opnds = cls OR edges OR push_bit 3 opnds"

abbreviation (input) ir_op_flag_v :: nat where "ir_op_flag_v \<equiv> 0"
abbreviation (input) ir_op_flag_r0 :: nat where "ir_op_flag_r0 \<equiv> op_flag IR_OP_FLAG_DATA 0 0"
abbreviation (input) ir_op_flag_d2C :: nat where "ir_op_flag_d2C \<equiv> op_flag (IR_OP_FLAG_DATA OR IR_OP_FLAG_COMMUTATIVE) 2 2"
abbreviation (input) ir_op_flag_d2 :: nat where "ir_op_flag_d2 \<equiv> op_flag IR_OP_FLAG_DATA 2 2"
abbreviation (input) ir_op_flag_d3 :: nat where "ir_op_flag_d3 \<equiv> op_flag IR_OP_FLAG_DATA 3 3"
abbreviation (input) ir_op_flag_d1 :: nat where "ir_op_flag_d1 \<equiv> op_flag IR_OP_FLAG_DATA 1 1"
abbreviation (input) ir_op_flag_d1X1 :: nat where "ir_op_flag_d1X1 \<equiv> op_flag IR_OP_FLAG_DATA 1 2"
abbreviation (input) ir_op_flag_d0 :: nat where "ir_op_flag_d0 \<equiv> op_flag IR_OP_FLAG_DATA 0 0"
abbreviation (input) ir_op_flag_pN :: nat where "ir_op_flag_pN \<equiv> (IR_OP_FLAG_DATA OR IR_OP_FLAG_PINNED) OR IR_OP_FLAG_VAR_INPUTS"
abbreviation (input) ir_op_flag_p2 :: nat where "ir_op_flag_p2 \<equiv> op_flag (IR_OP_FLAG_DATA OR IR_OP_FLAG_PINNED) 2 2"
abbreviation (input) ir_op_flag_d1X2 :: nat where "ir_op_flag_d1X2 \<equiv> op_flag IR_OP_FLAG_DATA 1 3"
abbreviation (input) ir_op_flag_p1X2 :: nat where "ir_op_flag_p1X2 \<equiv> op_flag (IR_OP_FLAG_DATA OR IR_OP_FLAG_PINNED) 1 3"
abbreviation (input) ir_op_flag_p1X1 :: nat where "ir_op_flag_p1X1 \<equiv> op_flag (IR_OP_FLAG_DATA OR IR_OP_FLAG_PINNED) 1 2"
abbreviation (input) ir_op_flag_xN :: nat where "ir_op_flag_xN \<equiv> (IR_OP_FLAG_CONTROL OR IR_OP_FLAG_MEM OR IR_OP_FLAG_MEM_CALL) OR IR_OP_FLAG_VAR_INPUTS"
abbreviation (input) ir_op_flag_a2 :: nat where "ir_op_flag_a2 \<equiv> op_flag (IR_OP_FLAG_CONTROL OR IR_OP_FLAG_MEM OR IR_OP_FLAG_MEM_ALLOC) 2 2"
abbreviation (input) ir_op_flag_a1 :: nat where "ir_op_flag_a1 \<equiv> op_flag (IR_OP_FLAG_CONTROL OR IR_OP_FLAG_MEM OR IR_OP_FLAG_MEM_ALLOC) 1 1"
abbreviation (input) ir_op_flag_l2 :: nat where "ir_op_flag_l2 \<equiv> op_flag (IR_OP_FLAG_CONTROL OR IR_OP_FLAG_MEM OR IR_OP_FLAG_MEM_LOAD) 2 2"
abbreviation (input) ir_op_flag_s3 :: nat where "ir_op_flag_s3 \<equiv> op_flag (IR_OP_FLAG_CONTROL OR IR_OP_FLAG_MEM OR IR_OP_FLAG_MEM_STORE) 3 3"
abbreviation (input) ir_op_flag_l1X2 :: nat where "ir_op_flag_l1X2 \<equiv> op_flag (IR_OP_FLAG_CONTROL OR IR_OP_FLAG_MEM OR IR_OP_FLAG_MEM_LOAD) 1 3"
abbreviation (input) ir_op_flag_s2X1 :: nat where "ir_op_flag_s2X1 \<equiv> op_flag (IR_OP_FLAG_CONTROL OR IR_OP_FLAG_MEM OR IR_OP_FLAG_MEM_STORE) 2 3"
abbreviation (input) ir_op_flag_x1 :: nat where "ir_op_flag_x1 \<equiv> op_flag (IR_OP_FLAG_CONTROL OR IR_OP_FLAG_MEM OR IR_OP_FLAG_MEM_CALL) 1 1"
abbreviation (input) ir_op_flag_x2 :: nat where "ir_op_flag_x2 \<equiv> op_flag (IR_OP_FLAG_CONTROL OR IR_OP_FLAG_MEM OR IR_OP_FLAG_MEM_CALL) 2 2"
abbreviation (input) ir_op_flag_x3 :: nat where "ir_op_flag_x3 \<equiv> op_flag (IR_OP_FLAG_CONTROL OR IR_OP_FLAG_MEM OR IR_OP_FLAG_MEM_CALL) 3 3"
abbreviation (input) ir_op_flag_x2X1 :: nat where "ir_op_flag_x2X1 \<equiv> op_flag (IR_OP_FLAG_CONTROL OR IR_OP_FLAG_MEM OR IR_OP_FLAG_MEM_CALL) 2 3"
abbreviation (input) ir_op_flag_c3 :: nat where "ir_op_flag_c3 \<equiv> op_flag IR_OP_FLAG_CONTROL 3 3"
abbreviation (input) ir_op_flag_S0X1 :: nat where "ir_op_flag_S0X1 \<equiv> op_flag (IR_OP_FLAG_CONTROL OR IR_OP_FLAG_BB_START) 0 1"
abbreviation (input) ir_op_flag_S1X1 :: nat where "ir_op_flag_S1X1 \<equiv> op_flag (IR_OP_FLAG_CONTROL OR IR_OP_FLAG_BB_START) 1 2"
abbreviation (input) ir_op_flag_S2X1 :: nat where "ir_op_flag_S2X1 \<equiv> op_flag (IR_OP_FLAG_CONTROL OR IR_OP_FLAG_BB_START) 2 3"
abbreviation (input) ir_op_flag_S3 :: nat where "ir_op_flag_S3 \<equiv> op_flag (IR_OP_FLAG_CONTROL OR IR_OP_FLAG_BB_START) 3 3"
abbreviation (input) ir_op_flag_SN :: nat where "ir_op_flag_SN \<equiv> (IR_OP_FLAG_CONTROL OR IR_OP_FLAG_BB_START) OR IR_OP_FLAG_VAR_INPUTS"
abbreviation (input) ir_op_flag_E1 :: nat where "ir_op_flag_E1 \<equiv> op_flag (IR_OP_FLAG_CONTROL OR IR_OP_FLAG_BB_END) 1 1"
abbreviation (input) ir_op_flag_E2 :: nat where "ir_op_flag_E2 \<equiv> op_flag (IR_OP_FLAG_CONTROL OR IR_OP_FLAG_BB_END) 2 2"
abbreviation (input) ir_op_flag_T2X1 :: nat where "ir_op_flag_T2X1 \<equiv> op_flag (IR_OP_FLAG_CONTROL OR IR_OP_FLAG_BB_END OR IR_OP_FLAG_TERMINATOR) 2 3"
abbreviation (input) ir_op_flag_T1X2 :: nat where "ir_op_flag_T1X2 \<equiv> op_flag (IR_OP_FLAG_CONTROL OR IR_OP_FLAG_BB_END OR IR_OP_FLAG_TERMINATOR) 1 3"

definition IR_OP_FLAGS :: "nat \<Rightarrow> nat \<Rightarrow> nat \<Rightarrow> nat \<Rightarrow> nat" where
  "IR_OP_FLAGS op_flags op1_flags op2_flags op3_flags =
     op_flags OR push_bit 20 op1_flags OR push_bit 24 op2_flags OR push_bit 28 op3_flags"

text \<open>The rows of \<open>IR_OPS\<close>: name, flags and operand kinds, in the order of the enum.\<close>

definition ir_ops :: "(string \<times> nat) list" where
  "ir_ops =
   [(''NOP'', IR_OP_FLAGS ir_op_flag_v IR_OPND_UNUSED IR_OPND_UNUSED IR_OPND_UNUSED),
    (''C_BOOL'', IR_OP_FLAGS ir_op_flag_r0 IR_OPND_UNUSED IR_OPND_UNUSED IR_OPND_UNUSED),
    (''C_U8'', IR_OP_FLAGS ir_op_flag_r0 IR_OPND_UNUSED IR_OPND_UNUSED IR_OPND_UNUSED),
    (''C_U16'', IR_OP_FLAGS ir_op_flag_r0 IR_OPND_UNUSED IR_OPND_UNUSED IR_OPND_UNUSED),
    (''C_U32'', IR_OP_FLAGS ir_op_flag_r0 IR_OPND_UNUSED IR_OPND_UNUSED IR_OPND_UNUSED),
    (''C_U64'', IR_OP_FLAGS ir_op_flag_r0 IR_OPND_UNUSED IR_OPND_UNUSED IR_OPND_UNUSED),
    (''C_ADDR'', IR_OP_FLAGS ir_op_flag_r0 IR_OPND_UNUSED IR_OPND_UNUSED IR_OPND_UNUSED),
    (''C_CHAR'', IR_OP_FLAGS ir_op_flag_r0 IR_OPND_UNUSED IR_OPND_UNUSED IR_OPND_UNUSED),
    (''C_I8'', IR_OP_FLAGS ir_op_flag_r0 IR_OPND_UNUSED IR_OPND_UNUSED IR_OPND_UNUSED),
    (''C_I16'', IR_OP_FLAGS ir_op_flag_r0 IR_OPND_UNUSED IR_OPND_UNUSED IR_OPND_UNUSED),
    (''C_I32'', IR_OP_FLAGS ir_op_flag_r0 IR_OPND_UNUSED IR_OPND_UNUSED IR_OPND_UNUSED),
    (''C_I64'', IR_OP_FLAGS ir_op_flag_r0 IR_OPND_UNUSED IR_OPND_UNUSED IR_OPND_UNUSED),
    (''C_DOUBLE'', IR_OP_FLAGS ir_op_flag_r0 IR_OPND_UNUSED IR_OPND_UNUSED IR_OPND_UNUSED),
    (''C_FLOAT'', IR_OP_FLAGS ir_op_flag_r0 IR_OPND_UNUSED IR_OPND_UNUSED IR_OPND_UNUSED),
    (''EQ'', IR_OP_FLAGS ir_op_flag_d2C IR_OPND_DATA IR_OPND_DATA IR_OPND_UNUSED),
    (''NE'', IR_OP_FLAGS ir_op_flag_d2C IR_OPND_DATA IR_OPND_DATA IR_OPND_UNUSED),
    (''LT'', IR_OP_FLAGS ir_op_flag_d2 IR_OPND_DATA IR_OPND_DATA IR_OPND_UNUSED),
    (''GE'', IR_OP_FLAGS ir_op_flag_d2 IR_OPND_DATA IR_OPND_DATA IR_OPND_UNUSED),
    (''LE'', IR_OP_FLAGS ir_op_flag_d2 IR_OPND_DATA IR_OPND_DATA IR_OPND_UNUSED),
    (''GT'', IR_OP_FLAGS ir_op_flag_d2 IR_OPND_DATA IR_OPND_DATA IR_OPND_UNUSED),
    (''ULT'', IR_OP_FLAGS ir_op_flag_d2 IR_OPND_DATA IR_OPND_DATA IR_OPND_UNUSED),
    (''UGE'', IR_OP_FLAGS ir_op_flag_d2 IR_OPND_DATA IR_OPND_DATA IR_OPND_UNUSED),
    (''ULE'', IR_OP_FLAGS ir_op_flag_d2 IR_OPND_DATA IR_OPND_DATA IR_OPND_UNUSED),
    (''UGT'', IR_OP_FLAGS ir_op_flag_d2 IR_OPND_DATA IR_OPND_DATA IR_OPND_UNUSED),
    (''ORDERED'', IR_OP_FLAGS ir_op_flag_d2 IR_OPND_DATA IR_OPND_DATA IR_OPND_UNUSED),
    (''UNORDERED'', IR_OP_FLAGS ir_op_flag_d2 IR_OPND_DATA IR_OPND_DATA IR_OPND_UNUSED),
    (''ADD'', IR_OP_FLAGS ir_op_flag_d2C IR_OPND_DATA IR_OPND_DATA IR_OPND_UNUSED),
    (''SUB'', IR_OP_FLAGS ir_op_flag_d2 IR_OPND_DATA IR_OPND_DATA IR_OPND_UNUSED),
    (''MUL'', IR_OP_FLAGS ir_op_flag_d2C IR_OPND_DATA IR_OPND_DATA IR_OPND_UNUSED),
    (''DIV'', IR_OP_FLAGS ir_op_flag_d3 IR_OPND_DATA IR_OPND_DATA IR_OPND_CONTROL_GUARD),
    (''MOD'', IR_OP_FLAGS ir_op_flag_d3 IR_OPND_DATA IR_OPND_DATA IR_OPND_CONTROL_GUARD),
    (''NEG'', IR_OP_FLAGS ir_op_flag_d1 IR_OPND_DATA IR_OPND_UNUSED IR_OPND_UNUSED),
    (''ABS'', IR_OP_FLAGS ir_op_flag_d1 IR_OPND_DATA IR_OPND_UNUSED IR_OPND_UNUSED),
    (''SEXT'', IR_OP_FLAGS ir_op_flag_d1 IR_OPND_DATA IR_OPND_UNUSED IR_OPND_UNUSED),
    (''ZEXT'', IR_OP_FLAGS ir_op_flag_d1 IR_OPND_DATA IR_OPND_UNUSED IR_OPND_UNUSED),
    (''TRUNC'', IR_OP_FLAGS ir_op_flag_d1 IR_OPND_DATA IR_OPND_UNUSED IR_OPND_UNUSED),
    (''BITCAST'', IR_OP_FLAGS ir_op_flag_d1 IR_OPND_DATA IR_OPND_UNUSED IR_OPND_UNUSED),
    (''INT2FP'', IR_OP_FLAGS ir_op_flag_d1 IR_OPND_DATA IR_OPND_UNUSED IR_OPND_UNUSED),
    (''FP2INT'', IR_OP_FLAGS ir_op_flag_d1 IR_OPND_DATA IR_OPND_UNUSED IR_OPND_UNUSED),
    (''FP2FP'', IR_OP_FLAGS ir_op_flag_d1 IR_OPND_DATA IR_OPND_UNUSED IR_OPND_UNUSED),
    (''PROTO'', IR_OP_FLAGS ir_op_flag_d1X1 IR_OPND_DATA IR_OPND_PROTO IR_OPND_UNUSED),
    (''ADD_OV'', IR_OP_FLAGS ir_op_flag_d2C IR_OPND_DATA IR_OPND_DATA IR_OPND_UNUSED),
    (''SUB_OV'', IR_OP_FLAGS ir_op_flag_d2 IR_OPND_DATA IR_OPND_DATA IR_OPND_UNUSED),
    (''MUL_OV'', IR_OP_FLAGS ir_op_flag_d2C IR_OPND_DATA IR_OPND_DATA IR_OPND_UNUSED),
    (''OVERFLOW'', IR_OP_FLAGS ir_op_flag_d1 IR_OPND_DATA IR_OPND_UNUSED IR_OPND_UNUSED),
    (''NOT'', IR_OP_FLAGS ir_op_flag_d1 IR_OPND_DATA IR_OPND_UNUSED IR_OPND_UNUSED),
    (''OR'', IR_OP_FLAGS ir_op_flag_d2C IR_OPND_DATA IR_OPND_DATA IR_OPND_UNUSED),
    (''AND'', IR_OP_FLAGS ir_op_flag_d2C IR_OPND_DATA IR_OPND_DATA IR_OPND_UNUSED),
    (''XOR'', IR_OP_FLAGS ir_op_flag_d2C IR_OPND_DATA IR_OPND_DATA IR_OPND_UNUSED),
    (''SHL'', IR_OP_FLAGS ir_op_flag_d2 IR_OPND_DATA IR_OPND_DATA IR_OPND_UNUSED),
    (''SHR'', IR_OP_FLAGS ir_op_flag_d2 IR_OPND_DATA IR_OPND_DATA IR_OPND_UNUSED),
    (''SAR'', IR_OP_FLAGS ir_op_flag_d2 IR_OPND_DATA IR_OPND_DATA IR_OPND_UNUSED),
    (''ROL'', IR_OP_FLAGS ir_op_flag_d2 IR_OPND_DATA IR_OPND_DATA IR_OPND_UNUSED),
    (''ROR'', IR_OP_FLAGS ir_op_flag_d2 IR_OPND_DATA IR_OPND_DATA IR_OPND_UNUSED),
    (''BSWAP'', IR_OP_FLAGS ir_op_flag_d1 IR_OPND_DATA IR_OPND_UNUSED IR_OPND_UNUSED),
    (''CTPOP'', IR_OP_FLAGS ir_op_flag_d1 IR_OPND_DATA IR_OPND_UNUSED IR_OPND_UNUSED),
    (''CTLZ'', IR_OP_FLAGS ir_op_flag_d1 IR_OPND_DATA IR_OPND_UNUSED IR_OPND_UNUSED),
    (''CTTZ'', IR_OP_FLAGS ir_op_flag_d1 IR_OPND_DATA IR_OPND_UNUSED IR_OPND_UNUSED),
    (''MIN'', IR_OP_FLAGS ir_op_flag_d2C IR_OPND_DATA IR_OPND_DATA IR_OPND_UNUSED),
    (''MAX'', IR_OP_FLAGS ir_op_flag_d2C IR_OPND_DATA IR_OPND_DATA IR_OPND_UNUSED),
    (''COND'', IR_OP_FLAGS ir_op_flag_d3 IR_OPND_DATA IR_OPND_DATA IR_OPND_DATA),
    (''VADDR'', IR_OP_FLAGS ir_op_flag_d1 IR_OPND_DATA IR_OPND_UNUSED IR_OPND_UNUSED),
    (''FRAME_ADDR'', IR_OP_FLAGS ir_op_flag_d0 IR_OPND_UNUSED IR_OPND_UNUSED IR_OPND_UNUSED),
    (''PHI'', IR_OP_FLAGS ir_op_flag_pN IR_OPND_CONTROL_DEP IR_OPND_DATA IR_OPND_DATA),
    (''COPY'', IR_OP_FLAGS ir_op_flag_d1X1 IR_OPND_DATA IR_OPND_PROB IR_OPND_UNUSED),
    (''PI'', IR_OP_FLAGS ir_op_flag_p2 IR_OPND_CONTROL_DEP IR_OPND_DATA IR_OPND_UNUSED),
    (''ARGVAL'', IR_OP_FLAGS ir_op_flag_d1X2 IR_OPND_DATA IR_OPND_NUM IR_OPND_NUM),
    (''PARAM'', IR_OP_FLAGS ir_op_flag_p1X2 IR_OPND_CONTROL_DEP IR_OPND_STR IR_OPND_NUM),
    (''VAR'', IR_OP_FLAGS ir_op_flag_p1X1 IR_OPND_CONTROL_DEP IR_OPND_STR IR_OPND_UNUSED),
    (''FUNC_ADDR'', IR_OP_FLAGS ir_op_flag_r0 IR_OPND_UNUSED IR_OPND_UNUSED IR_OPND_UNUSED),
    (''FUNC'', IR_OP_FLAGS ir_op_flag_r0 IR_OPND_UNUSED IR_OPND_UNUSED IR_OPND_UNUSED),
    (''SYM'', IR_OP_FLAGS ir_op_flag_r0 IR_OPND_UNUSED IR_OPND_UNUSED IR_OPND_UNUSED),
    (''LABEL'', IR_OP_FLAGS ir_op_flag_r0 IR_OPND_UNUSED IR_OPND_UNUSED IR_OPND_UNUSED),
    (''STR'', IR_OP_FLAGS ir_op_flag_r0 IR_OPND_UNUSED IR_OPND_UNUSED IR_OPND_UNUSED),
    (''CALL'', IR_OP_FLAGS ir_op_flag_xN IR_OPND_CONTROL IR_OPND_DATA IR_OPND_DATA),
    (''TAILCALL'', IR_OP_FLAGS ir_op_flag_xN IR_OPND_CONTROL IR_OPND_DATA IR_OPND_DATA),
    (''ALLOCA'', IR_OP_FLAGS ir_op_flag_a2 IR_OPND_CONTROL IR_OPND_DATA IR_OPND_UNUSED),
    (''AFREE'', IR_OP_FLAGS ir_op_flag_a2 IR_OPND_CONTROL IR_OPND_DATA IR_OPND_UNUSED),
    (''BLOCK_BEGIN'', IR_OP_FLAGS ir_op_flag_a1 IR_OPND_CONTROL IR_OPND_UNUSED IR_OPND_UNUSED),
    (''BLOCK_END'', IR_OP_FLAGS ir_op_flag_a2 IR_OPND_CONTROL IR_OPND_DATA IR_OPND_UNUSED),
    (''VLOAD'', IR_OP_FLAGS ir_op_flag_l2 IR_OPND_CONTROL IR_OPND_DATA IR_OPND_UNUSED),
    (''VLOAD_v'', IR_OP_FLAGS ir_op_flag_l2 IR_OPND_CONTROL IR_OPND_DATA IR_OPND_UNUSED),
    (''VSTORE'', IR_OP_FLAGS ir_op_flag_s3 IR_OPND_CONTROL IR_OPND_DATA IR_OPND_DATA),
    (''VSTORE_v'', IR_OP_FLAGS ir_op_flag_s3 IR_OPND_CONTROL IR_OPND_DATA IR_OPND_DATA),
    (''RLOAD'', IR_OP_FLAGS ir_op_flag_l1X2 IR_OPND_CONTROL IR_OPND_NUM IR_OPND_PROB),
    (''RSTORE'', IR_OP_FLAGS ir_op_flag_s2X1 IR_OPND_CONTROL IR_OPND_DATA IR_OPND_NUM),
    (''LOAD'', IR_OP_FLAGS ir_op_flag_l2 IR_OPND_CONTROL IR_OPND_DATA IR_OPND_UNUSED),
    (''LOAD_v'', IR_OP_FLAGS ir_op_flag_l2 IR_OPND_CONTROL IR_OPND_DATA IR_OPND_UNUSED),
    (''STORE'', IR_OP_FLAGS ir_op_flag_s3 IR_OPND_CONTROL IR_OPND_DATA IR_OPND_DATA),
    (''STORE_v'', IR_OP_FLAGS ir_op_flag_s3 IR_OPND_CONTROL IR_OPND_DATA IR_OPND_DATA),
    (''TLS'', IR_OP_FLAGS ir_op_flag_l1X2 IR_OPND_CONTROL IR_OPND_NUM IR_OPND_NUM),
    (''TRAP'', IR_OP_FLAGS ir_op_flag_x1 IR_OPND_CONTROL IR_OPND_UNUSED IR_OPND_UNUSED),
    (''VA_START'', IR_OP_FLAGS ir_op_flag_x2 IR_OPND_CONTROL IR_OPND_DATA IR_OPND_UNUSED),
    (''VA_END'', IR_OP_FLAGS ir_op_flag_x2 IR_OPND_CONTROL IR_OPND_DATA IR_OPND_UNUSED),
    (''VA_COPY'', IR_OP_FLAGS ir_op_flag_x3 IR_OPND_CONTROL IR_OPND_DATA IR_OPND_DATA),
    (''VA_ARG'', IR_OP_FLAGS ir_op_flag_x2X1 IR_OPND_CONTROL IR_OPND_DATA IR_OPND_PROB),
    (''GUARD'', IR_OP_FLAGS ir_op_flag_c3 IR_OPND_CONTROL IR_OPND_DATA IR_OPND_DATA),
    (''GUARD_NOT'', IR_OP_FLAGS ir_op_flag_c3 IR_OPND_CONTROL IR_OPND_DATA IR_OPND_DATA),
    (''SNAPSHOT'', IR_OP_FLAGS ir_op_flag_xN IR_OPND_CONTROL IR_OPND_DATA IR_OPND_DATA),
    (''START'', IR_OP_FLAGS ir_op_flag_S0X1 IR_OPND_CONTROL_REF IR_OPND_UNUSED IR_OPND_UNUSED),
    (''ENTRY'', IR_OP_FLAGS ir_op_flag_S1X1 IR_OPND_CONTROL IR_OPND_NUM IR_OPND_UNUSED),
    (''BEGIN'', IR_OP_FLAGS ir_op_flag_S1X1 IR_OPND_CONTROL IR_OPND_LABEL_REF IR_OPND_UNUSED),
    (''IF_TRUE'', IR_OP_FLAGS ir_op_flag_S1X1 IR_OPND_CONTROL IR_OPND_PROB IR_OPND_UNUSED),
    (''IF_FALSE'', IR_OP_FLAGS ir_op_flag_S1X1 IR_OPND_CONTROL IR_OPND_PROB IR_OPND_UNUSED),
    (''CASE_VAL'', IR_OP_FLAGS ir_op_flag_S2X1 IR_OPND_CONTROL IR_OPND_DATA IR_OPND_PROB),
    (''CASE_RANGE'', IR_OP_FLAGS ir_op_flag_S3 IR_OPND_CONTROL IR_OPND_DATA IR_OPND_DATA),
    (''CASE_DEFAULT'', IR_OP_FLAGS ir_op_flag_S1X1 IR_OPND_CONTROL IR_OPND_PROB IR_OPND_UNUSED),
    (''MERGE'', IR_OP_FLAGS ir_op_flag_SN IR_OPND_CONTROL IR_OPND_CONTROL IR_OPND_CONTROL),
    (''LOOP_BEGIN'', IR_OP_FLAGS ir_op_flag_SN IR_OPND_CONTROL IR_OPND_CONTROL IR_OPND_CONTROL),
    (''END'', IR_OP_FLAGS ir_op_flag_E1 IR_OPND_CONTROL IR_OPND_UNUSED IR_OPND_UNUSED),
    (''LOOP_END'', IR_OP_FLAGS ir_op_flag_E1 IR_OPND_CONTROL IR_OPND_UNUSED IR_OPND_UNUSED),
    (''IF'', IR_OP_FLAGS ir_op_flag_E2 IR_OPND_CONTROL IR_OPND_DATA IR_OPND_UNUSED),
    (''SWITCH'', IR_OP_FLAGS ir_op_flag_E2 IR_OPND_CONTROL IR_OPND_DATA IR_OPND_UNUSED),
    (''IGOTO'', IR_OP_FLAGS ir_op_flag_E2 IR_OPND_CONTROL IR_OPND_DATA IR_OPND_UNUSED),
    (''IJMP'', IR_OP_FLAGS ir_op_flag_T2X1 IR_OPND_CONTROL IR_OPND_DATA IR_OPND_CONTROL_REF),
    (''RETURN'', IR_OP_FLAGS ir_op_flag_T2X1 IR_OPND_CONTROL IR_OPND_DATA IR_OPND_CONTROL_REF),
    (''UNREACHABLE'', IR_OP_FLAGS ir_op_flag_T1X2 IR_OPND_CONTROL IR_OPND_UNUSED IR_OPND_CONTROL_REF),
    (''ASM'', IR_OP_FLAGS ir_op_flag_xN IR_OPND_CONTROL IR_OPND_DATA IR_OPND_DATA),
    (''ASM_OUT'', IR_OP_FLAGS ir_op_flag_x1 IR_OPND_CONTROL IR_OPND_UNUSED IR_OPND_UNUSED),
    (''ASM_GOTO'', IR_OP_FLAGS ir_op_flag_E1 IR_OPND_CONTROL IR_OPND_UNUSED IR_OPND_UNUSED),
    (''EXITCALL'', IR_OP_FLAGS ir_op_flag_x2 IR_OPND_CONTROL IR_OPND_DATA IR_OPND_UNUSED)]"

definition ir_op_flags :: "ir_op \<Rightarrow> nat" where
  "ir_op_flags op = (if op < length ir_ops then snd (ir_ops ! op) else 0)"

definition ir_op_name :: "ir_op \<Rightarrow> string" where
  "ir_op_name op = (if op < length ir_ops then fst (ir_ops ! op) else [])"

definition IR_INPUT_EDGES_COUNT :: "nat \<Rightarrow> nat" where
  "IR_INPUT_EDGES_COUNT flags = flags AND IR_OP_FLAG_EDGES_MASK"

definition IR_OPERANDS_COUNT :: "nat \<Rightarrow> nat" where
  "IR_OPERANDS_COUNT flags = drop_bit 3 (flags AND IR_OP_FLAG_OPERANDS_MASK)"

definition IR_OP_HAS_VAR_INPUTS :: "nat \<Rightarrow> bool" where
  "IR_OP_HAS_VAR_INPUTS flags \<longleftrightarrow> flags AND IR_OP_FLAG_VAR_INPUTS \<noteq> 0"

definition IR_OPND_KIND :: "nat \<Rightarrow> nat \<Rightarrow> nat" where
  "IR_OPND_KIND flags i = drop_bit (16 + 4 * (if i > 3 then 3 else i)) flags AND 15"

definition IR_IS_REF_OPND_KIND :: "nat \<Rightarrow> bool" where
  "IR_IS_REF_OPND_KIND kind \<longleftrightarrow> kind \<ge> IR_OPND_DATA \<and> kind \<le> IR_OPND_CONTROL_GUARD"

definition IR_IS_CONST_OP :: "ir_op \<Rightarrow> bool" where
  "IR_IS_CONST_OP op \<longleftrightarrow> op > IR_NOP \<and> op \<le> IR_C_FLOAT"

definition IR_IS_FOLDABLE_OP :: "ir_op \<Rightarrow> bool" where
  "IR_IS_FOLDABLE_OP op \<longleftrightarrow> op \<le> IR_LAST_FOLDABLE_OP"

definition IR_IS_SYM_CONST :: "ir_op \<Rightarrow> bool" where
  "IR_IS_SYM_CONST op \<longleftrightarrow> op = IR_STR \<or> op = IR_SYM \<or> op = IR_FUNC \<or> op = IR_LABEL"

definition IR_IS_BB_START :: "ir_op \<Rightarrow> bool" where
  "IR_IS_BB_START op \<longleftrightarrow> ir_op_flags op AND IR_OP_FLAG_BB_START \<noteq> 0"

definition IR_IS_BB_END :: "ir_op \<Rightarrow> bool" where
  "IR_IS_BB_END op \<longleftrightarrow> ir_op_flags op AND IR_OP_FLAG_BB_END \<noteq> 0"

definition IR_IS_BB_MERGE :: "ir_op \<Rightarrow> bool" where
  "IR_IS_BB_MERGE op \<longleftrightarrow> op = IR_MERGE \<or> op = IR_LOOP_BEGIN"

section \<open>Instructions\<close>

text \<open>
  \<open>ir_insn\<close> is 16 bytes of overlapping views. A slot is the head of an instruction (opcode, type,
  a 16-bit \<open>inputs_count\<close> shared with \<open>prev_insn_offset\<close> and \<open>proto\<close>, three operands), a constant
  (opcode, type, \<open>prev_const\<close> in the place of \<open>op1\<close>, the 64-bit \<open>val\<close> in the place of \<open>op2\<close> and
  \<open>op3\<close>), or four further operands of a longer instruction, whose \<open>ops[0]\<close> lies where a head has
  \<open>optx\<close>. The views are separate fields; no modelled operation writes one and reads another.
\<close>

record ir_insn =
  i_op :: ir_op
  i_type :: ir_type
  i_n :: nat
  i_op1 :: ir_ref
  i_op2 :: ir_ref
  i_op3 :: ir_ref
  i_val :: u64
  i_ops0 :: ir_ref

abbreviation (input) IR_UNUSED :: ir_ref where "IR_UNUSED \<equiv> 0"
abbreviation (input) IR_NULL :: ir_ref where "IR_NULL \<equiv> -1"
abbreviation (input) IR_FALSE :: ir_ref where "IR_FALSE \<equiv> -2"
abbreviation (input) IR_TRUE :: ir_ref where "IR_TRUE \<equiv> -3"

definition IR_IS_CONST_REF :: "ir_ref \<Rightarrow> bool" where
  "IR_IS_CONST_REF ref \<longleftrightarrow> ref < 0"

definition mk_insn :: "ir_op \<Rightarrow> ir_type \<Rightarrow> nat \<Rightarrow> ir_ref \<Rightarrow> ir_ref \<Rightarrow> ir_ref \<Rightarrow> ir_insn" where
  "mk_insn op t n a b c =
     \<lparr>i_op = op, i_type = t, i_n = n, i_op1 = a, i_op2 = b, i_op3 = c, i_val = 0, i_ops0 = 0\<rparr>"

definition mk_const :: "ir_op \<Rightarrow> ir_type \<Rightarrow> nat \<Rightarrow> ir_ref \<Rightarrow> u64 \<Rightarrow> ir_insn" where
  "mk_const op t n prev v =
     \<lparr>i_op = op, i_type = t, i_n = n, i_op1 = prev, i_op2 = 0, i_op3 = 0, i_val = v, i_ops0 = 0\<rparr>"

text \<open>\<open>MAKE_NOP\<close>.\<close>

definition MAKE_NOP :: ir_insn where
  "MAKE_NOP = mk_insn IR_NOP IR_VOID 0 IR_UNUSED IR_UNUSED IR_UNUSED"

definition ir_operands_count :: "ir_insn \<Rightarrow> nat" where
  "ir_operands_count insn =
     (let flags = ir_op_flags (i_op insn)
      in if IR_OP_HAS_VAR_INPUTS flags then i_n insn else IR_OPERANDS_COUNT flags)"

definition ir_input_edges_count :: "ir_insn \<Rightarrow> nat" where
  "ir_input_edges_count insn =
     (let flags = ir_op_flags (i_op insn)
      in if IR_OP_HAS_VAR_INPUTS flags then i_n insn else IR_INPUT_EDGES_COUNT flags)"

definition ir_insn_inputs_to_len :: "nat \<Rightarrow> nat" where
  "ir_insn_inputs_to_len inputs_count = 1 + drop_bit 2 inputs_count"

definition ir_insn_len :: "ir_insn \<Rightarrow> nat" where
  "ir_insn_len insn = ir_insn_inputs_to_len (i_n insn)"

text \<open>The union views of a constant: \<open>val.u8\<close>, \<open>val.i8\<close> and so on, as numbers.\<close>

definition val_u8 :: "u64 \<Rightarrow> int" where "val_u8 v = take_bit 8 (uint v)"
definition val_u16 :: "u64 \<Rightarrow> int" where "val_u16 v = take_bit 16 (uint v)"
definition val_u32 :: "u64 \<Rightarrow> int" where "val_u32 v = take_bit 32 (uint v)"
definition val_u64 :: "u64 \<Rightarrow> int" where "val_u64 v = uint v"
definition val_i8 :: "u64 \<Rightarrow> int" where "val_i8 v = signed_take_bit 7 (uint v)"
definition val_i16 :: "u64 \<Rightarrow> int" where "val_i16 v = signed_take_bit 15 (uint v)"
definition val_i32 :: "u64 \<Rightarrow> int" where "val_i32 v = signed_take_bit 31 (uint v)"
definition val_i64 :: "u64 \<Rightarrow> int" where "val_i64 v = sint v"

section \<open>The start-up consistency check\<close>

definition ir_consistency_check :: bool where
  "ir_consistency_check \<longleftrightarrow>
     IR_UNUSED = (0::int) \<and> IR_NOP = (0::nat) \<and>
     ir_type_num IR_BOOL = IR_C_BOOL \<and> ir_type_num IR_U8 = IR_C_U8 \<and>
     ir_type_num IR_U16 = IR_C_U16 \<and> ir_type_num IR_U32 = IR_C_U32 \<and>
     ir_type_num IR_U64 = IR_C_U64 \<and> ir_type_num IR_ADDR = IR_C_ADDR \<and>
     ir_type_num IR_CHAR = IR_C_CHAR \<and> ir_type_num IR_I8 = IR_C_I8 \<and>
     ir_type_num IR_I16 = IR_C_I16 \<and> ir_type_num IR_I32 = IR_C_I32 \<and>
     ir_type_num IR_I64 = IR_C_I64 \<and> ir_type_num IR_DOUBLE = IR_C_DOUBLE \<and>
     ir_type_num IR_FLOAT = IR_C_FLOAT \<and>
     IR_EQ XOR 1 = IR_NE \<and> IR_LT XOR 3 = IR_GT \<and> IR_GT XOR 3 = IR_LT \<and>
     IR_LE XOR 3 = IR_GE \<and> IR_GE XOR 3 = IR_LE \<and> IR_ULT XOR 3 = IR_UGT \<and>
     IR_UGT XOR 3 = IR_ULT \<and> IR_ULE XOR 3 = IR_UGE \<and> IR_UGE XOR 3 = IR_ULE \<and>
     IR_ORDERED XOR 1 = IR_UNORDERED \<and> IR_ADD + 1 = IR_SUB"

section \<open>Facts\<close>

declare IR_IS_TYPE_UNSIGNED_def [ir_defs] IR_IS_TYPE_SIGNED_def [ir_defs]
  IR_IS_TYPE_INT_def [ir_defs] IR_IS_TYPE_FP_def [ir_defs] IR_IS_CONST_REF_def [ir_defs]
  IR_IS_CONST_OP_def [ir_defs] IR_IS_SYM_CONST_def [ir_defs] IR_IS_FOLDABLE_OP_def [ir_defs]

lemma consistency: ir_consistency_check
  by (simp add: ir_consistency_check_def)

lemma type_size_bound: "ir_type_size t \<le> 8"
  by (cases t) simp_all

lemma type_flags_size: "ir_type_flags t AND 15 = ir_type_size t"
  by (cases t) simp_all

lemma type_flags_signed: "IR_IS_TYPE_SIGNED t \<longleftrightarrow> ir_type_flags t AND IR_TYPE_SIGNED \<noteq> 0"
  by (cases t) (simp_all add: ir_defs)

lemma type_flags_fp: "IR_IS_TYPE_FP t \<longleftrightarrow> ir_type_flags t AND IR_TYPE_FP \<noteq> 0"
  by (cases t) (simp_all add: ir_defs)

lemma type_classes: "IR_IS_TYPE_INT t \<longleftrightarrow> \<not> IR_IS_TYPE_FP t"
  "IR_IS_TYPE_INT t \<longleftrightarrow> IR_IS_TYPE_UNSIGNED t \<or> IR_IS_TYPE_SIGNED t"
  by (auto simp: ir_defs)

lemma length_ir_ops: "length ir_ops = IR_LAST_OP"
  by (simp add: ir_ops_def)

lemma ir_ops_rows:
  "list_all (\<lambda>(_, f). (IR_OP_HAS_VAR_INPUTS f \<or> IR_INPUT_EDGES_COUNT f \<le> IR_OPERANDS_COUNT f)
      \<and> \<not> (f AND IR_OP_FLAG_BB_START \<noteq> 0 \<and> f AND IR_OP_FLAG_BB_END \<noteq> 0)) ir_ops"
  by (simp add: ir_ops_def IR_OP_FLAGS_def op_flag_def IR_OP_HAS_VAR_INPUTS_def
      IR_INPUT_EDGES_COUNT_def IR_OPERANDS_COUNT_def)

end
