(* ===== verification/Context.thy ===== *)
theory Context
  imports IR_Types
begin

text \<open>
  The IR context and IR construction (src/ir.h, src/ir.c): the two-directional instruction array
  (constants at negative references, instructions at positive ones), its growth, the interned
  constant pool with its hash chains, and the emission of instructions. Memory obtained from the
  allocator has arbitrary contents: \<open>ir_init\<close> takes them as an argument. The allocator is taken to
  succeed.
\<close>

section \<open>State\<close>

record ir_use_list =
  ul_refs :: ir_ref
  ul_count :: ir_ref

record ir_ctx =
  ir_base :: "ir_ref \<Rightarrow> ir_insn"
  insns_count :: ir_ref
  insns_limit :: ir_ref
  consts_count :: ir_ref
  consts_limit :: ir_ref
  const_hash_mask :: u64
  const_hash :: "u64 \<Rightarrow> ir_ref"
  ctx_flags :: nat
  fold_cse_limit :: ir_ref
  fold_insn :: ir_insn
  use_lists :: "(ir_ref \<Rightarrow> ir_use_list) option"
  use_edges :: "ir_ref \<Rightarrow> ir_ref"
  use_edges_count :: ir_ref
  prev_insn_chain :: "ir_op \<Rightarrow> ir_ref"
  control :: ir_ref

abbreviation (input) IR_OPT_FOLDING :: nat where "IR_OPT_FOLDING \<equiv> 2 ^ 20"
abbreviation (input) IR_CONST_HASH_SIZE :: u64 where "IR_CONST_HASH_SIZE \<equiv> 64"

section \<open>Growth of the instruction array\<close>

definition grow_limit :: "ir_ref \<Rightarrow> ir_ref" where
  "grow_limit n = (if n < 1024 * 4 then n * 2
     else if n < 1024 * 4 * 2 then 1024 * 4 * 2 else n + 1024 * 4)"

definition ir_grow_bottom :: "ir_ctx \<Rightarrow> ir_ctx" where
  "ir_grow_bottom ctx = ctx\<lparr>consts_limit := grow_limit (consts_limit ctx)\<rparr>"

definition ir_next_const :: "ir_ctx \<Rightarrow> ir_ctx \<times> ir_ref" where
  "ir_next_const ctx =
     (let ref = consts_count ctx;
          ctx = (if ref \<ge> consts_limit ctx then ir_grow_bottom ctx else ctx)
      in (ctx\<lparr>consts_count := ref + 1\<rparr>, - ref))"

text \<open>\<open>use_lists\<close> is enlarged together with the array, with zeroed entries.\<close>

definition ir_grow_top :: "ir_ctx \<Rightarrow> ir_ctx" where
  "ir_grow_top ctx =
     (let old = insns_limit ctx; new = grow_limit old
      in ctx\<lparr>insns_limit := new,
             use_lists := map_option (\<lambda>ul r. if old \<le> r \<and> r < new
               then \<lparr>ul_refs = 0, ul_count = 0\<rparr> else ul r) (use_lists ctx)\<rparr>)"

definition ir_next_insn :: "ir_ctx \<Rightarrow> ir_ctx \<times> ir_ref" where
  "ir_next_insn ctx =
     (let ref = insns_count ctx;
          ctx = (if ref \<ge> insns_limit ctx then ir_grow_top ctx else ctx)
      in (ctx\<lparr>insns_count := ref + 1\<rparr>, ref))"

definition ir_truncate :: "ir_ctx \<Rightarrow> ir_ctx" where
  "ir_truncate ctx = ctx\<lparr>insns_limit := insns_count ctx, consts_limit := consts_count ctx\<rparr>"

definition ir_init :: "(ir_ref \<Rightarrow> ir_insn) \<Rightarrow> nat \<Rightarrow> ir_ref \<Rightarrow> ir_ref \<Rightarrow> ir_ctx" where
  "ir_init mem flags climit ilimit =
     \<lparr>ir_base = mem
        (IR_UNUSED := MAKE_NOP,
         IR_NULL := mk_const IR_C_ADDR IR_ADDR 0 (i_op1 (mem IR_NULL)) 0,
         IR_FALSE := mk_const IR_C_BOOL IR_BOOL 0 (i_op1 (mem IR_FALSE)) 0,
         IR_TRUE := mk_const IR_C_BOOL IR_BOOL 0 (i_op1 (mem IR_TRUE)) 1),
      insns_count = IR_UNUSED + 1, insns_limit = ilimit,
      consts_count = - (IR_TRUE - 1), consts_limit = climit,
      const_hash_mask = IR_CONST_HASH_SIZE - 1, const_hash = (\<lambda>_. 0),
      ctx_flags = flags, fold_cse_limit = IR_UNUSED + 1, fold_insn = MAKE_NOP,
      use_lists = None, use_edges = (\<lambda>_. 0), use_edges_count = 0,
      prev_insn_chain = (\<lambda>_. 0), control = 0\<rparr>"

section \<open>Constants\<close>

text \<open>\<open>IR_OPTX\<close>: opcode, type and the 16-bit prototype of a constant in one word.\<close>

definition IR_OPTX :: "ir_op \<Rightarrow> ir_type \<Rightarrow> nat \<Rightarrow> u64" where
  "IR_OPTX op t n = word_of_nat op OR push_bit 8 (word_of_nat (ir_type_num t)) OR push_bit 16 (word_of_nat n)"

definition ir_const_hash :: "u64 \<Rightarrow> u64 \<Rightarrow> u64" where
  "ir_const_hash v optx = v XOR drop_bit 32 v XOR optx"

definition insn_hash :: "ir_insn \<Rightarrow> u64" where
  "insn_hash insn = ir_const_hash (i_val insn) (IR_OPTX (i_op insn) (i_type insn) (i_n insn))"

definition ir_unique_const_addr :: "ir_ctx \<Rightarrow> u64 \<Rightarrow> ir_ctx \<times> ir_ref" where
  "ir_unique_const_addr ctx addr =
     (let (ctx, ref) = ir_next_const ctx
      in (ctx\<lparr>ir_base := (ir_base ctx)(ref := mk_const (ir_type_num IR_ADDR) IR_ADDR 0 IR_UNUSED addr)\<rparr>, ref))"

text \<open>One round of the rehash loop: put constant \<open>ref\<close> at the head of its new chain.\<close>

definition rehash_one :: "ir_ref \<Rightarrow> ir_ctx \<Rightarrow> ir_ctx" where
  "rehash_one ref ctx =
     (let insn = ir_base ctx ref; hash = insn_hash insn AND const_hash_mask ctx
      in ctx\<lparr>ir_base := (ir_base ctx)(ref := insn\<lparr>i_op1 := const_hash ctx hash\<rparr>),
             const_hash := (const_hash ctx)(hash := ref)\<rparr>)"

definition ir_const_hash_rehash :: "ir_ctx \<Rightarrow> ir_ctx" where
  "ir_const_hash_rehash ctx =
     fold rehash_one (map (\<lambda>i. IR_TRUE - 1 - int i) [0..<nat (consts_count ctx + (IR_TRUE - 1))])
       (ctx\<lparr>const_hash_mask := (const_hash_mask ctx + 1) * 2 - 1, const_hash := (\<lambda>_. 0)\<rparr>)"

text \<open>
  The chain walk of \<open>ir_const_ex\<close>. Chains lead from newer to older constants, that is towards 0
  (\<open>chains_ok\<close> of the constant pool); the last test only makes the recursion total on contexts no operation
  builds.
\<close>

function const_chain_find :: "(ir_ref \<Rightarrow> ir_insn) \<Rightarrow> u64 \<Rightarrow> ir_op \<Rightarrow> ir_type \<Rightarrow> nat \<Rightarrow> ir_ref \<Rightarrow> ir_ref" where
  "const_chain_find base v op t n ref =
     (if ref = 0 then 0
      else if i_val (base ref) = v \<and> i_op (base ref) = op \<and> i_type (base ref) = t \<and> i_n (base ref) = n
      then ref
      else if ref < i_op1 (base ref) \<and> i_op1 (base ref) \<le> 0
      then const_chain_find base v op t n (i_op1 (base ref)) else 0)"
  by pat_completeness auto
termination
  by (relation "measure (\<lambda>(base, v, op, t, n, ref). nat (- ref))") auto

declare const_chain_find.simps [simp del]

definition ir_const_ex :: "ir_ctx \<Rightarrow> u64 \<Rightarrow> ir_type \<Rightarrow> ir_op \<Rightarrow> nat \<Rightarrow> ir_ctx \<times> ir_ref" where
  "ir_const_ex ctx v t op n =
     (if t = IR_BOOL then (ctx, if v \<noteq> 0 then IR_TRUE else IR_FALSE)
      else if t = IR_ADDR \<and> v = 0 then (ctx, IR_NULL)
      else
        let full = ir_const_hash v (IR_OPTX op t n);
            found = const_chain_find (ir_base ctx) v op t n (const_hash ctx (full AND const_hash_mask ctx))
        in if found \<noteq> 0 then (ctx, found)
           else
             let ctx = (if consts_count ctx > uint (const_hash_mask ctx) then ir_const_hash_rehash ctx else ctx);
                 hash = full AND const_hash_mask ctx;
                 prev = const_hash ctx hash;
                 ctx = ctx\<lparr>const_hash := (const_hash ctx)(hash := - consts_count ctx)\<rparr>;
                 (ctx, ref) = ir_next_const ctx
             in (ctx\<lparr>ir_base := (ir_base ctx)(ref := mk_const op t n prev v)\<rparr>, ref))"

definition ir_const :: "ir_ctx \<Rightarrow> u64 \<Rightarrow> ir_type \<Rightarrow> ir_ctx \<times> ir_ref" where
  "ir_const ctx v t = ir_const_ex ctx v t (ir_type_num t) 0"

text \<open>The typed constructors: the argument is sign- or zero-extended into the 64-bit value.\<close>

definition ir_const_i8 :: "ir_ctx \<Rightarrow> 8 word \<Rightarrow> ir_ctx \<times> ir_ref" where
  "ir_const_i8 ctx c = ir_const ctx (scast c) IR_I8"
definition ir_const_i16 :: "ir_ctx \<Rightarrow> 16 word \<Rightarrow> ir_ctx \<times> ir_ref" where
  "ir_const_i16 ctx c = ir_const ctx (scast c) IR_I16"
definition ir_const_i32 :: "ir_ctx \<Rightarrow> 32 word \<Rightarrow> ir_ctx \<times> ir_ref" where
  "ir_const_i32 ctx c = ir_const ctx (scast c) IR_I32"
definition ir_const_i64 :: "ir_ctx \<Rightarrow> 64 word \<Rightarrow> ir_ctx \<times> ir_ref" where
  "ir_const_i64 ctx c = ir_const ctx c IR_I64"
definition ir_const_u8 :: "ir_ctx \<Rightarrow> 8 word \<Rightarrow> ir_ctx \<times> ir_ref" where
  "ir_const_u8 ctx c = ir_const ctx (ucast c) IR_U8"
definition ir_const_u16 :: "ir_ctx \<Rightarrow> 16 word \<Rightarrow> ir_ctx \<times> ir_ref" where
  "ir_const_u16 ctx c = ir_const ctx (ucast c) IR_U16"
definition ir_const_u32 :: "ir_ctx \<Rightarrow> 32 word \<Rightarrow> ir_ctx \<times> ir_ref" where
  "ir_const_u32 ctx c = ir_const ctx (ucast c) IR_U32"
definition ir_const_u64 :: "ir_ctx \<Rightarrow> 64 word \<Rightarrow> ir_ctx \<times> ir_ref" where
  "ir_const_u64 ctx c = ir_const ctx c IR_U64"
definition ir_const_bool :: "ir_ctx \<Rightarrow> bool \<Rightarrow> ir_ctx \<times> ir_ref" where
  "ir_const_bool ctx c = (ctx, if c then IR_TRUE else IR_FALSE)"
definition ir_const_char :: "ir_ctx \<Rightarrow> 8 word \<Rightarrow> ir_ctx \<times> ir_ref" where
  "ir_const_char ctx c = ir_const ctx (scast c) IR_CHAR"
definition ir_const_float :: "ir_ctx \<Rightarrow> 32 word \<Rightarrow> ir_ctx \<times> ir_ref" where
  "ir_const_float ctx c = ir_const ctx (ucast c) IR_FLOAT"
definition ir_const_double :: "ir_ctx \<Rightarrow> 64 word \<Rightarrow> ir_ctx \<times> ir_ref" where
  "ir_const_double ctx c = ir_const ctx c IR_DOUBLE"
definition ir_const_addr :: "ir_ctx \<Rightarrow> u64 \<Rightarrow> ir_ctx \<times> ir_ref" where
  "ir_const_addr ctx c = (if c = 0 then (ctx, IR_NULL) else ir_const ctx c IR_ADDR)"
definition ir_const_func_addr :: "ir_ctx \<Rightarrow> u64 \<Rightarrow> nat \<Rightarrow> ir_ctx \<times> ir_ref" where
  "ir_const_func_addr ctx c proto =
     (if c = 0 then (ctx, IR_NULL) else ir_const_ex ctx c IR_ADDR IR_FUNC_ADDR proto)"
definition ir_const_func :: "ir_ctx \<Rightarrow> int \<Rightarrow> nat \<Rightarrow> ir_ctx \<times> ir_ref" where
  "ir_const_func ctx str proto = ir_const_ex ctx (word_of_int str) IR_ADDR IR_FUNC proto"
definition ir_const_sym :: "ir_ctx \<Rightarrow> int \<Rightarrow> ir_ctx \<times> ir_ref" where
  "ir_const_sym ctx str = ir_const_ex ctx (word_of_int str) IR_ADDR IR_SYM 0"
definition ir_const_str :: "ir_ctx \<Rightarrow> int \<Rightarrow> ir_ctx \<times> ir_ref" where
  "ir_const_str ctx str = ir_const_ex ctx (word_of_int str) IR_ADDR IR_STR 0"
definition ir_const_label :: "ir_ctx \<Rightarrow> int \<Rightarrow> ir_ctx \<times> ir_ref" where
  "ir_const_label ctx str = ir_const_ex ctx (word_of_int str) IR_ADDR IR_LABEL 0"

section \<open>Emission\<close>

text \<open>
  \<open>ir_emit\<close> writes a head into the next slot. The four views of an \<open>ir_insn\<close> that are not written
  keep what the slot held.
\<close>

definition ir_emit :: "ir_ctx \<Rightarrow> ir_op \<Rightarrow> ir_type \<Rightarrow> nat \<Rightarrow> ir_ref \<Rightarrow> ir_ref \<Rightarrow> ir_ref \<Rightarrow> ir_ctx \<times> ir_ref" where
  "ir_emit ctx op t n a b c =
     (let (ctx, ref) = ir_next_insn ctx
      in (ctx\<lparr>ir_base := (ir_base ctx)(ref := mk_insn op t n a b c)\<rparr>, ref))"

definition ir_emit0 :: "ir_ctx \<Rightarrow> ir_op \<Rightarrow> ir_type \<Rightarrow> ir_ctx \<times> ir_ref" where
  "ir_emit0 ctx op t = ir_emit ctx op t 0 IR_UNUSED IR_UNUSED IR_UNUSED"
definition ir_emit1 :: "ir_ctx \<Rightarrow> ir_op \<Rightarrow> ir_type \<Rightarrow> ir_ref \<Rightarrow> ir_ctx \<times> ir_ref" where
  "ir_emit1 ctx op t a = ir_emit ctx op t 0 a IR_UNUSED IR_UNUSED"
definition ir_emit2 :: "ir_ctx \<Rightarrow> ir_op \<Rightarrow> ir_type \<Rightarrow> ir_ref \<Rightarrow> ir_ref \<Rightarrow> ir_ctx \<times> ir_ref" where
  "ir_emit2 ctx op t a b = ir_emit ctx op t 0 a b IR_UNUSED"
definition ir_emit3 :: "ir_ctx \<Rightarrow> ir_op \<Rightarrow> ir_type \<Rightarrow> ir_ref \<Rightarrow> ir_ref \<Rightarrow> ir_ref \<Rightarrow> ir_ctx \<times> ir_ref" where
  "ir_emit3 ctx op t a b c = ir_emit ctx op t 0 a b c"

text \<open>
  Operand \<open>n\<close> of the instruction at \<open>ref\<close>: \<open>insn->ops + n\<close> crosses into the following slots, four
  operands to a slot.
\<close>

definition slot_get :: "ir_insn \<Rightarrow> nat \<Rightarrow> ir_ref" where
  "slot_get insn k = (if k = 0 then i_ops0 insn else if k = 1 then i_op1 insn
     else if k = 2 then i_op2 insn else i_op3 insn)"

definition slot_set :: "ir_insn \<Rightarrow> nat \<Rightarrow> ir_ref \<Rightarrow> ir_insn" where
  "slot_set insn k v = (if k = 0 then insn\<lparr>i_ops0 := v\<rparr> else if k = 1 then insn\<lparr>i_op1 := v\<rparr>
     else if k = 2 then insn\<lparr>i_op2 := v\<rparr> else insn\<lparr>i_op3 := v\<rparr>)"

definition ir_insn_op :: "(ir_ref \<Rightarrow> ir_insn) \<Rightarrow> ir_ref \<Rightarrow> nat \<Rightarrow> ir_ref" where
  "ir_insn_op base ref n = slot_get (base (ref + int (n div 4))) (n mod 4)"

definition ir_insn_set_op :: "(ir_ref \<Rightarrow> ir_insn) \<Rightarrow> ir_ref \<Rightarrow> nat \<Rightarrow> ir_ref \<Rightarrow> (ir_ref \<Rightarrow> ir_insn)" where
  "ir_insn_set_op base ref n v =
     (let r = ref + int (n div 4) in base(r := slot_set (base r) (n mod 4) v))"

definition ir_get_op :: "ir_ctx \<Rightarrow> ir_ref \<Rightarrow> nat \<Rightarrow> ir_ref" where
  "ir_get_op ctx ref n = ir_insn_op (ir_base ctx) ref n"

definition ir_set_op :: "ir_ctx \<Rightarrow> ir_ref \<Rightarrow> nat \<Rightarrow> ir_ref \<Rightarrow> ir_ctx" where
  "ir_set_op ctx ref n v = ctx\<lparr>ir_base := ir_insn_set_op (ir_base ctx) ref n v\<rparr>"

definition ir_set_op1 :: "ir_ctx \<Rightarrow> ir_ref \<Rightarrow> ir_ref \<Rightarrow> ir_ctx" where
  "ir_set_op1 ctx ref v = ctx\<lparr>ir_base := (ir_base ctx)(ref := (ir_base ctx ref)\<lparr>i_op1 := v\<rparr>)\<rparr>"
definition ir_set_op2 :: "ir_ctx \<Rightarrow> ir_ref \<Rightarrow> ir_ref \<Rightarrow> ir_ctx" where
  "ir_set_op2 ctx ref v = ctx\<lparr>ir_base := (ir_base ctx)(ref := (ir_base ctx ref)\<lparr>i_op2 := v\<rparr>)\<rparr>"
definition ir_set_op3 :: "ir_ctx \<Rightarrow> ir_ref \<Rightarrow> ir_ref \<Rightarrow> ir_ctx" where
  "ir_set_op3 ctx ref v = ctx\<lparr>ir_base := (ir_base ctx)(ref := (ir_base ctx ref)\<lparr>i_op3 := v\<rparr>)\<rparr>"

text \<open>\<open>ir_insn_find_op\<close>: the first operand equal to \<open>v\<close>, or 0.\<close>

definition ir_insn_find_op :: "(ir_ref \<Rightarrow> ir_insn) \<Rightarrow> ir_ref \<Rightarrow> ir_ref \<Rightarrow> nat" where
  "ir_insn_find_op base ref v =
     (case find (\<lambda>i. ir_insn_op base ref i = v) [1..<Suc (i_n (base ref))] of None \<Rightarrow> 0 | Some i \<Rightarrow> i)"

text \<open>
  \<open>ir_emit_N\<close> reserves \<open>1 + count / 4\<close> slots. The growth loop doubles or extends the array until the
  last of them fits; \<open>grow_top_until\<close> is that loop, started with a positive limit.
\<close>

function grow_top_until :: "ir_ref \<Rightarrow> ir_ctx \<Rightarrow> ir_ctx" where
  "grow_top_until need ctx =
     (if need \<ge> insns_limit ctx \<and> 0 < insns_limit ctx then grow_top_until need (ir_grow_top ctx) else ctx)"
  by pat_completeness auto
termination
  by (relation "measure (\<lambda>(need, ctx). nat (need + 1 - insns_limit ctx))")
     (auto simp: ir_grow_top_def grow_limit_def Let_def)

declare grow_top_until.simps [simp del]

definition ir_emit_N :: "ir_ctx \<Rightarrow> ir_op \<Rightarrow> ir_type \<Rightarrow> nat \<Rightarrow> ir_ctx \<times> ir_ref" where
  "ir_emit_N ctx op t count =
     (let ref = insns_count ctx;
          ctx = grow_top_until (ref + int (count div 4)) ctx;
          ctx = ctx\<lparr>insns_count := ref + 1 + int (count div 4)\<rparr>;
          head = (ir_base ctx ref)\<lparr>i_op := op, i_type := t, i_n := count\<rparr>;
          base = fold (\<lambda>i b. ir_insn_set_op b ref i IR_UNUSED) [1..<Suc (count OR 3)]
                   ((ir_base ctx)(ref := head))
      in (ctx\<lparr>ir_base := base\<rparr>, ref))"

end
