(* ===== verification/Bits.thy ===== *)
theory Bits
  imports Prelude
begin

text \<open>
  The helper routines of src/ir_private.h on machine words: alignment, powers of two, rotations and
  the counts of trailing and leading zeros, with the shift-based code that stands in for the
  compiler builtins. A C shift by the full width is undefined, so the 32- and 64-bit rotations are
  partial.
\<close>

section \<open>Definitions\<close>

definition IR_ALIGNED_SIZE :: "'a::len word \<Rightarrow> 'a word \<Rightarrow> 'a word" where
  "IR_ALIGNED_SIZE sz alignment = (sz + (alignment - 1)) AND NOT (alignment - 1)"

definition IR_IS_POWER_OF_TWO :: "'a::len word \<Rightarrow> bool" where
  "IR_IS_POWER_OF_TWO x \<longleftrightarrow> x \<noteq> 0 \<and> x AND (x - 1) = 0"

text \<open>
  The narrow rotations compute in \<open>int\<close> after promotion and cut the result back to the width; a
  count above the width makes the other shift count negative. The wide ones shift the operand
  itself, so a count of 0 asks for a shift by the whole width. Undefined shifts give \<open>None\<close>.
\<close>

definition ir_rol8 :: "8 word \<Rightarrow> 8 word \<Rightarrow> 8 word option" where
  "ir_rol8 a b = (if 8 < unat b then None
     else Some (word_of_int (push_bit (unat b) (uint a) OR drop_bit (8 - unat b) (uint a))))"

definition ir_rol16 :: "16 word \<Rightarrow> 16 word \<Rightarrow> 16 word option" where
  "ir_rol16 a b = (if 16 < unat b then None
     else Some (word_of_int (push_bit (unat b) (uint a) OR drop_bit (16 - unat b) (uint a))))"

definition ir_rol32 :: "32 word \<Rightarrow> 32 word \<Rightarrow> 32 word option" where
  "ir_rol32 a b = (if unat b = 0 \<or> 32 \<le> unat b then None
     else Some (push_bit (unat b) a OR drop_bit (32 - unat b) a))"

definition ir_rol64 :: "64 word \<Rightarrow> 64 word \<Rightarrow> 64 word option" where
  "ir_rol64 a b = (if unat b = 0 \<or> 64 \<le> unat b then None
     else Some (push_bit (unat b) a OR drop_bit (64 - unat b) a))"

definition ir_ror8 :: "8 word \<Rightarrow> 8 word \<Rightarrow> 8 word option" where
  "ir_ror8 a b = (if 8 < unat b then None
     else Some (word_of_int (drop_bit (unat b) (uint a) OR push_bit (8 - unat b) (uint a))))"

definition ir_ror16 :: "16 word \<Rightarrow> 16 word \<Rightarrow> 16 word option" where
  "ir_ror16 a b = (if 16 < unat b then None
     else Some (word_of_int (drop_bit (unat b) (uint a) OR push_bit (16 - unat b) (uint a))))"

definition ir_ror32 :: "32 word \<Rightarrow> 32 word \<Rightarrow> 32 word option" where
  "ir_ror32 a b = (if unat b = 0 \<or> 32 \<le> unat b then None
     else Some (drop_bit (unat b) a OR push_bit (32 - unat b) a))"

definition ir_ror64 :: "64 word \<Rightarrow> 64 word \<Rightarrow> 64 word option" where
  "ir_ror64 a b = (if unat b = 0 \<or> 64 \<le> unat b then None
     else Some (drop_bit (unat b) a OR push_bit (64 - unat b) a))"

text \<open>The builtins: the index of the lowest set bit, the number of clear bits above the highest.\<close>

definition ctz :: "'a::len word \<Rightarrow> nat" where
  "ctz w = length (takeWhile (\<lambda>i. \<not> bit w i) [0..<LENGTH('a)])"

definition clz :: "'a::len word \<Rightarrow> nat" where
  "clz w = length (takeWhile (\<lambda>i. \<not> bit w (LENGTH('a) - Suc i)) [0..<LENGTH('a)])"

text \<open>
  \<open>ir_ntz\<close> and its kin with a builtin: no result for 0, which the builtin leaves undefined.
\<close>

definition ir_ntz :: "32 word \<Rightarrow> nat option" where
  "ir_ntz num = (if num = 0 then None else Some (ctz num))"

definition ir_ntzl :: "64 word \<Rightarrow> nat option" where
  "ir_ntzl num = (if num = 0 then None else Some (ctz num))"

definition ir_nlz :: "32 word \<Rightarrow> nat option" where
  "ir_nlz num = (if num = 0 then None else Some (clz num))"

definition ir_nlzl :: "64 word \<Rightarrow> nat option" where
  "ir_nlzl num = (if num = 0 then None else Some (clz num))"

abbreviation IR_LOG2 :: "64 word \<Rightarrow> nat option" where "IR_LOG2 \<equiv> ir_ntzl"

text \<open>One line of the portable code: skip \<open>k\<close> low bits when they are all clear.\<close>

definition ntz_step :: "nat \<Rightarrow> nat \<times> 'a::len word \<Rightarrow> nat \<times> 'a word" where
  "ntz_step k = (\<lambda>(n, num). if num AND mask k = 0 then (n + k, drop_bit k num) else (n, num))"

definition ir_ntz_portable :: "32 word \<Rightarrow> nat" where
  "ir_ntz_portable num = (if num = 0 then 32 else
     let (n, num) = fold ntz_step [16, 8, 4, 2] (1, num)
     in n - unat (num AND 1))"

definition ir_ntzl_portable :: "64 word \<Rightarrow> nat" where
  "ir_ntzl_portable num = (if num = 0 then 64 else
     let (n, num) = fold ntz_step [32, 16, 8, 4, 2] (1, num)
     in n - unat (num AND 1))"

definition nlz_step :: "nat \<Rightarrow> nat \<times> 'a::len word \<Rightarrow> nat \<times> 'a word" where
  "nlz_step k = (\<lambda>(n, num). let x = drop_bit k num in if x \<noteq> 0 then (n - k, x) else (n, num))"

definition ir_nlz_portable :: "32 word \<Rightarrow> nat" where
  "ir_nlz_portable num =
     (let (n, num) = fold nlz_step [16, 8, 4, 2] (32, num)
      in if drop_bit 1 num \<noteq> 0 then n - 2 else n - unat num)"

definition ir_nlzl_portable :: "64 word \<Rightarrow> nat" where
  "ir_nlzl_portable num =
     (let (n, num) = fold nlz_step [32, 16, 8, 4, 2] (64, num)
      in if drop_bit 1 num \<noteq> 0 then n - 2 else n - unat num)"

section \<open>Trailing zeros\<close>

lemma ctz_eqI:
  fixes w :: "'a::len word"
  assumes "bit w n" and "\<And>m. m < n \<Longrightarrow> \<not> bit w m"
  shows "ctz w = n"
proof -
  have n: "n < LENGTH('a)" using assms(1) by (rule bit_imp_le_length)
  have split: "[0..<LENGTH('a)] = [0..<n] @ n # [Suc n..<LENGTH('a)]"
    using n by (metis le_add_diff_inverse less_imp_le upt_add_eq_append upt_conv_Cons zero_le)
  show ?thesis
    unfolding ctz_def split using assms by (subst takeWhile_append2) auto
qed

lemma ctz_props:
  fixes w :: "'a::len word"
  assumes "w \<noteq> 0"
  shows "bit w (ctz w)" and "m < ctz w \<Longrightarrow> \<not> bit w m" and "ctz w < LENGTH('a)"
proof -
  obtain k where k: "bit w k" using assms by (auto simp: bit_eq_iff)
  define n where "n = (LEAST k. bit w k)"
  have n: "bit w n" "\<And>m. m < n \<Longrightarrow> \<not> bit w m"
    unfolding n_def using k by (auto intro: LeastI dest: not_less_Least)
  then have "ctz w = n" by (rule ctz_eqI)
  with n show "bit w (ctz w)" and "m < ctz w \<Longrightarrow> \<not> bit w m" by simp_all
  then show "ctz w < LENGTH('a)" by (blast dest: bit_imp_le_length)
qed

lemma ctz_drop_bit:
  fixes w :: "'a::len word"
  assumes "w \<noteq> 0" and "w AND mask k = 0"
  shows "drop_bit k w \<noteq> 0" and "ctz w = k + ctz (drop_bit k w)"
proof -
  have low: "\<not> bit w m" if "m < k" for m
  proof
    assume "bit w m"
    moreover from this have "m < LENGTH('a)" by (rule bit_imp_le_length)
    ultimately have "bit (w AND mask k) m" using that by (simp add: bit_simps)
    with assms(2) show False by simp
  qed
  have c: "bit w (ctz w)" and k: "k \<le> ctz w"
    using ctz_props [OF assms(1)] low by (blast intro: leI)+
  then have b: "bit (drop_bit k w) (ctz w - k)" by (simp add: bit_simps)
  then show "drop_bit k w \<noteq> 0" by force
  have "ctz (drop_bit k w) = ctz w - k"
    by (rule ctz_eqI [OF b]) (use ctz_props(2) [OF assms(1)] in \<open>auto simp: bit_simps\<close>)
  then show "ctz w = k + ctz (drop_bit k w)" using k by simp
qed

lemma ctz_less_mask:
  fixes w :: "'a::len word"
  assumes "w AND mask k \<noteq> 0"
  shows "ctz w < k"
proof (rule ccontr)
  assume "\<not> ctz w < k"
  moreover have "w \<noteq> 0" using assms by auto
  ultimately have "\<not> bit (w AND mask k) m" for m
    using ctz_props(2) [of w m] by (auto simp: bit_simps)
  then have "w AND mask k = 0" by (intro bit_word_eqI) simp
  with assms show False by simp
qed

text \<open>Each step keeps the sum of the count so far and the trailing zeros left, and halves the rest.\<close>

lemma ntz_step_inv:
  fixes num :: "'a::len word"
  assumes "num \<noteq> 0" and "ctz num < 2 * k" and "ntz_step k (n, num) = (n', num')"
  shows "num' \<noteq> 0 \<and> n' + ctz num' = n + ctz num \<and> ctz num' < k"
  using assms ctz_drop_bit [of num k] ctz_less_mask [of num k]
  by (auto simp: ntz_step_def split: if_splits)

lemma unat_and_one: "unat (w AND 1 :: 'a::len word) = of_bool (bit w 0)"
  by (cases "bit w 0") (simp_all add: and_one_eq bit_0 odd_iff_mod_2_eq_one even_iff_mod_2_eq_zero)

lemma ctz_one_bit:
  fixes num :: "'a::len word"
  assumes "num \<noteq> 0" and "ctz num < 2"
  shows "ctz num = 1 - unat (num AND 1)"
  using ctz_props(1,2) [OF assms(1)] assms(2) ctz_eqI [of num 0]
  by (cases "ctz num") (auto simp: unat_and_one less_Suc_eq)


lemma ntz_fold_inv:
  fixes num :: "'a::len word"
  assumes "num \<noteq> 0" and "ctz num < 2 ^ Suc j"
    and "fold ntz_step (map ((^) 2) (rev [1..<Suc j])) (n, num) = (n', num')"
  shows "num' \<noteq> 0 \<and> n' + ctz num' = n + ctz num \<and> ctz num' < 2"
  using assms
proof (induction j arbitrary: n num)
  case (Suc j)
  obtain n1 x1 where 1: "ntz_step (2 ^ Suc j) (n, num) = (n1, x1)"
    by (cases "ntz_step (2 ^ Suc j) (n, num)")
  have "x1 \<noteq> 0 \<and> n1 + ctz x1 = n + ctz num \<and> ctz x1 < 2 ^ Suc j"
    by (rule ntz_step_inv [OF Suc.prems(1) _ 1]) (use Suc.prems(2) in simp)
  moreover have "fold ntz_step (map ((^) 2) (rev [1..<Suc j])) (n1, x1) = (n', num')"
    using Suc.prems(3) 1 by simp
  ultimately show ?case using Suc.IH [of x1 n1] by simp
qed simp

lemma ntz_result:
  fixes num :: "'a::len word"
  assumes "num \<noteq> 0" and "ctz num < 2 ^ Suc j"
  shows "(case fold ntz_step (map ((^) 2) (rev [1..<Suc j])) (1, num) of (n, x) \<Rightarrow> n - unat (x AND 1))
         = ctz num"
proof -
  obtain n x where f: "fold ntz_step (map ((^) 2) (rev [1..<Suc j])) (1, num) = (n, x)"
    by (cases "fold ntz_step (map ((^) 2) (rev [1..<Suc j])) (1 :: nat, num)")
  from ntz_fold_inv [OF assms f] have "x \<noteq> 0" "n + ctz x = 1 + ctz num" "ctz x < 2" by auto
  then have "n - unat (x AND 1) = ctz num"
    using ctz_one_bit [of x] unat_and_one [of x] by (auto split: if_splits)
  with f show ?thesis by simp
qed

lemma halving_32: "[16, 8, 4, 2 :: nat] = map ((^) 2) (rev [1..<Suc 4])"
  by (simp add: upt_rec)

lemma halving_64: "[32, 16, 8, 4, 2 :: nat] = map ((^) 2) (rev [1..<Suc 5])"
  by (simp add: upt_rec)

lemma ir_ntz_portable_eq: "ir_ntz_portable num = (if num = 0 then 32 else ctz num)"
proof (cases "num = 0")
  case False
  then have "ctz num < 2 ^ Suc 4" using ctz_props(3) [of num] by simp
  from ntz_result [OF False this] False show ?thesis
    unfolding ir_ntz_portable_def halving_32 Let_def by (simp only: if_False)
qed (simp add: ir_ntz_portable_def)

lemma ir_ntzl_portable_eq: "ir_ntzl_portable num = (if num = 0 then 64 else ctz num)"
proof (cases "num = 0")
  case False
  then have "ctz num < 2 ^ Suc 5" using ctz_props(3) [of num] by simp
  from ntz_result [OF False this] False show ?thesis
    unfolding ir_ntzl_portable_def halving_64 Let_def by (simp only: if_False)
qed (simp add: ir_ntzl_portable_def)

section \<open>Clearing the lowest set bit\<close>

lemma and_minus_one_clears_lowest:
  fixes x :: "'a::len word"
  assumes "x \<noteq> 0"
  shows "x AND (x - 1) = unset_bit (ctz x) x"
proof -
  let ?n = "ctz x" and ?z = "unset_bit (ctz x) x"
  note p = ctz_props [OF assms]
  have n: "?n < LENGTH('a)" using p(3) .
  have "?z + push_bit ?n 1 = ?z OR push_bit ?n 1"
    by (rule disjunctive_add_eq_or, rule bit_word_eqI) (auto simp: bit_simps)
  also have "\<dots> = x" by (rule bit_word_eqI) (use p(1) in \<open>auto simp: bit_simps\<close>)
  finally have x: "x = ?z + 2 ^ ?n" by (simp add: push_bit_eq_mult)
  have "?z + mask ?n = ?z OR mask ?n"
    by (rule disjunctive_add_eq_or, rule bit_word_eqI) (use p(2) in \<open>auto simp: bit_simps\<close>)
  then have "x - 1 = ?z OR mask ?n"
    using x by (metis add_diff_eq mask_eq_decr_exp)
  then show ?thesis
    by (simp, intro bit_word_eqI) (use p(2) in \<open>auto simp: bit_simps\<close>)
qed

lemma power_of_two_iff:
  fixes x :: "'a::len word"
  shows "IR_IS_POWER_OF_TWO x \<longleftrightarrow> (\<exists>k < LENGTH('a). x = 2 ^ k)"
proof
  assume "IR_IS_POWER_OF_TWO x"
  then have "x \<noteq> 0" and z: "unset_bit (ctz x) x = 0"
    by (auto simp: IR_IS_POWER_OF_TWO_def and_minus_one_clears_lowest)
  have "x = push_bit (ctz x) 1"
  proof (rule bit_word_eqI)
    fix n assume n: "n < LENGTH('a)"
    have "\<not> bit (unset_bit (ctz x) x) n" using z by simp
    then show "bit x n \<longleftrightarrow> bit (push_bit (ctz x) 1 :: 'a word) n"
      using n ctz_props(1) [OF \<open>x \<noteq> 0\<close>] by (auto simp: bit_simps)
  qed
  then show "\<exists>k < LENGTH('a). x = 2 ^ k"
    using ctz_props(3) [OF \<open>x \<noteq> 0\<close>] by (auto simp: push_bit_eq_mult)
next
  assume "\<exists>k < LENGTH('a). x = 2 ^ k"
  then obtain k where k: "k < LENGTH('a)" "x = 2 ^ k" by blast
  then have "bit x k" "\<And>m. m < k \<Longrightarrow> \<not> bit x m" by (auto simp: bit_simps)
  moreover from this have "ctz x = k" by (rule ctz_eqI)
  moreover have "x \<noteq> 0" using \<open>bit x k\<close> by auto
  moreover have "unset_bit k x = 0" by (rule bit_word_eqI) (use k in \<open>auto simp: bit_simps\<close>)
  ultimately show "IR_IS_POWER_OF_TWO x"
    by (simp add: IR_IS_POWER_OF_TWO_def and_minus_one_clears_lowest)
qed

lemma ctz_power: "k < LENGTH('a) \<Longrightarrow> ctz (2 ^ k :: 'a::len word) = k"
  by (rule ctz_eqI) (auto simp: bit_simps)

section \<open>Leading zeros\<close>

lemma clz_eqI:
  fixes w :: "'a::len word"
  assumes "bit w n" and "\<And>m. n < m \<Longrightarrow> \<not> bit w m"
  shows "clz w = LENGTH('a) - Suc n"
proof -
  let ?k = "LENGTH('a) - Suc n"
  have n: "n < LENGTH('a)" using assms(1) by (rule bit_imp_le_length)
  then have split: "[0..<LENGTH('a)] = [0..<?k] @ ?k # [Suc ?k..<LENGTH('a)]"
    by (metis diff_less le_add_diff_inverse less_imp_le upt_add_eq_append upt_conv_Cons zero_le
        zero_less_Suc len_gt_0)
  show ?thesis
    unfolding clz_def split using assms n by (subst takeWhile_append2) auto
qed

lemma clz_highest:
  fixes w :: "'a::len word"
  assumes "w \<noteq> 0"
  shows "\<exists>n. bit w n \<and> (\<forall>m > n. \<not> bit w m) \<and> clz w + Suc n = LENGTH('a)"
proof -
  obtain k where k: "bit w k" using assms by (auto simp: bit_eq_iff)
  have fin: "\<And>m. bit w m \<Longrightarrow> m \<le> LENGTH('a)" by (auto dest: bit_imp_le_length)
  define n where "n = (GREATEST k. bit w k)"
  have n: "bit w n" "\<And>m. bit w m \<Longrightarrow> m \<le> n"
    unfolding n_def using GreatestI_nat [of "bit w", OF k fin] Greatest_le_nat [of "bit w", OF _ fin]
    by auto
  moreover from n have "\<And>m. n < m \<Longrightarrow> \<not> bit w m" by (metis leD)
  ultimately show ?thesis
    using clz_eqI [of w n] bit_imp_le_length [of w n] by (intro exI [of _ n]) simp
qed

lemma clz_drop_bit:
  fixes w :: "'a::len word"
  assumes "drop_bit k w \<noteq> 0"
  shows "clz (drop_bit k w) = clz w + k" and "clz w + k < LENGTH('a)"
proof -
  have "w \<noteq> 0" using assms by auto
  then obtain n where n: "bit w n" "\<And>m. n < m \<Longrightarrow> \<not> bit w m" "clz w + Suc n = LENGTH('a)"
    using clz_highest by blast
  have "k \<le> n"
  proof (rule ccontr)
    assume "\<not> k \<le> n"
    with n(2) have "drop_bit k w = 0" by (intro bit_word_eqI) (auto simp: bit_simps)
    with assms show False by simp
  qed
  then have "bit (drop_bit k w) (n - k)" "\<And>m. n - k < m \<Longrightarrow> \<not> bit (drop_bit k w) m"
    using n by (auto simp: bit_simps)
  then have "clz (drop_bit k w) = LENGTH('a) - Suc (n - k)" by (rule clz_eqI)
  then show "clz (drop_bit k w) = clz w + k" and "clz w + k < LENGTH('a)"
    using n(3) \<open>k \<le> n\<close> by linarith+
qed

lemma clz_no_high_bits:
  fixes w :: "'a::len word"
  assumes "w \<noteq> 0" and "drop_bit k w = 0"
  shows "LENGTH('a) \<le> clz w + k"
proof -
  obtain n where n: "bit w n" "clz w + Suc n = LENGTH('a)"
    using clz_highest [OF assms(1)] by metis
  have "\<not> k \<le> n"
  proof
    assume "k \<le> n"
    with n(1) have "bit (drop_bit k w) (n - k)" by (simp add: bit_simps)
    with assms(2) show False by simp
  qed
  with n(2) show ?thesis by linarith
qed

text \<open>Each step keeps \<open>n - LENGTH + clz num\<close> and halves the number of significant bits left.\<close>

lemma nlz_step_inv:
  fixes num :: "'a::len word"
  assumes "num \<noteq> 0" and "LENGTH('a) \<le> clz num + 2 * k" and "n + clz num = LENGTH('a) + c"
    and "nlz_step k (n, num) = (n', num')"
  shows "num' \<noteq> 0 \<and> n' + clz num' = LENGTH('a) + c \<and> LENGTH('a) \<le> clz num' + k"
proof (cases "drop_bit k num = 0")
  case True
  with assms clz_no_high_bits [of num k] show ?thesis by (auto simp: nlz_step_def)
next
  case False
  with assms clz_drop_bit [of k num] show ?thesis
    by (auto simp: nlz_step_def Let_def)
qed


lemma nlz_fold_inv:
  fixes num :: "'a::len word"
  assumes "num \<noteq> 0" and "LENGTH('a) \<le> clz num + 2 ^ Suc j" and "n + clz num = LENGTH('a) + c"
    and "fold nlz_step (map ((^) 2) (rev [1..<Suc j])) (n, num) = (n', num')"
  shows "num' \<noteq> 0 \<and> n' + clz num' = LENGTH('a) + c \<and> LENGTH('a) \<le> clz num' + 2"
  using assms
proof (induction j arbitrary: n num)
  case (Suc j)
  obtain n1 x1 where 1: "nlz_step (2 ^ Suc j) (n, num) = (n1, x1)"
    by (cases "nlz_step (2 ^ Suc j) (n, num)")
  have "x1 \<noteq> 0 \<and> n1 + clz x1 = LENGTH('a) + c \<and> LENGTH('a) \<le> clz x1 + 2 ^ Suc j"
    by (rule nlz_step_inv [OF Suc.prems(1) _ Suc.prems(3) 1]) (use Suc.prems(2) in simp)
  moreover have "fold nlz_step (map ((^) 2) (rev [1..<Suc j])) (n1, x1) = (n', num')"
    using Suc.prems(4) 1 by simp
  ultimately show ?case using Suc.IH [of x1 n1] by simp
qed simp

lemma nlz_result:
  fixes num :: "'a::len word"
  assumes "num \<noteq> 0" and "LENGTH('a) = 2 ^ Suc j"
  shows "(case fold nlz_step (map ((^) 2) (rev [1..<Suc j])) (LENGTH('a), num) of
           (n, x) \<Rightarrow> if drop_bit 1 x \<noteq> 0 then n - 2 else n - unat x) = clz num"
proof -
  obtain n x where f: "fold nlz_step (map ((^) 2) (rev [1..<Suc j])) (LENGTH('a), num) = (n, x)"
    by (cases "fold nlz_step (map ((^) 2) (rev [1..<Suc j])) (LENGTH('a), num)")
  have i: "x \<noteq> 0" "n + clz x = LENGTH('a) + clz num" "LENGTH('a) \<le> clz x + 2"
    using nlz_fold_inv [OF assms(1) _ refl f] assms(2) by auto
  show ?thesis
  proof (cases "drop_bit 1 x = 0")
    case True
    then have "\<not> bit x (Suc m)" for m by (metis bit_0_eq bit_drop_bit_eq bot_apply bot_bool_def comp_apply plus_1_eq_Suc)
    then have odd: "bit x 0" using i(1) by (metis bit_eqI bit_0_eq bot_apply bot_bool_def not0_implies_Suc)
    then have "x = 1" using \<open>\<And>m. \<not> bit x (Suc m)\<close>
      by (intro bit_word_eqI) (metis bit_1_iff not0_implies_Suc)
    moreover have "clz x = LENGTH('a) - Suc 0"
      using odd \<open>\<And>m. \<not> bit x (Suc m)\<close> by (intro clz_eqI) (auto simp: gr0_conv_Suc)
    moreover have "0 < LENGTH('a)" by simp
    ultimately have "n - 1 = clz num" using i(2) by linarith
    then show ?thesis using f \<open>x = 1\<close> by simp
  next
    case False
    with clz_drop_bit(2) [OF this] f i show ?thesis by auto
  qed
qed

lemma ir_nlz_portable_eq: "ir_nlz_portable num = (if num = 0 then 32 else clz num)"
proof (cases "num = 0")
  case False
  from nlz_result [OF False, of 4] False show ?thesis
    unfolding ir_nlz_portable_def halving_32 Let_def by simp
qed (simp add: ir_nlz_portable_def nlz_step_def)

lemma ir_nlzl_portable_eq: "ir_nlzl_portable num = (if num = 0 then 64 else clz num)"
proof (cases "num = 0")
  case False
  from nlz_result [OF False, of 5] False show ?thesis
    unfolding ir_nlzl_portable_def halving_64 Let_def by simp
qed (simp add: ir_nlzl_portable_def nlz_step_def)

section \<open>Rotations and alignment\<close>

text \<open>The shift pair is a rotation for every count from 0 to the width.\<close>

lemma shift_pair_rotl:
  fixes a :: "'a::len word"
  assumes "n \<le> LENGTH('a)"
  shows "word_of_int (push_bit n (uint a) OR drop_bit (LENGTH('a) - n) (uint a)) = word_rotl n a"
proof (rule bit_word_eqI)
  fix m assume m: "m < LENGTH('a)"
  show "bit (word_of_int (push_bit n (uint a) OR drop_bit (LENGTH('a) - n) (uint a)) :: 'a word) m
        \<longleftrightarrow> bit (word_rotl n a) m"
  proof (cases "n = LENGTH('a)")
    case True
    with m show ?thesis by (simp add: bit_simps)
  next
    case False
    then have n: "n mod LENGTH('a) = n" using assms by simp
    have "(m + (LENGTH('a) - n)) mod LENGTH('a) = (if n \<le> m then m - n else m + (LENGTH('a) - n))"
      using m assms by (auto simp: le_mod_geq)
    with m assms False n show ?thesis
      by (auto simp: bit_simps ac_simps dest: bit_imp_le_length)
  qed
qed

lemma shift_pair_rotr:
  fixes a :: "'a::len word"
  assumes "n \<le> LENGTH('a)"
  shows "word_of_int (drop_bit n (uint a) OR push_bit (LENGTH('a) - n) (uint a)) = word_rotr n a"
proof -
  have "word_of_int (push_bit (LENGTH('a) - n) (uint a) OR drop_bit n (uint a))
        = word_rotl (LENGTH('a) - n) a"
    using shift_pair_rotl [of "LENGTH('a) - n" a] assms by simp
  also have "\<dots> = word_rotr n a"
  proof (cases "n = 0")
    case False
    with assms show ?thesis by (simp add: word_rotl_eq_word_rotr)
  qed (intro bit_word_eqI, simp add: bit_simps)
  finally show ?thesis by (simp add: or.commute)
qed

lemma word_shift_pair:
  fixes a :: "'a::len word"
  shows "push_bit n a OR drop_bit m a = word_of_int (push_bit n (uint a) OR drop_bit m (uint a))"
  by (rule bit_word_eqI) (auto simp: bit_simps)

lemma ir_rol_eq:
  "unat b \<le> 8 \<Longrightarrow> ir_rol8 a b = Some (word_rotl (unat b) a)"
  "unat b' \<le> 16 \<Longrightarrow> ir_rol16 a' b' = Some (word_rotl (unat b') a')"
  "0 < unat c \<Longrightarrow> unat c < 32 \<Longrightarrow> ir_rol32 d c = Some (word_rotl (unat c) d)"
  "0 < unat c' \<Longrightarrow> unat c' < 64 \<Longrightarrow> ir_rol64 d' c' = Some (word_rotl (unat c') d')"
  using shift_pair_rotl [of "unat b" a] shift_pair_rotl [of "unat b'" a']
    shift_pair_rotl [of "unat c" d] shift_pair_rotl [of "unat c'" d']
  by (simp_all add: ir_rol8_def ir_rol16_def ir_rol32_def ir_rol64_def word_shift_pair)

lemma ir_ror_eq:
  "unat b \<le> 8 \<Longrightarrow> ir_ror8 a b = Some (word_rotr (unat b) a)"
  "unat b' \<le> 16 \<Longrightarrow> ir_ror16 a' b' = Some (word_rotr (unat b') a')"
  "0 < unat c \<Longrightarrow> unat c < 32 \<Longrightarrow> ir_ror32 d c = Some (word_rotr (unat c) d)"
  "0 < unat c' \<Longrightarrow> unat c' < 64 \<Longrightarrow> ir_ror64 d' c' = Some (word_rotr (unat c') d')"
  using shift_pair_rotr [of "unat b" a] shift_pair_rotr [of "unat b'" a']
    shift_pair_rotr [of "unat c" d] shift_pair_rotr [of "unat c'" d']
  by (simp_all add: ir_ror8_def ir_ror16_def ir_ror32_def ir_ror64_def word_shift_pair
      or.commute [of "drop_bit _ _"])

text \<open>
  \<open>IR_ALIGNED_SIZE\<close> rounds up to a multiple of a power of two whenever the sum does not wrap.
\<close>

lemma aligned_size_uint:
  fixes sz :: "'a::len word"
  assumes "k < LENGTH('a)" and "uint sz + 2 ^ k \<le> 2 ^ LENGTH('a)"
  shows "uint (IR_ALIGNED_SIZE sz (2 ^ k)) = (uint sz + 2 ^ k - 1) div 2 ^ k * 2 ^ k"
proof -
  have m: "(2 ^ k - 1 :: 'a word) = mask k" by (simp add: mask_eq_decr_exp)
  have "sz + mask k = word_of_int (uint sz + (2 ^ k - 1))"
    by (simp add: mask_eq_decr_exp)
  then have "uint (sz + mask k) = take_bit LENGTH('a) (uint sz + (2 ^ k - 1))"
    by (simp only: uint_word_of_int_eq)
  also have "\<dots> = uint sz + (2 ^ k - 1)"
    using assms(2) uint_nonnegative [of sz] by (intro take_bit_int_eq_self) (simp_all add: add_nonneg_nonneg)
  finally have u: "uint (sz + mask k) = uint sz + 2 ^ k - 1" by simp
  have "(sz + mask k) AND NOT (mask k) = push_bit k (drop_bit k (sz + mask k))"
    by (rule bit_word_eqI) (auto simp: bit_simps dest: bit_imp_le_length)
  then have "uint (IR_ALIGNED_SIZE sz (2 ^ k)) = uint (push_bit k (drop_bit k (sz + mask k)))"
    by (simp add: IR_ALIGNED_SIZE_def m)
  also have "\<dots> = take_bit LENGTH('a) (push_bit k (drop_bit k (uint sz + 2 ^ k - 1)))"
    by (simp only: unsigned_push_bit_eq unsigned_drop_bit_eq take_bit_uint) (simp only: u)
  also have "\<dots> = push_bit k (drop_bit k (uint sz + 2 ^ k - 1))"
  proof -
    let ?x = "uint sz + 2 ^ k - 1"
    have "push_bit k (drop_bit k ?x) \<le> ?x"
      by (simp add: push_bit_eq_mult drop_bit_eq_div minus_mod_eq_div_mult [symmetric]
          order.strict_trans2 [of "- 1" 0])
    moreover have "0 \<le> ?x" using uint_nonnegative [of sz] zero_less_power [of "2::int" k] by linarith
    then have "0 \<le> push_bit k (drop_bit k ?x)" by (simp only: push_bit_nonnegative_int_iff drop_bit_nonnegative_int_iff)
    ultimately show ?thesis using assms(2) by (intro take_bit_int_eq_self) linarith+
  qed
  finally show ?thesis by (simp add: push_bit_eq_mult drop_bit_eq_div)
qed

section \<open>Properties\<close>

text \<open>C16: the portable branches of \<open>ir_ntz\<close> and \<open>ir_ntzl\<close>, which halve the word by shifts, count the
  zeros below the lowest set bit, as the compiler builtins do, and give the width for 0.\<close>

theorem ntz_portable:
  "ir_ntz_portable n = (case ir_ntz n of None \<Rightarrow> 32 | Some k \<Rightarrow> k) \<and>
   ir_ntzl_portable m = (case ir_ntzl m of None \<Rightarrow> 64 | Some k \<Rightarrow> k)"
  by (simp add: ir_ntz_portable_eq ir_ntzl_portable_eq ir_ntz_def ir_ntzl_def)

text \<open>C17: the portable branches of \<open>ir_nlz\<close> and \<open>ir_nlzl\<close> count the zeros above the highest set bit.\<close>

theorem nlz_portable:
  "ir_nlz_portable n = (case ir_nlz n of None \<Rightarrow> 32 | Some k \<Rightarrow> k) \<and>
   ir_nlzl_portable m = (case ir_nlzl m of None \<Rightarrow> 64 | Some k \<Rightarrow> k)"
  by (simp add: ir_nlz_portable_eq ir_nlzl_portable_eq ir_nlz_def ir_nlzl_def)

text \<open>C18: the shift-and-or rotations are rotations for every count for which the C code is defined:
  all counts up to the width at 8 bits, but neither 0 nor the width at 32 and 64 bits, where the
  other shift would be by the whole width.\<close>

theorem rotations:
  "(ir_rol8 a b = (if unat b \<le> 8 then Some (word_rotl (unat b) a) else None)) \<and>
   (ir_ror8 a b = (if unat b \<le> 8 then Some (word_rotr (unat b) a) else None)) \<and>
   (ir_rol32 c d = (if unat d \<in> {1..<32} then Some (word_rotl (unat d) c) else None)) \<and>
   (ir_ror32 c d = (if unat d \<in> {1..<32} then Some (word_rotr (unat d) c) else None)) \<and>
   (ir_rol64 e f = (if unat f \<in> {1..<64} then Some (word_rotl (unat f) e) else None)) \<and>
   (ir_ror64 e f = (if unat f \<in> {1..<64} then Some (word_rotr (unat f) e) else None))"
proof (intro conjI)
  show "ir_rol8 a b = (if unat b \<le> 8 then Some (word_rotl (unat b) a) else None)"
    using ir_rol_eq(1) [of b a] by (simp add: ir_rol8_def)
  show "ir_ror8 a b = (if unat b \<le> 8 then Some (word_rotr (unat b) a) else None)"
    using ir_ror_eq(1) [of b a] by (simp add: ir_ror8_def)
  show "ir_rol32 c d = (if unat d \<in> {1..<32} then Some (word_rotl (unat d) c) else None)"
    using ir_rol_eq(3) [of d c] by (cases "unat d \<in> {1..<32}") (simp, auto simp: ir_rol32_def)
  show "ir_ror32 c d = (if unat d \<in> {1..<32} then Some (word_rotr (unat d) c) else None)"
    using ir_ror_eq(3) [of d c] by (cases "unat d \<in> {1..<32}") (simp, auto simp: ir_ror32_def)
  show "ir_rol64 e f = (if unat f \<in> {1..<64} then Some (word_rotl (unat f) e) else None)"
    using ir_rol_eq(4) [of f e] by (cases "unat f \<in> {1..<64}") (simp, auto simp: ir_rol64_def)
  show "ir_ror64 e f = (if unat f \<in> {1..<64} then Some (word_rotr (unat f) e) else None)"
    using ir_ror_eq(4) [of f e] by (cases "unat f \<in> {1..<64}") (simp, auto simp: ir_ror64_def)
qed

text \<open>C19: \<open>IR_ALIGNED_SIZE\<close> rounds up to the next multiple of a power of two, unless the addition wraps.\<close>

theorem aligned_size:
  fixes sz :: "'a::len word"
  assumes "k < LENGTH('a)" and "uint sz + 2 ^ k \<le> 2 ^ LENGTH('a)"
  shows "uint (IR_ALIGNED_SIZE sz (2 ^ k)) = (uint sz + 2 ^ k - 1) div 2 ^ k * 2 ^ k"
  using assms by (rule aligned_size_uint)

theorem aligned_size_witness: "uint (IR_ALIGNED_SIZE (13 :: 32 word) (2 ^ 3)) = 16"
  using aligned_size [of 3 "13 :: 32 word"] by simp

end
