(* ===== verification/Fold_Base.thy ===== *)
theory Fold_Base
  imports Context Bits
begin

text \<open>
  The vocabulary of the folding rules (src/ir.c, the macros before \<open>ir_folding\<close>, and
  src/ir_private.h): the outcome of a rule, the \<open>IR_FOLD_*\<close> macros, \<open>_ir_fold_cast\<close>,
  \<open>_ir_fold_cse\<close>, \<open>ir_const_is_true\<close>, and floating-point comparison, negation and absolute value
  on IEEE bit patterns. Floating-point arithmetic and conversion, done by the C implementation that
  compiles the framework, are the parameter \<open>host\<close>.
\<close>

section \<open>Floating point\<close>

text \<open>
  A floating-point value is its bit pattern. Comparison, negation, absolute value and \<open>isnan\<close> are
  determined by the format; \<open>host\<close> supplies the rounding operations: arithmetic and conversions at
  a type, \<open>fp_trunc\<close> the integral part of a finite value, and the indeterminate upper half of an
  uninitialised \<open>ir_val\<close>.
\<close>

record host =
  fp_add :: "ir_type \<Rightarrow> int \<Rightarrow> int \<Rightarrow> int"
  fp_sub :: "ir_type \<Rightarrow> int \<Rightarrow> int \<Rightarrow> int"
  fp_mul :: "ir_type \<Rightarrow> int \<Rightarrow> int \<Rightarrow> int"
  fp_div :: "ir_type \<Rightarrow> int \<Rightarrow> int \<Rightarrow> int"
  fp_of_int :: "ir_type \<Rightarrow> int \<Rightarrow> int"
  fp_trunc :: "ir_type \<Rightarrow> int \<Rightarrow> int option"
  fp_conv :: "ir_type \<Rightarrow> ir_type \<Rightarrow> int \<Rightarrow> int"
  uninit_hi :: u32

definition type_bits :: "ir_type \<Rightarrow> nat" where
  "type_bits t = ir_type_size t * 8"

definition fp_inf :: "ir_type \<Rightarrow> int" where
  "fp_inf t = (if t = IR_DOUBLE then 0x7ff0000000000000 else 0x7f800000)"

definition fp_mag :: "ir_type \<Rightarrow> int \<Rightarrow> int" where
  "fp_mag t b = take_bit (type_bits t - 1) b"

definition fp_isnan :: "ir_type \<Rightarrow> int \<Rightarrow> bool" where
  "fp_isnan t b \<longleftrightarrow> fp_inf t < fp_mag t b"

definition fp_key :: "ir_type \<Rightarrow> int \<Rightarrow> int" where
  "fp_key t b = (if bit b (type_bits t - 1) then - fp_mag t b else fp_mag t b)"

definition fp_eq :: "ir_type \<Rightarrow> int \<Rightarrow> int \<Rightarrow> bool" where
  "fp_eq t a b \<longleftrightarrow> \<not> fp_isnan t a \<and> \<not> fp_isnan t b \<and> fp_key t a = fp_key t b"

definition fp_lt :: "ir_type \<Rightarrow> int \<Rightarrow> int \<Rightarrow> bool" where
  "fp_lt t a b \<longleftrightarrow> \<not> fp_isnan t a \<and> \<not> fp_isnan t b \<and> fp_key t a < fp_key t b"

definition fp_le :: "ir_type \<Rightarrow> int \<Rightarrow> int \<Rightarrow> bool" where
  "fp_le t a b \<longleftrightarrow> \<not> fp_isnan t a \<and> \<not> fp_isnan t b \<and> fp_key t a \<le> fp_key t b"

definition fp_neg :: "ir_type \<Rightarrow> int \<Rightarrow> int" where
  "fp_neg t b = flip_bit (type_bits t - 1) b"

definition fp_abs :: "ir_type \<Rightarrow> int \<Rightarrow> int" where
  "fp_abs t b = unset_bit (type_bits t - 1) b"

text \<open>The views \<open>val.d\<close>, \<open>val.f\<close> and \<open>val.b\<close> of a constant.\<close>

definition val_d :: "u64 \<Rightarrow> int" where "val_d v = uint v"
definition val_f :: "u64 \<Rightarrow> int" where "val_f v = take_bit 32 (uint v)"
definition val_b :: "u64 \<Rightarrow> bool" where "val_b v \<longleftrightarrow> take_bit 8 (uint v) \<noteq> 0"

abbreviation (input) FP_1_0 :: "ir_type \<Rightarrow> int" where
  "FP_1_0 t \<equiv> (if t = IR_DOUBLE then 0x3ff0000000000000 else 0x3f800000)"
abbreviation (input) FP_2_0 :: "ir_type \<Rightarrow> int" where
  "FP_2_0 t \<equiv> (if t = IR_DOUBLE then 0x4000000000000000 else 0x40000000)"
abbreviation (input) FP_minus_1_0 :: "ir_type \<Rightarrow> int" where
  "FP_minus_1_0 t \<equiv> (if t = IR_DOUBLE then 0xbff0000000000000 else 0xbf800000)"

section \<open>Outcomes of a rule\<close>

text \<open>
  A rule body reads the instruction being folded (\<open>opt\<close>, \<open>op1\<close>, \<open>op2\<close>, \<open>op3\<close>, kept in an
  \<open>ir_insn\<close> as \<open>ctx->fold_insn\<close> does) and the instructions \<open>op1_insn\<close>, \<open>op2_insn\<close>, \<open>op3_insn\<close>
  its operands point to, and leaves through one of the labels of \<open>ir_folding\<close>. \<open>Fold_UB\<close> marks
  undefined behaviour of the C code itself (a trapping division, an oversized shift).
\<close>

datatype fold_result =
  Fold_Next
| Fold_Restart ir_ctx ir_insn
| Fold_Copy ir_ref
| Fold_Const u64
| Fold_Emit ir_insn
| Fold_UB

type_synonym fold_key = "ir_op \<times> ir_op \<times> ir_op"
type_synonym fold_body =
  "host \<Rightarrow> ir_ctx \<Rightarrow> ir_insn \<Rightarrow> ir_insn \<Rightarrow> ir_insn \<Rightarrow> ir_insn \<Rightarrow> fold_result"
type_synonym fold_rule = "fold_key list \<times> fold_body"

abbreviation (input) ANY :: ir_op where "ANY \<equiv> 0"

definition IR_FOLD_CONST_U :: "int \<Rightarrow> fold_result" where
  "IR_FOLD_CONST_U v = Fold_Const (word_of_int v)"
definition IR_FOLD_CONST_I :: "int \<Rightarrow> fold_result" where
  "IR_FOLD_CONST_I v = Fold_Const (word_of_int v)"
definition IR_FOLD_CONST_D :: "int \<Rightarrow> fold_result" where
  "IR_FOLD_CONST_D v = Fold_Const (word_of_int v)"
definition IR_FOLD_CONST_F :: "int \<Rightarrow> fold_result" where
  "IR_FOLD_CONST_F v = Fold_Const (word_of_int (take_bit 32 v))"
definition IR_FOLD_BOOL :: "bool \<Rightarrow> fold_result" where
  "IR_FOLD_BOOL c = Fold_Copy (if c then IR_TRUE else IR_FALSE)"

text \<open>\<open>opt = IR_OPT(op, type)\<close>, which also clears the input count; assignments to the operands.\<close>

definition set_opt :: "ir_op \<Rightarrow> ir_type \<Rightarrow> ir_insn \<Rightarrow> ir_insn" where
  "set_opt op t a = a\<lparr>i_op := op, i_type := t, i_n := 0\<rparr>"

definition fold_const_restart :: "ir_ctx \<Rightarrow> u64 \<Rightarrow> ir_type \<Rightarrow> (ir_ref \<Rightarrow> ir_insn) \<Rightarrow> fold_result" where
  "fold_const_restart ctx v t k = (let (ctx, r) = ir_const ctx v t in Fold_Restart ctx (k r))"

section \<open>Helpers of the engine\<close>

definition ir_const_is_true :: "ir_insn \<Rightarrow> bool" where
  "ir_const_is_true v =
     (if IR_IS_SYM_CONST (i_op v) then True
      else if i_type v = IR_BOOL then val_b (i_val v)
      else if IR_IS_TYPE_INT (i_type v) then i_val v \<noteq> 0
      else if i_type v = IR_DOUBLE then \<not> fp_eq IR_DOUBLE (val_d (i_val v)) 0
      else \<not> fp_eq IR_FLOAT (val_f (i_val v)) 0)"

definition ir_fold_cast :: "ir_ctx \<Rightarrow> ir_ref \<Rightarrow> ir_type \<Rightarrow> ir_ctx \<times> ir_ref" where
  "ir_fold_cast ctx ref t =
     (if i_type (ir_base ctx ref) = t then (ctx, ref)
      else if IR_IS_CONST_REF ref \<and> \<not> IR_IS_SYM_CONST (i_op (ir_base ctx ref))
      then ir_const ctx (i_val (ir_base ctx ref)) t
      else ir_emit1 ctx IR_BITCAST t ref)"

text \<open>
  The walk along a local CSE chain, from \<open>ref\<close> down to \<open>limit\<close>; the offset to the previous
  instruction of the same opcode is the 16-bit field \<open>prev_insn_offset\<close>, 0 at the end.
\<close>

function cse_find :: "(ir_ref \<Rightarrow> ir_insn) \<Rightarrow> ir_insn \<Rightarrow> ir_ref \<Rightarrow> ir_ref \<Rightarrow> ir_ref" where
  "cse_find base a limit ref =
     (if ref < limit then 0
      else if i_op (base ref) = i_op a \<and> i_type (base ref) = i_type a \<and> i_n a = 0 \<and>
         i_op1 (base ref) = i_op1 a \<and> i_op2 (base ref) = i_op2 a \<and> i_op3 (base ref) = i_op3 a
      then ref
      else if i_n (base ref) = 0 then 0
      else cse_find base a limit (ref - int (i_n (base ref))))"
  by pat_completeness auto
termination
  by (relation "measure (\<lambda>(base, a, limit, ref). nat (ref + 1 - limit))") auto

declare cse_find.simps [simp del]

definition ir_fold_cse :: "ir_ctx \<Rightarrow> ir_insn \<Rightarrow> ir_ref" where
  "ir_fold_cse ctx a =
     (let ref = prev_insn_chain ctx (i_op a)
      in if ref = 0 then IR_UNUSED
         else
           let limit = fold_cse_limit ctx;
               limit = (if i_op1 a > limit then i_op1 a else limit);
               limit = (if i_op2 a > limit then i_op2 a else limit);
               limit = (if i_op3 a > limit then i_op3 a else limit)
           in cse_find (ir_base ctx) a limit ref)"

text \<open>\<open>use_lists[ref].count\<close>; only evaluated when the lists exist.\<close>

definition use_count :: "ir_ctx \<Rightarrow> ir_ref \<Rightarrow> ir_ref" where
  "use_count ctx ref = (case use_lists ctx of None \<Rightarrow> 0 | Some ul \<Rightarrow> ul_count (ul ref))"

declare IR_FOLD_CONST_U_def [ir_defs] IR_FOLD_CONST_I_def [ir_defs] IR_FOLD_CONST_D_def [ir_defs]
  IR_FOLD_CONST_F_def [ir_defs] IR_FOLD_BOOL_def [ir_defs] set_opt_def [ir_defs]

end
