(* ===== verification/Fold_Const.thy ===== *)
theory Fold_Const
  imports Fold_Base
begin

text \<open>
  The constant-folding rules of src/ir_fold.h (lines 10 to 1568), one row per rule body in source
  order: the keys that select the body and the body itself. C's arithmetic is written out at the
  width C computes it: \<open>val.u8\<close>, \<open>val.i8\<close>, \<open>val.u16\<close> and \<open>val.i16\<close> are promoted to \<open>int\<close>, so
  their sums are not truncated to the operand type; \<open>uint32_t\<close> arithmetic wraps at 32 bits;
  a cast to \<open>int32_t\<close> re-reads the low 32 bits as a signed number.
\<close>

section \<open>C arithmetic used by the rules\<close>

definition c_udiv :: "int \<Rightarrow> int \<Rightarrow> fold_result" where
  "c_udiv a b = (if b = 0 then Fold_UB else IR_FOLD_CONST_U (a div b))"

definition c_sdiv :: "nat \<Rightarrow> int \<Rightarrow> int \<Rightarrow> fold_result" where
  "c_sdiv n a b = (if b = 0 \<or> a = - (2 ^ (n - 1)) \<and> b = -1 then Fold_UB else IR_FOLD_CONST_I (a sdiv b))"

definition c_smod :: "nat \<Rightarrow> int \<Rightarrow> int \<Rightarrow> fold_result" where
  "c_smod n a b = (if b = 0 \<or> a = - (2 ^ (n - 1)) \<and> b = -1 then Fold_UB else IR_FOLD_CONST_I (a smod b))"

text \<open>\<open>max\<close> of the overflow rules, and the cast of a floating-point value to an integer type, which
  is undefined in C when the integral part is not representable.\<close>

definition ov_umax :: "ir_type \<Rightarrow> u64" where
  "ov_umax t = drop_bit (64 - ir_type_size t * 8) 0xffffffffffffffff"

definition ov_smax :: "ir_type \<Rightarrow> int" where
  "ov_smax t = uint (drop_bit (64 - ir_type_size t * 8) (0x7fffffffffffffff :: u64))"

definition fp_cast_u :: "host \<Rightarrow> ir_type \<Rightarrow> nat \<Rightarrow> int \<Rightarrow> fold_result" where
  "fp_cast_u h src n v = (case fp_trunc h src v of None \<Rightarrow> Fold_UB
     | Some i \<Rightarrow> if 0 \<le> i \<and> i < 2 ^ n then IR_FOLD_CONST_U i else Fold_UB)"

definition fp_cast_i :: "host \<Rightarrow> ir_type \<Rightarrow> nat \<Rightarrow> int \<Rightarrow> fold_result" where
  "fp_cast_i h src n v = (case fp_trunc h src v of None \<Rightarrow> Fold_UB
     | Some i \<Rightarrow> if - (2 ^ (n - 1)) \<le> i \<and> i < 2 ^ (n - 1) then IR_FOLD_CONST_I i else Fold_UB)"

definition fold_rot_u :: "'a::len word option \<Rightarrow> fold_result" where
  "fold_rot_u r = (case r of None \<Rightarrow> Fold_UB | Some w \<Rightarrow> IR_FOLD_CONST_U (uint w))"

definition fold_rot_i :: "'a::len word option \<Rightarrow> fold_result" where
  "fold_rot_i r = (case r of None \<Rightarrow> Fold_UB | Some w \<Rightarrow> IR_FOLD_CONST_I (sint w))"

section \<open>Comparisons\<close>

definition fold_rules_eq :: "fold_rule list" where
  "fold_rules_eq = [
    ([(IR_EQ, IR_C_BOOL, IR_C_BOOL), (IR_EQ, IR_C_U8, IR_C_U8), (IR_EQ, IR_C_U16, IR_C_U16),
      (IR_EQ, IR_C_U32, IR_C_U32), (IR_EQ, IR_C_U64, IR_C_U64), (IR_EQ, IR_C_ADDR, IR_C_ADDR),
      (IR_EQ, IR_C_CHAR, IR_C_CHAR), (IR_EQ, IR_C_I8, IR_C_I8), (IR_EQ, IR_C_I16, IR_C_I16),
      (IR_EQ, IR_C_I32, IR_C_I32), (IR_EQ, IR_C_I64, IR_C_I64)],
     \<lambda>h ctx a x y z. IR_FOLD_BOOL (i_val x = i_val y)),
    ([(IR_EQ, IR_C_DOUBLE, IR_C_DOUBLE)],
     \<lambda>h ctx a x y z. IR_FOLD_BOOL (fp_eq IR_DOUBLE (val_d (i_val x)) (val_d (i_val y)))),
    ([(IR_EQ, IR_C_FLOAT, IR_C_FLOAT)],
     \<lambda>h ctx a x y z. IR_FOLD_BOOL (fp_eq IR_DOUBLE (val_d (i_val x)) (val_d (i_val y)))),
    ([(IR_NE, IR_C_BOOL, IR_C_BOOL), (IR_NE, IR_C_U8, IR_C_U8), (IR_NE, IR_C_U16, IR_C_U16),
      (IR_NE, IR_C_U32, IR_C_U32), (IR_NE, IR_C_U64, IR_C_U64), (IR_NE, IR_C_ADDR, IR_C_ADDR),
      (IR_NE, IR_C_CHAR, IR_C_CHAR), (IR_NE, IR_C_I8, IR_C_I8), (IR_NE, IR_C_I16, IR_C_I16),
      (IR_NE, IR_C_I32, IR_C_I32), (IR_NE, IR_C_I64, IR_C_I64)],
     \<lambda>h ctx a x y z. IR_FOLD_BOOL (i_val x \<noteq> i_val y)),
    ([(IR_NE, IR_C_DOUBLE, IR_C_DOUBLE)],
     \<lambda>h ctx a x y z. IR_FOLD_BOOL (\<not> fp_eq IR_DOUBLE (val_d (i_val x)) (val_d (i_val y)))),
    ([(IR_NE, IR_C_FLOAT, IR_C_FLOAT)],
     \<lambda>h ctx a x y z. IR_FOLD_BOOL (\<not> fp_eq IR_FLOAT (val_f (i_val x)) (val_f (i_val y))))]"

definition fold_rules_order :: "fold_rule list" where
  "fold_rules_order = [
    ([(IR_LT, IR_C_BOOL, IR_C_BOOL), (IR_LT, IR_C_U8, IR_C_U8), (IR_LT, IR_C_U16, IR_C_U16),
      (IR_LT, IR_C_U32, IR_C_U32), (IR_LT, IR_C_U64, IR_C_U64), (IR_LT, IR_C_ADDR, IR_C_ADDR)],
     \<lambda>h ctx a x y z. IR_FOLD_BOOL (val_u64 (i_val x) < val_u64 (i_val y))),
    ([(IR_LT, IR_C_CHAR, IR_C_CHAR), (IR_LT, IR_C_I8, IR_C_I8), (IR_LT, IR_C_I16, IR_C_I16),
      (IR_LT, IR_C_I32, IR_C_I32), (IR_LT, IR_C_I64, IR_C_I64)],
     \<lambda>h ctx a x y z. IR_FOLD_BOOL (val_i64 (i_val x) < val_i64 (i_val y))),
    ([(IR_LT, IR_C_DOUBLE, IR_C_DOUBLE)],
     \<lambda>h ctx a x y z. IR_FOLD_BOOL (fp_lt IR_DOUBLE (val_d (i_val x)) (val_d (i_val y)))),
    ([(IR_LT, IR_C_FLOAT, IR_C_FLOAT)],
     \<lambda>h ctx a x y z. IR_FOLD_BOOL (fp_lt IR_FLOAT (val_f (i_val x)) (val_f (i_val y)))),
    ([(IR_GE, IR_C_BOOL, IR_C_BOOL), (IR_GE, IR_C_U8, IR_C_U8), (IR_GE, IR_C_U16, IR_C_U16),
      (IR_GE, IR_C_U32, IR_C_U32), (IR_GE, IR_C_U64, IR_C_U64), (IR_GE, IR_C_ADDR, IR_C_ADDR)],
     \<lambda>h ctx a x y z. IR_FOLD_BOOL (val_u64 (i_val x) \<ge> val_u64 (i_val y))),
    ([(IR_GE, IR_C_CHAR, IR_C_CHAR), (IR_GE, IR_C_I8, IR_C_I8), (IR_GE, IR_C_I16, IR_C_I16),
      (IR_GE, IR_C_I32, IR_C_I32), (IR_GE, IR_C_I64, IR_C_I64)],
     \<lambda>h ctx a x y z. IR_FOLD_BOOL (val_i64 (i_val x) \<ge> val_i64 (i_val y))),
    ([(IR_GE, IR_C_DOUBLE, IR_C_DOUBLE)],
     \<lambda>h ctx a x y z. IR_FOLD_BOOL (fp_le IR_DOUBLE (val_d (i_val y)) (val_d (i_val x)))),
    ([(IR_GE, IR_C_FLOAT, IR_C_FLOAT)],
     \<lambda>h ctx a x y z. IR_FOLD_BOOL (fp_le IR_FLOAT (val_f (i_val y)) (val_f (i_val x)))),
    ([(IR_LE, IR_C_BOOL, IR_C_BOOL), (IR_LE, IR_C_U8, IR_C_U8), (IR_LE, IR_C_U16, IR_C_U16),
      (IR_LE, IR_C_U32, IR_C_U32), (IR_LE, IR_C_U64, IR_C_U64), (IR_LE, IR_C_ADDR, IR_C_ADDR)],
     \<lambda>h ctx a x y z. IR_FOLD_BOOL (val_u64 (i_val x) \<le> val_u64 (i_val y))),
    ([(IR_LE, IR_C_CHAR, IR_C_CHAR), (IR_LE, IR_C_I8, IR_C_I8), (IR_LE, IR_C_I16, IR_C_I16),
      (IR_LE, IR_C_I32, IR_C_I32), (IR_LE, IR_C_I64, IR_C_I64)],
     \<lambda>h ctx a x y z. IR_FOLD_BOOL (val_i64 (i_val x) \<le> val_i64 (i_val y))),
    ([(IR_LE, IR_C_DOUBLE, IR_C_DOUBLE)],
     \<lambda>h ctx a x y z. IR_FOLD_BOOL (fp_le IR_DOUBLE (val_d (i_val x)) (val_d (i_val y)))),
    ([(IR_LE, IR_C_FLOAT, IR_C_FLOAT)],
     \<lambda>h ctx a x y z. IR_FOLD_BOOL (fp_le IR_FLOAT (val_f (i_val x)) (val_f (i_val y)))),
    ([(IR_GT, IR_C_BOOL, IR_C_BOOL), (IR_GT, IR_C_U8, IR_C_U8), (IR_GT, IR_C_U16, IR_C_U16),
      (IR_GT, IR_C_U32, IR_C_U32), (IR_GT, IR_C_U64, IR_C_U64), (IR_GT, IR_C_ADDR, IR_C_ADDR)],
     \<lambda>h ctx a x y z. IR_FOLD_BOOL (val_u64 (i_val x) > val_u64 (i_val y))),
    ([(IR_GT, IR_C_CHAR, IR_C_CHAR), (IR_GT, IR_C_I8, IR_C_I8), (IR_GT, IR_C_I16, IR_C_I16),
      (IR_GT, IR_C_I32, IR_C_I32), (IR_GT, IR_C_I64, IR_C_I64)],
     \<lambda>h ctx a x y z. IR_FOLD_BOOL (val_i64 (i_val x) > val_i64 (i_val y))),
    ([(IR_GT, IR_C_DOUBLE, IR_C_DOUBLE)],
     \<lambda>h ctx a x y z. IR_FOLD_BOOL (fp_lt IR_DOUBLE (val_d (i_val y)) (val_d (i_val x)))),
    ([(IR_GT, IR_C_FLOAT, IR_C_FLOAT)],
     \<lambda>h ctx a x y z. IR_FOLD_BOOL (fp_lt IR_FLOAT (val_f (i_val y)) (val_f (i_val x))))]"

definition fold_rules_uorder :: "fold_rule list" where
  "fold_rules_uorder = [
    ([(IR_ULT, IR_C_BOOL, IR_C_BOOL), (IR_ULT, IR_C_U8, IR_C_U8), (IR_ULT, IR_C_U16, IR_C_U16),
      (IR_ULT, IR_C_U32, IR_C_U32), (IR_ULT, IR_C_U64, IR_C_U64),
      (IR_ULT, IR_C_ADDR, IR_C_ADDR), (IR_ULT, IR_C_CHAR, IR_C_CHAR),
      (IR_ULT, IR_C_I8, IR_C_I8), (IR_ULT, IR_C_I16, IR_C_I16), (IR_ULT, IR_C_I32, IR_C_I32),
      (IR_ULT, IR_C_I64, IR_C_I64)],
     \<lambda>h ctx a x y z. IR_FOLD_BOOL (val_u64 (i_val x) < val_u64 (i_val y))),
    ([(IR_ULT, IR_C_DOUBLE, IR_C_DOUBLE)],
     \<lambda>h ctx a x y z. IR_FOLD_BOOL (\<not> fp_le IR_DOUBLE (val_d (i_val y)) (val_d (i_val x)))),
    ([(IR_ULT, IR_C_FLOAT, IR_C_FLOAT)],
     \<lambda>h ctx a x y z. IR_FOLD_BOOL (\<not> fp_le IR_FLOAT (val_f (i_val y)) (val_f (i_val x)))),
    ([(IR_UGE, IR_C_BOOL, IR_C_BOOL), (IR_UGE, IR_C_U8, IR_C_U8), (IR_UGE, IR_C_U16, IR_C_U16),
      (IR_UGE, IR_C_U32, IR_C_U32), (IR_UGE, IR_C_U64, IR_C_U64),
      (IR_UGE, IR_C_ADDR, IR_C_ADDR), (IR_UGE, IR_C_CHAR, IR_C_CHAR),
      (IR_UGE, IR_C_I8, IR_C_I8), (IR_UGE, IR_C_I16, IR_C_I16), (IR_UGE, IR_C_I32, IR_C_I32),
      (IR_UGE, IR_C_I64, IR_C_I64)],
     \<lambda>h ctx a x y z. IR_FOLD_BOOL (val_u64 (i_val x) \<ge> val_u64 (i_val y))),
    ([(IR_UGE, IR_C_DOUBLE, IR_C_DOUBLE)],
     \<lambda>h ctx a x y z. IR_FOLD_BOOL (\<not> fp_lt IR_DOUBLE (val_d (i_val x)) (val_d (i_val y)))),
    ([(IR_UGE, IR_C_FLOAT, IR_C_FLOAT)],
     \<lambda>h ctx a x y z. IR_FOLD_BOOL (\<not> fp_lt IR_FLOAT (val_f (i_val x)) (val_f (i_val y)))),
    ([(IR_ULE, IR_C_BOOL, IR_C_BOOL), (IR_ULE, IR_C_U8, IR_C_U8), (IR_ULE, IR_C_U16, IR_C_U16),
      (IR_ULE, IR_C_U32, IR_C_U32), (IR_ULE, IR_C_U64, IR_C_U64),
      (IR_ULE, IR_C_ADDR, IR_C_ADDR), (IR_ULE, IR_C_CHAR, IR_C_CHAR),
      (IR_ULE, IR_C_I8, IR_C_I8), (IR_ULE, IR_C_I16, IR_C_I16), (IR_ULE, IR_C_I32, IR_C_I32),
      (IR_ULE, IR_C_I64, IR_C_I64)],
     \<lambda>h ctx a x y z. IR_FOLD_BOOL (val_u64 (i_val x) \<le> val_u64 (i_val y))),
    ([(IR_ULE, IR_C_DOUBLE, IR_C_DOUBLE)],
     \<lambda>h ctx a x y z. IR_FOLD_BOOL (\<not> fp_lt IR_DOUBLE (val_d (i_val y)) (val_d (i_val x)))),
    ([(IR_ULE, IR_C_FLOAT, IR_C_FLOAT)],
     \<lambda>h ctx a x y z. IR_FOLD_BOOL (\<not> fp_lt IR_FLOAT (val_f (i_val y)) (val_f (i_val x)))),
    ([(IR_UGT, IR_C_BOOL, IR_C_BOOL), (IR_UGT, IR_C_U8, IR_C_U8), (IR_UGT, IR_C_U16, IR_C_U16),
      (IR_UGT, IR_C_U32, IR_C_U32), (IR_UGT, IR_C_U64, IR_C_U64),
      (IR_UGT, IR_C_ADDR, IR_C_ADDR), (IR_UGT, IR_C_CHAR, IR_C_CHAR),
      (IR_UGT, IR_C_I8, IR_C_I8), (IR_UGT, IR_C_I16, IR_C_I16), (IR_UGT, IR_C_I32, IR_C_I32),
      (IR_UGT, IR_C_I64, IR_C_I64)],
     \<lambda>h ctx a x y z. IR_FOLD_BOOL (val_u64 (i_val x) > val_u64 (i_val y))),
    ([(IR_UGT, IR_C_DOUBLE, IR_C_DOUBLE)],
     \<lambda>h ctx a x y z. IR_FOLD_BOOL (\<not> fp_le IR_DOUBLE (val_d (i_val x)) (val_d (i_val y)))),
    ([(IR_UGT, IR_C_FLOAT, IR_C_FLOAT)],
     \<lambda>h ctx a x y z. IR_FOLD_BOOL (\<not> fp_le IR_FLOAT (val_f (i_val x)) (val_f (i_val y))))]"

definition fold_rules_nan :: "fold_rule list" where
  "fold_rules_nan = [
    ([(IR_ORDERED, IR_C_FLOAT, IR_C_FLOAT)],
     \<lambda>h ctx a x y z. IR_FOLD_BOOL (\<not> fp_isnan IR_FLOAT (val_f (i_val x)) \<and> \<not> fp_isnan IR_FLOAT (val_f (i_val y)))),
    ([(IR_ORDERED, IR_C_DOUBLE, IR_C_DOUBLE)],
     \<lambda>h ctx a x y z. IR_FOLD_BOOL (\<not> fp_isnan IR_DOUBLE (val_d (i_val x)) \<and> \<not> fp_isnan IR_DOUBLE (val_d (i_val y)))),
    ([(IR_UNORDERED, IR_C_FLOAT, IR_C_FLOAT)],
     \<lambda>h ctx a x y z. IR_FOLD_BOOL (fp_isnan IR_FLOAT (val_f (i_val x)) \<or> fp_isnan IR_FLOAT (val_f (i_val y)))),
    ([(IR_UNORDERED, IR_C_DOUBLE, IR_C_DOUBLE)],
     \<lambda>h ctx a x y z. IR_FOLD_BOOL (fp_isnan IR_DOUBLE (val_d (i_val x)) \<or> fp_isnan IR_DOUBLE (val_d (i_val y)))),
    ([(IR_EQ, ANY, IR_C_FLOAT), (IR_LT, ANY, IR_C_FLOAT), (IR_GE, ANY, IR_C_FLOAT),
      (IR_LE, ANY, IR_C_FLOAT), (IR_GT, ANY, IR_C_FLOAT)],
     \<lambda>h ctx a x y z. if fp_isnan IR_FLOAT (val_f (i_val y)) then Fold_Copy IR_FALSE else Fold_Next),
    ([(IR_NE, ANY, IR_C_FLOAT)],
     \<lambda>h ctx a x y z. if fp_isnan IR_FLOAT (val_f (i_val y)) then Fold_Copy IR_TRUE else Fold_Next),
    ([(IR_ORDERED, ANY, IR_C_FLOAT)],
     \<lambda>h ctx a x y z. if fp_isnan IR_FLOAT (val_f (i_val y)) then Fold_Copy IR_FALSE
       else Fold_Restart ctx (a\<lparr>i_op2 := i_op1 a\<rparr>)),
    ([(IR_UNORDERED, ANY, IR_C_FLOAT)],
     \<lambda>h ctx a x y z. if fp_isnan IR_FLOAT (val_f (i_val y)) then Fold_Copy IR_TRUE
       else Fold_Restart ctx (a\<lparr>i_op2 := i_op1 a\<rparr>)),
    ([(IR_EQ, ANY, IR_C_DOUBLE), (IR_LT, ANY, IR_C_DOUBLE), (IR_GE, ANY, IR_C_DOUBLE),
      (IR_LE, ANY, IR_C_DOUBLE), (IR_GT, ANY, IR_C_DOUBLE)],
     \<lambda>h ctx a x y z. if fp_isnan IR_DOUBLE (val_d (i_val y)) then Fold_Copy IR_FALSE else Fold_Next),
    ([(IR_NE, ANY, IR_C_DOUBLE)],
     \<lambda>h ctx a x y z. if fp_isnan IR_DOUBLE (val_d (i_val y)) then Fold_Copy IR_TRUE else Fold_Next),
    ([(IR_ORDERED, ANY, IR_C_DOUBLE)],
     \<lambda>h ctx a x y z. if fp_isnan IR_DOUBLE (val_d (i_val y)) then Fold_Copy IR_FALSE
       else Fold_Restart ctx (a\<lparr>i_op2 := i_op1 a\<rparr>)),
    ([(IR_UNORDERED, ANY, IR_C_DOUBLE)],
     \<lambda>h ctx a x y z. if fp_isnan IR_DOUBLE (val_d (i_val y)) then Fold_Copy IR_TRUE
       else Fold_Restart ctx (a\<lparr>i_op2 := i_op1 a\<rparr>))]"

section \<open>Arithmetic\<close>

definition fold_rules_add :: "fold_rule list" where
  "fold_rules_add = [
    ([(IR_ADD, IR_C_U8, IR_C_U8)],
     \<lambda>h ctx a x y z. IR_FOLD_CONST_U (val_u8 (i_val x) + val_u8 (i_val y))),
    ([(IR_ADD, IR_C_U16, IR_C_U16)],
     \<lambda>h ctx a x y z. IR_FOLD_CONST_U (val_u16 (i_val x) + val_u16 (i_val y))),
    ([(IR_ADD, IR_C_U32, IR_C_U32)],
     \<lambda>h ctx a x y z. IR_FOLD_CONST_U (take_bit 32 (val_u32 (i_val x) + val_u32 (i_val y)))),
    ([(IR_ADD, IR_C_U64, IR_C_U64)],
     \<lambda>h ctx a x y z. IR_FOLD_CONST_U (val_u64 (i_val x) + val_u64 (i_val y))),
    ([(IR_ADD, IR_C_ADDR, IR_C_ADDR), (IR_ADD, IR_C_ADDR, IR_C_I64),
      (IR_ADD, IR_C_ADDR, IR_C_U64), (IR_ADD, IR_C_I64, IR_C_ADDR),
      (IR_ADD, IR_C_U64, IR_C_ADDR)],
     \<lambda>h ctx a x y z. IR_FOLD_CONST_U (val_u64 (i_val x) + val_u64 (i_val y))),
    ([(IR_ADD, IR_C_I8, IR_C_I8)],
     \<lambda>h ctx a x y z. IR_FOLD_CONST_I (val_i8 (i_val x) + val_i8 (i_val y))),
    ([(IR_ADD, IR_C_I16, IR_C_I16)],
     \<lambda>h ctx a x y z. IR_FOLD_CONST_I (val_i16 (i_val x) + val_i16 (i_val y))),
    ([(IR_ADD, IR_C_I32, IR_C_I32)],
     \<lambda>h ctx a x y z. IR_FOLD_CONST_I (signed_take_bit 31 (val_u32 (i_val x) + val_u32 (i_val y)))),
    ([(IR_ADD, IR_C_I64, IR_C_I64)],
     \<lambda>h ctx a x y z. IR_FOLD_CONST_I (val_u64 (i_val x) + val_u64 (i_val y))),
    ([(IR_ADD, IR_C_DOUBLE, IR_C_DOUBLE)],
     \<lambda>h ctx a x y z. IR_FOLD_CONST_D (fp_add h IR_DOUBLE (val_d (i_val x)) (val_d (i_val y)))),
    ([(IR_ADD, IR_C_FLOAT, IR_C_FLOAT)],
     \<lambda>h ctx a x y z. IR_FOLD_CONST_F (fp_add h IR_FLOAT (val_f (i_val x)) (val_f (i_val y))))]"

definition fold_rules_sub :: "fold_rule list" where
  "fold_rules_sub = [
    ([(IR_SUB, IR_C_U8, IR_C_U8)],
     \<lambda>h ctx a x y z. IR_FOLD_CONST_U (val_u8 (i_val x) - val_u8 (i_val y))),
    ([(IR_SUB, IR_C_U16, IR_C_U16)],
     \<lambda>h ctx a x y z. IR_FOLD_CONST_U (val_u16 (i_val x) - val_u16 (i_val y))),
    ([(IR_SUB, IR_C_U32, IR_C_U32)],
     \<lambda>h ctx a x y z. IR_FOLD_CONST_U (take_bit 32 (val_u32 (i_val x) - val_u32 (i_val y)))),
    ([(IR_SUB, IR_C_U64, IR_C_U64)],
     \<lambda>h ctx a x y z. IR_FOLD_CONST_U (val_u64 (i_val x) - val_u64 (i_val y))),
    ([(IR_SUB, IR_C_ADDR, IR_C_ADDR), (IR_SUB, IR_C_ADDR, IR_C_I64),
      (IR_SUB, IR_C_ADDR, IR_C_U64), (IR_SUB, IR_C_I64, IR_C_ADDR),
      (IR_SUB, IR_C_U64, IR_C_ADDR)],
     \<lambda>h ctx a x y z. IR_FOLD_CONST_U (val_u64 (i_val x) - val_u64 (i_val y))),
    ([(IR_SUB, IR_C_I8, IR_C_I8)],
     \<lambda>h ctx a x y z. IR_FOLD_CONST_I (val_i8 (i_val x) - val_i8 (i_val y))),
    ([(IR_SUB, IR_C_I16, IR_C_I16)],
     \<lambda>h ctx a x y z. IR_FOLD_CONST_I (val_i16 (i_val x) - val_i16 (i_val y))),
    ([(IR_SUB, IR_C_I32, IR_C_I32)],
     \<lambda>h ctx a x y z. IR_FOLD_CONST_I (signed_take_bit 31 (val_u32 (i_val x) - val_u32 (i_val y)))),
    ([(IR_SUB, IR_C_I64, IR_C_I64)],
     \<lambda>h ctx a x y z. IR_FOLD_CONST_I (val_u64 (i_val x) - val_u64 (i_val y))),
    ([(IR_SUB, IR_C_DOUBLE, IR_C_DOUBLE)],
     \<lambda>h ctx a x y z. IR_FOLD_CONST_D (fp_sub h IR_DOUBLE (val_d (i_val x)) (val_d (i_val y)))),
    ([(IR_SUB, IR_C_FLOAT, IR_C_FLOAT)],
     \<lambda>h ctx a x y z. IR_FOLD_CONST_F (fp_sub h IR_FLOAT (val_f (i_val x)) (val_f (i_val y))))]"

definition fold_rules_mul :: "fold_rule list" where
  "fold_rules_mul = [
    ([(IR_MUL, IR_C_U8, IR_C_U8)],
     \<lambda>h ctx a x y z. IR_FOLD_CONST_U (val_u8 (i_val x) * val_u8 (i_val y))),
    ([(IR_MUL, IR_C_U16, IR_C_U16)],
     \<lambda>h ctx a x y z. IR_FOLD_CONST_U (take_bit 32 (val_u16 (i_val x) * val_u16 (i_val y)))),
    ([(IR_MUL, IR_C_U32, IR_C_U32)],
     \<lambda>h ctx a x y z. IR_FOLD_CONST_U (take_bit 32 (val_u32 (i_val x) * val_u32 (i_val y)))),
    ([(IR_MUL, IR_C_U64, IR_C_U64)],
     \<lambda>h ctx a x y z. IR_FOLD_CONST_U (val_u64 (i_val x) * val_u64 (i_val y))),
    ([(IR_MUL, IR_C_ADDR, IR_C_ADDR), (IR_MUL, IR_C_ADDR, IR_C_I64),
      (IR_MUL, IR_C_ADDR, IR_C_U64), (IR_MUL, IR_C_I64, IR_C_ADDR),
      (IR_MUL, IR_C_U64, IR_C_ADDR)],
     \<lambda>h ctx a x y z. IR_FOLD_CONST_U (val_u64 (i_val x) * val_u64 (i_val y))),
    ([(IR_MUL, IR_C_I8, IR_C_I8)],
     \<lambda>h ctx a x y z. IR_FOLD_CONST_I (val_i8 (i_val x) * val_i8 (i_val y))),
    ([(IR_MUL, IR_C_I16, IR_C_I16)],
     \<lambda>h ctx a x y z. IR_FOLD_CONST_I (val_i16 (i_val x) * val_i16 (i_val y))),
    ([(IR_MUL, IR_C_I32, IR_C_I32)],
     \<lambda>h ctx a x y z. IR_FOLD_CONST_I (signed_take_bit 31 (val_u32 (i_val x) * val_u32 (i_val y)))),
    ([(IR_MUL, IR_C_I64, IR_C_I64)],
     \<lambda>h ctx a x y z. IR_FOLD_CONST_I (val_u64 (i_val x) * val_u64 (i_val y))),
    ([(IR_MUL, IR_C_DOUBLE, IR_C_DOUBLE)],
     \<lambda>h ctx a x y z. IR_FOLD_CONST_D (fp_mul h IR_DOUBLE (val_d (i_val x)) (val_d (i_val y)))),
    ([(IR_MUL, IR_C_FLOAT, IR_C_FLOAT)],
     \<lambda>h ctx a x y z. IR_FOLD_CONST_F (fp_mul h IR_FLOAT (val_f (i_val x)) (val_f (i_val y))))]"

definition fold_rules_div :: "fold_rule list" where
  "fold_rules_div = [
    ([(IR_DIV, IR_C_U8, IR_C_U8)],
     \<lambda>h ctx a x y z. if i_val y = 0 then Fold_Emit a else c_udiv (val_u8 (i_val x)) (val_u8 (i_val y))),
    ([(IR_DIV, IR_C_U16, IR_C_U16)],
     \<lambda>h ctx a x y z. if i_val y = 0 then Fold_Emit a else c_udiv (val_u16 (i_val x)) (val_u16 (i_val y))),
    ([(IR_DIV, IR_C_U32, IR_C_U32)],
     \<lambda>h ctx a x y z. if i_val y = 0 then Fold_Emit a else c_udiv (val_u32 (i_val x)) (val_u32 (i_val y))),
    ([(IR_DIV, IR_C_U64, IR_C_U64)],
     \<lambda>h ctx a x y z. if i_val y = 0 then Fold_Emit a else c_udiv (val_u64 (i_val x)) (val_u64 (i_val y))),
    ([(IR_DIV, IR_C_ADDR, IR_C_ADDR)],
     \<lambda>h ctx a x y z. if i_val y = 0 then Fold_Emit a else c_udiv (val_u64 (i_val x)) (val_u64 (i_val y))),
    ([(IR_DIV, IR_C_I8, IR_C_I8)],
     \<lambda>h ctx a x y z. if i_val y = 0 \<or> val_i64 (i_val y) = -1 \<and> val_u8 (i_val x) = 0x80 then Fold_Emit a
       else c_sdiv 32 (val_i8 (i_val x)) (val_i8 (i_val y))),
    ([(IR_DIV, IR_C_I16, IR_C_I16)],
     \<lambda>h ctx a x y z. if i_val y = 0 \<or> val_i64 (i_val y) = -1 \<and> val_u16 (i_val x) = 0x8000 then Fold_Emit a
       else c_sdiv 32 (val_i16 (i_val x)) (val_i16 (i_val y))),
    ([(IR_DIV, IR_C_I32, IR_C_I32)],
     \<lambda>h ctx a x y z. if i_val y = 0 \<or> val_i64 (i_val y) = -1 \<and> val_u32 (i_val x) = 0x80000000 then Fold_Emit a
       else c_sdiv 32 (val_i32 (i_val x)) (val_i32 (i_val y))),
    ([(IR_DIV, IR_C_I64, IR_C_I64)],
     \<lambda>h ctx a x y z. if i_val y = 0 \<or> val_i64 (i_val y) = -1 \<and> val_u64 (i_val x) = 0x8000000000000000 then Fold_Emit a
       else c_sdiv 64 (val_i64 (i_val x)) (val_i64 (i_val y))),
    ([(IR_DIV, IR_C_DOUBLE, IR_C_DOUBLE)],
     \<lambda>h ctx a x y z. IR_FOLD_CONST_D (fp_div h IR_DOUBLE (val_d (i_val x)) (val_d (i_val y)))),
    ([(IR_DIV, IR_C_FLOAT, IR_C_FLOAT)],
     \<lambda>h ctx a x y z. IR_FOLD_CONST_F (fp_div h IR_FLOAT (val_f (i_val x)) (val_f (i_val y))))]"

definition fold_rules_mod_neg_abs :: "fold_rule list" where
  "fold_rules_mod_neg_abs = [
    ([(IR_MOD, IR_C_U8, IR_C_U8), (IR_MOD, IR_C_U16, IR_C_U16), (IR_MOD, IR_C_U32, IR_C_U32),
      (IR_MOD, IR_C_U64, IR_C_U64), (IR_MOD, IR_C_ADDR, IR_C_ADDR)],
     \<lambda>h ctx a x y z. if i_val y = 0 then Fold_Emit a else IR_FOLD_CONST_U (val_u64 (i_val x) mod val_u64 (i_val y))),
    ([(IR_MOD, IR_C_I8, IR_C_I8), (IR_MOD, IR_C_I16, IR_C_I16), (IR_MOD, IR_C_I32, IR_C_I32),
      (IR_MOD, IR_C_I64, IR_C_I64)],
     \<lambda>h ctx a x y z. if i_val y = 0 then Fold_Emit a else c_smod 64 (val_i64 (i_val x)) (val_i64 (i_val y))),
    ([(IR_NEG, IR_C_I8, ANY)],
     \<lambda>h ctx a x y z. IR_FOLD_CONST_I (signed_take_bit 7 (0 - val_u8 (i_val x)))),
    ([(IR_NEG, IR_C_I16, ANY)],
     \<lambda>h ctx a x y z. IR_FOLD_CONST_I (signed_take_bit 15 (0 - val_u16 (i_val x)))),
    ([(IR_NEG, IR_C_I32, ANY)],
     \<lambda>h ctx a x y z. IR_FOLD_CONST_I (signed_take_bit 31 (0 - val_u32 (i_val x)))),
    ([(IR_NEG, IR_C_I64, ANY)],
     \<lambda>h ctx a x y z. IR_FOLD_CONST_I (0 - val_u64 (i_val x))),
    ([(IR_NEG, IR_C_DOUBLE, ANY)],
     \<lambda>h ctx a x y z. IR_FOLD_CONST_D (fp_neg IR_DOUBLE (val_d (i_val x)))),
    ([(IR_NEG, IR_C_FLOAT, ANY)],
     \<lambda>h ctx a x y z. IR_FOLD_CONST_F (fp_neg IR_FLOAT (val_f (i_val x)))),
    ([(IR_ABS, IR_C_I8, ANY)],
     \<lambda>h ctx a x y z. if val_i64 (i_val x) \<ge> 0 then Fold_Copy (i_op1 a) else IR_FOLD_CONST_I (- val_i8 (i_val x))),
    ([(IR_ABS, IR_C_I16, ANY)],
     \<lambda>h ctx a x y z. if val_i64 (i_val x) \<ge> 0 then Fold_Copy (i_op1 a) else IR_FOLD_CONST_I (- val_i16 (i_val x))),
    ([(IR_ABS, IR_C_I32, ANY)],
     \<lambda>h ctx a x y z. if val_i64 (i_val x) \<ge> 0 then Fold_Copy (i_op1 a) else IR_FOLD_CONST_I (signed_take_bit 31 (- val_u32 (i_val x)))),
    ([(IR_ABS, IR_C_I64, ANY)],
     \<lambda>h ctx a x y z. if val_i64 (i_val x) \<ge> 0 then Fold_Copy (i_op1 a) else IR_FOLD_CONST_I (- val_u64 (i_val x))),
    ([(IR_ABS, IR_C_DOUBLE, ANY)],
     \<lambda>h ctx a x y z. IR_FOLD_CONST_D (fp_abs IR_DOUBLE (val_d (i_val x)))),
    ([(IR_ABS, IR_C_FLOAT, ANY)],
     \<lambda>h ctx a x y z. IR_FOLD_CONST_F (fp_abs IR_FLOAT (val_f (i_val x))))]"

definition fold_rules_ov :: "fold_rule list" where
  "fold_rules_ov = [
    ([(IR_ADD_OV, IR_C_U8, IR_C_U8), (IR_ADD_OV, IR_C_U16, IR_C_U16),
      (IR_ADD_OV, IR_C_U32, IR_C_U32), (IR_ADD_OV, IR_C_U64, IR_C_U64)],
     \<lambda>h ctx a x y z. if i_val x > ov_umax (i_type a) - i_val y then Fold_Next
       else Fold_Const (i_val x + i_val y)),
    ([(IR_ADD_OV, IR_C_I8, IR_C_I8), (IR_ADD_OV, IR_C_I16, IR_C_I16),
      (IR_ADD_OV, IR_C_I32, IR_C_I32), (IR_ADD_OV, IR_C_I64, IR_C_I64)],
     \<lambda>h ctx a x y z. let max = ov_smax (i_type a); min = - max - 1; v1 = val_i64 (i_val x); v2 = val_i64 (i_val y)
       in if v2 > 0 \<and> v1 > max - v2 \<or> v2 < 0 \<and> v1 < min - v2 then Fold_Next
          else IR_FOLD_CONST_I (v1 + v2)),
    ([(IR_SUB_OV, IR_C_U8, IR_C_U8), (IR_SUB_OV, IR_C_U16, IR_C_U16),
      (IR_SUB_OV, IR_C_U32, IR_C_U32), (IR_SUB_OV, IR_C_U64, IR_C_U64)],
     \<lambda>h ctx a x y z. if i_val y > i_val x then Fold_Next else Fold_Const (i_val x - i_val y)),
    ([(IR_SUB_OV, IR_C_I8, IR_C_I8), (IR_SUB_OV, IR_C_I16, IR_C_I16),
      (IR_SUB_OV, IR_C_I32, IR_C_I32), (IR_SUB_OV, IR_C_I64, IR_C_I64)],
     \<lambda>h ctx a x y z. let max = ov_smax (i_type a); min = - max - 1; v1 = val_i64 (i_val x); v2 = val_i64 (i_val y)
       in if v2 > 0 \<and> v1 < min + v2 \<or> v2 < 0 \<and> v1 > max + v2 then Fold_Next
          else IR_FOLD_CONST_I (v1 - v2)),
    ([(IR_MUL_OV, IR_C_U8, IR_C_U8), (IR_MUL_OV, IR_C_U16, IR_C_U16),
      (IR_MUL_OV, IR_C_U32, IR_C_U32), (IR_MUL_OV, IR_C_U64, IR_C_U64)],
     \<lambda>h ctx a x y z. let max = ov_umax (i_type a); res = i_val x * i_val y
       in if i_val x \<noteq> 0 \<and> uint res div uint (i_val x) \<noteq> uint (i_val y) \<or> res > max then Fold_Next
          else Fold_Const res),
    ([(IR_MUL_OV, IR_C_I8, IR_C_I8), (IR_MUL_OV, IR_C_I16, IR_C_I16),
      (IR_MUL_OV, IR_C_I32, IR_C_I32), (IR_MUL_OV, IR_C_I64, IR_C_I64)],
     \<lambda>h ctx a x y z. let max = ov_smax (i_type a); min = - max - 1; v1 = val_i64 (i_val x); v2 = val_i64 (i_val y);
           res = val_i64 (i_val x * i_val y)
       in if v1 = -1 \<and> res = - (2 ^ 63) then Fold_UB
          else if v1 \<noteq> 0 \<and> res sdiv v1 \<noteq> v2 \<or> res < min \<or> res > max then Fold_Next
          else IR_FOLD_CONST_U res),
    ([(IR_OVERFLOW, ANY, ANY)],
     \<lambda>h ctx a x y z. if i_op x \<noteq> IR_ADD_OV \<and> i_op x \<noteq> IR_SUB_OV \<and> i_op x \<noteq> IR_MUL_OV then Fold_Copy IR_FALSE
       else Fold_Next)]"

section \<open>Bitwise operations and shifts\<close>

definition fold_rules_bitwise :: "fold_rule list" where
  "fold_rules_bitwise = [
    ([(IR_NOT, IR_C_BOOL, ANY)],
     \<lambda>h ctx a x y z. IR_FOLD_BOOL (i_val x = 0)),
    ([(IR_NOT, IR_C_U8, ANY), (IR_NOT, IR_C_CHAR, ANY)],
     \<lambda>h ctx a x y z. IR_FOLD_CONST_U (NOT (val_u8 (i_val x)))),
    ([(IR_NOT, IR_C_I8, ANY)],
     \<lambda>h ctx a x y z. IR_FOLD_CONST_I (NOT (val_i8 (i_val x)))),
    ([(IR_NOT, IR_C_U16, ANY)],
     \<lambda>h ctx a x y z. IR_FOLD_CONST_U (NOT (val_u16 (i_val x)))),
    ([(IR_NOT, IR_C_I16, ANY)],
     \<lambda>h ctx a x y z. IR_FOLD_CONST_I (NOT (val_i16 (i_val x)))),
    ([(IR_NOT, IR_C_U32, ANY)],
     \<lambda>h ctx a x y z. IR_FOLD_CONST_U (take_bit 32 (NOT (val_u32 (i_val x))))),
    ([(IR_NOT, IR_C_I32, ANY)],
     \<lambda>h ctx a x y z. IR_FOLD_CONST_I (NOT (val_i32 (i_val x)))),
    ([(IR_NOT, IR_C_U64, ANY), (IR_NOT, IR_C_I64, ANY)],
     \<lambda>h ctx a x y z. Fold_Const (NOT (i_val x))),
    ([(IR_OR, IR_C_BOOL, IR_C_BOOL)],
     \<lambda>h ctx a x y z. IR_FOLD_BOOL (val_b (i_val x) \<or> val_b (i_val y))),
    ([(IR_OR, IR_C_CHAR, IR_C_CHAR), (IR_OR, IR_C_U8, IR_C_U8), (IR_OR, IR_C_U16, IR_C_U16),
      (IR_OR, IR_C_U32, IR_C_U32), (IR_OR, IR_C_U64, IR_C_U64)],
     \<lambda>h ctx a x y z. Fold_Const (i_val x OR i_val y)),
    ([(IR_OR, IR_C_I8, IR_C_I8), (IR_OR, IR_C_I16, IR_C_I16), (IR_OR, IR_C_I32, IR_C_I32),
      (IR_OR, IR_C_I64, IR_C_I64)],
     \<lambda>h ctx a x y z. Fold_Const (i_val x OR i_val y)),
    ([(IR_AND, IR_C_BOOL, IR_C_BOOL)],
     \<lambda>h ctx a x y z. IR_FOLD_BOOL (val_b (i_val x) \<and> val_b (i_val y))),
    ([(IR_AND, IR_C_CHAR, IR_C_CHAR), (IR_AND, IR_C_U8, IR_C_U8), (IR_AND, IR_C_U16, IR_C_U16),
      (IR_AND, IR_C_U32, IR_C_U32), (IR_AND, IR_C_U64, IR_C_U64)],
     \<lambda>h ctx a x y z. Fold_Const (i_val x AND i_val y)),
    ([(IR_AND, IR_C_I8, IR_C_I8), (IR_AND, IR_C_I16, IR_C_I16), (IR_AND, IR_C_I32, IR_C_I32),
      (IR_AND, IR_C_I64, IR_C_I64)],
     \<lambda>h ctx a x y z. Fold_Const (i_val x AND i_val y)),
    ([(IR_XOR, IR_C_BOOL, IR_C_BOOL)],
     \<lambda>h ctx a x y z. IR_FOLD_BOOL (val_b (i_val x) \<noteq> val_b (i_val y))),
    ([(IR_XOR, IR_C_U8, IR_C_U8), (IR_XOR, IR_C_CHAR, IR_C_CHAR)],
     \<lambda>h ctx a x y z. IR_FOLD_CONST_U (val_u8 (i_val x) XOR val_u8 (i_val y))),
    ([(IR_XOR, IR_C_I8, IR_C_I8)],
     \<lambda>h ctx a x y z. IR_FOLD_CONST_I (val_i8 (i_val x) XOR val_i8 (i_val y))),
    ([(IR_XOR, IR_C_U16, IR_C_U16)],
     \<lambda>h ctx a x y z. IR_FOLD_CONST_U (val_u16 (i_val x) XOR val_u16 (i_val y))),
    ([(IR_XOR, IR_C_I16, IR_C_I16)],
     \<lambda>h ctx a x y z. IR_FOLD_CONST_I (val_i16 (i_val x) XOR val_i16 (i_val y))),
    ([(IR_XOR, IR_C_U32, IR_C_U32)],
     \<lambda>h ctx a x y z. IR_FOLD_CONST_U (val_u32 (i_val x) XOR val_u32 (i_val y))),
    ([(IR_XOR, IR_C_I32, IR_C_I32)],
     \<lambda>h ctx a x y z. IR_FOLD_CONST_I (val_i32 (i_val x) XOR val_i32 (i_val y))),
    ([(IR_XOR, IR_C_U64, IR_C_U64)],
     \<lambda>h ctx a x y z. IR_FOLD_CONST_U (val_u64 (i_val x) XOR val_u64 (i_val y))),
    ([(IR_XOR, IR_C_I64, IR_C_I64)],
     \<lambda>h ctx a x y z. IR_FOLD_CONST_I (val_i64 (i_val x) XOR val_i64 (i_val y)))]"

definition fold_rules_shift :: "fold_rule list" where
  "fold_rules_shift = [
    ([(IR_SHL, IR_C_U8, IR_C_U8), (IR_SHL, IR_C_CHAR, IR_C_CHAR)],
     \<lambda>h ctx a x y z. IR_FOLD_CONST_U (push_bit (nat (val_u8 (i_val y) AND 0x7)) (val_u8 (i_val x)))),
    ([(IR_SHL, IR_C_I8, IR_C_I8)],
     \<lambda>h ctx a x y z. IR_FOLD_CONST_I (signed_take_bit 7 (push_bit (nat (val_u8 (i_val y) AND 0x7)) (val_u8 (i_val x))))),
    ([(IR_SHL, IR_C_U16, IR_C_U16)],
     \<lambda>h ctx a x y z. IR_FOLD_CONST_U (push_bit (nat (val_u16 (i_val y) AND 0xf)) (val_u16 (i_val x)))),
    ([(IR_SHL, IR_C_I16, IR_C_I16)],
     \<lambda>h ctx a x y z. IR_FOLD_CONST_I (signed_take_bit 15 (push_bit (nat (val_u16 (i_val y) AND 0xf)) (val_u16 (i_val x))))),
    ([(IR_SHL, IR_C_U32, IR_C_U32)],
     \<lambda>h ctx a x y z. IR_FOLD_CONST_U (take_bit 32 (push_bit (nat (val_u32 (i_val y) AND 0x1f)) (val_u32 (i_val x))))),
    ([(IR_SHL, IR_C_I32, IR_C_I32)],
     \<lambda>h ctx a x y z. IR_FOLD_CONST_I (signed_take_bit 31 (push_bit (nat (val_u32 (i_val y) AND 0x1f)) (val_u32 (i_val x))))),
    ([(IR_SHL, IR_C_U64, IR_C_U64), (IR_SHL, IR_C_I64, IR_C_I64)],
     \<lambda>h ctx a x y z. IR_FOLD_CONST_U (push_bit (nat (val_u64 (i_val y) AND 0x3f)) (val_u64 (i_val x)))),
    ([(IR_SHR, IR_C_U8, IR_C_U8), (IR_SHR, IR_C_CHAR, IR_C_CHAR)],
     \<lambda>h ctx a x y z. IR_FOLD_CONST_U (drop_bit (nat (val_u8 (i_val y) AND 0x7)) (val_u8 (i_val x)))),
    ([(IR_SHR, IR_C_I8, IR_C_I8)],
     \<lambda>h ctx a x y z. IR_FOLD_CONST_I (signed_take_bit 7 (drop_bit (nat (val_u8 (i_val y) AND 0x7)) (val_u8 (i_val x))))),
    ([(IR_SHR, IR_C_U16, IR_C_U16)],
     \<lambda>h ctx a x y z. IR_FOLD_CONST_U (drop_bit (nat (val_u16 (i_val y) AND 0xf)) (val_u16 (i_val x)))),
    ([(IR_SHR, IR_C_I16, IR_C_I16)],
     \<lambda>h ctx a x y z. IR_FOLD_CONST_I (signed_take_bit 15 (drop_bit (nat (val_u16 (i_val y) AND 0xf)) (val_u16 (i_val x))))),
    ([(IR_SHR, IR_C_U32, IR_C_U32)],
     \<lambda>h ctx a x y z. IR_FOLD_CONST_U (drop_bit (nat (val_u32 (i_val y) AND 0x1f)) (val_u32 (i_val x)))),
    ([(IR_SHR, IR_C_I32, IR_C_I32)],
     \<lambda>h ctx a x y z. IR_FOLD_CONST_I (signed_take_bit 31 (drop_bit (nat (val_u32 (i_val y) AND 0x1f)) (val_u32 (i_val x))))),
    ([(IR_SHR, IR_C_U64, IR_C_U64), (IR_SHR, IR_C_I64, IR_C_I64)],
     \<lambda>h ctx a x y z. IR_FOLD_CONST_U (drop_bit (nat (val_u64 (i_val y) AND 0x3f)) (val_u64 (i_val x))))]"

definition fold_rules_sar :: "fold_rule list" where
  "fold_rules_sar = [
    ([(IR_SAR, IR_C_U8, IR_C_U8), (IR_SAR, IR_C_CHAR, IR_C_CHAR)],
     \<lambda>h ctx a x y z. IR_FOLD_CONST_U (take_bit 8 (drop_bit (nat (val_i8 (i_val y) AND 0x7)) (val_i8 (i_val x))))),
    ([(IR_SAR, IR_C_I8, IR_C_I8)],
     \<lambda>h ctx a x y z. IR_FOLD_CONST_I (drop_bit (nat (val_i8 (i_val y) AND 0x7)) (val_i8 (i_val x)))),
    ([(IR_SAR, IR_C_U16, IR_C_U16)],
     \<lambda>h ctx a x y z. IR_FOLD_CONST_U (take_bit 16 (drop_bit (nat (val_i16 (i_val y) AND 0xf)) (val_i16 (i_val x))))),
    ([(IR_SAR, IR_C_I16, IR_C_I16)],
     \<lambda>h ctx a x y z. IR_FOLD_CONST_I (drop_bit (nat (val_i16 (i_val y) AND 0xf)) (val_i16 (i_val x)))),
    ([(IR_SAR, IR_C_U32, IR_C_U32)],
     \<lambda>h ctx a x y z. IR_FOLD_CONST_U (take_bit 32 (drop_bit (nat (val_i32 (i_val y) AND 0x1f)) (val_i32 (i_val x))))),
    ([(IR_SAR, IR_C_I32, IR_C_I32)],
     \<lambda>h ctx a x y z. IR_FOLD_CONST_I (drop_bit (nat (val_i32 (i_val y) AND 0x1f)) (val_i32 (i_val x)))),
    ([(IR_SAR, IR_C_U64, IR_C_U64), (IR_SAR, IR_C_I64, IR_C_I64)],
     \<lambda>h ctx a x y z. IR_FOLD_CONST_I (drop_bit (nat (val_i64 (i_val y) AND 0x3f)) (val_i64 (i_val x))))]"

definition fold_rules_rotate :: "fold_rule list" where
  "fold_rules_rotate = [
    ([(IR_ROL, IR_C_U8, IR_C_U8), (IR_ROL, IR_C_CHAR, IR_C_CHAR)],
     \<lambda>h ctx a x y z. fold_rot_u (ir_rol8 (ucast (i_val x)) (ucast (i_val y) AND 0x7))),
    ([(IR_ROL, IR_C_I8, IR_C_I8)],
     \<lambda>h ctx a x y z. fold_rot_i (ir_rol8 (ucast (i_val x)) (ucast (i_val y) AND 0x7))),
    ([(IR_ROL, IR_C_U16, IR_C_U16)],
     \<lambda>h ctx a x y z. fold_rot_u (ir_rol16 (ucast (i_val x)) (ucast (i_val y) AND 0xf))),
    ([(IR_ROL, IR_C_I16, IR_C_I16)],
     \<lambda>h ctx a x y z. fold_rot_i (ir_rol16 (ucast (i_val x)) (ucast (i_val y) AND 0xf))),
    ([(IR_ROL, IR_C_U32, IR_C_U32)],
     \<lambda>h ctx a x y z. fold_rot_u (ir_rol32 (ucast (i_val x)) (ucast (i_val y) AND 0x1f))),
    ([(IR_ROL, IR_C_I32, IR_C_I32)],
     \<lambda>h ctx a x y z. fold_rot_i (ir_rol32 (ucast (i_val x)) (ucast (i_val y) AND 0x1f))),
    ([(IR_ROL, IR_C_U64, IR_C_U64), (IR_ROL, IR_C_I64, IR_C_I64)],
     \<lambda>h ctx a x y z. fold_rot_u (ir_rol64 (ucast (i_val x)) (ucast (i_val y) AND 0x3f))),
    ([(IR_ROR, IR_C_U8, IR_C_U8), (IR_ROR, IR_C_CHAR, IR_C_CHAR)],
     \<lambda>h ctx a x y z. fold_rot_u (ir_ror8 (ucast (i_val x)) (ucast (i_val y) AND 0x7))),
    ([(IR_ROR, IR_C_I8, IR_C_I8)],
     \<lambda>h ctx a x y z. fold_rot_i (ir_ror8 (ucast (i_val x)) (ucast (i_val y) AND 0x7))),
    ([(IR_ROR, IR_C_U16, IR_C_U16)],
     \<lambda>h ctx a x y z. fold_rot_u (ir_ror16 (ucast (i_val x)) (ucast (i_val y) AND 0xf))),
    ([(IR_ROR, IR_C_I16, IR_C_I16)],
     \<lambda>h ctx a x y z. fold_rot_i (ir_ror16 (ucast (i_val x)) (ucast (i_val y) AND 0xf))),
    ([(IR_ROR, IR_C_U32, IR_C_U32)],
     \<lambda>h ctx a x y z. fold_rot_u (ir_ror32 (ucast (i_val x)) (ucast (i_val y) AND 0x1f))),
    ([(IR_ROR, IR_C_I32, IR_C_I32)],
     \<lambda>h ctx a x y z. fold_rot_i (ir_ror32 (ucast (i_val x)) (ucast (i_val y) AND 0x1f))),
    ([(IR_ROR, IR_C_U64, IR_C_U64), (IR_ROR, IR_C_I64, IR_C_I64)],
     \<lambda>h ctx a x y z. fold_rot_u (ir_ror64 (ucast (i_val x)) (ucast (i_val y) AND 0x3f)))]"

definition fold_rules_minmax :: "fold_rule list" where
  "fold_rules_minmax = [
    ([(IR_MIN, IR_C_BOOL, IR_C_BOOL), (IR_MIN, IR_C_U8, IR_C_U8), (IR_MIN, IR_C_U16, IR_C_U16),
      (IR_MIN, IR_C_U32, IR_C_U32), (IR_MIN, IR_C_U64, IR_C_U64),
      (IR_MIN, IR_C_ADDR, IR_C_ADDR)],
     \<lambda>h ctx a x y z. Fold_Copy (if val_u64 (i_val x) \<le> val_u64 (i_val y) then i_op1 a else i_op2 a)),
    ([(IR_MIN, IR_C_CHAR, IR_C_CHAR), (IR_MIN, IR_C_I8, IR_C_U8), (IR_MIN, IR_C_I16, IR_C_U16),
      (IR_MIN, IR_C_I32, IR_C_U32), (IR_MIN, IR_C_I64, IR_C_U64)],
     \<lambda>h ctx a x y z. Fold_Copy (if val_i64 (i_val x) \<le> val_i64 (i_val y) then i_op1 a else i_op2 a)),
    ([(IR_MIN, IR_C_DOUBLE, IR_C_DOUBLE)],
     \<lambda>h ctx a x y z. Fold_Copy (if fp_le IR_DOUBLE (val_d (i_val x)) (val_d (i_val y)) then i_op1 a else i_op2 a)),
    ([(IR_MIN, IR_C_FLOAT, IR_C_FLOAT)],
     \<lambda>h ctx a x y z. Fold_Copy (if fp_le IR_FLOAT (val_f (i_val x)) (val_f (i_val y)) then i_op1 a else i_op2 a)),
    ([(IR_MAX, IR_C_BOOL, IR_C_BOOL), (IR_MAX, IR_C_U8, IR_C_U8), (IR_MAX, IR_C_U16, IR_C_U16),
      (IR_MAX, IR_C_U32, IR_C_U32), (IR_MAX, IR_C_U64, IR_C_U64),
      (IR_MAX, IR_C_ADDR, IR_C_ADDR)],
     \<lambda>h ctx a x y z. Fold_Copy (if val_u64 (i_val x) \<ge> val_u64 (i_val y) then i_op1 a else i_op2 a)),
    ([(IR_MAX, IR_C_CHAR, IR_C_CHAR), (IR_MAX, IR_C_I8, IR_C_U8), (IR_MAX, IR_C_I16, IR_C_U16),
      (IR_MAX, IR_C_I32, IR_C_U32), (IR_MAX, IR_C_I64, IR_C_U64)],
     \<lambda>h ctx a x y z. Fold_Copy (if val_i64 (i_val x) \<ge> val_i64 (i_val y) then i_op1 a else i_op2 a)),
    ([(IR_MAX, IR_C_DOUBLE, IR_C_DOUBLE)],
     \<lambda>h ctx a x y z. Fold_Copy (if fp_le IR_DOUBLE (val_d (i_val y)) (val_d (i_val x)) then i_op1 a else i_op2 a)),
    ([(IR_MAX, IR_C_FLOAT, IR_C_FLOAT)],
     \<lambda>h ctx a x y z. Fold_Copy (if fp_le IR_FLOAT (val_f (i_val y)) (val_f (i_val x)) then i_op1 a else i_op2 a))]"

section \<open>Conversions\<close>

definition fold_rules_extend :: "fold_rule list" where
  "fold_rules_extend = [
    ([(IR_SEXT, IR_C_I8, ANY), (IR_SEXT, IR_C_U8, ANY), (IR_SEXT, IR_C_BOOL, ANY),
      (IR_SEXT, IR_C_CHAR, ANY)],
     \<lambda>h ctx a x y z. IR_FOLD_CONST_I (val_i8 (i_val x))),
    ([(IR_SEXT, IR_C_I16, ANY), (IR_SEXT, IR_C_U16, ANY)],
     \<lambda>h ctx a x y z. IR_FOLD_CONST_I (val_i16 (i_val x))),
    ([(IR_SEXT, IR_C_I32, ANY), (IR_SEXT, IR_C_U32, ANY)],
     \<lambda>h ctx a x y z. IR_FOLD_CONST_I (val_i32 (i_val x))),
    ([(IR_ZEXT, IR_C_I8, ANY), (IR_ZEXT, IR_C_U8, ANY), (IR_ZEXT, IR_C_BOOL, ANY),
      (IR_ZEXT, IR_C_CHAR, ANY)],
     \<lambda>h ctx a x y z. IR_FOLD_CONST_U (val_u8 (i_val x))),
    ([(IR_ZEXT, IR_C_I16, ANY), (IR_ZEXT, IR_C_U16, ANY)],
     \<lambda>h ctx a x y z. IR_FOLD_CONST_U (val_u16 (i_val x))),
    ([(IR_ZEXT, IR_C_I32, ANY), (IR_ZEXT, IR_C_U32, ANY)],
     \<lambda>h ctx a x y z. IR_FOLD_CONST_U (val_u32 (i_val x))),
    ([(IR_TRUNC, IR_C_I16, ANY), (IR_TRUNC, IR_C_I32, ANY), (IR_TRUNC, IR_C_I64, ANY),
      (IR_TRUNC, IR_C_U16, ANY), (IR_TRUNC, IR_C_U32, ANY), (IR_TRUNC, IR_C_U64, ANY)],
     \<lambda>h ctx a x y z. (case i_type a of
         IR_I16 \<Rightarrow> IR_FOLD_CONST_I (val_i16 (i_val x))
       | IR_I32 \<Rightarrow> IR_FOLD_CONST_I (val_i32 (i_val x))
       | IR_U8 \<Rightarrow> IR_FOLD_CONST_U (val_u8 (i_val x))
       | IR_BOOL \<Rightarrow> IR_FOLD_CONST_U (val_u8 (i_val x))
       | IR_U16 \<Rightarrow> IR_FOLD_CONST_U (val_u16 (i_val x))
       | IR_U32 \<Rightarrow> IR_FOLD_CONST_U (val_u32 (i_val x))
       | IR_ADDR \<Rightarrow> IR_FOLD_CONST_U (val_u32 (i_val x))
       | _ \<Rightarrow> IR_FOLD_CONST_I (val_i8 (i_val x))))]"

definition fold_rules_bitcast :: "fold_rule list" where
  "fold_rules_bitcast = [
    ([(IR_BITCAST, IR_C_I8, ANY), (IR_BITCAST, IR_C_I16, ANY), (IR_BITCAST, IR_C_I32, ANY),
      (IR_BITCAST, IR_C_I64, ANY), (IR_BITCAST, IR_C_U8, ANY), (IR_BITCAST, IR_C_U16, ANY),
      (IR_BITCAST, IR_C_U32, ANY), (IR_BITCAST, IR_C_U64, ANY), (IR_BITCAST, IR_C_FLOAT, ANY),
      (IR_BITCAST, IR_C_DOUBLE, ANY), (IR_BITCAST, IR_C_BOOL, ANY),
      (IR_BITCAST, IR_C_CHAR, ANY), (IR_BITCAST, IR_C_ADDR, ANY)],
     \<lambda>h ctx a x y z. (case i_type a of
         IR_I8 \<Rightarrow> IR_FOLD_CONST_I (val_i8 (i_val x))
       | IR_I16 \<Rightarrow> IR_FOLD_CONST_I (val_i16 (i_val x))
       | IR_I32 \<Rightarrow> IR_FOLD_CONST_I (val_i32 (i_val x))
       | IR_I64 \<Rightarrow> IR_FOLD_CONST_I (val_i64 (i_val x))
       | IR_U8 \<Rightarrow> IR_FOLD_CONST_U (val_u8 (i_val x))
       | IR_U16 \<Rightarrow> IR_FOLD_CONST_U (val_u16 (i_val x))
       | IR_U32 \<Rightarrow> IR_FOLD_CONST_U (val_u32 (i_val x))
       | IR_U64 \<Rightarrow> IR_FOLD_CONST_U (val_u64 (i_val x))
       | IR_FLOAT \<Rightarrow> IR_FOLD_CONST_F (val_f (i_val x))
       | IR_DOUBLE \<Rightarrow> IR_FOLD_CONST_D (val_d (i_val x))
       | IR_CHAR \<Rightarrow> IR_FOLD_CONST_I (val_i8 (i_val x))
       | IR_ADDR \<Rightarrow> IR_FOLD_CONST_U (val_u64 (i_val x))
       | _ \<Rightarrow> IR_FOLD_BOOL (val_i8 (i_val x) \<noteq> 0)))]"

definition fold_rules_fpconv :: "fold_rule list" where
  "fold_rules_fpconv = [
    ([(IR_INT2FP, IR_C_I8, ANY), (IR_INT2FP, IR_C_I16, ANY), (IR_INT2FP, IR_C_I32, ANY),
      (IR_INT2FP, IR_C_I64, ANY)],
     \<lambda>h ctx a x y z. if i_type a = IR_DOUBLE then IR_FOLD_CONST_D (fp_of_int h IR_DOUBLE (val_i64 (i_val x)))
       else IR_FOLD_CONST_F (fp_of_int h IR_FLOAT (val_i64 (i_val x)))),
    ([(IR_INT2FP, IR_C_U8, ANY), (IR_INT2FP, IR_C_U16, ANY), (IR_INT2FP, IR_C_U32, ANY),
      (IR_INT2FP, IR_C_U64, ANY)],
     \<lambda>h ctx a x y z. if i_type a = IR_DOUBLE then IR_FOLD_CONST_D (fp_of_int h IR_DOUBLE (val_u64 (i_val x)))
       else IR_FOLD_CONST_F (fp_of_int h IR_FLOAT (val_u64 (i_val x)))),
    ([(IR_FP2INT, IR_C_FLOAT, ANY)],
     \<lambda>h ctx a x y z. (case i_type a of
         IR_I16 \<Rightarrow> fp_cast_i h IR_FLOAT 16 (val_f (i_val x))
       | IR_I32 \<Rightarrow> fp_cast_i h IR_FLOAT 32 (val_f (i_val x))
       | IR_I64 \<Rightarrow> fp_cast_i h IR_FLOAT 64 (val_f (i_val x))
       | IR_U8 \<Rightarrow> fp_cast_u h IR_FLOAT 8 (val_f (i_val x))
       | IR_U16 \<Rightarrow> fp_cast_u h IR_FLOAT 16 (val_f (i_val x))
       | IR_U32 \<Rightarrow> fp_cast_u h IR_FLOAT 32 (val_f (i_val x))
       | IR_U64 \<Rightarrow> fp_cast_u h IR_FLOAT 64 (val_f (i_val x))
       | _ \<Rightarrow> fp_cast_i h IR_FLOAT 8 (val_f (i_val x)))),
    ([(IR_FP2INT, IR_C_DOUBLE, ANY)],
     \<lambda>h ctx a x y z. (case i_type a of
         IR_I16 \<Rightarrow> fp_cast_i h IR_DOUBLE 16 (val_d (i_val x))
       | IR_I32 \<Rightarrow> fp_cast_i h IR_DOUBLE 32 (val_d (i_val x))
       | IR_I64 \<Rightarrow> fp_cast_i h IR_DOUBLE 64 (val_d (i_val x))
       | IR_U8 \<Rightarrow> fp_cast_u h IR_DOUBLE 8 (val_d (i_val x))
       | IR_U16 \<Rightarrow> fp_cast_u h IR_DOUBLE 16 (val_d (i_val x))
       | IR_U32 \<Rightarrow> fp_cast_u h IR_DOUBLE 32 (val_d (i_val x))
       | IR_U64 \<Rightarrow> fp_cast_u h IR_DOUBLE 64 (val_d (i_val x))
       | _ \<Rightarrow> fp_cast_i h IR_DOUBLE 8 (val_d (i_val x)))),
    ([(IR_FP2FP, IR_C_FLOAT, ANY)],
     \<lambda>h ctx a x y z. if i_type a = IR_DOUBLE then IR_FOLD_CONST_D (fp_conv h IR_FLOAT IR_DOUBLE (val_f (i_val x)))
       else Fold_Copy (i_op1 a)),
    ([(IR_FP2FP, IR_C_DOUBLE, ANY)],
     \<lambda>h ctx a x y z. if i_type a = IR_DOUBLE then Fold_Copy (i_op1 a)
       else IR_FOLD_CONST_F (fp_conv h IR_DOUBLE IR_FLOAT (val_d (i_val x))))]"

end
