(* ===== verification/Fold_Algebra.thy ===== *)
theory Fold_Algebra
  imports Fold_Base
begin

text \<open>
  The copy-propagation and algebraic rules of src/ir_fold.h (lines 1574 to 2961), one row per rule
  body in source order.
\<close>

section \<open>Shared bodies\<close>

text \<open>
  The constant \<open>val\<close> re-read at the width and signedness of an integer type: the two \<open>switch\<close>es
  shared by the comparison-narrowing rules.
\<close>

definition narrow_val :: "ir_type \<Rightarrow> u64 \<Rightarrow> u64" where
  "narrow_val t v =
     (if IR_IS_TYPE_SIGNED t then
        (if ir_type_size t = 1 then word_of_int (val_i8 v)
         else if ir_type_size t = 2 then word_of_int (val_i16 v)
         else if ir_type_size t = 4 then word_of_int (val_i32 v) else v)
      else
        (if ir_type_size t = 1 then word_of_int (val_u8 v)
         else if ir_type_size t = 2 then word_of_int (val_u16 v)
         else if ir_type_size t = 4 then word_of_int (val_u32 v) else v))"

text \<open>
  Comparison of a boolean widened by \<open>BITCAST\<close>, \<open>ZEXT\<close> or \<open>SEXT\<close> with a constant. \<open>None\<close>: neither
  branch applies.
\<close>

definition fold_cmp_bool :: "ir_ctx \<Rightarrow> ir_insn \<Rightarrow> ir_insn \<Rightarrow> ir_insn \<Rightarrow> fold_result option" where
  "fold_cmp_bool ctx a x y =
     (if i_op a = IR_NE \<and> i_val y = 1 \<or> i_op a = IR_EQ \<and> i_val y = 0
      then Some (Fold_Restart ctx ((set_opt IR_NOT IR_BOOL a)\<lparr>i_op1 := i_op1 x, i_op2 := IR_UNUSED\<rparr>))
      else if i_op a = IR_NE \<and> i_val y = 0 \<or> i_op a = IR_EQ \<and> i_val y = 1
      then Some (Fold_Copy (i_op1 x))
      else None)"

text \<open>\<open>opt = IR_BITCAST | type; op1 = ref; op2 = IR_UNUSED\<close> when the types differ, else a copy.\<close>

definition fold_copy_cast :: "ir_ctx \<Rightarrow> ir_insn \<Rightarrow> ir_type \<Rightarrow> ir_ref \<Rightarrow> fold_result" where
  "fold_copy_cast ctx a t ref =
     (if t \<noteq> i_type a
      then Fold_Restart ctx ((set_opt IR_BITCAST (i_type a) a)\<lparr>i_op1 := ref, i_op2 := IR_UNUSED\<rparr>)
      else Fold_Copy ref)"

text \<open>\<open>opt = op | type; op1 = ref; op2 = IR_UNUSED\<close>.\<close>

definition fold_to_unary :: "ir_ctx \<Rightarrow> ir_insn \<Rightarrow> ir_op \<Rightarrow> ir_ref \<Rightarrow> fold_result" where
  "fold_to_unary ctx a op ref =
     Fold_Restart ctx ((set_opt op (i_type a) a)\<lparr>i_op1 := ref, i_op2 := IR_UNUSED\<rparr>)"

text \<open>Both operands of \<open>(a + b) - (c + d)\<close> with a common term, brought to the result type.\<close>

definition fold_cast2 :: "ir_ctx \<Rightarrow> ir_insn \<Rightarrow> ir_ref \<Rightarrow> ir_ref \<Rightarrow> fold_result" where
  "fold_cast2 ctx a p q =
     (let (ctx, op1) = ir_fold_cast ctx p (i_type a);
          (ctx, op2) = ir_fold_cast ctx q (i_type a)
      in Fold_Restart ctx (a\<lparr>i_op1 := op1, i_op2 := op2\<rparr>))"

section \<open>Copies and comparisons\<close>

definition fold_rules_copy :: "fold_rule list" where
  "fold_rules_copy = [
    ([(IR_COPY, ANY, ANY)],
     \<lambda>h ctx a x y z. if i_op2 a AND 1 = 0 then Fold_Copy (i_op1 a) else Fold_Emit a),
    ([(IR_PHI, ANY, ANY)],
     \<lambda>h ctx a x y z. if i_op2 a = i_op3 a \<and> i_op3 a \<noteq> IR_UNUSED then Fold_Copy (i_op2 a)
       else Fold_Emit (a\<lparr>i_n := i_n a OR 3\<rparr>)),
    ([(IR_COND, IR_C_BOOL, ANY), (IR_COND, IR_C_U8, ANY), (IR_COND, IR_C_U16, ANY),
      (IR_COND, IR_C_U32, ANY), (IR_COND, IR_C_U64, ANY), (IR_COND, IR_C_ADDR, ANY),
      (IR_COND, IR_C_CHAR, ANY), (IR_COND, IR_C_I8, ANY), (IR_COND, IR_C_I16, ANY),
      (IR_COND, IR_C_I32, ANY), (IR_COND, IR_C_I64, ANY), (IR_COND, IR_C_DOUBLE, ANY),
      (IR_COND, IR_C_FLOAT, ANY)],
     \<lambda>h ctx a x y z. if ir_const_is_true x then Fold_Copy (i_op2 a) else Fold_Copy (i_op3 a)),
    ([(IR_BITCAST, ANY, ANY)],
     \<lambda>h ctx a x y z. if i_type a = i_type x then Fold_Copy (i_op1 a) else Fold_Next),
    ([(IR_ABS, IR_ABS, ANY)],
     \<lambda>h ctx a x y z. Fold_Copy (i_op1 a)),
    ([(IR_ABS, IR_NEG, ANY)],
     \<lambda>h ctx a x y z. Fold_Restart ctx (a\<lparr>i_op1 := i_op1 x\<rparr>)),
    ([(IR_NEG, IR_NEG, ANY), (IR_NOT, IR_NOT, ANY), (IR_BSWAP, IR_BSWAP, ANY)],
     \<lambda>h ctx a x y z. Fold_Copy (i_op1 x)),
    ([(IR_EQ, ANY, IR_C_BOOL)],
     \<lambda>h ctx a x y z. if i_op2 a = IR_TRUE then Fold_Copy (i_op1 a)
       else Fold_Restart ctx ((set_opt IR_NOT IR_BOOL a)\<lparr>i_op2 := IR_UNUSED\<rparr>)),
    ([(IR_NE, ANY, IR_C_BOOL)],
     \<lambda>h ctx a x y z. if i_op2 a \<noteq> IR_TRUE then Fold_Copy (i_op1 a)
       else Fold_Restart ctx ((set_opt IR_NOT IR_BOOL a)\<lparr>i_op2 := IR_UNUSED\<rparr>)),
    ([(IR_EQ, IR_BITCAST, IR_C_U8), (IR_EQ, IR_BITCAST, IR_C_U16),
      (IR_EQ, IR_BITCAST, IR_C_U32), (IR_EQ, IR_BITCAST, IR_C_U64),
      (IR_EQ, IR_BITCAST, IR_C_I8), (IR_EQ, IR_BITCAST, IR_C_I16),
      (IR_EQ, IR_BITCAST, IR_C_I32), (IR_EQ, IR_BITCAST, IR_C_I64),
      (IR_EQ, IR_BITCAST, IR_C_ADDR), (IR_EQ, IR_BITCAST, IR_C_CHAR),
      (IR_NE, IR_BITCAST, IR_C_U8), (IR_NE, IR_BITCAST, IR_C_U16),
      (IR_NE, IR_BITCAST, IR_C_U32), (IR_NE, IR_BITCAST, IR_C_U64),
      (IR_NE, IR_BITCAST, IR_C_I8), (IR_NE, IR_BITCAST, IR_C_I16),
      (IR_NE, IR_BITCAST, IR_C_I32), (IR_NE, IR_BITCAST, IR_C_I64),
      (IR_NE, IR_BITCAST, IR_C_ADDR), (IR_NE, IR_BITCAST, IR_C_CHAR)],
     \<lambda>h ctx a x y z. let t = i_type (ir_base ctx (i_op1 x))
       in if t = IR_BOOL then (case fold_cmp_bool ctx a x y of Some r \<Rightarrow> r | None \<Rightarrow> Fold_Next)
          else if IR_IS_TYPE_INT t
          then fold_const_restart ctx (narrow_val t (i_val y)) t (\<lambda>r. a\<lparr>i_op1 := i_op1 x, i_op2 := r\<rparr>)
          else Fold_Next)]"

text \<open>
  The rule that narrows a comparison of a widened value with a constant. The right shift by the
  width of the source type is undefined in C when that type has 64 bits.
\<close>

definition fold_cmp_narrow :: fold_body where
  "fold_cmp_narrow = (\<lambda>h ctx a x y z.
     if use_lists ctx \<noteq> None \<and> use_count ctx (i_op1 a) \<noteq> 1 then Fold_Next
     else
       let t = i_type (ir_base ctx (i_op1 x)); n = ir_type_size t * 8; v = i_val y;
           r = (if t = IR_BOOL then fold_cmp_bool ctx a x y else None)
       in case r of Some r \<Rightarrow> r | None \<Rightarrow>
         if n \<ge> 64 then Fold_UB
         else if drop_bit n v \<noteq> 0 \<and> (i_op x \<noteq> IR_SEXT \<or> drop_bit n (val_i64 v) \<noteq> -1) then
           (if i_op a = IR_EQ \<or> i_op a = IR_UGT \<or> i_op a = IR_UGE then Fold_Copy IR_FALSE
            else if i_op a = IR_NE \<or> i_op a = IR_ULT \<or> i_op a = IR_ULE then Fold_Copy IR_TRUE
            else if i_op a = IR_GT \<or> i_op a = IR_GE
            then Fold_Copy (if val_i64 v \<ge> 0 then IR_FALSE else IR_TRUE)
            else if i_op a = IR_LT \<or> i_op a = IR_LE
            then Fold_Copy (if val_i64 v \<ge> 0 then IR_TRUE else IR_FALSE)
            else Fold_Next)
         else fold_const_restart ctx (narrow_val t v) t (\<lambda>r. a\<lparr>i_op1 := i_op1 x, i_op2 := r\<rparr>))"

definition fold_rules_cmp_narrow :: "fold_rule list" where
  "fold_rules_cmp_narrow = [
    ([(IR_EQ, IR_ZEXT, IR_C_U16), (IR_EQ, IR_ZEXT, IR_C_U32), (IR_EQ, IR_ZEXT, IR_C_U64),
      (IR_EQ, IR_ZEXT, IR_C_I16), (IR_EQ, IR_ZEXT, IR_C_I32), (IR_EQ, IR_ZEXT, IR_C_I64),
      (IR_EQ, IR_ZEXT, IR_C_ADDR), (IR_EQ, IR_SEXT, IR_C_U16), (IR_EQ, IR_SEXT, IR_C_U32),
      (IR_EQ, IR_SEXT, IR_C_U64), (IR_EQ, IR_SEXT, IR_C_I16), (IR_EQ, IR_SEXT, IR_C_I32),
      (IR_EQ, IR_SEXT, IR_C_I64), (IR_EQ, IR_SEXT, IR_C_ADDR), (IR_NE, IR_ZEXT, IR_C_U16),
      (IR_NE, IR_ZEXT, IR_C_U32), (IR_NE, IR_ZEXT, IR_C_U64), (IR_NE, IR_ZEXT, IR_C_I16),
      (IR_NE, IR_ZEXT, IR_C_I32), (IR_NE, IR_ZEXT, IR_C_I64), (IR_NE, IR_ZEXT, IR_C_ADDR),
      (IR_NE, IR_SEXT, IR_C_U16), (IR_NE, IR_SEXT, IR_C_U32), (IR_NE, IR_SEXT, IR_C_U64),
      (IR_NE, IR_SEXT, IR_C_I16), (IR_NE, IR_SEXT, IR_C_I32), (IR_NE, IR_SEXT, IR_C_I64),
      (IR_NE, IR_SEXT, IR_C_ADDR), (IR_ULT, IR_ZEXT, IR_C_U16), (IR_ULT, IR_ZEXT, IR_C_U32),
      (IR_ULT, IR_ZEXT, IR_C_U64), (IR_ULT, IR_ZEXT, IR_C_I16), (IR_ULT, IR_ZEXT, IR_C_I32),
      (IR_ULT, IR_ZEXT, IR_C_I64), (IR_ULT, IR_ZEXT, IR_C_ADDR), (IR_UGE, IR_ZEXT, IR_C_U16),
      (IR_UGE, IR_ZEXT, IR_C_U32), (IR_UGE, IR_ZEXT, IR_C_U64), (IR_UGE, IR_ZEXT, IR_C_I16),
      (IR_UGE, IR_ZEXT, IR_C_I32), (IR_UGE, IR_ZEXT, IR_C_I64), (IR_UGE, IR_ZEXT, IR_C_ADDR),
      (IR_ULE, IR_ZEXT, IR_C_U16), (IR_ULE, IR_ZEXT, IR_C_U32), (IR_ULE, IR_ZEXT, IR_C_U64),
      (IR_ULE, IR_ZEXT, IR_C_I16), (IR_ULE, IR_ZEXT, IR_C_I32), (IR_ULE, IR_ZEXT, IR_C_I64),
      (IR_ULE, IR_ZEXT, IR_C_ADDR), (IR_UGT, IR_ZEXT, IR_C_U16), (IR_UGT, IR_ZEXT, IR_C_U32),
      (IR_UGT, IR_ZEXT, IR_C_U64), (IR_UGT, IR_ZEXT, IR_C_I16), (IR_UGT, IR_ZEXT, IR_C_I32),
      (IR_UGT, IR_ZEXT, IR_C_I64), (IR_UGT, IR_ZEXT, IR_C_ADDR), (IR_LT, IR_SEXT, IR_C_U16),
      (IR_LT, IR_SEXT, IR_C_U32), (IR_LT, IR_SEXT, IR_C_U64), (IR_LT, IR_SEXT, IR_C_I16),
      (IR_LT, IR_SEXT, IR_C_I32), (IR_LT, IR_SEXT, IR_C_I64), (IR_LT, IR_SEXT, IR_C_ADDR),
      (IR_GE, IR_SEXT, IR_C_U16), (IR_GE, IR_SEXT, IR_C_U32), (IR_GE, IR_SEXT, IR_C_U64),
      (IR_GE, IR_SEXT, IR_C_I16), (IR_GE, IR_SEXT, IR_C_I32), (IR_GE, IR_SEXT, IR_C_I64),
      (IR_GE, IR_SEXT, IR_C_ADDR), (IR_LE, IR_SEXT, IR_C_U16), (IR_LE, IR_SEXT, IR_C_U32),
      (IR_LE, IR_SEXT, IR_C_U64), (IR_LE, IR_SEXT, IR_C_I16), (IR_LE, IR_SEXT, IR_C_I32),
      (IR_LE, IR_SEXT, IR_C_I64), (IR_LE, IR_SEXT, IR_C_ADDR), (IR_GT, IR_SEXT, IR_C_U16),
      (IR_GT, IR_SEXT, IR_C_U32), (IR_GT, IR_SEXT, IR_C_U64), (IR_GT, IR_SEXT, IR_C_I16),
      (IR_GT, IR_SEXT, IR_C_I32), (IR_GT, IR_SEXT, IR_C_I64), (IR_GT, IR_SEXT, IR_C_ADDR)],
     fold_cmp_narrow)]"

definition fold_same_ext :: "ir_ctx \<Rightarrow> ir_insn \<Rightarrow> ir_insn \<Rightarrow> ir_insn \<Rightarrow> bool" where
  "fold_same_ext ctx a x y \<longleftrightarrow>
     i_type (ir_base ctx (i_op1 x)) = i_type (ir_base ctx (i_op1 y)) \<and>
     (use_lists ctx = None \<or> use_count ctx (i_op1 a) = 1 \<and> use_count ctx (i_op2 a) = 1)"

definition fold_rules_cmp :: "fold_rule list" where
  "fold_rules_cmp = [
    ([(IR_EQ, IR_ZEXT, IR_ZEXT), (IR_NE, IR_ZEXT, IR_ZEXT), (IR_ULT, IR_ZEXT, IR_ZEXT),
      (IR_UGE, IR_ZEXT, IR_ZEXT), (IR_ULE, IR_ZEXT, IR_ZEXT), (IR_UGT, IR_ZEXT, IR_ZEXT),
      (IR_EQ, IR_SEXT, IR_SEXT), (IR_NE, IR_SEXT, IR_SEXT), (IR_LT, IR_SEXT, IR_SEXT),
      (IR_GE, IR_SEXT, IR_SEXT), (IR_LE, IR_SEXT, IR_SEXT), (IR_GT, IR_SEXT, IR_SEXT)],
     \<lambda>h ctx a x y z. if fold_same_ext ctx a x y
       then Fold_Restart ctx (a\<lparr>i_op1 := i_op1 x, i_op2 := i_op1 y\<rparr>) else Fold_Next),
    ([(IR_LT, IR_ZEXT, IR_ZEXT), (IR_GE, IR_ZEXT, IR_ZEXT), (IR_LE, IR_ZEXT, IR_ZEXT),
      (IR_GT, IR_ZEXT, IR_ZEXT)],
     \<lambda>h ctx a x y z. if fold_same_ext ctx a x y
       then Fold_Restart ctx (a\<lparr>i_op := i_op a + 4, i_op1 := i_op1 x, i_op2 := i_op1 y\<rparr>) else Fold_Next),
    ([(IR_NOT, IR_EQ, ANY), (IR_NOT, IR_NE, ANY), (IR_NOT, IR_LT, ANY), (IR_NOT, IR_GE, ANY),
      (IR_NOT, IR_LE, ANY), (IR_NOT, IR_GT, ANY), (IR_NOT, IR_ULT, ANY), (IR_NOT, IR_UGE, ANY),
      (IR_NOT, IR_ULE, ANY), (IR_NOT, IR_UGT, ANY), (IR_NOT, IR_ORDERED, ANY),
      (IR_NOT, IR_UNORDERED, ANY)],
     \<lambda>h ctx a x y z. if IR_IS_TYPE_INT (i_type (ir_base ctx (i_op1 x)))
       then Fold_Restart ctx ((set_opt (i_op x XOR 1) (i_type x) a)\<lparr>i_op1 := i_op1 x, i_op2 := i_op2 x\<rparr>)
       else Fold_Next),
    ([(IR_EQ, IR_SUB, IR_C_U8), (IR_EQ, IR_SUB, IR_C_U16), (IR_EQ, IR_SUB, IR_C_U32),
      (IR_EQ, IR_SUB, IR_C_U64), (IR_EQ, IR_SUB, IR_C_I8), (IR_EQ, IR_SUB, IR_C_I16),
      (IR_EQ, IR_SUB, IR_C_I32), (IR_EQ, IR_SUB, IR_C_I64), (IR_EQ, IR_SUB, IR_C_ADDR),
      (IR_NE, IR_SUB, IR_C_U8), (IR_NE, IR_SUB, IR_C_U16), (IR_NE, IR_SUB, IR_C_U32),
      (IR_NE, IR_SUB, IR_C_U64), (IR_NE, IR_SUB, IR_C_I8), (IR_NE, IR_SUB, IR_C_I16),
      (IR_NE, IR_SUB, IR_C_I32), (IR_NE, IR_SUB, IR_C_I64), (IR_NE, IR_SUB, IR_C_ADDR)],
     \<lambda>h ctx a x y z. if use_lists ctx \<noteq> None \<and> use_count ctx (i_op1 a) = 1 \<and> i_val y = 0
       then Fold_Restart ctx (a\<lparr>i_op1 := i_op1 x, i_op2 := i_op2 x\<rparr>) else Fold_Next)]"

section \<open>Addition and subtraction\<close>

definition fold_rules_zero :: "fold_rule list" where
  "fold_rules_zero = [
    ([(IR_ADD, ANY, IR_C_U8), (IR_ADD, ANY, IR_C_U16), (IR_ADD, ANY, IR_C_U32),
      (IR_ADD, ANY, IR_C_U64), (IR_ADD, ANY, IR_C_I8), (IR_ADD, ANY, IR_C_I16),
      (IR_ADD, ANY, IR_C_I32), (IR_ADD, ANY, IR_C_I64), (IR_ADD, ANY, IR_C_ADDR),
      (IR_SUB, ANY, IR_C_U8), (IR_SUB, ANY, IR_C_U16), (IR_SUB, ANY, IR_C_U32),
      (IR_SUB, ANY, IR_C_U64), (IR_SUB, ANY, IR_C_I8), (IR_SUB, ANY, IR_C_I16),
      (IR_SUB, ANY, IR_C_I32), (IR_SUB, ANY, IR_C_I64), (IR_SUB, ANY, IR_C_ADDR),
      (IR_ADD_OV, ANY, IR_C_U8), (IR_ADD_OV, ANY, IR_C_U16), (IR_ADD_OV, ANY, IR_C_U32),
      (IR_ADD_OV, ANY, IR_C_U64), (IR_ADD_OV, ANY, IR_C_I8), (IR_ADD_OV, ANY, IR_C_I16),
      (IR_ADD_OV, ANY, IR_C_I32), (IR_ADD_OV, ANY, IR_C_I64), (IR_ADD_OV, ANY, IR_C_ADDR),
      (IR_SUB_OV, ANY, IR_C_U8), (IR_SUB_OV, ANY, IR_C_U16), (IR_SUB_OV, ANY, IR_C_U32),
      (IR_SUB_OV, ANY, IR_C_U64), (IR_SUB_OV, ANY, IR_C_I8), (IR_SUB_OV, ANY, IR_C_I16),
      (IR_SUB_OV, ANY, IR_C_I32), (IR_SUB_OV, ANY, IR_C_I64), (IR_SUB_OV, ANY, IR_C_ADDR)],
     \<lambda>h ctx a x y z. if i_val y = 0 then fold_copy_cast ctx a (i_type x) (i_op1 a) else Fold_Next),
    ([(IR_ADD, IR_C_U8, ANY), (IR_ADD, IR_C_U16, ANY), (IR_ADD, IR_C_U32, ANY),
      (IR_ADD, IR_C_U64, ANY), (IR_ADD, IR_C_I8, ANY), (IR_ADD, IR_C_I16, ANY),
      (IR_ADD, IR_C_I32, ANY), (IR_ADD, IR_C_I64, ANY), (IR_ADD, IR_C_ADDR, ANY)],
     \<lambda>h ctx a x y z. if i_val x = 0 then fold_copy_cast ctx a (i_type y) (i_op2 a) else Fold_Next),
    ([(IR_SUB, IR_C_I8, ANY), (IR_SUB, IR_C_I16, ANY), (IR_SUB, IR_C_I32, ANY),
      (IR_SUB, IR_C_I64, ANY)],
     \<lambda>h ctx a x y z. if i_val x = 0 then fold_to_unary ctx a IR_NEG (i_op2 a) else Fold_Next),
    ([(IR_UGE, ANY, IR_C_U8), (IR_UGE, ANY, IR_C_U16), (IR_UGE, ANY, IR_C_U32),
      (IR_UGE, ANY, IR_C_U64), (IR_UGE, ANY, IR_C_I8), (IR_UGE, ANY, IR_C_I16),
      (IR_UGE, ANY, IR_C_I32), (IR_UGE, ANY, IR_C_I64), (IR_UGE, ANY, IR_C_ADDR)],
     \<lambda>h ctx a x y z. if i_val y = 0 then Fold_Copy IR_TRUE else Fold_Next),
    ([(IR_UGT, ANY, IR_C_U8), (IR_UGT, ANY, IR_C_U16), (IR_UGT, ANY, IR_C_U32),
      (IR_UGT, ANY, IR_C_U64), (IR_UGT, ANY, IR_C_I8), (IR_UGT, ANY, IR_C_I16),
      (IR_UGT, ANY, IR_C_I32), (IR_UGT, ANY, IR_C_I64), (IR_UGT, ANY, IR_C_ADDR)],
     \<lambda>h ctx a x y z. if i_val y = 0 then Fold_Restart ctx (set_opt IR_NE IR_BOOL a) else Fold_Next),
    ([(IR_ULT, ANY, IR_C_U8), (IR_ULT, ANY, IR_C_U16), (IR_ULT, ANY, IR_C_U32),
      (IR_ULT, ANY, IR_C_U64), (IR_ULT, ANY, IR_C_I8), (IR_ULT, ANY, IR_C_I16),
      (IR_ULT, ANY, IR_C_I32), (IR_ULT, ANY, IR_C_I64), (IR_ULT, ANY, IR_C_ADDR)],
     \<lambda>h ctx a x y z. if i_val y = 0 then Fold_Copy IR_FALSE else Fold_Next),
    ([(IR_ULE, ANY, IR_C_U8), (IR_ULE, ANY, IR_C_U16), (IR_ULE, ANY, IR_C_U32),
      (IR_ULE, ANY, IR_C_U64), (IR_ULE, ANY, IR_C_I8), (IR_ULE, ANY, IR_C_I16),
      (IR_ULE, ANY, IR_C_I32), (IR_ULE, ANY, IR_C_I64), (IR_ULE, ANY, IR_C_ADDR)],
     \<lambda>h ctx a x y z. if i_val y = 0 then Fold_Restart ctx (set_opt IR_EQ IR_BOOL a) else Fold_Next)]"

definition fold_rules_addsub :: "fold_rule list" where
  "fold_rules_addsub = [
    ([(IR_ADD, IR_NEG, ANY)],
     \<lambda>h ctx a x y z. Fold_Restart ctx (a\<lparr>i_op := i_op a + 1, i_op1 := i_op2 a, i_op2 := i_op1 x\<rparr>)),
    ([(IR_ADD, ANY, IR_NEG), (IR_SUB, ANY, IR_NEG)],
     \<lambda>h ctx a x y z. Fold_Restart ctx (a\<lparr>i_op := i_op a XOR 1, i_op2 := i_op1 y\<rparr>)),
    ([(IR_ADD, IR_SUB, ANY)],
     \<lambda>h ctx a x y z. if IR_IS_TYPE_INT (i_type a) \<and> i_op2 x = i_op2 a
       then fold_copy_cast ctx a (i_type (ir_base ctx (i_op1 x))) (i_op1 x) else Fold_Next),
    ([(IR_ADD, ANY, IR_SUB)],
     \<lambda>h ctx a x y z. if IR_IS_TYPE_INT (i_type a) \<and> i_op2 y = i_op1 a
       then fold_copy_cast ctx a (i_type (ir_base ctx (i_op1 y))) (i_op1 y) else Fold_Next),
    ([(IR_SUB, IR_ADD, ANY)],
     \<lambda>h ctx a x y z. if IR_IS_TYPE_INT (i_type a) then
         (if i_op1 x = i_op2 a
          then fold_copy_cast ctx a (i_type (ir_base ctx (i_op2 x))) (i_op2 x)
          else if i_op2 x = i_op2 a
          then fold_copy_cast ctx a (i_type (ir_base ctx (i_op1 x))) (i_op1 x)
          else Fold_Next)
       else Fold_Next),
    ([(IR_SUB, ANY, IR_ADD)],
     \<lambda>h ctx a x y z. if IR_IS_TYPE_INT (i_type a) then
         (if i_op1 y = i_op1 a then fold_to_unary ctx a IR_NEG (i_op2 y)
          else if i_op2 y = i_op1 a then fold_to_unary ctx a IR_NEG (i_op1 y)
          else Fold_Next)
       else Fold_Next),
    ([(IR_SUB, IR_SUB, ANY)],
     \<lambda>h ctx a x y z. if IR_IS_TYPE_INT (i_type a) \<and> i_op1 x = i_op2 a
       then fold_to_unary ctx a IR_NEG (i_op2 x) else Fold_Next),
    ([(IR_SUB, ANY, IR_SUB)],
     \<lambda>h ctx a x y z. if IR_IS_TYPE_INT (i_type a) \<and> i_op1 y = i_op1 a
       then fold_copy_cast ctx a (i_type (ir_base ctx (i_op2 y))) (i_op2 y) else Fold_Next),
    ([(IR_SUB, IR_ADD, IR_ADD)],
     \<lambda>h ctx a x y z. if IR_IS_TYPE_INT (i_type a) then
         (if i_op1 a = i_op2 a then IR_FOLD_CONST_U 0
          else if i_op1 x = i_op1 y then fold_cast2 ctx a (i_op2 x) (i_op2 y)
          else if i_op1 x = i_op2 y then fold_cast2 ctx a (i_op2 x) (i_op1 y)
          else if i_op2 x = i_op1 y then fold_cast2 ctx a (i_op1 x) (i_op2 y)
          else if i_op2 x = i_op2 y then fold_cast2 ctx a (i_op1 x) (i_op1 y)
          else Fold_Next)
       else Fold_Next)]"

section \<open>Multiplication and division\<close>

definition fold_rules_muldiv :: "fold_rule list" where
  "fold_rules_muldiv = [
    ([(IR_MUL, IR_NEG, IR_C_I8), (IR_MUL, IR_NEG, IR_C_I16), (IR_MUL, IR_NEG, IR_C_I32),
      (IR_MUL, IR_NEG, IR_C_I64), (IR_DIV, IR_NEG, IR_C_I8), (IR_DIV, IR_NEG, IR_C_I16),
      (IR_DIV, IR_NEG, IR_C_I32), (IR_DIV, IR_NEG, IR_C_I64)],
     \<lambda>h ctx a x y z. fold_const_restart ctx (- i_val y) (i_type y) (\<lambda>r. a\<lparr>i_op1 := i_op1 x, i_op2 := r\<rparr>)),
    ([(IR_MUL, IR_NEG, IR_C_FLOAT), (IR_DIV, IR_NEG, IR_C_FLOAT)],
     \<lambda>h ctx a x y z. fold_const_restart ctx
       (push_bit 32 (ucast (uninit_hi h)) OR word_of_int (fp_neg IR_FLOAT (val_f (i_val y))))
       (i_type y) (\<lambda>r. a\<lparr>i_op1 := i_op1 x, i_op2 := r\<rparr>)),
    ([(IR_MUL, IR_NEG, IR_C_DOUBLE), (IR_DIV, IR_NEG, IR_C_DOUBLE)],
     \<lambda>h ctx a x y z. fold_const_restart ctx (word_of_int (fp_neg IR_DOUBLE (val_d (i_val y))))
       (i_type y) (\<lambda>r. a\<lparr>i_op1 := i_op1 x, i_op2 := r\<rparr>)),
    ([(IR_MUL, ANY, IR_C_U8), (IR_MUL, ANY, IR_C_U16), (IR_MUL, ANY, IR_C_U32),
      (IR_MUL, ANY, IR_C_U64), (IR_MUL, ANY, IR_C_ADDR)],
     \<lambda>h ctx a x y z. if i_val y = 0 then Fold_Copy (i_op2 a)
       else if i_val y = 1 then Fold_Copy (i_op1 a) else Fold_Next),
    ([(IR_MUL, ANY, IR_C_I8), (IR_MUL, ANY, IR_C_I16), (IR_MUL, ANY, IR_C_I32),
      (IR_MUL, ANY, IR_C_I64)],
     \<lambda>h ctx a x y z. if val_i64 (i_val y) = 0 then Fold_Copy (i_op2 a)
       else if val_i64 (i_val y) = 1 then Fold_Copy (i_op1 a)
       else if val_i64 (i_val y) = -1 then fold_to_unary ctx a IR_NEG (i_op1 a)
       else Fold_Next),
    ([(IR_MUL, ANY, IR_C_DOUBLE)],
     \<lambda>h ctx a x y z. if fp_eq IR_DOUBLE (val_d (i_val y)) (FP_1_0 IR_DOUBLE) then Fold_Copy (i_op1 a)
       else if fp_eq IR_DOUBLE (val_d (i_val y)) (FP_2_0 IR_DOUBLE)
       then Fold_Restart ctx ((set_opt IR_ADD (i_type a) a)\<lparr>i_op2 := i_op1 a\<rparr>)
       else if fp_eq IR_DOUBLE (val_d (i_val y)) (FP_minus_1_0 IR_DOUBLE)
       then fold_to_unary ctx a IR_NEG (i_op1 a) else Fold_Next),
    ([(IR_MUL, ANY, IR_C_FLOAT)],
     \<lambda>h ctx a x y z. if fp_eq IR_FLOAT (val_f (i_val y)) (FP_1_0 IR_FLOAT) then Fold_Copy (i_op1 a)
       else if fp_eq IR_FLOAT (val_f (i_val y)) (FP_2_0 IR_FLOAT)
       then Fold_Restart ctx ((set_opt IR_ADD (i_type a) a)\<lparr>i_op2 := i_op1 a\<rparr>)
       else if fp_eq IR_FLOAT (val_f (i_val y)) (FP_minus_1_0 IR_FLOAT)
       then fold_to_unary ctx a IR_NEG (i_op1 a) else Fold_Next),
    ([(IR_DIV, ANY, IR_C_U8), (IR_DIV, ANY, IR_C_U16), (IR_DIV, ANY, IR_C_U32),
      (IR_DIV, ANY, IR_C_U64)],
     \<lambda>h ctx a x y z. if i_val y = 1 then Fold_Copy (i_op1 a)
       else if IR_IS_POWER_OF_TWO (i_val y)
       then (case ir_ntzl (i_val y) of None \<Rightarrow> Fold_UB | Some k \<Rightarrow>
         fold_const_restart ctx (word_of_nat k) (i_type a)
           (\<lambda>r. (set_opt IR_SHR (i_type a) a)\<lparr>i_op2 := r\<rparr>))
       else Fold_Next),
    ([(IR_DIV, ANY, IR_C_I8), (IR_DIV, ANY, IR_C_I16), (IR_DIV, ANY, IR_C_I32),
      (IR_DIV, ANY, IR_C_I64)],
     \<lambda>h ctx a x y z. if val_i64 (i_val y) = 1 then Fold_Copy (i_op1 a)
       else if val_i64 (i_val y) = -1 then fold_to_unary ctx a IR_NEG (i_op1 a)
       else if IR_IS_POWER_OF_TWO (i_val y) \<and> i_op x = IR_ZEXT
       then (case ir_ntzl (i_val y) of None \<Rightarrow> Fold_UB | Some k \<Rightarrow>
         fold_const_restart ctx (word_of_nat k) (i_type a)
           (\<lambda>r. (set_opt IR_SHR (i_type a) a)\<lparr>i_op2 := r\<rparr>))
       else Fold_Next),
    ([(IR_MOD, ANY, IR_C_U8), (IR_MOD, ANY, IR_C_U16), (IR_MOD, ANY, IR_C_U32),
      (IR_MOD, ANY, IR_C_U64), (IR_MOD, ANY, IR_C_I8), (IR_MOD, ANY, IR_C_I16),
      (IR_MOD, ANY, IR_C_I32), (IR_MOD, ANY, IR_C_I64)],
     \<lambda>h ctx a x y z. if val_i64 (i_val y) = 1 then IR_FOLD_CONST_U 0
       else if IR_IS_POWER_OF_TWO (i_val y) \<and> (IR_IS_TYPE_UNSIGNED (i_type a) \<or> i_op x = IR_ZEXT)
       then fold_const_restart ctx (i_val y - 1) (i_type a)
           (\<lambda>r. (set_opt IR_AND (i_type a) a)\<lparr>i_op2 := r\<rparr>)
       else Fold_Next),
    ([(IR_DIV, ANY, IR_C_DOUBLE)],
     \<lambda>h ctx a x y z. if fp_eq IR_DOUBLE (val_d (i_val y)) (FP_1_0 IR_DOUBLE) then Fold_Copy (i_op1 a)
       else if fp_eq IR_DOUBLE (val_d (i_val y)) (FP_minus_1_0 IR_DOUBLE)
       then fold_to_unary ctx a IR_NEG (i_op1 a) else Fold_Next),
    ([(IR_DIV, ANY, IR_C_FLOAT)],
     \<lambda>h ctx a x y z. if fp_eq IR_FLOAT (val_f (i_val y)) (FP_1_0 IR_FLOAT) then Fold_Copy (i_op1 a)
       else if fp_eq IR_FLOAT (val_f (i_val y)) (FP_minus_1_0 IR_FLOAT)
       then fold_to_unary ctx a IR_NEG (i_op1 a) else Fold_Next),
    ([(IR_MUL, IR_NEG, IR_NEG), (IR_DIV, IR_NEG, IR_NEG)],
     \<lambda>h ctx a x y z. Fold_Restart ctx (a\<lparr>i_op1 := i_op1 x, i_op2 := i_op1 y\<rparr>))]"

section \<open>Bitwise operations with a constant\<close>

definition fold_rules_and_or :: "fold_rule list" where
  "fold_rules_and_or = [
    ([(IR_AND, ANY, IR_C_BOOL)],
     \<lambda>h ctx a x y z. Fold_Copy (if val_b (i_val y) then i_op1 a else i_op2 a)),
    ([(IR_AND, ANY, IR_C_U8), (IR_AND, ANY, IR_C_I8), (IR_AND, ANY, IR_C_CHAR)],
     \<lambda>h ctx a x y z. if val_i8 (i_val y) = 0 then Fold_Copy (i_op2 a)
       else if val_i8 (i_val y) = -1 then Fold_Copy (i_op1 a) else Fold_Next),
    ([(IR_AND, ANY, IR_C_U16), (IR_AND, ANY, IR_C_I16)],
     \<lambda>h ctx a x y z. if val_i16 (i_val y) = 0 then Fold_Copy (i_op2 a)
       else if val_i16 (i_val y) = -1 then Fold_Copy (i_op1 a) else Fold_Next),
    ([(IR_AND, ANY, IR_C_U32), (IR_AND, ANY, IR_C_I32)],
     \<lambda>h ctx a x y z. if val_i32 (i_val y) = 0 then Fold_Copy (i_op2 a)
       else if val_i32 (i_val y) = -1 then Fold_Copy (i_op1 a) else Fold_Next),
    ([(IR_AND, ANY, IR_C_U64), (IR_AND, ANY, IR_C_I64)],
     \<lambda>h ctx a x y z. if val_i64 (i_val y) = 0 then Fold_Copy (i_op2 a)
       else if val_i64 (i_val y) = -1 then Fold_Copy (i_op1 a) else Fold_Next),
    ([(IR_OR, ANY, IR_C_BOOL)],
     \<lambda>h ctx a x y z. Fold_Copy (if val_b (i_val y) then i_op2 a else i_op1 a)),
    ([(IR_OR, ANY, IR_C_U8), (IR_OR, ANY, IR_C_I8), (IR_OR, ANY, IR_C_CHAR)],
     \<lambda>h ctx a x y z. if val_i8 (i_val y) = -1 then Fold_Copy (i_op2 a)
       else if val_i8 (i_val y) = 0 then Fold_Copy (i_op1 a) else Fold_Next),
    ([(IR_OR, ANY, IR_C_U16), (IR_OR, ANY, IR_C_I16)],
     \<lambda>h ctx a x y z. if val_i16 (i_val y) = -1 then Fold_Copy (i_op2 a)
       else if val_i16 (i_val y) = 0 then Fold_Copy (i_op1 a) else Fold_Next),
    ([(IR_OR, ANY, IR_C_U32), (IR_OR, ANY, IR_C_I32)],
     \<lambda>h ctx a x y z. if val_i32 (i_val y) = -1 then Fold_Copy (i_op2 a)
       else if val_i32 (i_val y) = 0 then Fold_Copy (i_op1 a) else Fold_Next),
    ([(IR_OR, ANY, IR_C_U64), (IR_OR, ANY, IR_C_I64)],
     \<lambda>h ctx a x y z. if val_i64 (i_val y) = -1 then Fold_Copy (i_op2 a)
       else if val_i64 (i_val y) = 0 then Fold_Copy (i_op1 a) else Fold_Next)]"

definition fold_rules_xor :: "fold_rule list" where
  "fold_rules_xor = [
    ([(IR_XOR, ANY, IR_C_BOOL)],
     \<lambda>h ctx a x y z. if \<not> val_b (i_val y) then Fold_Copy (i_op1 a) else fold_to_unary ctx a IR_NOT (i_op1 a)),
    ([(IR_XOR, ANY, IR_C_U8), (IR_XOR, ANY, IR_C_I8), (IR_XOR, ANY, IR_C_CHAR)],
     \<lambda>h ctx a x y z. if val_i8 (i_val y) = 0 then Fold_Copy (i_op1 a)
       else if val_i8 (i_val y) = -1 then fold_to_unary ctx a IR_NOT (i_op1 a) else Fold_Next),
    ([(IR_XOR, ANY, IR_C_U16), (IR_XOR, ANY, IR_C_I16)],
     \<lambda>h ctx a x y z. if val_i16 (i_val y) = 0 then Fold_Copy (i_op1 a)
       else if val_i16 (i_val y) = -1 then fold_to_unary ctx a IR_NOT (i_op1 a) else Fold_Next),
    ([(IR_XOR, ANY, IR_C_U32), (IR_XOR, ANY, IR_C_I32)],
     \<lambda>h ctx a x y z. if val_i32 (i_val y) = 0 then Fold_Copy (i_op1 a)
       else if val_i32 (i_val y) = -1 then fold_to_unary ctx a IR_NOT (i_op1 a) else Fold_Next),
    ([(IR_XOR, ANY, IR_C_U64), (IR_XOR, ANY, IR_C_I64)],
     \<lambda>h ctx a x y z. if val_i64 (i_val y) = 0 then Fold_Copy (i_op1 a)
       else if val_i64 (i_val y) = -1 then fold_to_unary ctx a IR_NOT (i_op1 a) else Fold_Next)]"

definition fold_rules_shift_zero :: "fold_rule list" where
  "fold_rules_shift_zero = [
    ([(IR_SHL, ANY, IR_C_U8), (IR_SHL, ANY, IR_C_U16), (IR_SHL, ANY, IR_C_U32),
      (IR_SHL, ANY, IR_C_U64), (IR_SHL, ANY, IR_C_I8), (IR_SHL, ANY, IR_C_I16),
      (IR_SHL, ANY, IR_C_I32), (IR_SHL, ANY, IR_C_I64)],
     \<lambda>h ctx a x y z. if i_val y = 0 then Fold_Copy (i_op1 a)
       else if i_val y = 1 then Fold_Restart ctx ((set_opt IR_ADD (i_type a) a)\<lparr>i_op2 := i_op1 a\<rparr>)
       else Fold_Next),
    ([(IR_SHR, ANY, IR_C_U8), (IR_SHR, ANY, IR_C_U16), (IR_SHR, ANY, IR_C_U32),
      (IR_SHR, ANY, IR_C_U64), (IR_SHR, ANY, IR_C_I8), (IR_SHR, ANY, IR_C_I16),
      (IR_SHR, ANY, IR_C_I32), (IR_SHR, ANY, IR_C_I64), (IR_SAR, ANY, IR_C_U8),
      (IR_SAR, ANY, IR_C_U16), (IR_SAR, ANY, IR_C_U32), (IR_SAR, ANY, IR_C_U64),
      (IR_SAR, ANY, IR_C_I8), (IR_SAR, ANY, IR_C_I16), (IR_SAR, ANY, IR_C_I32),
      (IR_SAR, ANY, IR_C_I64), (IR_ROL, ANY, IR_C_U8), (IR_ROL, ANY, IR_C_U16),
      (IR_ROL, ANY, IR_C_U32), (IR_ROL, ANY, IR_C_U64), (IR_ROL, ANY, IR_C_I8),
      (IR_ROL, ANY, IR_C_I16), (IR_ROL, ANY, IR_C_I32), (IR_ROL, ANY, IR_C_I64),
      (IR_ROR, ANY, IR_C_U8), (IR_ROR, ANY, IR_C_U16), (IR_ROR, ANY, IR_C_U32),
      (IR_ROR, ANY, IR_C_U64), (IR_ROR, ANY, IR_C_I8), (IR_ROR, ANY, IR_C_I16),
      (IR_ROR, ANY, IR_C_I32), (IR_ROR, ANY, IR_C_I64)],
     \<lambda>h ctx a x y z. if i_val y = 0 then Fold_Copy (i_op1 a) else Fold_Next),
    ([(IR_SHL, IR_C_U8, ANY), (IR_SHL, IR_C_U16, ANY), (IR_SHL, IR_C_U32, ANY),
      (IR_SHL, IR_C_U64, ANY), (IR_SHL, IR_C_I8, ANY), (IR_SHL, IR_C_I16, ANY),
      (IR_SHL, IR_C_I32, ANY), (IR_SHL, IR_C_I64, ANY), (IR_SHR, IR_C_U8, ANY),
      (IR_SHR, IR_C_U16, ANY), (IR_SHR, IR_C_U32, ANY), (IR_SHR, IR_C_U64, ANY),
      (IR_SHR, IR_C_I8, ANY), (IR_SHR, IR_C_I16, ANY), (IR_SHR, IR_C_I32, ANY),
      (IR_SHR, IR_C_I64, ANY)],
     \<lambda>h ctx a x y z. if i_val x = 0 then Fold_Copy (i_op1 a) else Fold_Next),
    ([(IR_SAR, IR_C_U8, ANY), (IR_SAR, IR_C_I8, ANY), (IR_ROL, IR_C_U8, ANY),
      (IR_ROL, IR_C_I8, ANY), (IR_ROR, IR_C_U8, ANY), (IR_ROR, IR_C_I8, ANY)],
     \<lambda>h ctx a x y z. if val_i8 (i_val x) = 0 \<or> val_i8 (i_val x) = -1 then Fold_Copy (i_op1 a) else Fold_Next),
    ([(IR_SAR, IR_C_U16, ANY), (IR_SAR, IR_C_I16, ANY), (IR_ROL, IR_C_U16, ANY),
      (IR_ROL, IR_C_I16, ANY), (IR_ROR, IR_C_U16, ANY), (IR_ROR, IR_C_I16, ANY)],
     \<lambda>h ctx a x y z. if val_i16 (i_val x) = 0 \<or> val_i16 (i_val x) = -1 then Fold_Copy (i_op1 a) else Fold_Next),
    ([(IR_SAR, IR_C_U32, ANY), (IR_SAR, IR_C_I32, ANY), (IR_ROL, IR_C_U32, ANY),
      (IR_ROL, IR_C_I32, ANY), (IR_ROR, IR_C_U32, ANY), (IR_ROR, IR_C_I32, ANY)],
     \<lambda>h ctx a x y z. if val_i32 (i_val x) = 0 \<or> val_i32 (i_val x) = -1 then Fold_Copy (i_op1 a) else Fold_Next),
    ([(IR_SAR, IR_C_U64, ANY), (IR_SAR, IR_C_I64, ANY), (IR_ROL, IR_C_U64, ANY),
      (IR_ROL, IR_C_I64, ANY), (IR_ROR, IR_C_U64, ANY), (IR_ROR, IR_C_I64, ANY)],
     \<lambda>h ctx a x y z. if val_i64 (i_val x) = 0 \<or> val_i64 (i_val x) = -1 then Fold_Copy (i_op1 a) else Fold_Next),
    ([(IR_LT, IR_ABS, IR_C_I8), (IR_LT, IR_ABS, IR_C_I16), (IR_LT, IR_ABS, IR_C_I32),
      (IR_LT, IR_ABS, IR_C_I64), (IR_LT, IR_ABS, IR_C_FLOAT), (IR_LT, IR_ABS, IR_C_DOUBLE)],
     \<lambda>h ctx a x y z. if i_val y = 0 then Fold_Copy IR_FALSE else Fold_Next),
    ([(IR_GE, IR_ABS, IR_C_I8), (IR_GE, IR_ABS, IR_C_I16), (IR_GE, IR_ABS, IR_C_I32),
      (IR_GE, IR_ABS, IR_C_I64), (IR_GE, IR_ABS, IR_C_FLOAT), (IR_GE, IR_ABS, IR_C_DOUBLE)],
     \<lambda>h ctx a x y z. if i_val y = 0 then Fold_Copy IR_TRUE else Fold_Next)]"

section \<open>Conversions\<close>

definition fold_rules_conv :: "fold_rule list" where
  "fold_rules_conv = [
    ([(IR_FP2FP, IR_FP2FP, ANY)],
     \<lambda>h ctx a x y z. if i_type a = IR_FLOAT then Fold_Copy (i_op1 x) else Fold_Next),
    ([(IR_FP2INT, IR_INT2FP, ANY)],
     \<lambda>h ctx a x y z. let src = i_type (ir_base ctx (i_op1 x))
       in if ir_type_size src \<ge> ir_type_size (i_type x) then Fold_Next
          else if src = i_type a then Fold_Copy (i_op1 x) else Fold_Next),
    ([(IR_TRUNC, IR_ZEXT, ANY), (IR_TRUNC, IR_SEXT, ANY)],
     \<lambda>h ctx a x y z. let dst = i_type a; src = i_type (ir_base ctx (i_op1 x))
       in if src = dst then Fold_Copy (i_op1 x)
          else if ir_type_size src = ir_type_size dst
          then Fold_Restart ctx ((set_opt IR_BITCAST dst a)\<lparr>i_op1 := i_op1 x\<rparr>)
          else if ir_type_size src > ir_type_size dst
          then Fold_Restart ctx ((set_opt IR_TRUNC dst a)\<lparr>i_op1 := i_op1 x\<rparr>)
          else Fold_Restart ctx ((set_opt (i_op x) dst a)\<lparr>i_op1 := i_op1 x\<rparr>)),
    ([(IR_TRUNC, IR_BITCAST, ANY), (IR_ZEXT, IR_BITCAST, ANY), (IR_SEXT, IR_BITCAST, ANY)],
     \<lambda>h ctx a x y z. if IR_IS_TYPE_INT (i_type (ir_base ctx (i_op1 x)))
       then Fold_Restart ctx (a\<lparr>i_op1 := i_op1 x\<rparr>) else Fold_Next),
    ([(IR_BITCAST, IR_BITCAST, ANY)],
     \<lambda>h ctx a x y z. let dst = i_type a; src = i_type (ir_base ctx (i_op1 x))
       in if src = dst then Fold_Copy (i_op1 x)
          else if IR_IS_TYPE_INT src = IR_IS_TYPE_INT dst
          then Fold_Restart ctx (a\<lparr>i_op1 := i_op1 x\<rparr>) else Fold_Next),
    ([(IR_TRUNC, IR_TRUNC, ANY), (IR_ZEXT, IR_ZEXT, ANY), (IR_SEXT, IR_SEXT, ANY)],
     \<lambda>h ctx a x y z. Fold_Restart ctx (a\<lparr>i_op1 := i_op1 x\<rparr>)),
    ([(IR_SEXT, IR_ZEXT, ANY)],
     \<lambda>h ctx a x y z. Fold_Restart ctx ((set_opt IR_ZEXT (i_type a) a)\<lparr>i_op1 := i_op1 x\<rparr>)),
    ([(IR_SEXT, IR_AND, ANY)],
     \<lambda>h ctx a x y z. let c = ir_base ctx (i_op2 x)
       in if IR_IS_CONST_REF (i_op2 x) \<and> \<not> IR_IS_SYM_CONST (i_op c) \<and>
             \<not> bit (i_val c) (ir_type_size (i_type x) * 8 - 1)
          then Fold_Restart ctx (set_opt IR_ZEXT (i_type a) a) else Fold_Next),
    ([(IR_SEXT, IR_SHR, ANY)],
     \<lambda>h ctx a x y z. let c = ir_base ctx (i_op2 x)
       in if IR_IS_CONST_REF (i_op2 x) \<and> \<not> IR_IS_SYM_CONST (i_op c) \<and> i_val c \<noteq> 0
          then Fold_Restart ctx (set_opt IR_ZEXT (i_type a) a) else Fold_Next),
    ([(IR_TRUNC, IR_AND, ANY)],
     \<lambda>h ctx a x y z. let size = ir_type_size (i_type a); mask = i_val (ir_base ctx (i_op2 x))
       in if IR_IS_CONST_REF (i_op2 x) \<and>
             (size = 1 \<and> mask = 0xff \<or> size = 2 \<and> mask = 0xffff \<or> size = 4 \<and> mask = 0xffffffff)
          then Fold_Restart ctx (a\<lparr>i_op1 := i_op1 x\<rparr>) else Fold_Next)]"

end
