(* ===== verification/Fold_Reassoc.thy ===== *)
theory Fold_Reassoc
  imports Fold_Base
begin

text \<open>
  The masking, reassociation, rotation and operand-ordering rules of src/ir_fold.h (lines 2963 to
  3821), one row per rule body in source order.
\<close>

section \<open>Shared bodies\<close>

text \<open>\<open>IR_IS_CONST_REF(ref) && !IR_IS_SYM_CONST(ctx->ir_base[ref].op)\<close>.\<close>

definition num_const :: "ir_ctx \<Rightarrow> ir_ref \<Rightarrow> bool" where
  "num_const ctx ref \<longleftrightarrow> IR_IS_CONST_REF ref \<and> \<not> IR_IS_SYM_CONST (i_op (ir_base ctx ref))"

abbreviation (input) cval :: "ir_ctx \<Rightarrow> ir_ref \<Rightarrow> u64" where
  "cval ctx ref \<equiv> i_val (ir_base ctx ref)"

text \<open>\<open>op1 = ref; op2 = ir_const(ctx, val, type); RESTART\<close> and the converse.\<close>

definition fold_ref_const :: "ir_ctx \<Rightarrow> ir_insn \<Rightarrow> ir_op \<Rightarrow> ir_ref \<Rightarrow> u64 \<Rightarrow> ir_type \<Rightarrow> fold_result" where
  "fold_ref_const ctx a op ref v t =
     fold_const_restart ctx v t (\<lambda>r. a\<lparr>i_op := op, i_op1 := ref, i_op2 := r\<rparr>)"

definition fold_const_ref :: "ir_ctx \<Rightarrow> ir_insn \<Rightarrow> ir_op \<Rightarrow> u64 \<Rightarrow> ir_type \<Rightarrow> ir_ref \<Rightarrow> fold_result" where
  "fold_const_ref ctx a op v t ref =
     fold_const_restart ctx v t (\<lambda>r. a\<lparr>i_op := op, i_op1 := r, i_op2 := ref\<rparr>)"

text \<open>\<open>val.i64 < 0 && val.i64 != INT64_MIN\<close>.\<close>

definition neg_not_min :: "u64 \<Rightarrow> bool" where
  "neg_not_min v \<longleftrightarrow> val_i64 v < 0 \<and> val_i64 v \<noteq> - (2 ^ 63)"

text \<open>\<open>(uintN_t)-1 >> n\<close> and \<open>(uintN_t)-1 << n\<close>: for N of 8 and 16 the shift is done in \<open>int\<close>, so the
  left shift is not cut back to the width.\<close>

definition ones_shr :: "nat \<Rightarrow> int \<Rightarrow> int" where
  "ones_shr N n = drop_bit (nat n) (mask N)"

definition ones_shl :: "nat \<Rightarrow> int \<Rightarrow> int" where
  "ones_shl N n = (if N < 32 then push_bit (nat n) (mask N) else take_bit N (push_bit (nat n) (mask N)))"

definition fold_swap_ops :: "ir_ctx \<Rightarrow> ir_insn \<Rightarrow> fold_result" where
  "fold_swap_ops ctx a =
     (if i_op1 a < i_op2 a then Fold_Restart ctx (a\<lparr>i_op1 := i_op2 a, i_op2 := i_op1 a\<rparr>) else Fold_Next)"

section \<open>Masks\<close>

definition fold_rules_mask :: "fold_rule list" where
  "fold_rules_mask = [
    ([(IR_AND, IR_ZEXT, IR_C_I16), (IR_AND, IR_ZEXT, IR_C_U16), (IR_AND, IR_ZEXT, IR_C_I32),
      (IR_AND, IR_ZEXT, IR_C_U32), (IR_AND, IR_ZEXT, IR_C_I64), (IR_AND, IR_ZEXT, IR_C_U64),
      (IR_AND, IR_ZEXT, IR_C_ADDR)],
     \<lambda>h ctx a x y z. let n = ir_type_size (i_type (ir_base ctx (i_op1 x)))
       in if n = 1 \<and> i_val y = 0xff \<or> n = 2 \<and> i_val y = 0xffff \<or> n = 4 \<and> i_val y = 0xffffffff
          then Fold_Copy (i_op1 a) else Fold_Next),
    ([(IR_AND, IR_SEXT, IR_C_I16), (IR_AND, IR_SEXT, IR_C_U16), (IR_AND, IR_SEXT, IR_C_I32),
      (IR_AND, IR_SEXT, IR_C_U32), (IR_AND, IR_SEXT, IR_C_I64), (IR_AND, IR_SEXT, IR_C_U64),
      (IR_AND, IR_SEXT, IR_C_ADDR)],
     \<lambda>h ctx a x y z. let n = ir_type_size (i_type (ir_base ctx (i_op1 x)))
       in if n = 1 \<and> i_val y = 0xff \<or> n = 2 \<and> i_val y = 0xffff \<or> n = 4 \<and> i_val y = 0xffffffff
          then Fold_Restart ctx ((set_opt IR_ZEXT (i_type a) a)\<lparr>i_op1 := i_op1 x, i_op2 := IR_UNUSED\<rparr>)
          else Fold_Next),
    ([(IR_AND, IR_SHR, IR_C_I8), (IR_AND, IR_SHR, IR_C_U8)],
     \<lambda>h ctx a x y z. if IR_IS_CONST_REF (i_op2 x) \<and>
         ones_shr 8 (val_u8 (cval ctx (i_op2 x)) AND 0x7) = val_u8 (i_val y)
       then Fold_Copy (i_op1 a) else Fold_Next),
    ([(IR_AND, IR_SHR, IR_C_I16), (IR_AND, IR_SHR, IR_C_U16)],
     \<lambda>h ctx a x y z. if IR_IS_CONST_REF (i_op2 x) \<and>
         ones_shr 16 (val_u16 (cval ctx (i_op2 x)) AND 0xf) = val_u16 (i_val y)
       then Fold_Copy (i_op1 a) else Fold_Next),
    ([(IR_AND, IR_SHR, IR_C_I32), (IR_AND, IR_SHR, IR_C_U32)],
     \<lambda>h ctx a x y z. if IR_IS_CONST_REF (i_op2 x) \<and>
         ones_shr 32 (val_u32 (cval ctx (i_op2 x)) AND 0x1f) = val_u32 (i_val y)
       then Fold_Copy (i_op1 a) else Fold_Next),
    ([(IR_AND, IR_SHR, IR_C_I64), (IR_AND, IR_SHR, IR_C_U64)],
     \<lambda>h ctx a x y z. if IR_IS_CONST_REF (i_op2 x) \<and>
         ones_shr 64 (val_u64 (cval ctx (i_op2 x)) AND 0x3f) = val_u64 (i_val y)
       then Fold_Copy (i_op1 a) else Fold_Next),
    ([(IR_AND, IR_SHL, IR_C_I8), (IR_AND, IR_SHL, IR_C_U8)],
     \<lambda>h ctx a x y z. if IR_IS_CONST_REF (i_op2 x) \<and>
         ones_shl 8 (val_u8 (cval ctx (i_op2 x)) AND 0x7) = val_u8 (i_val y)
       then Fold_Copy (i_op1 a) else Fold_Next),
    ([(IR_AND, IR_SHL, IR_C_I16), (IR_AND, IR_SHL, IR_C_U16)],
     \<lambda>h ctx a x y z. if IR_IS_CONST_REF (i_op2 x) \<and>
         ones_shl 16 (val_u16 (cval ctx (i_op2 x)) AND 0xf) = val_u16 (i_val y)
       then Fold_Copy (i_op1 a) else Fold_Next),
    ([(IR_AND, IR_SHL, IR_C_I32), (IR_AND, IR_SHL, IR_C_U32)],
     \<lambda>h ctx a x y z. if IR_IS_CONST_REF (i_op2 x) \<and>
         ones_shl 32 (val_u32 (cval ctx (i_op2 x)) AND 0x1f) = val_u32 (i_val y)
       then Fold_Copy (i_op1 a) else Fold_Next),
    ([(IR_AND, IR_SHL, IR_C_I64), (IR_AND, IR_SHL, IR_C_U64)],
     \<lambda>h ctx a x y z. if IR_IS_CONST_REF (i_op2 x) \<and>
         ones_shl 64 (val_u64 (cval ctx (i_op2 x)) AND 0x3f) = val_u64 (i_val y)
       then Fold_Copy (i_op1 a) else Fold_Next)]"

definition fold_rules_shift_mask :: "fold_rule list" where
  "fold_rules_shift_mask = [
    ([(IR_SHL, IR_AND, IR_C_I8), (IR_SHL, IR_AND, IR_C_U8)],
     \<lambda>h ctx a x y z. if IR_IS_CONST_REF (i_op2 x) \<and>
         ones_shr 8 (val_u8 (i_val y) AND 0x7) = val_u8 (cval ctx (i_op2 x))
       then Fold_Restart ctx (a\<lparr>i_op1 := i_op1 x\<rparr>) else Fold_Next),
    ([(IR_SHL, IR_AND, IR_C_I16), (IR_SHL, IR_AND, IR_C_U16)],
     \<lambda>h ctx a x y z. if IR_IS_CONST_REF (i_op2 x) \<and>
         ones_shr 16 (val_u16 (i_val y) AND 0xf) = val_u16 (cval ctx (i_op2 x))
       then Fold_Restart ctx (a\<lparr>i_op1 := i_op1 x\<rparr>) else Fold_Next),
    ([(IR_SHL, IR_AND, IR_C_I32), (IR_SHL, IR_AND, IR_C_U32)],
     \<lambda>h ctx a x y z. if IR_IS_CONST_REF (i_op2 x) \<and>
         ones_shr 32 (val_u32 (i_val y) AND 0x1f) = val_u32 (cval ctx (i_op2 x))
       then Fold_Restart ctx (a\<lparr>i_op1 := i_op1 x\<rparr>) else Fold_Next),
    ([(IR_SHL, IR_AND, IR_C_I64), (IR_SHL, IR_AND, IR_C_U64)],
     \<lambda>h ctx a x y z. if IR_IS_CONST_REF (i_op2 x) \<and>
         ones_shr 64 (val_u64 (i_val y) AND 0x3f) = val_u64 (cval ctx (i_op2 x))
       then Fold_Restart ctx (a\<lparr>i_op1 := i_op1 x\<rparr>) else Fold_Next),
    ([(IR_SHR, IR_AND, IR_C_I8), (IR_SHR, IR_AND, IR_C_U8)],
     \<lambda>h ctx a x y z. if IR_IS_CONST_REF (i_op2 x) \<and>
         ones_shl 8 (val_u8 (i_val y) AND 0x7) = val_u8 (cval ctx (i_op2 x))
       then Fold_Restart ctx (a\<lparr>i_op1 := i_op1 x\<rparr>) else Fold_Next),
    ([(IR_SHR, IR_AND, IR_C_I16), (IR_SHR, IR_AND, IR_C_U16)],
     \<lambda>h ctx a x y z. if IR_IS_CONST_REF (i_op2 x) \<and>
         ones_shl 16 (val_u16 (i_val y) AND 0xf) = val_u16 (cval ctx (i_op2 x))
       then Fold_Restart ctx (a\<lparr>i_op1 := i_op1 x\<rparr>) else Fold_Next),
    ([(IR_SHR, IR_AND, IR_C_I32), (IR_SHR, IR_AND, IR_C_U32)],
     \<lambda>h ctx a x y z. if IR_IS_CONST_REF (i_op2 x) \<and>
         ones_shl 32 (val_u32 (i_val y) AND 0x1f) = val_u32 (cval ctx (i_op2 x))
       then Fold_Restart ctx (a\<lparr>i_op1 := i_op1 x\<rparr>) else Fold_Next),
    ([(IR_SHR, IR_AND, IR_C_I64), (IR_SHR, IR_AND, IR_C_U64)],
     \<lambda>h ctx a x y z. if IR_IS_CONST_REF (i_op2 x) \<and>
         ones_shl 64 (val_u64 (i_val y) AND 0x3f) = val_u64 (cval ctx (i_op2 x))
       then Fold_Restart ctx (a\<lparr>i_op1 := i_op1 x\<rparr>) else Fold_Next),
    ([(IR_EQ, IR_FP2FP, IR_C_DOUBLE), (IR_NE, IR_FP2FP, IR_C_DOUBLE),
      (IR_LT, IR_FP2FP, IR_C_DOUBLE), (IR_GE, IR_FP2FP, IR_C_DOUBLE),
      (IR_LE, IR_FP2FP, IR_C_DOUBLE), (IR_GT, IR_FP2FP, IR_C_DOUBLE),
      (IR_ULT, IR_FP2FP, IR_C_DOUBLE), (IR_UGE, IR_FP2FP, IR_C_DOUBLE),
      (IR_ULE, IR_FP2FP, IR_C_DOUBLE), (IR_UGT, IR_FP2FP, IR_C_DOUBLE)],
     \<lambda>h ctx a x y z. let f = take_bit 32 (fp_conv h IR_DOUBLE IR_FLOAT (val_d (i_val y)))
       in if fp_eq IR_DOUBLE (val_d (i_val y)) (fp_conv h IR_FLOAT IR_DOUBLE f)
          then (let (ctx, r) = ir_const_float ctx (word_of_int f)
                in Fold_Restart ctx (a\<lparr>i_op1 := i_op1 x, i_op2 := r\<rparr>))
          else Fold_Next)]"

section \<open>Reassociation\<close>

definition fold_rules_reassoc_add :: "fold_rule list" where
  "fold_rules_reassoc_add = [
    ([(IR_ADD, IR_ADD, IR_C_U8), (IR_ADD, IR_ADD, IR_C_U16), (IR_ADD, IR_ADD, IR_C_U32),
      (IR_ADD, IR_ADD, IR_C_U64), (IR_ADD, IR_ADD, IR_C_ADDR)],
     \<lambda>h ctx a x y z. if num_const ctx (i_op2 x)
       then fold_ref_const ctx a (i_op a) (i_op1 x) (cval ctx (i_op2 x) + i_val y) (i_type y)
       else Fold_Next),
    ([(IR_ADD, IR_ADD, IR_C_I8), (IR_ADD, IR_ADD, IR_C_I16), (IR_ADD, IR_ADD, IR_C_I32),
      (IR_ADD, IR_ADD, IR_C_I64)],
     \<lambda>h ctx a x y z. if num_const ctx (i_op2 x)
       then fold_ref_const ctx a (i_op a) (i_op1 x) (cval ctx (i_op2 x) + i_val y) (i_type y)
       else Fold_Next),
    ([(IR_ADD, IR_SUB, IR_C_U8), (IR_ADD, IR_SUB, IR_C_U16), (IR_ADD, IR_SUB, IR_C_U32),
      (IR_ADD, IR_SUB, IR_C_U64), (IR_ADD, IR_SUB, IR_C_ADDR)],
     \<lambda>h ctx a x y z. if num_const ctx (i_op2 x)
       then fold_ref_const ctx a (i_op a) (i_op1 x) (i_val y - cval ctx (i_op2 x)) (i_type y)
       else if num_const ctx (i_op1 x)
       then fold_const_ref ctx a (i_op a + 1) (cval ctx (i_op1 x) + i_val y) (i_type y) (i_op2 x)
       else Fold_Next),
    ([(IR_ADD, IR_SUB, IR_C_I8), (IR_ADD, IR_SUB, IR_C_I16), (IR_ADD, IR_SUB, IR_C_I32),
      (IR_ADD, IR_SUB, IR_C_I64)],
     \<lambda>h ctx a x y z. if num_const ctx (i_op2 x)
       then (let v = i_val y - cval ctx (i_op2 x)
             in if neg_not_min v then fold_ref_const ctx a (i_op a + 1) (i_op1 x) (- v) (i_type y)
                else fold_ref_const ctx a (i_op a) (i_op1 x) v (i_type y))
       else if num_const ctx (i_op1 x)
       then fold_const_ref ctx a (i_op a + 1) (cval ctx (i_op1 x) + i_val y) (i_type y) (i_op2 x)
       else Fold_Next)]"

definition fold_rules_reassoc_sub :: "fold_rule list" where
  "fold_rules_reassoc_sub = [
    ([(IR_SUB, IR_ADD, IR_C_U8), (IR_SUB, IR_ADD, IR_C_U16), (IR_SUB, IR_ADD, IR_C_U32),
      (IR_SUB, IR_ADD, IR_C_U64), (IR_SUB, IR_ADD, IR_C_ADDR)],
     \<lambda>h ctx a x y z. if num_const ctx (i_op2 x)
       then fold_ref_const ctx a (i_op a - 1) (i_op1 x) (cval ctx (i_op2 x) - i_val y) (i_type y)
       else Fold_Next),
    ([(IR_SUB, IR_ADD, IR_C_I8), (IR_SUB, IR_ADD, IR_C_I16), (IR_SUB, IR_ADD, IR_C_I32),
      (IR_SUB, IR_ADD, IR_C_I64)],
     \<lambda>h ctx a x y z. if num_const ctx (i_op2 x)
       then (let v = cval ctx (i_op2 x) - i_val y
             in if neg_not_min v then fold_ref_const ctx a (i_op a) (i_op1 x) (- v) (i_type y)
                else fold_ref_const ctx a (i_op a - 1) (i_op1 x) v (i_type y))
       else Fold_Next),
    ([(IR_SUB, IR_C_U8, IR_ADD), (IR_SUB, IR_C_U16, IR_ADD), (IR_SUB, IR_C_U32, IR_ADD),
      (IR_SUB, IR_C_U64, IR_ADD), (IR_SUB, IR_C_ADDR, IR_ADD)],
     \<lambda>h ctx a x y z. if num_const ctx (i_op2 y)
       then fold_const_ref ctx a (i_op a) (i_val x - cval ctx (i_op2 y)) (i_type y) (i_op1 y)
       else Fold_Next),
    ([(IR_SUB, IR_C_I8, IR_ADD), (IR_SUB, IR_C_I16, IR_ADD), (IR_SUB, IR_C_I32, IR_ADD),
      (IR_SUB, IR_C_I64, IR_ADD)],
     \<lambda>h ctx a x y z. if num_const ctx (i_op2 y)
       then fold_const_ref ctx a (i_op a) (i_val x - cval ctx (i_op2 y)) (i_type y) (i_op1 y)
       else Fold_Next),
    ([(IR_SUB, IR_SUB, IR_C_U8), (IR_SUB, IR_SUB, IR_C_U16), (IR_SUB, IR_SUB, IR_C_U32),
      (IR_SUB, IR_SUB, IR_C_U64), (IR_SUB, IR_SUB, IR_C_ADDR)],
     \<lambda>h ctx a x y z. if num_const ctx (i_op2 x)
       then (let v = cval ctx (i_op2 x) + i_val y
             in if neg_not_min v then fold_ref_const ctx a (i_op a - 1) (i_op1 x) (- v) (i_type y)
                else fold_ref_const ctx a (i_op a) (i_op1 x) v (i_type y))
       else if num_const ctx (i_op1 x)
       then fold_const_ref ctx a (i_op a) (cval ctx (i_op1 x) - i_val y) (i_type y) (i_op2 x)
       else Fold_Next),
    ([(IR_SUB, IR_SUB, IR_C_I8), (IR_SUB, IR_SUB, IR_C_I16), (IR_SUB, IR_SUB, IR_C_I32),
      (IR_SUB, IR_SUB, IR_C_I64)],
     \<lambda>h ctx a x y z. if num_const ctx (i_op2 x)
       then (let v = cval ctx (i_op2 x) + i_val y
             in if neg_not_min v then fold_ref_const ctx a (i_op a - 1) (i_op1 x) (- v) (i_type y)
                else fold_ref_const ctx a (i_op a) (i_op1 x) v (i_type y))
       else if num_const ctx (i_op1 x)
       then fold_const_ref ctx a (i_op a) (cval ctx (i_op1 x) - i_val y) (i_type y) (i_op2 x)
       else Fold_Next)]"

text \<open>The rules for \<open>c1 - (x - c2)\<close> and \<open>c1 - (c2 - x)\<close>; \<open>opt\<close> is not changed on entry to the second
  branch, so the opcode there starts as \<open>IR_SUB\<close>.\<close>

definition fold_rules_const_sub :: "fold_rule list" where
  "fold_rules_const_sub = [
    ([(IR_SUB, IR_C_U8, IR_SUB), (IR_SUB, IR_C_U16, IR_SUB), (IR_SUB, IR_C_U32, IR_SUB),
      (IR_SUB, IR_C_U64, IR_SUB), (IR_SUB, IR_C_ADDR, IR_SUB)],
     \<lambda>h ctx a x y z. if num_const ctx (i_op2 y)
       then fold_const_ref ctx a (i_op a) (i_val x + cval ctx (i_op2 y)) (i_type x) (i_op1 y)
       else if num_const ctx (i_op1 y)
       then (let v = i_val x - cval ctx (i_op1 y)
             in if neg_not_min v then fold_ref_const ctx a (i_op a + 1) (i_op2 y) (- v) (i_type x)
                else fold_ref_const ctx a (i_op a) (i_op2 y) v (i_type x))
       else Fold_Next),
    ([(IR_SUB, IR_C_I8, IR_SUB), (IR_SUB, IR_C_I16, IR_SUB), (IR_SUB, IR_C_I32, IR_SUB),
      (IR_SUB, IR_C_I64, IR_SUB)],
     \<lambda>h ctx a x y z. if num_const ctx (i_op2 y)
       then fold_const_ref ctx a (i_op a) (i_val x + cval ctx (i_op2 y)) (i_type x) (i_op1 y)
       else if num_const ctx (i_op1 y)
       then (let v = i_val x - cval ctx (i_op1 y)
             in if neg_not_min v then fold_ref_const ctx a (i_op a + 1) (i_op2 y) (- v) (i_type x)
                else fold_ref_const ctx a (i_op a) (i_op2 y) v (i_type x))
       else Fold_Next)]"

definition fold_rules_reassoc_bits :: "fold_rule list" where
  "fold_rules_reassoc_bits = [
    ([(IR_MUL, IR_MUL, IR_C_U8), (IR_MUL, IR_MUL, IR_C_U16), (IR_MUL, IR_MUL, IR_C_U32),
      (IR_MUL, IR_MUL, IR_C_U64), (IR_MUL, IR_MUL, IR_C_ADDR)],
     \<lambda>h ctx a x y z. if num_const ctx (i_op2 x)
       then fold_ref_const ctx a (i_op a) (i_op1 x) (cval ctx (i_op2 x) * i_val y) (i_type y)
       else Fold_Next),
    ([(IR_MUL, IR_MUL, IR_C_I8), (IR_MUL, IR_MUL, IR_C_I16), (IR_MUL, IR_MUL, IR_C_I32),
      (IR_MUL, IR_MUL, IR_C_I64)],
     \<lambda>h ctx a x y z. if num_const ctx (i_op2 x)
       then fold_ref_const ctx a (i_op a) (i_op1 x) (cval ctx (i_op2 x) * i_val y) (i_type y)
       else Fold_Next),
    ([(IR_AND, IR_AND, IR_C_U8), (IR_AND, IR_AND, IR_C_U16), (IR_AND, IR_AND, IR_C_U32),
      (IR_AND, IR_AND, IR_C_U64), (IR_AND, IR_AND, IR_C_I8), (IR_AND, IR_AND, IR_C_I16),
      (IR_AND, IR_AND, IR_C_I32), (IR_AND, IR_AND, IR_C_I64), (IR_AND, IR_AND, IR_C_ADDR)],
     \<lambda>h ctx a x y z. if num_const ctx (i_op2 x)
       then fold_ref_const ctx a (i_op a) (i_op1 x) (cval ctx (i_op2 x) AND i_val y) (i_type y)
       else Fold_Next),
    ([(IR_OR, IR_OR, IR_C_U8), (IR_OR, IR_OR, IR_C_U16), (IR_OR, IR_OR, IR_C_U32),
      (IR_OR, IR_OR, IR_C_U64), (IR_OR, IR_OR, IR_C_I8), (IR_OR, IR_OR, IR_C_I16),
      (IR_OR, IR_OR, IR_C_I32), (IR_OR, IR_OR, IR_C_I64), (IR_OR, IR_OR, IR_C_ADDR)],
     \<lambda>h ctx a x y z. if num_const ctx (i_op2 x)
       then fold_ref_const ctx a (i_op a) (i_op1 x) (cval ctx (i_op2 x) OR i_val y) (i_type y)
       else Fold_Next),
    ([(IR_XOR, IR_XOR, IR_C_U8), (IR_XOR, IR_XOR, IR_C_U16), (IR_XOR, IR_XOR, IR_C_U32),
      (IR_XOR, IR_XOR, IR_C_U64), (IR_XOR, IR_XOR, IR_C_I8), (IR_XOR, IR_XOR, IR_C_I16),
      (IR_XOR, IR_XOR, IR_C_I32), (IR_XOR, IR_XOR, IR_C_I64), (IR_XOR, IR_XOR, IR_C_ADDR)],
     \<lambda>h ctx a x y z. if num_const ctx (i_op2 x)
       then fold_ref_const ctx a (i_op a) (i_op1 x) (cval ctx (i_op2 x) XOR i_val y) (i_type y)
       else Fold_Next),
    ([(IR_AND, IR_AND, ANY), (IR_OR, IR_OR, ANY), (IR_MIN, IR_MIN, ANY), (IR_MAX, IR_MAX, ANY)],
     \<lambda>h ctx a x y z. if i_op1 x = i_op2 a \<or> i_op2 x = i_op2 a then Fold_Copy (i_op2 a) else Fold_Next),
    ([(IR_XOR, IR_XOR, ANY)],
     \<lambda>h ctx a x y z. if i_op1 x = i_op2 a then Fold_Copy (i_op2 x)
       else if i_op2 x = i_op2 a then Fold_Copy (i_op1 x) else Fold_Next)]"

section \<open>Rotations\<close>

definition fold_rules_rot :: "fold_rule list" where
  "fold_rules_rot = [
    ([(IR_OR, IR_SHL, IR_SHR), (IR_OR, IR_SHR, IR_SHL), (IR_ADD, IR_SHL, IR_SHR),
      (IR_ADD, IR_SHR, IR_SHL)],
     \<lambda>h ctx a x y z. let base = ir_base ctx; bits = word_of_nat (ir_type_size (i_type a) * 8)
       in if i_op1 x \<noteq> i_op1 y then Fold_Next
          else if IR_IS_CONST_REF (i_op2 x) \<and> IR_IS_CONST_REF (i_op2 y) then
            (if i_val (base (i_op2 x)) + i_val (base (i_op2 y)) = bits
             then Fold_Restart ctx ((set_opt (i_op x + 3) (i_type x) a)\<lparr>i_op1 := i_op1 x, i_op2 := i_op2 x\<rparr>)
             else Fold_Next)
          else if i_op (base (i_op2 y)) = IR_SUB \<and> IR_IS_CONST_REF (i_op1 (base (i_op2 y))) \<and>
               i_op2 (base (i_op2 y)) = i_op2 x \<and> i_val (base (i_op1 (base (i_op2 y)))) = bits
          then Fold_Restart ctx ((set_opt (i_op x + 3) (i_type x) a)\<lparr>i_op1 := i_op1 x, i_op2 := i_op2 x\<rparr>)
          else if i_op (base (i_op2 x)) = IR_SUB \<and> IR_IS_CONST_REF (i_op1 (base (i_op2 x))) \<and>
               i_op2 (base (i_op2 x)) = i_op2 y \<and> i_val (base (i_op1 (base (i_op2 x)))) = bits
          then Fold_Restart ctx ((set_opt (i_op y + 3) (i_type y) a)\<lparr>i_op1 := i_op1 y, i_op2 := i_op2 y\<rparr>)
          else Fold_Next)]"

section \<open>Operand order and equal operands\<close>

definition fold_rules_swap :: "fold_rule list" where
  "fold_rules_swap = [
    ([(IR_MUL, ANY, ANY), (IR_ORDERED, ANY, ANY), (IR_UNORDERED, ANY, ANY)],
     \<lambda>h ctx a x y z. fold_swap_ops ctx a),
    ([(IR_ADD_OV, ANY, ANY), (IR_MUL_OV, ANY, ANY)],
     \<lambda>h ctx a x y z. if i_op1 a < i_op2 a
       then Fold_Restart ctx (a\<lparr>i_op1 := i_op2 a, i_op2 := i_op1 a\<rparr>) else Fold_Emit a),
    ([(IR_ADD, ANY, ANY)],
     \<lambda>h ctx a x y z. if IR_IS_TYPE_INT (i_type a) \<and> i_op1 a = i_op2 a
       then fold_const_restart ctx 2 (i_type a) (\<lambda>r. (set_opt IR_MUL (i_type a) a)\<lparr>i_op2 := r\<rparr>)
       else fold_swap_ops ctx a),
    ([(IR_SUB, ANY, ANY)],
     \<lambda>h ctx a x y z. if IR_IS_TYPE_INT (i_type a) \<and> i_op1 a = i_op2 a then IR_FOLD_CONST_U 0 else Fold_Next),
    ([(IR_SUB_OV, ANY, ANY)],
     \<lambda>h ctx a x y z. if i_op1 a = i_op2 a then IR_FOLD_CONST_U 0 else Fold_Emit a),
    ([(IR_AND, ANY, ANY), (IR_OR, ANY, ANY), (IR_MIN, ANY, ANY), (IR_MAX, ANY, ANY)],
     \<lambda>h ctx a x y z. if i_op1 a = i_op2 a then Fold_Copy (i_op1 a) else fold_swap_ops ctx a),
    ([(IR_XOR, ANY, ANY)],
     \<lambda>h ctx a x y z. if i_op1 a = i_op2 a then IR_FOLD_CONST_U 0 else fold_swap_ops ctx a),
    ([(IR_EQ, ANY, ANY), (IR_NE, ANY, ANY)],
     \<lambda>h ctx a x y z. if i_op1 a \<noteq> i_op2 a then fold_swap_ops ctx a
       else if IR_IS_TYPE_INT (i_type x) then IR_FOLD_BOOL (i_op a = IR_EQ) else Fold_Next),
    ([(IR_LT, ANY, ANY), (IR_GE, ANY, ANY), (IR_LE, ANY, ANY), (IR_GT, ANY, ANY)],
     \<lambda>h ctx a x y z. if i_op1 a = i_op2 a then
         (if IR_IS_TYPE_INT (i_type x) then IR_FOLD_BOOL (bit (i_op a XOR drop_bit 1 (i_op a)) 0) else Fold_Next)
       else if i_op1 a < i_op2 a
       then Fold_Restart ctx (a\<lparr>i_op := i_op a XOR 3, i_op1 := i_op2 a, i_op2 := i_op1 a\<rparr>) else Fold_Next),
    ([(IR_ULT, ANY, ANY), (IR_UGE, ANY, ANY), (IR_ULE, ANY, ANY), (IR_UGT, ANY, ANY)],
     \<lambda>h ctx a x y z. if i_op1 a = i_op2 a then IR_FOLD_BOOL (bit (i_op a XOR drop_bit 1 (i_op a)) 0)
       else if i_op1 a < i_op2 a
       then Fold_Restart ctx (a\<lparr>i_op := i_op a XOR 3, i_op1 := i_op2 a, i_op2 := i_op1 a\<rparr>) else Fold_Next)]"

section \<open>Conditional moves\<close>

text \<open>The branches on the type of the condition; \<open>None\<close>: none of them leaves the rule.\<close>

definition fold_cond_bool :: "ir_ctx \<Rightarrow> ir_insn \<Rightarrow> ir_insn \<Rightarrow> ir_insn \<Rightarrow> fold_result option" where
  "fold_cond_bool ctx a y z =
     (if i_op2 a = IR_TRUE then
        (if i_op3 a = IR_FALSE then Some (Fold_Copy (i_op1 a))
         else Some (Fold_Restart ctx ((set_opt IR_OR IR_BOOL a)\<lparr>i_op2 := i_op3 a, i_op3 := IR_UNUSED\<rparr>)))
      else if i_op3 a = IR_FALSE
      then Some (Fold_Restart ctx ((set_opt IR_AND IR_BOOL a)\<lparr>i_op3 := IR_UNUSED\<rparr>))
      else if i_op2 a = IR_FALSE then
        (if i_op3 a = IR_TRUE
         then Some (Fold_Restart ctx ((set_opt IR_NOT IR_BOOL a)\<lparr>i_op2 := IR_UNUSED, i_op3 := IR_UNUSED\<rparr>))
         else None)
      else if IR_IS_TYPE_INT (i_type a) \<and> IR_IS_CONST_REF (i_op2 a) \<and> IR_IS_CONST_REF (i_op3 a) \<and>
           i_val y = 1 \<and> i_val z = 0
      then Some (Fold_Restart ctx ((set_opt (if ir_type_size (i_type a) > 1 then IR_ZEXT else IR_BITCAST)
             (i_type a) a)\<lparr>i_op2 := IR_UNUSED, i_op3 := IR_UNUSED\<rparr>))
      else None)"

definition fold_cond_int :: "ir_ctx \<Rightarrow> ir_insn \<Rightarrow> ir_insn \<Rightarrow> fold_result option" where
  "fold_cond_int ctx a x =
     (if i_op2 a = IR_TRUE \<and> i_op3 a = IR_FALSE
      then Some (fold_const_restart ctx 0 (i_type x)
             (\<lambda>r. (set_opt IR_NE IR_BOOL a)\<lparr>i_op2 := r, i_op3 := IR_UNUSED\<rparr>))
      else if i_op2 a = IR_FALSE \<and> i_op3 a = IR_TRUE
      then Some (fold_const_restart ctx 0 (i_type x)
             (\<lambda>r. (set_opt IR_EQ IR_BOOL a)\<lparr>i_op2 := r, i_op3 := IR_UNUSED\<rparr>))
      else None)"

definition fold_rules_cond :: "fold_rule list" where
  "fold_rules_cond = [
    ([(IR_COND, ANY, ANY)],
     \<lambda>h ctx a x y z. if i_op2 a = i_op3 a then Fold_Copy (i_op2 a)
       else case (if i_type x = IR_BOOL then fold_cond_bool ctx a y z
                  else if IR_IS_TYPE_INT (i_type x) then fold_cond_int ctx a x else None) of
         Some r \<Rightarrow> r
       | None \<Rightarrow>
         let c = ir_base ctx (i_op2 x); zero = IR_IS_CONST_REF (i_op2 x) \<and> IR_IS_TYPE_INT (i_type c) \<and> i_val c = 0
         in if i_op x = IR_NE \<and> zero then Fold_Restart ctx (a\<lparr>i_op1 := i_op1 x\<rparr>)
            else if i_op x = IR_EQ \<and> zero
            then Fold_Restart ctx (a\<lparr>i_op1 := i_op1 x, i_op2 := i_op3 a, i_op3 := i_op2 a\<rparr>)
            else Fold_Next)]"

end
