(* ===== verification/Fold_Engine.thy ===== *)
theory Fold_Engine
  imports Fold_Const Fold_Algebra Fold_Reassoc
begin

text \<open>
  The folding engine (src/ir.c, \<open>ir_folding\<close>, \<open>ir_fold\<close> and \<open>ir_fold0\<close> to \<open>ir_fold3\<close>). A rule is
  selected by the opcodes of the instruction and of its first two operands; the generated hash
  table of the build maps a key to the one rule that has it, which is a look-up in the list of all
  rules here. \<open>restart\<close> is a loop that the rules leave only by reaching another label; \<open>fuel\<close>
  bounds the number of its rounds, and running out of it is the result \<open>None\<close>.
\<close>

definition fold_table :: "fold_rule list" where
  "fold_table =
     fold_rules_eq @ fold_rules_order @ fold_rules_uorder @ fold_rules_nan @
     fold_rules_add @ fold_rules_sub @ fold_rules_mul @ fold_rules_div @ fold_rules_mod_neg_abs @
     fold_rules_ov @ fold_rules_bitwise @ fold_rules_shift @ fold_rules_sar @ fold_rules_rotate @
     fold_rules_minmax @ fold_rules_extend @ fold_rules_bitcast @ fold_rules_fpconv @
     fold_rules_copy @ fold_rules_cmp_narrow @ fold_rules_cmp @ fold_rules_zero @
     fold_rules_addsub @ fold_rules_muldiv @ fold_rules_and_or @ fold_rules_xor @
     fold_rules_shift_zero @ fold_rules_conv @ fold_rules_mask @ fold_rules_shift_mask @
     fold_rules_reassoc_add @ fold_rules_reassoc_sub @ fold_rules_const_sub @
     fold_rules_reassoc_bits @ fold_rules_rot @ fold_rules_swap @ fold_rules_cond"

primrec fold_find :: "fold_rule list \<Rightarrow> fold_key \<Rightarrow> fold_body option" where
  "fold_find [] k = None"
| "fold_find (R # Rs) k = (if k \<in> set (fst R) then Some (snd R) else fold_find Rs k)"

text \<open>
  The four keys tried in turn: both operands, only the second, only the first, none
  (\<open>any\<close> is \<open>0x1fffff\<close>, \<open>0x1fc07f\<close>, \<open>0x3fff\<close>, \<open>0x7f\<close>).
\<close>

definition fold_keys :: "ir_op \<Rightarrow> ir_op \<Rightarrow> ir_op \<Rightarrow> fold_key list" where
  "fold_keys op op1 op2 = [(op, op1, op2), (op, ANY, op2), (op, op1, ANY), (op, ANY, ANY)]"

primrec fold_try :: "fold_key list \<Rightarrow> host \<Rightarrow> ir_ctx \<Rightarrow> ir_insn \<Rightarrow> ir_insn \<Rightarrow> ir_insn \<Rightarrow> ir_insn \<Rightarrow> fold_result" where
  "fold_try [] h ctx a x y z = Fold_Next"
| "fold_try (k # ks) h ctx a x y z =
     (case fold_find fold_table k of
        None \<Rightarrow> fold_try ks h ctx a x y z
      | Some body \<Rightarrow>
          (case body h ctx a x y z of Fold_Next \<Rightarrow> fold_try ks h ctx a x y z | r \<Rightarrow> r))"

definition fold_dispatch :: "host \<Rightarrow> ir_ctx \<Rightarrow> ir_insn \<Rightarrow> ir_insn \<Rightarrow> ir_insn \<Rightarrow> ir_insn \<Rightarrow> fold_result" where
  "fold_dispatch h ctx a x y z = fold_try (fold_keys (i_op a) (i_op x) (i_op y)) h ctx a x y z"

text \<open>
  How \<open>ir_folding\<close> returns: with the reference of the result while the IR is being built, with an
  action for its caller and the new instruction in \<open>ctx->fold_insn\<close> when use lists exist.
\<close>

datatype fold_action =
  IR_FOLD_DO_RESTART | IR_FOLD_DO_CSE | IR_FOLD_DO_EMIT | IR_FOLD_DO_COPY | IR_FOLD_DO_CONST

datatype fold_exit =
  Fold_Ref ir_ctx ir_ref
| Fold_Action ir_ctx fold_action
| Fold_Undefined

text \<open>The label \<open>ir_fold_cse\<close> without use lists: local CSE, or emission with an update of the chain.\<close>

definition fold_cse_emit :: "ir_ctx \<Rightarrow> ir_insn \<Rightarrow> ir_ctx \<times> ir_ref" where
  "fold_cse_emit ctx a =
     (let ref = ir_fold_cse ctx a
      in if ref \<noteq> 0 then (ctx, ref)
         else
           let (ctx, ref) = ir_emit ctx (i_op a) (i_type a) (i_n a) (i_op1 a) (i_op2 a) (i_op3 a);
               prev = prev_insn_chain ctx (i_op a);
               off = (if prev = 0 \<or> ref - prev > 0xffff then 0 else nat (ref - prev))
           in (ctx\<lparr>ir_base := (ir_base ctx)(ref := (ir_base ctx ref)\<lparr>i_n := off\<rparr>),
                   prev_insn_chain := (prev_insn_chain ctx)(i_op a := ref)\<rparr>, ref))"

definition fold_store :: "ir_ctx \<Rightarrow> ir_insn \<Rightarrow> ir_ctx" where
  "fold_store ctx a = ctx\<lparr>fold_insn := (fold_insn ctx)\<lparr>i_op := i_op a, i_type := i_type a, i_n := i_n a,
     i_op1 := i_op1 a, i_op2 := i_op2 a, i_op3 := i_op3 a\<rparr>\<rparr>"

text \<open>The labels of \<open>ir_folding\<close> other than \<open>restart\<close>; \<open>None\<close> asks for another round.\<close>

definition fold_leave :: "ir_ctx \<Rightarrow> ir_insn \<Rightarrow> fold_result \<Rightarrow> fold_exit option" where
  "fold_leave ctx a r =
     (if use_lists ctx = None then
        (case r of
           Fold_Restart ctx' a' \<Rightarrow> None
         | Fold_Next \<Rightarrow> (let (ctx, ref) = fold_cse_emit ctx a in Some (Fold_Ref ctx ref))
         | Fold_Emit a' \<Rightarrow> (let (ctx, ref) = ir_emit ctx (i_op a') (i_type a') (i_n a') (i_op1 a') (i_op2 a') (i_op3 a')
                         in Some (Fold_Ref ctx ref))
         | Fold_Copy ref \<Rightarrow> Some (Fold_Ref ctx ref)
         | Fold_Const v \<Rightarrow> (let (ctx, ref) = ir_const ctx v (i_type a) in Some (Fold_Ref ctx ref))
         | Fold_UB \<Rightarrow> Some Fold_Undefined)
      else
        (case r of
           Fold_Restart ctx' a' \<Rightarrow> Some (Fold_Action (fold_store ctx' a') IR_FOLD_DO_RESTART)
         | Fold_Next \<Rightarrow> Some (Fold_Action (fold_store ctx a) IR_FOLD_DO_CSE)
         | Fold_Emit a' \<Rightarrow> Some (Fold_Action (fold_store ctx a') IR_FOLD_DO_EMIT)
         | Fold_Copy ref \<Rightarrow> Some (Fold_Action (ctx\<lparr>fold_insn := (fold_insn ctx)\<lparr>i_op1 := ref\<rparr>\<rparr>) IR_FOLD_DO_COPY)
         | Fold_Const v \<Rightarrow> Some (Fold_Action (ctx\<lparr>fold_insn := (fold_insn ctx)\<lparr>i_op := ir_type_num (i_type a),
             i_type := i_type a, i_val := v\<rparr>\<rparr>) IR_FOLD_DO_CONST)
         | Fold_UB \<Rightarrow> Some Fold_Undefined))"

primrec ir_folding :: "nat \<Rightarrow> host \<Rightarrow> ir_ctx \<Rightarrow> ir_insn \<Rightarrow> ir_insn \<Rightarrow> ir_insn \<Rightarrow> ir_insn \<Rightarrow> fold_exit option" where
  "ir_folding 0 h ctx a x y z = None"
| "ir_folding (Suc fuel) h ctx a x y z =
     (let r = fold_dispatch h ctx a x y z
      in case fold_leave ctx a r of
           Some e \<Rightarrow> Some e
         | None \<Rightarrow> (case r of
             Fold_Restart ctx' a' \<Rightarrow> ir_folding fuel h ctx' a'
               (ir_base ctx' (i_op1 a')) (ir_base ctx' (i_op2 a')) (ir_base ctx' (i_op3 a'))
           | _ \<Rightarrow> None))"

definition ir_fold :: "nat \<Rightarrow> host \<Rightarrow> ir_ctx \<Rightarrow> ir_insn \<Rightarrow> fold_exit option" where
  "ir_fold fuel h ctx a =
     (if ctx_flags ctx AND IR_OPT_FOLDING = 0 then
        (let n = (if i_op a = IR_PHI then i_n a OR 3 else i_n a);
             (ctx, ref) = ir_emit ctx (i_op a) (i_type a) n (i_op1 a) (i_op2 a) (i_op3 a)
         in Some (Fold_Ref ctx ref))
      else ir_folding fuel h ctx a (ir_base ctx (i_op1 a)) (ir_base ctx (i_op2 a)) (ir_base ctx (i_op3 a)))"

definition ir_fold0 :: "nat \<Rightarrow> host \<Rightarrow> ir_ctx \<Rightarrow> ir_op \<Rightarrow> ir_type \<Rightarrow> fold_exit option" where
  "ir_fold0 fuel h ctx op t = ir_fold fuel h ctx (mk_insn op t 0 IR_UNUSED IR_UNUSED IR_UNUSED)"
definition ir_fold1 :: "nat \<Rightarrow> host \<Rightarrow> ir_ctx \<Rightarrow> ir_op \<Rightarrow> ir_type \<Rightarrow> ir_ref \<Rightarrow> fold_exit option" where
  "ir_fold1 fuel h ctx op t op1 = ir_fold fuel h ctx (mk_insn op t 0 op1 IR_UNUSED IR_UNUSED)"
definition ir_fold2 :: "nat \<Rightarrow> host \<Rightarrow> ir_ctx \<Rightarrow> ir_op \<Rightarrow> ir_type \<Rightarrow> ir_ref \<Rightarrow> ir_ref \<Rightarrow> fold_exit option" where
  "ir_fold2 fuel h ctx op t op1 op2 = ir_fold fuel h ctx (mk_insn op t 0 op1 op2 IR_UNUSED)"
definition ir_fold3 :: "nat \<Rightarrow> host \<Rightarrow> ir_ctx \<Rightarrow> ir_op \<Rightarrow> ir_type \<Rightarrow> ir_ref \<Rightarrow> ir_ref \<Rightarrow> ir_ref \<Rightarrow> fold_exit option" where
  "ir_fold3 fuel h ctx op t op1 op2 op3 = ir_fold fuel h ctx (mk_insn op t 0 op1 op2 op3)"

text \<open>The instructions a fold passes through, with the contexts they live in.\<close>

primrec fold_trace :: "nat \<Rightarrow> host \<Rightarrow> ir_ctx \<Rightarrow> ir_insn \<Rightarrow> (ir_ctx \<times> ir_insn) list" where
  "fold_trace 0 h ctx a = []"
| "fold_trace (Suc fuel) h ctx a = (ctx, a) #
     (case fold_dispatch h ctx a (ir_base ctx (i_op1 a)) (ir_base ctx (i_op2 a)) (ir_base ctx (i_op3 a)) of
        Fold_Restart ctx' a' \<Rightarrow> fold_trace fuel h ctx' a'
      | _ \<Rightarrow> [])"

lemma fold_find_Some: "fold_find Rs k = Some b \<Longrightarrow> \<exists>R\<in>set Rs. k \<in> set (fst R) \<and> b = snd R"
  by (induction Rs) (auto split: if_splits)

lemma fold_try_cases:
  "fold_try ks h ctx a x y z = Fold_Next \<or>
   (\<exists>k\<in>set ks. \<exists>R\<in>set fold_table. k \<in> set (fst R) \<and> fold_try ks h ctx a x y z = snd R h ctx a x y z)"
  by (induction ks) (auto split: option.splits fold_result.splits dest!: fold_find_Some)

end
