(* ===== verification/Const_Pool.thy ===== *)
theory Const_Pool
  imports Context
begin

text \<open>
  The constant pool as an interned set: the representation invariant of the hash chains built by
  \<open>ir_const_ex\<close> and \<open>ir_const_hash_rehash\<close> (src/ir.c), that every operation keeps it, and what it
  gives: a constant is found again, and no constant is stored twice.
\<close>

section \<open>Chains\<close>

function const_chain :: "(ir_ref \<Rightarrow> ir_insn) \<Rightarrow> ir_ref \<Rightarrow> ir_ref list" where
  "const_chain base ref =
     (if ref = 0 then []
      else ref # (if ref < i_op1 (base ref) \<and> i_op1 (base ref) \<le> 0 then const_chain base (i_op1 (base ref)) else []))"
  by pat_completeness auto
termination
  by (relation "measure (\<lambda>(base, ref). nat (- ref))") auto

declare const_chain.simps [simp del]

definition same_const :: "u64 \<Rightarrow> ir_op \<Rightarrow> ir_type \<Rightarrow> nat \<Rightarrow> ir_insn \<Rightarrow> bool" where
  "same_const v op t n i \<longleftrightarrow> i_val i = v \<and> i_op i = op \<and> i_type i = t \<and> i_n i = n"

lemma const_chain_0 [simp]: "const_chain base 0 = []"
  by (subst const_chain.simps) simp

lemma const_chain_hd: "ref \<noteq> 0 \<Longrightarrow> ref \<in> set (const_chain base ref)"
  by (subst const_chain.simps) simp

lemma const_chain_find_eq:
  "const_chain_find base v op t n ref =
     (case find (\<lambda>r. same_const v op t n (base r)) (const_chain base ref) of None \<Rightarrow> 0 | Some r \<Rightarrow> r)"
proof (induction base v op t n ref rule: const_chain_find.induct)
  case (1 base v op t n ref)
  then show ?case
    by (subst const_chain_find.simps, subst const_chain.simps) (auto simp: same_const_def)
qed

lemma const_chain_upd:
  "r \<notin> set (const_chain base ref) \<Longrightarrow> const_chain (base(r := i)) ref = const_chain base ref"
proof (induction base ref rule: const_chain.induct)
  case (1 base ref)
  show ?case
  proof (cases "ref = 0")
    case False
    then have "r \<noteq> ref" using 1(2) const_chain_hd by blast
    then show ?thesis using False 1 
      by (subst const_chain.simps, subst (2) const_chain.simps)
         (auto simp: const_chain.simps [of base ref] fun_upd_def)
  qed simp
qed

section \<open>The invariant\<close>

text \<open>
  \<open>chains_ok m base msk hash\<close>: the buckets partition the references \<open>-m < r \<le> -4\<close> (the three
  predefined constants are not hashed) by their hash, and links lead towards older constants.
\<close>

definition bucket :: "u64 \<Rightarrow> ir_insn \<Rightarrow> u64" where
  "bucket msk i = insn_hash i AND msk"

definition chains_ok :: "int \<Rightarrow> (ir_ref \<Rightarrow> ir_insn) \<Rightarrow> u64 \<Rightarrow> (u64 \<Rightarrow> ir_ref) \<Rightarrow> bool" where
  "chains_ok m base msk hash \<longleftrightarrow>
     (\<forall>h. set (const_chain base (hash h)) = {r. - m < r \<and> r \<le> -4 \<and> bucket msk (base r) = h})"

text \<open>What a pool entry looks like: a numeric constant carries the opcode of its type.\<close>

definition const_ok :: "ir_insn \<Rightarrow> bool" where
  "const_ok i \<longleftrightarrow>
     i_op i = ir_type_num (i_type i) \<and> i_type i \<noteq> IR_VOID \<and> i_type i \<noteq> IR_BOOL \<or>
     i_type i = IR_ADDR \<and> (i_op i = IR_FUNC_ADDR \<or> IR_IS_SYM_CONST (i_op i))"

definition predefined_ok :: "(ir_ref \<Rightarrow> ir_insn) \<Rightarrow> bool" where
  "predefined_ok base \<longleftrightarrow>
     i_op (base IR_NULL) = IR_C_ADDR \<and> i_type (base IR_NULL) = IR_ADDR \<and> i_val (base IR_NULL) = 0 \<and>
     i_op (base IR_FALSE) = IR_C_BOOL \<and> i_type (base IR_FALSE) = IR_BOOL \<and> i_val (base IR_FALSE) = 0 \<and>
     i_op (base IR_TRUE) = IR_C_BOOL \<and> i_type (base IR_TRUE) = IR_BOOL \<and> i_val (base IR_TRUE) = 1"

definition const_key :: "ir_insn \<Rightarrow> u64 \<times> ir_op \<times> ir_type \<times> nat" where
  "const_key i = (i_val i, i_op i, i_type i, i_n i)"

definition pool_ok :: "ir_ctx \<Rightarrow> bool" where
  "pool_ok ctx \<longleftrightarrow>
     4 \<le> consts_count ctx \<and> predefined_ok (ir_base ctx) \<and>
     (\<forall>r. - consts_count ctx < r \<and> r \<le> -4 \<longrightarrow> const_ok (ir_base ctx r)) \<and>
     chains_ok (consts_count ctx) (ir_base ctx) (const_hash_mask ctx) (const_hash ctx) \<and>
     inj_on (\<lambda>r. const_key (ir_base ctx r)) {r. - consts_count ctx < r \<and> r \<le> -4}"

lemma bucket_op1 [simp]: "bucket msk (i\<lparr>i_op1 := p\<rparr>) = bucket msk i"
  by (simp add: bucket_def insn_hash_def)

lemma chains_head:
  assumes "chains_ok m base msk hash"
  shows "hash h = 0 \<or> - m < hash h \<and> hash h \<le> -4 \<and> bucket msk (base (hash h)) = h"
  using assms const_chain_hd [of "hash h" base] by (auto simp: chains_ok_def)

text \<open>Linking a new entry at the head of its bucket.\<close>

lemma chains_insert:
  assumes "chains_ok m base msk hash" "4 \<le> m"
    and "i_op1 i = hash (bucket msk i)"
  shows "chains_ok (m + 1) (base(- m := i)) msk (hash(bucket msk i := - m))"
  unfolding chains_ok_def
proof
  fix h
  let ?base = "base(- m := i)" and ?b = "bucket msk i"
  have sets: "set (const_chain base (hash g)) = {r. - m < r \<and> r \<le> -4 \<and> bucket msk (base r) = g}" for g
    using assms(1) by (simp add: chains_ok_def)
  then have same: "const_chain ?base (hash g) = const_chain base (hash g)" for g
    by (intro const_chain_upd) auto
  have link: "- m < i_op1 i \<and> i_op1 i \<le> 0"
    using chains_head [OF assms(1), of ?b] assms(2,3) by auto
  have "const_chain ?base (- m) = - m # const_chain ?base (i_op1 i)"
    using assms(2) link by (subst const_chain.simps) auto
  then have head: "const_chain ?base (- m) = - m # const_chain base (hash ?b)"
    using same assms(3) by simp
  have split: "{r. - (m + 1) < r \<and> r \<le> -4 \<and> bucket msk (?base r) = h} =
      (if h = ?b then {- m} else {}) \<union> {r. - m < r \<and> r \<le> -4 \<and> bucket msk (base r) = h}"
    using assms(2) by auto
  show "set (const_chain ?base ((hash(?b := - m)) h)) =
      {r. - (m + 1) < r \<and> r \<le> -4 \<and> bucket msk (?base r) = h}"
    unfolding split using head sets [of h] same [of h] by (cases "h = ?b") simp_all
qed

lemma chains_empty: "chains_ok 4 base msk (\<lambda>_. 0)"
  by (auto simp: chains_ok_def)

lemma pool_ok_init: "pool_ok (ir_init mem flags climit ilimit)"
  by (auto simp: pool_ok_def ir_init_def predefined_ok_def chains_empty mk_const_def inj_on_def)

section \<open>Rehashing\<close>

definition rehash_from :: "ir_ctx \<Rightarrow> nat \<Rightarrow> ir_ctx" where
  "rehash_from ctx k = fold rehash_one (map (\<lambda>i. - (int i + 4)) [0..<k]) ctx"

lemma rehash_from_Suc: "rehash_from ctx (Suc k) = rehash_one (- (int k + 4)) (rehash_from ctx k)"
  by (simp add: rehash_from_def)

lemma rehash_one_fields [simp]:
  "consts_count (rehash_one r ctx) = consts_count ctx"
  "consts_limit (rehash_one r ctx) = consts_limit ctx"
  "insns_count (rehash_one r ctx) = insns_count ctx"
  "insns_limit (rehash_one r ctx) = insns_limit ctx"
  "const_hash_mask (rehash_one r ctx) = const_hash_mask ctx"
  "use_lists (rehash_one r ctx) = use_lists ctx"
  "prev_insn_chain (rehash_one r ctx) = prev_insn_chain ctx"
  "fold_cse_limit (rehash_one r ctx) = fold_cse_limit ctx"
  "ctx_flags (rehash_one r ctx) = ctx_flags ctx"
  by (simp_all add: rehash_one_def Let_def)

lemma rehash_one_base:
  "ir_base (rehash_one r ctx) = (ir_base ctx)(r := (ir_base ctx r)\<lparr>i_op1 := i_op1 (ir_base (rehash_one r ctx) r)\<rparr>)"
  by (simp add: rehash_one_def Let_def)

lemma rehash_from_fields [simp]:
  "consts_count (rehash_from ctx k) = consts_count ctx"
  "consts_limit (rehash_from ctx k) = consts_limit ctx"
  "insns_count (rehash_from ctx k) = insns_count ctx"
  "insns_limit (rehash_from ctx k) = insns_limit ctx"
  "const_hash_mask (rehash_from ctx k) = const_hash_mask ctx"
  "use_lists (rehash_from ctx k) = use_lists ctx"
  "prev_insn_chain (rehash_from ctx k) = prev_insn_chain ctx"
  "fold_cse_limit (rehash_from ctx k) = fold_cse_limit ctx"
  "ctx_flags (rehash_from ctx k) = ctx_flags ctx"
  by (induction k) (simp_all add: rehash_from_Suc, simp_all add: rehash_from_def)

text \<open>Only the links of the rehashed entries change.\<close>

definition same_but_op1 :: "ir_insn \<Rightarrow> ir_insn \<Rightarrow> bool" where
  "same_but_op1 i j \<longleftrightarrow> i\<lparr>i_op1 := 0\<rparr> = j\<lparr>i_op1 := 0\<rparr>"

lemma same_but_op1_fields:
  "same_but_op1 i j \<Longrightarrow> i_op i = i_op j \<and> i_type i = i_type j \<and> i_n i = i_n j \<and> i_val i = i_val j
     \<and> i_op2 i = i_op2 j \<and> i_op3 i = i_op3 j"
  by (cases i; cases j) (simp add: same_but_op1_def)

lemma same_but_op1_refl [simp]: "same_but_op1 i i" "same_but_op1 (i\<lparr>i_op1 := p\<rparr>) i"
  by (simp_all add: same_but_op1_def)

lemma same_but_op1_trans: "same_but_op1 i j \<Longrightarrow> same_but_op1 j k \<Longrightarrow> same_but_op1 i k"
  by (simp add: same_but_op1_def)

lemma rehash_from_base:
  "same_but_op1 (ir_base (rehash_from ctx k) r) (ir_base ctx r)"
  "-4 < r \<Longrightarrow> ir_base (rehash_from ctx k) r = ir_base ctx r"
proof (induction k)
  case (Suc k)
  { case 1
    show ?case
      using Suc(1) by (subst rehash_from_Suc, subst rehash_one_base)
        (auto intro: same_but_op1_trans [OF same_but_op1_refl(2)]) }
  { case 2
    then show ?case using Suc(2) by (subst rehash_from_Suc, subst rehash_one_base) auto }
qed (simp_all add: rehash_from_def)

lemma rehash_from_chains:
  assumes "const_hash ctx = (\<lambda>_. 0)"
  shows "chains_ok (int k + 4) (ir_base (rehash_from ctx k)) (const_hash_mask ctx) (const_hash (rehash_from ctx k))"
proof (induction k)
  case 0
  then show ?case using assms by (simp add: rehash_from_def chains_empty)
next
  case (Suc k)
  let ?c = "rehash_from ctx k" and ?r = "- (int k + 4)"
  let ?b = "bucket (const_hash_mask ctx) (ir_base ?c ?r)"
  let ?i = "(ir_base ?c ?r)\<lparr>i_op1 := const_hash ?c ?b\<rparr>"
  have step: "rehash_one ?r ?c = ?c\<lparr>ir_base := (ir_base ?c)(?r := ?i), const_hash := (const_hash ?c)(?b := ?r)\<rparr>"
    unfolding rehash_one_def bucket_def Let_def by simp
  have ins: "chains_ok (int k + 4 + 1) ((ir_base ?c)(?r := ?i)) (const_hash_mask ctx)
      ((const_hash ?c)(bucket (const_hash_mask ctx) ?i := ?r))"
    using Suc by (rule chains_insert) simp_all
  have "int (Suc k) + 4 = int k + 4 + 1" by simp
  then show ?case unfolding rehash_from_Suc step using ins by (simp add: fun_upd_def)
qed

lemma rehash_eq:
  "ir_const_hash_rehash ctx = rehash_from
     (ctx\<lparr>const_hash_mask := (const_hash_mask ctx + 1) * 2 - 1, const_hash := (\<lambda>_. 0)\<rparr>)
     (nat (consts_count ctx - 4))"
proof -
  have "(\<lambda>i. IR_TRUE - 1 - int i) = (\<lambda>i. - (int i + 4))" by auto
  then show ?thesis unfolding ir_const_hash_rehash_def rehash_from_def by simp
qed

lemma const_ok_same: "same_but_op1 i j \<Longrightarrow> const_ok i = const_ok j"
  by (auto simp: const_ok_def dest: same_but_op1_fields)

lemma const_key_same: "same_but_op1 i j \<Longrightarrow> const_key i = const_key j"
  by (auto simp: const_key_def dest: same_but_op1_fields)

lemma rehash_pool_ok: "pool_ok ctx \<Longrightarrow> pool_ok (ir_const_hash_rehash ctx)"
proof -
  assume ok: "pool_ok ctx"
  define d where "d = ctx\<lparr>const_hash_mask := (const_hash_mask ctx + 1) * 2 - 1, const_hash := (\<lambda>_. 0)\<rparr>"
  define k where "k = nat (consts_count ctx - 4)"
  have d: "ir_base d = ir_base ctx" "consts_count d = consts_count ctx" "const_hash d = (\<lambda>_. 0)"
    by (simp_all add: d_def)
  have n: "int k + 4 = consts_count ctx" using ok by (simp add: pool_ok_def k_def)
  have base: "same_but_op1 (ir_base (rehash_from d k) r) (ir_base ctx r)" for r
    using rehash_from_base(1) [of d k r] d by simp
  have pre: "ir_base (rehash_from d k) r = ir_base ctx r" if "-4 < r" for r
    using rehash_from_base(2) [of r d k] that d by simp
  have "chains_ok (consts_count ctx) (ir_base (rehash_from d k)) (const_hash_mask d) (const_hash (rehash_from d k))"
    using rehash_from_chains [of d k] n d by simp
  moreover have "predefined_ok (ir_base (rehash_from d k))"
    using ok by (simp add: predefined_ok_def pool_ok_def pre)
  moreover have "const_ok (ir_base (rehash_from d k) r) = const_ok (ir_base ctx r)"
    "const_key (ir_base (rehash_from d k) r) = const_key (ir_base ctx r)" for r
    using const_ok_same const_key_same base by blast+
  ultimately have "pool_ok (rehash_from d k)" using ok d by (simp add: pool_ok_def)
  then show ?thesis by (simp add: rehash_eq d_def k_def)
qed

lemma rehash_base:
  "same_but_op1 (ir_base (ir_const_hash_rehash ctx) r) (ir_base ctx r)"
  "-4 < r \<Longrightarrow> ir_base (ir_const_hash_rehash ctx) r = ir_base ctx r"
  using rehash_from_base(1) [of "ctx\<lparr>const_hash_mask := (const_hash_mask ctx + 1) * 2 - 1, const_hash := (\<lambda>_. 0)\<rparr>"]
    rehash_from_base(2) [of r "ctx\<lparr>const_hash_mask := (const_hash_mask ctx + 1) * 2 - 1, const_hash := (\<lambda>_. 0)\<rparr>"]
  by (simp_all add: rehash_eq)

lemma rehash_fields [simp]:
  "consts_count (ir_const_hash_rehash ctx) = consts_count ctx"
  "consts_limit (ir_const_hash_rehash ctx) = consts_limit ctx"
  "insns_count (ir_const_hash_rehash ctx) = insns_count ctx"
  "insns_limit (ir_const_hash_rehash ctx) = insns_limit ctx"
  "use_lists (ir_const_hash_rehash ctx) = use_lists ctx"
  "prev_insn_chain (ir_const_hash_rehash ctx) = prev_insn_chain ctx"
  "fold_cse_limit (ir_const_hash_rehash ctx) = fold_cse_limit ctx"
  "ctx_flags (ir_const_hash_rehash ctx) = ctx_flags ctx"
  by (simp_all add: rehash_eq)

section \<open>Interning\<close>

text \<open>How a context changes when constants are added.\<close>

definition pool_ext :: "ir_ctx \<Rightarrow> ir_ctx \<Rightarrow> bool" where
  "pool_ext ctx ctx' \<longleftrightarrow>
     consts_count ctx \<le> consts_count ctx' \<and>
     (\<forall>r. -4 < r \<longrightarrow> ir_base ctx' r = ir_base ctx r) \<and>
     (\<forall>r. - consts_count ctx < r \<longrightarrow> same_but_op1 (ir_base ctx' r) (ir_base ctx r)) \<and>
     insns_count ctx' = insns_count ctx \<and> insns_limit ctx' = insns_limit ctx \<and>
     use_lists ctx' = use_lists ctx \<and> prev_insn_chain ctx' = prev_insn_chain ctx \<and>
     fold_cse_limit ctx' = fold_cse_limit ctx \<and> ctx_flags ctx' = ctx_flags ctx"

lemma pool_ext_refl [simp]: "pool_ext ctx ctx"
  by (simp add: pool_ext_def)

lemma pool_ext_trans:
  assumes "pool_ext a b" "pool_ext b c"
  shows "pool_ext a c"
proof -
  have "same_but_op1 (ir_base c r) (ir_base a r)" if "- consts_count a < r" for r
    using assms that same_but_op1_trans [of "ir_base c r" "ir_base b r"] unfolding pool_ext_def by simp
  then show ?thesis using assms unfolding pool_ext_def by auto
qed

lemma pool_ext_rehash: "pool_ext ctx (ir_const_hash_rehash ctx)"
  by (simp add: pool_ext_def rehash_base)

text \<open>The two outcomes of the chain walk.\<close>

lemma find_const:
  fixes v :: u64 and op :: ir_op and t :: ir_type and n :: nat and ctx :: ir_ctx
  assumes "pool_ok ctx"
  defines "full \<equiv> ir_const_hash v (IR_OPTX op t n)"
  defines "r \<equiv> const_chain_find (ir_base ctx) v op t n (const_hash ctx (full AND const_hash_mask ctx))"
  shows "r \<noteq> 0 \<Longrightarrow> - consts_count ctx < r \<and> r \<le> -4 \<and> same_const v op t n (ir_base ctx r)"
    and "r = 0 \<Longrightarrow> - consts_count ctx < s \<Longrightarrow> s \<le> -4 \<Longrightarrow> \<not> same_const v op t n (ir_base ctx s)"
proof -
  let ?h = "full AND const_hash_mask ctx"
  let ?c = "const_chain (ir_base ctx) (const_hash ctx ?h)"
  have set_c: "set ?c = {r. - consts_count ctx < r \<and> r \<le> -4 \<and> bucket (const_hash_mask ctx) (ir_base ctx r) = ?h}"
    using assms(1) by (simp add: pool_ok_def chains_ok_def)
  have r: "r = (case find (\<lambda>r. same_const v op t n (ir_base ctx r)) ?c of None \<Rightarrow> 0 | Some r \<Rightarrow> r)"
    unfolding r_def by (rule const_chain_find_eq)
  { assume "r \<noteq> 0"
    then have "find (\<lambda>r. same_const v op t n (ir_base ctx r)) ?c = Some r"
      using r by (auto split: option.splits)
    then have "r \<in> set ?c \<and> same_const v op t n (ir_base ctx r)"
      by (auto simp: find_Some_iff)
    then show "- consts_count ctx < r \<and> r \<le> -4 \<and> same_const v op t n (ir_base ctx r)"
      using set_c by auto }
  { assume "r = 0" and s: "- consts_count ctx < s" "s \<le> -4"
    have "find (\<lambda>r. same_const v op t n (ir_base ctx r)) ?c = None"
    proof (rule ccontr)
      assume "find (\<lambda>r. same_const v op t n (ir_base ctx r)) ?c \<noteq> None"
      then obtain q where q: "find (\<lambda>r. same_const v op t n (ir_base ctx r)) ?c = Some q" by blast
      then have "q \<in> set ?c" by (auto simp: find_Some_iff)
      moreover have "q = 0" using \<open>r = 0\<close> r q by simp
      ultimately show False using set_c by auto
    qed
    then have "\<not> same_const v op t n (ir_base ctx s) \<or> s \<notin> set ?c" by (auto simp: find_None_iff)
    moreover have "same_const v op t n (ir_base ctx s) \<Longrightarrow> s \<in> set ?c"
      using set_c s by (auto simp: same_const_def bucket_def insn_hash_def full_def)
    ultimately show "\<not> same_const v op t n (ir_base ctx s)" by blast }
qed

text \<open>Appending a constant that is not in the pool yet.\<close>

definition add_const :: "ir_ctx \<Rightarrow> ir_insn \<Rightarrow> ir_ctx" where
  "add_const ctx i = (let b = bucket (const_hash_mask ctx) i; m = consts_count ctx in
     ctx\<lparr>const_hash := (const_hash ctx)(b := - m),
         ir_base := (ir_base ctx)(- m := i\<lparr>i_op1 := const_hash ctx b\<rparr>),
         consts_count := m + 1,
         consts_limit := (if m \<ge> consts_limit ctx then grow_limit (consts_limit ctx) else consts_limit ctx)\<rparr>)"

lemma const_key_op1 [simp]: "const_key (i\<lparr>i_op1 := p\<rparr>) = const_key i"
  by (simp add: const_key_def)

lemma const_ok_op1 [simp]: "const_ok (i\<lparr>i_op1 := p\<rparr>) = const_ok i"
  by (simp add: const_ok_def)

lemma add_const_pool_ok:
  assumes ok: "pool_ok ctx" and i: "const_ok i"
    and new: "\<And>s. - consts_count ctx < s \<Longrightarrow> s \<le> -4 \<Longrightarrow> const_key (ir_base ctx s) \<noteq> const_key i"
  shows "pool_ok (add_const ctx i)"
proof -
  let ?m = "consts_count ctx" and ?b = "bucket (const_hash_mask ctx) i"
  let ?i = "i\<lparr>i_op1 := const_hash ctx ?b\<rparr>"
  have m: "4 \<le> ?m" using ok by (simp add: pool_ok_def)
  have "chains_ok (?m + 1) ((ir_base ctx)(- ?m := ?i)) (const_hash_mask ctx) ((const_hash ctx)(bucket (const_hash_mask ctx) ?i := - ?m))"
    using ok m by (intro chains_insert) (simp_all add: pool_ok_def)
  moreover have "predefined_ok ((ir_base ctx)(- ?m := ?i))"
    using ok m by (simp add: pool_ok_def predefined_ok_def)
  moreover have "\<forall>r. - (?m + 1) < r \<and> r \<le> -4 \<longrightarrow> const_ok (((ir_base ctx)(- ?m := ?i)) r)"
    using ok i by (auto simp: pool_ok_def)
  moreover have "inj_on (\<lambda>r. const_key (((ir_base ctx)(- ?m := ?i)) r)) {r. - (?m + 1) < r \<and> r \<le> -4}"
  proof -
    have "{r. - (?m + 1) < r \<and> r \<le> -4} = insert (- ?m) {r. - ?m < r \<and> r \<le> -4}" using m by auto
    moreover have "inj_on (\<lambda>r. const_key (((ir_base ctx)(- ?m := ?i)) r)) {r. - ?m < r \<and> r \<le> -4}"
      using ok by (auto simp: pool_ok_def inj_on_def)
    ultimately show ?thesis using new [THEN not_sym] by (auto simp: inj_on_insert)
  qed
  ultimately show ?thesis using m by (simp add: pool_ok_def add_const_def Let_def fun_upd_def)
qed

lemma add_const_ext: "pool_ok ctx \<Longrightarrow> pool_ext ctx (add_const ctx i)"
  by (auto simp: pool_ext_def add_const_def Let_def pool_ok_def)

lemma ir_const_ex_eq:
  fixes v :: u64 and op :: ir_op and t :: ir_type and n :: nat and ctx :: ir_ctx
  assumes "t \<noteq> IR_BOOL" "\<not> (t = IR_ADDR \<and> v = 0)"
  defines "full \<equiv> ir_const_hash v (IR_OPTX op t n)"
  defines "found \<equiv> const_chain_find (ir_base ctx) v op t n (const_hash ctx (full AND const_hash_mask ctx))"
  defines "ctx1 \<equiv> if consts_count ctx > uint (const_hash_mask ctx) then ir_const_hash_rehash ctx else ctx"
  shows "ir_const_ex ctx v t op n =
    (if found \<noteq> 0 then (ctx, found) else (add_const ctx1 (mk_const op t n 0 v), - consts_count ctx))"
  using assms(1,2)
  by (auto simp: ir_const_ex_def Let_def full_def found_def ctx1_def add_const_def ir_next_const_def
      ir_grow_bottom_def bucket_def insn_hash_def mk_const_def)

text \<open>What a client of the pool gets: the reference it names the constant by.\<close>

definition names :: "ir_ctx \<Rightarrow> ir_ref \<Rightarrow> u64 \<Rightarrow> ir_op \<Rightarrow> ir_type \<Rightarrow> nat \<Rightarrow> bool" where
  "names ctx r v op t n \<longleftrightarrow> - consts_count ctx < r \<and> r < 0 \<and>
     (if t = IR_BOOL then r = (if v \<noteq> 0 then IR_TRUE else IR_FALSE)
      else if t = IR_ADDR \<and> v = 0 then r = IR_NULL
      else r \<le> -4 \<and> same_const v op t n (ir_base ctx r))"

lemma ir_const_ex_spec:
  assumes ok: "pool_ok ctx" and c: "t = IR_BOOL \<or> const_ok (mk_const op t n 0 v)"
    and run: "ir_const_ex ctx v t op n = (ctx', r)"
  shows "pool_ok ctx' \<and> pool_ext ctx ctx' \<and> names ctx' r v op t n"
proof (cases "t = IR_BOOL \<or> t = IR_ADDR \<and> v = 0")
  case True
  then show ?thesis using ok run by (auto simp: ir_const_ex_def names_def pool_ok_def split: if_splits)
next
  case False
  let ?h = "ir_const_hash v (IR_OPTX op t n) AND const_hash_mask ctx"
  let ?found = "const_chain_find (ir_base ctx) v op t n (const_hash ctx ?h)"
  let ?ctx1 = "if consts_count ctx > uint (const_hash_mask ctx) then ir_const_hash_rehash ctx else ctx"
  have eq: "ir_const_ex ctx v t op n =
    (if ?found \<noteq> 0 then (ctx, ?found) else (add_const ?ctx1 (mk_const op t n 0 v), - consts_count ctx))"
    using False by (intro ir_const_ex_eq) auto
  show ?thesis
  proof (cases "?found = 0")
    case found: False
    then show ?thesis using find_const(1) [OF ok found] run eq False ok by (auto simp: names_def)
  next
    case new: True
    have ok1: "pool_ok ?ctx1" using ok rehash_pool_ok by auto
    have ext1: "pool_ext ctx ?ctx1" using pool_ext_rehash by auto
    have "const_key (ir_base ?ctx1 s) = const_key (ir_base ctx s)" for s
      using const_key_same rehash_base(1) by auto
    then have fresh: "const_key (ir_base ?ctx1 s) \<noteq> const_key (mk_const op t n 0 v)"
      if "- consts_count ?ctx1 < s" "s \<le> -4" for s
      using find_const(2) [OF ok new _ that(2)] that(1)
      by (auto simp: const_key_def same_const_def mk_const_def split: if_splits)
    have "pool_ok (add_const ?ctx1 (mk_const op t n 0 v))"
      using ok1 c False fresh by (intro add_const_pool_ok) auto
    moreover have "pool_ext ctx (add_const ?ctx1 (mk_const op t n 0 v))"
      using ext1 add_const_ext [OF ok1] pool_ext_trans by blast
    moreover have "names (add_const ?ctx1 (mk_const op t n 0 v)) (- consts_count ctx) v op t n"
      using ok False by (auto simp: names_def add_const_def Let_def same_const_def mk_const_def pool_ok_def)
    ultimately show ?thesis using run eq new by auto
  qed
qed

text \<open>A constant that is in the pool is found, and the context stays as it is.\<close>

lemma ir_const_ex_again:
  assumes ok: "pool_ok ctx" and r: "names ctx r v op t n"
  shows "ir_const_ex ctx v t op n = (ctx, r)"
proof (cases "t = IR_BOOL \<or> t = IR_ADDR \<and> v = 0")
  case True
  then show ?thesis using r by (auto simp: ir_const_ex_def names_def)
next
  case False
  let ?found = "const_chain_find (ir_base ctx) v op t n
    (const_hash ctx (ir_const_hash v (IR_OPTX op t n) AND const_hash_mask ctx))"
  have rr: "- consts_count ctx < r" "r \<le> -4" "same_const v op t n (ir_base ctx r)"
    using r False by (auto simp: names_def)
  then have f: "?found \<noteq> 0" using find_const(2) [OF ok _ rr(1,2)] by blast
  moreover have "?found = r"
    using find_const(1) [OF ok f] rr ok unfolding pool_ok_def inj_on_def
    by (auto simp: const_key_def same_const_def)
  ultimately show ?thesis using False by (subst ir_const_ex_eq) auto
qed

section \<open>Properties\<close>

text \<open>C15: the pool invariant (predefined constants in place, every entry of a constant opcode, the hash
  chains exactly the entries of their bucket, no two equal entries) holds after \<open>ir_init\<close>.\<close>

theorem init_pool_ok: "pool_ok (ir_init mem flags climit ilimit)"
  by (rule pool_ok_init)

text \<open>C13: \<open>ir_const_ex\<close> keeps the invariant, also when it rehashes, only adds to the context, and returns
  a reference that names the constant asked for.\<close>

theorem const_ex_correct:
  assumes "pool_ok ctx" "t = IR_BOOL \<or> const_ok (mk_const op t n 0 v)" "ir_const_ex ctx v t op n = (ctx', r)"
  shows "pool_ok ctx' \<and> pool_ext ctx ctx' \<and> names ctx' r v op t n"
  using assms by (rule ir_const_ex_spec)

theorem const_ex_correct_witness:
  "case ir_const_ex (ir_init (\<lambda>_. MAKE_NOP) 0 4 4) 7 IR_I32 IR_C_I32 0 of (ctx', r) \<Rightarrow>
     pool_ok ctx' \<and> names ctx' r 7 IR_C_I32 IR_I32 0"
proof -
  obtain ctx' r where e: "ir_const_ex (ir_init (\<lambda>_. MAKE_NOP) 0 4 4) 7 IR_I32 IR_C_I32 0 = (ctx', r)" by fastforce
  have "IR_I32 = IR_BOOL \<or> const_ok (mk_const IR_C_I32 IR_I32 0 0 7)" by (simp add: const_ok_def mk_const_def)
  from const_ex_correct [OF pool_ok_init this e] show ?thesis unfolding e by simp
qed

text \<open>C14: asking again for a constant that is in the pool finds it and leaves the context as it is, so
  equal constants have equal references.\<close>

theorem const_ex_interned:
  assumes "pool_ok ctx" "t = IR_BOOL \<or> const_ok (mk_const op t n 0 v)" "ir_const_ex ctx v t op n = (ctx', r)"
  shows "ir_const_ex ctx' v t op n = (ctx', r)"
  using ir_const_ex_spec [OF assms] ir_const_ex_again by blast

theorem const_ex_interned_witness:
  "case ir_const_ex (ir_init (\<lambda>_. MAKE_NOP) 0 4 4) 7 IR_I32 IR_C_I32 0 of (ctx', r) \<Rightarrow>
     ir_const_ex ctx' 7 IR_I32 IR_C_I32 0 = (ctx', r)"
proof -
  obtain ctx' r where e: "ir_const_ex (ir_init (\<lambda>_. MAKE_NOP) 0 4 4) 7 IR_I32 IR_C_I32 0 = (ctx', r)" by fastforce
  have "IR_I32 = IR_BOOL \<or> const_ok (mk_const IR_C_I32 IR_I32 0 0 7)" by (simp add: const_ok_def mk_const_def)
  from const_ex_interned [OF pool_ok_init this e] show ?thesis unfolding e by simp
qed

end
