(* ===== verification/Semantics.thy ===== *)
theory Semantics
  imports Fold_Base Const_Pool
begin

text \<open>
  The meaning of the data instructions, against which the folding rules are verified. A value is a
  bit pattern at the width of its type. An operation is undefined (\<open>None\<close>) where the IR leaves it
  so: division by zero and of the least integer by -1, shift counts of at least the width, absolute
  value of the least integer, a conversion to an integer type that cannot hold the number, a
  pattern other than 0 and 1 turned into a boolean, and operands whose types do not fit. The
  typing is that of \<open>ir_check\<close> (src/ir_check.c), with the 64-bit types \<open>U64\<close>, \<open>I64\<close> and \<open>ADDR\<close>
  interchangeable where the sign does not matter.
\<close>

section \<open>Types of values\<close>

definition wide :: "ir_type \<Rightarrow> bool" where
  "wide t \<longleftrightarrow> t = IR_U64 \<or> t = IR_I64 \<or> t = IR_ADDR"

definition compat :: "ir_type \<Rightarrow> ir_type \<Rightarrow> bool" where
  "compat t u \<longleftrightarrow> t = u \<or> wide t \<and> wide u"

definition int_type :: "ir_type \<Rightarrow> bool" where
  "int_type t \<longleftrightarrow> IR_IS_TYPE_INT t \<and> t \<noteq> IR_VOID"

definition arith_type :: "ir_type \<Rightarrow> bool" where
  "arith_type t \<longleftrightarrow> int_type t \<and> t \<noteq> IR_BOOL"

definition okval :: "ir_type \<Rightarrow> int \<Rightarrow> bool" where
  "okval t v \<longleftrightarrow> (if t = IR_BOOL then v = 0 \<or> v = 1 else fits (type_bits t) v)"

text \<open>The number a pattern stands for.\<close>

definition num :: "ir_type \<Rightarrow> int \<Rightarrow> int" where
  "num t v = (if IR_IS_TYPE_SIGNED t then sval (type_bits t) v else v)"

definition wrap :: "ir_type \<Rightarrow> int \<Rightarrow> int" where
  "wrap t i = take_bit (type_bits t) i"

definition mk_bool :: "ir_type \<Rightarrow> bool \<Rightarrow> int option" where
  "mk_bool t b = (if t = IR_BOOL then Some (of_bool b) else None)"

section \<open>Operations\<close>

definition sem_arith :: "ir_type \<Rightarrow> ir_type \<Rightarrow> ir_type \<Rightarrow> int \<Rightarrow> int \<Rightarrow> int option" where
  "sem_arith t t1 t2 i f =
     (if arith_type t \<and> compat t1 t \<and> compat t2 t then Some (wrap t i)
      else if IR_IS_TYPE_FP t \<and> t1 = t \<and> t2 = t then Some (wrap t f) else None)"

definition div_ok :: "ir_type \<Rightarrow> int \<Rightarrow> int \<Rightarrow> bool" where
  "div_ok t a b \<longleftrightarrow> b \<noteq> 0 \<and> \<not> (IR_IS_TYPE_SIGNED t \<and> a = - (2 ^ (type_bits t - 1)) \<and> b = -1)"

definition sem_div :: "host \<Rightarrow> ir_type \<Rightarrow> ir_type \<Rightarrow> ir_type \<Rightarrow> int \<Rightarrow> int \<Rightarrow> int option" where
  "sem_div h t t1 t2 v1 v2 =
     (if arith_type t \<and> compat t1 t \<and> t2 = t then
        (if div_ok t (num t v1) (num t v2) then Some (wrap t (num t v1 sdiv num t v2)) else None)
      else if IR_IS_TYPE_FP t \<and> t1 = t \<and> t2 = t then Some (wrap t (fp_div h t v1 v2)) else None)"

definition sem_mod :: "ir_type \<Rightarrow> ir_type \<Rightarrow> ir_type \<Rightarrow> int \<Rightarrow> int \<Rightarrow> int option" where
  "sem_mod t t1 t2 v1 v2 =
     (if arith_type t \<and> compat t1 t \<and> t2 = t \<and> div_ok t (num t v1) (num t v2)
      then Some (wrap t (num t v1 smod num t v2)) else None)"

definition sem_bits :: "ir_type \<Rightarrow> ir_type \<Rightarrow> ir_type \<Rightarrow> int \<Rightarrow> int option" where
  "sem_bits t t1 t2 r = (if int_type t \<and> compat t1 t \<and> compat t2 t then Some r else None)"

definition shift_ok :: "ir_type \<Rightarrow> ir_type \<Rightarrow> ir_type \<Rightarrow> int \<Rightarrow> bool" where
  "shift_ok t t1 t2 v2 \<longleftrightarrow>
     arith_type t \<and> compat t1 t \<and> arith_type t2 \<and> t2 \<noteq> IR_ADDR \<and>
     ir_type_size t2 \<le> ir_type_size t \<and> v2 < int (type_bits t)"

definition rol_val :: "nat \<Rightarrow> nat \<Rightarrow> int \<Rightarrow> int" where
  "rol_val n k v = take_bit n (push_bit k v) OR drop_bit (n - k) v"

definition ror_val :: "nat \<Rightarrow> nat \<Rightarrow> int \<Rightarrow> int" where
  "ror_val n k v = drop_bit k v OR take_bit n (push_bit (n - k) v)"

definition sem_minmax :: "ir_type \<Rightarrow> ir_type \<Rightarrow> ir_type \<Rightarrow> int \<Rightarrow> int \<Rightarrow> bool \<Rightarrow> bool \<Rightarrow> int option" where
  "sem_minmax t t1 t2 v1 v2 ci cf =
     (if t1 = t \<and> t2 = t \<and> int_type t then Some (if ci then v1 else v2)
      else if t1 = t \<and> t2 = t \<and> IR_IS_TYPE_FP t then Some (if cf then v1 else v2) else None)"

definition sem_eq :: "ir_type \<Rightarrow> ir_type \<Rightarrow> ir_type \<Rightarrow> bool \<Rightarrow> bool \<Rightarrow> int option" where
  "sem_eq t t1 t2 ci cf =
     (if int_type t1 \<and> compat t1 t2 then mk_bool t ci
      else if IR_IS_TYPE_FP t1 \<and> t1 = t2 then mk_bool t cf else None)"

definition sem_ord :: "ir_type \<Rightarrow> ir_type \<Rightarrow> ir_type \<Rightarrow> bool \<Rightarrow> bool \<Rightarrow> int option" where
  "sem_ord t t1 t2 ci cf = (if t1 = t2 then sem_eq t t1 t2 ci cf else None)"

definition sem_bin :: "host \<Rightarrow> ir_op \<Rightarrow> ir_type \<Rightarrow> ir_type \<Rightarrow> ir_type \<Rightarrow> int \<Rightarrow> int \<Rightarrow> int option" where
  "sem_bin h op t t1 t2 v1 v2 =
     (if op = IR_EQ then sem_eq t t1 t2 (v1 = v2) (fp_eq t1 v1 v2)
      else if op = IR_NE then sem_eq t t1 t2 (v1 \<noteq> v2) (\<not> fp_eq t1 v1 v2)
      else if op = IR_LT then sem_ord t t1 t2 (num t1 v1 < num t1 v2) (fp_lt t1 v1 v2)
      else if op = IR_GE then sem_ord t t1 t2 (num t1 v1 \<ge> num t1 v2) (fp_le t1 v2 v1)
      else if op = IR_LE then sem_ord t t1 t2 (num t1 v1 \<le> num t1 v2) (fp_le t1 v1 v2)
      else if op = IR_GT then sem_ord t t1 t2 (num t1 v1 > num t1 v2) (fp_lt t1 v2 v1)
      else if op = IR_ULT then sem_eq t t1 t2 (v1 < v2) (\<not> fp_le t1 v2 v1)
      else if op = IR_UGE then sem_eq t t1 t2 (v1 \<ge> v2) (\<not> fp_lt t1 v1 v2)
      else if op = IR_ULE then sem_eq t t1 t2 (v1 \<le> v2) (\<not> fp_lt t1 v2 v1)
      else if op = IR_UGT then sem_eq t t1 t2 (v1 > v2) (\<not> fp_le t1 v1 v2)
      else if op = IR_ORDERED then
        (if IR_IS_TYPE_FP t1 \<and> t1 = t2 then mk_bool t (\<not> fp_isnan t1 v1 \<and> \<not> fp_isnan t1 v2) else None)
      else if op = IR_UNORDERED then
        (if IR_IS_TYPE_FP t1 \<and> t1 = t2 then mk_bool t (fp_isnan t1 v1 \<or> fp_isnan t1 v2) else None)
      else if op = IR_ADD then sem_arith t t1 t2 (v1 + v2) (fp_add h t v1 v2)
      else if op = IR_SUB then sem_arith t t1 t2 (v1 - v2) (fp_sub h t v1 v2)
      else if op = IR_MUL then sem_arith t t1 t2 (v1 * v2) (fp_mul h t v1 v2)
      else if op = IR_DIV then sem_div h t t1 t2 v1 v2
      else if op = IR_MOD then sem_mod t t1 t2 v1 v2
      else if op = IR_ADD_OV then (if arith_type t \<and> t1 = t \<and> t2 = t then Some (wrap t (v1 + v2)) else None)
      else if op = IR_SUB_OV then (if arith_type t \<and> t1 = t \<and> t2 = t then Some (wrap t (v1 - v2)) else None)
      else if op = IR_MUL_OV then (if arith_type t \<and> t1 = t \<and> t2 = t then Some (wrap t (v1 * v2)) else None)
      else if op = IR_OR then sem_bits t t1 t2 (v1 OR v2)
      else if op = IR_AND then sem_bits t t1 t2 (v1 AND v2)
      else if op = IR_XOR then sem_bits t t1 t2 (v1 XOR v2)
      else if op = IR_SHL then (if shift_ok t t1 t2 v2 then Some (wrap t (push_bit (nat v2) v1)) else None)
      else if op = IR_SHR then (if shift_ok t t1 t2 v2 then Some (drop_bit (nat v2) v1) else None)
      else if op = IR_SAR then
        (if shift_ok t t1 t2 v2 then Some (wrap t (drop_bit (nat v2) (sval (type_bits t) v1))) else None)
      else if op = IR_ROL then (if shift_ok t t1 t2 v2 then Some (rol_val (type_bits t) (nat v2) v1) else None)
      else if op = IR_ROR then (if shift_ok t t1 t2 v2 then Some (ror_val (type_bits t) (nat v2) v1) else None)
      else if op = IR_MIN then sem_minmax t t1 t2 v1 v2 (num t v1 \<le> num t v2) (fp_le t v1 v2)
      else if op = IR_MAX then sem_minmax t t1 t2 v1 v2 (num t v1 \<ge> num t v2) (fp_le t v2 v1)
      else None)"

definition bswap_val :: "nat \<Rightarrow> int \<Rightarrow> int" where
  "bswap_val k v = (\<Sum>i<k. push_bit (8 * i) (take_bit 8 (drop_bit (8 * (k - 1 - i)) v)))"

definition in_range :: "ir_type \<Rightarrow> int \<Rightarrow> bool" where
  "in_range t i \<longleftrightarrow> (if IR_IS_TYPE_SIGNED t then - (2 ^ (type_bits t - 1)) \<le> i \<and> i < 2 ^ (type_bits t - 1)
     else 0 \<le> i \<and> i < 2 ^ type_bits t)"

definition to_type :: "ir_type \<Rightarrow> int \<Rightarrow> int option" where
  "to_type t v = (if t = IR_BOOL \<and> v \<noteq> 0 \<and> v \<noteq> 1 then None else Some v)"

definition sem_un :: "host \<Rightarrow> ir_op \<Rightarrow> ir_type \<Rightarrow> ir_type \<Rightarrow> int \<Rightarrow> int option" where
  "sem_un h op t t1 v1 =
     (if op = IR_NEG then sem_arith t t1 t (- v1) (fp_neg t v1)
      else if op = IR_ABS then
        (if IR_IS_TYPE_FP t then (if t1 = t then Some (fp_abs t v1) else None)
         else if IR_IS_TYPE_SIGNED t \<and> compat t1 t \<and> num t v1 \<noteq> - (2 ^ (type_bits t - 1))
         then Some (wrap t \<bar>num t v1\<bar>) else None)
      else if op = IR_SEXT then
        (if int_type t \<and> int_type t1 \<and> ir_type_size t1 < ir_type_size t
         then Some (wrap t (sval (type_bits t1) v1)) else None)
      else if op = IR_ZEXT then
        (if int_type t \<and> int_type t1 \<and> ir_type_size t1 < ir_type_size t then Some v1 else None)
      else if op = IR_TRUNC then
        (if int_type t \<and> int_type t1 \<and> ir_type_size t < ir_type_size t1 then to_type t (wrap t v1) else None)
      else if op = IR_BITCAST then
        (if t \<noteq> IR_VOID \<and> t1 \<noteq> IR_VOID \<and> ir_type_size t = ir_type_size t1 then to_type t v1 else None)
      else if op = IR_INT2FP then
        (if IR_IS_TYPE_FP t \<and> int_type t1 then Some (wrap t (fp_of_int h t (num t1 v1))) else None)
      else if op = IR_FP2INT then
        (if arith_type t \<and> t \<noteq> IR_ADDR \<and> IR_IS_TYPE_FP t1 then
           (case fp_trunc h t1 v1 of None \<Rightarrow> None | Some i \<Rightarrow> if in_range t i then Some (wrap t i) else None)
         else None)
      else if op = IR_FP2FP then
        (if IR_IS_TYPE_FP t \<and> IR_IS_TYPE_FP t1
         then Some (if t = t1 then v1 else wrap t (fp_conv h t1 t v1)) else None)
      else if op = IR_NOT then
        (if t = IR_BOOL \<and> t1 = IR_BOOL then Some (1 - v1)
         else if arith_type t \<and> compat t1 t then Some (wrap t (NOT v1)) else None)
      else if op = IR_BSWAP then
        (if arith_type t \<and> compat t1 t then Some (bswap_val (ir_type_size t) v1) else None)
      else if op = IR_CTPOP then
        (if arith_type t \<and> compat t1 t then Some (\<Sum>i<type_bits t. of_bool (bit v1 i)) else None)
      else if op = IR_CTLZ then
        (if arith_type t \<and> compat t1 t \<and> v1 \<noteq> 0
         then Some (int (length (takeWhile (\<lambda>i. \<not> bit v1 i) (rev [0..<type_bits t])))) else None)
      else if op = IR_CTTZ then
        (if arith_type t \<and> compat t1 t \<and> v1 \<noteq> 0
         then Some (int (length (takeWhile (\<lambda>i. \<not> bit v1 i) [0..<type_bits t]))) else None)
      else if op = IR_COPY then (if compat t1 t \<and> t1 \<noteq> IR_VOID then Some v1 else None)
      else None)"

definition truthy :: "ir_type \<Rightarrow> int \<Rightarrow> bool" where
  "truthy t v \<longleftrightarrow> (if IR_IS_TYPE_FP t then \<not> fp_eq t v 0 else v \<noteq> 0)"

definition sem_cond :: "ir_type \<Rightarrow> ir_type \<Rightarrow> ir_type \<Rightarrow> ir_type \<Rightarrow> int \<Rightarrow> int \<Rightarrow> int \<Rightarrow> int option" where
  "sem_cond t t1 t2 t3 v1 v2 v3 =
     (if t1 \<noteq> IR_VOID \<and> t \<noteq> IR_VOID \<and> compat t2 t \<and> compat t3 t
      then Some (if truthy t1 v1 then v2 else v3) else None)"

definition unary_op :: "ir_op \<Rightarrow> bool" where
  "unary_op op \<longleftrightarrow> IR_NEG \<le> op \<and> op \<le> IR_FP2FP \<or> op = IR_NOT \<or> IR_BSWAP \<le> op \<and> op \<le> IR_CTTZ \<or> op = IR_COPY"

definition binary_op :: "ir_op \<Rightarrow> bool" where
  "binary_op op \<longleftrightarrow> IR_EQ \<le> op \<and> op \<le> IR_MOD \<or> IR_ADD_OV \<le> op \<and> op \<le> IR_MUL_OV \<or>
     IR_OR \<le> op \<and> op \<le> IR_ROR \<or> op = IR_MIN \<or> op = IR_MAX"

definition pure_op :: "ir_op \<Rightarrow> bool" where
  "pure_op op \<longleftrightarrow> unary_op op \<or> binary_op op \<or> op = IR_COND"

section \<open>Values of references\<close>

text \<open>
  The value of a constant is its 64-bit field cut to the width of the type. A valuation \<open>\<rho>\<close> gives
  the values of the instructions (and of the symbolic constants, whose addresses are not known
  before linking); instructions without a value are undefined or not data.
\<close>

definition cv :: "ir_type \<Rightarrow> u64 \<Rightarrow> int" where
  "cv t w = (if t = IR_BOOL then of_bool (w \<noteq> 0) else take_bit (type_bits t) (uint w))"

definition den :: "ir_ctx \<Rightarrow> (ir_ref \<rightharpoonup> int) \<Rightarrow> ir_ref \<Rightarrow> (ir_type \<times> int) option" where
  "den ctx \<rho> r =
     (let i = ir_base ctx r in
      if r < 0 then
        (if - consts_count ctx < r
         then (if IR_IS_SYM_CONST (i_op i) then map_option (Pair (i_type i)) (\<rho> r)
               else Some (i_type i, cv (i_type i) (i_val i)))
         else None)
      else if 0 < r \<and> r < insns_count ctx then map_option (Pair (i_type i)) (\<rho> r) else None)"

definition eval :: "host \<Rightarrow> ir_ctx \<Rightarrow> (ir_ref \<rightharpoonup> int) \<Rightarrow> ir_insn \<Rightarrow> int option" where
  "eval h ctx \<rho> a =
     (if unary_op (i_op a) then
        (case den ctx \<rho> (i_op1 a) of None \<Rightarrow> None | Some (t1, v1) \<Rightarrow> sem_un h (i_op a) (i_type a) t1 v1)
      else if binary_op (i_op a) then
        (case den ctx \<rho> (i_op1 a) of None \<Rightarrow> None | Some (t1, v1) \<Rightarrow>
           (case den ctx \<rho> (i_op2 a) of None \<Rightarrow> None | Some (t2, v2) \<Rightarrow>
              sem_bin h (i_op a) (i_type a) t1 t2 v1 v2))
      else if i_op a = IR_COND then
        (case den ctx \<rho> (i_op1 a) of None \<Rightarrow> None | Some (t1, v1) \<Rightarrow>
           (case den ctx \<rho> (i_op2 a) of None \<Rightarrow> None | Some (t2, v2) \<Rightarrow>
              (case den ctx \<rho> (i_op3 a) of None \<Rightarrow> None | Some (t3, v3) \<Rightarrow>
                 sem_cond (i_type a) t1 t2 t3 v1 v2 v3)))
      else None)"

text \<open>
  A valuation fits a context when every value has the type of its instruction and every data
  operation with a value computes it from its operands.
\<close>

definition models :: "host \<Rightarrow> ir_ctx \<Rightarrow> (ir_ref \<rightharpoonup> int) \<Rightarrow> bool" where
  "models h ctx \<rho> \<longleftrightarrow>
     (\<forall>r v. \<rho> r = Some v \<longrightarrow> r \<noteq> 0 \<and> - consts_count ctx < r \<and> r < insns_count ctx \<and>
        okval (i_type (ir_base ctx r)) v \<and> i_type (ir_base ctx r) \<noteq> IR_VOID \<and>
        (0 < r \<longrightarrow> \<not> IR_IS_CONST_OP (i_op (ir_base ctx r)) \<and>
           (pure_op (i_op (ir_base ctx r)) \<longrightarrow> eval h ctx \<rho> (ir_base ctx r) = Some v)))"

text \<open>
  A constant is canonical when its 64-bit field is the sign or zero extension of its value. The
  typed constructors \<open>ir_const_i8\<close> and so on only make canonical constants.
\<close>

definition canonical :: "ir_type \<Rightarrow> u64 \<Rightarrow> bool" where
  "canonical t w \<longleftrightarrow> w = word_of_int (num t (cv t w))"

definition canon :: "ir_ctx \<Rightarrow> bool" where
  "canon ctx \<longleftrightarrow> (\<forall>r. - consts_count ctx < r \<and> r < 0 \<and> \<not> IR_IS_SYM_CONST (i_op (ir_base ctx r)) \<longrightarrow>
     canonical (i_type (ir_base ctx r)) (i_val (ir_base ctx r)))"

section \<open>Closure: results have the type of the instruction\<close>

lemma type_bits_simps [simp]:
  "type_bits IR_VOID = 0" "type_bits IR_BOOL = 8" "type_bits IR_U8 = 8" "type_bits IR_U16 = 16"
  "type_bits IR_U32 = 32" "type_bits IR_U64 = 64" "type_bits IR_ADDR = 64" "type_bits IR_CHAR = 8"
  "type_bits IR_I8 = 8" "type_bits IR_I16 = 16" "type_bits IR_I32 = 32" "type_bits IR_I64 = 64"
  "type_bits IR_DOUBLE = 64" "type_bits IR_FLOAT = 32"
  by (simp_all add: type_bits_def)

lemma type_bits_pos [simp]: "t \<noteq> IR_VOID \<Longrightarrow> 0 < type_bits t"
  by (cases t) simp_all

lemma type_bits_le [simp]: "type_bits t \<le> 64"
  by (cases t) simp_all

lemma type_bits_mono: "ir_type_size t \<le> ir_type_size u \<Longrightarrow> type_bits t \<le> type_bits u"
  by (simp add: type_bits_def)

lemma compat_bits: "compat t u \<Longrightarrow> type_bits t = type_bits u"
  by (auto simp: compat_def wide_def)

lemma compat_size: "compat t u \<Longrightarrow> ir_type_size t = ir_type_size u"
  by (auto simp: compat_def wide_def)

lemma compat_refl [simp]: "compat t t"
  by (simp add: compat_def)

lemma compat_sym: "compat t u \<Longrightarrow> compat u t"
  by (auto simp: compat_def)

lemma compat_trans: "compat t u \<Longrightarrow> compat u w \<Longrightarrow> compat t w"
  by (auto simp: compat_def)

lemma compat_bool [simp]: "compat t IR_BOOL \<longleftrightarrow> t = IR_BOOL" "compat IR_BOOL t \<longleftrightarrow> t = IR_BOOL"
  by (auto simp: compat_def wide_def)

lemma compat_arith: "compat t u \<Longrightarrow> arith_type t = arith_type u"
  by (auto simp: compat_def wide_def arith_type_def int_type_def ir_defs)

lemma compat_int: "compat t u \<Longrightarrow> int_type t = int_type u"
  by (auto simp: compat_def wide_def int_type_def ir_defs)

lemma compat_fp: "compat t u \<Longrightarrow> IR_IS_TYPE_FP t \<Longrightarrow> t = u"
  by (auto simp: compat_def wide_def ir_defs)

lemma compat_fp': "compat t u \<Longrightarrow> IR_IS_TYPE_FP t = IR_IS_TYPE_FP u"
  by (auto simp: compat_def wide_def ir_defs)

lemma compat_void: "compat t u \<Longrightarrow> (t = IR_VOID) = (u = IR_VOID)"
  by (auto simp: compat_def wide_def)

lemma int_not_fp: "int_type t \<Longrightarrow> \<not> IR_IS_TYPE_FP t"
  by (auto simp: int_type_def ir_defs)

lemma fp_types: "IR_IS_TYPE_FP t \<longleftrightarrow> t = IR_DOUBLE \<or> t = IR_FLOAT"
  by (cases t) (simp_all add: ir_defs)

lemma signed_types: "IR_IS_TYPE_SIGNED t \<longleftrightarrow> t = IR_CHAR \<or> t = IR_I8 \<or> t = IR_I16 \<or> t = IR_I32 \<or> t = IR_I64"
  by (cases t) (simp_all add: ir_defs)

lemma int_type_iff: "int_type t \<longleftrightarrow> t \<noteq> IR_VOID \<and> t \<noteq> IR_DOUBLE \<and> t \<noteq> IR_FLOAT"
  by (cases t) (simp_all add: int_type_def ir_defs)

lemma arith_type_iff: "arith_type t \<longleftrightarrow> t \<noteq> IR_VOID \<and> t \<noteq> IR_BOOL \<and> t \<noteq> IR_DOUBLE \<and> t \<noteq> IR_FLOAT"
  by (auto simp: arith_type_def int_type_iff)

lemma int_void: "int_type t \<Longrightarrow> t \<noteq> IR_VOID"
  by (simp add: int_type_def)

lemma arith_int: "arith_type t \<Longrightarrow> int_type t"
  by (simp add: arith_type_def)

lemma arith_neq [dest]: "arith_type t \<Longrightarrow> t \<noteq> IR_VOID \<and> t \<noteq> IR_BOOL"
  by (simp add: arith_type_iff)

lemma okval_fits: "okval t v \<Longrightarrow> fits (type_bits t) v"
  by (auto simp: okval_def fits_def split: if_splits)

lemma okval_compat: "okval t v \<Longrightarrow> compat t u \<Longrightarrow> okval u v"
  using compat_bits [of t u] by (auto simp: okval_def compat_def wide_def)

lemma okval_bool [simp]: "okval IR_BOOL v \<longleftrightarrow> v = 0 \<or> v = 1"
  by (simp add: okval_def)

lemma okval_wrap: "t \<noteq> IR_BOOL \<Longrightarrow> okval t (wrap t i)"
  by (simp add: okval_def wrap_def)

lemma mk_bool_okval: "mk_bool t b = Some v \<Longrightarrow> okval t v \<and> t = IR_BOOL"
  by (auto simp: mk_bool_def split: if_splits)

lemma fits_nonneg: "fits n v \<Longrightarrow> 0 \<le> v"
  by (simp add: fits_def)

lemma fits_bit: "fits n v \<longleftrightarrow> 0 \<le> v \<and> (\<forall>i. n \<le> i \<longrightarrow> \<not> bit v i)"
proof
  assume f: "fits n v"
  have "take_bit n v = v" using f by (simp add: fits_iff_take_bit)
  moreover have "0 \<le> v" using f by (simp add: fits_def)
  ultimately show "0 \<le> v \<and> (\<forall>i. n \<le> i \<longrightarrow> \<not> bit v i)" by (metis bit_take_bit_iff not_less)
next
  assume "0 \<le> v \<and> (\<forall>i. n \<le> i \<longrightarrow> \<not> bit v i)"
  then have "take_bit n v = v" by (intro bit_eqI) (auto simp: bit_take_bit_iff not_le)
  then show "fits n v" by (simp add: fits_iff_take_bit)
qed

lemma fits_or: "fits n v \<Longrightarrow> fits n w \<Longrightarrow> fits n (v OR w)"
  by (auto simp: fits_bit bit_or_iff)
lemma fits_and: "fits n v \<Longrightarrow> fits n w \<Longrightarrow> fits n (v AND w)"
  by (auto simp: fits_bit bit_and_iff)
lemma fits_xor: "fits n v \<Longrightarrow> fits n w \<Longrightarrow> fits n (v XOR w)"
  by (auto simp: fits_bit bit_xor_iff)
lemma fits_drop_bit: "fits n v \<Longrightarrow> fits n (drop_bit k v)"
  by (auto simp: fits_bit bit_drop_bit_eq)

lemma okval_bits_ops:
  assumes "okval t v" "okval t w" "t \<noteq> IR_VOID"
  shows "okval t (v OR w)" "okval t (v AND w)" "okval t (v XOR w)"
  using assms by (auto simp: okval_def fits_or fits_and fits_xor)

lemma fits_flip_bit: "fits n v \<Longrightarrow> k < n \<Longrightarrow> fits n (flip_bit k v)"
  by (auto simp: fits_bit bit_flip_bit_iff)

lemma fits_unset_bit: "fits n v \<Longrightarrow> fits n (unset_bit k v)"
  by (auto simp: fits_bit bit_unset_bit_iff)

lemma bswap_fits: "fits (8 * k) (bswap_val k v)"
proof -
  have pos: "0 \<le> push_bit (8 * i) (take_bit 8 w)" for i and w :: int by simp
  have "(\<Sum>i<m. push_bit (8 * i) (take_bit 8 (f i))) < 2 ^ (8 * m)" for m and f :: "nat \<Rightarrow> int"
  proof (induction m)
    case (Suc m)
    have "take_bit 8 (f m) \<le> 2 ^ 8 - 1" using take_bit_int_less_exp [of 8 "f m"] by simp
    then have "push_bit (8 * m) (take_bit 8 (f m)) \<le> (2 ^ 8 - 1) * 2 ^ (8 * m)"
      by (simp add: push_bit_eq_mult)
    moreover have "(2::int) ^ (8 * Suc m) = 2 ^ 8 * 2 ^ (8 * m)" by (simp add: power_add)
    ultimately show ?case using Suc by (simp add: algebra_simps)
  qed simp
  then show ?thesis unfolding bswap_val_def fits_def using pos by (simp add: sum_nonneg)
qed

lemma sum_bits_le: "(\<Sum>i<n. of_bool (bit v i) :: int) \<le> int n"
proof -
  have "(\<Sum>i<n. of_bool (bit v i) :: int) \<le> (\<Sum>i<n. 1)" by (rule sum_mono) simp
  then show ?thesis by simp
qed

lemma int_le_bits_fits: "0 \<le> i \<Longrightarrow> i \<le> int (type_bits t) \<Longrightarrow> t \<noteq> IR_VOID \<Longrightarrow> fits (type_bits t) i"
  by (cases t) (simp_all add: fits_def)

lemma takeWhile_le_bits: "int (length (takeWhile P [0..<n])) \<le> int n"
  "int (length (takeWhile P (rev [0..<n]))) \<le> int n"
  using length_takeWhile_le [of P "[0..<n]"] length_takeWhile_le [of P "rev [0..<n]"] by simp_all

lemma sem_arith_okval: "sem_arith t t1 t2 i f = Some v \<Longrightarrow> okval t v \<and> t \<noteq> IR_VOID"
  by (auto simp: sem_arith_def okval_wrap fp_types dest: arith_neq split: if_splits)

lemma rot_fits: "fits n v \<Longrightarrow> fits n (rol_val n k v)" "fits n v \<Longrightarrow> fits n (ror_val n k v)"
  by (simp_all add: rol_val_def ror_val_def fits_or fits_drop_bit)

lemma okval_arithI: "arith_type t \<Longrightarrow> fits (type_bits t) v \<Longrightarrow> okval t v"
  by (auto simp: okval_def)

lemmas sem_bin_parts = sem_eq_def sem_ord_def sem_div_def sem_mod_def sem_bits_def sem_minmax_def

lemma shift_fits:
  assumes "shift_ok t t1 t2 k" "okval t1 v"
  shows "arith_type t" "fits (type_bits t) v"
  using assms okval_fits [of t1 v] compat_bits [of t1 t] by (auto simp: shift_ok_def)

lemma sem_shift_okval:
  assumes "shift_ok t t1 t2 k" "okval t1 v"
  shows "okval t (wrap t i)" "okval t (drop_bit n v)" "okval t (rol_val (type_bits t) n v)"
    "okval t (ror_val (type_bits t) n v)"
  using shift_fits [OF assms] by (auto intro!: okval_arithI okval_wrap rot_fits fits_drop_bit dest: arith_neq)

lemma sem_bits_okval:
  assumes "okval t1 v1" "okval t2 v2" "compat t1 t" "compat t2 t" "int_type t"
  shows "okval t (v1 OR v2)" "okval t (v1 AND v2)" "okval t (v1 XOR v2)" "t \<noteq> IR_VOID"
  using okval_bits_ops [of t v1 v2] okval_compat [OF assms(1,3)] okval_compat [OF assms(2,4)] assms(5)
  by (simp_all add: int_type_iff)

text \<open>\<open>ok_res t r\<close>: if there is a result, it has type \<open>t\<close>.\<close>

definition ok_res :: "ir_type \<Rightarrow> int option \<Rightarrow> bool" where
  "ok_res t r \<longleftrightarrow> (\<forall>v. r = Some v \<longrightarrow> okval t v \<and> t \<noteq> IR_VOID)"

lemma ok_res_None [simp]: "ok_res t None"
  by (simp add: ok_res_def)

lemma ok_res_Some [simp]: "ok_res t (Some v) \<longleftrightarrow> okval t v \<and> t \<noteq> IR_VOID"
  by (simp add: ok_res_def)

lemma ok_res_if: "ok_res t x \<Longrightarrow> ok_res t y \<Longrightarrow> ok_res t (if c then x else y)"
  by simp

lemma ok_res_parts:
  "ok_res t (mk_bool t b)" "ok_res t (sem_eq t t1 t2 ci cf)" "ok_res t (sem_ord t t1 t2 ci cf)"
  "ok_res t (sem_arith t t1 t2 i f)" "ok_res t (sem_div h t t1 t2 v1 v2)" "ok_res t (sem_mod t t1 t2 v1 v2)"
  "arith_type t \<Longrightarrow> ok_res t (Some (wrap t i))"
  by (auto simp: mk_bool_def sem_eq_def sem_ord_def sem_div_def sem_mod_def sem_arith_def okval_wrap fp_types
      dest: arith_neq)

lemma sem_bin_okval:
  assumes "sem_bin h op t t1 t2 v1 v2 = Some v" "okval t1 v1" "okval t2 v2"
  shows "okval t v \<and> t \<noteq> IR_VOID"
proof -
  have mm: "ok_res t (sem_minmax t t1 t2 v1 v2 ci cf)" for ci cf
    using assms(2,3) by (auto simp: sem_minmax_def int_type_iff fp_types)
  have bits: "ok_res t (sem_bits t t1 t2 (v1 OR v2))" "ok_res t (sem_bits t t1 t2 (v1 AND v2))"
    "ok_res t (sem_bits t t1 t2 (v1 XOR v2))"
    using sem_bits_okval [OF assms(2,3)] by (auto simp: sem_bits_def)
  have sh: "ok_res t (if shift_ok t t1 t2 v2 then Some (wrap t i) else None)"
    "ok_res t (if shift_ok t t1 t2 v2 then Some (drop_bit n v1) else None)"
    "ok_res t (if shift_ok t t1 t2 v2 then Some (rol_val (type_bits t) n v1) else None)"
    "ok_res t (if shift_ok t t1 t2 v2 then Some (ror_val (type_bits t) n v1) else None)" for i n
    using sem_shift_okval [OF _ assms(2)] by (auto simp: shift_ok_def)
  have fp: "ok_res t (if c then mk_bool t b else None)"
    "ok_res t (if arith_type t \<and> t1 = t \<and> t2 = t then Some (wrap t i) else None)" for b c i
    using ok_res_parts(1,7) by (auto simp del: ok_res_Some)
  have "ok_res t (sem_bin h op t t1 t2 v1 v2)"
    unfolding sem_bin_def
    by (rule ok_res_if, rule ok_res_parts mm bits sh fp ok_res_None)+ (rule ok_res_None)
  then show ?thesis using assms(1) by (simp add: ok_res_def)
qed

lemma to_type_okval: "to_type t v = Some w \<Longrightarrow> fits (type_bits t) v \<Longrightarrow> okval t w"
  by (auto simp: to_type_def okval_def split: if_splits)

lemma counting_okval:
  assumes "arith_type t"
  shows "okval t (bswap_val (ir_type_size t) i)" "okval t (\<Sum>i<type_bits t. of_bool (bit v1 i))"
    "okval t (int (length (takeWhile P [0..<type_bits t])))"
    "okval t (int (length (takeWhile P (rev [0..<type_bits t]))))"
proof -
  have v: "t \<noteq> IR_VOID" using assms by blast
  show "okval t (bswap_val (ir_type_size t) i)"
    using bswap_fits [of "ir_type_size t" i] by (intro okval_arithI assms) (simp add: type_bits_def mult.commute)
  show "okval t (\<Sum>i<type_bits t. of_bool (bit v1 i))"
    by (intro okval_arithI assms int_le_bits_fits sum_nonneg sum_bits_le v) simp
  show "okval t (int (length (takeWhile P [0..<type_bits t])))"
    by (intro okval_arithI assms int_le_bits_fits takeWhile_le_bits v) simp
  show "okval t (int (length (takeWhile P (rev [0..<type_bits t]))))"
    by (intro okval_arithI assms int_le_bits_fits takeWhile_le_bits v) simp
qed

lemma sem_un_okval:
  assumes "sem_un h op t t1 v1 = Some v" "okval t1 v1" "t1 \<noteq> IR_VOID"
  shows "okval t v \<and> t \<noteq> IR_VOID"
proof -
  have f1: "fits (type_bits t1) v1" using assms(2) by (rule okval_fits)
  have fc: "compat t1 t \<Longrightarrow> okval t v1" using okval_compat [OF assms(2)] .
  have ar: "arith_type t \<Longrightarrow> ok_res t (Some (wrap t i))" for i by (rule ok_res_parts)
  have abs: "ok_res t (if IR_IS_TYPE_FP t then if t1 = t then Some (fp_abs t v1) else None
     else if IR_IS_TYPE_SIGNED t \<and> compat t1 t \<and> b then Some (wrap t i) else None)" for b i
    using f1 by (auto simp: okval_def fp_types fp_abs_def fits_unset_bit signed_types wrap_def)
  have ext: "int_type t \<Longrightarrow> int_type t1 \<Longrightarrow> ir_type_size t1 < ir_type_size t \<Longrightarrow>
      ok_res t (Some (wrap t i)) \<and> ok_res t (Some v1)" for i
    using fits_mono [OF f1 type_bits_mono [of t1 t]] by (cases t; cases t1) (auto simp: okval_def int_type_iff wrap_def)
  have sx: "ok_res t (if int_type t \<and> int_type t1 \<and> ir_type_size t1 < ir_type_size t then Some (wrap t i) else None)"
    "ok_res t (if int_type t \<and> int_type t1 \<and> ir_type_size t1 < ir_type_size t then Some v1 else None)" for i
    using ext by (auto simp del: ok_res_Some)
  have tt: "fits (type_bits t) w \<Longrightarrow> t \<noteq> IR_VOID \<Longrightarrow> ok_res t (to_type t w)" for w
    using to_type_okval [of t w] by (auto simp: ok_res_def)
  have tr: "ok_res t (if int_type t \<and> int_type t1 \<and> ir_type_size t < ir_type_size t1 then to_type t (wrap t v1) else None)"
    using tt [of "wrap t v1"] int_void [of t] by (auto simp: wrap_def)
  have bc: "ok_res t (if t \<noteq> IR_VOID \<and> t1 \<noteq> IR_VOID \<and> ir_type_size t = ir_type_size t1 then to_type t v1 else None)"
    using tt [of v1] f1 by (auto simp: type_bits_def)
  have fp: "ok_res t (if IR_IS_TYPE_FP t \<and> c then Some (wrap t i) else None)"
    "ok_res t (if IR_IS_TYPE_FP t \<and> IR_IS_TYPE_FP t1 then Some (if t = t1 then v1 else wrap t i) else None)" for c i
    using assms(2) by (auto simp: okval_wrap fp_types)
  have fi: "ok_res t (if arith_type t \<and> c then case q of None \<Rightarrow> None | Some i \<Rightarrow> if in_range t i then Some (wrap t i) else None
      else None)" for c q using ar by (auto split: option.splits simp del: ok_res_Some)
  have nt: "ok_res t (if t = IR_BOOL \<and> t1 = IR_BOOL then Some (1 - v1)
      else if arith_type t \<and> c then Some (wrap t i) else None)" for c i
    using assms(2) ar [of i] by (auto simp: okval_def)
  note cn = counting_okval [of t]
  have ct: "ok_res t (if arith_type t \<and> c then Some (bswap_val (ir_type_size t) i) else None)"
    "ok_res t (if arith_type t \<and> c then Some (\<Sum>i<type_bits t. of_bool (bit v1 i)) else None)"
    "ok_res t (if arith_type t \<and> c then Some (int (length (takeWhile P [0..<type_bits t]))) else None)"
    "ok_res t (if arith_type t \<and> c then Some (int (length (takeWhile P (rev [0..<type_bits t])))) else None)" for c i P
    using cn by (auto simp del: of_bool_eq sum_of_bool_eq)
  have cp: "ok_res t (if compat t1 t \<and> t1 \<noteq> IR_VOID then Some v1 else None)"
    using fc compat_void [of t1 t] by auto
  have "ok_res t (sem_un h op t t1 v1)"
    unfolding sem_un_def
    by (rule ok_res_if, rule ok_res_parts(4) abs sx tr bc fp fi nt ct cp)+ (rule ok_res_None)
  then show ?thesis using assms(1) by (simp add: ok_res_def)
qed

lemma sem_cond_okval:
  assumes "sem_cond t t1 t2 t3 v1 v2 v3 = Some v" "okval t2 v2" "okval t3 v3"
  shows "okval t v \<and> t \<noteq> IR_VOID"
  using assms okval_compat by (auto simp: sem_cond_def split: if_splits)

section \<open>Values of operands\<close>

lemma cv_okval: "t \<noteq> IR_BOOL \<Longrightarrow> okval t (cv t w)" "okval IR_BOOL (cv IR_BOOL w)"
  by (simp_all add: cv_def okval_def)

lemma pool_cases:
  assumes "pool_ok ctx" "- consts_count ctx < r" "r < 0"
  shows "r = IR_NULL \<or> r = IR_FALSE \<or> r = IR_TRUE \<or> r \<le> -4 \<and> const_ok (ir_base ctx r)"
proof (cases "r \<le> -4")
  case True
  then show ?thesis using assms by (auto simp: pool_ok_def)
next
  case False
  then have "r \<in> {-3, -2, -1}" using assms(3) by auto
  then show ?thesis by auto
qed

lemma den_okval:
  assumes "pool_ok ctx" "models h ctx \<rho>" "den ctx \<rho> r = Some (t, v)"
  shows "okval t v \<and> t \<noteq> IR_VOID \<and> t = i_type (ir_base ctx r)"
proof (cases "r < 0 \<and> \<not> IR_IS_SYM_CONST (i_op (ir_base ctx r))")
  case True
  then have d: "- consts_count ctx < r" "t = i_type (ir_base ctx r)" "v = cv t (i_val (ir_base ctx r))"
    using assms(3) by (auto simp: den_def Let_def split: if_splits)
  moreover have "t \<noteq> IR_VOID"
    using pool_cases [OF assms(1) d(1)] True d(2) assms(1)
    by (auto simp: pool_ok_def predefined_ok_def const_ok_def)
  ultimately show ?thesis using cv_okval by (cases "t = IR_BOOL") auto
next
  case False
  then have "\<rho> r = Some v" "t = i_type (ir_base ctx r)"
    using assms(3) by (auto simp: den_def Let_def split: if_splits)
  then show ?thesis using assms(2) by (auto simp: models_def)
qed

lemma eval_okval:
  assumes "pool_ok ctx" "models h ctx \<rho>" "eval h ctx \<rho> a = Some v"
  shows "okval (i_type a) v \<and> i_type a \<noteq> IR_VOID \<and> pure_op (i_op a)"
proof -
  note ok = den_okval [OF assms(1,2)]
  consider (un) "unary_op (i_op a)" | (bin) "\<not> unary_op (i_op a)" "binary_op (i_op a)"
    | (cond) "\<not> unary_op (i_op a)" "\<not> binary_op (i_op a)" "i_op a = IR_COND"
    using assms(3) unfolding eval_def by (auto split: if_splits)
  then show ?thesis
  proof cases
    case un
    then obtain t1 v1 where "den ctx \<rho> (i_op1 a) = Some (t1, v1)" "sem_un h (i_op a) (i_type a) t1 v1 = Some v"
      using assms(3) by (auto simp: eval_def split: option.splits)
    then show ?thesis using ok sem_un_okval un unfolding pure_op_def by blast
  next
    case bin
    then obtain t1 v1 t2 v2 where "den ctx \<rho> (i_op1 a) = Some (t1, v1)" "den ctx \<rho> (i_op2 a) = Some (t2, v2)"
      "sem_bin h (i_op a) (i_type a) t1 t2 v1 v2 = Some v"
      using assms(3) by (auto simp: eval_def split: option.splits)
    then show ?thesis using ok sem_bin_okval bin unfolding pure_op_def by blast
  next
    case cond
    then obtain t1 v1 t2 v2 t3 v3 where "den ctx \<rho> (i_op2 a) = Some (t2, v2)" "den ctx \<rho> (i_op3 a) = Some (t3, v3)"
      "sem_cond (i_type a) t1 t2 t3 v1 v2 v3 = Some v"
      using assms(3) by (auto simp: eval_def split: option.splits)
    then show ?thesis using ok sem_cond_okval cond unfolding pure_op_def by blast
  qed
qed

lemma eval_mono:
  assumes "den ctx \<rho> \<subseteq>\<^sub>m den ctx' \<rho>'" "eval h ctx \<rho> a = Some v"
  shows "eval h ctx' \<rho>' a = Some v"
proof -
  have "den ctx \<rho> r = Some d \<Longrightarrow> den ctx' \<rho>' r = Some d" for r d
    using assms(1) by (auto simp: map_le_def dom_def)
  then show ?thesis using assms(2) unfolding eval_def by (auto split: if_splits option.splits)
qed

end
