(* ===== verification/Fold_Site.thy ===== *)
theory Fold_Site
  imports Fold_Engine Semantics
begin

text \<open>
  What it means for a folding rule to be right, and the facts every rule proof uses. A rule is
  applied at a site: a well-formed context, a valuation of its instructions, and an instruction
  that has a value there. The rule must keep that value, whichever label of \<open>ir_folding\<close> it
  leaves through.
\<close>

section \<open>Sites and outcomes\<close>

definition grows :: "host \<Rightarrow> ir_ctx \<Rightarrow> (ir_ref \<rightharpoonup> int) \<Rightarrow> ir_ctx \<Rightarrow> (ir_ref \<rightharpoonup> int) \<Rightarrow> bool" where
  "grows h ctx \<rho> ctx' \<rho>' \<longleftrightarrow>
     pool_ok ctx' \<and> models h ctx' \<rho>' \<and> den ctx \<rho> \<subseteq>\<^sub>m den ctx' \<rho>' \<and> (canon ctx' \<longrightarrow> canon ctx) \<and>
     use_lists ctx' = use_lists ctx \<and> prev_insn_chain ctx' = prev_insn_chain ctx \<and>
     fold_cse_limit ctx' = fold_cse_limit ctx \<and> insns_count ctx \<le> insns_count ctx'"

definition copy_ok :: "ir_ctx \<Rightarrow> (ir_ref \<rightharpoonup> int) \<Rightarrow> ir_insn \<Rightarrow> int \<Rightarrow> ir_ref \<Rightarrow> bool" where
  "copy_ok ctx \<rho> a v r \<longleftrightarrow> (\<exists>t. den ctx \<rho> r = Some (t, v) \<and> compat t (i_type a))"

definition step_ok :: "host \<Rightarrow> ir_ctx \<Rightarrow> (ir_ref \<rightharpoonup> int) \<Rightarrow> ir_insn \<Rightarrow> int \<Rightarrow> fold_result \<Rightarrow> bool" where
  "step_ok h ctx \<rho> a v r =
     (case r of
        Fold_Next \<Rightarrow> True
      | Fold_Restart ctx' a' \<Rightarrow>
          \<exists>\<rho>'. grows h ctx \<rho> ctx' \<rho>' \<and> eval h ctx' \<rho>' a' = Some v \<and> compat (i_type a') (i_type a)
      | Fold_Copy ref \<Rightarrow> copy_ok ctx \<rho> a v ref
      | Fold_Const w \<Rightarrow> cv (i_type a) w = v
      | Fold_Emit a' \<Rightarrow> a' = a
      | Fold_UB \<Rightarrow> False)"

lemma step_ok_simps [simp]:
  "step_ok h ctx \<rho> a v Fold_Next"
  "step_ok h ctx \<rho> a v (Fold_Copy r) = copy_ok ctx \<rho> a v r"
  "step_ok h ctx \<rho> a v (Fold_Const w) = (cv (i_type a) w = v)"
  "step_ok h ctx \<rho> a v (Fold_Emit a') = (a' = a)"
  "\<not> step_ok h ctx \<rho> a v Fold_UB"
  by (simp_all add: step_ok_def)

lemma step_ok_if:
  "(c \<Longrightarrow> step_ok h ctx \<rho> a v r) \<Longrightarrow> (\<not> c \<Longrightarrow> step_ok h ctx \<rho> a v s) \<Longrightarrow>
   step_ok h ctx \<rho> a v (if c then r else s)"
  by simp

definition const_type :: "nat \<Rightarrow> ir_type" where
  "const_type k = [IR_VOID, IR_BOOL, IR_U8, IR_U16, IR_U32, IR_U64, IR_ADDR, IR_CHAR, IR_I8, IR_I16,
     IR_I32, IR_I64, IR_DOUBLE, IR_FLOAT] ! k"

lemma const_type_num [simp]: "const_type (ir_type_num t) = t"
  by (cases t) (simp_all add: const_type_def)

lemma const_type_simps [simp]:
  "const_type IR_C_BOOL = IR_BOOL" "const_type IR_C_U8 = IR_U8" "const_type IR_C_U16 = IR_U16"
  "const_type IR_C_U32 = IR_U32" "const_type IR_C_U64 = IR_U64" "const_type IR_C_ADDR = IR_ADDR"
  "const_type IR_C_CHAR = IR_CHAR" "const_type IR_C_I8 = IR_I8" "const_type IR_C_I16 = IR_I16"
  "const_type IR_C_I32 = IR_I32" "const_type IR_C_I64 = IR_I64" "const_type IR_C_DOUBLE = IR_DOUBLE"
  "const_type IR_C_FLOAT = IR_FLOAT"
  by (simp_all add: const_type_def)

lemma const_type_1 [simp]: "const_type (Suc 0) = IR_BOOL"
  using const_type_simps(1) by simp

section \<open>Operands that are constants\<close>

lemma sym_not_const: "IR_IS_CONST_OP k \<Longrightarrow> \<not> IR_IS_SYM_CONST k"
  by (auto simp: ir_defs)

lemma den_const:
  assumes "pool_ok ctx" "models h ctx \<rho>" "canon ctx" "den ctx \<rho> r = Some (t, v)"
    and k: "IR_IS_CONST_OP (i_op (ir_base ctx r))"
  shows "r < 0 \<and> - consts_count ctx < r \<and> t = const_type (i_op (ir_base ctx r)) \<and>
    v = cv t (i_val (ir_base ctx r)) \<and> canonical t (i_val (ir_base ctx r))"
proof -
  have "r < 0" using assms(2,4) k by (auto simp: den_def Let_def models_def split: if_splits)
  then have d: "- consts_count ctx < r" "t = i_type (ir_base ctx r)" "v = cv t (i_val (ir_base ctx r))"
    using assms(4) sym_not_const [OF k] by (auto simp: den_def Let_def split: if_splits)
  then have "canonical t (i_val (ir_base ctx r))"
    using assms(3) \<open>r < 0\<close> sym_not_const [OF k] by (auto simp: canon_def)
  moreover have "t = const_type (i_op (ir_base ctx r))"
    using pool_cases [OF assms(1) d(1) \<open>r < 0\<close>] assms(1) d(2) k
    by (auto simp: pool_ok_def predefined_ok_def const_ok_def ir_defs)
  ultimately show ?thesis using d \<open>r < 0\<close> by blast
qed

text \<open>Reading a constant at the width of its type.\<close>

lemma cv_simps:
  "cv IR_U8 w = val_u8 w" "cv IR_U16 w = val_u16 w" "cv IR_U32 w = val_u32 w" "cv IR_U64 w = val_u64 w"
  "cv IR_ADDR w = val_u64 w" "cv IR_CHAR w = val_u8 w" "cv IR_I8 w = val_u8 w" "cv IR_I16 w = val_u16 w"
  "cv IR_I32 w = val_u32 w" "cv IR_I64 w = val_u64 w" "cv IR_DOUBLE w = val_d w" "cv IR_FLOAT w = val_f w"
  "cv IR_BOOL w = of_bool (w \<noteq> 0)"
  using take_bit_uint [of w]
  by (simp_all add: cv_def val_u8_def val_u16_def val_u32_def val_u64_def val_d_def val_f_def)

lemma val_i_sval:
  "val_i8 w = sval 8 (val_u8 w)" "val_i16 w = sval 16 (val_u16 w)" "val_i32 w = sval 32 (val_u32 w)"
  "val_i64 w = sval 64 (val_u64 w)"
proof -
  show "val_i8 w = sval 8 (val_u8 w)" "val_i16 w = sval 16 (val_u16 w)" "val_i32 w = sval 32 (val_u32 w)"
    by (simp_all add: val_i8_def val_i16_def val_i32_def val_u8_def val_u16_def val_u32_def)
       (simp_all add: sval_def)
  show "val_i64 w = sval 64 (val_u64 w)"
    by (simp add: val_i64_def val_u64_def sval_def sint_uint)
qed

lemma uint_word_of_int64: "uint (word_of_int i :: u64) = take_bit 64 i"
  by (simp add: uint_word_of_int_eq)

lemma cv_word_of_int: "t \<noteq> IR_BOOL \<Longrightarrow> cv t (word_of_int i) = wrap t i"
  by (simp add: cv_def wrap_def uint_word_of_int64 min_def)

lemma val_word_of_int [simp]:
  "val_u8 (word_of_int i) = take_bit 8 i" "val_u16 (word_of_int i) = take_bit 16 i"
  "val_u32 (word_of_int i) = take_bit 32 i" "val_u64 (word_of_int i) = take_bit 64 i"
  "val_d (word_of_int i) = take_bit 64 i" "val_f (word_of_int i) = take_bit 32 i"
  by (simp_all add: val_u8_def val_u16_def val_u32_def val_u64_def val_d_def val_f_def uint_word_of_int64)

text \<open>The whole 64-bit field of a canonical constant.\<close>

lemma fits_cv: "t \<noteq> IR_VOID \<Longrightarrow> fits (type_bits t) (cv t w)"
  using cv_okval(1) [of t w] cv_okval(2) [of w] okval_fits [of t "cv t w"] by (cases "t = IR_BOOL") auto

lemma canonical_unsigned:
  assumes "canonical t w" "\<not> IR_IS_TYPE_SIGNED t" "t \<noteq> IR_VOID"
  shows "val_u64 w = cv t w"
proof -
  have "fits 64 (cv t w)" using fits_cv [OF assms(3)] fits_mono type_bits_le by blast
  then have "uint (word_of_int (cv t w) :: u64) = cv t w" by (simp add: uint_word_of_int64 take_bit_fits)
  then show ?thesis using assms by (simp add: canonical_def num_def val_u64_def)
qed

lemma canonical_signed:
  assumes "canonical t w" "IR_IS_TYPE_SIGNED t"
  shows "val_i64 w = sval (type_bits t) (cv t w)"
proof -
  have t: "0 < type_bits t" using assms(2) by (auto simp: signed_types)
  have "w = word_of_int (sval (type_bits t) (cv t w))"
    using assms by (simp add: canonical_def num_def)
  then have "sint w = sint (word_of_int (sval (type_bits t) (cv t w)) :: u64)" by simp
  also have "\<dots> = sval 64 (sval (type_bits t) (cv t w))"
    by (simp add: sint_sbintrunc' sval_def)
  also have "\<dots> = sval (type_bits t) (cv t w)"
  proof (rule sval_id)
    have "(2::int) ^ (type_bits t - 1) \<le> 2 ^ 63" by (cases t) simp_all
    then show "- (2 ^ (64 - 1)) \<le> sval (type_bits t) (cv t w)" "sval (type_bits t) (cv t w) < 2 ^ (64 - 1)"
      using sval_bounds [OF t, of "cv t w"] by auto
  qed simp
  finally show ?thesis by (simp add: val_i64_def)
qed

section \<open>Growing contexts\<close>

lemma pool_ext_den:
  assumes "pool_ext ctx ctx'"
  shows "den ctx \<rho> \<subseteq>\<^sub>m den ctx' \<rho>"
proof -
  have "den ctx' \<rho> r = den ctx \<rho> r" if "den ctx \<rho> r \<noteq> None" for r
  proof (cases "r < 0")
    case True
    then have "- consts_count ctx < r" using that by (auto simp: den_def Let_def split: if_splits)
    moreover from this have "same_but_op1 (ir_base ctx' r) (ir_base ctx r)" "- consts_count ctx' < r"
      using assms by (auto simp: pool_ext_def)
    ultimately show ?thesis using True same_but_op1_fields by (auto simp: den_def Let_def)
  next
    case False
    then show ?thesis using assms by (auto simp: den_def Let_def pool_ext_def)
  qed
  then show ?thesis by (simp add: map_le_def dom_def)
qed

lemma pool_ext_grows:
  assumes "models h ctx \<rho>" "pool_ok ctx'" "pool_ext ctx ctx'"
  shows "grows h ctx \<rho> ctx' \<rho>"
proof -
  have "models h ctx' \<rho>" unfolding models_def
  proof (intro allI impI)
    fix r v
    assume r: "\<rho> r = Some v"
    then have "- consts_count ctx < r" using assms(1) by (simp add: models_def)
    then have s: "same_but_op1 (ir_base ctx' r) (ir_base ctx r)" "- consts_count ctx' < r"
      using assms(3) by (simp_all add: pool_ext_def)
    moreover have "0 < r \<Longrightarrow> ir_base ctx' r = ir_base ctx r" using assms(3) by (simp add: pool_ext_def)
    ultimately have f: "i_op (ir_base ctx' r) = i_op (ir_base ctx r)" "i_type (ir_base ctx' r) = i_type (ir_base ctx r)"
      "0 < r \<Longrightarrow> eval h ctx \<rho> (ir_base ctx r) = Some v \<Longrightarrow> eval h ctx' \<rho> (ir_base ctx' r) = Some v"
      using same_but_op1_fields eval_mono [OF pool_ext_den [OF assms(3)]] by auto
    show "r \<noteq> 0 \<and> - consts_count ctx' < r \<and> r < insns_count ctx' \<and>
        okval (i_type (ir_base ctx' r)) v \<and> i_type (ir_base ctx' r) \<noteq> IR_VOID \<and>
        (0 < r \<longrightarrow> \<not> IR_IS_CONST_OP (i_op (ir_base ctx' r)) \<and>
          (pure_op (i_op (ir_base ctx' r)) \<longrightarrow> eval h ctx' \<rho> (ir_base ctx' r) = Some v))"
      unfolding f(1,2) using assms(1,3) r f(3) s(2) unfolding models_def pool_ext_def by auto
  qed
  moreover have "canon ctx" if "canon ctx'" unfolding canon_def
  proof (intro allI impI)
    fix r
    assume r: "- consts_count ctx < r \<and> r < 0 \<and> \<not> IR_IS_SYM_CONST (i_op (ir_base ctx r))"
    then have "same_but_op1 (ir_base ctx' r) (ir_base ctx r)" "- consts_count ctx' < r"
      using assms(3) by (auto simp: pool_ext_def)
    then show "canonical (i_type (ir_base ctx r)) (i_val (ir_base ctx r))"
      using that r same_but_op1_fields by (auto simp: canon_def)
  qed
  ultimately show ?thesis
    using assms(2,3) pool_ext_den [OF assms(3)] by (simp add: grows_def pool_ext_def)
qed

lemma grows_refl: "pool_ok ctx \<Longrightarrow> models h ctx \<rho> \<Longrightarrow> grows h ctx \<rho> ctx \<rho>"
  by (simp add: grows_def map_le_def)

lemma grows_trans: "grows h c1 r1 c2 r2 \<Longrightarrow> grows h c2 r2 c3 r3 \<Longrightarrow> grows h c1 r1 c3 r3"
  unfolding grows_def using map_le_trans by auto

lemma names_den:
  assumes "pool_ok ctx" "names ctx r w (ir_type_num t) t n"
  shows "den ctx \<rho> r = Some (t, cv t w)"
proof -
  have sym: "\<not> IR_IS_SYM_CONST (ir_type_num t)" by (cases t) (simp_all add: ir_defs)
  show ?thesis
    using assms sym by (auto simp: names_def den_def Let_def pool_ok_def predefined_ok_def same_const_def cv_def
        ir_defs split: if_splits)
qed

lemma ir_const_grows:
  assumes "pool_ok ctx" "models h ctx \<rho>" "t \<noteq> IR_VOID" "ir_const ctx w t = (ctx', r)"
  shows "grows h ctx \<rho> ctx' \<rho>" "den ctx' \<rho> r = Some (t, cv t w)"
proof -
  have c: "t = IR_BOOL \<or> const_ok (mk_const (ir_type_num t) t 0 0 w)"
    using assms(3) by (auto simp: const_ok_def mk_const_def)
  have r: "ir_const_ex ctx w t (ir_type_num t) 0 = (ctx', r)" using assms(4) by (simp add: ir_const_def)
  note s = ir_const_ex_spec [OF assms(1) c r]
  show "grows h ctx \<rho> ctx' \<rho>" using s assms(2) by (intro pool_ext_grows) auto
  show "den ctx' \<rho> r = Some (t, cv t w)" using s by (intro names_den) auto
qed

lemma grows_den: "grows h ctx \<rho> ctx' \<rho>' \<Longrightarrow> den ctx \<rho> r = Some d \<Longrightarrow> den ctx' \<rho>' r = Some d"
  by (auto simp: grows_def map_le_def dom_def)

section \<open>Operations on operands\<close>

lemma sem_bin_simps:
  "sem_bin h IR_EQ t t1 t2 v1 v2 = sem_eq t t1 t2 (v1 = v2) (fp_eq t1 v1 v2)"
  "sem_bin h IR_NE t t1 t2 v1 v2 = sem_eq t t1 t2 (v1 \<noteq> v2) (\<not> fp_eq t1 v1 v2)"
  "sem_bin h IR_LT t t1 t2 v1 v2 = sem_ord t t1 t2 (num t1 v1 < num t1 v2) (fp_lt t1 v1 v2)"
  "sem_bin h IR_GE t t1 t2 v1 v2 = sem_ord t t1 t2 (num t1 v1 \<ge> num t1 v2) (fp_le t1 v2 v1)"
  "sem_bin h IR_LE t t1 t2 v1 v2 = sem_ord t t1 t2 (num t1 v1 \<le> num t1 v2) (fp_le t1 v1 v2)"
  "sem_bin h IR_GT t t1 t2 v1 v2 = sem_ord t t1 t2 (num t1 v1 > num t1 v2) (fp_lt t1 v2 v1)"
  "sem_bin h IR_ULT t t1 t2 v1 v2 = sem_eq t t1 t2 (v1 < v2) (\<not> fp_le t1 v2 v1)"
  "sem_bin h IR_UGE t t1 t2 v1 v2 = sem_eq t t1 t2 (v1 \<ge> v2) (\<not> fp_lt t1 v1 v2)"
  "sem_bin h IR_ULE t t1 t2 v1 v2 = sem_eq t t1 t2 (v1 \<le> v2) (\<not> fp_lt t1 v2 v1)"
  "sem_bin h IR_UGT t t1 t2 v1 v2 = sem_eq t t1 t2 (v1 > v2) (\<not> fp_le t1 v1 v2)"
  "sem_bin h IR_ORDERED t t1 t2 v1 v2 = (if IR_IS_TYPE_FP t1 \<and> t1 = t2
     then mk_bool t (\<not> fp_isnan t1 v1 \<and> \<not> fp_isnan t1 v2) else None)"
  "sem_bin h IR_UNORDERED t t1 t2 v1 v2 = (if IR_IS_TYPE_FP t1 \<and> t1 = t2
     then mk_bool t (fp_isnan t1 v1 \<or> fp_isnan t1 v2) else None)"
  "sem_bin h IR_ADD t t1 t2 v1 v2 = sem_arith t t1 t2 (v1 + v2) (fp_add h t v1 v2)"
  "sem_bin h IR_SUB t t1 t2 v1 v2 = sem_arith t t1 t2 (v1 - v2) (fp_sub h t v1 v2)"
  "sem_bin h IR_MUL t t1 t2 v1 v2 = sem_arith t t1 t2 (v1 * v2) (fp_mul h t v1 v2)"
  "sem_bin h IR_DIV t t1 t2 v1 v2 = sem_div h t t1 t2 v1 v2"
  "sem_bin h IR_MOD t t1 t2 v1 v2 = sem_mod t t1 t2 v1 v2"
  "sem_bin h IR_ADD_OV t t1 t2 v1 v2 = (if arith_type t \<and> t1 = t \<and> t2 = t then Some (wrap t (v1 + v2)) else None)"
  "sem_bin h IR_SUB_OV t t1 t2 v1 v2 = (if arith_type t \<and> t1 = t \<and> t2 = t then Some (wrap t (v1 - v2)) else None)"
  "sem_bin h IR_MUL_OV t t1 t2 v1 v2 = (if arith_type t \<and> t1 = t \<and> t2 = t then Some (wrap t (v1 * v2)) else None)"
  "sem_bin h IR_OR t t1 t2 v1 v2 = sem_bits t t1 t2 (v1 OR v2)"
  "sem_bin h IR_AND t t1 t2 v1 v2 = sem_bits t t1 t2 (v1 AND v2)"
  "sem_bin h IR_XOR t t1 t2 v1 v2 = sem_bits t t1 t2 (v1 XOR v2)"
  "sem_bin h IR_SHL t t1 t2 v1 v2 = (if shift_ok t t1 t2 v2 then Some (wrap t (push_bit (nat v2) v1)) else None)"
  "sem_bin h IR_SHR t t1 t2 v1 v2 = (if shift_ok t t1 t2 v2 then Some (drop_bit (nat v2) v1) else None)"
  "sem_bin h IR_SAR t t1 t2 v1 v2 =
     (if shift_ok t t1 t2 v2 then Some (wrap t (drop_bit (nat v2) (sval (type_bits t) v1))) else None)"
  "sem_bin h IR_ROL t t1 t2 v1 v2 = (if shift_ok t t1 t2 v2 then Some (rol_val (type_bits t) (nat v2) v1) else None)"
  "sem_bin h IR_ROR t t1 t2 v1 v2 = (if shift_ok t t1 t2 v2 then Some (ror_val (type_bits t) (nat v2) v1) else None)"
  "sem_bin h IR_MIN t t1 t2 v1 v2 = sem_minmax t t1 t2 v1 v2 (num t v1 \<le> num t v2) (fp_le t v1 v2)"
  "sem_bin h IR_MAX t t1 t2 v1 v2 = sem_minmax t t1 t2 v1 v2 (num t v1 \<ge> num t v2) (fp_le t v2 v1)"
  by (simp_all add: sem_bin_def)

lemma sem_un_simps:
  "sem_un h IR_NEG t t1 v1 = sem_arith t t1 t (- v1) (fp_neg t v1)"
  "sem_un h IR_ABS t t1 v1 = (if IR_IS_TYPE_FP t then (if t1 = t then Some (fp_abs t v1) else None)
     else if IR_IS_TYPE_SIGNED t \<and> compat t1 t \<and> num t v1 \<noteq> - (2 ^ (type_bits t - 1))
     then Some (wrap t \<bar>num t v1\<bar>) else None)"
  "sem_un h IR_SEXT t t1 v1 = (if int_type t \<and> int_type t1 \<and> ir_type_size t1 < ir_type_size t
     then Some (wrap t (sval (type_bits t1) v1)) else None)"
  "sem_un h IR_ZEXT t t1 v1 = (if int_type t \<and> int_type t1 \<and> ir_type_size t1 < ir_type_size t then Some v1 else None)"
  "sem_un h IR_TRUNC t t1 v1 = (if int_type t \<and> int_type t1 \<and> ir_type_size t < ir_type_size t1
     then to_type t (wrap t v1) else None)"
  "sem_un h IR_BITCAST t t1 v1 = (if t \<noteq> IR_VOID \<and> t1 \<noteq> IR_VOID \<and> ir_type_size t = ir_type_size t1
     then to_type t v1 else None)"
  "sem_un h IR_INT2FP t t1 v1 = (if IR_IS_TYPE_FP t \<and> int_type t1 then Some (wrap t (fp_of_int h t (num t1 v1))) else None)"
  "sem_un h IR_FP2INT t t1 v1 = (if arith_type t \<and> t \<noteq> IR_ADDR \<and> IR_IS_TYPE_FP t1 then
     (case fp_trunc h t1 v1 of None \<Rightarrow> None | Some i \<Rightarrow> if in_range t i then Some (wrap t i) else None) else None)"
  "sem_un h IR_FP2FP t t1 v1 = (if IR_IS_TYPE_FP t \<and> IR_IS_TYPE_FP t1
     then Some (if t = t1 then v1 else wrap t (fp_conv h t1 t v1)) else None)"
  "sem_un h IR_NOT t t1 v1 = (if t = IR_BOOL \<and> t1 = IR_BOOL then Some (1 - v1)
     else if arith_type t \<and> compat t1 t then Some (wrap t (NOT v1)) else None)"
  "sem_un h IR_BSWAP t t1 v1 = (if arith_type t \<and> compat t1 t then Some (bswap_val (ir_type_size t) v1) else None)"
  "sem_un h IR_COPY t t1 v1 = (if compat t1 t \<and> t1 \<noteq> IR_VOID then Some v1 else None)"
  by (simp_all add: sem_un_def)

text \<open>An instruction with its operands' types and values.\<close>

definition un_at :: "host \<Rightarrow> ir_ctx \<Rightarrow> (ir_ref \<rightharpoonup> int) \<Rightarrow> ir_insn \<Rightarrow> ir_type \<Rightarrow> int \<Rightarrow> int \<Rightarrow> bool" where
  "un_at h ctx \<rho> i t1 v1 v \<longleftrightarrow>
     den ctx \<rho> (i_op1 i) = Some (t1, v1) \<and> okval t1 v1 \<and> t1 \<noteq> IR_VOID \<and> t1 = i_type (ir_base ctx (i_op1 i)) \<and>
     sem_un h (i_op i) (i_type i) t1 v1 = Some v"

definition bin_at :: "host \<Rightarrow> ir_ctx \<Rightarrow> (ir_ref \<rightharpoonup> int) \<Rightarrow> ir_insn \<Rightarrow>
    ir_type \<Rightarrow> int \<Rightarrow> ir_type \<Rightarrow> int \<Rightarrow> int \<Rightarrow> bool" where
  "bin_at h ctx \<rho> i t1 v1 t2 v2 v \<longleftrightarrow>
     den ctx \<rho> (i_op1 i) = Some (t1, v1) \<and> okval t1 v1 \<and> t1 \<noteq> IR_VOID \<and> t1 = i_type (ir_base ctx (i_op1 i)) \<and>
     den ctx \<rho> (i_op2 i) = Some (t2, v2) \<and> okval t2 v2 \<and> t2 \<noteq> IR_VOID \<and> t2 = i_type (ir_base ctx (i_op2 i)) \<and>
     sem_bin h (i_op i) (i_type i) t1 t2 v1 v2 = Some v"

lemma eval_un:
  assumes "pool_ok ctx" "models h ctx \<rho>" "eval h ctx \<rho> i = Some v" "unary_op (i_op i)"
  shows "\<exists>t1 v1. un_at h ctx \<rho> i t1 v1 v"
  using assms(3,4) den_okval [OF assms(1,2)] unfolding eval_def un_at_def
  by (auto split: option.splits)

lemma eval_bin:
  assumes "pool_ok ctx" "models h ctx \<rho>" "eval h ctx \<rho> i = Some v" "binary_op (i_op i)"
  shows "\<exists>t1 v1 t2 v2. bin_at h ctx \<rho> i t1 v1 t2 v2 v"
proof -
  have "\<not> unary_op (i_op i)" using assms(4) by (auto simp: unary_op_def binary_op_def)
  then show ?thesis
    using assms(3,4) den_okval [OF assms(1,2)] unfolding eval_def bin_at_def
    by (auto split: option.splits)
qed

text \<open>The instruction behind an operand.\<close>

lemma const_not_pure: "k \<le> IR_C_FLOAT \<Longrightarrow> \<not> pure_op k"
  by (auto simp: pure_op_def unary_op_def binary_op_def)

lemma const_ok_not_pure: "const_ok i \<Longrightarrow> \<not> pure_op (i_op i)"
proof -
  have "ir_type_num (i_type i) \<le> IR_C_FLOAT" by (cases "i_type i") simp_all
  then show "const_ok i \<Longrightarrow> \<not> pure_op (i_op i)"
    using const_not_pure unfolding const_ok_def
    by (auto simp: ir_defs pure_op_def unary_op_def binary_op_def)
qed

lemma look:
  assumes "pool_ok ctx" "models h ctx \<rho>" "den ctx \<rho> r = Some (t, v)" "pure_op (i_op (ir_base ctx r))"
  shows "eval h ctx \<rho> (ir_base ctx r) = Some v"
proof (cases "r < 0")
  case True
  then have "- consts_count ctx < r" using assms(3) by (auto simp: den_def Let_def split: if_splits)
  then have "\<not> pure_op (i_op (ir_base ctx r))"
    using pool_cases [OF assms(1) _ True] const_ok_not_pure const_not_pure assms(1)
    by (auto simp: pool_ok_def predefined_ok_def)
  then show ?thesis using assms(4) by simp
next
  case False
  then have "\<rho> r = Some v" "0 < r" using assms(3) by (auto simp: den_def Let_def split: if_splits)
  then show ?thesis using assms(2,4) by (auto simp: models_def)
qed

section \<open>Cases the soundness theorem leaves out\<close>

text \<open>
  The rules do not keep the value in these situations (see the counterexamples in the theory
  \<open>Fold_Defects\<close>), or only up to properties of floating-point arithmetic that the parameter
  \<open>host\<close> does not promise:
  \<^item> \<open>sext_narrow_bad\<close>: a sign-extended value compared with a constant outside the range of the
    narrow type, or with another signedness; \<open>bool_narrow_bad\<close>: a widened boolean compared with a
    constant other than 0 and 1 or by an ordering;
  \<^item> \<open>EQ\<close> of two float constants; unsigned orderings of a floating-point value with itself;
    \<open>GE(ABS x, 0.0)\<close>;
  \<^item> division of a negated value; the overflow-checked product of -1 and the least 64-bit integer; a
    32-bit or 64-bit constant rotated by the constant 0 (a shift by the width in C); a masked value
    shifted by a count of a narrower type (the mask is compared at the width of the count); \<open>c1 - (c2 - x)\<close>; \<open>(a & b) & b\<close> and its relatives;
  \<^item> floating-point arithmetic, minimum and maximum, and conversions of conversions;
  \<^item> symbolic constants whose string number is taken for a value.
\<close>

definition is_cmp :: "ir_op \<Rightarrow> bool" where
  "is_cmp op \<longleftrightarrow> IR_EQ \<le> op \<and> op \<le> IR_UGT"

definition is_signed_cmp :: "ir_op \<Rightarrow> bool" where
  "is_signed_cmp op \<longleftrightarrow> IR_LT \<le> op \<and> op \<le> IR_GT"

definition sym_ref :: "ir_ctx \<Rightarrow> ir_ref \<Rightarrow> bool" where
  "sym_ref ctx r \<longleftrightarrow> r < 0 \<and> IR_IS_SYM_CONST (i_op (ir_base ctx r))"

definition sext_narrow_bad :: "ir_op \<Rightarrow> ir_type \<Rightarrow> ir_type \<Rightarrow> u64 \<Rightarrow> bool" where
  "sext_narrow_bad op t src w \<longleftrightarrow>
     (let n = type_bits src in
      if IR_IS_TYPE_SIGNED t
      then - (2 ^ n) \<le> val_i64 w \<and> val_i64 w < - (2 ^ (n - 1)) \<or> 2 ^ (n - 1) \<le> val_i64 w \<and> val_i64 w < 2 ^ n
      else 2 ^ (n - 1) \<le> val_u64 w) \<or>
     is_signed_cmp op \<and> IR_IS_TYPE_SIGNED t \<noteq> IR_IS_TYPE_SIGNED src"

definition bool_narrow_bad :: "ir_op \<Rightarrow> u64 \<Rightarrow> bool" where
  "bool_narrow_bad op w \<longleftrightarrow> \<not> ((op = IR_EQ \<or> op = IR_NE) \<and> (w = 0 \<or> w = 1))"

definition excl_cmp :: "ir_ctx \<Rightarrow> ir_insn \<Rightarrow> ir_insn \<Rightarrow> ir_insn \<Rightarrow> bool" where
  "excl_cmp ctx a x y \<longleftrightarrow>
     (let op = i_op a; src = i_type (ir_base ctx (i_op1 x)) in
      op = IR_EQ \<and> i_op x = IR_C_FLOAT \<and> i_op y = IR_C_FLOAT \<or>
      is_cmp op \<and> IR_IS_CONST_OP (i_op y) \<and>
        (if src = IR_BOOL then (i_op x = IR_SEXT \<or> i_op x = IR_ZEXT) \<and> bool_narrow_bad op (i_val y)
         else i_op x = IR_SEXT \<and> sext_narrow_bad op (i_type x) src (i_val y)) \<or>
      is_signed_cmp op \<and> i_op x = IR_SEXT \<and> i_op y = IR_SEXT \<and>
        IR_IS_TYPE_SIGNED (i_type x) \<noteq> IR_IS_TYPE_SIGNED src \<or>
      IR_ULT \<le> op \<and> op \<le> IR_UGT \<and> i_op1 a = i_op2 a \<and> IR_IS_TYPE_FP (i_type x) \<or>
      op = IR_GE \<and> i_op x = IR_ABS \<and> IR_IS_TYPE_FP (i_type x) \<or>
      is_cmp op \<and> i_op x = IR_FP2FP)"

definition excl_arith :: "ir_ctx \<Rightarrow> ir_insn \<Rightarrow> ir_insn \<Rightarrow> ir_insn \<Rightarrow> bool" where
  "excl_arith ctx a x y \<longleftrightarrow>
     (let op = i_op a in
      op = IR_DIV \<and> i_op x = IR_NEG \<or>
      op = IR_MUL_OV \<and> val_i64 (i_val x) = -1 \<and> val_i64 (i_val y) = - (2 ^ 63) \<or>
      (op = IR_ROL \<or> op = IR_ROR) \<and> IR_IS_CONST_OP (i_op x) \<and> i_val y = 0 \<and> 4 \<le> ir_type_size (i_type a) \<or>
      (op = IR_SHL \<or> op = IR_SHR) \<and> i_op x = IR_AND \<and> ir_type_size (i_type y) < ir_type_size (i_type a) \<or>
      op = IR_SUB \<and> i_op y = IR_SUB \<and> IR_IS_CONST_OP (i_op x) \<and> \<not> num_const ctx (i_op2 y) \<and> num_const ctx (i_op1 y) \<or>
      (op = IR_AND \<or> op = IR_OR \<or> op = IR_MIN \<or> op = IR_MAX) \<and> i_op x = op \<and>
        (i_op1 x = i_op2 a \<or> i_op2 x = i_op2 a) \<or>
      IR_IS_TYPE_FP (i_type a) \<and>
        (IR_ADD \<le> op \<and> op \<le> IR_MOD \<or> op = IR_MIN \<or> op = IR_MAX \<or> op = IR_FP2FP \<and> i_op x = IR_FP2FP) \<or>
      op = IR_FP2INT \<and> i_op x = IR_INT2FP)"

definition excl_sym :: "ir_ctx \<Rightarrow> ir_insn \<Rightarrow> ir_insn \<Rightarrow> ir_insn \<Rightarrow> ir_insn \<Rightarrow> bool" where
  "excl_sym ctx a x y z \<longleftrightarrow>
     (let op = i_op a in
      (op = IR_TRUNC \<or> op = IR_SHL \<or> op = IR_SHR) \<and> i_op x = IR_AND \<and> sym_ref ctx (i_op2 x) \<or>
      (op = IR_OR \<or> op = IR_ADD) \<and>
        (sym_ref ctx (i_op1 (ir_base ctx (i_op2 x))) \<or> sym_ref ctx (i_op1 (ir_base ctx (i_op2 y)))) \<or>
      op = IR_COND \<and>
        (sym_ref ctx (i_op2 a) \<and> i_val y = 1 \<or> sym_ref ctx (i_op3 a) \<and> i_val z = 0 \<or>
         sym_ref ctx (i_op2 x) \<and> i_val (ir_base ctx (i_op2 x)) = 0))"

definition fold_excluded :: "ir_ctx \<Rightarrow> ir_insn \<Rightarrow> bool" where
  "fold_excluded ctx a \<longleftrightarrow>
     (let x = ir_base ctx (i_op1 a); y = ir_base ctx (i_op2 a); z = ir_base ctx (i_op3 a)
      in excl_cmp ctx a x y \<or> excl_arith ctx a x y \<or> excl_sym ctx a x y z)"

section \<open>The interface between rules and engine\<close>

locale fold_site =
  fixes h :: host and ctx :: ir_ctx and \<rho> :: "ir_ref \<rightharpoonup> int" and a :: ir_insn and v :: int
  assumes pool: "pool_ok ctx" and mods: "models h ctx \<rho>" and cano: "canon ctx"
    and nolists: "use_lists ctx = None" and nonempty: "0 < insns_count ctx" and ev: "eval h ctx \<rho> a = Some v"
begin

lemma type_ok: "i_type a \<noteq> IR_VOID" "okval (i_type a) v" "pure_op (i_op a)"
  using eval_okval [OF pool mods ev] by auto

lemma unE:
  assumes "unary_op (i_op a)"
  obtains t1 v1 where "un_at h ctx \<rho> a t1 v1 v"
  using eval_un [OF pool mods ev assms] by blast

lemma binE:
  assumes "binary_op (i_op a)"
  obtains t1 v1 t2 v2 where "bin_at h ctx \<rho> a t1 v1 t2 v2 v"
  using eval_bin [OF pool mods ev assms] by blast

text \<open>The operands of an operand that is itself a unary or binary operation.\<close>

lemma look_un:
  assumes "den ctx \<rho> r = Some (t, w)" "unary_op (i_op (ir_base ctx r))"
  obtains t1 v1 where "un_at h ctx \<rho> (ir_base ctx r) t1 v1 w" "t = i_type (ir_base ctx r)"
  using eval_un [OF pool mods look [OF pool mods assms(1)] assms(2)] assms(2) den_okval [OF pool mods assms(1)]
  by (auto simp: pure_op_def)

lemma look_bin:
  assumes "den ctx \<rho> r = Some (t, w)" "binary_op (i_op (ir_base ctx r))"
  obtains t1 v1 t2 v2 where "bin_at h ctx \<rho> (ir_base ctx r) t1 v1 t2 v2 w" "t = i_type (ir_base ctx r)"
  using eval_bin [OF pool mods look [OF pool mods assms(1)] assms(2)] assms(2) den_okval [OF pool mods assms(1)]
  by (auto simp: pure_op_def)

lemma const_opnd:
  assumes "den ctx \<rho> r = Some (t, w)" "IR_IS_CONST_OP (i_op (ir_base ctx r))"
  shows "r < 0" "t = const_type (i_op (ir_base ctx r))" "w = cv t (i_val (ir_base ctx r))"
    "canonical t (i_val (ir_base ctx r))"
  using den_const [OF pool mods cano assms] by auto

lemma num_opnd:
  assumes "den ctx \<rho> r = Some (t, w)" "num_const ctx r"
  shows "w = cv t (i_val (ir_base ctx r))" "canonical t (i_val (ir_base ctx r))" "t = i_type (ir_base ctx r)"
  using assms cano by (auto simp: num_const_def den_def Let_def canon_def IR_IS_CONST_REF_def split: if_splits)

lemma restart_same:
  assumes "eval h ctx \<rho> a' = Some v" "compat (i_type a') (i_type a)"
  shows "step_ok h ctx \<rho> a v (Fold_Restart ctx a')"
  using assms grows_refl [OF pool mods] by (auto simp: step_ok_def)

lemma const_restart:
  assumes "t \<noteq> IR_VOID"
    and "\<And>ctx' r. grows h ctx \<rho> ctx' \<rho> \<Longrightarrow> den ctx' \<rho> r = Some (t, cv t w) \<Longrightarrow>
      eval h ctx' \<rho> (k r) = Some v \<and> compat (i_type (k r)) (i_type a)"
  shows "step_ok h ctx \<rho> a v (fold_const_restart ctx w t k)"
proof -
  obtain ctx' r where c: "ir_const ctx w t = (ctx', r)" by fastforce
  show ?thesis
    using ir_const_grows [OF pool mods assms(1) c] assms(2) [of ctx' r] c
    by (auto simp: fold_const_restart_def step_ok_def)
qed

lemma copyI: "den ctx \<rho> r = Some (t, v) \<Longrightarrow> compat t (i_type a) \<Longrightarrow> copy_ok ctx \<rho> a v r"
  by (auto simp: copy_ok_def)

lemma bool_copy:
  "i_type a = IR_BOOL \<Longrightarrow> copy_ok ctx \<rho> a v IR_TRUE \<longleftrightarrow> v = 1"
  "i_type a = IR_BOOL \<Longrightarrow> copy_ok ctx \<rho> a v IR_FALSE \<longleftrightarrow> v = 0"
  using pool by (auto simp: copy_ok_def den_def pool_ok_def predefined_ok_def ir_defs cv_def)

lemma fold_bool:
  "i_type a = IR_BOOL \<Longrightarrow> step_ok h ctx \<rho> a v (IR_FOLD_BOOL c) \<longleftrightarrow> v = of_bool c"
  using bool_copy by (auto simp: IR_FOLD_BOOL_def)

end

definition key_match :: "fold_key \<Rightarrow> ir_ctx \<Rightarrow> ir_insn \<Rightarrow> bool" where
  "key_match k ctx a \<longleftrightarrow>
     (case k of (op, k1, k2) \<Rightarrow> i_op a = op \<and> (k1 = ANY \<or> i_op (ir_base ctx (i_op1 a)) = k1) \<and>
        (k2 = ANY \<or> i_op (ir_base ctx (i_op2 a)) = k2))"

definition sound_rule :: "fold_rule \<Rightarrow> bool" where
  "sound_rule R \<longleftrightarrow>
     (\<forall>k\<in>set (fst R). \<forall>h ctx \<rho> a v. fold_site h ctx \<rho> a v \<longrightarrow> key_match k ctx a \<longrightarrow> \<not> fold_excluded ctx a \<longrightarrow>
        step_ok h ctx \<rho> a v (snd R h ctx a (ir_base ctx (i_op1 a)) (ir_base ctx (i_op2 a)) (ir_base ctx (i_op3 a))))"

lemma sound_ruleI:
  assumes "\<And>h ctx \<rho> a v op k1 k2. (op, k1, k2) \<in> set ks \<Longrightarrow> fold_site h ctx \<rho> a v \<Longrightarrow> i_op a = op \<Longrightarrow>
     (k1 = ANY \<or> i_op (ir_base ctx (i_op1 a)) = k1) \<Longrightarrow> (k2 = ANY \<or> i_op (ir_base ctx (i_op2 a)) = k2) \<Longrightarrow>
     \<not> fold_excluded ctx a \<Longrightarrow>
     step_ok h ctx \<rho> a v (b h ctx a (ir_base ctx (i_op1 a)) (ir_base ctx (i_op2 a)) (ir_base ctx (i_op3 a)))"
  shows "sound_rule (ks, b)"
  using assms by (auto simp: sound_rule_def key_match_def)

end
