(* ===== verification/Fold_Grow.thy ===== *)
theory Fold_Grow
  imports Fold_Site
begin

text \<open>
  How a context grows while folding: a data instruction that is found again or appended to the
  array gets the value it computes, and everything that had a value keeps it.
\<close>

section \<open>Adding values\<close>

text \<open>A data instruction whose operands have values may be given the value it computes.\<close>

lemma grows_value:
  assumes ok: "pool_ok ctx" and m: "models h ctx \<rho>" and ev: "eval h ctx \<rho> i = Some v"
    and r: "0 < r" "r < insns_count ctx" "ir_base ctx r = i"
  shows "grows h ctx \<rho> ctx (\<rho>(r \<mapsto> v))" "den ctx (\<rho>(r \<mapsto> v)) r = Some (i_type i, v)"
proof -
  have p: "okval (i_type i) v" "i_type i \<noteq> IR_VOID" "pure_op (i_op i)" using eval_okval [OF ok m ev] by auto
  have same: "\<rho> r = Some w \<Longrightarrow> w = v" for w
    using m r p(3) ev by (auto simp: models_def)
  have le: "den ctx \<rho> \<subseteq>\<^sub>m den ctx (\<rho>(r \<mapsto> v))"
    using same by (auto simp: map_le_def dom_def den_def Let_def split: if_splits)
  have c: "\<not> IR_IS_CONST_OP (i_op i)" using p(3) const_not_pure by (auto simp: ir_defs)
  have n: "- consts_count ctx < r" using ok r by (simp add: pool_ok_def)
  have "models h ctx (\<rho>(r \<mapsto> v))"
    using m p r c eval_mono [OF le] ev n unfolding models_def
    by (auto split: if_splits)
  then show "grows h ctx \<rho> ctx (\<rho>(r \<mapsto> v))" using ok le by (simp add: grows_def)
  show "den ctx (\<rho>(r \<mapsto> v)) r = Some (i_type i, v)" using r by (simp add: den_def)
qed


text \<open>The same for an instruction appended to the array.\<close>

definition appended :: "ir_ctx \<Rightarrow> ir_insn \<Rightarrow> ir_ctx \<Rightarrow> bool" where
  "appended ctx a ctx' \<longleftrightarrow>
     insns_count ctx' = insns_count ctx + 1 \<and> (\<forall>q. q \<noteq> insns_count ctx \<longrightarrow> ir_base ctx' q = ir_base ctx q) \<and>
     (let i = ir_base ctx' (insns_count ctx) in
        i_op i = i_op a \<and> i_type i = i_type a \<and> i_op1 i = i_op1 a \<and> i_op2 i = i_op2 a \<and> i_op3 i = i_op3 a) \<and>
     consts_count ctx' = consts_count ctx \<and> const_hash ctx' = const_hash ctx \<and>
     const_hash_mask ctx' = const_hash_mask ctx"

lemma eval_cong:
  "i_op i = i_op a \<Longrightarrow> i_type i = i_type a \<Longrightarrow> i_op1 i = i_op1 a \<Longrightarrow> i_op2 i = i_op2 a \<Longrightarrow> i_op3 i = i_op3 a \<Longrightarrow>
   eval h ctx \<rho> i = eval h ctx \<rho> a"
  unfolding eval_def by (simp cong: option.case_cong prod.case_cong)

lemma const_chain_cong:
  "(\<And>q. q < 0 \<Longrightarrow> f q = g q) \<Longrightarrow> r \<le> 0 \<Longrightarrow> const_chain f r = const_chain g r"
proof (induction f r rule: const_chain.induct)
  case (1 f r)
  then show ?case by (subst (1 2) const_chain.simps) auto
qed

lemma pool_ok_cong:
  assumes "pool_ok ctx" "\<And>q. q < 0 \<Longrightarrow> ir_base ctx' q = ir_base ctx q" "consts_count ctx' = consts_count ctx"
    "const_hash ctx' = const_hash ctx" "const_hash_mask ctx' = const_hash_mask ctx"
  shows "pool_ok ctx'"
proof -
  have b: "r \<le> -4 \<Longrightarrow> ir_base ctx' r = ir_base ctx r" for r using assms(2) by simp
  have ch: "chains_ok (consts_count ctx) (ir_base ctx) (const_hash_mask ctx) (const_hash ctx)"
    using assms(1) by (simp add: pool_ok_def)
  have "const_hash ctx k \<le> 0" for k using chains_head [OF ch, of k] by auto
  then have "const_chain (ir_base ctx') (const_hash ctx k) = const_chain (ir_base ctx) (const_hash ctx k)" for k
    using const_chain_cong assms(2) by metis
  then have "chains_ok (consts_count ctx) (ir_base ctx') (const_hash_mask ctx) (const_hash ctx)"
    using ch b by (auto simp: chains_ok_def)
  moreover have "predefined_ok (ir_base ctx')" using assms(1,2) by (simp add: pool_ok_def predefined_ok_def)
  moreover have "inj_on (\<lambda>r. const_key (ir_base ctx' r)) {r. - consts_count ctx < r \<and> r \<le> -4}"
    using assms(1) b by (simp add: pool_ok_def inj_on_def)
  ultimately show ?thesis using assms b by (simp add: pool_ok_def)
qed

lemma appended_den:
  assumes "appended ctx a ctx'" "0 < insns_count ctx"
  shows "den ctx \<rho> \<subseteq>\<^sub>m den ctx' \<rho>"
  using assms by (auto simp: appended_def map_le_def dom_def den_def Let_def split: if_splits)

lemma appended_value:
  assumes ok: "pool_ok ctx" and m: "models h ctx \<rho>" and ev: "eval h ctx \<rho> a = Some v"
    and app: "appended ctx a ctx'" and n: "0 < insns_count ctx"
  defines "\<rho>' \<equiv> \<rho>(insns_count ctx \<mapsto> v)"
  shows "pool_ok ctx'" "models h ctx' \<rho>'" "den ctx \<rho> \<subseteq>\<^sub>m den ctx' \<rho>'"
    "den ctx' \<rho>' (insns_count ctx) = Some (i_type a, v)"
proof -
  let ?i = "ir_base ctx' (insns_count ctx)"
  show ok': "pool_ok ctx'" using app n by (intro pool_ok_cong [OF ok]) (auto simp: appended_def)
  have le: "den ctx \<rho> \<subseteq>\<^sub>m den ctx' \<rho>" by (rule appended_den [OF app n])
  have m': "models h ctx' \<rho>"
    using m app eval_mono [OF le] unfolding models_def appended_def by fastforce
  have "eval h ctx' \<rho> ?i = eval h ctx' \<rho> a" using app by (intro eval_cong) (simp_all add: appended_def Let_def)
  then have e: "eval h ctx' \<rho> ?i = Some v" using eval_mono [OF le ev] by simp
  note g = grows_value [OF ok' m' e n _ refl]
  show "models h ctx' \<rho>'" "den ctx \<rho> \<subseteq>\<^sub>m den ctx' \<rho>'"
    using g(1) app map_le_trans [OF le] by (simp_all add: grows_def appended_def \<rho>'_def)
  show "den ctx' \<rho>' (insns_count ctx) = Some (i_type a, v)"
    using g(2) app by (simp add: appended_def Let_def \<rho>'_def)
qed

lemma ir_emit_appended:
  assumes "ir_emit ctx op t n x y z = (ctx', r)" "i_op a = op" "i_type a = t" "i_op1 a = x" "i_op2 a = y" "i_op3 a = z"
  shows "appended ctx a ctx'" "r = insns_count ctx" "prev_insn_chain ctx' = prev_insn_chain ctx"
    "fold_cse_limit ctx' = fold_cse_limit ctx" "use_lists ctx = None \<Longrightarrow> use_lists ctx' = None"
  using assms by (auto simp: ir_emit_def ir_next_insn_def ir_grow_top_def Let_def appended_def mk_insn_def)

section \<open>Casts\<close>

lemma ir_emit_grows:
  assumes "pool_ok ctx" "models h ctx \<rho>" "eval h ctx \<rho> a = Some v" "0 < insns_count ctx" "use_lists ctx = None"
    and run: "ir_emit ctx (i_op a) (i_type a) n (i_op1 a) (i_op2 a) (i_op3 a) = (ctx', r)"
  shows "\<exists>\<rho>'. grows h ctx \<rho> ctx' \<rho>' \<and> den ctx' \<rho>' r = Some (i_type a, v)"
proof -
  note em = ir_emit_appended [OF run refl refl refl refl refl]
  note av = appended_value [OF assms(1-3) em(1) assms(4)]
  have "canon ctx' \<longrightarrow> canon ctx" using em(1) assms(4) by (auto simp: canon_def appended_def)
  then show ?thesis using av em assms(5) unfolding grows_def by (auto simp: appended_def)
qed

lemma ir_fold_cast_grows:
  assumes "pool_ok ctx" "models h ctx \<rho>" "0 < insns_count ctx" "use_lists ctx = None"
    and d: "den ctx \<rho> r = Some (t1, w)" and co: "compat t1 t" and run: "ir_fold_cast ctx r t = (ctx', r')"
  shows "\<exists>\<rho>'. grows h ctx \<rho> ctx' \<rho>' \<and> den ctx' \<rho>' r' = Some (t, w)"
proof -
  have t1: "t1 = i_type (ir_base ctx r)" "t1 \<noteq> IR_VOID" using den_okval [OF assms(1,2) d] by auto
  show ?thesis
  proof (cases "t1 = t")
    case True
    then show ?thesis using run d t1 grows_refl [OF assms(1,2)] by (auto simp: ir_fold_cast_def)
  next
    case False
    then have w: "wide t1" "wide t" using co by (auto simp: compat_def)
    then have v: "t \<noteq> IR_VOID" by (auto simp: wide_def)
    show ?thesis
    proof (cases "IR_IS_CONST_REF r \<and> \<not> IR_IS_SYM_CONST (i_op (ir_base ctx r))")
      case True
      then have c: "ir_const ctx (i_val (ir_base ctx r)) t = (ctx', r')" using run False t1 by (simp add: ir_fold_cast_def)
      have "cv t (i_val (ir_base ctx r)) = w"
        using d True w by (auto simp: den_def Let_def IR_IS_CONST_REF_def cv_def wide_def split: if_splits)
      then show ?thesis using ir_const_grows [OF assms(1,2) v c] by auto
    next
      case ins: False
      define i where "i = mk_insn IR_BITCAST t 0 r IR_UNUSED IR_UNUSED"
      have e: "eval h ctx \<rho> i = Some w"
        using d w by (auto simp: i_def eval_def mk_insn_def unary_op_def sem_un_simps to_type_def wide_def)
      have "ir_emit ctx (i_op i) (i_type i) 0 (i_op1 i) (i_op2 i) (i_op3 i) = (ctx', r')"
        using run False t1 ins by (auto simp: ir_fold_cast_def ir_emit1_def i_def mk_insn_def)
      from ir_emit_grows [OF assms(1,2) e assms(3,4) this] show ?thesis by (simp add: i_def mk_insn_def)
    qed
  qed
qed

end
