(* ===== verification/Sound_Const.thy ===== *)
theory Sound_Const
  imports Fold_Grow
begin

text \<open>The constant-folding rules compute what the instruction means.\<close>

section \<open>Rules selected by constants\<close>

lemma const2_rule:
  assumes "\<forall>(op, k1, k2)\<in>set ks. binary_op op \<and> IR_IS_CONST_OP k1 \<and> IR_IS_CONST_OP k2"
    and "\<And>h ctx \<rho> a v x y z op k1 k2. (op, k1, k2) \<in> set ks \<Longrightarrow> fold_site h ctx \<rho> a v \<Longrightarrow> i_op a = op \<Longrightarrow>
      \<not> fold_excluded ctx a \<Longrightarrow> x = ir_base ctx (i_op1 a) \<Longrightarrow> y = ir_base ctx (i_op2 a) \<Longrightarrow>
      i_op x = k1 \<Longrightarrow> i_op y = k2 \<Longrightarrow>
      den ctx \<rho> (i_op1 a) = Some (const_type k1, cv (const_type k1) (i_val x)) \<Longrightarrow> canonical (const_type k1) (i_val x) \<Longrightarrow>
      den ctx \<rho> (i_op2 a) = Some (const_type k2, cv (const_type k2) (i_val y)) \<Longrightarrow> canonical (const_type k2) (i_val y) \<Longrightarrow>
      sem_bin h op (i_type a) (const_type k1) (const_type k2) (cv (const_type k1) (i_val x)) (cv (const_type k2) (i_val y))
        = Some v \<Longrightarrow> step_ok h ctx \<rho> a v (b h ctx a x y z)"
  shows "sound_rule (ks, b)"
proof (rule sound_ruleI)
  fix h :: host and ctx :: ir_ctx and \<rho> and a :: ir_insn and v op k1 k2
  let ?x = "ir_base ctx (i_op1 a)" and ?y = "ir_base ctx (i_op2 a)"
  assume key: "(op, k1, k2) \<in> set ks" and site: "fold_site h ctx \<rho> a v" and op: "i_op a = op"
    and k: "k1 = ANY \<or> i_op ?x = k1" "k2 = ANY \<or> i_op ?y = k2" and ex: "\<not> fold_excluded ctx a"
  have c: "binary_op op" "IR_IS_CONST_OP k1" "IR_IS_CONST_OP k2" using assms(1) key by auto
  then have kk: "i_op ?x = k1" "i_op ?y = k2" using k by (auto simp: ir_defs)
  obtain t1 v1 t2 v2 where at: "bin_at h ctx \<rho> a t1 v1 t2 v2 v"
    using fold_site.binE [OF site] op c(1) by blast
  then have d: "den ctx \<rho> (i_op1 a) = Some (t1, v1)" "den ctx \<rho> (i_op2 a) = Some (t2, v2)"
    "sem_bin h op (i_type a) t1 t2 v1 v2 = Some v" using op by (auto simp: bin_at_def)
  have 1: "t1 = const_type k1" "v1 = cv t1 (i_val ?x)" "canonical t1 (i_val ?x)"
    using fold_site.const_opnd [OF site d(1)] kk c by auto
  have 2: "t2 = const_type k2" "v2 = cv t2 (i_val ?y)" "canonical t2 (i_val ?y)"
    using fold_site.const_opnd [OF site d(2)] kk c by auto
  show "step_ok h ctx \<rho> a v (b h ctx a ?x ?y (ir_base ctx (i_op3 a)))"
    using assms(2) [OF key site op ex refl refl kk] d 1 2 by simp
qed

lemma const1_rule:
  assumes "\<forall>(op, k1, k2)\<in>set ks. unary_op op \<and> IR_IS_CONST_OP k1"
    and "\<And>h ctx \<rho> a v x y z op k1 k2. (op, k1, k2) \<in> set ks \<Longrightarrow> fold_site h ctx \<rho> a v \<Longrightarrow> i_op a = op \<Longrightarrow>
      \<not> fold_excluded ctx a \<Longrightarrow> x = ir_base ctx (i_op1 a) \<Longrightarrow> i_op x = k1 \<Longrightarrow>
      den ctx \<rho> (i_op1 a) = Some (const_type k1, cv (const_type k1) (i_val x)) \<Longrightarrow> canonical (const_type k1) (i_val x) \<Longrightarrow>
      sem_un h op (i_type a) (const_type k1) (cv (const_type k1) (i_val x)) = Some v \<Longrightarrow>
      step_ok h ctx \<rho> a v (b h ctx a x y z)"
  shows "sound_rule (ks, b)"
proof (rule sound_ruleI)
  fix h :: host and ctx :: ir_ctx and \<rho> and a :: ir_insn and v op k1 k2
  let ?x = "ir_base ctx (i_op1 a)"
  assume key: "(op, k1, k2) \<in> set ks" and site: "fold_site h ctx \<rho> a v" and op: "i_op a = op"
    and k: "k1 = ANY \<or> i_op ?x = k1" and ex: "\<not> fold_excluded ctx a"
  have c: "unary_op op" "IR_IS_CONST_OP k1" using assms(1) key by auto
  then have kk: "i_op ?x = k1" using k by (auto simp: ir_defs)
  obtain t1 v1 where at: "un_at h ctx \<rho> a t1 v1 v"
    using fold_site.unE [OF site] op c(1) by blast
  then have d: "den ctx \<rho> (i_op1 a) = Some (t1, v1)" "sem_un h op (i_type a) t1 v1 = Some v"
    using op by (auto simp: un_at_def)
  have 1: "t1 = const_type k1" "v1 = cv t1 (i_val ?x)" "canonical t1 (i_val ?x)"
    using fold_site.const_opnd [OF site d(1)] kk c by auto
  show "step_ok h ctx \<rho> a v (b h ctx a ?x (ir_base ctx (i_op2 a)) (ir_base ctx (i_op3 a)))"
    using assms(2) [OF key site op ex refl kk] d 1 by simp
qed

lemma bin_rule:
  assumes "\<forall>(op, k1, k2)\<in>set ks. binary_op op"
    and "\<And>h ctx \<rho> a v x y z op k1 k2 t1 v1 t2 v2. (op, k1, k2) \<in> set ks \<Longrightarrow> fold_site h ctx \<rho> a v \<Longrightarrow> i_op a = op \<Longrightarrow>
      \<not> fold_excluded ctx a \<Longrightarrow> x = ir_base ctx (i_op1 a) \<Longrightarrow> y = ir_base ctx (i_op2 a) \<Longrightarrow>
      k1 = ANY \<or> i_op x = k1 \<Longrightarrow> k2 = ANY \<or> i_op y = k2 \<Longrightarrow>
      den ctx \<rho> (i_op1 a) = Some (t1, v1) \<Longrightarrow> okval t1 v1 \<Longrightarrow> t1 = i_type x \<Longrightarrow> t1 \<noteq> IR_VOID \<Longrightarrow>
      den ctx \<rho> (i_op2 a) = Some (t2, v2) \<Longrightarrow> okval t2 v2 \<Longrightarrow> t2 = i_type y \<Longrightarrow> t2 \<noteq> IR_VOID \<Longrightarrow>
      sem_bin h op (i_type a) t1 t2 v1 v2 = Some v \<Longrightarrow> step_ok h ctx \<rho> a v (b h ctx a x y z)"
  shows "sound_rule (ks, b)"
proof (rule sound_ruleI)
  fix h :: host and ctx :: ir_ctx and \<rho> and a :: ir_insn and v op k1 k2
  let ?x = "ir_base ctx (i_op1 a)" and ?y = "ir_base ctx (i_op2 a)"
  assume key: "(op, k1, k2) \<in> set ks" and site: "fold_site h ctx \<rho> a v" and op: "i_op a = op"
    and k: "k1 = ANY \<or> i_op ?x = k1" "k2 = ANY \<or> i_op ?y = k2" and ex: "\<not> fold_excluded ctx a"
  have "binary_op op" using assms(1) key by auto
  then obtain t1 v1 t2 v2 where "bin_at h ctx \<rho> a t1 v1 t2 v2 v"
    using fold_site.binE [OF site] op by blast
  then show "step_ok h ctx \<rho> a v (b h ctx a ?x ?y (ir_base ctx (i_op3 a)))"
    using assms(2) [OF key site op ex refl refl k] op by (auto simp: bin_at_def)
qed

lemma bin_const_rule:
  assumes "\<forall>(op, k1, k2)\<in>set ks. binary_op op \<and> IR_IS_CONST_OP k2"
    and "\<And>h ctx \<rho> a v x y z op k1 k2 t1 v1. (op, k1, k2) \<in> set ks \<Longrightarrow> fold_site h ctx \<rho> a v \<Longrightarrow> i_op a = op \<Longrightarrow>
      \<not> fold_excluded ctx a \<Longrightarrow> x = ir_base ctx (i_op1 a) \<Longrightarrow> y = ir_base ctx (i_op2 a) \<Longrightarrow>
      k1 = ANY \<or> i_op x = k1 \<Longrightarrow> i_op y = k2 \<Longrightarrow>
      den ctx \<rho> (i_op1 a) = Some (t1, v1) \<Longrightarrow> okval t1 v1 \<Longrightarrow> t1 = i_type x \<Longrightarrow> t1 \<noteq> IR_VOID \<Longrightarrow>
      den ctx \<rho> (i_op2 a) = Some (const_type k2, cv (const_type k2) (i_val y)) \<Longrightarrow> canonical (const_type k2) (i_val y) \<Longrightarrow>
      sem_bin h op (i_type a) t1 (const_type k2) v1 (cv (const_type k2) (i_val y)) = Some v \<Longrightarrow>
      step_ok h ctx \<rho> a v (b h ctx a x y z)"
  shows "sound_rule (ks, b)"
proof (rule bin_rule)
  show "\<forall>(op, k1, k2)\<in>set ks. binary_op op" using assms(1) by auto
next
  fix h :: host and ctx :: ir_ctx and \<rho> and a :: ir_insn and v x y z op k1 k2 t1 v1 t2 v2
  assume key: "(op, k1, k2) \<in> set ks" and site: "fold_site h ctx \<rho> a v" and op: "i_op a = op" "\<not> fold_excluded ctx a"
    and xy: "x = ir_base ctx (i_op1 a)" "y = ir_base ctx (i_op2 a)" "k1 = ANY \<or> i_op x = k1"
    and k2: "k2 = ANY \<or> i_op y = k2" and d1: "den ctx \<rho> (i_op1 a) = Some (t1, v1)" "okval t1 v1" "t1 = i_type x" "t1 \<noteq> IR_VOID"
    and d2: "den ctx \<rho> (i_op2 a) = Some (t2, v2)" and s: "sem_bin h op (i_type a) t1 t2 v1 v2 = Some v"
  have k: "IR_IS_CONST_OP k2" using assms(1) key by auto
  then have "i_op y = k2" using k2 by (auto simp: IR_IS_CONST_OP_def)
  moreover from this have "t2 = const_type k2" "v2 = cv t2 (i_val y)" "canonical t2 (i_val y)"
    using fold_site.const_opnd [OF site d2] k xy by auto
  ultimately show "step_ok h ctx \<rho> a v (b h ctx a x y z)" using assms(2) [OF key site op xy] d1 d2 s by blast
qed

lemma eval_binI:
  assumes "binary_op (i_op i)" "den ctx \<rho> (i_op1 i) = Some (t1, v1)" "den ctx \<rho> (i_op2 i) = Some (t2, v2)"
    "sem_bin h (i_op i) (i_type i) t1 t2 v1 v2 = Some v"
  shows "eval h ctx \<rho> i = Some v"
  using assms by (auto simp: eval_def unary_op_def binary_op_def)

lemma eval_unI:
  assumes "unary_op (i_op i)" "den ctx \<rho> (i_op1 i) = Some (t1, v1)" "sem_un h (i_op i) (i_type i) t1 v1 = Some v"
  shows "eval h ctx \<rho> i = Some v"
  using assms by (auto simp: eval_def)

section \<open>Comparisons\<close>

lemma canonical_eq:
  assumes "canonical t w" "canonical t w'"
  shows "w = w' \<longleftrightarrow> cv t w = cv t w'"
  using assms by (metis canonical_def)

lemma canonical_eq_compat:
  assumes "canonical t w" "canonical t' w'" "compat t t'"
  shows "w = w' \<longleftrightarrow> cv t w = cv t' w'"
proof -
  have "wide t \<Longrightarrow> wide t' \<Longrightarrow> ?thesis"
    using word_uint_eq_iff [of w w'] by (auto simp: wide_def cv_simps val_u64_def)
  then show ?thesis using assms canonical_eq unfolding compat_def by blast
qed

lemmas val_defs = cv_simps val_i_sval

lemma sem_eq_Some:
  "sem_eq t t1 t2 ci cf = Some v \<longleftrightarrow> t = IR_BOOL \<and>
     (int_type t1 \<and> compat t1 t2 \<and> v = of_bool ci \<or> IR_IS_TYPE_FP t1 \<and> t1 = t2 \<and> v = of_bool cf)"
  using int_not_fp [of t1] by (auto simp: sem_eq_def mk_bool_def)

lemma sem_ord_Some:
  "sem_ord t t1 t2 ci cf = Some v \<longleftrightarrow> t = IR_BOOL \<and> t1 = t2 \<and>
     (int_type t1 \<and> v = of_bool ci \<or> IR_IS_TYPE_FP t1 \<and> v = of_bool cf)"
  by (auto simp: sem_ord_def sem_eq_Some)

lemma sval_cases:
  assumes "fits n x" "0 < n"
  shows "sval n x = (if x < 2 ^ (n - 1) then x else x - 2 ^ n)"
proof -
  have p: "(2::int) ^ n = 2 * 2 ^ (n - 1)" using assms(2) by (cases n) simp_all
  have x: "0 \<le> x" "x < 2 ^ n" using assms(1) by (auto simp: fits_def)
  show ?thesis
  proof (cases "x < 2 ^ (n - 1)")
    case True
    have "0 \<le> (2::int) ^ (n - 1)" by simp
    then have "- (2 ^ (n - 1)) \<le> x" using x by linarith
    then show ?thesis using True assms(2) by (simp add: sval_id)
  next
    case False
    have "take_bit n (x - 2 ^ n) = take_bit n x" by (simp add: take_bit_eq_mod)
    then have "sval n x = sval n (x - 2 ^ n)" using sval_cong [OF assms(2)] by metis
    also have "\<dots> = x - 2 ^ n"
    proof (rule sval_id [OF assms(2)])
      show "- (2 ^ (n - 1)) \<le> x - 2 ^ n" using False p by linarith
      show "x - 2 ^ n < 2 ^ (n - 1)" using x zero_le_power [of "2::int" "n - 1"] by linarith
    qed
    finally show ?thesis using False by simp
  qed
qed

text \<open>Sign extension to 64 bits keeps the order of patterns.\<close>

lemma val_u64_signed:
  assumes "canonical t w" "IR_IS_TYPE_SIGNED t"
  shows "val_u64 w = (if cv t w < 2 ^ (type_bits t - 1) then cv t w else cv t w + (2 ^ 64 - 2 ^ type_bits t))"
proof -
  have t: "0 < type_bits t" "t \<noteq> IR_VOID" using assms(2) by (auto simp: signed_types)
  have f: "fits (type_bits t) (cv t w)" by (rule fits_cv [OF t(2)])
  have "w = word_of_int (sval (type_bits t) (cv t w))" using assms by (simp add: canonical_def num_def)
  then have u: "val_u64 w = take_bit 64 (sval (type_bits t) (cv t w))" by (metis val_word_of_int(4))
  have le: "(2::int) ^ type_bits t \<le> 2 ^ 64" "(0::int) \<le> 2 ^ (type_bits t - 1)"
    "(2::int) ^ type_bits t = 2 * 2 ^ (type_bits t - 1)"
    using assms(2) by (auto simp: signed_types)
  show ?thesis
  proof (cases "cv t w < 2 ^ (type_bits t - 1)")
    case True
    then show ?thesis using u sval_cases [OF f t(1)] f le
      by (simp add: fits_def take_bit_int_eq_self_iff)
  next
    case False
    have "take_bit 64 (cv t w - 2 ^ type_bits t) = (cv t w - 2 ^ type_bits t + 2 ^ 64) mod 2 ^ 64"
      by (simp add: take_bit_eq_mod)
    also have "\<dots> = cv t w - 2 ^ type_bits t + 2 ^ 64"
      using f le False by (intro mod_pos_pos_trivial) (simp_all add: fits_def)
    finally have "take_bit 64 (cv t w - 2 ^ type_bits t) = cv t w - 2 ^ type_bits t + 2 ^ 64" .
    then show ?thesis using u sval_cases [OF f t(1)] False by simp
  qed
qed


text \<open>The 64-bit views of a canonical constant, by type.\<close>

lemma canon_u64:
  "canonical IR_U8 w \<Longrightarrow> val_u64 w = val_u8 w" "canonical IR_U16 w \<Longrightarrow> val_u64 w = val_u16 w"
  "canonical IR_U32 w \<Longrightarrow> val_u64 w = val_u32 w" "canonical IR_BOOL w \<Longrightarrow> val_u64 w = of_bool (w \<noteq> 0)"
  using canonical_unsigned [of IR_U8 w] canonical_unsigned [of IR_U16 w] canonical_unsigned [of IR_U32 w]
    canonical_unsigned [of IR_BOOL w] by (simp_all add: signed_types cv_simps)

lemma canon_i64:
  "canonical IR_CHAR w \<Longrightarrow> val_i64 w = sval 8 (val_u8 w)" "canonical IR_I8 w \<Longrightarrow> val_i64 w = sval 8 (val_u8 w)"
  "canonical IR_I16 w \<Longrightarrow> val_i64 w = sval 16 (val_u16 w)" "canonical IR_I32 w \<Longrightarrow> val_i64 w = sval 32 (val_u32 w)"
  "canonical IR_I64 w \<Longrightarrow> val_i64 w = sval 64 (val_u64 w)"
  using canonical_signed [of IR_CHAR w] canonical_signed [of IR_I8 w] canonical_signed [of IR_I16 w]
    canonical_signed [of IR_I32 w] canonical_signed [of IR_I64 w] by (simp_all add: signed_types cv_simps)

lemma canon_ult:
  assumes "canonical t w" "canonical t w'" "t \<noteq> IR_VOID"
  shows "val_u64 w < val_u64 w' \<longleftrightarrow> cv t w < cv t w'" "val_u64 w \<le> val_u64 w' \<longleftrightarrow> cv t w \<le> cv t w'"
proof -
  have "(2::int) ^ type_bits t \<le> 2 ^ 64" "(2::int) ^ (type_bits t - 1) \<le> 2 ^ type_bits t" by (cases t; simp)+
  then have "val_u64 w < val_u64 w' \<longleftrightarrow> cv t w < cv t w'" if "canonical t w" "canonical t w'" for w w'
    using val_u64_signed [of t w] val_u64_signed [of t w'] canonical_unsigned [of t w] canonical_unsigned [of t w']
      assms(3) that by (cases "IR_IS_TYPE_SIGNED t") auto
  then show "val_u64 w < val_u64 w' \<longleftrightarrow> cv t w < cv t w'" "val_u64 w \<le> val_u64 w' \<longleftrightarrow> cv t w \<le> cv t w'"
    using assms(1,2) by (auto simp: linorder_not_less [symmetric] simp del: linorder_not_less)
qed

lemma num_simps:
  "num IR_BOOL v = v" "num IR_U8 v = v" "num IR_U16 v = v" "num IR_U32 v = v" "num IR_U64 v = v" "num IR_ADDR v = v"
  "num IR_CHAR v = sval 8 v" "num IR_I8 v = sval 8 v" "num IR_I16 v = sval 16 v" "num IR_I32 v = sval 32 v"
  "num IR_I64 v = sval 64 v"
  by (simp_all add: num_def signed_types)

lemmas key_simps = binary_op_def unary_op_def IR_IS_CONST_OP_def
lemmas cmp_simps = key_simps sem_bin_simps sem_eq_Some sem_ord_Some fold_site.fold_bool int_type_iff fp_types

lemmas canon_simps = canon_u64 canon_i64 num_simps

lemma sound_eq: "list_all sound_rule fold_rules_eq"
  unfolding fold_rules_eq_def list.pred_inject
  by (intro conjI; (rule const2_rule)?; auto simp: cmp_simps cv_simps canonical_eq fold_excluded_def excl_cmp_def)

lemma sound_order: "list_all sound_rule fold_rules_order"
  unfolding fold_rules_order_def list.pred_inject
  by (intro conjI; (rule const2_rule)?; auto simp: cmp_simps cv_simps canon_simps)

lemma sound_uorder: "list_all sound_rule fold_rules_uorder"
  unfolding fold_rules_uorder_def list.pred_inject
  by (intro conjI; (rule const2_rule)?; auto simp: cmp_simps canon_ult; simp add: cv_simps)

section \<open>Arithmetic\<close>

lemma take_bit_svals [width_simps]:
  "0 < n \<Longrightarrow> take_bit n (sval n a + sval n b) = take_bit n (a + b)"
  "0 < n \<Longrightarrow> take_bit n (sval n a - sval n b) = take_bit n (a - b)"
  "0 < n \<Longrightarrow> take_bit n (sval n a * sval n b) = take_bit n (a * b)"
  "0 < n \<Longrightarrow> take_bit n (- sval n a) = take_bit n (- a)"
  "0 < n \<Longrightarrow> take_bit n (NOT (sval n a)) = take_bit n (NOT a)"
  by (intro take_bit_add_eqI take_bit_diff_eqI take_bit_mult_eqI take_bit_minus_eqI take_bit_sval; assumption)+
     (simp add: not_int_def, intro take_bit_diff_eqI take_bit_minus_eqI take_bit_sval refl)

lemma signed_take_bits [width_simps]:
  "signed_take_bit 7 e = sval 8 e" "signed_take_bit 15 e = sval 16 e" "signed_take_bit 31 e = sval 32 e"
  "signed_take_bit 63 e = sval 64 e"
  by (simp_all add: sval_def)

lemma sem_arith_Some:
  "sem_arith t t1 t2 i f = Some v \<longleftrightarrow>
     arith_type t \<and> compat t1 t \<and> compat t2 t \<and> v = wrap t i \<or> IR_IS_TYPE_FP t \<and> t1 = t \<and> t2 = t \<and> v = wrap t f"
  by (auto simp: sem_arith_def arith_type_def int_type_def ir_defs)

lemma wrap_wide [width_simps]: "wide t \<Longrightarrow> wrap t i = take_bit 64 i"
  by (auto simp: wrap_def wide_def)

lemma wrap_simps [width_simps]:
  "wrap IR_U8 i = take_bit 8 i" "wrap IR_I8 i = take_bit 8 i" "wrap IR_CHAR i = take_bit 8 i"
  "wrap IR_U16 i = take_bit 16 i" "wrap IR_I16 i = take_bit 16 i"
  "wrap IR_U32 i = take_bit 32 i" "wrap IR_I32 i = take_bit 32 i"
  "wrap IR_U64 i = take_bit 64 i" "wrap IR_I64 i = take_bit 64 i" "wrap IR_ADDR i = take_bit 64 i"
  "wrap IR_DOUBLE i = take_bit 64 i" "wrap IR_FLOAT i = take_bit 32 i"
  by (simp_all add: wrap_def)

lemma compat_simps [simp]:
  "compat IR_U8 t \<longleftrightarrow> t = IR_U8" "compat IR_I8 t \<longleftrightarrow> t = IR_I8" "compat IR_CHAR t \<longleftrightarrow> t = IR_CHAR"
  "compat IR_U16 t \<longleftrightarrow> t = IR_U16" "compat IR_I16 t \<longleftrightarrow> t = IR_I16" "compat IR_U32 t \<longleftrightarrow> t = IR_U32"
  "compat IR_I32 t \<longleftrightarrow> t = IR_I32" "compat IR_U64 t \<longleftrightarrow> wide t" "compat IR_I64 t \<longleftrightarrow> wide t"
  "compat IR_ADDR t \<longleftrightarrow> wide t" "compat IR_DOUBLE t \<longleftrightarrow> t = IR_DOUBLE" "compat IR_FLOAT t \<longleftrightarrow> t = IR_FLOAT"
  by (auto simp: compat_def wide_def)

lemma wide_simps [simp]:
  "wide IR_U64" "wide IR_I64" "wide IR_ADDR" "\<not> wide IR_U8" "\<not> wide IR_I8" "\<not> wide IR_CHAR" "\<not> wide IR_U16"
  "\<not> wide IR_I16" "\<not> wide IR_U32" "\<not> wide IR_I32" "\<not> wide IR_DOUBLE" "\<not> wide IR_FLOAT"
  by (simp_all add: wide_def)

lemma compat_simps' [simp]:
  "compat t IR_U8 \<longleftrightarrow> t = IR_U8" "compat t IR_I8 \<longleftrightarrow> t = IR_I8" "compat t IR_CHAR \<longleftrightarrow> t = IR_CHAR"
  "compat t IR_U16 \<longleftrightarrow> t = IR_U16" "compat t IR_I16 \<longleftrightarrow> t = IR_I16" "compat t IR_U32 \<longleftrightarrow> t = IR_U32"
  "compat t IR_I32 \<longleftrightarrow> t = IR_I32" "compat t IR_U64 \<longleftrightarrow> wide t" "compat t IR_I64 \<longleftrightarrow> wide t"
  "compat t IR_ADDR \<longleftrightarrow> wide t" "compat t IR_DOUBLE \<longleftrightarrow> t = IR_DOUBLE" "compat t IR_FLOAT \<longleftrightarrow> t = IR_FLOAT"
  by (auto simp: compat_def wide_def)

lemma wide_bits [simp]: "wide t \<Longrightarrow> type_bits t = 64" "wide t \<Longrightarrow> ir_type_size t = 8"
  by (auto simp: wide_def)

lemma wide_neq [simp]: "wide t \<Longrightarrow> t \<noteq> IR_BOOL" "wide t \<Longrightarrow> t \<noteq> IR_VOID"
  by (auto simp: wide_def)

lemmas arith_simps = key_simps sem_bin_simps sem_un_simps sem_arith_Some cv_simps val_i_sval(1-3)
  arith_type_iff fp_types

text \<open>Floating-point arithmetic is outside the claim.\<close>

lemma excl_fp:
  assumes "\<not> fold_excluded ctx a" "i_op a \<in> {IR_ADD, IR_SUB, IR_MUL, IR_DIV, IR_MIN, IR_MAX}"
  shows "i_type a \<noteq> IR_DOUBLE \<and> i_type a \<noteq> IR_FLOAT"
proof (rule ccontr)
  assume "\<not> ?thesis"
  then have "IR_IS_TYPE_FP (i_type a)" by (auto simp: fp_types)
  then have "excl_arith ctx a x y" for x y
    using assms(2) unfolding excl_arith_def Let_def by (elim insertE) simp_all
  then show False using assms(1) by (simp add: fold_excluded_def Let_def)
qed

text \<open>The constant a rule leaves is read at the type of the instruction.\<close>

lemma fold_const_ok:
  "i_type a \<noteq> IR_BOOL \<Longrightarrow> step_ok h ctx \<rho> a v (IR_FOLD_CONST_U i) \<longleftrightarrow> wrap (i_type a) i = v"
  "i_type a \<noteq> IR_BOOL \<Longrightarrow> step_ok h ctx \<rho> a v (IR_FOLD_CONST_I i) \<longleftrightarrow> wrap (i_type a) i = v"
  "i_type a \<noteq> IR_BOOL \<Longrightarrow> step_ok h ctx \<rho> a v (IR_FOLD_CONST_D i) \<longleftrightarrow> wrap (i_type a) i = v"
  "i_type a \<noteq> IR_BOOL \<Longrightarrow> step_ok h ctx \<rho> a v (IR_FOLD_CONST_F i) \<longleftrightarrow> wrap (i_type a) (take_bit 32 i) = v"
  by (simp_all add: IR_FOLD_CONST_U_def IR_FOLD_CONST_I_def IR_FOLD_CONST_D_def IR_FOLD_CONST_F_def cv_word_of_int)

lemma sound_add: "list_all sound_rule fold_rules_add"
  unfolding fold_rules_add_def list.pred_inject
  by (intro conjI; (rule const2_rule)?; auto simp: arith_simps fold_const_ok width_simps dest: excl_fp)

lemma sound_sub: "list_all sound_rule fold_rules_sub"
  unfolding fold_rules_sub_def list.pred_inject
  by (intro conjI; (rule const2_rule)?; auto simp: arith_simps fold_const_ok width_simps dest: excl_fp)

lemma sound_mul: "list_all sound_rule fold_rules_mul"
  unfolding fold_rules_mul_def list.pred_inject
  by (intro conjI; (rule const2_rule)?; auto simp: arith_simps fold_const_ok width_simps dest: excl_fp)

section \<open>Division\<close>

lemma sdiv_nonneg: "0 \<le> a \<Longrightarrow> 0 \<le> b \<Longrightarrow> a sdiv b = (a div b :: int)"
  by (cases "a = 0 \<or> b = 0") (auto simp: signed_divide_int_def sgn_if)

lemma smod_nonneg: "0 \<le> a \<Longrightarrow> 0 \<le> b \<Longrightarrow> a smod b = (a mod b :: int)"
  by (cases "a = 0") (simp_all add: signed_modulo_int_def)

lemma val_nonneg [simp]: "0 \<le> val_u8 w" "0 \<le> val_u16 w" "0 \<le> val_u32 w" "0 \<le> val_u64 w"
  by (simp_all add: val_u8_def val_u16_def val_u32_def val_u64_def)

lemma sval_neq_min [simp]: "sval 8 i \<noteq> -2147483648" "sval 16 i \<noteq> -2147483648"
  "sval 8 i \<noteq> -9223372036854775808" "sval 16 i \<noteq> -9223372036854775808" "sval 32 i \<noteq> -9223372036854775808"
  using sval_bounds [of 8 i] sval_bounds [of 16 i] sval_bounds [of 32 i] by auto

lemma val_zero [simp]: "val_u8 0 = 0" "val_u16 0 = 0" "val_u32 0 = 0" "val_u64 0 = 0" "val_i64 0 = 0"
  by (simp_all add: val_u8_def val_u16_def val_u32_def val_u64_def val_i64_def)

lemma sval_zero [simp]: "0 < n \<Longrightarrow> sval n 0 = 0"
  by (simp add: sval_id)

lemma sem_div_Some:
  "\<not> IR_IS_TYPE_FP t \<Longrightarrow> sem_div h t t1 t2 v1 v2 = Some v \<longleftrightarrow>
     arith_type t \<and> compat t1 t \<and> t2 = t \<and> div_ok t (num t v1) (num t v2) \<and> v = wrap t (num t v1 sdiv num t v2)"
  by (auto simp: sem_div_def)

lemma sem_mod_Some:
  "sem_mod t t1 t2 v1 v2 = Some v \<longleftrightarrow>
     arith_type t \<and> compat t1 t \<and> t2 = t \<and> div_ok t (num t v1) (num t v2) \<and> v = wrap t (num t v1 smod num t v2)"
  by (auto simp: sem_mod_def)

lemmas div_simps = sem_div_Some sem_mod_Some div_ok_def num_simps signed_types c_udiv_def c_sdiv_def c_smod_def
  sdiv_nonneg smod_nonneg

lemma sound_div: "list_all sound_rule fold_rules_div"
  unfolding fold_rules_div_def list.pred_inject
  by (intro conjI; (rule const2_rule)?; (frule excl_fp)?; auto simp: arith_simps div_simps canon_simps fold_const_ok width_simps)


lemma take_bit_vals [simp]:
  "take_bit 8 (val_u8 w) = val_u8 w" "take_bit 16 (val_u16 w) = val_u16 w" "take_bit 32 (val_u32 w) = val_u32 w"
  "take_bit 64 (val_u64 w) = val_u64 w" "take_bit 64 (val_d w) = val_d w" "take_bit 32 (val_f w) = val_f w"
  using take_bit_uint [of w] by (simp_all add: val_u8_def val_u16_def val_u32_def val_u64_def val_d_def val_f_def)

lemma flip_take_bit: "k < n \<Longrightarrow> take_bit n x = x \<Longrightarrow> take_bit n (flip_bit k x) = flip_bit k (x :: int)"
  using fits_flip_bit [of n x k] by (simp add: fits_iff_take_bit)

lemma fp_neg_wrap:
  "take_bit 64 (fp_neg IR_DOUBLE (val_d w)) = fp_neg IR_DOUBLE (val_d w)"
  "take_bit 32 (fp_neg IR_FLOAT (val_f w)) = fp_neg IR_FLOAT (val_f w)"
  "take_bit 64 (fp_abs IR_DOUBLE (val_d w)) = fp_abs IR_DOUBLE (val_d w)"
  "take_bit 32 (fp_abs IR_FLOAT (val_f w)) = fp_abs IR_FLOAT (val_f w)"
  using fits_unset_bit [of 64 "val_d w" 63] fits_unset_bit [of 32 "val_f w" 31]
  by (simp_all add: fp_neg_def fp_abs_def flip_take_bit fits_iff_take_bit)

lemmas abs_simps = key_simps sem_un_simps cv_simps signed_types fp_types fold_const_ok width_simps canon_simps
  val_i_sval(1-3) copy_ok_def not_le fp_neg_wrap

lemma sound_mod_neg_abs: "list_all sound_rule fold_rules_mod_neg_abs"
  unfolding fold_rules_mod_neg_abs_def list.pred_inject
  apply (intro conjI)
  subgoal by (rule const2_rule) (auto simp: arith_simps div_simps canon_simps fold_const_ok width_simps)
  subgoal by (rule const2_rule) (auto simp: arith_simps div_simps canon_simps fold_const_ok width_simps)
  by ((rule const1_rule)?; auto simp: arith_simps fold_const_ok width_simps fp_neg_wrap; auto simp: abs_simps split: if_splits)+

end
