(* ===== verification/Sound_Bits.thy ===== *)
theory Sound_Bits
  imports Sound_Const
begin

text \<open>
  The constant-folding rules for overflow-checked arithmetic, bitwise operations, shifts, rotations,
  minimum, maximum and conversions.
\<close>

section \<open>Overflow-checked arithmetic\<close>

lemma cv_arith: "arith_type t \<Longrightarrow> cv t w = wrap t (val_u64 w)"
  by (auto simp: cv_def wrap_def val_u64_def)

lemma val_u64_add: "val_u64 (w + w') = take_bit 64 (val_u64 w + val_u64 w')"
  by (simp add: val_u64_def uint_word_ariths take_bit_eq_mod)
lemma val_u64_sub: "val_u64 (w - w') = take_bit 64 (val_u64 w - val_u64 w')"
  by (simp add: val_u64_def uint_word_ariths take_bit_eq_mod)
lemma val_u64_mul: "val_u64 (w * w') = take_bit 64 (val_u64 w * val_u64 w')"
  by (simp add: val_u64_def uint_word_ariths take_bit_eq_mod)

lemma wrap_take64: "wrap t (take_bit 64 i) = wrap t i"
  by (simp add: wrap_def min_def)

lemma wrap_ops:
  "wrap t (wrap t a + wrap t b) = wrap t (a + b)" "wrap t (wrap t a - wrap t b) = wrap t (a - b)"
  "wrap t (wrap t a * wrap t b) = wrap t (a * b)"
  by (simp_all add: wrap_def take_bit_add take_bit_diff take_bit_mult)

lemma wrap_sval64: "arith_type t \<Longrightarrow> wrap t (sval 64 i) = wrap t i"
  by (metis take_bit_sval wrap_take64 zero_less_numeral)

lemma wrap_svals64:
  assumes "arith_type t"
  shows "wrap t (sval 64 a + sval 64 b) = wrap t (a + b)" "wrap t (sval 64 a - sval 64 b) = wrap t (a - b)"
  using wrap_ops [of t "sval 64 a" "sval 64 b"] wrap_ops [of t a b] wrap_sval64 [OF assms] by metis+

lemma cv_add: "arith_type t \<Longrightarrow> cv t (w + w') = wrap t (cv t w + cv t w')"
  "arith_type t \<Longrightarrow> cv t (w - w') = wrap t (cv t w - cv t w')"
  "arith_type t \<Longrightarrow> cv t (w * w') = wrap t (cv t w * cv t w')"
  by (simp_all add: cv_arith wrap_ops wrap_take64 val_u64_add val_u64_sub val_u64_mul)

lemma cv_i64_ops:
  assumes "arith_type t"
  shows "wrap t (val_i64 w + val_i64 w') = wrap t (cv t w + cv t w')"
    "wrap t (val_i64 w - val_i64 w') = wrap t (cv t w - cv t w')" "wrap t (val_i64 w) = cv t w"
  by (simp_all add: val_i_sval cv_arith wrap_svals64 wrap_ops wrap_sval64 assms)

lemma step_next_if:
  "step_ok h ctx \<rho> a v r \<Longrightarrow> step_ok h ctx \<rho> a v (if c then Fold_Next else r)"
  by simp

lemma mul_ov_min:
  assumes "val_i64 w = -1" "val_i64 (w * w') = - (2 ^ 63)"
  shows "val_i64 w' = - (2 ^ 63)"
proof -
  have "w = -1" using assms(1) by (metis sint_n1 signed_word_eqI val_i64_def)
  then have "sint (- w') = sint (- (2 ^ 63) :: u64)" using assms(2) by (simp add: val_i64_def)
  then have "- w' = - (2 ^ 63)" by (rule signed_word_eqI)
  then have "w' = - (2 ^ 63)" by simp
  then show ?thesis by (simp add: val_i64_def)
qed

lemma excl_mul_ov:
  "\<not> fold_excluded ctx a \<Longrightarrow> i_op a = IR_MUL_OV \<Longrightarrow> val_i64 (i_val (ir_base ctx (i_op1 a))) = -1 \<Longrightarrow>
   val_i64 (i_val (ir_base ctx (i_op1 a)) * i_val (ir_base ctx (i_op2 a))) \<noteq> - (2 ^ 63)"
  using mul_ov_min [of "i_val (ir_base ctx (i_op1 a))" "i_val (ir_base ctx (i_op2 a))"]
  by (auto simp: fold_excluded_def excl_arith_def Let_def)

lemma sound_ov: "list_all sound_rule fold_rules_ov"
  unfolding fold_rules_ov_def list.pred_inject
  apply (intro conjI)
  subgoal by (rule const2_rule) (auto simp: key_simps sem_bin_simps cv_add split: if_splits)
  subgoal by (rule const2_rule) (auto simp: key_simps sem_bin_simps fold_const_ok cv_i64_ops Let_def intro!: step_next_if split del: if_split split: if_split_asm)
  subgoal by (rule const2_rule) (auto simp: key_simps sem_bin_simps cv_add split: if_splits)
  subgoal by (rule const2_rule) (auto simp: key_simps sem_bin_simps fold_const_ok cv_i64_ops Let_def intro!: step_next_if split del: if_split split: if_split_asm)
  subgoal by (rule const2_rule) (auto simp: key_simps sem_bin_simps cv_add Let_def intro!: step_next_if split del: if_split split: if_split_asm)
  subgoal by (rule const2_rule) (auto simp: key_simps sem_bin_simps fold_const_ok cv_i64_ops cv_add Let_def excl_mul_ov simp del: power_numeral intro!: step_ok_if step_next_if split del: if_split split: if_split_asm)
  subgoal by (rule sound_ruleI) (auto dest!: fold_site.type_ok(3) simp: pure_op_def key_simps)
  by simp

section \<open>Bitwise operations and shifts\<close>

lemma canonical_zero [simp]: "cv t 0 = 0"
  by (simp add: cv_def)

lemma cv_bits:
  assumes "t \<noteq> IR_BOOL"
  shows "cv t (w OR w') = cv t w OR cv t w'" "cv t (w AND w') = cv t w AND cv t w'"
    "cv t (w XOR w') = cv t w XOR cv t w'"
  using assms by (simp_all add: cv_def uint_or uint_and uint_xor)

lemma sem_bits_Some: "sem_bits t t1 t2 r = Some v \<longleftrightarrow> int_type t \<and> compat t1 t \<and> compat t2 t \<and> v = r"
  by (auto simp: sem_bits_def)

lemma take_bit_xors [width_simps]:
  "0 < n \<Longrightarrow> take_bit n (sval n a XOR sval n b) = take_bit n (a XOR b)"
  by (simp add: take_bit_xor take_bit_sval)

lemma cv_not:
  assumes "t \<noteq> IR_BOOL"
  shows "cv t (NOT w) = wrap t (NOT (cv t w))"
proof (rule bit_eqI)
  fix n
  have "n < type_bits t \<Longrightarrow> n < 64" using type_bits_le [of t] by linarith
  then show "bit (cv t (NOT w)) n \<longleftrightarrow> bit (wrap t (NOT (cv t w))) n"
    using assms by (auto simp: cv_def wrap_def bit_take_bit_iff bit_not_iff bit_uint_iff)
qed

lemma val_b_canonical: "canonical IR_BOOL w \<Longrightarrow> val_b w \<longleftrightarrow> w \<noteq> 0"
  using canonical_unsigned [of IR_BOOL w]
  by (auto simp: val_b_def val_u64_def cv_simps signed_types)

lemma bool_bits: "(of_bool p :: int) OR of_bool q = of_bool (p \<or> q)" "(of_bool p :: int) AND of_bool q = of_bool (p \<and> q)"
  "(of_bool p :: int) XOR of_bool q = of_bool (p \<noteq> q)"
  by auto

lemma const_bits:
  assumes "i_type a \<noteq> IR_BOOL"
  shows "step_ok h ctx \<rho> a v (Fold_Const (w OR w')) \<longleftrightarrow> v = cv (i_type a) w OR cv (i_type a) w'"
    "step_ok h ctx \<rho> a v (Fold_Const (w AND w')) \<longleftrightarrow> v = cv (i_type a) w AND cv (i_type a) w'"
    "step_ok h ctx \<rho> a v (Fold_Const (NOT w)) \<longleftrightarrow> v = wrap (i_type a) (NOT (cv (i_type a) w))"
  using assms by (auto simp: cv_bits cv_not)

lemma cv_wide: "wide t \<Longrightarrow> cv t w = val_u64 w"
  by (auto simp: wide_def cv_simps)

lemma val_u64_not: "val_u64 (NOT w) = take_bit 64 (NOT (val_u64 w))"
  using cv_not [of IR_U64 w] by (simp add: cv_simps width_simps)

lemma val_u64_bits: "val_u64 (w OR w') = val_u64 w OR val_u64 w'" "val_u64 (w AND w') = val_u64 w AND val_u64 w'"
  by (simp_all add: val_u64_def uint_or uint_and)

lemmas bits_simps = val_u64_bits key_simps sem_bin_simps sem_un_simps sem_bits_Some int_type_iff arith_type_iff cv_wide width_simps
  val_b_canonical bool_bits fold_site.fold_bool fold_const_ok

lemma sound_bitwise: "list_all sound_rule fold_rules_bitwise"
  unfolding fold_rules_bitwise_def list.pred_inject
  apply (intro conjI)
  subgoal by (rule const1_rule) (auto simp: arith_simps fold_site.fold_bool split: if_splits)
  subgoal by (rule const1_rule) (auto simp: arith_simps fold_const_ok width_simps split: if_splits)
  subgoal by (rule const1_rule) (auto simp: arith_simps fold_const_ok width_simps split: if_splits)
  subgoal by (rule const1_rule) (auto simp: arith_simps fold_const_ok width_simps split: if_splits)
  subgoal by (rule const1_rule) (auto simp: arith_simps fold_const_ok width_simps split: if_splits)
  subgoal by (rule const1_rule) (auto simp: arith_simps fold_const_ok width_simps split: if_splits)
  subgoal by (rule const1_rule) (auto simp: arith_simps fold_const_ok width_simps split: if_splits)
  subgoal by (rule const1_rule) (auto simp: bits_simps val_u64_not cv_simps split: if_splits)
  subgoal by (rule const2_rule) (auto simp: bits_simps cv_simps)
  subgoal by (rule const2_rule) (auto simp: bits_simps cv_bits cv_simps(4))
  subgoal by (rule const2_rule) (auto simp: bits_simps cv_bits cv_simps(10))
  subgoal by (rule const2_rule) (auto simp: bits_simps cv_simps)
  subgoal by (rule const2_rule) (auto simp: bits_simps cv_bits cv_simps(4))
  subgoal by (rule const2_rule) (auto simp: bits_simps cv_bits cv_simps(10))
  subgoal by (rule const2_rule) (auto simp: bits_simps cv_simps)
  subgoal by (rule const2_rule) (auto simp: bits_simps cv_simps take_bit_xor)
  subgoal by (rule const2_rule) (auto simp: bits_simps cv_simps take_bit_xor val_i_sval(1-3))
  subgoal by (rule const2_rule) (auto simp: bits_simps cv_simps take_bit_xor)
  subgoal by (rule const2_rule) (auto simp: bits_simps cv_simps take_bit_xor val_i_sval(1-3))
  subgoal by (rule const2_rule) (auto simp: bits_simps cv_simps take_bit_xor)
  subgoal by (rule const2_rule) (auto simp: bits_simps cv_simps take_bit_xor val_i_sval(1-3))
  subgoal by (rule const2_rule) (auto simp: bits_simps cv_simps take_bit_xor)
  subgoal by (rule const2_rule) (auto simp: bits_simps cv_simps take_bit_xor val_i_sval)
  by simp

text \<open>A count below the width is not changed by the masking of the count.\<close>

lemma count_simps:
  "0 \<le> k \<Longrightarrow> k < 8 \<Longrightarrow> k AND 7 = (k::int)" "0 \<le> k \<Longrightarrow> k < 16 \<Longrightarrow> k AND 15 = k" "0 \<le> k \<Longrightarrow> k < 32 \<Longrightarrow> k AND 31 = k"
  "0 \<le> k \<Longrightarrow> k < 64 \<Longrightarrow> k AND 63 = k"
  using take_bit_eq_mask [of 3 k] take_bit_eq_mask [of 4 k] take_bit_eq_mask [of 5 k] take_bit_eq_mask [of 6 k]
  by (simp_all add: mask_eq_exp_minus_1 take_bit_int_eq_self)

lemma sval_count: "0 \<le> k \<Longrightarrow> k < 2 ^ (n - 1) \<Longrightarrow> 0 < n \<Longrightarrow> sval n k = k"
  by (rule sval_id) (auto intro: order_trans [of _ 0])

lemma take_bit_drops:
  "take_bit 8 (drop_bit k (val_u8 w)) = drop_bit k (val_u8 w)" "take_bit 16 (drop_bit k (val_u16 w)) = drop_bit k (val_u16 w)"
  "take_bit 32 (drop_bit k (val_u32 w)) = drop_bit k (val_u32 w)" "take_bit 64 (drop_bit k (val_u64 w)) = drop_bit k (val_u64 w)"
  using fits_drop_bit [of 8 "val_u8 w" k] fits_drop_bit [of 16 "val_u16 w" k] fits_drop_bit [of 32 "val_u32 w" k]
    fits_drop_bit [of 64 "val_u64 w" k] by (simp_all add: fits_iff_take_bit)

lemmas shift_simps = key_simps sem_bin_simps shift_ok_def arith_type_iff cv_simps fold_const_ok width_simps count_simps
  take_bit_drops take_bit_sval

lemma sound_shift: "list_all sound_rule fold_rules_shift"
  unfolding fold_rules_shift_def list.pred_inject
  by (intro conjI; (rule const2_rule)?; auto simp: shift_simps split: if_splits)

lemma sound_sar: "list_all sound_rule fold_rules_sar"
  unfolding fold_rules_sar_def list.pred_inject
  by (intro conjI; (rule const2_rule)?; auto simp: shift_simps val_i_sval sval_count split: if_splits)

section \<open>Rotations\<close>

lemma uint_ucasts:
  "uint (ucast w :: 8 word) = val_u8 w" "uint (ucast w :: 16 word) = val_u16 w" "uint (ucast w :: 32 word) = val_u32 w"
  "uint (ucast w :: 64 word) = val_u64 w"
  by (simp_all add: val_u8_def val_u16_def val_u32_def val_u64_def unsigned_ucast_eq)

lemma rot_counts:
  "val_u8 w < 8 \<Longrightarrow> unat (ucast w AND 7 :: 8 word) = nat (val_u8 w)"
  "val_u16 w < 16 \<Longrightarrow> unat (ucast w AND 15 :: 16 word) = nat (val_u16 w)"
  "val_u32 w < 32 \<Longrightarrow> unat (ucast w AND 31 :: 32 word) = nat (val_u32 w)"
  "val_u64 w < 64 \<Longrightarrow> unat (ucast w AND 63 :: 64 word) = nat (val_u64 w)"
  by (simp_all only: unat_eq_nat_uint uint_and uint_ucasts) (simp_all add: count_simps)

lemma rot_vals:
  "uint (word_of_int i :: 8 word) = take_bit 8 i" "uint (word_of_int i :: 16 word) = take_bit 16 i"
  by (simp_all add: uint_word_of_int_eq)

lemma rot_words:
  "uint (push_bit k w OR drop_bit j w :: 32 word) = take_bit 32 (push_bit k (uint w)) OR drop_bit j (uint w)"
  "uint (push_bit k w' OR drop_bit j w' :: 64 word) = take_bit 64 (push_bit k (uint w')) OR drop_bit j (uint w')"
  using take_bit_uint [of w] take_bit_uint [of w']
  by (simp_all add: uint_or unsigned_push_bit_eq unsigned_drop_bit_eq take_bit_drop_bit)

lemma rot_results:
  "val_u8 w' < 8 \<Longrightarrow> map_option uint (ir_rol8 (ucast w) (ucast w' AND 7)) = Some (rol_val 8 (nat (val_u8 w')) (val_u8 w))"
  "val_u8 w' < 8 \<Longrightarrow> map_option uint (ir_ror8 (ucast w) (ucast w' AND 7)) = Some (ror_val 8 (nat (val_u8 w')) (val_u8 w))"
  "val_u16 w' < 16 \<Longrightarrow> map_option uint (ir_rol16 (ucast w) (ucast w' AND 15)) = Some (rol_val 16 (nat (val_u16 w')) (val_u16 w))"
  "val_u16 w' < 16 \<Longrightarrow> map_option uint (ir_ror16 (ucast w) (ucast w' AND 15)) = Some (ror_val 16 (nat (val_u16 w')) (val_u16 w))"
  "val_u32 w' < 32 \<Longrightarrow> 0 < val_u32 w' \<Longrightarrow>
     map_option uint (ir_rol32 (ucast w) (ucast w' AND 31)) = Some (rol_val 32 (nat (val_u32 w')) (val_u32 w))"
  "val_u32 w' < 32 \<Longrightarrow> 0 < val_u32 w' \<Longrightarrow>
     map_option uint (ir_ror32 (ucast w) (ucast w' AND 31)) = Some (ror_val 32 (nat (val_u32 w')) (val_u32 w))"
  "val_u64 w' < 64 \<Longrightarrow> 0 < val_u64 w' \<Longrightarrow>
     map_option uint (ir_rol64 (ucast w) (ucast w' AND 63)) = Some (rol_val 64 (nat (val_u64 w')) (val_u64 w))"
  "val_u64 w' < 64 \<Longrightarrow> 0 < val_u64 w' \<Longrightarrow>
     map_option uint (ir_ror64 (ucast w) (ucast w' AND 63)) = Some (ror_val 64 (nat (val_u64 w')) (val_u64 w))"
  by (simp_all add: ir_rol8_def ir_ror8_def ir_rol16_def ir_ror16_def ir_rol32_def ir_ror32_def ir_rol64_def ir_ror64_def
      rot_counts rot_vals rot_words uint_ucasts rol_val_def ror_val_def take_bit_drops nat_le_iff
      or.commute [of "drop_bit _ _"] del: ucast_id)

lemma fold_rot_ok:
  assumes "map_option uint (r :: 'a::len word option) = Some i" "i_type a \<noteq> IR_BOOL" "LENGTH('a) = type_bits (i_type a)"
  shows "step_ok h ctx \<rho> a v (fold_rot_u r) \<longleftrightarrow> v = i" "step_ok h ctx \<rho> a v (fold_rot_i r) \<longleftrightarrow> v = i"
proof -
  obtain w where w: "r = Some w" "uint w = i" using assms(1) by (cases r) auto
  have "wrap (i_type a) (uint w) = uint w" "wrap (i_type a) (sint w) = uint w"
    by (simp_all add: wrap_def sint_uint take_bit_signed_take_bit flip: assms(3))
  then show "step_ok h ctx \<rho> a v (fold_rot_u r) \<longleftrightarrow> v = i" "step_ok h ctx \<rho> a v (fold_rot_i r) \<longleftrightarrow> v = i"
    using w assms(2) by (auto simp: fold_rot_u_def fold_rot_i_def fold_const_ok)
qed

lemma canonical_zero_iff:
  assumes "canonical t w"
  shows "w = 0 \<longleftrightarrow> cv t w = 0"
proof -
  have "canonical t 0" by (auto simp: canonical_def num_def signed_types)
  then show ?thesis using canonical_eq [OF assms, of 0] by simp
qed

lemma excl_rot:
  "\<not> fold_excluded ctx a \<Longrightarrow> i_op a = IR_ROL \<or> i_op a = IR_ROR \<Longrightarrow> IR_IS_CONST_OP (i_op (ir_base ctx (i_op1 a))) \<Longrightarrow>
   4 \<le> ir_type_size (i_type a) \<Longrightarrow> i_val (ir_base ctx (i_op2 a)) \<noteq> 0"
  by (auto simp: fold_excluded_def excl_arith_def Let_def)

lemma rot_pos:
  assumes "\<not> fold_excluded ctx a" "i_op a = IR_ROL \<or> i_op a = IR_ROR" "IR_IS_CONST_OP (i_op (ir_base ctx (i_op1 a)))"
    "4 \<le> ir_type_size (i_type a)" "canonical t (i_val (ir_base ctx (i_op2 a)))" "t \<noteq> IR_VOID"
  shows "0 < cv t (i_val (ir_base ctx (i_op2 a)))"
  using excl_rot [OF assms(1-4)] canonical_zero_iff [OF assms(5)] fits_cv [OF assms(6), of "i_val (ir_base ctx (i_op2 a))"]
  by (auto simp: fits_def)

lemmas rot_ok = fold_rot_ok [OF rot_results(1)] fold_rot_ok [OF rot_results(2)] fold_rot_ok [OF rot_results(3)]
  fold_rot_ok [OF rot_results(4)] fold_rot_ok [OF rot_results(5)] fold_rot_ok [OF rot_results(6)]
  fold_rot_ok [OF rot_results(7) [unfolded ucast_id]] fold_rot_ok [OF rot_results(8) [unfolded ucast_id]]

lemmas rot_nonzero = rot_pos [of _ _ IR_U32, unfolded cv_simps] rot_pos [of _ _ IR_I32, unfolded cv_simps]
  rot_pos [of _ _ IR_U64, unfolded cv_simps] rot_pos [of _ _ IR_I64, unfolded cv_simps]

lemma sound_rotate: "list_all sound_rule fold_rules_rotate"
  unfolding fold_rules_rotate_def list.pred_inject
  by (intro conjI; (rule const2_rule)?;
      auto simp: key_simps sem_bin_simps shift_ok_def arith_type_iff cv_simps rot_ok rot_nonzero split: if_splits)

section \<open>Minimum and maximum\<close>

lemma sem_minmax_Some:
  "sem_minmax t t1 t2 v1 v2 ci cf = Some v \<longleftrightarrow> t1 = t \<and> t2 = t \<and>
     (int_type t \<and> v = (if ci then v1 else v2) \<or> IR_IS_TYPE_FP t \<and> v = (if cf then v1 else v2))"
  using int_not_fp [of t] by (auto simp: sem_minmax_def)

lemma canon_ile:
  assumes "canonical IR_CHAR w" "canonical IR_CHAR w'"
  shows "val_i64 w \<le> val_i64 w' \<longleftrightarrow> sval 8 (cv IR_CHAR w) \<le> sval 8 (cv IR_CHAR w')"
  using canonical_signed [OF assms(1)] canonical_signed [OF assms(2)] by (simp add: signed_types)

lemma sound_minmax: "list_all sound_rule fold_rules_minmax"
  unfolding fold_rules_minmax_def list.pred_inject
  by (intro conjI; (rule const2_rule)?; auto simp: key_simps sem_bin_simps sem_minmax_Some int_type_iff fp_types
     copy_ok_def canon_ult canon_ile num_simps cv_simps(11,12) split: if_splits)

section \<open>Conversions\<close>

lemma to_type_Some: "to_type t v = Some w \<longleftrightarrow> w = v \<and> (t = IR_BOOL \<longrightarrow> v = 0 \<or> v = 1)"
  by (auto simp: to_type_def)

lemma const_bool_ok:
  "i_type a = IR_BOOL \<Longrightarrow> step_ok h ctx \<rho> a v (IR_FOLD_CONST_U i) \<longleftrightarrow> v = of_bool (take_bit 64 i \<noteq> 0)"
  by (auto simp: IR_FOLD_CONST_U_def cv_def word_of_int_eq_0_iff take_bit_eq_0_iff)

lemma nan_cmp: "fp_isnan t v \<Longrightarrow> \<not> fp_eq t w v \<and> \<not> fp_lt t w v \<and> \<not> fp_le t w v \<and> \<not> fp_lt t v w \<and> \<not> fp_le t v w"
  by (auto simp: fp_eq_def fp_lt_def fp_le_def)

lemma sound_nan: "list_all sound_rule fold_rules_nan"
  unfolding fold_rules_nan_def list.pred_inject
  apply (intro conjI)
  subgoal by (rule const2_rule) (auto simp: cmp_simps cv_simps mk_bool_def split: if_splits)
  subgoal by (rule const2_rule) (auto simp: cmp_simps cv_simps mk_bool_def split: if_splits)
  subgoal by (rule const2_rule) (auto simp: cmp_simps cv_simps mk_bool_def split: if_splits)
  subgoal by (rule const2_rule) (auto simp: cmp_simps cv_simps mk_bool_def split: if_splits)
  subgoal by (rule bin_const_rule) (auto simp: cmp_simps cv_simps nan_cmp fold_site.bool_copy)
  subgoal by (rule bin_const_rule) (auto simp: cmp_simps cv_simps nan_cmp fold_site.bool_copy)
  subgoal by (rule bin_const_rule) (auto simp: cmp_simps cv_simps mk_bool_def fold_site.bool_copy intro!: fold_site.restart_same eval_binI split: if_splits)
  subgoal by (rule bin_const_rule) (auto simp: cmp_simps cv_simps mk_bool_def fold_site.bool_copy intro!: fold_site.restart_same eval_binI split: if_splits)
  subgoal by (rule bin_const_rule) (auto simp: cmp_simps cv_simps nan_cmp fold_site.bool_copy)
  subgoal by (rule bin_const_rule) (auto simp: cmp_simps cv_simps nan_cmp fold_site.bool_copy)
  subgoal by (rule bin_const_rule) (auto simp: cmp_simps cv_simps mk_bool_def fold_site.bool_copy intro!: fold_site.restart_same eval_binI split: if_splits)
  subgoal by (rule bin_const_rule) (auto simp: cmp_simps cv_simps mk_bool_def fold_site.bool_copy intro!: fold_site.restart_same eval_binI split: if_splits)
  by simp

lemma val_u8_small: "val_u8 w = 0 \<or> val_u8 w = 1 \<Longrightarrow> take_bit 64 (val_u8 w) = val_u8 w"
  by auto

lemmas conv_simps = sem_un_simps int_type_iff arith_type_iff cv_simps fold_const_ok width_simps to_type_Some

lemma trunc_const_ok:
  assumes "sem_un h IR_TRUNC (i_type a) t (cv t w) = Some v" "t \<in> {IR_I16, IR_I32, IR_I64, IR_U16, IR_U32, IR_U64}"
  shows "step_ok h ctx \<rho> a v (case i_type a of
         IR_I16 \<Rightarrow> IR_FOLD_CONST_I (val_i16 w) | IR_I32 \<Rightarrow> IR_FOLD_CONST_I (val_i32 w)
       | IR_U8 \<Rightarrow> IR_FOLD_CONST_U (val_u8 w) | IR_BOOL \<Rightarrow> IR_FOLD_CONST_U (val_u8 w)
       | IR_U16 \<Rightarrow> IR_FOLD_CONST_U (val_u16 w) | IR_U32 \<Rightarrow> IR_FOLD_CONST_U (val_u32 w)
       | IR_ADDR \<Rightarrow> IR_FOLD_CONST_U (val_u32 w) | _ \<Rightarrow> IR_FOLD_CONST_I (val_i8 w))"
proof -
  have v: "v = wrap (i_type a) (cv t w)" "ir_type_size (i_type a) < ir_type_size t" "i_type a = IR_BOOL \<longrightarrow> v = 0 \<or> v = 1"
    "t \<noteq> IR_BOOL" "int_type (i_type a)" using assms by (auto simp: sem_un_simps to_type_Some split: if_splits)
  then have "v = take_bit (type_bits (i_type a)) (uint w)"
    using type_bits_mono [of "i_type a" t] by (auto simp: wrap_def cv_def min_def)
  then show ?thesis using v(2,3,5) assms(2)
    by (cases "i_type a") (auto simp: int_type_iff fold_const_ok const_bool_ok width_simps val_i_sval(1-3) take_bit_sval val_u8_def
      val_u16_def val_u32_def val_f_def val_d_def)
qed

lemma bool_u8: "canonical IR_BOOL w \<Longrightarrow> val_u8 w = of_bool (w \<noteq> 0)"
  using canonical_unsigned [of IR_BOOL w] by (auto simp: cv_simps signed_types val_u8_def val_u64_def)

lemma larger_not_bool: "Suc 0 < ir_type_size t \<Longrightarrow> t \<noteq> IR_BOOL" "2 < ir_type_size t \<Longrightarrow> t \<noteq> IR_BOOL"
  "4 < ir_type_size t \<Longrightarrow> t \<noteq> IR_BOOL"
  by auto

lemma wrap_larger:
  "Suc 0 < ir_type_size t \<Longrightarrow> wrap t (val_u8 w) = val_u8 w" "2 < ir_type_size t \<Longrightarrow> wrap t (val_u16 w) = val_u16 w"
  "4 < ir_type_size t \<Longrightarrow> wrap t (val_u32 w) = val_u32 w"
  by (cases t; simp add: wrap_def val_u8_def val_u16_def val_u32_def)+

lemma sound_extend: "list_all sound_rule fold_rules_extend"
  unfolding fold_rules_extend_def list.pred_inject
  apply (intro conjI)
  subgoal by (rule const1_rule) (auto simp: key_simps conv_simps val_i_sval(1-3) bool_u8 larger_not_bool split: if_splits)
  subgoal by (rule const1_rule) (auto simp: key_simps conv_simps val_i_sval(1-3) larger_not_bool split: if_splits)
  subgoal by (rule const1_rule) (auto simp: key_simps conv_simps val_i_sval(1-3) larger_not_bool split: if_splits)
  subgoal by (rule const1_rule) (auto simp: key_simps conv_simps larger_not_bool wrap_larger simp flip: bool_u8 split: if_splits)
  subgoal by (rule const1_rule) (auto simp: key_simps conv_simps larger_not_bool wrap_larger split: if_splits)
  subgoal by (rule const1_rule) (auto simp: key_simps conv_simps larger_not_bool wrap_larger split: if_splits)
  subgoal by (rule const1_rule) (fastforce simp: key_simps intro: trunc_const_ok)+
  by simp

text \<open>A constant of any type but \<open>BOOL\<close> read at another type of the same size.\<close>

lemma bitcast_const_ok:
  assumes "fold_site h ctx \<rho> a v" "sem_un h IR_BITCAST (i_type a) t (cv t w) = Some v" "canonical t w"
  shows "step_ok h ctx \<rho> a v (case i_type a of
         IR_I8 \<Rightarrow> IR_FOLD_CONST_I (val_i8 w) | IR_I16 \<Rightarrow> IR_FOLD_CONST_I (val_i16 w)
       | IR_I32 \<Rightarrow> IR_FOLD_CONST_I (val_i32 w) | IR_I64 \<Rightarrow> IR_FOLD_CONST_I (val_i64 w)
       | IR_U8 \<Rightarrow> IR_FOLD_CONST_U (val_u8 w) | IR_U16 \<Rightarrow> IR_FOLD_CONST_U (val_u16 w)
       | IR_U32 \<Rightarrow> IR_FOLD_CONST_U (val_u32 w) | IR_U64 \<Rightarrow> IR_FOLD_CONST_U (val_u64 w)
       | IR_FLOAT \<Rightarrow> IR_FOLD_CONST_F (val_f w) | IR_DOUBLE \<Rightarrow> IR_FOLD_CONST_D (val_d w)
       | IR_CHAR \<Rightarrow> IR_FOLD_CONST_I (val_i8 w) | IR_ADDR \<Rightarrow> IR_FOLD_CONST_U (val_u64 w)
       | _ \<Rightarrow> IR_FOLD_BOOL (val_i8 w \<noteq> 0))"
proof -
  have v: "v = cv t w" "ir_type_size (i_type a) = ir_type_size t" "i_type a = IR_BOOL \<longrightarrow> v = 0 \<or> v = 1"
    "i_type a \<noteq> IR_VOID" using assms(2) by (auto simp: sem_un_simps to_type_Some split: if_splits)
  have b: "t = IR_BOOL \<Longrightarrow> cv t w = val_u8 w" using assms(3) by (simp add: bool_u8 cv_simps)
  have "v = take_bit (type_bits (i_type a)) (uint w)"
    using v(1,2) b by (cases "t = IR_BOOL") (auto simp: cv_def type_bits_def val_u8_def)
  moreover from this have "sval 8 (uint w) = v" if "i_type a = IR_BOOL"
    using v(3) that sval_cong [of 8 v "uint w"] sval_id [of 8 v] by auto
  ultimately show ?thesis using v(3,4) assms(1)
    by (cases "i_type a") (auto simp: fold_const_ok width_simps val_i_sval take_bit_sval val_u8_def
      val_u16_def val_u32_def val_u64_def val_f_def val_d_def fold_site.fold_bool)
qed

lemma sound_bitcast: "list_all sound_rule fold_rules_bitcast"
  unfolding fold_rules_bitcast_def list.pred_inject
  apply (intro conjI)
  subgoal by (rule const1_rule) (fastforce simp: key_simps intro: bitcast_const_ok)+
  by simp

lemma fp2int_const_ok:
  assumes "sem_un h IR_FP2INT (i_type a) t w = Some v"
  shows "step_ok h ctx \<rho> a v (case i_type a of
         IR_I16 \<Rightarrow> fp_cast_i h t 16 w | IR_I32 \<Rightarrow> fp_cast_i h t 32 w | IR_I64 \<Rightarrow> fp_cast_i h t 64 w
       | IR_U8 \<Rightarrow> fp_cast_u h t 8 w | IR_U16 \<Rightarrow> fp_cast_u h t 16 w | IR_U32 \<Rightarrow> fp_cast_u h t 32 w
       | IR_U64 \<Rightarrow> fp_cast_u h t 64 w | _ \<Rightarrow> fp_cast_i h t 8 w)"
proof -
  obtain i where "arith_type (i_type a)" "i_type a \<noteq> IR_ADDR" "fp_trunc h t w = Some i" "in_range (i_type a) i" "v = wrap (i_type a) i"
    using assms by (auto simp: sem_un_simps split: if_splits option.splits)
  then show ?thesis
    by (cases "i_type a") (auto simp: fp_cast_i_def fp_cast_u_def fold_const_ok in_range_def signed_types arith_type_iff)
qed

lemma sound_fpconv: "list_all sound_rule fold_rules_fpconv"
  unfolding fold_rules_fpconv_def list.pred_inject
  apply (intro conjI)
  subgoal by (rule const1_rule) (auto simp: key_simps conv_simps canon_simps fp_types take_bit_take_bit split: if_splits)
  subgoal by (rule const1_rule) (auto simp: key_simps conv_simps canon_simps fp_types take_bit_take_bit split: if_splits)
  subgoal by (rule const1_rule) (auto simp: key_simps cv_simps split del: if_split intro!: fp2int_const_ok)
  subgoal by (rule const1_rule) (auto simp: key_simps cv_simps split del: if_split intro!: fp2int_const_ok)
  subgoal by (rule const1_rule) (auto simp: key_simps conv_simps fp_types copy_ok_def split: if_splits)
  subgoal by (rule const1_rule) (auto simp: key_simps conv_simps fp_types copy_ok_def split: if_splits)
  by simp

end
