(* ===== verification/Sound_Copy.thy ===== *)
theory Sound_Copy
  imports Sound_Bits
begin

text \<open>The copy-propagation and algebraic rules keep the value of the instruction.\<close>

section \<open>Rules that look at the operation behind an operand\<close>

definition inner :: "host \<Rightarrow> ir_ctx \<Rightarrow> (ir_ref \<rightharpoonup> int) \<Rightarrow> ir_insn \<Rightarrow> int \<Rightarrow> bool" where
  "inner h ctx \<rho> i v \<longleftrightarrow>
     (unary_op (i_op i) \<longrightarrow> (\<exists>t1 v1. un_at h ctx \<rho> i t1 v1 v)) \<and>
     (binary_op (i_op i) \<longrightarrow> (\<exists>t1 v1 t2 v2. bin_at h ctx \<rho> i t1 v1 t2 v2 v))"

lemma inner_un: "unary_op (i_op i) \<Longrightarrow> inner h ctx \<rho> i v \<longleftrightarrow> (\<exists>t1 v1. un_at h ctx \<rho> i t1 v1 v)"
  by (auto simp: inner_def unary_op_def binary_op_def)

lemma inner_bin: "binary_op (i_op i) \<Longrightarrow> inner h ctx \<rho> i v \<longleftrightarrow> (\<exists>t1 v1 t2 v2. bin_at h ctx \<rho> i t1 v1 t2 v2 v)"
  by (auto simp: inner_def unary_op_def binary_op_def)

lemma site_inner:
  assumes "fold_site h ctx \<rho> a v" "den ctx \<rho> r = Some (t, w)"
  shows "inner h ctx \<rho> (ir_base ctx r) w"
  unfolding inner_def using fold_site.look_un [OF assms] fold_site.look_bin [OF assms] by metis

lemma un_rule:
  assumes "\<forall>(op, k1, k2)\<in>set ks. unary_op op"
    and "\<And>h ctx \<rho> a v x y z op k1 k2 t1 v1. (op, k1, k2) \<in> set ks \<Longrightarrow> fold_site h ctx \<rho> a v \<Longrightarrow> i_op a = op \<Longrightarrow>
      \<not> fold_excluded ctx a \<Longrightarrow> x = ir_base ctx (i_op1 a) \<Longrightarrow> k1 = ANY \<or> i_op x = k1 \<Longrightarrow>
      den ctx \<rho> (i_op1 a) = Some (t1, v1) \<Longrightarrow> okval t1 v1 \<Longrightarrow> t1 = i_type x \<Longrightarrow> t1 \<noteq> IR_VOID \<Longrightarrow>
      inner h ctx \<rho> x v1 \<Longrightarrow> sem_un h op (i_type a) t1 v1 = Some v \<Longrightarrow> step_ok h ctx \<rho> a v (b h ctx a x y z)"
  shows "sound_rule (ks, b)"
proof (rule sound_ruleI)
  fix h :: host and ctx :: ir_ctx and \<rho> and a :: ir_insn and v op k1 k2
  let ?x = "ir_base ctx (i_op1 a)"
  assume key: "(op, k1, k2) \<in> set ks" and site: "fold_site h ctx \<rho> a v" and op: "i_op a = op"
    and k: "k1 = ANY \<or> i_op ?x = k1" and ex: "\<not> fold_excluded ctx a"
  have "unary_op op" using assms(1) key by auto
  then obtain t1 v1 where "un_at h ctx \<rho> a t1 v1 v" using fold_site.unE [OF site] op by blast
  then show "step_ok h ctx \<rho> a v (b h ctx a ?x (ir_base ctx (i_op2 a)) (ir_base ctx (i_op3 a)))"
    using assms(2) [OF key site op ex refl k] op site_inner [OF site, of "i_op1 a"] by (auto simp: un_at_def)
qed

lemma bin_rule':
  assumes "\<forall>(op, k1, k2)\<in>set ks. binary_op op"
    and "\<And>h ctx \<rho> a v x y z op k1 k2 t1 v1 t2 v2. (op, k1, k2) \<in> set ks \<Longrightarrow> fold_site h ctx \<rho> a v \<Longrightarrow> i_op a = op \<Longrightarrow>
      \<not> fold_excluded ctx a \<Longrightarrow> x = ir_base ctx (i_op1 a) \<Longrightarrow> y = ir_base ctx (i_op2 a) \<Longrightarrow>
      k1 = ANY \<or> i_op x = k1 \<Longrightarrow> k2 = ANY \<or> i_op y = k2 \<Longrightarrow>
      den ctx \<rho> (i_op1 a) = Some (t1, v1) \<Longrightarrow> okval t1 v1 \<Longrightarrow> t1 = i_type x \<Longrightarrow> t1 \<noteq> IR_VOID \<Longrightarrow> inner h ctx \<rho> x v1 \<Longrightarrow>
      den ctx \<rho> (i_op2 a) = Some (t2, v2) \<Longrightarrow> okval t2 v2 \<Longrightarrow> t2 = i_type y \<Longrightarrow> t2 \<noteq> IR_VOID \<Longrightarrow> inner h ctx \<rho> y v2 \<Longrightarrow>
      sem_bin h op (i_type a) t1 t2 v1 v2 = Some v \<Longrightarrow> step_ok h ctx \<rho> a v (b h ctx a x y z)"
  shows "sound_rule (ks, b)"
  using assms(1) by (rule bin_rule) (metis assms(2) site_inner)

lemma bin_const_rule':
  assumes "\<forall>(op, k1, k2)\<in>set ks. binary_op op \<and> IR_IS_CONST_OP k2"
    and "\<And>h ctx \<rho> a v x y z op k1 k2 t1 v1. (op, k1, k2) \<in> set ks \<Longrightarrow> fold_site h ctx \<rho> a v \<Longrightarrow> i_op a = op \<Longrightarrow>
      \<not> fold_excluded ctx a \<Longrightarrow> x = ir_base ctx (i_op1 a) \<Longrightarrow> y = ir_base ctx (i_op2 a) \<Longrightarrow>
      k1 = ANY \<or> i_op x = k1 \<Longrightarrow> i_op y = k2 \<Longrightarrow>
      den ctx \<rho> (i_op1 a) = Some (t1, v1) \<Longrightarrow> okval t1 v1 \<Longrightarrow> t1 = i_type x \<Longrightarrow> t1 \<noteq> IR_VOID \<Longrightarrow> inner h ctx \<rho> x v1 \<Longrightarrow>
      den ctx \<rho> (i_op2 a) = Some (const_type k2, cv (const_type k2) (i_val y)) \<Longrightarrow> canonical (const_type k2) (i_val y) \<Longrightarrow>
      i_type y = const_type k2 \<Longrightarrow>
      sem_bin h op (i_type a) t1 (const_type k2) v1 (cv (const_type k2) (i_val y)) = Some v \<Longrightarrow>
      step_ok h ctx \<rho> a v (b h ctx a x y z)"
  shows "sound_rule (ks, b)"
proof -
  have ty: "i_type (ir_base ctx r) = t" if "fold_site h ctx \<rho> a v" "den ctx \<rho> r = Some (t, w)" for h ctx \<rho> a v r t w
    using den_okval [of ctx h \<rho> r t w] that by (simp add: fold_site_def)
  show ?thesis using assms(1) by (rule bin_const_rule) (metis assms(2) site_inner ty)
qed

lemmas inner_simps = inner_un inner_bin un_at_def bin_at_def key_simps

section \<open>Copies\<close>

lemma bool_const:
  assumes "fold_site h ctx \<rho> a v" "den ctx \<rho> r = Some (IR_BOOL, w)" "i_op (ir_base ctx r) = IR_C_BOOL"
  shows "r = IR_TRUE \<and> w = 1 \<or> r = IR_FALSE \<and> w = 0"
proof -
  have p: "pool_ok ctx" using assms(1) by (simp add: fold_site_def)
  have r: "r < 0" "- consts_count ctx < r" using fold_site.const_opnd(1) [OF assms(1,2)] assms(2,3)
    by (auto simp: key_simps den_def Let_def split: if_splits)
  have "r = IR_TRUE \<or> r = IR_FALSE"
    using pool_cases [OF p r(2,1)] assms(2,3) p
    by (auto simp: const_ok_def ir_defs den_def Let_def pool_ok_def predefined_ok_def split: if_splits)
  then show ?thesis using assms(2) p
    by (auto simp: den_def Let_def pool_ok_def predefined_ok_def cv_def ir_defs split: if_splits)
qed

lemma eval_cond:
  assumes "eval h ctx \<rho> i = Some v" "i_op i = IR_COND"
  shows "\<exists>t1 v1 t2 v2 t3 v3. den ctx \<rho> (i_op1 i) = Some (t1, v1) \<and> den ctx \<rho> (i_op2 i) = Some (t2, v2) \<and>
    den ctx \<rho> (i_op3 i) = Some (t3, v3) \<and> sem_cond (i_type i) t1 t2 t3 v1 v2 v3 = Some v"
  using assms by (auto simp: eval_def key_simps split: option.splits)

lemma cond_rule:
  assumes "\<forall>(op, k1, k2)\<in>set ks. op = IR_COND"
    and "\<And>h ctx \<rho> a v x y z k1 k2 t1 v1 t2 v2 t3 v3. (IR_COND, k1, k2) \<in> set ks \<Longrightarrow> fold_site h ctx \<rho> a v \<Longrightarrow> i_op a = IR_COND \<Longrightarrow>
      \<not> fold_excluded ctx a \<Longrightarrow> x = ir_base ctx (i_op1 a) \<Longrightarrow> y = ir_base ctx (i_op2 a) \<Longrightarrow> z = ir_base ctx (i_op3 a) \<Longrightarrow>
      k1 = ANY \<or> i_op x = k1 \<Longrightarrow> den ctx \<rho> (i_op1 a) = Some (t1, v1) \<Longrightarrow> inner h ctx \<rho> x v1 \<Longrightarrow> okval t1 v1 \<Longrightarrow> t1 = i_type x \<Longrightarrow>
      den ctx \<rho> (i_op2 a) = Some (t2, v2) \<Longrightarrow> den ctx \<rho> (i_op3 a) = Some (t3, v3) \<Longrightarrow>
      sem_cond (i_type a) t1 t2 t3 v1 v2 v3 = Some v \<Longrightarrow> step_ok h ctx \<rho> a v (b h ctx a x y z)"
  shows "sound_rule (ks, b)"
proof (rule sound_ruleI)
  fix h :: host and ctx :: ir_ctx and \<rho> and a :: ir_insn and v op k1 k2
  let ?x = "ir_base ctx (i_op1 a)"
  assume key: "(op, k1, k2) \<in> set ks" and site: "fold_site h ctx \<rho> a v" and op: "i_op a = op"
    and k: "k1 = ANY \<or> i_op ?x = k1" and ex: "\<not> fold_excluded ctx a"
  have c: "op = IR_COND" using assms(1) key by auto
  obtain t1 v1 t2 v2 t3 v3 where d: "den ctx \<rho> (i_op1 a) = Some (t1, v1)" "den ctx \<rho> (i_op2 a) = Some (t2, v2)"
    "den ctx \<rho> (i_op3 a) = Some (t3, v3)" "sem_cond (i_type a) t1 t2 t3 v1 v2 v3 = Some v"
    using eval_cond [of h ctx \<rho> a v] site op c by (auto simp: fold_site_def)
  have o1: "okval t1 v1" "t1 = i_type ?x" using den_okval [OF _ _ d(1)] site by (auto simp: fold_site_def)
  have key': "(IR_COND, k1, k2) \<in> set ks" and op': "i_op a = IR_COND" using key op c by auto
  show "step_ok h ctx \<rho> a v (b h ctx a ?x (ir_base ctx (i_op2 a)) (ir_base ctx (i_op3 a)))"
    by (rule assms(2) [OF key' site op' ex refl refl refl k d(1) site_inner [OF site d(1)] o1 d(2-4)])
qed

lemma sem_cond_Some:
  "sem_cond t t1 t2 t3 v1 v2 v3 = Some v \<longleftrightarrow>
     t1 \<noteq> IR_VOID \<and> t \<noteq> IR_VOID \<and> compat t2 t \<and> compat t3 t \<and> v = (if truthy t1 v1 then v2 else v3)"
  by (auto simp: sem_cond_def)

lemma const_truthy:
  assumes "fold_site h ctx \<rho> a v" "den ctx \<rho> r = Some (t, w)" "IR_IS_CONST_OP (i_op (ir_base ctx r))"
  shows "ir_const_is_true (ir_base ctx r) \<longleftrightarrow> truthy t w"
proof -
  note c = fold_site.const_opnd [OF assms]
  have t: "i_type (ir_base ctx r) = t" "t \<noteq> IR_VOID" using den_okval [of ctx h \<rho> r t w] assms by (auto simp: fold_site_def)
  have z: "i_val (ir_base ctx r) \<noteq> 0 \<longleftrightarrow> w \<noteq> 0" using canonical_zero_iff [OF c(4)] c(3) by simp
  consider "t = IR_BOOL" | "t \<noteq> IR_BOOL" "int_type t" | "t = IR_DOUBLE" | "t = IR_FLOAT" using t(2) by (auto simp: int_type_iff)
  then show ?thesis
  proof cases
    case 1
    then show ?thesis using z c(4) val_b_canonical [of "i_val (ir_base ctx r)"] sym_not_const [OF assms(3)] t(1)
      by (simp add: ir_const_is_true_def truthy_def fp_types)
  next
    case 2
    then show ?thesis using z t(1) sym_not_const [OF assms(3)] int_not_fp [OF 2(2)]
      by (simp add: ir_const_is_true_def truthy_def int_type_def)
  qed (use c(3) t(1) sym_not_const [OF assms(3)] in \<open>simp_all add: ir_const_is_true_def truthy_def cv_simps ir_defs\<close>)
qed

lemma fp_abs_idem: "fp_abs t (fp_abs t v) = fp_abs t v" "fp_abs t (fp_neg t v) = fp_abs t v"
  "fp_neg t (fp_neg t v) = v"
  by (rule bit_eqI; auto simp: fp_abs_def fp_neg_def bit_unset_bit_iff bit_flip_bit_iff)+

text \<open>Byte \<open>n\<close> of a byte-swapped value.\<close>

lemma bit_bytes:
  fixes f :: "nat \<Rightarrow> int"
  shows "bit (\<Sum>i<m. push_bit (8 * i) (take_bit 8 (f i))) n \<longleftrightarrow> n < 8 * m \<and> bit (f (n div 8)) (n mod 8)"
proof (induction m arbitrary: n)
  case (Suc m)
  let ?s = "\<Sum>i<m. push_bit (8 * i) (take_bit 8 (f i))" and ?b = "push_bit (8 * m) (take_bit 8 (f m))"
  have b: "bit ?b j \<longleftrightarrow> 8 * m \<le> j \<and> j < 8 * Suc m \<and> bit (f (j div 8)) (j mod 8)" for j
  proof -
    have "8 * m \<le> j \<Longrightarrow> j < 8 * Suc m \<Longrightarrow> j div 8 = m \<and> j mod 8 = j - 8 * m"
      by presburger
    then show ?thesis by (auto simp: bit_push_bit_iff bit_take_bit_iff)
  qed
  have "?s + ?b = ?s OR ?b" by (rule disjunctive_add_eq_or, rule bit_eqI) (auto simp: bit_and_iff Suc b)
  then show ?case using Suc [of n] b [of n] by (auto simp: bit_or_iff)
qed simp

lemma bit_bswap: "bit (bswap_val k v) n \<longleftrightarrow> n < 8 * k \<and> bit v (8 * (k - 1 - n div 8) + n mod 8)"
  unfolding bswap_val_def bit_bytes by (auto simp: bit_drop_bit_eq)

lemma bswap_bswap:
  assumes "fits (8 * k) v"
  shows "bswap_val k (bswap_val k v) = v"
proof (rule bit_eqI)
  fix n
  show "bit (bswap_val k (bswap_val k v)) n \<longleftrightarrow> bit v n"
  proof (cases "n < 8 * k")
    case True
    define j where "j = 8 * (k - 1 - n div 8) + n mod 8"
    have d: "n div 8 < k" using True by auto
    then have "j < 8 * k" "j div 8 = k - 1 - n div 8" "j mod 8 = n mod 8" by (auto simp: j_def)
    moreover from d this have "8 * (k - 1 - j div 8) + j mod 8 = n" by auto
    ultimately have "bit (bswap_val k v) j \<longleftrightarrow> bit v n" by (simp add: bit_bswap)
    then show ?thesis using True bit_bswap [of k "bswap_val k v" n] by (simp add: j_def)
  next
    case False
    then show ?thesis using assms by (auto simp: bit_bswap fits_bit)
  qed
qed

lemma neg_neg_wrap: "okval t w \<Longrightarrow> t \<noteq> IR_BOOL \<Longrightarrow> wrap t (- wrap t (- w)) = w"
  by (simp add: wrap_def okval_def fits_iff_take_bit take_bit_minus)

lemma not_not_wrap: "okval t w \<Longrightarrow> t \<noteq> IR_BOOL \<Longrightarrow> wrap t (NOT (wrap t (NOT w))) = w"
  by (simp add: wrap_def okval_def fits_iff_take_bit take_bit_not_take_bit)

lemma wrap_fp_neg: "okval t w \<Longrightarrow> IR_IS_TYPE_FP t \<Longrightarrow> wrap t (fp_neg t w) = fp_neg t w"
  by (auto simp: wrap_def okval_def fp_types fp_neg_def fits_iff_take_bit flip_take_bit)

lemma okval_wrap_id: "okval t v \<Longrightarrow> t \<noteq> IR_BOOL \<Longrightarrow> wrap t v = v"
  by (simp add: wrap_def okval_def fits_iff_take_bit)

lemma wrap_compat: "compat t t' \<Longrightarrow> wrap t = wrap t'"
  using compat_bits [of t t'] by (auto simp: wrap_def)

lemma compat_signed: "compat t u \<Longrightarrow> IR_IS_TYPE_SIGNED t \<Longrightarrow> IR_IS_TYPE_SIGNED u \<Longrightarrow> t = u"
  by (auto simp: compat_def wide_def signed_types)

lemma signed_not_fp: "IR_IS_TYPE_SIGNED t \<Longrightarrow> \<not> IR_IS_TYPE_FP t"
  by (auto simp: fp_types signed_types)

lemma num_bounds:
  assumes "IR_IS_TYPE_SIGNED t"
  shows "- (2 ^ (type_bits t - 1)) \<le> num t v" "num t v < 2 ^ (type_bits t - 1)"
  using sval_bounds [of "type_bits t" v] assms by (auto simp: num_def signed_types)

lemma num_wrap:
  assumes "IR_IS_TYPE_SIGNED t" "- (2 ^ (type_bits t - 1)) \<le> i" "i < 2 ^ (type_bits t - 1)"
  shows "num t (wrap t i) = i"
proof -
  have "0 < type_bits t" using assms(1) by (auto simp: signed_types)
  then show ?thesis using assms by (simp add: num_def wrap_def sval_id)
qed

lemma sem_abs_Some:
  "sem_un h IR_ABS t t1 v1 = Some v \<longleftrightarrow> IR_IS_TYPE_FP t \<and> t1 = t \<and> v = fp_abs t v1 \<or>
     IR_IS_TYPE_SIGNED t \<and> compat t1 t \<and> num t v1 \<noteq> - (2 ^ (type_bits t - 1)) \<and> v = wrap t \<bar>num t v1\<bar>"
  by (auto simp: sem_un_simps dest: signed_not_fp)

lemma num_abs:
  assumes "IR_IS_TYPE_SIGNED t" "num t v \<noteq> - (2 ^ (type_bits t - 1))"
  shows "num t (wrap t \<bar>num t v\<bar>) = \<bar>num t v\<bar>"
  using num_bounds [OF assms(1), of v] assms by (intro num_wrap) auto

lemma sem_abs_abs:
  assumes "sem_un h IR_ABS t1 t0 v0 = Some v1" "sem_un h IR_ABS t t1 v1 = Some v"
  shows "v = v1 \<and> compat t1 t"
  using assms compat_signed [of t1 t] compat_fp' [of t1 t] num_abs [of t v0]
  by (auto simp: sem_abs_Some fp_abs_idem dest: signed_not_fp)

lemma num_minus:
  assumes "IR_IS_TYPE_SIGNED t" "num t (wrap t (- v)) \<noteq> - (2 ^ (type_bits t - 1))"
  shows "num t (wrap t (- v)) = - num t v \<and> num t v \<noteq> - (2 ^ (type_bits t - 1))"
proof -
  have t: "0 < type_bits t" using assms(1) by (auto simp: signed_types)
  have e: "num t (wrap t (- v)) = num t (wrap t (- num t v))"
    using t assms(1) by (simp add: num_def wrap_def) (metis sval_cong take_bit_svals(4))
  have "num t v \<noteq> - (2 ^ (type_bits t - 1))"
  proof
    assume m: "num t v = - (2 ^ (type_bits t - 1))"
    have "num t (wrap t (2 ^ (type_bits t - 1))) = - (2 ^ (type_bits t - 1))"
      using assms(1) by (auto simp: num_def wrap_def signed_types sval_def)
    then show False using assms(2) e m by simp
  qed
  moreover from this have "num t (wrap t (- num t v)) = - num t v"
    using num_bounds [OF assms(1), of v] assms(1) by (intro num_wrap) auto
  ultimately show ?thesis using e by simp
qed

lemma arith_not_fp: "arith_type t \<Longrightarrow> \<not> IR_IS_TYPE_FP t"
  by (auto simp: arith_type_iff fp_types)

lemma sem_abs_neg:
  assumes "sem_un h IR_NEG t1 t0 v0 = Some v1" "sem_un h IR_ABS t t1 v1 = Some v" "okval t0 v0"
  shows "sem_un h IR_ABS t t0 v0 = Some v"
  using assms compat_fp' [of t1 t] num_minus [of t v0] wrap_fp_neg [of t v0] wrap_compat [of t1 t] compat_trans [of t0 t1 t]
  by (auto simp: sem_abs_Some sem_un_simps(1) sem_arith_Some fp_abs_idem dest: signed_not_fp arith_not_fp)

text \<open>Operations that undo themselves.\<close>

lemma sem_self_inverse:
  assumes "sem_un h op t1 t0 v0 = Some v1" "sem_un h op t t1 v1 = Some v" "okval t0 v0" "op \<in> {IR_NEG, IR_NOT, IR_BSWAP}"
  shows "v = v0 \<and> compat t0 t"
proof -
  consider "op = IR_NEG" | "op = IR_NOT" | "op = IR_BSWAP" using assms(4) by auto
  then show ?thesis
  proof cases
    case 1
    then show ?thesis
      using assms(1-3) wrap_compat [of t1 t] compat_trans [of t0 t1 t] neg_neg_wrap [of t v0]
        wrap_fp_neg [of t v0] okval_wrap_id [of t v0] okval_compat [of t0 v0 t]
      by (auto simp: sem_un_simps sem_arith_Some fp_abs_idem dest: arith_not_fp) (auto simp: fp_types arith_type_iff)
  next
    case 2
    then show ?thesis
      using assms(1-3) wrap_compat [of t1 t] compat_trans [of t0 t1 t] not_not_wrap [of t v0] okval_compat [of t0 v0 t]
      by (auto simp: sem_un_simps split: if_splits)
  next
    case 3
    then show ?thesis
      using assms(1-3) compat_trans [of t0 t1 t] compat_size [of t1 t] compat_size [of t0 t] bswap_bswap [of "ir_type_size t" v0]
        okval_fits [of t0 v0]
      by (auto simp: sem_un_simps type_bits_def mult.commute split: if_splits)
  qed
qed


lemmas sem_self_inverses = sem_self_inverse [where op = IR_NEG, OF _ _ _ insertI1]
  sem_self_inverse [where op = IR_NOT, OF _ _ _ insertI2 [OF insertI1]]
  sem_self_inverse [where op = IR_BSWAP, OF _ _ _ insertI2 [OF insertI2 [OF insertI1]]]

text \<open>Comparisons of a boolean, plain or widened.\<close>

lemma to_not:
  assumes "fold_site h ctx \<rho> a v" "i_type a = IR_BOOL" "den ctx \<rho> r = Some (IR_BOOL, w)" "v = 1 - w"
  shows "step_ok h ctx \<rho> a v (Fold_Restart ctx ((set_opt IR_NOT IR_BOOL a)\<lparr>i_op1 := r, i_op2 := IR_UNUSED\<rparr>))"
    "r = i_op1 a \<Longrightarrow> step_ok h ctx \<rho> a v (Fold_Restart ctx ((set_opt IR_NOT IR_BOOL a)\<lparr>i_op2 := IR_UNUSED\<rparr>))"
  using assms by (auto intro!: fold_site.restart_same eval_unI simp: set_opt_def key_simps sem_un_simps)

lemma eq_bool_ok:
  assumes "fold_site h ctx \<rho> a v" "den ctx \<rho> (i_op1 a) = Some (t1, v1)" "okval t1 v1"
    "den ctx \<rho> (i_op2 a) = Some (IR_BOOL, w)" "i_op (ir_base ctx (i_op2 a)) = IR_C_BOOL"
    "sem_bin h op (i_type a) t1 IR_BOOL v1 w = Some v"
  shows "op = IR_EQ \<Longrightarrow> step_ok h ctx \<rho> a v (if i_op2 a = IR_TRUE then Fold_Copy (i_op1 a)
      else Fold_Restart ctx ((set_opt IR_NOT IR_BOOL a)\<lparr>i_op2 := IR_UNUSED\<rparr>))"
    "op = IR_NE \<Longrightarrow> step_ok h ctx \<rho> a v (if i_op2 a \<noteq> IR_TRUE then Fold_Copy (i_op1 a)
      else Fold_Restart ctx ((set_opt IR_NOT IR_BOOL a)\<lparr>i_op2 := IR_UNUSED\<rparr>))"
  using bool_const [OF assms(1,4,5)] assms(2,3,6) to_not [OF assms(1)]
  by (auto simp: sem_bin_simps sem_eq_Some copy_ok_def okval_def fp_types split: if_splits)

lemma cmp_bool_ok:
  assumes "fold_site h ctx \<rho> a v" "fold_cmp_bool ctx a x y = Some r" "den ctx \<rho> (i_op1 x) = Some (IR_BOOL, w)" "okval IR_BOOL w"
    "sem_bin h (i_op a) (i_type a) t1 t2 w (cv t2 (i_val y)) = Some v" "canonical t2 (i_val y)" "int_type t1" "t2 \<noteq> IR_BOOL"
  shows "step_ok h ctx \<rho> a v r"
proof -
  have w: "w = 0 \<or> w = 1" using assms(4) by (simp add: okval_def)
  have c: "cv t2 0 = 0" "t2 \<noteq> IR_VOID \<Longrightarrow> cv t2 1 = 1" using assms(8) by (cases t2; simp add: cv_def)+
  have op: "i_op a = IR_EQ \<or> i_op a = IR_NE" "i_val y = 0 \<or> i_val y = 1"
    using assms(2) by (auto simp: fold_cmp_bool_def split: if_splits)
  then have s: "i_type a = IR_BOOL" "v = of_bool ((w = cv t2 (i_val y)) = (i_op a = IR_EQ))" "t2 \<noteq> IR_VOID"
    using assms(5,7) int_not_fp [of t1] by (auto simp: sem_bin_simps sem_eq_Some int_type_iff fp_types compat_void)
  show ?thesis
    using assms(2,3) to_not [OF assms(1) s(1) assms(3)] s w c op
    by (auto simp: fold_cmp_bool_def copy_ok_def split: if_splits)
qed

lemma cv_narrow:
  assumes "int_type t" "t \<noteq> IR_BOOL"
  shows "cv t (narrow_val t w) = take_bit (type_bits t) (uint w)"
  using assms by (cases t) (auto simp: narrow_val_def cv_word_of_int wrap_simps int_type_iff signed_types take_bit_sval
      val_i_sval val_u8_def val_u16_def val_u32_def cv_def uint_word_of_int64)

lemma narrow_restart:
  assumes "fold_site h ctx \<rho> a v" "int_type s" "s \<noteq> IR_BOOL" "den ctx \<rho> r = Some (s, w)" "binary_op (i_op a)"
    "sem_bin h (i_op a) (i_type a) s s w (take_bit (type_bits s) (uint c)) = Some v"
  shows "step_ok h ctx \<rho> a v (fold_const_restart ctx (narrow_val s c) s (\<lambda>q. a\<lparr>i_op1 := r, i_op2 := q\<rparr>))"
proof (rule fold_site.const_restart [OF assms(1)])
  show "s \<noteq> IR_VOID" using assms(2) by (simp add: int_type_iff)
  fix ctx' q
  assume g: "grows h ctx \<rho> ctx' \<rho>" and q: "den ctx' \<rho> q = Some (s, cv s (narrow_val s c))"
  have r: "den ctx' \<rho> r = Some (s, w)" by (rule grows_den [OF g assms(4)])
  show "eval h ctx' \<rho> (a\<lparr>i_op1 := r, i_op2 := q\<rparr>) = Some v \<and> compat (i_type (a\<lparr>i_op1 := r, i_op2 := q\<rparr>)) (i_type a)"
    using assms(5,6) r q cv_narrow [OF assms(2,3), of c] by (auto intro!: eval_binI)
qed

lemma bitcast_cmp:
  assumes "fold_site h ctx \<rho> a v" "den ctx \<rho> (i_op1 x) = Some (s, w)" "okval s w"
    "sem_un h IR_BITCAST t1 s w = Some v1"
    "sem_bin h (i_op a) (i_type a) t1 t2 v1 (cv t2 (i_val y)) = Some v" "canonical t2 (i_val y)" "t2 \<noteq> IR_BOOL" "int_type t2"
    "i_op a = IR_EQ \<or> i_op a = IR_NE"
  shows "step_ok h ctx \<rho> a v
     (if s = IR_BOOL then (case fold_cmp_bool ctx a x y of Some r \<Rightarrow> r | None \<Rightarrow> Fold_Next)
      else if IR_IS_TYPE_INT s
      then fold_const_restart ctx (narrow_val s (i_val y)) s (\<lambda>r. a\<lparr>i_op1 := i_op1 x, i_op2 := r\<rparr>)
      else Fold_Next)"
proof -
  have v1: "v1 = w" "ir_type_size t1 = ir_type_size s" "s \<noteq> IR_VOID" "t1 \<noteq> IR_VOID"
    using assms(4) by (auto simp: sem_un_simps to_type_Some split: if_splits)
  have e: "i_type a = IR_BOOL" "v = of_bool ((w = cv t2 (i_val y)) = (i_op a = IR_EQ))" "compat t1 t2" "int_type t1"
    using assms(5,8,9) v1(1) int_not_fp [of t1] int_not_fp [of t2] by (auto simp: sem_bin_simps sem_eq_Some)
  have b: "type_bits t2 = type_bits s" using v1(2) compat_size [OF e(3)] by (simp add: type_bits_def)
  consider "s = IR_BOOL" | "s \<noteq> IR_BOOL" "int_type s" | "s \<noteq> IR_BOOL" "\<not> IR_IS_TYPE_INT s"
    using v1(3) by (auto simp: int_type_def)
  then show ?thesis
  proof cases
    case 1
    then show ?thesis using cmp_bool_ok [OF assms(1) _ _ _ assms(5,6) e(4) assms(7)] assms(2,3) v1(1)
      by (auto split: option.split)
  next
    case 2
    then show ?thesis
      using narrow_restart [OF assms(1) 2(2,1) assms(2), of "i_val y"] assms(7,9) b e 2
      by (auto simp: key_simps sem_bin_simps sem_eq_Some int_type_def cv_def)
  qed simp_all
qed

lemma bitcast_cmp_rule:
  assumes "\<forall>(op, k1, k2)\<in>set ks. (op = IR_EQ \<or> op = IR_NE) \<and> k1 = IR_BITCAST \<and> IR_IS_CONST_OP k2 \<and> arith_type (const_type k2)"
  shows "sound_rule (ks, \<lambda>h ctx a x y z. let t = i_type (ir_base ctx (i_op1 x))
       in if t = IR_BOOL then (case fold_cmp_bool ctx a x y of Some r \<Rightarrow> r | None \<Rightarrow> Fold_Next)
          else if IR_IS_TYPE_INT t
          then fold_const_restart ctx (narrow_val t (i_val y)) t (\<lambda>r. a\<lparr>i_op1 := i_op1 x, i_op2 := r\<rparr>)
          else Fold_Next)"
proof (rule bin_const_rule', goal_cases)
  case 1
  then show ?case using assms by (auto simp: key_simps)
next
  case (2 h ctx \<rho> a v x y z op k1 k2 t1 v1)
  have k: "op = IR_EQ \<or> op = IR_NE" "i_op x = IR_BITCAST" "arith_type (const_type k2)" using assms 2(1,7) by auto
  have u: "unary_op (i_op x)" using k(2) by (simp add: key_simps)
  obtain s w where s: "den ctx \<rho> (i_op1 x) = Some (s, w)" "okval s w" "s = i_type (ir_base ctx (i_op1 x))"
    "sem_un h IR_BITCAST t1 s w = Some v1"
    using 2(11,13) k(2) unfolding inner_un [OF u] un_at_def by auto
  have e: "sem_bin h (i_op a) (i_type a) t1 (const_type k2) v1 (cv (const_type k2) (i_val y)) = Some v"
    using 2(3,17) by simp
  show ?case unfolding Let_def s(3) [symmetric]
    by (rule bitcast_cmp [OF 2(2) s(1,2,4) e 2(15)]) (use k 2(3) in \<open>auto simp: arith_type_def\<close>)
qed

lemma sound_copy: "list_all sound_rule fold_rules_copy"
  unfolding fold_rules_copy_def list.pred_inject
  apply (intro conjI)
  subgoal by (rule un_rule) (auto simp: key_simps sem_un_simps copy_ok_def split: if_splits)
  subgoal by (rule sound_ruleI) (auto dest!: fold_site.type_ok(3) simp: pure_op_def key_simps)
  subgoal by (rule cond_rule) (auto simp: key_simps sem_cond_Some const_truthy copy_ok_def)
  subgoal by (rule un_rule) (auto simp: key_simps sem_un_simps to_type_Some copy_ok_def split: if_splits)
  subgoal by (rule un_rule) (auto simp: inner_simps copy_ok_def dest: sem_abs_abs)
  subgoal by (rule un_rule) (auto simp: inner_simps intro!: fold_site.restart_same eval_unI dest: sem_abs_neg)
  subgoal by (rule un_rule) (auto simp: inner_simps copy_ok_def, (blast dest: sem_self_inverses)+)
  subgoal by (rule bin_const_rule) (auto simp: key_simps split del: if_split intro: eq_bool_ok(1) [OF _ _ _ _ _ _ refl])
  subgoal by (rule bin_const_rule) (auto simp: key_simps split del: if_split intro: eq_bool_ok(2) [OF _ _ _ _ _ _ refl])
  subgoal by (rule bitcast_cmp_rule) (simp add: key_simps arith_type_iff)
  by simp

section \<open>Narrowed comparisons\<close>

lemma div_eq_minus1: "0 < b \<Longrightarrow> i div b = -1 \<longleftrightarrow> - b \<le> i \<and> i < (0::int)"
  using div_int_pos_iff [of i b] div_add_self2 [of b i] zdiv_eq_0_iff [of "i + b" b] by auto

lemma drop_bit_minus1: "drop_bit n i = -1 \<longleftrightarrow> - (2 ^ n) \<le> i \<and> i < (0::int)"
  by (simp add: drop_bit_eq_div div_eq_minus1)

lemma drop_bit_word_zero: "drop_bit n (c :: u64) \<noteq> 0 \<longleftrightarrow> 2 ^ n \<le> uint c"
proof -
  have "uint (drop_bit n c) = uint c div 2 ^ n" 
    using take_bit_uint [of c] by (simp add: unsigned_drop_bit_eq flip: drop_bit_eq_div)
  then have "drop_bit n c = 0 \<longleftrightarrow> uint c div 2 ^ n = 0" by (metis uint_0_iff)
  also have "\<dots> \<longleftrightarrow> uint c < 2 ^ n"
    using zero_less_power [of "2::int" n] by (auto simp: zdiv_eq_0_iff simp del: zero_less_power)
  finally show ?thesis by auto
qed

lemma sext_inj:
  assumes "0 < n" "n < m" "fits n w" "- (2 ^ (n - 1)) \<le> C" "C < 2 ^ (n - 1)"
  shows "take_bit m (sval n w) = take_bit m C \<longleftrightarrow> w = take_bit n C"
proof
  assume "take_bit m (sval n w) = take_bit m C"
  then have "take_bit n (take_bit m (sval n w)) = take_bit n (take_bit m C)" by simp
  then show "w = take_bit n C" using assms by (simp add: take_bit_take_bit min_def take_bit_sval fits_iff_take_bit)
next
  assume "w = take_bit n C"
  then have "sval n w = C" using assms by (simp add: sval_id)
  then show "take_bit m (sval n w) = take_bit m C" by simp
qed

lemma sext_cases:
  assumes "0 < n" "n < m" "fits n w"
  shows "take_bit m (sval n w) = (if w < 2 ^ (n - 1) then w else w + 2 ^ m - 2 ^ n)"
proof -
  have p: "(2::int) ^ n < 2 ^ m" "(0::int) \<le> 2 ^ (n - 1)" "(2::int) ^ (n - 1) \<le> 2 ^ n" using assms(1,2) by simp_all
  have f: "0 \<le> w" "w < 2 ^ n" using assms(3) by (auto simp: fits_def)
  show ?thesis
  proof (cases "w < 2 ^ (n - 1)")
    case True
    moreover have "w < 2 ^ m" using f p by linarith
    ultimately show ?thesis using f sval_cases [OF assms(3,1)] by (simp add: take_bit_int_eq_self)
  next
    case False
    have "take_bit m (w - 2 ^ n) = (w - 2 ^ n + 2 ^ m) mod 2 ^ m" by (simp add: take_bit_eq_mod)
    also have "\<dots> = w - 2 ^ n + 2 ^ m" using f p by (intro mod_pos_pos_trivial; linarith)
    finally show ?thesis using False sval_cases [OF assms(3,1)] by simp
  qed
qed

text \<open>A canonical constant that does not fit \<open>n\<close> bits is above all values of \<open>n\<close> bits.\<close>

lemma canonical_big:
  assumes "canonical t c" "t \<noteq> IR_VOID" "n < type_bits t" "2 ^ n \<le> uint c"
  shows "2 ^ n \<le> cv t c"
proof (cases "IR_IS_TYPE_SIGNED t")
  case True
  have "(2::int) ^ n \<le> 2 ^ (type_bits t - 1)" using assms(3) by (intro power_increasing) auto
  then show ?thesis using val_u64_signed [OF assms(1) True] assms(4)
    by (cases "cv t c < 2 ^ (type_bits t - 1)") (simp add: val_u64_def, linarith)
next
  case False
  then show ?thesis using canonical_unsigned [OF assms(1) False assms(2)] assms(4) by (simp add: val_u64_def)
qed

lemma cv_small:
  assumes "t \<noteq> IR_BOOL" "n < type_bits t" "uint c < 2 ^ n"
  shows "cv t c = uint c" "take_bit n (uint c) = uint c"
proof -
  have "(2::int) ^ n \<le> 2 ^ type_bits t" using assms(2) by simp
  then have "uint c < 2 ^ type_bits t" using assms(3) by linarith
  then show "cv t c = uint c" "take_bit n (uint c) = uint c"
    using assms(1,3) by (simp_all add: cv_def take_bit_int_eq_self)
qed

lemma zext_cmp:
  assumes "op \<in> {IR_EQ, IR_NE, IR_ULT, IR_UGE, IR_ULE, IR_UGT}" "fits n w" "int_type t1" "int_type s"
    and sem: "sem_bin h op t t1 t2 w (cv t2 c) = Some v" and c: "canonical t2 c" "t2 \<noteq> IR_BOOL" "t2 \<noteq> IR_VOID" "n < type_bits t2"
  shows "t = IR_BOOL"
    "2 ^ n \<le> uint c \<Longrightarrow> v = of_bool (op = IR_NE \<or> op = IR_ULT \<or> op = IR_ULE)"
    "uint c < 2 ^ n \<Longrightarrow> sem_bin h op t s s w (take_bit n (uint c)) = Some v"
proof -
  have w: "w < 2 ^ n" using assms(2) by (simp add: fits_def)
  show t: "t = IR_BOOL" using assms(1) sem by (auto simp: sem_bin_simps sem_eq_Some)
  show "v = of_bool (op = IR_NE \<or> op = IR_ULT \<or> op = IR_ULE)" if "2 ^ n \<le> uint c"
  proof -
    have "w < cv t2 c" using canonical_big [OF c(1,3,4) that] w by linarith
    then show ?thesis using assms(1,3) int_not_fp [of t1] sem by (auto simp: sem_bin_simps sem_eq_Some)
  qed
  show "sem_bin h op t s s w (take_bit n (uint c)) = Some v" if "uint c < 2 ^ n"
    using cv_small [OF c(2,4) that] assms(1,3,4) int_not_fp [of t1] sem by (auto simp: sem_bin_simps sem_eq_Some)
qed

lemma i64_of_small: "uint c < 2 ^ n \<Longrightarrow> n < 64 \<Longrightarrow> val_i64 c = uint c"
proof -
  assume a: "uint c < 2 ^ n" "n < 64"
  have "(2::int) ^ n \<le> 2 ^ 63" using a(2) by (intro power_increasing) auto
  then have "uint c < 2 ^ 63" using a(1) by linarith
  moreover have "- (2 ^ 63) \<le> uint c" by (rule order_trans [of _ 0]) simp_all
  ultimately show ?thesis using sval_id [of 64 "uint c"] by (simp add: val_i_sval val_u64_def)
qed

lemma take_bit_i64: "n \<le> 64 \<Longrightarrow> take_bit n (val_i64 c) = take_bit n (uint c)"
proof -
  assume "n \<le> 64"
  moreover have "take_bit 64 (val_i64 c) = take_bit 64 (uint c)" by (simp add: val_i_sval val_u64_def take_bit_sval)
  ultimately show ?thesis by (metis min.absorb1 take_bit_take_bit)
qed

lemma sval_canonical:
  assumes "canonical t2 c" "compat t1 t2" "IR_IS_TYPE_SIGNED t1"
  shows "sval (type_bits t1) (cv t2 c) = val_i64 c"
proof (cases "t1 = t2")
  case True
  then show ?thesis using canonical_signed [OF assms(1)] assms(3) by simp
next
  case False
  then show ?thesis using assms(2) by (auto simp: compat_def val_i_sval cv_wide)
qed

lemma sext_bad:
  assumes "\<not> sext_narrow_bad op t1 s c" "type_bits s < 64" "0 < type_bits s"
  shows "is_signed_cmp op \<longrightarrow> IR_IS_TYPE_SIGNED t1 = IR_IS_TYPE_SIGNED s"
    "2 ^ type_bits s \<le> uint c \<Longrightarrow> IR_IS_TYPE_SIGNED t1"
    "uint c < 2 ^ type_bits s \<or> - (2 ^ type_bits s) \<le> val_i64 c \<and> val_i64 c < 0 \<Longrightarrow>
       - (2 ^ (type_bits s - 1)) \<le> val_i64 c \<and> val_i64 c < 2 ^ (type_bits s - 1)"
    "\<not> IR_IS_TYPE_SIGNED t1 \<Longrightarrow> uint c < 2 ^ (type_bits s - 1)"
proof -
  have p: "(2::int) ^ type_bits s = 2 * 2 ^ (type_bits s - 1)" "(0::int) < 2 ^ (type_bits s - 1)"
    using assms(3) by (cases "type_bits s") simp_all
  show "is_signed_cmp op \<longrightarrow> IR_IS_TYPE_SIGNED t1 = IR_IS_TYPE_SIGNED s"
    using assms(1) by (auto simp: sext_narrow_bad_def)
  show u: "uint c < 2 ^ (type_bits s - 1)" if "\<not> IR_IS_TYPE_SIGNED t1"
    using assms(1) that by (auto simp: sext_narrow_bad_def Let_def val_u64_def)
  show "IR_IS_TYPE_SIGNED t1" if "2 ^ type_bits s \<le> uint c" using u that p by linarith
  show "- (2 ^ (type_bits s - 1)) \<le> val_i64 c \<and> val_i64 c < 2 ^ (type_bits s - 1)"
    if "uint c < 2 ^ type_bits s \<or> - (2 ^ type_bits s) \<le> val_i64 c \<and> val_i64 c < 0"
  proof (cases "IR_IS_TYPE_SIGNED t1")
    case True
    then have "\<not> (- (2 ^ type_bits s) \<le> val_i64 c \<and> val_i64 c < - (2 ^ (type_bits s - 1)))"
      "\<not> (2 ^ (type_bits s - 1) \<le> val_i64 c \<and> val_i64 c < 2 ^ type_bits s)"
      using assms(1) by (auto simp: sext_narrow_bad_def Let_def)
    moreover have "uint c < 2 ^ type_bits s \<Longrightarrow> val_i64 c = uint c" using i64_of_small assms(2) by blast
    ultimately show ?thesis using that p uint_ge_0 [of c] by linarith
  next
    case False
    then have "uint c < 2 ^ type_bits s" using u p by linarith
    then have "val_i64 c = uint c" using i64_of_small assms(2) by blast
    then show ?thesis using u [OF False] p uint_ge_0 [of c] by linarith
  qed
qed

end
