(* ===== verification/Sound_Narrow.thy ===== *)
theory Sound_Narrow
  imports Sound_Copy
begin

text \<open>Narrowed comparisons: a comparison of a widened value with a constant, done at the narrow type.\<close>

lemma cmp_Some:
  assumes "int_type t1" "op \<in> {IR_EQ, IR_NE, IR_LT, IR_GE, IR_LE, IR_GT}"
  shows "sem_bin h op t t1 t2 v1 v2 = Some v \<longleftrightarrow> t = IR_BOOL \<and> compat t1 t2 \<and> (is_signed_cmp op \<longrightarrow> t1 = t2) \<and>
     v = of_bool (if op = IR_EQ then v1 = v2 else if op = IR_NE then v1 \<noteq> v2
       else if op = IR_LT then num t1 v1 < num t1 v2 else if op = IR_GE then num t1 v1 \<ge> num t1 v2
       else if op = IR_LE then num t1 v1 \<le> num t1 v2 else num t1 v1 > num t1 v2)"
  using assms(2) int_not_fp [OF assms(1)] assms(1)
  by (elim insertE) (auto simp: sem_bin_simps sem_eq_Some sem_ord_Some is_signed_cmp_def)

lemma sext_cmp_out:
  assumes op: "op \<in> {IR_EQ, IR_NE, IR_LT, IR_GE, IR_LE, IR_GT}" and n: "fits n w" "0 < n" "n < type_bits t1" "int_type t1"
    and sem: "sem_bin h op t t1 t2 (wrap t1 (sval n w)) (cv t2 c) = Some v"
    and c: "canonical t2 c" "IR_IS_TYPE_SIGNED t1" "\<not> (- (2 ^ n) \<le> val_i64 c \<and> val_i64 c < 2 ^ n)"
  shows "v = of_bool (op = IR_NE \<or> (op = IR_LT \<or> op = IR_LE) \<and> 0 \<le> val_i64 c \<or> (op = IR_GE \<or> op = IR_GT) \<and> val_i64 c < 0)"
proof -
  have p: "(2::int) ^ n = 2 * 2 ^ (n - 1)" "(0::int) < 2 ^ (n - 1)"
    using n(2) by (cases n; simp)+
  have p3: "(2::int) ^ n \<le> 2 ^ (type_bits t1 - 1)" using n(3) by (intro power_increasing) auto
  note s = sem [unfolded cmp_Some [OF n(4) op]]
  note sb = sval_bounds [OF n(2), of w]
  have n1: "num t1 (wrap t1 (sval n w)) = sval n w" by (rule num_wrap [OF c(2)]) (use sb p p3 in linarith)+
  have n2: "num t1 (cv t2 c) = val_i64 c" using sval_canonical [OF c(1) _ c(2)] s c(2) by (simp add: num_def)
  have out: "val_i64 c < sval n w \<and> val_i64 c < 0 \<or> sval n w < val_i64 c \<and> 0 \<le> val_i64 c" using sb p c(3) by linarith
  then have ne: "wrap t1 (sval n w) \<noteq> cv t2 c" using n1 n2 by auto
  show ?thesis using s op unfolding n1 n2 using out ne by (elim insertE) auto
qed

lemma sext_cmp_in:
  assumes op: "op \<in> {IR_EQ, IR_NE, IR_LT, IR_GE, IR_LE, IR_GT}"
    and n: "fits (type_bits s) w" "0 < type_bits s" "type_bits s < type_bits t1" "int_type t1" "int_type s"
    and sem: "sem_bin h op t t1 t2 (wrap t1 (sval (type_bits s) w)) (cv t2 c) = Some v"
    and c: "canonical t2 c" "t2 \<noteq> IR_BOOL" "is_signed_cmp op \<longrightarrow> IR_IS_TYPE_SIGNED t1 = IR_IS_TYPE_SIGNED s"
      "- (2 ^ (type_bits s - 1)) \<le> val_i64 c" "val_i64 c < 2 ^ (type_bits s - 1)"
      "\<not> IR_IS_TYPE_SIGNED t1 \<Longrightarrow> uint c < 2 ^ (type_bits s - 1)"
  shows "sem_bin h op t s s w (take_bit (type_bits s) (uint c)) = Some v"
proof -
  let ?n = "type_bits s"
  note s = sem [unfolded cmp_Some [OF n(4) op]]
  have le: "?n \<le> 64" "type_bits t1 \<le> 64" by (rule type_bits_le)+
  have tb: "type_bits t2 = type_bits t1" using s compat_bits [of t1 t2] by simp
  have k: "take_bit ?n (uint c) = take_bit ?n (val_i64 c)" using take_bit_i64 [OF le(1)] by simp
  have cv: "cv t2 c = take_bit (type_bits t1) (val_i64 c)" using take_bit_i64 [OF le(2), of c] c(2) tb by (simp add: cv_def)
  have eq: "wrap t1 (sval ?n w) = cv t2 c \<longleftrightarrow> w = take_bit ?n (uint c)"
    unfolding wrap_def cv k by (rule sext_inj [OF n(2,3,1) c(4,5)])
  have ord: "num t1 (wrap t1 (sval ?n w)) < num t1 (cv t2 c) \<longleftrightarrow> num s w < num s (take_bit ?n (uint c))"
    "num t1 (wrap t1 (sval ?n w)) \<le> num t1 (cv t2 c) \<longleftrightarrow> num s w \<le> num s (take_bit ?n (uint c))" if "is_signed_cmp op"
  proof (atomize (full), cases "IR_IS_TYPE_SIGNED t1")
    case True
    have p: "(2::int) ^ (?n - 1) \<le> 2 ^ (type_bits t1 - 1)" using n(3) by (intro power_increasing) auto
    have 1: "num t1 (wrap t1 (sval ?n w)) = sval ?n w"
      by (rule num_wrap [OF True]) (use sval_bounds [OF n(2), of w] p in linarith)+
    have 2: "num t1 (cv t2 c) = val_i64 c" using sval_canonical [OF c(1) _ True] s True by (simp add: num_def)
    have 3: "num s (take_bit ?n (uint c)) = val_i64 c"
      using c(3-5) that True n(2) sval_id by (simp add: num_def k)
    have 4: "num s w = sval ?n w" using c(3) that True by (simp add: num_def)
    show "(num t1 (wrap t1 (sval ?n w)) < num t1 (cv t2 c) \<longleftrightarrow> num s w < num s (take_bit ?n (uint c))) \<and>
      (num t1 (wrap t1 (sval ?n w)) \<le> num t1 (cv t2 c) \<longleftrightarrow> num s w \<le> num s (take_bit ?n (uint c)))"
      unfolding 1 2 3 4 by simp
  next
    case False
    have p: "(2::int) ^ ?n < 2 ^ type_bits t1" using n(3) by simp
    have p2: "(2::int) ^ ?n = 2 * 2 ^ (?n - 1)" using n(2) by (cases ?n) simp_all
    have u: "uint c < 2 ^ (?n - 1)" by (rule c(6) [OF False])
    have "(2::int) ^ (?n - 1) \<le> 2 ^ ?n" by simp
    then have "uint c < 2 ^ ?n" using u by linarith
    then have c1: "cv t2 c = uint c" "take_bit ?n (uint c) = uint c" using cv_small [OF c(2), of ?n c] n(3) tb by auto
    have 5: "wrap t1 (sval ?n w) = (if w < 2 ^ (?n - 1) then w else w + 2 ^ type_bits t1 - 2 ^ ?n)"
      unfolding wrap_def by (rule sext_cases [OF n(2,3,1)])
    have far: "uint c < w" "uint c < w + 2 ^ type_bits t1 - 2 ^ ?n" if "\<not> w < 2 ^ (?n - 1)" using that u p by linarith+
    have "\<not> IR_IS_TYPE_SIGNED s" using c(3) that False by simp
    then show "(num t1 (wrap t1 (sval ?n w)) < num t1 (cv t2 c) \<longleftrightarrow> num s w < num s (take_bit ?n (uint c))) \<and>
      (num t1 (wrap t1 (sval ?n w)) \<le> num t1 (cv t2 c) \<longleftrightarrow> num s w \<le> num s (take_bit ?n (uint c)))"
      using False far by (cases "w < 2 ^ (?n - 1)") (simp_all add: num_def c1 5)
  qed
  have ord': "num t1 (cv t2 c) \<le> num t1 (wrap t1 (sval ?n w)) \<longleftrightarrow> num s (take_bit ?n (uint c)) \<le> num s w"
    "num t1 (cv t2 c) < num t1 (wrap t1 (sval ?n w)) \<longleftrightarrow> num s (take_bit ?n (uint c)) < num s w" if "is_signed_cmp op"
    using ord [OF that] by (meson linorder_not_less)+
  show ?thesis unfolding cmp_Some [OF n(5) op]
    using op s by (elim insertE) (simp_all add: is_signed_cmp_def eq ord ord')
qed


definition narrow_out :: "ir_op \<Rightarrow> u64 \<Rightarrow> bool" where
  "narrow_out op c \<longleftrightarrow> op = IR_NE \<or> op = IR_ULT \<or> op = IR_ULE \<or>
     (op = IR_LT \<or> op = IR_LE) \<and> 0 \<le> val_i64 c \<or> (op = IR_GE \<or> op = IR_GT) \<and> val_i64 c < 0"

lemma narrow_out_ops:
  "op \<in> {IR_EQ, IR_NE, IR_ULT, IR_UGE, IR_ULE, IR_UGT} \<Longrightarrow> narrow_out op c \<longleftrightarrow> op = IR_NE \<or> op = IR_ULT \<or> op = IR_ULE"
  "op \<in> {IR_EQ, IR_NE, IR_LT, IR_GE, IR_LE, IR_GT} \<Longrightarrow>
     narrow_out op c \<longleftrightarrow> op = IR_NE \<or> (op = IR_LT \<or> op = IR_LE) \<and> 0 \<le> val_i64 c \<or> (op = IR_GE \<or> op = IR_GT) \<and> val_i64 c < 0"
  unfolding narrow_out_def by auto

lemma narrow_out_eq:
  assumes "op \<in> {IR_EQ, IR_NE, IR_ULT, IR_UGE, IR_ULE, IR_UGT, IR_LT, IR_GE, IR_LE, IR_GT}"
  shows "(if op = IR_EQ \<or> op = IR_UGT \<or> op = IR_UGE then Fold_Copy IR_FALSE
     else if op = IR_NE \<or> op = IR_ULT \<or> op = IR_ULE then Fold_Copy IR_TRUE
     else if op = IR_GT \<or> op = IR_GE then Fold_Copy (if val_i64 c \<ge> 0 then IR_FALSE else IR_TRUE)
     else if op = IR_LT \<or> op = IR_LE then Fold_Copy (if val_i64 c \<ge> 0 then IR_TRUE else IR_FALSE)
     else Fold_Next) = IR_FOLD_BOOL (narrow_out op c)"
  unfolding narrow_out_def IR_FOLD_BOOL_def
  by (rule insertE [OF assms], simp, elim insertE) simp_all

lemma i64_nonneg: "0 \<le> val_i64 c \<Longrightarrow> val_i64 c = uint c"
  using sval_cases [of 64 "uint c"] uint_bounded [of c] by (auto simp: val_i_sval val_u64_def split: if_splits)

lemma narrow_ok:
  assumes site: "fold_site h ctx \<rho> a v" and c: "canonical t2 (i_val y)" "t2 \<noteq> IR_BOOL" "t2 \<noteq> IR_VOID"
    and x: "i_op x = IR_ZEXT \<and> i_op a \<in> {IR_EQ, IR_NE, IR_ULT, IR_UGE, IR_ULE, IR_UGT} \<or>
      i_op x = IR_SEXT \<and> i_op a \<in> {IR_EQ, IR_NE, IR_LT, IR_GE, IR_LE, IR_GT}"
    and u: "den ctx \<rho> (i_op1 x) = Some (s, w)" "okval s w" "s = i_type (ir_base ctx (i_op1 x))"
      "sem_un h (i_op x) t1 s w = Some v1"
    and sem: "sem_bin h (i_op a) (i_type a) t1 t2 v1 (cv t2 (i_val y)) = Some v"
    and bad: "s = IR_BOOL \<Longrightarrow> \<not> bool_narrow_bad (i_op a) (i_val y)"
      "i_op x = IR_SEXT \<Longrightarrow> s \<noteq> IR_BOOL \<Longrightarrow> \<not> sext_narrow_bad (i_op a) t1 s (i_val y)"
  shows "step_ok h ctx \<rho> a v (fold_cmp_narrow h ctx a x y z)"
proof -
  let ?n = "type_bits s" and ?c = "i_val y"
  have ty: "int_type t1" "int_type s" "?n < type_bits t1"
    using x u(4) by (auto simp: sem_un_simps type_bits_def split: if_splits)
  then have n0: "0 < ?n" by (cases s) (simp_all add: int_type_iff)
  have n64: "?n < 64" using ty(3) type_bits_le [of t1] by linarith
  have f: "fits ?n w" using okval_fits [OF u(2)] .
  have nl: "use_lists ctx = None" using site by (simp add: fold_site_def)
  have bin: "binary_op (i_op a)" using x by (auto simp: key_simps)
  have op10: "i_op a \<in> {IR_EQ, IR_NE, IR_ULT, IR_UGE, IR_ULE, IR_UGT, IR_LT, IR_GE, IR_LE, IR_GT}" using x by auto
  have co: "compat t1 t2 \<and> i_type a = IR_BOOL"
    using op10 sem ty(1) int_not_fp [OF ty(1)] by (elim insertE) (simp_all add: sem_bin_simps sem_eq_Some sem_ord_Some)
  then have t2: "?n < type_bits t2" and bool: "i_type a = IR_BOOL" using ty(3) compat_bits by metis+
  let ?far = "drop_bit ?n ?c \<noteq> 0 \<and> (i_op x \<noteq> IR_SEXT \<or> drop_bit ?n (val_i64 ?c) \<noteq> -1)"
  let ?near = "fold_const_restart ctx (narrow_val s ?c) s (\<lambda>r. a\<lparr>i_op1 := i_op1 x, i_op2 := r\<rparr>)"
  have body: "fold_cmp_narrow h ctx a x y z =
      (case if s = IR_BOOL then fold_cmp_bool ctx a x y else None of Some r \<Rightarrow> r | None \<Rightarrow>
       if ?far then (if i_op a = IR_EQ \<or> i_op a = IR_UGT \<or> i_op a = IR_UGE then Fold_Copy IR_FALSE
            else if i_op a = IR_NE \<or> i_op a = IR_ULT \<or> i_op a = IR_ULE then Fold_Copy IR_TRUE
            else if i_op a = IR_GT \<or> i_op a = IR_GE then Fold_Copy (if val_i64 ?c \<ge> 0 then IR_FALSE else IR_TRUE)
            else if i_op a = IR_LT \<or> i_op a = IR_LE then Fold_Copy (if val_i64 ?c \<ge> 0 then IR_TRUE else IR_FALSE)
            else Fold_Next) else ?near)"
    using nl n64 u(3) unfolding fold_cmp_narrow_def type_bits_def Let_def by (simp cong: option.case_cong)
  show ?thesis
  proof (cases "s = IR_BOOL")
    case True
    then have op: "i_op a = IR_EQ \<or> i_op a = IR_NE" "?c = 0 \<or> ?c = 1" using bad(1) by (auto simp: bool_narrow_bad_def)
    have w: "w = 0 \<or> w = 1" using u(2) True by (simp add: okval_def)
    have t1: "2 \<le> type_bits t1" using ty(3) True by simp
    have v1: "v1 = w"
      using x u(4) w True ty(3) by (auto simp: sem_un_simps wrap_def sval_id take_bit_int_eq_self_iff split: if_splits)
    obtain r where r: "fold_cmp_bool ctx a x y = Some r" using op by (auto simp: fold_cmp_bool_def)
    show ?thesis
      unfolding body using cmp_bool_ok [OF site r _ _ sem [unfolded v1] c(1) ty(1) c(2)] u(1,2) True r by simp
  next
    case False
    have far: "?far \<longleftrightarrow> 2 ^ ?n \<le> uint ?c \<and> (i_op x \<noteq> IR_SEXT \<or> \<not> (- (2 ^ ?n) \<le> val_i64 ?c \<and> val_i64 ?c < 0))"
      unfolding drop_bit_word_zero drop_bit_minus1 by simp
    have sx: "sem_bin h (i_op a) (i_type a) s s w (take_bit ?n (uint ?c)) = Some v" if "\<not> ?far"
      using x
    proof
      assume z: "i_op x = IR_ZEXT \<and> i_op a \<in> {IR_EQ, IR_NE, IR_ULT, IR_UGE, IR_ULE, IR_UGT}"
      then have v1: "v1 = w" using u(4) by (simp add: sem_un_simps split: if_splits)
      have "uint ?c < 2 ^ ?n" using that far z by auto
      then show ?thesis using zext_cmp(3) [OF conjunct2 [OF z] f ty(1,2) sem [unfolded v1] c t2] by simp
    next
      assume z: "i_op x = IR_SEXT \<and> i_op a \<in> {IR_EQ, IR_NE, IR_LT, IR_GE, IR_LE, IR_GT}"
      then have v1: "v1 = wrap t1 (sval ?n w)" using u(4) by (simp add: sem_un_simps split: if_splits)
      note nb = sext_bad [OF bad(2) [OF _ False] n64 n0]
      have "uint ?c < 2 ^ ?n \<or> - (2 ^ ?n) \<le> val_i64 ?c \<and> val_i64 ?c < 0" using that far z by auto
      then show ?thesis using sext_cmp_in [OF conjunct2 [OF z] f n0 ty(3,1,2) sem [unfolded v1] c(1,2)] nb z by simp
    qed
    have ou: "i_type a = IR_BOOL \<and> v = of_bool (narrow_out (i_op a) ?c)" if "?far"
      using x
    proof
      assume z: "i_op x = IR_ZEXT \<and> i_op a \<in> {IR_EQ, IR_NE, IR_ULT, IR_UGE, IR_ULE, IR_UGT}"
      then have v1: "v1 = w" using u(4) by (simp add: sem_un_simps split: if_splits)
      have "2 ^ ?n \<le> uint ?c" using that far by blast
      then show ?thesis
        using zext_cmp(2) [OF conjunct2 [OF z] f ty(1,2) sem [unfolded v1] c t2] bool
          narrow_out_ops(1) [OF conjunct2 [OF z]] by simp
    next
      assume z: "i_op x = IR_SEXT \<and> i_op a \<in> {IR_EQ, IR_NE, IR_LT, IR_GE, IR_LE, IR_GT}"
      then have v1: "v1 = wrap t1 (sval ?n w)" using u(4) by (simp add: sem_un_simps split: if_splits)
      note nb = sext_bad [OF bad(2) [OF _ False] n64 n0]
      have fr: "2 ^ ?n \<le> uint ?c" "\<not> (- (2 ^ ?n) \<le> val_i64 ?c \<and> val_i64 ?c < 0)" using that far z by auto
      have sg: "IR_IS_TYPE_SIGNED t1" using nb(2) fr(1) z by blast
      have "\<not> (- (2 ^ ?n) \<le> val_i64 ?c \<and> val_i64 ?c < 2 ^ ?n)" using fr i64_nonneg [of ?c] by linarith
      from sext_cmp_out [OF conjunct2 [OF z] f n0 ty(3,1) sem [unfolded v1] c(1) sg this] bool
      show ?thesis using narrow_out_ops(2) [OF conjunct2 [OF z]] by simp
    qed
    show ?thesis
    proof (cases ?far)
      case True
      then show ?thesis unfolding body narrow_out_eq [OF op10] using ou False fold_site.fold_bool [OF site] by simp
    next
      case near: False
      then show ?thesis unfolding body if_not_P [OF near] using sx [OF near] False narrow_restart [OF site ty(2) False u(1) bin, of ?c] by simp
    qed
  qed
qed

lemma narrow_rule:
  assumes "\<forall>(op, k1, k2)\<in>set ks. (k1 = IR_ZEXT \<and> op \<in> {IR_EQ, IR_NE, IR_ULT, IR_UGE, IR_ULE, IR_UGT} \<or>
      k1 = IR_SEXT \<and> op \<in> {IR_EQ, IR_NE, IR_LT, IR_GE, IR_LE, IR_GT}) \<and> IR_IS_CONST_OP k2 \<and> arith_type (const_type k2)"
  shows "sound_rule (ks, fold_cmp_narrow)"
proof (rule bin_const_rule', goal_cases)
  case 1
  then show ?case using assms by (fastforce simp: key_simps)
next
  case (2 h ctx \<rho> a v x y z op k1 k2 t1 v1)
  have k: "i_op x = IR_ZEXT \<and> i_op a \<in> {IR_EQ, IR_NE, IR_ULT, IR_UGE, IR_ULE, IR_UGT} \<or>
      i_op x = IR_SEXT \<and> i_op a \<in> {IR_EQ, IR_NE, IR_LT, IR_GE, IR_LE, IR_GT}" "IR_IS_CONST_OP k2" "arith_type (const_type k2)"
    using assms 2(1,3,7) by fastforce+
  have u: "unary_op (i_op x)" "is_cmp (i_op a)" using k(1) by (auto simp: key_simps is_cmp_def)
  obtain s w where s: "den ctx \<rho> (i_op1 x) = Some (s, w)" "okval s w" "s = i_type (ir_base ctx (i_op1 x))"
    "sem_un h (i_op x) t1 s w = Some v1"
    using 2(11,13) unfolding inner_un [OF u(1)] un_at_def by auto
  have e: "sem_bin h (i_op a) (i_type a) t1 (const_type k2) v1 (cv (const_type k2) (i_val y)) = Some v"
    using 2(3,17) by simp
  have t2: "const_type k2 \<noteq> IR_BOOL" "const_type k2 \<noteq> IR_VOID" using k(3) by (auto simp: arith_type_iff)
  have ex: "\<not> excl_cmp ctx a x y" using 2(4-6) by (simp add: fold_excluded_def Let_def)
  have bad: "s = IR_BOOL \<Longrightarrow> \<not> bool_narrow_bad (i_op a) (i_val y)"
    "i_op x = IR_SEXT \<Longrightarrow> s \<noteq> IR_BOOL \<Longrightarrow> \<not> sext_narrow_bad (i_op a) t1 s (i_val y)"
    using ex u(2) k(1,2) 2(8,11) s(3) unfolding excl_cmp_def Let_def by auto
  show ?case by (rule narrow_ok [OF 2(2,15) t2 k(1) s e bad])
qed

lemma sound_cmp_narrow: "list_all sound_rule fold_rules_cmp_narrow"
  unfolding fold_rules_cmp_narrow_def list.pred_inject
  by (intro conjI narrow_rule) (simp_all add: key_simps arith_type_iff)

end
