(* ===== verification/Sound_Arith.thy ===== *)
theory Sound_Arith
  imports Sound_Narrow
begin

text \<open>Zero operands, sums and differences, with the schemes the algebraic rules are proved by.\<close>

section \<open>Rule schemes\<close>

text \<open>A constant second operand whose type satisfies \<open>Q\<close>; the first operand is any, or the operation \<open>k\<close>.\<close>

lemma const_rhs_rule:
  assumes keys: "\<forall>(op, k1, k2)\<in>set ks. op \<in> ops \<and> k1 = k \<and> IR_IS_CONST_OP k2 \<and> Q (const_type k2)" and ops: "\<forall>op\<in>ops. binary_op op"
    and "\<And>h ctx \<rho> a v x y z op t1 v1 t2. op \<in> ops \<Longrightarrow> fold_site h ctx \<rho> a v \<Longrightarrow> i_op a = op \<Longrightarrow>
      \<not> fold_excluded ctx a \<Longrightarrow> x = ir_base ctx (i_op1 a) \<Longrightarrow> y = ir_base ctx (i_op2 a) \<Longrightarrow>
      k = ANY \<or> i_op x = k \<Longrightarrow> IR_IS_CONST_OP (i_op y) \<Longrightarrow>
      den ctx \<rho> (i_op1 a) = Some (t1, v1) \<Longrightarrow> okval t1 v1 \<Longrightarrow> t1 = i_type x \<Longrightarrow> t1 \<noteq> IR_VOID \<Longrightarrow> inner h ctx \<rho> x v1 \<Longrightarrow>
      den ctx \<rho> (i_op2 a) = Some (t2, cv t2 (i_val y)) \<Longrightarrow> canonical t2 (i_val y) \<Longrightarrow> i_type y = t2 \<Longrightarrow> Q t2 \<Longrightarrow>
      sem_bin h op (i_type a) t1 t2 v1 (cv t2 (i_val y)) = Some v \<Longrightarrow>
      step_ok h ctx \<rho> a v (b h ctx a x y z)"
  shows "sound_rule (ks, b)"
proof (rule bin_const_rule', goal_cases)
  case 1
  show ?case using keys ops by (intro ballI) (auto dest!: bspec [OF keys])
next
  case (2 h ctx \<rho> a v x y z op k1 k2 t1 v1)
  have k: "op \<in> ops" "k1 = k" "IR_IS_CONST_OP k2" "Q (const_type k2)" using bspec [OF keys 2(1)] by simp_all
  have kk: "k = ANY \<or> i_op x = k" using 2(7) unfolding k(2) .
  have ky: "IR_IS_CONST_OP (i_op y)" using k(3) unfolding 2(8) .
  show ?case by (rule assms(3) [OF k(1) 2(2-6) kk ky 2(9-16) k(4) 2(17)])
qed

text \<open>A constant first operand.\<close>

lemma const_lhs_rule:
  assumes keys: "\<forall>(op, k1, k2)\<in>set ks. op \<in> ops \<and> IR_IS_CONST_OP k1 \<and> Q (const_type k1) \<and> k2 = k" and ops: "\<forall>op\<in>ops. binary_op op"
    and body: "\<And>h ctx \<rho> a v x y z op t1 t2 v2. op \<in> ops \<Longrightarrow> fold_site h ctx \<rho> a v \<Longrightarrow> i_op a = op \<Longrightarrow>
      \<not> fold_excluded ctx a \<Longrightarrow> x = ir_base ctx (i_op1 a) \<Longrightarrow> y = ir_base ctx (i_op2 a) \<Longrightarrow>
      k = ANY \<or> i_op y = k \<Longrightarrow> IR_IS_CONST_OP (i_op x) \<Longrightarrow>
      den ctx \<rho> (i_op1 a) = Some (t1, cv t1 (i_val x)) \<Longrightarrow> canonical t1 (i_val x) \<Longrightarrow> i_type x = t1 \<Longrightarrow> Q t1 \<Longrightarrow>
      den ctx \<rho> (i_op2 a) = Some (t2, v2) \<Longrightarrow> okval t2 v2 \<Longrightarrow> t2 = i_type y \<Longrightarrow> t2 \<noteq> IR_VOID \<Longrightarrow> inner h ctx \<rho> y v2 \<Longrightarrow>
      sem_bin h op (i_type a) t1 t2 (cv t1 (i_val x)) v2 = Some v \<Longrightarrow>
      step_ok h ctx \<rho> a v (b h ctx a x y z)"
  shows "sound_rule (ks, b)"
proof (rule bin_rule', goal_cases)
  case 1
  then show ?case using keys ops by blast
next
  case (2 h ctx \<rho> a v x y z op k1 k2 t1 v1 t2 v2)
  have k: "op \<in> ops" "k2 = k" "IR_IS_CONST_OP k1" "Q (const_type k1)" using bspec [OF keys 2(1)] by simp_all
  then have kx: "i_op x = k1" using 2(7) by (auto simp: key_simps)
  note c = fold_site.const_opnd [OF 2(2,9)]
  have "t1 = const_type k1" "v1 = cv t1 (i_val x)" "canonical t1 (i_val x)" using c kx k 2(5) by auto
  then show ?case using body [OF k(1) 2(2-6), of t1 t2 v2] k 2 kx by auto
qed

section \<open>Exits of rules\<close>

lemma copy_cast_ok:
  assumes "fold_site h ctx \<rho> a v" "den ctx \<rho> r = Some (t, v)" "compat t (i_type a)"
  shows "step_ok h ctx \<rho> a v (fold_copy_cast ctx a t r)"
proof (cases "t = i_type a")
  case True
  then show ?thesis using assms by (auto simp: fold_copy_cast_def copy_ok_def)
next
  case False
  then have "wide t" "wide (i_type a)" using assms(3) by (auto simp: compat_def)
  then have "sem_un h IR_BITCAST (i_type a) t v = Some v" by (simp add: sem_un_simps to_type_def)
  then show ?thesis using False assms(1,2)
    by (auto simp: fold_copy_cast_def set_opt_def key_simps intro!: fold_site.restart_same eval_unI)
qed

lemma to_unary_ok:
  assumes "fold_site h ctx \<rho> a v" "den ctx \<rho> r = Some (t, w)" "unary_op op" "sem_un h op (i_type a) t w = Some v"
  shows "step_ok h ctx \<rho> a v (fold_to_unary ctx a op r)"
  using assms by (auto simp: fold_to_unary_def set_opt_def intro!: fold_site.restart_same eval_unI)

lemma restart_binI:
  assumes "fold_site h ctx \<rho> a v" "den ctx \<rho> (i_op1 a') = Some (t1, v1)" "den ctx \<rho> (i_op2 a') = Some (t2, v2)"
    "binary_op (i_op a')" "sem_bin h (i_op a') (i_type a') t1 t2 v1 v2 = Some v" "compat (i_type a') (i_type a)"
  shows "step_ok h ctx \<rho> a v (Fold_Restart ctx a')"
  using assms by (auto intro!: fold_site.restart_same eval_binI)

lemma restart_unI:
  assumes "fold_site h ctx \<rho> a v" "den ctx \<rho> (i_op1 a') = Some (t1, v1)"
    "unary_op (i_op a')" "sem_un h (i_op a') (i_type a') t1 v1 = Some v" "compat (i_type a') (i_type a)"
  shows "step_ok h ctx \<rho> a v (Fold_Restart ctx a')"
  using assms by (auto intro!: fold_site.restart_same eval_unI)

lemma copy_boolI:
  "fold_site h ctx \<rho> a v \<Longrightarrow> i_type a = IR_BOOL \<Longrightarrow> v = 1 \<Longrightarrow> copy_ok ctx \<rho> a v IR_TRUE"
  "fold_site h ctx \<rho> a v \<Longrightarrow> i_type a = IR_BOOL \<Longrightarrow> v = 0 \<Longrightarrow> copy_ok ctx \<rho> a v IR_FALSE"
  by (simp_all add: fold_site.bool_copy)

lemma cv_zero [simp]: "cv t 0 = 0"
  by (simp add: cv_def)

lemma wrap_compat_id: "okval t1 v \<Longrightarrow> compat t1 t \<Longrightarrow> arith_type t \<Longrightarrow> wrap t v = v"
  using okval_wrap_id [of t v] okval_compat [of t1 v t] by (auto simp: arith_type_iff)

section \<open>Zero\<close>

lemma add_zero:
  assumes "sem_bin h op t t1 t2 v1 0 = Some v" "okval t1 v1" "op \<in> {IR_ADD, IR_SUB, IR_ADD_OV, IR_SUB_OV}"
    "arith_type t2"
  shows "v = v1 \<and> compat t1 t"
  using assms(3,1,2,4) wrap_compat_id [of t1 v1 t] arith_not_fp [of t2]
  by (elim insertE) (auto simp: sem_bin_simps sem_arith_Some split: if_splits)

lemma zero_add:
  assumes "sem_bin h IR_ADD t t1 t2 0 v2 = Some v" "okval t2 v2" "arith_type t1"
  shows "v = v2 \<and> compat t2 t"
  using assms wrap_compat_id [of t2 v2 t] arith_not_fp [of t1] by (auto simp: sem_bin_simps sem_arith_Some)

lemma zero_sub:
  assumes "sem_bin h IR_SUB t t1 t2 0 v2 = Some v" "arith_type t1"
  shows "sem_un h IR_NEG t t2 v2 = Some v"
  using assms arith_not_fp [of t1] by (auto simp: sem_bin_simps sem_un_simps sem_arith_Some)

lemma ult_zero:
  assumes "sem_bin h op t t1 t2 v1 0 = Some v" "okval t1 v1" "arith_type t2"
  shows "op = IR_UGE \<Longrightarrow> v = 1" "op = IR_ULT \<Longrightarrow> v = 0" "op = IR_UGT \<Longrightarrow> sem_bin h IR_NE IR_BOOL t1 t2 v1 0 = Some v"
    "op = IR_ULE \<Longrightarrow> sem_bin h IR_EQ IR_BOOL t1 t2 v1 0 = Some v" "op = IR_UGE \<Longrightarrow> t = IR_BOOL" "op = IR_ULT \<Longrightarrow> t = IR_BOOL" "op = IR_UGT \<Longrightarrow> t = IR_BOOL" "op = IR_ULE \<Longrightarrow> t = IR_BOOL"
proof -
  have "0 \<le> v1" using okval_fits [OF assms(2)] by (simp add: fits_def)
  then show "op = IR_UGE \<Longrightarrow> v = 1" "op = IR_ULT \<Longrightarrow> v = 0" "op = IR_UGT \<Longrightarrow> sem_bin h IR_NE IR_BOOL t1 t2 v1 0 = Some v"
    "op = IR_ULE \<Longrightarrow> sem_bin h IR_EQ IR_BOOL t1 t2 v1 0 = Some v" "op = IR_UGE \<Longrightarrow> t = IR_BOOL" "op = IR_ULT \<Longrightarrow> t = IR_BOOL" "op = IR_UGT \<Longrightarrow> t = IR_BOOL" "op = IR_ULE \<Longrightarrow> t = IR_BOOL"
    using assms(1,3) arith_not_fp [of t2] by (auto simp: sem_bin_simps sem_eq_Some)
qed

lemmas ult_zeros = ult_zero [OF _ _ _ refl]

lemmas rule_simps = key_simps arith_type_iff signed_types

lemma sound_zero: "list_all sound_rule fold_rules_zero"
  unfolding fold_rules_zero_def list.pred_inject
  apply (intro conjI)
  subgoal
    by (rule const_rhs_rule [where ops = "{IR_ADD, IR_SUB, IR_ADD_OV, IR_SUB_OV}" and k = ANY and Q = arith_type])
      (simp add: rule_simps, simp add: key_simps, auto dest!: add_zero intro!: copy_cast_ok)
  subgoal
    by (rule const_lhs_rule [where ops = "{IR_ADD}" and k = ANY and Q = arith_type])
      (simp add: rule_simps, simp add: key_simps, auto dest!: zero_add intro!: copy_cast_ok)
  subgoal
    by (rule const_lhs_rule [where ops = "{IR_SUB}" and k = ANY and Q = arith_type])
      (simp add: rule_simps, simp add: key_simps, auto intro!: to_unary_ok dest: zero_sub simp: key_simps)
  subgoal
    by (rule const_rhs_rule [where ops = "{IR_UGE}" and k = ANY and Q = arith_type])
      (simp add: rule_simps, simp add: key_simps, auto intro!: copy_boolI, (blast dest: ult_zeros)+)
  subgoal
    by (rule const_rhs_rule [where ops = "{IR_UGT}" and k = ANY and Q = arith_type])
      (simp add: rule_simps, simp add: key_simps, auto intro!: restart_binI dest: ult_zeros simp: set_opt_def key_simps)
  subgoal
    by (rule const_rhs_rule [where ops = "{IR_ULT}" and k = ANY and Q = arith_type])
      (simp add: rule_simps, simp add: key_simps, auto intro!: copy_boolI, (blast dest: ult_zeros)+)
  subgoal
    by (rule const_rhs_rule [where ops = "{IR_ULE}" and k = ANY and Q = arith_type])
      (simp add: rule_simps, simp add: key_simps, auto intro!: restart_binI dest: ult_zeros simp: set_opt_def key_simps)
  by simp


section \<open>Sums and differences\<close>

lemma wrap_absorb [width_simps]:
  "wrap t (wrap t i + j) = wrap t (i + j)" "wrap t (i + wrap t j) = wrap t (i + j)"
  "wrap t (wrap t i - j) = wrap t (i - j)" "wrap t (i - wrap t j) = wrap t (i - j)"
  "wrap t (wrap t i * j) = wrap t (i * j)" "wrap t (i * wrap t j) = wrap t (i * j)"
  "wrap t (- wrap t i) = wrap t (- i)" "wrap t (wrap t i) = wrap t i"
  by (simp_all add: wrap_def take_bit_eq_mod mod_simps)

lemma wrap_minus_prod [width_simps]:
  "wrap t (- (wrap t i * j)) = wrap t (- (i * j))" "wrap t (- (i * wrap t j)) = wrap t (- (i * j))"
  using wrap_absorb(5) [of t i "- j"] wrap_absorb(6) [of t "- i" j] by simp_all

lemma compat_arith_iff: "compat t1 t \<Longrightarrow> arith_type t \<longleftrightarrow> arith_type t1"
  by (auto simp: compat_def wide_def arith_type_iff)

lemma int_inner:
  assumes "compat t1 t" "arith_type t"
  shows "sem_un h IR_NEG t1 p i = Some v1 \<Longrightarrow> v1 = wrap t (- i) \<and> compat p t"
    "sem_bin h IR_ADD t1 p q i j = Some v1 \<Longrightarrow> v1 = wrap t (i + j) \<and> compat p t \<and> compat q t"
    "sem_bin h IR_SUB t1 p q i j = Some v1 \<Longrightarrow> v1 = wrap t (i - j) \<and> compat p t \<and> compat q t"
    "sem_bin h IR_MUL t1 p q i j = Some v1 \<Longrightarrow> v1 = wrap t (i * j) \<and> compat p t \<and> compat q t"
proof -
  have a: "arith_type t1" using compat_arith_iff [OF assms(1)] assms(2) by simp
  then have f: "\<not> IR_IS_TYPE_FP t1" by (rule arith_not_fp)
  have w: "wrap t1 = wrap t" by (rule wrap_compat [OF assms(1)])
  have tr: "compat p t1 \<Longrightarrow> compat p t" for p using compat_trans assms(1) by blast
  show "sem_un h IR_NEG t1 p i = Some v1 \<Longrightarrow> v1 = wrap t (- i) \<and> compat p t"
    "sem_bin h IR_ADD t1 p q i j = Some v1 \<Longrightarrow> v1 = wrap t (i + j) \<and> compat p t \<and> compat q t"
    "sem_bin h IR_SUB t1 p q i j = Some v1 \<Longrightarrow> v1 = wrap t (i - j) \<and> compat p t \<and> compat q t"
    "sem_bin h IR_MUL t1 p q i j = Some v1 \<Longrightarrow> v1 = wrap t (i * j) \<and> compat p t \<and> compat q t"
    using a f tr by (simp_all add: sem_un_simps sem_bin_simps sem_arith_Some w)
qed

text \<open>An addition or subtraction of integers, not floating point, under \<open>\<not> fold_excluded\<close>.\<close>

lemma int_addsub:
  assumes "sem_bin h op t t1 t2 v1 v2 = Some v" "op \<in> {IR_ADD, IR_SUB, IR_MUL}" "\<not> fold_excluded ctx a" "i_op a = op" "i_type a = t"
  shows "arith_type t" "compat t1 t" "compat t2 t" "op = IR_ADD \<Longrightarrow> v = wrap t (v1 + v2)" "op = IR_SUB \<Longrightarrow> v = wrap t (v1 - v2)"
    "op = IR_MUL \<Longrightarrow> v = wrap t (v1 * v2)"
proof -
  have "\<not> IR_IS_TYPE_FP t" using excl_fp [OF assms(3)] assms(2,4,5) by (auto simp: fp_types)
  then show "arith_type t" "compat t1 t" "compat t2 t" "op = IR_ADD \<Longrightarrow> v = wrap t (v1 + v2)" "op = IR_SUB \<Longrightarrow> v = wrap t (v1 - v2)"
    "op = IR_MUL \<Longrightarrow> v = wrap t (v1 * v2)"
    using assms(1,2) by (auto simp: sem_bin_simps sem_arith_Some)
qed

lemma int_arith_simps:
  "arith_type t \<Longrightarrow> sem_bin h IR_ADD t t1 t2 v1 v2 = (if compat t1 t \<and> compat t2 t then Some (wrap t (v1 + v2)) else None)"
  "arith_type t \<Longrightarrow> sem_bin h IR_SUB t t1 t2 v1 v2 = (if compat t1 t \<and> compat t2 t then Some (wrap t (v1 - v2)) else None)"
  "arith_type t \<Longrightarrow> sem_bin h IR_MUL t t1 t2 v1 v2 = (if compat t1 t \<and> compat t2 t then Some (wrap t (v1 * v2)) else None)"
  "arith_type t \<Longrightarrow> sem_un h IR_NEG t t1 v1 = (if compat t1 t then Some (wrap t (- v1)) else None)"
  using arith_not_fp [of t] by (auto simp: sem_bin_simps sem_un_simps sem_arith_def)

text \<open>A rule for integer additions and subtractions, with the outer operation evaluated.\<close>

lemma addsub_rule:
  assumes keys: "\<forall>(op, k1, k2)\<in>set ks. op = o' \<and> k1 = k \<and> k2 = k'" and o': "o' \<in> {IR_ADD, IR_SUB, IR_MUL}"
    and body: "\<And>h ctx \<rho> a v x y z t1 v1 t2 v2. fold_site h ctx \<rho> a v \<Longrightarrow> i_op a = o' \<Longrightarrow>
      x = ir_base ctx (i_op1 a) \<Longrightarrow> y = ir_base ctx (i_op2 a) \<Longrightarrow>
      k = ANY \<or> i_op x = k \<Longrightarrow> k' = ANY \<or> i_op y = k' \<Longrightarrow>
      den ctx \<rho> (i_op1 a) = Some (t1, v1) \<Longrightarrow> okval t1 v1 \<Longrightarrow> t1 = i_type x \<Longrightarrow> inner h ctx \<rho> x v1 \<Longrightarrow>
      den ctx \<rho> (i_op2 a) = Some (t2, v2) \<Longrightarrow> okval t2 v2 \<Longrightarrow> t2 = i_type y \<Longrightarrow> inner h ctx \<rho> y v2 \<Longrightarrow>
      arith_type (i_type a) \<Longrightarrow> compat t1 (i_type a) \<Longrightarrow> compat t2 (i_type a) \<Longrightarrow>
      v = wrap (i_type a) (if o' = IR_ADD then v1 + v2 else if o' = IR_SUB then v1 - v2 else v1 * v2) \<Longrightarrow>
      step_ok h ctx \<rho> a v (b h ctx a x y z)"
  shows "sound_rule (ks, b)"
proof (rule bin_rule', goal_cases)
  case 1
  show ?case using keys o' by (auto simp: key_simps dest!: bspec [OF keys])
next
  case (2 h ctx \<rho> a v x y z op k1 k2 t1 v1 t2 v2)
  have k: "op = o'" "k1 = k" "k2 = k'" using bspec [OF keys 2(1)] by simp_all
  note i = int_addsub [OF 2(19) _ 2(4,3) refl, unfolded k(1), OF o']
  have r: "v = wrap (i_type a) (if o' = IR_ADD then v1 + v2 else if o' = IR_SUB then v1 - v2 else v1 * v2)"
    using i(4-6) o' by auto
  note k2 = 2 [unfolded k]
  show ?case by (rule body [OF k2(2,3,5-11,13-16,18) i(1-3) r])
qed




lemmas int_inners = int_inner [rotated 2]


lemmas inner_int = inner_simps int_arith_simps width_simps wrap_compat_id

lemma const0_ok: "arith_type (i_type a) \<Longrightarrow> v = wrap (i_type a) 0 \<Longrightarrow> step_ok h ctx \<rho> a v (IR_FOLD_CONST_U 0)"
  by (auto simp: fold_const_ok arith_type_iff)

lemma sound_rule_Cons: "sound_rule (k # k' # ks, b) \<longleftrightarrow> sound_rule ([k], b) \<and> sound_rule (k' # ks, b)"
  by (simp add: sound_rule_def)

lemma cast2_ok:
  assumes site: "fold_site h ctx \<rho> a v" and d: "den ctx \<rho> p = Some (tp, i)" "den ctx \<rho> q = Some (tq, j)"
    and co: "compat tp (i_type a)" "compat tq (i_type a)" and t: "arith_type (i_type a)"
    and a: "i_op a = IR_SUB" "v = wrap (i_type a) (i - j)"
  shows "step_ok h ctx \<rho> a v (fold_cast2 ctx a p q)"
proof -
  obtain c1 r1 where c1: "ir_fold_cast ctx p (i_type a) = (c1, r1)" by fastforce
  obtain c2 r2 where c2: "ir_fold_cast c1 q (i_type a) = (c2, r2)" by fastforce
  note s = site [unfolded fold_site_def]
  obtain \<rho>1 where g1: "grows h ctx \<rho> c1 \<rho>1" "den c1 \<rho>1 r1 = Some (i_type a, i)"
    using ir_fold_cast_grows [OF _ _ _ _ d(1) co(1) c1] s by blast
  have s1: "pool_ok c1" "models h c1 \<rho>1" "0 < insns_count c1" "use_lists c1 = None" using g1(1) s by (auto simp: grows_def)
  obtain \<rho>2 where g2: "grows h c1 \<rho>1 c2 \<rho>2" "den c2 \<rho>2 r2 = Some (i_type a, j)"
    using ir_fold_cast_grows [OF s1 grows_den [OF g1(1) d(2)] co(2) c2] by blast
  have "eval h c2 \<rho>2 (a\<lparr>i_op1 := r1, i_op2 := r2\<rparr>) = Some v"
    by (rule eval_binI) (use g2 grows_den [OF g2(1) g1(2)] a t in \<open>auto simp: key_simps int_arith_simps\<close>)
  then show ?thesis using c1 c2 grows_trans [OF g1(1) g2(1)] by (auto simp: fold_cast2_def step_ok_def)
qed

lemma sub_sums_ok:
  assumes site: "fold_site h ctx \<rho> a v" "i_op a = IR_SUB" "arith_type (i_type a)" "v = wrap (i_type a) (i1 + i2 - (j1 + j2))"
    and d: "den ctx \<rho> p1 = Some (s1, i1)" "den ctx \<rho> p2 = Some (s2, i2)" "den ctx \<rho> q1 = Some (u1, j1)" "den ctx \<rho> q2 = Some (u2, j2)"
    and co: "compat s1 (i_type a)" "compat s2 (i_type a)" "compat u1 (i_type a)" "compat u2 (i_type a)"
  shows "step_ok h ctx \<rho> a v
    (if p1 = q1 then fold_cast2 ctx a p2 q2 else if p1 = q2 then fold_cast2 ctx a p2 q1
     else if p2 = q1 then fold_cast2 ctx a p1 q2 else if p2 = q2 then fold_cast2 ctx a p1 q1 else Fold_Next)"
proof -
  note c2 = cast2_ok [OF site(1) _ _ _ _ site(3,2)]
  show ?thesis
  proof (intro step_ok_if step_ok_simps(1))
    show "p1 = q1 \<Longrightarrow> step_ok h ctx \<rho> a v (fold_cast2 ctx a p2 q2)"
      by (rule c2 [OF d(2,4) co(2,4)]) (use site(4) d in auto)
    show "p1 = q2 \<Longrightarrow> step_ok h ctx \<rho> a v (fold_cast2 ctx a p2 q1)"
      by (rule c2 [OF d(2,3) co(2,3)]) (use site(4) d in \<open>auto simp: algebra_simps\<close>)
    show "p2 = q1 \<Longrightarrow> step_ok h ctx \<rho> a v (fold_cast2 ctx a p1 q2)"
      by (rule c2 [OF d(1,4) co(1,4)]) (use site(4) d in \<open>auto simp: algebra_simps\<close>)
    show "p2 = q2 \<Longrightarrow> step_ok h ctx \<rho> a v (fold_cast2 ctx a p1 q1)"
      by (rule c2 [OF d(1,3) co(1,3)]) (use site(4) d in auto)
  qed
qed

lemma sub_sums_rule:
  "sound_rule ([(IR_SUB, IR_ADD, IR_ADD)],
     \<lambda>h ctx a x y z. if IR_IS_TYPE_INT (i_type a) then
         (if i_op1 a = i_op2 a then IR_FOLD_CONST_U 0
          else if i_op1 x = i_op1 y then fold_cast2 ctx a (i_op2 x) (i_op2 y)
          else if i_op1 x = i_op2 y then fold_cast2 ctx a (i_op2 x) (i_op1 y)
          else if i_op2 x = i_op1 y then fold_cast2 ctx a (i_op1 x) (i_op2 y)
          else if i_op2 x = i_op2 y then fold_cast2 ctx a (i_op1 x) (i_op1 y)
          else Fold_Next)
       else Fold_Next)"
proof (rule addsub_rule [where o' = IR_SUB and k = IR_ADD and k' = IR_ADD], simp, simp, goal_cases)
  case (1 h ctx \<rho> a v x y z t1 v1 t2 v2)
  have ox: "i_op x = IR_ADD" "i_op y = IR_ADD" using 1(5,6) by simp_all
  obtain s1 i1 s2 i2 where x: "den ctx \<rho> (i_op1 x) = Some (s1, i1)" "den ctx \<rho> (i_op2 x) = Some (s2, i2)"
    "sem_bin h IR_ADD t1 s1 s2 i1 i2 = Some v1" using 1(9,10) ox by (auto simp: inner_simps)
  obtain u1 j1 u2 j2 where y: "den ctx \<rho> (i_op1 y) = Some (u1, j1)" "den ctx \<rho> (i_op2 y) = Some (u2, j2)"
    "sem_bin h IR_ADD t2 u1 u2 j1 j2 = Some v2" using 1(13,14) ox by (auto simp: inner_simps)
  note cx = int_inners(2) [OF x(3) 1(16,15)] and cy = int_inners(2) [OF y(3) 1(17,15)]
  have v: "v = wrap (i_type a) (i1 + i2 - (j1 + j2))" using 1(18) cx cy by (simp add: width_simps)
  note so = sub_sums_ok [OF 1(1,2,15) v x(1,2) y(1,2)]
  show ?case
  proof (intro step_ok_if [where r = "if i_op1 a = i_op2 a then _ else _"] step_ok_if [where r = "IR_FOLD_CONST_U 0"] step_ok_simps(1))
    show "i_op1 a = i_op2 a \<Longrightarrow> step_ok h ctx \<rho> a v (IR_FOLD_CONST_U 0)"
      using 1(7,11,15,18) by (intro const0_ok) auto
  qed (use so cx cy in blast)
qed

lemma sound_addsub: "list_all sound_rule fold_rules_addsub"
  unfolding fold_rules_addsub_def list.pred_inject
  apply (intro conjI)
  subgoal by (rule addsub_rule [where o' = IR_ADD and k = IR_NEG and k' = ANY])
    (simp, simp, auto simp: inner_simps dest!: int_inners, rule restart_binI, auto simp: inner_int)
  subgoal
    unfolding sound_rule_Cons
    apply (intro conjI)
    subgoal by (rule addsub_rule [where o' = IR_ADD and k = ANY and k' = IR_NEG])
      (simp, simp, auto simp: inner_simps dest!: int_inners, rule restart_binI, auto simp: inner_int)
    subgoal by (rule addsub_rule [where o' = IR_SUB and k = ANY and k' = IR_NEG])
      (simp, simp, auto simp: inner_simps dest!: int_inners, rule restart_binI, auto simp: inner_int)
    done
  subgoal by (rule addsub_rule [where o' = IR_ADD and k = IR_SUB and k' = ANY])
    (simp, simp, auto simp: inner_int dest!: int_inners intro!: copy_cast_ok)
  subgoal by (rule addsub_rule [where o' = IR_ADD and k = ANY and k' = IR_SUB])
    (simp, simp, auto simp: inner_int dest!: int_inners intro!: copy_cast_ok)
  subgoal by (rule addsub_rule [where o' = IR_SUB and k = IR_ADD and k' = ANY])
    (simp, simp, auto simp: inner_int dest!: int_inners intro!: copy_cast_ok)
  subgoal by (rule addsub_rule [where o' = IR_SUB and k = ANY and k' = IR_ADD])
    (simp, simp, auto simp: inner_int dest!: int_inners intro!: to_unary_ok)
  subgoal by (rule addsub_rule [where o' = IR_SUB and k = IR_SUB and k' = ANY])
    (simp, simp, auto simp: inner_int dest!: int_inners intro!: to_unary_ok)
  subgoal by (rule addsub_rule [where o' = IR_SUB and k = ANY and k' = IR_SUB])
    (simp, simp, auto simp: inner_int dest!: int_inners intro!: copy_cast_ok)
  subgoal by (rule sub_sums_rule)
  by simp
end
