(* ===== verification/Sound_Mul.thy ===== *)
theory Sound_Mul
  imports Sound_Arith
begin

text \<open>Products, quotients and remainders, also by powers of two.\<close>

lemma cv_uminus: "t \<noteq> IR_BOOL \<Longrightarrow> cv t (- w) = wrap t (- cv t w)"
proof -
  assume t: "t \<noteq> IR_BOOL"
  have "- w = word_of_int (- uint w)" by simp
  then have "cv t (- w) = wrap t (- uint w)" using cv_word_of_int [OF t] by metis
  also have "\<dots> = wrap t (- cv t w)" using t by (simp add: wrap_def cv_def take_bit_minus)
  finally show ?thesis .
qed

lemma cv_one: "t \<noteq> IR_VOID \<Longrightarrow> cv t 1 = 1"
  by (cases t) (simp_all add: cv_def)

lemma cv_minus1: "arith_type t \<Longrightarrow> cv t (- 1) = wrap t (- 1)"
  using cv_uminus [of t 1] cv_one [of t] by (auto simp: arith_type_iff)

lemma val_i64_eq: "val_i64 w = 0 \<longleftrightarrow> w = 0" "val_i64 w = 1 \<longleftrightarrow> w = 1" "val_i64 w = -1 \<longleftrightarrow> w = -1"
proof -
  have "val_i64 w = i \<longleftrightarrow> w = word_of_int i" if "sint (word_of_int i :: u64) = i" for i
    using that of_int_sint [of w] by (auto simp: val_i64_def)
  from this [of 0] this [of 1] this [of "-1"]
  show "val_i64 w = 0 \<longleftrightarrow> w = 0" "val_i64 w = 1 \<longleftrightarrow> w = 1" "val_i64 w = -1 \<longleftrightarrow> w = -1" by simp_all
qed

lemma const_restart_binI:
  assumes site: "fold_site h ctx \<rho> a v" and t: "t \<noteq> IR_VOID" and d: "den ctx \<rho> r1 = Some (t1, v1)"
    and k: "\<And>r. i_op (k r) = op \<and> i_type (k r) = t' \<and> i_op1 (k r) = r1 \<and> i_op2 (k r) = r" "binary_op op"
    and s: "sem_bin h op t' t1 t v1 (cv t w) = Some v" "compat t' (i_type a)"
  shows "step_ok h ctx \<rho> a v (fold_const_restart ctx w t k)"
proof (rule fold_site.const_restart [OF site t])
  fix ctx' r
  assume g: "grows h ctx \<rho> ctx' \<rho>" "den ctx' \<rho> r = Some (t, cv t w)"
  have "eval h ctx' \<rho> (k r) = Some v"
    by (rule eval_binI) (use k s g(2) grows_den [OF g(1) d] in auto)
  then show "eval h ctx' \<rho> (k r) = Some v \<and> compat (i_type (k r)) (i_type a)" using k s by simp
qed

section \<open>Products\<close>

lemma mul_const:
  assumes "fold_site h ctx \<rho> a v" "arith_type (i_type a)" "compat t1 (i_type a)" "compat t2 (i_type a)" "okval t1 v1"
    "den ctx \<rho> (i_op1 a) = Some (t1, v1)" "den ctx \<rho> (i_op2 a) = Some (t2, cv t2 w)" "v = wrap (i_type a) (v1 * cv t2 w)"
  shows "w = 0 \<Longrightarrow> step_ok h ctx \<rho> a v (Fold_Copy (i_op2 a))"
    "w = 1 \<Longrightarrow> step_ok h ctx \<rho> a v (Fold_Copy (i_op1 a))"
    "w = -1 \<Longrightarrow> step_ok h ctx \<rho> a v (fold_to_unary ctx a IR_NEG (i_op1 a))"
proof -
  have t2: "t2 \<noteq> IR_VOID" "arith_type t2" using assms(2,4) compat_arith_iff [OF assms(4)] by (auto simp: arith_type_iff)
  show "w = 0 \<Longrightarrow> step_ok h ctx \<rho> a v (Fold_Copy (i_op2 a))" using assms by (auto simp: copy_ok_def wrap_def)
  show "w = 1 \<Longrightarrow> step_ok h ctx \<rho> a v (Fold_Copy (i_op1 a))"
    using assms cv_one [OF t2(1)] by (auto simp: copy_ok_def wrap_compat_id)
  have "wrap t2 = wrap (i_type a)" by (rule wrap_compat [OF assms(4)])
  then have "w = -1 \<Longrightarrow> v = wrap (i_type a) (- v1)" using assms(8) cv_minus1 [OF t2(2)] by (simp add: width_simps)
  then show "w = -1 \<Longrightarrow> step_ok h ctx \<rho> a v (fold_to_unary ctx a IR_NEG (i_op1 a))"
    using assms(1-3,6) by (auto intro!: to_unary_ok simp: key_simps int_arith_simps)
qed

lemma no_fp_rule:
  assumes keys: "\<forall>(op, k1, k2)\<in>set ks. op \<in> {IR_MUL, IR_DIV} \<and> IR_IS_CONST_OP k2 \<and> IR_IS_TYPE_FP (const_type k2)"
  shows "sound_rule (ks, b)"
proof (rule bin_const_rule, goal_cases)
  case 1
  show ?case by (intro ballI) (auto dest!: bspec [OF keys] simp: key_simps)
next
  case (2 h ctx \<rho> a v x y z op k1 k2 t1 v1)
  have k: "op \<in> {IR_MUL, IR_DIV}" "IR_IS_TYPE_FP (const_type k2)" using bspec [OF keys 2(1)] by auto
  have "i_type a \<noteq> IR_DOUBLE \<and> i_type a \<noteq> IR_FLOAT" using excl_fp [OF 2(4)] 2(3) k(1) by auto
  then have "\<not> IR_IS_TYPE_FP (i_type a)" by (simp add: fp_types)
  moreover have "arith_type (i_type a) \<and> compat (const_type k2) (i_type a) \<or> IR_IS_TYPE_FP (i_type a)"
    using k(1) 2(15) by (auto simp: sem_bin_simps sem_arith_Some sem_div_def split: if_splits)
  ultimately show ?case using k(2) arith_not_fp [of "const_type k2"] compat_arith_iff [of "const_type k2" "i_type a"] by blast
qed

lemma mul_neg_const:
  "sound_rule ([(IR_MUL, IR_NEG, IR_C_I8), (IR_MUL, IR_NEG, IR_C_I16), (IR_MUL, IR_NEG, IR_C_I32),
      (IR_MUL, IR_NEG, IR_C_I64), (IR_DIV, IR_NEG, IR_C_I8), (IR_DIV, IR_NEG, IR_C_I16),
      (IR_DIV, IR_NEG, IR_C_I32), (IR_DIV, IR_NEG, IR_C_I64)],
     \<lambda>h ctx a x y z. fold_const_restart ctx (- i_val y) (i_type y) (\<lambda>r. a\<lparr>i_op1 := i_op1 x, i_op2 := r\<rparr>))"
proof (rule const_rhs_rule [where ops = "{IR_MUL, IR_DIV}" and k = IR_NEG and Q = arith_type], simp add: rule_simps,
    simp add: key_simps, goal_cases)
  case (1 h ctx \<rho> a v x y z op t1 v1 t2)
  have ox: "i_op x = IR_NEG" using 1(7) by simp
  then have op: "i_op a = IR_MUL" using 1(1,3-6) by (auto simp: fold_excluded_def excl_arith_def)
  note i = int_addsub [OF 1(18) _ 1(4,3) refl, unfolded 1(3) [symmetric] op, simplified]
  obtain s1 i1 where x: "den ctx \<rho> (i_op1 x) = Some (s1, i1)" "sem_un h IR_NEG t1 s1 i1 = Some v1"
    using 1(11,13) ox by (auto simp: inner_simps)
  note cx = int_inners(1) [OF x(2) i(2,1)]
  have w: "wrap t2 = wrap (i_type a)" by (rule wrap_compat [OF i(3)])
  have t2: "t2 \<noteq> IR_BOOL" "t2 \<noteq> IR_VOID" using 1(17) by (auto simp: arith_type_iff)
  have "v = wrap (i_type a) (i1 * cv t2 (- i_val y))"
    using i(6) cx cv_uminus [OF t2(1)] by (simp add: width_simps w)
  then show ?case unfolding 1(16)
    by (intro const_restart_binI [OF 1(2) t2(2) x(1), where op = IR_MUL and t' = "i_type a"])
      (use op i cx in \<open>auto simp: key_simps int_arith_simps\<close>)
qed


section \<open>Powers of two\<close>

lemma power_of_two_word:
  assumes "IR_IS_POWER_OF_TWO (w :: u64)"
  shows "\<exists>k<64. ir_ntzl w = Some k \<and> w = 2 ^ k \<and> uint w = 2 ^ k"
proof -
  obtain k where k: "k < 64" "w = 2 ^ k" using assms unfolding power_of_two_iff by auto
  have "w \<noteq> 0" using assms by (simp add: IR_IS_POWER_OF_TWO_def)
  then have "ir_ntzl w = Some k" using ctz_power [of k, where 'a = 64] k by (simp add: ir_ntzl_def)
  moreover have "uint w = 2 ^ k" using k uint_word_of_int64 [of "2 ^ k"] by (simp add: word_of_int_2p take_bit_int_eq_self)
  ultimately show ?thesis using k by blast
qed

text \<open>A canonical constant that is a power of two as a 64-bit number.\<close>

lemma power_of_two_cv:
  assumes "canonical t w" "arith_type t" "uint w = 2 ^ k" "k < 64"
  shows "cv t w = 2 ^ k" "k < type_bits t" "num t (cv t w) = (if IR_IS_TYPE_SIGNED t \<and> k = type_bits t - 1 then - (2 ^ k) else 2 ^ k)"
proof -
  have v: "t \<noteq> IR_VOID" "t \<noteq> IR_BOOL" "0 < type_bits t" using assms(2) by (auto simp: arith_type_iff)
  have f: "fits (type_bits t) (cv t w)" by (rule fits_cv [OF v(1)])
  have c: "cv t w = 2 ^ k"
  proof (cases "IR_IS_TYPE_SIGNED t \<and> \<not> cv t w < 2 ^ (type_bits t - 1)")
    case False
    then show ?thesis
      using assms(3) canonical_unsigned [OF assms(1) _ v(1)] val_u64_signed [OF assms(1)]
      by (cases "IR_IS_TYPE_SIGNED t") (auto simp: val_u64_def)
  next
    case True
    then have e: "2 ^ k = cv t w + (2 ^ 64 - 2 ^ type_bits t)"
      using assms(3) val_u64_signed [OF assms(1)] by (simp add: val_u64_def)
    have p: "(2::int) ^ type_bits t = 2 * 2 ^ (type_bits t - 1)" using v(3) by (cases "type_bits t") simp_all
    have "(2::int) ^ (type_bits t - 1) \<le> 2 ^ 63" using type_bits_le [of t] by (intro power_increasing) linarith+
    then have "(2::int) ^ 63 \<le> 2 ^ k" using e True p by simp
    then have "\<not> k < 63" using power_strict_increasing [of k 63 "2::int"] by linarith
    then have "k = 63" using assms(4) by linarith
    moreover have "type_bits t = 64"
    proof (rule ccontr)
      assume "type_bits t \<noteq> 64"
      then have "type_bits t \<le> 63" using type_bits_le [of t] by linarith
      then have "(2::int) ^ type_bits t \<le> 2 ^ 63" by (intro power_increasing) auto
      moreover have "0 < cv t w" using zero_less_power [of "2::int" "type_bits t - 1"] conjunct2 [OF True] by linarith
      ultimately show False using e \<open>k = 63\<close> by simp
    qed
    ultimately show ?thesis using e by simp
  qed
  then show "cv t w = 2 ^ k" .
  show k: "k < type_bits t" using f c by (simp add: fits_def)
  show "num t (cv t w) = (if IR_IS_TYPE_SIGNED t \<and> k = type_bits t - 1 then - (2 ^ k) else 2 ^ k)"
  proof (cases "k = type_bits t - 1")
    case True
    then show ?thesis using sval_cases [OF f v(3)] c k v(3) by (cases "type_bits t") (auto simp: num_def)
  next
    case False
    then have "k < type_bits t - 1" using k by linarith
    then show ?thesis using sval_cases [OF f v(3)] c by (simp add: num_def)
  qed
qed

lemma div_mod_power:
  assumes "0 \<le> x" "d = 2 ^ k \<or> d = - (2 ^ k) \<and> x < 2 ^ k"
  shows "x sdiv d = drop_bit k x" "x smod d = take_bit k (x :: int)"
proof -
  have "x sdiv 2 ^ k = x div 2 ^ k" "x smod 2 ^ k = x mod 2 ^ k" using assms(1) by (simp_all add: sdiv_nonneg smod_nonneg)
  moreover have "x sdiv (- (2 ^ k)) = 0 \<and> x smod (- (2 ^ k)) = x" if "x < 2 ^ k"
    using assms(1) that by (auto simp: signed_divide_int_def signed_modulo_int_def sgn_if)
  ultimately show "x sdiv d = drop_bit k x" "x smod d = take_bit k x"
    using assms by (auto simp: drop_bit_eq_div take_bit_eq_mod)
qed

text \<open>Division and remainder of a value that is not negative by a power of two.\<close>

lemma div_power:
  assumes "canonical t w" "arith_type t" "uint w = 2 ^ k" "k < 64" "num t v1 = v1" "okval t1 v1" "compat t1 t"
  shows "wrap t (num t v1 sdiv num t (cv t w)) = drop_bit k v1" "wrap t (num t v1 smod num t (cv t w)) = take_bit k v1"
proof -
  note pc = power_of_two_cv [OF assms(1-4)]
  have f: "fits (type_bits t) v1" using okval_fits [OF assms(6)] compat_bits [OF assms(7)] by simp
  then have p: "0 \<le> v1" by (simp add: fits_def)
  have lt: "IR_IS_TYPE_SIGNED t \<Longrightarrow> v1 < 2 ^ (type_bits t - 1)" using num_bounds(2) [of t v1] assms(5) by simp
  have d: "num t (cv t w) = 2 ^ k \<or> num t (cv t w) = - (2 ^ k) \<and> v1 < 2 ^ k" using pc(3) lt by auto
  note dm = div_mod_power [OF p d]
  have "fits (type_bits t) (drop_bit k v1)" by (rule fits_drop_bit [OF f])
  moreover have "fits (type_bits t) (take_bit k v1)" using fits_mono [of k "take_bit k v1"] pc(2) by simp
  ultimately show "wrap t (num t v1 sdiv num t (cv t w)) = drop_bit k v1" "wrap t (num t v1 smod num t (cv t w)) = take_bit k v1"
    unfolding assms(5) dm by (simp_all add: wrap_def fits_iff_take_bit)
qed

text \<open>A zero-extended value is not negative.\<close>

lemma zext_num:
  assumes "sem_un h IR_ZEXT t1 s i = Some v1" "okval s i" "compat t1 t" "arith_type t"
  shows "num t v1 = v1"
proof -
  have s: "v1 = i" "int_type s" "ir_type_size s < ir_type_size t1" using assms(1) by (auto simp: sem_un_simps split: if_splits)
  have "type_bits s \<le> type_bits t - 1" using s(3) compat_size [OF assms(3)] by (simp add: type_bits_def)
  then have f: "fits (type_bits t - 1) v1" using fits_mono [OF okval_fits [OF assms(2)]] s(1) by simp
  moreover have "0 < type_bits t" using assms(4) by (auto simp: arith_type_iff)
  ultimately show ?thesis by (auto simp: num_def fits_def intro!: sval_id order_trans [of _ 0 v1])
qed


lemma shr_ok:
  assumes "fold_site h ctx \<rho> a v" "den ctx \<rho> (i_op1 a) = Some (t1, v1)" "compat t1 (i_type a)" "arith_type (i_type a)"
    "i_type a \<noteq> IR_ADDR" "k < type_bits (i_type a)" "v = drop_bit k v1"
  shows "step_ok h ctx \<rho> a v (fold_const_restart ctx (word_of_nat k) (i_type a) (\<lambda>r. (set_opt IR_SHR (i_type a) a)\<lparr>i_op2 := r\<rparr>))"
proof -
  have t: "i_type a \<noteq> IR_VOID" "i_type a \<noteq> IR_BOOL" using assms(4) by (auto simp: arith_type_iff)
  have "cv (i_type a) (word_of_nat k) = wrap (i_type a) (int k)" using cv_word_of_int [OF t(2), of "int k"] by simp
  also have "\<dots> = int k" using int_le_bits_fits [of "int k" "i_type a"] assms(6) t by (simp add: wrap_def fits_iff_take_bit)
  finally have c: "cv (i_type a) (word_of_nat k) = int k" .
  show ?thesis
    by (rule const_restart_binI [OF assms(1) t(1) assms(2), where op = IR_SHR and t' = "i_type a"])
      (use assms c in \<open>auto simp: set_opt_def key_simps sem_bin_simps shift_ok_def\<close>)
qed

lemma and_ok:
  assumes "fold_site h ctx \<rho> a v" "den ctx \<rho> (i_op1 a) = Some (t1, v1)" "compat t1 (i_type a)" "arith_type (i_type a)"
    "k < type_bits (i_type a)" "uint w = 2 ^ k" "v = take_bit k v1"
  shows "step_ok h ctx \<rho> a v (fold_const_restart ctx (w - 1) (i_type a) (\<lambda>r. (set_opt IR_AND (i_type a) a)\<lparr>i_op2 := r\<rparr>))"
proof -
  have t: "i_type a \<noteq> IR_VOID" "i_type a \<noteq> IR_BOOL" using assms(4) by (auto simp: arith_type_iff)
  have "w - 1 = word_of_int (2 ^ k - 1)" using assms(6) by (metis of_int_1 of_int_diff word_of_int_uint)
  then have "cv (i_type a) (w - 1) = wrap (i_type a) (mask k)"
    unfolding mask_eq_exp_minus_1 using cv_word_of_int [OF t(2)] by metis
  also have "\<dots> = mask k" using assms(5) by (simp add: wrap_def take_bit_of_mask)
  finally have c: "cv (i_type a) (w - 1) = mask k" .
  have "int_type (i_type a)" using assms(4) by (simp add: arith_type_def)
  then show ?thesis
    by (intro const_restart_binI [OF assms(1) t(1) assms(2), where op = IR_AND and t' = "i_type a"])
      (use assms c in \<open>auto simp: set_opt_def key_simps sem_bin_simps sem_bits_def take_bit_eq_mask\<close>)
qed

text \<open>An integer division or remainder with its operands.\<close>

lemma int_div:
  assumes "sem_bin h op t t1 t2 v1 v2 = Some v" "op = IR_DIV \<or> op = IR_MOD" "arith_type t2"
  shows "arith_type t" "compat t1 t" "t2 = t" "num t v2 \<noteq> 0" "div_ok t (num t v1) (num t v2)"
    "op = IR_DIV \<Longrightarrow> v = wrap t (num t v1 sdiv num t v2)" "op = IR_MOD \<Longrightarrow> v = wrap t (num t v1 smod num t v2)"
proof -
  have f: "\<not> IR_IS_TYPE_FP t" using assms arith_not_fp [of t2] by (auto simp: sem_bin_simps sem_div_def sem_mod_def split: if_splits)
  show "arith_type t" "compat t1 t" "t2 = t" "num t v2 \<noteq> 0" "div_ok t (num t v1) (num t v2)"
    "op = IR_DIV \<Longrightarrow> v = wrap t (num t v1 sdiv num t v2)" "op = IR_MOD \<Longrightarrow> v = wrap t (num t v1 smod num t v2)"
    using assms(1,2) by (auto simp: sem_bin_simps sem_div_Some [OF f] sem_mod_Some div_ok_def)
qed

lemma wrap_num: "arith_type t \<Longrightarrow> wrap t (num t v) = wrap t v"
  by (auto simp: wrap_def num_def arith_type_iff take_bit_sval)

lemma num_one: "arith_type t \<Longrightarrow> num t 1 = 1"
  by (cases t) (simp_all add: num_simps arith_type_iff sval_id)

lemma num_minus1: "arith_type t \<Longrightarrow> IR_IS_TYPE_SIGNED t \<Longrightarrow> num t (wrap t (-1)) = -1"
  by (rule num_wrap) (auto intro: less_le_trans [of _ 0])

lemma sdiv_one: "x sdiv 1 = (x :: int)" "x sdiv (-1) = - (x :: int)" "x smod 1 = (0 :: int)"
  by (auto simp: signed_divide_int_def signed_modulo_int_def sgn_if)

lemma div_one_ok:
  assumes "fold_site h ctx \<rho> a v" "sem_bin h IR_DIV (i_type a) t1 t2 v1 (cv t2 w) = Some v" "okval t1 v1" "arith_type t2"
    "den ctx \<rho> (i_op1 a) = Some (t1, v1)"
  shows "w = 1 \<Longrightarrow> step_ok h ctx \<rho> a v (Fold_Copy (i_op1 a))"
    "w = -1 \<Longrightarrow> IR_IS_TYPE_SIGNED t2 \<Longrightarrow> step_ok h ctx \<rho> a v (fold_to_unary ctx a IR_NEG (i_op1 a))"
proof -
  note i = int_div [OF assms(2) _ assms(4), simplified]
  have c: "cv t2 1 = 1" "cv t2 (-1) = wrap t2 (-1)" using assms(4) cv_one [of t2] cv_minus1 by (auto simp: arith_type_iff)
  have "v = wrap (i_type a) v1" if "w = 1"
    using i(6) num_one [OF i(1)] c that i(3) wrap_num [OF i(1)] by (simp add: sdiv_one)
  then show "w = 1 \<Longrightarrow> step_ok h ctx \<rho> a v (Fold_Copy (i_op1 a))"
    using assms(3,5) i(1,2) by (auto simp: copy_ok_def wrap_compat_id)
  have "v = wrap (i_type a) (- v1)" if "w = -1" "IR_IS_TYPE_SIGNED t2"
  proof -
    have "v = wrap (i_type a) (- num (i_type a) v1)"
      using i(6) num_minus1 [OF i(1)] c that i(3) by (simp add: sdiv_one)
    also have "\<dots> = wrap (i_type a) (- wrap (i_type a) (num (i_type a) v1))" by (simp add: width_simps)
    finally show ?thesis by (simp add: wrap_num [OF i(1)] width_simps)
  qed
  then show "w = -1 \<Longrightarrow> IR_IS_TYPE_SIGNED t2 \<Longrightarrow> step_ok h ctx \<rho> a v (fold_to_unary ctx a IR_NEG (i_op1 a))"
    using assms(1,5) i(1,2) by (auto intro!: to_unary_ok simp: key_simps int_arith_simps)
qed

lemma power_ok:
  assumes site: "fold_site h ctx \<rho> a v" and sem: "sem_bin h op (i_type a) t1 t2 v1 (cv t2 w) = Some v" "okval t1 v1"
    and t2: "arith_type t2" "t2 \<noteq> IR_ADDR" and d: "den ctx \<rho> (i_op1 a) = Some (t1, v1)" and w: "IR_IS_POWER_OF_TWO w" "canonical t2 w"
    and n: "\<not> IR_IS_TYPE_SIGNED (i_type a) \<or> i_op x = IR_ZEXT \<and> inner h ctx \<rho> x v1 \<and> t1 = i_type x"
  shows "op = IR_DIV \<Longrightarrow> step_ok h ctx \<rho> a v (case ir_ntzl w of None \<Rightarrow> Fold_UB | Some k \<Rightarrow>
         fold_const_restart ctx (word_of_nat k) (i_type a) (\<lambda>r. (set_opt IR_SHR (i_type a) a)\<lparr>i_op2 := r\<rparr>))"
    "op = IR_MOD \<Longrightarrow> step_ok h ctx \<rho> a v (fold_const_restart ctx (w - 1) (i_type a) (\<lambda>r. (set_opt IR_AND (i_type a) a)\<lparr>i_op2 := r\<rparr>))"
proof -
  obtain k where k: "k < 64" "ir_ntzl w = Some k" "uint w = 2 ^ k" using power_of_two_word [OF w(1)] by blast
  have op: "op = IR_DIV \<or> op = IR_MOD \<Longrightarrow> arith_type (i_type a) \<and> compat t1 (i_type a) \<and> t2 = i_type a \<and> k < type_bits (i_type a) \<and>
      num (i_type a) v1 = v1"
  proof -
    assume o': "op = IR_DIV \<or> op = IR_MOD"
    note i = int_div [OF sem(1) o' t2(1)]
    have "num (i_type a) v1 = v1"
      using n zext_num [OF _ _ i(2,1)] by (cases "IR_IS_TYPE_SIGNED (i_type a)") (auto simp: inner_simps num_def)
    then show ?thesis using i power_of_two_cv(2) [OF w(2) t2(1) k(3,1)] by simp
  qed
  have dp: "op = IR_DIV \<or> op = IR_MOD \<Longrightarrow>
      wrap (i_type a) (num (i_type a) v1 sdiv num (i_type a) (cv t2 w)) = drop_bit k v1 \<and>
      wrap (i_type a) (num (i_type a) v1 smod num (i_type a) (cv t2 w)) = take_bit k v1"
    using div_power [OF _ _ k(3,1) _ sem(2), of "i_type a"] op w(2) t2(1) by auto
  show "op = IR_DIV \<Longrightarrow> step_ok h ctx \<rho> a v (case ir_ntzl w of None \<Rightarrow> Fold_UB | Some k \<Rightarrow>
         fold_const_restart ctx (word_of_nat k) (i_type a) (\<lambda>r. (set_opt IR_SHR (i_type a) a)\<lparr>i_op2 := r\<rparr>))"
    using shr_ok [OF site d] op dp int_div(6) [OF sem(1) _ t2(1)] t2 k(2) by auto
  show "op = IR_MOD \<Longrightarrow> step_ok h ctx \<rho> a v (fold_const_restart ctx (w - 1) (i_type a) (\<lambda>r. (set_opt IR_AND (i_type a) a)\<lparr>i_op2 := r\<rparr>))"
    using and_ok [OF site d _ _ _ k(3)] op dp int_div(7) [OF sem(1) _ t2(1)] by auto
qed


lemma mul_unsigned_rule:
  assumes "\<forall>(op, k1, k2)\<in>set ks. op \<in> {IR_MUL} \<and> k1 = ANY \<and> IR_IS_CONST_OP k2 \<and> arith_type (const_type k2)"
  shows "sound_rule (ks, \<lambda>h ctx a x y z. if i_val y = 0 then Fold_Copy (i_op2 a)
       else if i_val y = 1 then Fold_Copy (i_op1 a) else Fold_Next)"
proof (rule const_rhs_rule [OF assms], simp add: key_simps, goal_cases)
  case (1 h ctx \<rho> a v x y z op t1 v1 t2)
  note i = int_addsub [OF 1(18) _ 1(4,3) refl, unfolded 1(1) [unfolded singleton_iff], simplified]
  note m = mul_const [OF 1(2) i(1-3) 1(10,9,14) i(6)]
  show ?case by (intro step_ok_if step_ok_simps(1) m)
qed

lemma mul_signed_rule:
  assumes "\<forall>(op, k1, k2)\<in>set ks. op \<in> {IR_MUL} \<and> k1 = ANY \<and> IR_IS_CONST_OP k2 \<and> arith_type (const_type k2)"
  shows "sound_rule (ks, \<lambda>h ctx a x y z. if val_i64 (i_val y) = 0 then Fold_Copy (i_op2 a)
       else if val_i64 (i_val y) = 1 then Fold_Copy (i_op1 a)
       else if val_i64 (i_val y) = -1 then fold_to_unary ctx a IR_NEG (i_op1 a)
       else Fold_Next)"
proof (rule const_rhs_rule [OF assms], simp add: key_simps, goal_cases)
  case (1 h ctx \<rho> a v x y z op t1 v1 t2)
  note i = int_addsub [OF 1(18) _ 1(4,3) refl, unfolded 1(1) [unfolded singleton_iff], simplified]
  note m = mul_const [OF 1(2) i(1-3) 1(10,9,14) i(6)]
  show ?case unfolding val_i64_eq by (intro step_ok_if step_ok_simps(1) m)
qed

lemma div_unsigned_rule:
  assumes "\<forall>(op, k1, k2)\<in>set ks. op \<in> {IR_DIV} \<and> k1 = ANY \<and> IR_IS_CONST_OP k2 \<and>
      (arith_type (const_type k2) \<and> const_type k2 \<noteq> IR_ADDR \<and> \<not> IR_IS_TYPE_SIGNED (const_type k2))"
  shows "sound_rule (ks, \<lambda>h ctx a x y z. if i_val y = 1 then Fold_Copy (i_op1 a)
       else if IR_IS_POWER_OF_TWO (i_val y)
       then (case ir_ntzl (i_val y) of None \<Rightarrow> Fold_UB | Some k \<Rightarrow>
         fold_const_restart ctx (word_of_nat k) (i_type a) (\<lambda>r. (set_opt IR_SHR (i_type a) a)\<lparr>i_op2 := r\<rparr>))
       else Fold_Next)"
proof (rule const_rhs_rule [OF assms], simp add: key_simps, goal_cases)
  case (1 h ctx \<rho> a v x y z op t1 v1 t2)
  have t2: "arith_type t2" "t2 \<noteq> IR_ADDR" "\<not> IR_IS_TYPE_SIGNED t2" using 1(17) by auto
  note s = 1(18) [unfolded 1(1) [unfolded singleton_iff]]
  have n: "\<not> IR_IS_TYPE_SIGNED (i_type a) \<or> i_op x = IR_ZEXT \<and> inner h ctx \<rho> x v1 \<and> t1 = i_type x"
    using int_div(3) [OF s _ t2(1)] t2(3) by simp
  note one = div_one_ok(1) [OF 1(2) s 1(10) t2(1) 1(9)] and pow = power_ok(1) [OF 1(2) s 1(10) t2(1,2) 1(9) _ 1(15) n refl]
  show ?case by (intro step_ok_if step_ok_simps(1) one pow)
qed

lemma div_signed_rule:
  assumes "\<forall>(op, k1, k2)\<in>set ks. op \<in> {IR_DIV} \<and> k1 = ANY \<and> IR_IS_CONST_OP k2 \<and>
      (arith_type (const_type k2) \<and> const_type k2 \<noteq> IR_ADDR \<and> IR_IS_TYPE_SIGNED (const_type k2))"
  shows "sound_rule (ks, \<lambda>h ctx a x y z. if val_i64 (i_val y) = 1 then Fold_Copy (i_op1 a)
       else if val_i64 (i_val y) = -1 then fold_to_unary ctx a IR_NEG (i_op1 a)
       else if IR_IS_POWER_OF_TWO (i_val y) \<and> i_op x = IR_ZEXT
       then (case ir_ntzl (i_val y) of None \<Rightarrow> Fold_UB | Some k \<Rightarrow>
         fold_const_restart ctx (word_of_nat k) (i_type a) (\<lambda>r. (set_opt IR_SHR (i_type a) a)\<lparr>i_op2 := r\<rparr>))
       else Fold_Next)"
proof (rule const_rhs_rule [OF assms], simp add: key_simps, goal_cases)
  case (1 h ctx \<rho> a v x y z op t1 v1 t2)
  have t2: "arith_type t2" "t2 \<noteq> IR_ADDR" "IR_IS_TYPE_SIGNED t2" using 1(17) by auto
  note s = 1(18) [unfolded 1(1) [unfolded singleton_iff]]
  note one = div_one_ok [OF 1(2) s 1(10) t2(1) 1(9)] and pow = power_ok(1) [OF 1(2) s 1(10) t2(1,2) 1(9) _ 1(15) _ refl]
  show ?case unfolding val_i64_eq by (intro step_ok_if step_ok_simps(1) one pow t2) (use 1(11,13) in auto)
qed

lemma mod_rule:
  assumes "\<forall>(op, k1, k2)\<in>set ks. op \<in> {IR_MOD} \<and> k1 = ANY \<and> IR_IS_CONST_OP k2 \<and>
      (arith_type (const_type k2) \<and> const_type k2 \<noteq> IR_ADDR)"
  shows "sound_rule (ks, \<lambda>h ctx a x y z. if val_i64 (i_val y) = 1 then IR_FOLD_CONST_U 0
       else if IR_IS_POWER_OF_TWO (i_val y) \<and> (IR_IS_TYPE_UNSIGNED (i_type a) \<or> i_op x = IR_ZEXT)
       then fold_const_restart ctx (i_val y - 1) (i_type a) (\<lambda>r. (set_opt IR_AND (i_type a) a)\<lparr>i_op2 := r\<rparr>)
       else Fold_Next)"
proof (rule const_rhs_rule [OF assms], simp add: key_simps, goal_cases)
  case (1 h ctx \<rho> a v x y z op t1 v1 t2)
  have t2: "arith_type t2" "t2 \<noteq> IR_ADDR" using 1(17) by auto
  note s = 1(18) [unfolded 1(1) [unfolded singleton_iff]]
  note i = int_div [OF s _ t2(1), simplified]
  have one: "step_ok h ctx \<rho> a v (IR_FOLD_CONST_U 0)" if "i_val y = 1"
  proof (rule const0_ok [OF i(1)])
    have "cv t2 1 = 1" using cv_one [of t2] t2 by (auto simp: arith_type_iff)
    then show "v = wrap (i_type a) 0" using i(7) num_one [OF i(1)] that by (simp add: sdiv_one)
  qed
  have un: "IR_IS_TYPE_UNSIGNED (i_type a) \<Longrightarrow> \<not> IR_IS_TYPE_SIGNED (i_type a)" by (cases "i_type a") (simp_all add: ir_defs)
  note pow = power_ok(2) [OF 1(2) s 1(10) t2 1(9) _ 1(15) _ refl]
  show ?case unfolding val_i64_eq by (intro step_ok_if step_ok_simps(1) one pow) (use un 1(11,13) in auto)
qed

lemma mul_neg_neg: "sound_rule ([(IR_MUL, IR_NEG, IR_NEG), (IR_DIV, IR_NEG, IR_NEG)],
     \<lambda>h ctx a x y z. Fold_Restart ctx (a\<lparr>i_op1 := i_op1 x, i_op2 := i_op1 y\<rparr>))"
  unfolding sound_rule_Cons
proof
  show "sound_rule ([(IR_MUL, IR_NEG, IR_NEG)], \<lambda>h ctx a x y z. Fold_Restart ctx (a\<lparr>i_op1 := i_op1 x, i_op2 := i_op1 y\<rparr>))"
    by (rule addsub_rule [where o' = IR_MUL and k = IR_NEG and k' = IR_NEG])
      (simp, simp, auto simp: inner_simps dest!: int_inners, rule restart_binI, auto simp: inner_int)
  show "sound_rule ([(IR_DIV, IR_NEG, IR_NEG)], \<lambda>h ctx a x y z. Fold_Restart ctx (a\<lparr>i_op1 := i_op1 x, i_op2 := i_op1 y\<rparr>))"
    by (rule sound_ruleI) (auto simp: fold_excluded_def excl_arith_def)
qed

lemma sound_muldiv: "list_all sound_rule fold_rules_muldiv"
  unfolding fold_rules_muldiv_def list.pred_inject
  by (intro conjI mul_neg_const no_fp_rule mul_unsigned_rule mul_signed_rule div_unsigned_rule div_signed_rule mod_rule mul_neg_neg)
    (simp_all add: rule_simps fp_types)
end
