(* ===== verification/Sound_Bitops.thy ===== *)
theory Sound_Bitops
  imports Sound_Mul
begin

text \<open>Bitwise operations, shifts and rotations with trivial constants; absolute values and zero.\<close>

section \<open>Masks\<close>

lemma fits_mask:
  assumes "fits n v"
  shows "v AND mask n = v" "v OR mask n = mask n" "v XOR mask n = take_bit n (NOT (v :: int))"
proof -
  have nb: "bit v i \<Longrightarrow> i < n" for i using assms not_le by (auto simp: fits_bit)
  show "v AND mask n = v" "v OR mask n = mask n" "v XOR mask n = take_bit n (NOT v)"
    using nb by (auto intro!: bit_eqI simp: bit_simps)
qed

lemma sval_mask:
  assumes "fits n v" "0 < n"
  shows "sval n v = 0 \<longleftrightarrow> v = 0" "sval n v = -1 \<longleftrightarrow> v = mask n"
proof -
  have tb: "take_bit n v = v" using assms(1) by (simp add: fits_iff_take_bit)
  have "sval n v = sval n 0 \<longleftrightarrow> v = 0" using sval_eq_iff [OF assms(2), of v 0] tb by simp
  then show "sval n v = 0 \<longleftrightarrow> v = 0" using assms(2) by simp
  have "sval n v = sval n (-1) \<longleftrightarrow> v = take_bit n (-1)" using sval_eq_iff [OF assms(2), of v "-1"] tb by simp
  moreover have "sval n (-1) = -1" by (simp add: sval_def)
  ultimately show "sval n v = -1 \<longleftrightarrow> v = mask n" by (simp add: take_bit_minus_one_eq_mask)
qed

text \<open>The signed view of a constant tests for all zeros and all ones.\<close>

lemma val_i_mask:
  "t \<in> {IR_U8, IR_I8, IR_CHAR} \<Longrightarrow> (val_i8 w = 0 \<longleftrightarrow> cv t w = 0) \<and> (val_i8 w = -1 \<longleftrightarrow> cv t w = mask (type_bits t))"
  "t \<in> {IR_U16, IR_I16} \<Longrightarrow> (val_i16 w = 0 \<longleftrightarrow> cv t w = 0) \<and> (val_i16 w = -1 \<longleftrightarrow> cv t w = mask (type_bits t))"
  "t \<in> {IR_U32, IR_I32} \<Longrightarrow> (val_i32 w = 0 \<longleftrightarrow> cv t w = 0) \<and> (val_i32 w = -1 \<longleftrightarrow> cv t w = mask (type_bits t))"
  "t \<in> {IR_U64, IR_I64} \<Longrightarrow> (val_i64 w = 0 \<longleftrightarrow> cv t w = 0) \<and> (val_i64 w = -1 \<longleftrightarrow> cv t w = mask (type_bits t))"
proof -
  have "fits 8 (val_u8 w)" "fits 16 (val_u16 w)" "fits 32 (val_u32 w)" "fits 64 (val_u64 w)"
    by (simp_all add: fits_iff_take_bit)
  note m = sval_mask [OF this(1)] sval_mask [OF this(2)] sval_mask [OF this(3)] sval_mask [OF this(4)]
  show "t \<in> {IR_U8, IR_I8, IR_CHAR} \<Longrightarrow> (val_i8 w = 0 \<longleftrightarrow> cv t w = 0) \<and> (val_i8 w = -1 \<longleftrightarrow> cv t w = mask (type_bits t))"
    "t \<in> {IR_U16, IR_I16} \<Longrightarrow> (val_i16 w = 0 \<longleftrightarrow> cv t w = 0) \<and> (val_i16 w = -1 \<longleftrightarrow> cv t w = mask (type_bits t))"
    "t \<in> {IR_U32, IR_I32} \<Longrightarrow> (val_i32 w = 0 \<longleftrightarrow> cv t w = 0) \<and> (val_i32 w = -1 \<longleftrightarrow> cv t w = mask (type_bits t))"
    "t \<in> {IR_U64, IR_I64} \<Longrightarrow> (val_i64 w = 0 \<longleftrightarrow> cv t w = 0) \<and> (val_i64 w = -1 \<longleftrightarrow> cv t w = mask (type_bits t))"
    by (elim insertE; simp add: cv_simps val_i_sval m)+
qed

section \<open>Bitwise operations with a constant\<close>

lemma bits_const:
  assumes site: "fold_site h ctx \<rho> a v" and d: "den ctx \<rho> (i_op1 a) = Some (t1, v1)" "okval t1 v1"
    "den ctx \<rho> (i_op2 a) = Some (t2, c)" and sem: "sem_bin h op (i_type a) t1 t2 v1 c = Some v" and t2: "arith_type t2"
  shows "op = IR_AND \<Longrightarrow> c = 0 \<Longrightarrow> step_ok h ctx \<rho> a v (Fold_Copy (i_op2 a))"
    "op = IR_AND \<Longrightarrow> c = mask (type_bits t2) \<Longrightarrow> step_ok h ctx \<rho> a v (Fold_Copy (i_op1 a))"
    "op = IR_OR \<Longrightarrow> c = 0 \<Longrightarrow> step_ok h ctx \<rho> a v (Fold_Copy (i_op1 a))"
    "op = IR_OR \<Longrightarrow> c = mask (type_bits t2) \<Longrightarrow> step_ok h ctx \<rho> a v (Fold_Copy (i_op2 a))"
    "op = IR_XOR \<Longrightarrow> c = 0 \<Longrightarrow> step_ok h ctx \<rho> a v (Fold_Copy (i_op1 a))"
    "op = IR_XOR \<Longrightarrow> c = mask (type_bits t2) \<Longrightarrow> step_ok h ctx \<rho> a v (fold_to_unary ctx a IR_NOT (i_op1 a))"
proof -
  have f: "fits (type_bits t1) v1" by (rule okval_fits [OF d(2)])
  have co: "compat t1 (i_type a) \<and> type_bits t1 = type_bits t2 \<and> compat t2 (i_type a) \<and> arith_type (i_type a) \<and> type_bits (i_type a) = type_bits t2"
    if "op \<in> {IR_AND, IR_OR, IR_XOR}"
    using that sem t2 compat_bits [of t1 "i_type a"] compat_bits [of t2 "i_type a"] compat_arith_iff [of t2 "i_type a"]
    by (elim insertE) (auto simp: sem_bin_simps sem_bits_Some)
  show "op = IR_AND \<Longrightarrow> c = 0 \<Longrightarrow> step_ok h ctx \<rho> a v (Fold_Copy (i_op2 a))"
    "op = IR_AND \<Longrightarrow> c = mask (type_bits t2) \<Longrightarrow> step_ok h ctx \<rho> a v (Fold_Copy (i_op1 a))"
    "op = IR_OR \<Longrightarrow> c = 0 \<Longrightarrow> step_ok h ctx \<rho> a v (Fold_Copy (i_op1 a))"
    "op = IR_OR \<Longrightarrow> c = mask (type_bits t2) \<Longrightarrow> step_ok h ctx \<rho> a v (Fold_Copy (i_op2 a))"
    "op = IR_XOR \<Longrightarrow> c = 0 \<Longrightarrow> step_ok h ctx \<rho> a v (Fold_Copy (i_op1 a))"
    using d sem co f fits_mask [of "type_bits t2" v1] by (auto simp: copy_ok_def sem_bin_simps sem_bits_Some)
  show "step_ok h ctx \<rho> a v (fold_to_unary ctx a IR_NOT (i_op1 a))" if "op = IR_XOR" "c = mask (type_bits t2)"
  proof (rule to_unary_ok [OF site d(1)])
    show "unary_op IR_NOT" by (simp add: key_simps)
    have "i_type a \<noteq> IR_BOOL" using co that by (auto simp: arith_type_iff)
    then show "sem_un h IR_NOT (i_type a) t1 v1 = Some v"
      using co that sem f fits_mask(3) [of "type_bits t2" v1] by (auto simp: sem_bin_simps sem_bits_Some sem_un_simps wrap_def)
  qed
qed

lemma and_or_rules:
  assumes "\<forall>(op, k1, k2)\<in>set ks. op \<in> {o'} \<and> k1 = ANY \<and> IR_IS_CONST_OP k2 \<and> const_type k2 \<in> T" "\<forall>t\<in>T. arith_type t"
    "\<forall>t\<in>T. \<forall>w. (val w = (0::int) \<longleftrightarrow> cv t w = 0) \<and> (val w = -1 \<longleftrightarrow> cv t w = mask (type_bits t))"
  shows "o' = IR_AND \<Longrightarrow> sound_rule (ks, \<lambda>h ctx a x y z. if val (i_val y) = 0 then Fold_Copy (i_op2 a)
       else if val (i_val y) = -1 then Fold_Copy (i_op1 a) else Fold_Next)"
    "o' = IR_OR \<Longrightarrow> sound_rule (ks, \<lambda>h ctx a x y z. if val (i_val y) = -1 then Fold_Copy (i_op2 a)
       else if val (i_val y) = 0 then Fold_Copy (i_op1 a) else Fold_Next)"
    "o' = IR_XOR \<Longrightarrow> sound_rule (ks, \<lambda>h ctx a x y z. if val (i_val y) = 0 then Fold_Copy (i_op1 a)
       else if val (i_val y) = -1 then fold_to_unary ctx a IR_NOT (i_op1 a) else Fold_Next)"
proof -
  note r = const_rhs_rule [where Q = "\<lambda>t. t \<in> T", OF assms(1)]
  show "sound_rule (ks, \<lambda>h ctx a x y z. if val (i_val y) = 0 then Fold_Copy (i_op2 a)
       else if val (i_val y) = -1 then Fold_Copy (i_op1 a) else Fold_Next)" if o': "o' = IR_AND"
  proof (rule r, simp add: key_simps o', goal_cases)
    case (1 h ctx \<rho> a v x y z op t1 v1 t2)
    have t2: "arith_type t2" and m: "val (i_val y) = 0 \<longleftrightarrow> cv t2 (i_val y) = 0" "val (i_val y) = -1 \<longleftrightarrow> cv t2 (i_val y) = mask (type_bits t2)"
      and op: "op = IR_AND" using 1(1,17) assms(2,3) o' by auto
    note b = bits_const(1,2) [OF 1(2) 1(9,10,14) 1(18) t2 op]
    show ?case unfolding m by (intro step_ok_if step_ok_simps(1) b)
  qed
  show "sound_rule (ks, \<lambda>h ctx a x y z. if val (i_val y) = -1 then Fold_Copy (i_op2 a)
       else if val (i_val y) = 0 then Fold_Copy (i_op1 a) else Fold_Next)" if o': "o' = IR_OR"
  proof (rule r, simp add: key_simps o', goal_cases)
    case (1 h ctx \<rho> a v x y z op t1 v1 t2)
    have t2: "arith_type t2" and m: "val (i_val y) = 0 \<longleftrightarrow> cv t2 (i_val y) = 0" "val (i_val y) = -1 \<longleftrightarrow> cv t2 (i_val y) = mask (type_bits t2)"
      and op: "op = IR_OR" using 1(1,17) assms(2,3) o' by auto
    note b = bits_const(3,4) [OF 1(2) 1(9,10,14) 1(18) t2 op]
    show ?case unfolding m by (intro step_ok_if step_ok_simps(1) b)
  qed
  show "sound_rule (ks, \<lambda>h ctx a x y z. if val (i_val y) = 0 then Fold_Copy (i_op1 a)
       else if val (i_val y) = -1 then fold_to_unary ctx a IR_NOT (i_op1 a) else Fold_Next)" if o': "o' = IR_XOR"
  proof (rule r, simp add: key_simps o', goal_cases)
    case (1 h ctx \<rho> a v x y z op t1 v1 t2)
    have t2: "arith_type t2" and m: "val (i_val y) = 0 \<longleftrightarrow> cv t2 (i_val y) = 0" "val (i_val y) = -1 \<longleftrightarrow> cv t2 (i_val y) = mask (type_bits t2)"
      and op: "op = IR_XOR" using 1(1,17) assms(2,3) o' by auto
    note b = bits_const(5,6) [OF 1(2) 1(9,10,14) 1(18) t2 op]
    show ?case unfolding m by (intro step_ok_if step_ok_simps(1) b)
  qed
qed


lemma bool_const_ok:
  assumes site: "fold_site h ctx \<rho> a v" and d: "den ctx \<rho> (i_op1 a) = Some (t1, v1)" "okval t1 v1"
    "den ctx \<rho> (i_op2 a) = Some (IR_BOOL, cv IR_BOOL w)" and sem: "sem_bin h op (i_type a) t1 IR_BOOL v1 (cv IR_BOOL w) = Some v"
    and w: "canonical IR_BOOL w"
  shows "op = IR_AND \<Longrightarrow> step_ok h ctx \<rho> a v (Fold_Copy (if val_b w then i_op1 a else i_op2 a))"
    "op = IR_OR \<Longrightarrow> step_ok h ctx \<rho> a v (Fold_Copy (if val_b w then i_op2 a else i_op1 a))"
    "op = IR_XOR \<Longrightarrow> step_ok h ctx \<rho> a v (if \<not> val_b w then Fold_Copy (i_op1 a) else fold_to_unary ctx a IR_NOT (i_op1 a))"
proof -
  have b: "val_b w \<longleftrightarrow> cv IR_BOOL w = 1" "cv IR_BOOL w = 0 \<or> cv IR_BOOL w = 1"
    using val_b_canonical [OF w] by (auto simp: cv_def)
  have t: "op \<in> {IR_AND, IR_OR, IR_XOR} \<Longrightarrow> i_type a = IR_BOOL \<and> t1 = IR_BOOL"
    using sem by (elim insertE) (auto simp: sem_bin_simps sem_bits_Some compat_def wide_def)
  have v1: "op \<in> {IR_AND, IR_OR, IR_XOR} \<Longrightarrow> v1 = 0 \<or> v1 = 1" using t d(2) by (auto simp: okval_def)
  show "op = IR_AND \<Longrightarrow> step_ok h ctx \<rho> a v (Fold_Copy (if val_b w then i_op1 a else i_op2 a))"
    "op = IR_OR \<Longrightarrow> step_ok h ctx \<rho> a v (Fold_Copy (if val_b w then i_op2 a else i_op1 a))"
    "op = IR_XOR \<Longrightarrow> step_ok h ctx \<rho> a v (if \<not> val_b w then Fold_Copy (i_op1 a) else fold_to_unary ctx a IR_NOT (i_op1 a))"
    using b(2) t v1 d sem site unfolding b(1)
    by (auto simp: copy_ok_def sem_bin_simps sem_bits_Some sem_un_simps key_simps intro!: to_unary_ok)
qed

lemma bool_rule:
  assumes body: "\<And>h ctx \<rho> a v y t1 v1. fold_site h ctx \<rho> a v \<Longrightarrow> den ctx \<rho> (i_op1 a) = Some (t1, v1) \<Longrightarrow> okval t1 v1 \<Longrightarrow>
     den ctx \<rho> (i_op2 a) = Some (IR_BOOL, cv IR_BOOL (i_val y)) \<Longrightarrow> canonical IR_BOOL (i_val y) \<Longrightarrow>
     sem_bin h op (i_type a) t1 IR_BOOL v1 (cv IR_BOOL (i_val y)) = Some v \<Longrightarrow> step_ok h ctx \<rho> a v (b ctx a y)" and op: "binary_op op"
  shows "sound_rule ([(op, ANY, IR_C_BOOL)], \<lambda>h ctx a x y z. b ctx a y)"
  by (rule const_rhs_rule [where ops = "{op}" and k = ANY and Q = "\<lambda>t. t = IR_BOOL"])
    (simp add: key_simps, simp add: op, auto intro: body)

lemma sound_and_or: "list_all sound_rule fold_rules_and_or"
  unfolding fold_rules_and_or_def list.pred_inject
  apply (intro conjI)
  subgoal by (rule bool_rule, rule bool_const_ok(1) [OF _ _ _ _ _ _ refl], assumption+, simp add: key_simps)
  subgoal by (rule and_or_rules(1) [where T = "{IR_U8, IR_I8, IR_CHAR}" and o' = IR_AND]) (auto simp: val_i_mask rule_simps)
  subgoal by (rule and_or_rules(1) [where T = "{IR_U16, IR_I16}" and o' = IR_AND]) (auto simp: val_i_mask rule_simps)
  subgoal by (rule and_or_rules(1) [where T = "{IR_U32, IR_I32}" and o' = IR_AND]) (auto simp: val_i_mask rule_simps)
  subgoal by (rule and_or_rules(1) [where T = "{IR_U64, IR_I64}" and o' = IR_AND]) (auto simp: val_i_mask rule_simps)
  subgoal by (rule bool_rule, rule bool_const_ok(2) [OF _ _ _ _ _ _ refl], assumption+, simp add: key_simps)
  subgoal by (rule and_or_rules(2) [where T = "{IR_U8, IR_I8, IR_CHAR}" and o' = IR_OR]) (auto simp: val_i_mask rule_simps)
  subgoal by (rule and_or_rules(2) [where T = "{IR_U16, IR_I16}" and o' = IR_OR]) (auto simp: val_i_mask rule_simps)
  subgoal by (rule and_or_rules(2) [where T = "{IR_U32, IR_I32}" and o' = IR_OR]) (auto simp: val_i_mask rule_simps)
  subgoal by (rule and_or_rules(2) [where T = "{IR_U64, IR_I64}" and o' = IR_OR]) (auto simp: val_i_mask rule_simps)
  by simp

lemma sound_xor: "list_all sound_rule fold_rules_xor"
  unfolding fold_rules_xor_def list.pred_inject
  apply (intro conjI)
  subgoal by (rule bool_rule, rule bool_const_ok(3) [OF _ _ _ _ _ _ refl], assumption+, simp add: key_simps)
  subgoal by (rule and_or_rules(3) [where T = "{IR_U8, IR_I8, IR_CHAR}" and o' = IR_XOR]) (auto simp: val_i_mask rule_simps)
  subgoal by (rule and_or_rules(3) [where T = "{IR_U16, IR_I16}" and o' = IR_XOR]) (auto simp: val_i_mask rule_simps)
  subgoal by (rule and_or_rules(3) [where T = "{IR_U32, IR_I32}" and o' = IR_XOR]) (auto simp: val_i_mask rule_simps)
  subgoal by (rule and_or_rules(3) [where T = "{IR_U64, IR_I64}" and o' = IR_XOR]) (auto simp: val_i_mask rule_simps)
  by simp


section \<open>Shifts\<close>

lemma shift_Some:
  "sem_bin h IR_SHL t t1 t2 v1 v2 = Some v \<longleftrightarrow> shift_ok t t1 t2 v2 \<and> v = wrap t (push_bit (nat v2) v1)"
  "sem_bin h IR_SHR t t1 t2 v1 v2 = Some v \<longleftrightarrow> shift_ok t t1 t2 v2 \<and> v = drop_bit (nat v2) v1"
  "sem_bin h IR_SAR t t1 t2 v1 v2 = Some v \<longleftrightarrow> shift_ok t t1 t2 v2 \<and> v = wrap t (drop_bit (nat v2) (sval (type_bits t) v1))"
  "sem_bin h IR_ROL t t1 t2 v1 v2 = Some v \<longleftrightarrow> shift_ok t t1 t2 v2 \<and> v = rol_val (type_bits t) (nat v2) v1"
  "sem_bin h IR_ROR t t1 t2 v1 v2 = Some v \<longleftrightarrow> shift_ok t t1 t2 v2 \<and> v = ror_val (type_bits t) (nat v2) v1"
  by (auto simp: sem_bin_simps)

lemma shift_op:
  assumes "sem_bin h op t t1 t2 v1 v2 = Some v" "op \<in> {IR_SHL, IR_SHR, IR_SAR, IR_ROL, IR_ROR}"
  shows "arith_type t" "compat t1 t" "arith_type t2" "v2 < int (type_bits t)"
  using assms(2,1) by (elim insertE; simp add: shift_Some shift_ok_def)+

lemma rot_zero:
  assumes "fits n v"
  shows "rol_val n 0 v = v" "ror_val n 0 v = v"
  using assms take_bit_fits [OF assms] by (auto simp: rol_val_def ror_val_def fits_def drop_bit_eq_div take_bit_push_bit)

lemma shift_zero:
  assumes "sem_bin h op t t1 t2 v1 0 = Some v" "op \<in> {IR_SHL, IR_SHR, IR_SAR, IR_ROL, IR_ROR}" "okval t1 v1"
  shows "v = v1"
proof -
  note s = shift_op [OF assms(1,2)]
  have f: "fits (type_bits t) v1" using okval_fits [OF assms(3)] compat_bits [OF s(2)] by simp
  have n: "0 < type_bits t" using s(1) by (auto simp: arith_type_iff)
  show ?thesis
    using assms(2,1) rot_zero [OF f] take_bit_fits [OF f] n by (elim insertE) (simp_all add: shift_Some wrap_def)
qed

text \<open>A pattern of equal bits stays as it is.\<close>

lemma drop_bit_mask_or: "k \<le> n \<Longrightarrow> drop_bit k (mask n) OR take_bit n (push_bit (n - k) (mask n)) = (mask n :: int)"
  by (rule bit_eqI) (auto simp: bit_simps)

lemma rot_mask: "k \<le> n \<Longrightarrow> rol_val n k (mask n) = mask n" "k \<le> n \<Longrightarrow> ror_val n k (mask n) = mask n"
  "rol_val n k 0 = 0" "ror_val n k 0 = 0"
  by (auto simp: rol_val_def ror_val_def drop_bit_mask_or intro!: bit_eqI simp: bit_simps)

lemma shift_equal_bits:
  assumes "sem_bin h op t t1 t2 c v2 = Some v" "op \<in> {IR_SAR, IR_ROL, IR_ROR}" "c = 0 \<or> c = mask (type_bits t1)" "0 \<le> v2"
  shows "v = c"
proof -
  have "op \<in> {IR_SHL, IR_SHR, IR_SAR, IR_ROL, IR_ROR}" using assms(2) by auto
  note s = shift_op [OF assms(1) this]
  have n: "0 < type_bits t" using s(1) by (auto simp: arith_type_iff)
  have b: "type_bits t1 = type_bits t" by (rule compat_bits [OF s(2)])
  have k: "nat v2 \<le> type_bits t" using s(4) assms(4) by linarith
  have "sval (type_bits t) (mask (type_bits t)) = -1"
    using sval_mask(2) [of "type_bits t" "mask (type_bits t)"] n by (simp add: fits_iff_take_bit take_bit_of_mask)
  then show ?thesis
    using assms(1-3) rot_mask(1,2) [OF k] rot_mask(3,4) b n
    by (elim insertE) (auto simp: shift_Some wrap_def take_bit_minus_one_eq_mask drop_bit_minus_one)
qed

lemma shl_zero: "sem_bin h op t t1 t2 0 v2 = Some v \<Longrightarrow> op \<in> {IR_SHL, IR_SHR} \<Longrightarrow> v = 0"
  by (auto simp: shift_Some wrap_def)

lemma shl_one: "sem_bin h IR_SHL t t1 t2 v1 1 = Some v \<Longrightarrow> sem_bin h IR_ADD t t1 t1 v1 v1 = Some v"
  by (auto simp: shift_Some shift_ok_def int_arith_simps push_bit_eq_mult mult.commute)

section \<open>Absolute values compared with zero\<close>

lemma abs_nonneg:
  assumes "sem_un h IR_ABS t s i = Some v1"
  shows "IR_IS_TYPE_SIGNED t \<Longrightarrow> 0 \<le> num t v1" "IR_IS_TYPE_FP t \<Longrightarrow> \<not> fp_lt t v1 0"
proof -
  show "IR_IS_TYPE_SIGNED t \<Longrightarrow> 0 \<le> num t v1"
    using assms num_abs [of t i] signed_not_fp [of t] by (auto simp: sem_abs_Some)
  have "0 \<le> fp_key t (fp_abs t i)" by (simp add: fp_key_def fp_abs_def fp_mag_def bit_unset_bit_iff)
  moreover have "fp_key t 0 = 0" by (simp add: fp_key_def fp_mag_def)
  ultimately show "IR_IS_TYPE_FP t \<Longrightarrow> \<not> fp_lt t v1 0"
    using assms signed_not_fp [of t] by (auto simp: sem_abs_Some fp_lt_def)
qed

lemma num_zero: "num t 0 = 0"
  by (cases t) (simp_all add: num_def signed_types)

lemma abs_rule:
  assumes "\<forall>(op, k1, k2)\<in>set ks. op \<in> {o'} \<and> k1 = IR_ABS \<and> IR_IS_CONST_OP k2 \<and> (IR_IS_TYPE_SIGNED (const_type k2) \<or> IR_IS_TYPE_FP (const_type k2))"
  shows "o' = IR_LT \<Longrightarrow> sound_rule (ks, \<lambda>h ctx a x y z. if i_val y = 0 then Fold_Copy IR_FALSE else Fold_Next)"
    "o' = IR_GE \<Longrightarrow> sound_rule (ks, \<lambda>h ctx a x y z. if i_val y = 0 then Fold_Copy IR_TRUE else Fold_Next)"
proof -
  note r = const_rhs_rule [where Q = "\<lambda>t. IR_IS_TYPE_SIGNED t \<or> IR_IS_TYPE_FP t", OF assms]
  show "sound_rule (ks, \<lambda>h ctx a x y z. if i_val y = 0 then Fold_Copy IR_FALSE else Fold_Next)" if o': "o' = IR_LT"
  proof (rule r, simp add: key_simps o', goal_cases)
    case (1 h ctx \<rho> a v x y z op t1 v1 t2)
    obtain s i where "sem_un h IR_ABS t1 s i = Some v1" using 1(7,11,13) by (auto simp: inner_simps)
    note ab = abs_nonneg [OF this]
    have "i_type a = IR_BOOL \<and> v = 0" if "i_val y = 0"
      using 1(1,17,18) that o' ab signed_not_fp [of t2] by (auto simp: sem_bin_simps sem_ord_Some num_zero int_type_iff fp_types)
    then show ?case using copy_boolI(2) [OF 1(2)] by auto
  qed
  show "sound_rule (ks, \<lambda>h ctx a x y z. if i_val y = 0 then Fold_Copy IR_TRUE else Fold_Next)" if o': "o' = IR_GE"
  proof (rule r, simp add: key_simps o', goal_cases)
    case (1 h ctx \<rho> a v x y z op t1 v1 t2)
    obtain s i where "sem_un h IR_ABS t1 s i = Some v1" using 1(7,11,13) by (auto simp: inner_simps)
    note ab = abs_nonneg [OF this]
    have "\<not> IR_IS_TYPE_FP t1" using 1(1,3-7,11) o' by (auto simp: fold_excluded_def excl_cmp_def Let_def)
    then have "i_type a = IR_BOOL \<and> v = 1" if "i_val y = 0"
      using 1(1,17,18) that o' ab by (auto simp: sem_bin_simps sem_ord_Some num_zero)
    then show ?case using copy_boolI(1) [OF 1(2)] by auto
  qed
qed

section \<open>The rules\<close>

lemma shl_const_rule:
  assumes "\<forall>(op, k1, k2)\<in>set ks. op \<in> {IR_SHL} \<and> k1 = ANY \<and> IR_IS_CONST_OP k2 \<and> arith_type (const_type k2)"
  shows "sound_rule (ks, \<lambda>h ctx a x y z. if i_val y = 0 then Fold_Copy (i_op1 a)
       else if i_val y = 1 then Fold_Restart ctx ((set_opt IR_ADD (i_type a) a)\<lparr>i_op2 := i_op1 a\<rparr>) else Fold_Next)"
proof (rule const_rhs_rule [OF assms], simp add: key_simps, goal_cases)
  case (1 h ctx \<rho> a v x y z op t1 v1 t2)
  have op: "op \<in> {IR_SHL, IR_SHR, IR_SAR, IR_ROL, IR_ROR}" "op = IR_SHL" using 1(1) by auto
  note s = shift_op [OF 1(18) op(1)]
  have zero: "step_ok h ctx \<rho> a v (Fold_Copy (i_op1 a))" if "i_val y = 0"
    using shift_zero [OF _ op(1) 1(10), of h "i_type a" t2 v] 1(9,18) that s(2) by (auto simp: copy_ok_def)
  have "cv t2 1 = 1" using cv_one [of t2] s(3) by (auto simp: arith_type_iff)
  then have one: "step_ok h ctx \<rho> a v (Fold_Restart ctx ((set_opt IR_ADD (i_type a) a)\<lparr>i_op2 := i_op1 a\<rparr>))" if "i_val y = 1"
    using 1(2,9,18) op that by (auto intro!: restart_binI [where h = h] dest: shl_one simp: set_opt_def key_simps)
  show ?case by (intro step_ok_if step_ok_simps(1) zero one)
qed

lemma shr_const_rule:
  assumes "\<forall>(op, k1, k2)\<in>set ks. op \<in> {IR_SHR, IR_SAR, IR_ROL, IR_ROR} \<and> k1 = ANY \<and> IR_IS_CONST_OP k2 \<and> arith_type (const_type k2)"
  shows "sound_rule (ks, \<lambda>h ctx a x y z. if i_val y = 0 then Fold_Copy (i_op1 a) else Fold_Next)"
proof (rule const_rhs_rule [OF assms], simp add: key_simps, goal_cases)
  case (1 h ctx \<rho> a v x y z op t1 v1 t2)
  have op: "op \<in> {IR_SHL, IR_SHR, IR_SAR, IR_ROL, IR_ROR}" using 1(1) by auto
  note s = shift_op [OF 1(18) op]
  have "v = v1" if "i_val y = 0" using shift_zero [OF _ op 1(10), of h "i_type a" t2 v] 1(18) that by simp
  then show ?case using 1(9) s(2) by (auto simp: copy_ok_def)
qed

lemma const_shift_rule:
  assumes "\<forall>(op, k1, k2)\<in>set ks. op \<in> {IR_SHL, IR_SHR} \<and> IR_IS_CONST_OP k1 \<and> arith_type (const_type k1) \<and> k2 = ANY"
  shows "sound_rule (ks, \<lambda>h ctx a x y z. if i_val x = 0 then Fold_Copy (i_op1 a) else Fold_Next)"
proof (rule const_lhs_rule [OF assms], simp add: key_simps, goal_cases)
  case (1 h ctx \<rho> a v x y z op t1 t2 v2)
  have op: "op \<in> {IR_SHL, IR_SHR, IR_SAR, IR_ROL, IR_ROR}" using 1(1) by auto
  note s = shift_op [OF 1(18) op]
  show ?case using shl_zero [OF _ 1(1)] 1(9,18) s(2) by (auto simp: copy_ok_def)
qed

lemma const_rot_rule:
  assumes "\<forall>(op, k1, k2)\<in>set ks. op \<in> {IR_SAR, IR_ROL, IR_ROR} \<and> IR_IS_CONST_OP k1 \<and> const_type k1 \<in> T \<and> k2 = ANY"
    "\<forall>t\<in>T. \<forall>w. (val w = (0::int) \<longleftrightarrow> cv t w = 0) \<and> (val w = -1 \<longleftrightarrow> cv t w = mask (type_bits t))"
  shows "sound_rule (ks, \<lambda>h ctx a x y z. if val (i_val x) = 0 \<or> val (i_val x) = -1 then Fold_Copy (i_op1 a) else Fold_Next)"
proof (rule const_lhs_rule [where Q = "\<lambda>t. t \<in> T", OF assms(1)], simp add: key_simps, goal_cases)
  case (1 h ctx \<rho> a v x y z op t1 t2 v2)
  have op: "op \<in> {IR_SHL, IR_SHR, IR_SAR, IR_ROL, IR_ROR}" using 1(1) by auto
  note s = shift_op [OF 1(18) op]
  have m: "val (i_val x) = 0 \<longleftrightarrow> cv t1 (i_val x) = 0" "val (i_val x) = -1 \<longleftrightarrow> cv t1 (i_val x) = mask (type_bits t1)"
    using 1(12) assms(2) by auto
  have "0 \<le> v2" using okval_fits [OF 1(14)] by (simp add: fits_def)
  then show ?case unfolding m using shift_equal_bits [OF 1(18,1)] 1(9) s(2) by (auto simp: copy_ok_def)
qed

lemma sound_shift_zero: "list_all sound_rule fold_rules_shift_zero"
  unfolding fold_rules_shift_zero_def list.pred_inject
  apply (intro conjI)
  subgoal by (rule shl_const_rule) (simp add: rule_simps)
  subgoal by (rule shr_const_rule) (simp add: rule_simps)
  subgoal by (rule const_shift_rule) (simp add: rule_simps)
  subgoal by (rule const_rot_rule [where T = "{IR_U8, IR_I8, IR_CHAR}"]) (auto simp: val_i_mask key_simps)
  subgoal by (rule const_rot_rule [where T = "{IR_U16, IR_I16}"]) (auto simp: val_i_mask key_simps)
  subgoal by (rule const_rot_rule [where T = "{IR_U32, IR_I32}"]) (auto simp: val_i_mask key_simps)
  subgoal by (rule const_rot_rule [where T = "{IR_U64, IR_I64}"]) (auto simp: val_i_mask key_simps)
  subgoal by (rule abs_rule(1) [OF _ refl]) (simp add: key_simps signed_types fp_types)
  subgoal by (rule abs_rule(2) [OF _ refl]) (simp add: key_simps signed_types fp_types)
  by simp

end
