(* ===== verification/Sound_Conv.thy ===== *)
theory Sound_Conv
  imports Sound_Bitops
begin

text \<open>Comparisons of extended values and conversions of conversions.\<close>

section \<open>Comparisons of two extended values\<close>

lemma gap_order:
  fixes p :: int
  assumes "p < q"
  shows "(if w < k then w else w + q - p) < (if w' < k then w' else w' + q - p) \<longleftrightarrow> w < w'"
    "(if w < k then w else w + q - p) = (if w' < k then w' else w' + q - p) \<longleftrightarrow> w = w'"
  using assms by auto

lemma sext_less:
  assumes "0 < n" "n < m" "fits n w" "fits n w'"
  shows "take_bit m (sval n w) < take_bit m (sval n w') \<longleftrightarrow> w < w'" "take_bit m (sval n w) \<le> take_bit m (sval n w') \<longleftrightarrow> w \<le> w'"
    "take_bit m (sval n w) = take_bit m (sval n w') \<longleftrightarrow> w = w'"
proof -
  have p: "(2::int) ^ n < 2 ^ m" using assms(2) by simp
  note c = sext_cases [OF assms(1,2)]
  show l: "take_bit m (sval n w) < take_bit m (sval n w') \<longleftrightarrow> w < w'"
    unfolding c [OF assms(3)] c [OF assms(4)] by (rule gap_order(1) [OF p])
  show e: "take_bit m (sval n w) = take_bit m (sval n w') \<longleftrightarrow> w = w'"
    unfolding c [OF assms(3)] c [OF assms(4)] by (rule gap_order(2) [OF p])
  show "take_bit m (sval n w) \<le> take_bit m (sval n w') \<longleftrightarrow> w \<le> w'" unfolding order_le_less l e ..
qed

lemma int_size: "int_type s \<Longrightarrow> 0 < ir_type_size s" "int_type s \<Longrightarrow> 0 < type_bits s"
  by (cases s; simp add: int_type_iff)+

lemma ext_arith: "sem_un h e t s w = Some v \<Longrightarrow> e = IR_ZEXT \<or> e = IR_SEXT \<Longrightarrow> arith_type t \<and> int_type s \<and> type_bits s < type_bits t"
  using int_size [of s] by (auto simp: sem_un_simps arith_type_def type_bits_def split: if_splits)

lemma cmp_ext_ok:
  assumes x: "sem_un h e t1 s w1 = Some v1" "sem_un h e t2 s w2 = Some v2" "okval s w1" "okval s w2"
    and sem: "sem_bin h op t t1 t2 v1 v2 = Some v"
    and e: "e = IR_ZEXT \<and> op \<in> {IR_EQ, IR_NE, IR_ULT, IR_UGE, IR_ULE, IR_UGT} \<or>
      e = IR_SEXT \<and> op \<in> {IR_EQ, IR_NE, IR_LT, IR_GE, IR_LE, IR_GT} \<and> (is_signed_cmp op \<longrightarrow> IR_IS_TYPE_SIGNED t1 = IR_IS_TYPE_SIGNED s)"
  shows "sem_bin h op t s s w1 w2 = Some v"
  using e
proof
  assume z: "e = IR_ZEXT \<and> op \<in> {IR_EQ, IR_NE, IR_ULT, IR_UGE, IR_ULE, IR_UGT}"
  have ty: "v1 = w1" "v2 = w2" using x(1,2) z by (auto simp: sem_un_simps split: if_splits)
  have i: "int_type s" "\<not> IR_IS_TYPE_FP s" "int_type t1" "\<not> IR_IS_TYPE_FP t1"
    using ext_arith [OF x(1)] z int_not_fp by (auto simp: arith_type_def)
  show ?thesis using conjunct2 [OF z] sem ty i by (elim insertE) (auto simp: sem_bin_simps sem_eq_Some)
next
  assume z: "e = IR_SEXT \<and> op \<in> {IR_EQ, IR_NE, IR_LT, IR_GE, IR_LE, IR_GT} \<and> (is_signed_cmp op \<longrightarrow> IR_IS_TYPE_SIGNED t1 = IR_IS_TYPE_SIGNED s)"
  have ty: "v1 = wrap t1 (sval (type_bits s) w1)" "v2 = wrap t2 (sval (type_bits s) w2)"
    using x(1,2) z by (auto simp: sem_un_simps split: if_splits)
  have i: "int_type s" "int_type t1" "type_bits s < type_bits t1" using ext_arith [OF x(1)] z by (auto simp: arith_type_def)
  note op = conjunct1 [OF conjunct2 [OF z]]
  note se = sem [unfolded cmp_Some [OF i(2) op]]
  have w: "wrap t2 = wrap t1" using wrap_compat [of t1 t2] se by simp
  note sl = sext_less [OF int_size(2) [OF i(1)] i(3) okval_fits [OF x(3)] okval_fits [OF x(4)]]
  have p: "(2::int) ^ (type_bits s - 1) \<le> 2 ^ (type_bits t1 - 1)" using i(3) by (intro power_increasing) auto
  have nm: "num t1 (wrap t1 (sval (type_bits s) w)) = sval (type_bits s) w" if "IR_IS_TYPE_SIGNED t1" for w
    by (rule num_wrap [OF that]) (use sval_bounds [OF int_size(2) [OF i(1)], of w] p in linarith)+
  have ord: "is_signed_cmp op \<Longrightarrow> (num t1 v1 < num t1 v2 \<longleftrightarrow> num s w1 < num s w2) \<and> (num t1 v1 \<le> num t1 v2 \<longleftrightarrow> num s w1 \<le> num s w2)"
    using z sl nm unfolding ty w by (cases "IR_IS_TYPE_SIGNED t1") (auto simp: num_def wrap_def)
  then have ord': "is_signed_cmp op \<Longrightarrow> (num t1 v2 < num t1 v1 \<longleftrightarrow> num s w2 < num s w1) \<and> (num t1 v2 \<le> num t1 v1 \<longleftrightarrow> num s w2 \<le> num s w1)"
    by (meson linorder_not_less)
  have eq: "v1 = v2 \<longleftrightarrow> w1 = w2" unfolding ty w wrap_def by (rule sl)
  show ?thesis unfolding cmp_Some [OF i(1) op]
    using op se ord ord' eq by (elim insertE) (simp_all add: is_signed_cmp_def)
qed

lemma cmp_zext_ok:
  assumes x: "sem_un h IR_ZEXT t1 s w1 = Some v1" "sem_un h IR_ZEXT t2 s w2 = Some v2" "okval s w1" "okval s w2"
    and sem: "sem_bin h op t t1 t2 v1 v2 = Some v" and op: "op \<in> {IR_LT, IR_GE, IR_LE, IR_GT}"
  shows "sem_bin h (op + 4) t s s w1 w2 = Some v"
proof -
  have ty: "v1 = w1" "v2 = w2" using x(1,2) by (auto simp: sem_un_simps split: if_splits)
  have i: "int_type s" "\<not> IR_IS_TYPE_FP s" "arith_type t1" "\<not> IR_IS_TYPE_FP t1"
    using ext_arith [OF x(1)] int_not_fp arith_not_fp by auto
  have t: "t1 = t2" using op sem by (elim insertE) (auto simp: sem_bin_simps sem_ord_Some)
  have n: "num t2 w1 = w1" "num t2 w2 = w2" using zext_num [OF x(1,3) _ i(3)] zext_num [OF x(2,4) _ i(3)] ty t by auto
  show ?thesis using op sem t i unfolding ty by (elim insertE) (auto simp: sem_bin_simps sem_ord_Some sem_eq_Some n)
qed

lemma not_cmp_ok:
  assumes "sem_bin h op t1 p q i j = Some v1" "sem_un h IR_NOT t t1 v1 = Some v" "IR_IS_TYPE_INT p" "p \<noteq> IR_VOID"
    and op: "op \<in> {IR_EQ, IR_NE, IR_LT, IR_GE, IR_LE, IR_GT, IR_ULT, IR_UGE, IR_ULE, IR_UGT, IR_ORDERED, IR_UNORDERED}"
  shows "sem_bin h (op XOR 1) t1 p q i j = Some v \<and> compat t1 t \<and> binary_op (op XOR 1)"
proof -
  have f: "\<not> IR_IS_TYPE_FP p" using assms(3,4) int_not_fp [of p] by (simp add: int_type_def)
  have t1: "t1 = IR_BOOL" using op assms(1) f by (elim insertE) (auto simp: sem_bin_simps sem_eq_Some sem_ord_Some split: if_splits)
  then have n: "t = IR_BOOL" "v = 1 - v1" using assms(2) by (auto simp: sem_un_simps compat_def wide_def split: if_splits)
  show ?thesis
    using op assms(1) f t1 n by (elim insertE) (auto simp: sem_bin_simps sem_eq_Some sem_ord_Some key_simps split: if_splits)
qed


lemma cmp_ext_rule:
  assumes keys: "\<forall>(op, k1, k2)\<in>set ks. k2 = k1 \<and> (k1 = IR_ZEXT \<and> op \<in> {IR_EQ, IR_NE, IR_ULT, IR_UGE, IR_ULE, IR_UGT} \<or>
      k1 = IR_SEXT \<and> op \<in> {IR_EQ, IR_NE, IR_LT, IR_GE, IR_LE, IR_GT})"
  shows "sound_rule (ks, \<lambda>h ctx a x y z. if fold_same_ext ctx a x y
       then Fold_Restart ctx (a\<lparr>i_op1 := i_op1 x, i_op2 := i_op1 y\<rparr>) else Fold_Next)"
proof (rule bin_rule', goal_cases)
  case 1
  show ?case by (intro ballI) (auto dest!: bspec [OF keys] simp: key_simps)
next
  case (2 h ctx \<rho> a v x y z op k1 k2 t1 v1 t2 v2)
  have k: "k2 = k1" "k1 = IR_ZEXT \<and> op \<in> {IR_EQ, IR_NE, IR_ULT, IR_UGE, IR_ULE, IR_UGT} \<or>
      k1 = IR_SEXT \<and> op \<in> {IR_EQ, IR_NE, IR_LT, IR_GE, IR_LE, IR_GT}" using bspec [OF keys 2(1)] by simp_all
  have kx: "i_op x = k1" "i_op y = k1" using k 2(7,8) by auto
  have u: "unary_op (i_op x)" "unary_op (i_op y)" using kx k(2) by (auto simp: key_simps)
  obtain s w1 where x: "den ctx \<rho> (i_op1 x) = Some (s, w1)" "okval s w1" "s = i_type (ir_base ctx (i_op1 x))" "sem_un h k1 t1 s w1 = Some v1"
    using 2(11,13) kx unfolding inner_un [OF u(1)] un_at_def by auto
  obtain s' w2 where y: "den ctx \<rho> (i_op1 y) = Some (s', w2)" "okval s' w2" "s' = i_type (ir_base ctx (i_op1 y))" "sem_un h k1 t2 s' w2 = Some v2"
    using 2(16,18) kx unfolding inner_un [OF u(2)] un_at_def by auto
  have ex: "k1 = IR_SEXT \<and> is_signed_cmp op \<longrightarrow> IR_IS_TYPE_SIGNED t1 = IR_IS_TYPE_SIGNED s"
    using 2(3-6,11) kx x(3) by (auto simp: fold_excluded_def excl_cmp_def Let_def)
  have bin: "binary_op op" using k(2) by (auto simp: key_simps)
  have e: "k1 = IR_ZEXT \<and> op \<in> {IR_EQ, IR_NE, IR_ULT, IR_UGE, IR_ULE, IR_UGT} \<or>
      k1 = IR_SEXT \<and> op \<in> {IR_EQ, IR_NE, IR_LT, IR_GE, IR_LE, IR_GT} \<and> (is_signed_cmp op \<longrightarrow> IR_IS_TYPE_SIGNED t1 = IR_IS_TYPE_SIGNED s)"
    using k(2) ex by argo
  have "step_ok h ctx \<rho> a v (Fold_Restart ctx (a\<lparr>i_op1 := i_op1 x, i_op2 := i_op1 y\<rparr>))" if "s' = s"
    by (rule restart_binI [OF 2(2), where ?t1.0 = s and ?v1.0 = w1 and ?t2.0 = s and ?v2.0 = w2])
      (use x(1) y(1) that 2(3) bin cmp_ext_ok [OF x(4) y(4)[unfolded that] x(2) y(2)[unfolded that] 2(19) e] in simp_all)
  then show ?case by (auto simp: fold_same_ext_def x(3) y(3))
qed

lemma cmp_zext_rule:
  assumes keys: "\<forall>(op, k1, k2)\<in>set ks. k1 = IR_ZEXT \<and> k2 = IR_ZEXT \<and> op \<in> {IR_LT, IR_GE, IR_LE, IR_GT}"
  shows "sound_rule (ks, \<lambda>h ctx a x y z. if fold_same_ext ctx a x y
       then Fold_Restart ctx (a\<lparr>i_op := i_op a + 4, i_op1 := i_op1 x, i_op2 := i_op1 y\<rparr>) else Fold_Next)"
proof (rule bin_rule', goal_cases)
  case 1
  show ?case by (intro ballI) (auto dest!: bspec [OF keys] simp: key_simps)
next
  case (2 h ctx \<rho> a v x y z op k1 k2 t1 v1 t2 v2)
  have k: "k1 = IR_ZEXT" "k2 = IR_ZEXT" "op \<in> {IR_LT, IR_GE, IR_LE, IR_GT}" using bspec [OF keys 2(1)] by simp_all
  have kx: "i_op x = IR_ZEXT" "i_op y = IR_ZEXT" using k 2(7,8) by auto
  obtain s w1 where x: "den ctx \<rho> (i_op1 x) = Some (s, w1)" "okval s w1" "s = i_type (ir_base ctx (i_op1 x))" "sem_un h IR_ZEXT t1 s w1 = Some v1"
    using 2(11,13) kx by (auto simp: inner_simps)
  obtain s' w2 where y: "den ctx \<rho> (i_op1 y) = Some (s', w2)" "okval s' w2" "s' = i_type (ir_base ctx (i_op1 y))" "sem_un h IR_ZEXT t2 s' w2 = Some v2"
    using 2(16,18) kx by (auto simp: inner_simps)
  have bin: "binary_op (op + 4)" using k(3) by (auto simp: key_simps)
  have "step_ok h ctx \<rho> a v (Fold_Restart ctx (a\<lparr>i_op := i_op a + 4, i_op1 := i_op1 x, i_op2 := i_op1 y\<rparr>))" if "s' = s"
    by (rule restart_binI [OF 2(2), where ?t1.0 = s and ?v1.0 = w1 and ?t2.0 = s and ?v2.0 = w2])
      (use x(1) y(1) that 2(3) bin cmp_zext_ok [OF x(4) y(4)[unfolded that] x(2) y(2)[unfolded that] 2(19) k(3)] in auto)
  then show ?case by (auto simp: fold_same_ext_def x(3) y(3))
qed

lemma not_cmp_rule:
  assumes keys: "\<forall>(op, k1, k2)\<in>set ks. op = IR_NOT \<and>
     k1 \<in> {IR_EQ, IR_NE, IR_LT, IR_GE, IR_LE, IR_GT, IR_ULT, IR_UGE, IR_ULE, IR_UGT, IR_ORDERED, IR_UNORDERED}"
  shows "sound_rule (ks, \<lambda>h ctx a x y z. if IR_IS_TYPE_INT (i_type (ir_base ctx (i_op1 x)))
       then Fold_Restart ctx ((set_opt (i_op x XOR 1) (i_type x) a)\<lparr>i_op1 := i_op1 x, i_op2 := i_op2 x\<rparr>) else Fold_Next)"
proof (rule un_rule, goal_cases)
  case 1
  show ?case by (intro ballI) (auto dest!: bspec [OF keys] simp: key_simps)
next
  case (2 h ctx \<rho> a v x y z op k1 k2 t1 v1)
  have k: "op = IR_NOT" "k1 \<in> {IR_EQ, IR_NE, IR_LT, IR_GE, IR_LE, IR_GT, IR_ULT, IR_UGE, IR_ULE, IR_UGT, IR_ORDERED, IR_UNORDERED}"
    using bspec [OF keys 2(1)] by simp_all
  have kx: "i_op x = k1" using k 2(6) by auto
  have u: "binary_op (i_op x)" using kx k(2) by (auto simp: key_simps)
  obtain p i q j where x: "den ctx \<rho> (i_op1 x) = Some (p, i)" "p = i_type (ir_base ctx (i_op1 x))" "p \<noteq> IR_VOID"
    "den ctx \<rho> (i_op2 x) = Some (q, j)" "sem_bin h k1 t1 p q i j = Some v1"
    using 2(9,11) kx unfolding inner_bin [OF u] bin_at_def by auto
  have s: "sem_un h IR_NOT (i_type a) t1 v1 = Some v" using 2(12) k(1) by simp
  note nc = not_cmp_ok [OF x(5) s _ x(3) k(2)]
  have "step_ok h ctx \<rho> a v (Fold_Restart ctx ((set_opt (i_op x XOR 1) (i_type x) a)\<lparr>i_op1 := i_op1 x, i_op2 := i_op2 x\<rparr>))"
    if "IR_IS_TYPE_INT p"
    by (rule restart_binI [OF 2(2), where ?t1.0 = p and ?v1.0 = i and ?t2.0 = q and ?v2.0 = j])
      (use x nc [OF that] kx 2(9) in \<open>simp_all add: set_opt_def\<close>)
  then show ?case by (simp add: x(2))
qed

lemma sub_zero_rule:
  "sound_rule (ks, \<lambda>h ctx a x y z. if use_lists ctx \<noteq> None \<and> use_count ctx (i_op1 a) = 1 \<and> i_val y = 0
       then Fold_Restart ctx (a\<lparr>i_op1 := i_op1 x, i_op2 := i_op2 x\<rparr>) else Fold_Next)"
  by (rule sound_ruleI) (simp add: fold_site_def)

lemma sound_cmp: "list_all sound_rule fold_rules_cmp"
  unfolding fold_rules_cmp_def list.pred_inject
  by (intro conjI cmp_ext_rule cmp_zext_rule not_cmp_rule sub_zero_rule) simp_all

section \<open>Conversions of conversions\<close>

lemma trunc_Some: "sem_un h IR_TRUNC t t1 v1 = Some v \<longleftrightarrow>
    int_type t \<and> int_type t1 \<and> type_bits t < type_bits t1 \<and> (t = IR_BOOL \<longrightarrow> v = 0 \<or> v = 1) \<and> v = wrap t v1"
  by (auto simp: sem_un_simps to_type_def type_bits_def)

lemma bitcast_Some: "sem_un h IR_BITCAST t t1 v1 = Some v \<longleftrightarrow>
    t \<noteq> IR_VOID \<and> t1 \<noteq> IR_VOID \<and> type_bits t = type_bits t1 \<and> (t = IR_BOOL \<longrightarrow> v = 0 \<or> v = 1) \<and> v = v1"
  by (auto simp: sem_un_simps to_type_def type_bits_def)

lemma zext_Some: "sem_un h IR_ZEXT t t1 v1 = Some v \<longleftrightarrow> int_type t \<and> int_type t1 \<and> type_bits t1 < type_bits t \<and> v = v1"
  by (auto simp: sem_un_simps type_bits_def)

lemma sext_Some: "sem_un h IR_SEXT t t1 v1 = Some v \<longleftrightarrow>
    int_type t \<and> int_type t1 \<and> type_bits t1 < type_bits t \<and> v = wrap t (sval (type_bits t1) v1)"
  by (auto simp: sem_un_simps type_bits_def)

lemmas conv_Some = trunc_Some bitcast_Some zext_Some sext_Some

lemma take_bit_sval_le: "0 < n \<Longrightarrow> m \<le> n \<Longrightarrow> take_bit m (sval n w) = take_bit m w"
  by (metis min.absorb1 take_bit_sval take_bit_take_bit)

lemma sval_small: "fits m w \<Longrightarrow> m < n \<Longrightarrow> sval n w = w"
proof -
  assume a: "fits m w" "m < n"
  have "(2::int) ^ m \<le> 2 ^ (n - 1)" using a(2) by (intro power_increasing) auto
  moreover have "0 \<le> w" "w < 2 ^ m" using a(1) by (auto simp: fits_def)
  ultimately show "sval n w = w" using a(2) by (intro sval_id) (simp, linarith+)
qed

lemma sval_take_sval: "0 < m \<Longrightarrow> m < n \<Longrightarrow> sval n (take_bit n (sval m w)) = sval m w"
proof -
  assume a: "0 < m" "m < n"
  have "(2::int) ^ (m - 1) \<le> 2 ^ (n - 1)" using a by (intro power_increasing) auto
  then show ?thesis using sval_bounds [OF a(1), of w] a by (simp, intro sval_id) linarith+
qed


lemma size_bits: "ir_type_size s < ir_type_size t \<longleftrightarrow> type_bits s < type_bits t" "ir_type_size s = ir_type_size t \<longleftrightarrow> type_bits s = type_bits t"
  by (simp_all add: type_bits_def)

lemma wrap_wrap: "type_bits t \<le> type_bits t1 \<Longrightarrow> wrap t (wrap t1 i) = wrap t i"
  by (simp add: wrap_def min_def)

lemma trunc_ext_ok:
  assumes e: "sem_un h e t1 s w = Some v1" "e = IR_ZEXT \<or> e = IR_SEXT" and t: "sem_un h IR_TRUNC t t1 v1 = Some v" and w: "okval s w"
  shows "type_bits s = type_bits t \<Longrightarrow> v = w \<and> sem_un h IR_BITCAST t s w = Some v"
    "type_bits t < type_bits s \<Longrightarrow> sem_un h IR_TRUNC t s w = Some v" "type_bits s < type_bits t \<Longrightarrow> sem_un h e t s w = Some v"
proof -
  have n: "int_type s" "int_type t" "type_bits s < type_bits t1" "type_bits t < type_bits t1" "0 < type_bits s"
    using e t int_size(2) [of s] by (auto simp: conv_Some)
  have f: "fits (type_bits s) w" by (rule okval_fits [OF w])
  have v: "v = wrap t (if e = IR_ZEXT then w else sval (type_bits s) w)" using e t n wrap_wrap [of t t1] by (auto simp: conv_Some)
  have b: "t = IR_BOOL \<Longrightarrow> v = 0 \<or> v = 1" using t by (auto simp: conv_Some)
  have le: "type_bits t \<le> type_bits s \<Longrightarrow> v = wrap t w" using v n(5) take_bit_sval_le [of "type_bits s" "type_bits t" w] by (auto simp: wrap_def)
  show "type_bits s = type_bits t \<Longrightarrow> v = w \<and> sem_un h IR_BITCAST t s w = Some v"
    using le f b n(1,2) by (auto simp: conv_Some wrap_def fits_iff_take_bit int_type_iff)
  show "type_bits t < type_bits s \<Longrightarrow> sem_un h IR_TRUNC t s w = Some v" using le b n by (auto simp: trunc_Some)
  show "type_bits s < type_bits t \<Longrightarrow> sem_un h e t s w = Some v"
    using v e(2) n fits_mono [OF f, of "type_bits t"] by (auto simp: conv_Some wrap_def fits_iff_take_bit)
qed

lemma ext_bitcast_ok:
  assumes "sem_un h IR_BITCAST t1 s w = Some v1" "sem_un h op t t1 v1 = Some v" "op \<in> {IR_TRUNC, IR_ZEXT, IR_SEXT}" "IR_IS_TYPE_INT s"
  shows "sem_un h op t s w = Some v"
  using assms(3,1,2,4) by (elim insertE) (auto simp: conv_Some int_type_def)

lemma bitcast_bitcast_ok:
  assumes "sem_un h IR_BITCAST t1 s w = Some v1" "sem_un h IR_BITCAST t t1 v1 = Some v"
  shows "w = v" "sem_un h IR_BITCAST t s w = Some v"
  using assms by (auto simp: conv_Some)

lemma conv_conv_ok:
  assumes "sem_un h op t1 s w = Some v1" "sem_un h op t t1 v1 = Some v" "op \<in> {IR_TRUNC, IR_ZEXT, IR_SEXT}"
  shows "sem_un h op t s w = Some v"
  using assms(3,1,2) wrap_wrap [of t t1] sval_take_sval [of "type_bits s" "type_bits t1" w] int_size(2) [of s]
  by (elim insertE) (auto simp: conv_Some wrap_def min_def)

lemma sext_zext_ok:
  assumes "sem_un h IR_ZEXT t1 s w = Some v1" "sem_un h IR_SEXT t t1 v1 = Some v" "okval s w"
  shows "sem_un h IR_ZEXT t s w = Some v"
  using assms sval_small [OF okval_fits [OF assms(3)], of "type_bits t1"] take_bit_fits [OF fits_mono [OF okval_fits [OF assms(3)], of "type_bits t"]]
  by (auto simp: conv_Some wrap_def)

text \<open>A value whose sign bit is clear is sign-extended with zeros.\<close>

lemma sext_clear:
  assumes "sem_un h IR_SEXT t t1 v1 = Some v" "fits (type_bits t1 - 1) v1"
  shows "sem_un h IR_ZEXT t t1 v1 = Some v"
proof -
  have n: "0 < type_bits t1" "type_bits t1 < type_bits t" using assms(1) int_size(2) [of t1] by (auto simp: conv_Some)
  then have "sval (type_bits t1) v1 = v1" using sval_small [OF assms(2)] by simp
  moreover have "fits (type_bits t) v1" using n by (intro fits_mono [OF assms(2)]) simp
  ultimately show ?thesis using assms(1) by (simp add: conv_Some wrap_def fits_iff_take_bit)
qed

lemma conv_rules1:
  "sound_rule ([(IR_TRUNC, IR_ZEXT, ANY), (IR_TRUNC, IR_SEXT, ANY)],
     \<lambda>h ctx a x y z. let dst = i_type a; src = i_type (ir_base ctx (i_op1 x))
       in if src = dst then Fold_Copy (i_op1 x)
          else if ir_type_size src = ir_type_size dst
          then Fold_Restart ctx ((set_opt IR_BITCAST dst a)\<lparr>i_op1 := i_op1 x\<rparr>)
          else if ir_type_size src > ir_type_size dst
          then Fold_Restart ctx ((set_opt IR_TRUNC dst a)\<lparr>i_op1 := i_op1 x\<rparr>)
          else Fold_Restart ctx ((set_opt (i_op x) dst a)\<lparr>i_op1 := i_op1 x\<rparr>))"
proof (rule un_rule, simp add: key_simps, goal_cases)
  case (1 h ctx \<rho> a v x y z op k1 k2 t1 v1)
  have k: "op = IR_TRUNC" "i_op x = IR_ZEXT \<or> i_op x = IR_SEXT" using 1(1,6) by auto
  have u: "unary_op (i_op x)" using k(2) by (auto simp: key_simps)
  obtain s w where x: "den ctx \<rho> (i_op1 x) = Some (s, w)" "okval s w" "s = i_type (ir_base ctx (i_op1 x))" "sem_un h (i_op x) t1 s w = Some v1"
    using 1(9,11) unfolding inner_un [OF u] un_at_def by auto
  have s: "sem_un h IR_TRUNC (i_type a) t1 v1 = Some v" using 1(12) k(1) by simp
  note te = trunc_ext_ok [OF x(4) k(2) s x(2)]
  show ?case
    unfolding Let_def size_bits x(3) [symmetric]
    using te x(1) u 1(2) by (auto simp: copy_ok_def set_opt_def key_simps intro!: restart_unI)
qed


text \<open>A numeric constant behind a reference, with the bits of its 64-bit field below the width.\<close>

lemma num_const_bits:
  assumes "fold_site h ctx \<rho> a v" "den ctx \<rho> r = Some (t, c)" "IR_IS_CONST_REF r" "\<not> IR_IS_SYM_CONST (i_op (ir_base ctx r))"
  shows "c = cv t (i_val (ir_base ctx r))" "canonical t (i_val (ir_base ctx r))"
  using fold_site.num_opnd [OF assms(1,2)] assms(3,4) by (auto simp: num_const_def)

lemma sext_and_ok:
  assumes site: "fold_site h ctx \<rho> a v" and s: "sem_un h IR_SEXT t t1 v1 = Some v"
    and x: "sem_bin h IR_AND t1 p q i c = Some v1" "okval p i" "c = cv q w" "\<not> bit w (ir_type_size t1 * 8 - 1)"
  shows "sem_un h IR_ZEXT t t1 v1 = Some v"
proof (rule sext_clear [OF s])
  have v1: "int_type t1" "compat p t1" "compat q t1" "v1 = i AND c" using x(1) by (auto simp: sem_bin_simps sem_bits_Some)
  have n: "0 < type_bits t1" by (rule int_size(2) [OF v1(1)])
  have i: "fits (type_bits t1) i" using okval_fits [OF x(2)] compat_bits [OF v1(2)] by simp
  show "fits (type_bits t1 - 1) v1"
  proof (cases "t1 = IR_BOOL")
    case True
    then have "i = 0 \<or> i = 1" using x(2) v1(2) by (auto simp: compat_def okval_def wide_def)
    then show ?thesis using v1(4) x(3) True v1(3) by (auto simp: fits_def cv_def compat_def wide_def)
  next
    case False
    then have "q \<noteq> IR_BOOL" using v1(3) by (auto simp: compat_def wide_def)
    then have "\<not> bit c (type_bits t1 - 1)" using x(3,4) n by (simp add: cv_def bit_take_bit_iff type_bits_def bit_uint_iff)
    moreover have "bit v1 j \<Longrightarrow> j < type_bits t1 \<and> j \<noteq> type_bits t1 - 1" for j
      using i calculation v1(4) by (auto simp: fits_bit bit_and_iff not_le [symmetric])
    moreover have "0 \<le> v1" using i v1(4) by (simp add: fits_def)
    ultimately show ?thesis unfolding fits_bit by force
  qed
qed

lemma sext_shr_ok:
  assumes s: "sem_un h IR_SEXT t t1 v1 = Some v" and x: "sem_bin h IR_SHR t1 p q i c = Some v1" "okval p i" "0 < c"
  shows "sem_un h IR_ZEXT t t1 v1 = Some v"
proof (rule sext_clear [OF s])
  have v1: "compat p t1" "v1 = drop_bit (nat c) i" using x(1) by (auto simp: shift_Some shift_ok_def)
  have i: "fits (type_bits t1) i" using okval_fits [OF x(2)] compat_bits [OF v1(1)] by simp
  then show "fits (type_bits t1 - 1) v1" using v1(2) x(3) by (auto simp: fits_bit bit_drop_bit_eq)
qed

lemma trunc_and_ok:
  assumes s: "sem_un h IR_TRUNC t t1 v1 = Some v" and x: "sem_bin h IR_AND t1 p q i (cv q w) = Some v1"
    and w: "uint w = mask (type_bits t)"
  shows "sem_un h IR_TRUNC t p i = Some v"
proof -
  have v1: "int_type t1" "compat p t1" "compat q t1" "v1 = i AND cv q w" using x by (auto simp: sem_bin_simps sem_bits_Some)
  have n: "int_type t" "type_bits t < type_bits t1" "v = wrap t v1" "t = IR_BOOL \<longrightarrow> v = 0 \<or> v = 1"
    using s by (auto simp: conv_Some)
  have p: "int_type p" "type_bits p = type_bits t1" "type_bits q = type_bits t1"
    using v1 compat_bits [OF v1(2)] compat_bits [OF v1(3)] by (auto simp: compat_def wide_def int_type_iff)
  have "q \<noteq> IR_BOOL" using v1(3) n(2) int_size(1) [OF n(1)] by (auto simp: compat_def wide_def type_bits_def)
  then have "cv q w = mask (type_bits t)" using w n(2) p(3) by (simp add: cv_def take_bit_of_mask)
  then have "v = wrap t i" using n(3) v1(4) by (simp add: wrap_def take_bit_eq_mask [symmetric])
  then show ?thesis using n p by (simp add: trunc_Some)
qed


text \<open>Rules for a unary operation on a binary one.\<close>

lemma un_bin_rule:
  assumes k: "unary_op op" "binary_op k"
    and body: "\<And>h ctx \<rho> a v x y z t1 v1 p i q j. fold_site h ctx \<rho> a v \<Longrightarrow> i_op a = op \<Longrightarrow> \<not> fold_excluded ctx a \<Longrightarrow>
      x = ir_base ctx (i_op1 a) \<Longrightarrow> i_op x = k \<Longrightarrow> den ctx \<rho> (i_op1 a) = Some (t1, v1) \<Longrightarrow> t1 = i_type x \<Longrightarrow>
      sem_un h op (i_type a) t1 v1 = Some v \<Longrightarrow> den ctx \<rho> (i_op1 x) = Some (p, i) \<Longrightarrow> okval p i \<Longrightarrow>
      den ctx \<rho> (i_op2 x) = Some (q, j) \<Longrightarrow> okval q j \<Longrightarrow> sem_bin h k t1 p q i j = Some v1 \<Longrightarrow> step_ok h ctx \<rho> a v (b h ctx a x y z)"
  shows "sound_rule ([(op, k, ANY)], b)"
proof (rule un_rule, simp add: k, goal_cases)
  case (1 h ctx \<rho> a v x y z op' k1 k2 t1 v1)
  have kx: "op' = op" "i_op x = k" using 1(1,6) k(2) by (auto simp: binary_op_def)
  have u: "binary_op (i_op x)" using kx k(2) by simp
  obtain p i q j where x: "den ctx \<rho> (i_op1 x) = Some (p, i)" "okval p i" "den ctx \<rho> (i_op2 x) = Some (q, j)" "okval q j"
    "sem_bin h k t1 p q i j = Some v1" using 1(9,11) kx unfolding inner_bin [OF u] bin_at_def by auto
  show ?case by (rule body [OF 1(2) _ 1(4,5) kx(2) 1(7,9) _ x]) (use 1(3,12) kx in simp_all)
qed

lemma sext_and_rule: "sound_rule ([(IR_SEXT, IR_AND, ANY)],
     \<lambda>h ctx a x y z. let c = ir_base ctx (i_op2 x)
       in if IR_IS_CONST_REF (i_op2 x) \<and> \<not> IR_IS_SYM_CONST (i_op c) \<and> \<not> bit (i_val c) (ir_type_size (i_type x) * 8 - 1)
          then Fold_Restart ctx (set_opt IR_ZEXT (i_type a) a) else Fold_Next)"
proof (rule un_bin_rule, simp add: key_simps, simp add: key_simps, goal_cases)
  case (1 h ctx \<rho> a v x y z t1 v1 p i q j)
  have "step_ok h ctx \<rho> a v (Fold_Restart ctx (set_opt IR_ZEXT (i_type a) a))"
    if c: "IR_IS_CONST_REF (i_op2 x)" "\<not> IR_IS_SYM_CONST (i_op (ir_base ctx (i_op2 x)))"
      "\<not> bit (i_val (ir_base ctx (i_op2 x))) (ir_type_size (i_type x) * 8 - 1)"
  proof -
    have "sem_un h IR_ZEXT (i_type a) t1 v1 = Some v"
      using sext_and_ok [OF 1(1,8,13,10) num_const_bits(1) [OF 1(1,11) c(1,2)]] c(3) 1(7) by simp
    then show ?thesis using 1(1,6) by (auto intro!: restart_unI simp: set_opt_def key_simps)
  qed
  then show ?case by (simp add: Let_def)
qed

lemma sext_shr_rule: "sound_rule ([(IR_SEXT, IR_SHR, ANY)],
     \<lambda>h ctx a x y z. let c = ir_base ctx (i_op2 x)
       in if IR_IS_CONST_REF (i_op2 x) \<and> \<not> IR_IS_SYM_CONST (i_op c) \<and> i_val c \<noteq> 0
          then Fold_Restart ctx (set_opt IR_ZEXT (i_type a) a) else Fold_Next)"
proof (rule un_bin_rule, simp add: key_simps, simp add: key_simps, goal_cases)
  case (1 h ctx \<rho> a v x y z t1 v1 p i q j)
  have "step_ok h ctx \<rho> a v (Fold_Restart ctx (set_opt IR_ZEXT (i_type a) a))"
    if c: "IR_IS_CONST_REF (i_op2 x)" "\<not> IR_IS_SYM_CONST (i_op (ir_base ctx (i_op2 x)))" "i_val (ir_base ctx (i_op2 x)) \<noteq> 0"
  proof -
    note n = num_const_bits [OF 1(1,11) c(1,2)]
    have "j \<noteq> 0" using canonical_zero_iff [OF n(2)] n(1) c(3) by simp
    then have "0 < j" using okval_fits [OF 1(12)] by (simp add: fits_def)
    then have "sem_un h IR_ZEXT (i_type a) t1 v1 = Some v" by (rule sext_shr_ok [OF 1(8,13,10)])
    then show ?thesis using 1(1,6) by (auto intro!: restart_unI simp: set_opt_def key_simps)
  qed
  then show ?case by (simp add: Let_def)
qed

lemma trunc_and_rule: "sound_rule ([(IR_TRUNC, IR_AND, ANY)],
     \<lambda>h ctx a x y z. let size = ir_type_size (i_type a); mask = i_val (ir_base ctx (i_op2 x))
       in if IR_IS_CONST_REF (i_op2 x) \<and>
             (size = 1 \<and> mask = 0xff \<or> size = 2 \<and> mask = 0xffff \<or> size = 4 \<and> mask = 0xffffffff)
          then Fold_Restart ctx (a\<lparr>i_op1 := i_op1 x\<rparr>) else Fold_Next)"
proof (rule un_bin_rule, simp add: key_simps, simp add: key_simps, goal_cases)
  case (1 h ctx \<rho> a v x y z t1 v1 p i q j)
  let ?w = "i_val (ir_base ctx (i_op2 x))" and ?n = "ir_type_size (i_type a)"
  have "step_ok h ctx \<rho> a v (Fold_Restart ctx (a\<lparr>i_op1 := i_op1 x\<rparr>))"
    if c: "IR_IS_CONST_REF (i_op2 x)" "?n = 1 \<and> ?w = 0xff \<or> ?n = 2 \<and> ?w = 0xffff \<or> ?n = 4 \<and> ?w = 0xffffffff"
  proof -
    have "\<not> IR_IS_SYM_CONST (i_op (ir_base ctx (i_op2 x)))"
      using 1(2-5) c(1) by (auto simp: fold_excluded_def excl_sym_def Let_def sym_ref_def IR_IS_CONST_REF_def)
    note n = num_const_bits [OF 1(1,11) c(1) this]
    have m: "uint ?w = mask (type_bits (i_type a))" using c(2) by (auto simp: type_bits_def mask_eq_exp_minus_1)
    have "sem_un h IR_TRUNC (i_type a) p i = Some v" by (rule trunc_and_ok [OF 1(8) 1(13) [unfolded n(1)] m])
    then show ?thesis using 1(1,2,9) by (auto intro!: restart_unI simp: key_simps)
  qed
  then show ?case by (simp add: Let_def)
qed

text \<open>Rules for a unary operation on a unary one.\<close>

lemma un_un_rule:
  assumes keys: "\<forall>(op, k1, k2)\<in>set ks. unary_op op \<and> unary_op k1"
    and body: "\<And>h ctx \<rho> a v x y z op k1 k2 v1 s w. (op, k1, k2) \<in> set ks \<Longrightarrow> fold_site h ctx \<rho> a v \<Longrightarrow> i_op a = op \<Longrightarrow>
      \<not> fold_excluded ctx a \<Longrightarrow> x = ir_base ctx (i_op1 a) \<Longrightarrow> i_op x = k1 \<Longrightarrow>
      den ctx \<rho> (i_op1 x) = Some (s, w) \<Longrightarrow> okval s w \<Longrightarrow> i_type (ir_base ctx (i_op1 x)) = s \<Longrightarrow> sem_un h k1 (i_type x) s w = Some v1 \<Longrightarrow>
      sem_un h op (i_type a) (i_type x) v1 = Some v \<Longrightarrow> step_ok h ctx \<rho> a v (b h ctx a x y z)"
  shows "sound_rule (ks, b)"
proof (rule un_rule, goal_cases)
  case 1
  show ?case by (intro ballI) (auto dest!: bspec [OF keys])
next
  case (2 h ctx \<rho> a v x y z op k1 k2 t1 v1)
  have k: "unary_op k1" using bspec [OF keys 2(1)] by simp
  then have kx: "i_op x = k1" using 2(6) by (auto simp: unary_op_def)
  have u: "unary_op (i_op x)" using kx k by simp
  obtain s w where x: "den ctx \<rho> (i_op1 x) = Some (s, w)" "okval s w" "i_type (ir_base ctx (i_op1 x)) = s" "sem_un h k1 (i_type x) s w = Some v1"
    using 2(11) kx unfolding inner_un [OF u] un_at_def by auto
  show ?case by (rule body [OF 2(1-5) kx x]) (use 2(9,12) in simp)
qed

lemma sound_conv: "list_all sound_rule fold_rules_conv"
  unfolding fold_rules_conv_def list.pred_inject
  apply (intro conjI)
  subgoal by (rule un_un_rule) (auto simp: key_simps fold_excluded_def excl_arith_def sem_un_simps split: if_splits)
  subgoal by (rule sound_ruleI) (auto simp: fold_excluded_def excl_arith_def)
  subgoal by (rule conv_rules1)
  subgoal by (rule un_un_rule) (auto simp: key_simps intro!: restart_unI elim!: ext_bitcast_ok)
  subgoal by (rule un_un_rule) (auto simp: key_simps Let_def copy_ok_def intro!: restart_unI elim: bitcast_bitcast_ok)
  subgoal by (rule un_un_rule) (auto simp: key_simps intro!: restart_unI elim!: conv_conv_ok)
  subgoal by (rule un_un_rule) (auto simp: key_simps set_opt_def intro!: restart_unI dest: sext_zext_ok)
  subgoal by (rule sext_and_rule)
  subgoal by (rule sext_shr_rule)
  subgoal by (rule trunc_and_rule)
  by simp

end
