(* ===== verification/Sound_Mask.thy ===== *)
theory Sound_Mask
  imports Sound_Conv
begin

text \<open>
  Soundness of the rules of ir_fold.h on masks: conjunctions with shifts, extensions and
  truncations, and shifts of conjunctions.
\<close>

section \<open>Shift counts that are constants\<close>

lemma sym_addr:
  assumes "fold_site h ctx \<rho> a v" "den ctx \<rho> r = Some (t, c)" "IR_IS_CONST_REF r" "IR_IS_SYM_CONST (i_op (ir_base ctx r))"
  shows "t = IR_ADDR"
proof -
  have p: "pool_ok ctx" "models h ctx \<rho>" using assms(1) by (simp_all add: fold_site_def)
  have r: "r < 0" using assms(3) by (simp add: IR_IS_CONST_REF_def)
  then have rr: "- consts_count ctx < r" using assms(2) by (auto simp: den_def Let_def split: if_splits)
  have "i_type (ir_base ctx r) = IR_ADDR"
    using pool_cases [OF p(1) rr r] assms(4) p(1)
    by (cases "i_type (ir_base ctx r)") (auto simp: const_ok_def pool_ok_def predefined_ok_def ir_defs)
  then show ?thesis using den_okval [OF p assms(2)] by simp
qed

text \<open>A canonical constant with a small value has it in the whole 64-bit field.\<close>

lemma canonical_small:
  assumes "canonical t w" "arith_type t" "cv t w \<le> 64"
  shows "uint w = cv t w"
proof (cases "IR_IS_TYPE_SIGNED t")
  case True
  then have "cv t w < 2 ^ (type_bits t - 1)" using assms(3) by (auto simp: signed_types)
  then show ?thesis using val_u64_signed [OF assms(1) True] by (simp add: val_u64_def)
next
  case False
  then show ?thesis using canonical_unsigned [OF assms(1) False] assms(2) by (auto simp: val_u64_def arith_type_iff)
qed

lemma shift_count:
  assumes site: "fold_site h ctx \<rho> a v" and d: "den ctx \<rho> r = Some (q, j)" "okval q j" and r: "IR_IS_CONST_REF r"
    and s: "shift_ok t p q j"
  shows "uint (i_val (ir_base ctx r)) = j" "0 \<le> j" "j < int (type_bits t)"
proof -
  have q: "arith_type q" "q \<noteq> IR_ADDR" "j < int (type_bits t)" using s by (auto simp: shift_ok_def)
  have "\<not> IR_IS_SYM_CONST (i_op (ir_base ctx r))" using sym_addr [OF site d(1) r] q(2) by blast
  note n = num_const_bits [OF site d(1) r this]
  have "j \<le> 64" using q(3) type_bits_le [of t] by linarith
  then show "uint (i_val (ir_base ctx r)) = j" using canonical_small [OF n(2) q(1)] n(1) by simp
  show "0 \<le> j" using okval_fits [OF d(2)] by (simp add: fits_def)
  show "j < int (type_bits t)" by (rule q(3))
qed

lemma count_mask:
  assumes "0 \<le> j" "j < 2 ^ k" "k < 7" "uint w = j"
  shows "take_bit (2 ^ k) (uint w) AND mask k = j"
proof -
  have "k < 2 ^ k" by (rule less_exp)
  then have "(2::int) ^ k \<le> 2 ^ (2 ^ k)" by (intro power_increasing) auto
  then have "j < 2 ^ (2 ^ k)" using assms(2) by linarith
  then have "take_bit (2 ^ k) (uint w) = j" using assms(1,4) by (simp add: take_bit_int_eq_self)
  moreover have "take_bit k j = j" using assms by (simp add: take_bit_int_eq_self)
  ultimately show ?thesis by (simp add: take_bit_eq_mask [symmetric])
qed

lemma and_ones:
  assumes "fits n i" "j \<le> n"
  shows "drop_bit j i AND ones_shr n (int j) = drop_bit j i"
    "take_bit n (push_bit j i) AND take_bit n (ones_shl n (int j)) = take_bit n (push_bit j i)"
    "take_bit n (push_bit j (i AND ones_shr n (int j))) = take_bit n (push_bit j i)"
    "drop_bit j (i AND take_bit n (ones_shl n (int j))) = drop_bit j i"
proof -
  have nb: "bit i m \<Longrightarrow> m < n" for m using assms(1) not_le by (auto simp: fits_bit)
  show "drop_bit j i AND ones_shr n (int j) = drop_bit j i"
    using nb by (auto intro!: bit_eqI simp: ones_shr_def bit_simps)
  show "take_bit n (push_bit j i) AND take_bit n (ones_shl n (int j)) = take_bit n (push_bit j i)"
    using nb by (auto intro!: bit_eqI simp: ones_shl_def bit_simps)
  show "take_bit n (push_bit j (i AND ones_shr n (int j))) = take_bit n (push_bit j i)"
    using nb by (auto intro!: bit_eqI simp: ones_shr_def bit_simps)
  show "drop_bit j (i AND take_bit n (ones_shl n (int j))) = drop_bit j i"
    by (auto intro!: bit_eqI simp: ones_shl_def bit_simps dest!: nb)
qed


text \<open>A constant second operand at the width of the instruction.\<close>

lemma bits_rhs:
  assumes "sem_bin h IR_AND t t1 t2 v1 (cv t2 w) = Some v" "arith_type t2" "type_bits t2 = n"
  shows "compat t1 t" "type_bits t1 = n" "type_bits t = n" "v = v1 AND take_bit n (uint w)"
proof -
  have s: "compat t1 t" "compat t2 t" "v = v1 AND cv t2 w" using assms(1) by (auto simp: sem_bin_simps sem_bits_Some)
  show "compat t1 t" by (rule s(1))
  show "type_bits t1 = n" "type_bits t = n" using compat_bits [OF s(1)] compat_bits [OF s(2)] assms(3) by auto
  show "v = v1 AND take_bit n (uint w)" using s(3) assms(2,3) by (auto simp: cv_def arith_type_iff)
qed

lemma and_shift_rule:
  assumes keys: "\<forall>(op, k1, k2)\<in>set ks. op \<in> {IR_AND} \<and> k1 = k \<and> IR_IS_CONST_OP k2 \<and> (arith_type (const_type k2) \<and> type_bits (const_type k2) = 2 ^ m)"
    and n: "n = 2 ^ m" "m < 7" "msk = mask m" and val: "\<forall>w. val w = take_bit n (uint w)"
  shows "k = IR_SHR \<Longrightarrow> sound_rule (ks, \<lambda>h ctx a x y z. if IR_IS_CONST_REF (i_op2 x) \<and>
         ones_shr n (val (i_val (ir_base ctx (i_op2 x))) AND msk) = val (i_val y) then Fold_Copy (i_op1 a) else Fold_Next)"
    "k = IR_SHL \<Longrightarrow> sound_rule (ks, \<lambda>h ctx a x y z. if IR_IS_CONST_REF (i_op2 x) \<and>
         ones_shl n (val (i_val (ir_base ctx (i_op2 x))) AND msk) = val (i_val y) then Fold_Copy (i_op1 a) else Fold_Next)"
proof -
  note r = const_rhs_rule [where Q = "\<lambda>t. arith_type t \<and> type_bits t = 2 ^ m", OF keys]
  have gen: "step_ok h ctx \<rho> a v (Fold_Copy (i_op1 a))"
    if site: "fold_site h ctx \<rho> a v" and d: "den ctx \<rho> (i_op1 a) = Some (t1, v1)" "t1 = i_type x" "inner h ctx \<rho> x v1" "i_op x = k"
      and t2: "arith_type t2" "type_bits t2 = 2 ^ m" and sem: "sem_bin h IR_AND (i_type a) t1 t2 v1 (cv t2 (i_val y)) = Some v"
      and k: "k = IR_SHR \<or> k = IR_SHL" and c: "IR_IS_CONST_REF (i_op2 x)"
      and ones: "(if k = IR_SHR then ones_shr else ones_shl) n (val (i_val (ir_base ctx (i_op2 x))) AND msk) = val (i_val y)"
    for h ctx \<rho> a v t1 v1 x t2 y
  proof -
    note b = bits_rhs [OF sem t2(1) t2(2) [folded n(1)]]
    have u: "binary_op (i_op x)" using d(4) k by (auto simp: key_simps)
    obtain p i q j where x: "den ctx \<rho> (i_op1 x) = Some (p, i)" "okval p i" "den ctx \<rho> (i_op2 x) = Some (q, j)" "okval q j"
      "sem_bin h k t1 p q i j = Some v1" using d(2-4) unfolding inner_bin [OF u] bin_at_def by auto
    have so: "shift_ok t1 p q j" using x(5) k by (auto simp: shift_Some)
    note sc = shift_count [OF site x(3,4) c so]
    have "compat p t1" using so by (simp add: shift_ok_def)
    then have f: "fits n i" using okval_fits [OF x(2)] compat_bits [of p t1] b(2) by simp
    have le: "nat j \<le> n" using sc(2,3) b(2) by simp
    have j: "val (i_val (ir_base ctx (i_op2 x))) AND msk = int (nat j)"
      using count_mask [OF sc(2) _ n(2) sc(1)] sc(2,3) b(2) n val by simp
    have "take_bit n (val (i_val y)) = val (i_val y)" using val by simp
    then have "v = v1"
      using b(4) val ones [unfolded j] and_ones(1,2) [OF f le] x(5) k b(2) by (auto simp: shift_Some wrap_def)
    then show ?thesis using d(1) b(1) by (auto simp: copy_ok_def)
  qed
  show "sound_rule (ks, \<lambda>h ctx a x y z. if IR_IS_CONST_REF (i_op2 x) \<and>
         ones_shr n (val (i_val (ir_base ctx (i_op2 x))) AND msk) = val (i_val y) then Fold_Copy (i_op1 a) else Fold_Next)" if k: "k = IR_SHR"
  proof (rule r, simp add: key_simps, goal_cases)
    case (1 h ctx \<rho> a v x y z op t1 v1 t2)
    show ?case using gen [OF 1(2,9,11,13), of t2 y] 1(1,7,17,18) k by simp
  qed
  show "sound_rule (ks, \<lambda>h ctx a x y z. if IR_IS_CONST_REF (i_op2 x) \<and>
         ones_shl n (val (i_val (ir_base ctx (i_op2 x))) AND msk) = val (i_val y) then Fold_Copy (i_op1 a) else Fold_Next)" if k: "k = IR_SHL"
  proof (rule r, simp add: key_simps, goal_cases)
    case (1 h ctx \<rho> a v x y z op t1 v1 t2)
    show ?case using gen [OF 1(2,9,11,13), of t2 y] 1(1,7,17,18) k by simp
  qed
qed


lemma shift_and_rule:
  assumes keys: "\<forall>(op, k1, k2)\<in>set ks. op \<in> {o'} \<and> k1 = IR_AND \<and> IR_IS_CONST_OP k2 \<and> (arith_type (const_type k2) \<and> type_bits (const_type k2) = 2 ^ m)"
    and n: "n = 2 ^ m" "m < 7" "msk = mask m" and val: "\<forall>w. val w = take_bit n (uint w)"
  shows "o' = IR_SHL \<Longrightarrow> sound_rule (ks, \<lambda>h ctx a x y z. if IR_IS_CONST_REF (i_op2 x) \<and>
         ones_shr n (val (i_val y) AND msk) = val (i_val (ir_base ctx (i_op2 x)))
       then Fold_Restart ctx (a\<lparr>i_op1 := i_op1 x\<rparr>) else Fold_Next)"
    "o' = IR_SHR \<Longrightarrow> sound_rule (ks, \<lambda>h ctx a x y z. if IR_IS_CONST_REF (i_op2 x) \<and>
         ones_shl n (val (i_val y) AND msk) = val (i_val (ir_base ctx (i_op2 x)))
       then Fold_Restart ctx (a\<lparr>i_op1 := i_op1 x\<rparr>) else Fold_Next)"
proof -
  note r = const_rhs_rule [where Q = "\<lambda>t. arith_type t \<and> type_bits t = 2 ^ m", OF keys]
  have gen: "step_ok h ctx \<rho> a v (Fold_Restart ctx (a\<lparr>i_op1 := i_op1 x\<rparr>))"
    if site: "fold_site h ctx \<rho> a v" and a: "i_op a = o'" "\<not> fold_excluded ctx a" "x = ir_base ctx (i_op1 a)" "y = ir_base ctx (i_op2 a)"
      and d: "den ctx \<rho> (i_op1 a) = Some (t1, v1)" "t1 = i_type x" "inner h ctx \<rho> x v1" "i_op x = IR_AND"
      and d2: "den ctx \<rho> (i_op2 a) = Some (t2, cv t2 (i_val y))" "canonical t2 (i_val y)" "i_type y = t2"
      and t2: "arith_type t2" "type_bits t2 = 2 ^ m" and sem: "sem_bin h o' (i_type a) t1 t2 v1 (cv t2 (i_val y)) = Some v"
      and k: "o' = IR_SHR \<or> o' = IR_SHL" and c: "IR_IS_CONST_REF (i_op2 x)"
      and ones: "(if o' = IR_SHL then ones_shr else ones_shl) n (val (i_val y) AND msk) = val (i_val (ir_base ctx (i_op2 x)))"
    for h ctx \<rho> a v t1 v1 x t2 y
  proof -
    have so: "shift_ok (i_type a) t1 t2 (cv t2 (i_val y))" using sem k by (auto simp: shift_Some)
    then have ty: "arith_type (i_type a)" "compat t1 (i_type a)" "ir_type_size t2 \<le> ir_type_size (i_type a)"
      "cv t2 (i_val y) < int (type_bits (i_type a))" by (auto simp: shift_ok_def)
    have "\<not> ir_type_size t2 < ir_type_size (i_type a)"
      using a d(4) d2(3) k by (auto simp: fold_excluded_def excl_arith_def Let_def)
    then have ta: "type_bits (i_type a) = n" using ty(3) t2(2) n(1) by (simp add: type_bits_def)
    have t1: "type_bits t1 = n" using compat_bits [OF ty(2)] ta by simp
    obtain p i q j where x: "den ctx \<rho> (i_op1 x) = Some (p, i)" "okval p i" "den ctx \<rho> (i_op2 x) = Some (q, j)" "okval q j"
      "sem_bin h IR_AND t1 p q i j = Some v1" using d(2-4) by (auto simp: inner_simps)
    have pq: "compat p t1" "compat q t1" "v1 = i AND j" using x(5) by (auto simp: sem_bin_simps sem_bits_Some)
    have f: "fits n i" using okval_fits [OF x(2)] compat_bits [OF pq(1)] t1 by simp
    have "sym_ref ctx (i_op2 x) \<Longrightarrow> excl_sym ctx a x y z" for z using a(1) d(4) k by (auto simp: excl_sym_def)
    then have "\<not> IR_IS_SYM_CONST (i_op (ir_base ctx (i_op2 x)))"
      using a c by (auto simp: fold_excluded_def Let_def sym_ref_def IR_IS_CONST_REF_def)
    then have "j = cv q (i_val (ir_base ctx (i_op2 x)))" by (rule num_const_bits(1) [OF site x(3) c])
    moreover have "q \<noteq> IR_BOOL" using pq(2) ty compat_arith_iff [OF ty(2)] by (auto simp: arith_type_iff compat_def wide_def)
    ultimately have j: "j = val (i_val (ir_base ctx (i_op2 x)))" using compat_bits [OF pq(2)] t1 val by (simp add: cv_def)
    let ?k = "cv t2 (i_val y)"
    have k0: "0 \<le> ?k" using fits_cv [of t2 "i_val y"] t2(1) by (auto simp: fits_def arith_type_iff)
    have "?k \<le> 64" using ty(4) type_bits_le [of "i_type a"] by linarith
    then have uy: "uint (i_val y) = ?k" by (rule canonical_small [OF d2(2) t2(1)])
    have kj: "val (i_val y) AND msk = int (nat ?k)" using count_mask [OF k0 _ n(2) uy] ty(4) ta n val k0 by simp
    have le: "nat ?k \<le> n" using ty(4) ta k0 by simp
    have "take_bit n j = j" using j val by simp
    then have "sem_bin h o' (i_type a) p t2 i ?k = Some v"
      using sem so and_ones(3,4) [OF f le] ones [unfolded kj] pq(3) k ta compat_trans [OF pq(1) ty(2)]
      by (auto simp: shift_Some wrap_def shift_ok_def j)
    then show ?thesis using k a(1) d2(1) x(1) site by (auto intro!: restart_binI simp: key_simps)
  qed
  show "sound_rule (ks, \<lambda>h ctx a x y z. if IR_IS_CONST_REF (i_op2 x) \<and>
         ones_shr n (val (i_val y) AND msk) = val (i_val (ir_base ctx (i_op2 x)))
       then Fold_Restart ctx (a\<lparr>i_op1 := i_op1 x\<rparr>) else Fold_Next)" if k: "o' = IR_SHL"
  proof (rule r, simp add: key_simps k, goal_cases)
    case (1 h ctx \<rho> a v x y z op t1 v1 t2)
    show ?case using gen [OF 1(2) _ 1(4-6,9,11,13) _ 1(14-16)] 1(1,3,7,17,18) k by simp
  qed
  show "sound_rule (ks, \<lambda>h ctx a x y z. if IR_IS_CONST_REF (i_op2 x) \<and>
         ones_shl n (val (i_val y) AND msk) = val (i_val (ir_base ctx (i_op2 x)))
       then Fold_Restart ctx (a\<lparr>i_op1 := i_op1 x\<rparr>) else Fold_Next)" if k: "o' = IR_SHR"
  proof (rule r, simp add: key_simps k, goal_cases)
    case (1 h ctx \<rho> a v x y z op t1 v1 t2)
    show ?case using gen [OF 1(2) _ 1(4-6,9,11,13) _ 1(14-16)] 1(1,3,7,17,18) k by simp
  qed
qed


lemma and_ext_rule:
  assumes keys: "\<forall>(op, k1, k2)\<in>set ks. op \<in> {IR_AND} \<and> k1 = k \<and> IR_IS_CONST_OP k2 \<and> arith_type (const_type k2)"
  shows "k = IR_ZEXT \<Longrightarrow> sound_rule (ks, \<lambda>h ctx a x y z. let n = ir_type_size (i_type (ir_base ctx (i_op1 x)))
       in if n = 1 \<and> i_val y = 0xff \<or> n = 2 \<and> i_val y = 0xffff \<or> n = 4 \<and> i_val y = 0xffffffff then Fold_Copy (i_op1 a) else Fold_Next)"
    "k = IR_SEXT \<Longrightarrow> sound_rule (ks, \<lambda>h ctx a x y z. let n = ir_type_size (i_type (ir_base ctx (i_op1 x)))
       in if n = 1 \<and> i_val y = 0xff \<or> n = 2 \<and> i_val y = 0xffff \<or> n = 4 \<and> i_val y = 0xffffffff
          then Fold_Restart ctx ((set_opt IR_ZEXT (i_type a) a)\<lparr>i_op1 := i_op1 x, i_op2 := IR_UNUSED\<rparr>) else Fold_Next)"
proof -
  note r = const_rhs_rule [where Q = arith_type, OF keys]
  let ?c = "\<lambda>n (w::u64). n = 1 \<and> w = 0xff \<or> n = 2 \<and> w = 0xffff \<or> n = (4::nat) \<and> w = 0xffffffff"
  have m: "?c (ir_type_size s) w \<Longrightarrow> uint w = mask (type_bits s)" for s w
    by (auto simp: type_bits_def mask_eq_exp_minus_1)
  have gen: "\<exists>s w. den ctx \<rho> (i_op1 x) = Some (s, w) \<and> s = i_type (ir_base ctx (i_op1 x)) \<and> sem_un h k t1 s w = Some v1 \<and>
      compat t1 (i_type a) \<and> type_bits s < type_bits (i_type a) \<and> int_type s \<and> int_type (i_type a) \<and>
      (?c (ir_type_size s) (i_val y) \<longrightarrow> v = w)"
    if d: "t1 = i_type x" "inner h ctx \<rho> x v1" "i_op x = k" and t2: "arith_type t2"
      and sem: "sem_bin h IR_AND (i_type a) t1 t2 v1 (cv t2 (i_val y)) = Some v" and k: "k = IR_ZEXT \<or> k = IR_SEXT"
    for h ctx \<rho> and a :: ir_insn and v t1 v1 x t2 y
  proof -
    note b = bits_rhs [OF sem t2 refl]
    have u: "unary_op (i_op x)" using d(3) k by (auto simp: key_simps)
    obtain s w where x: "den ctx \<rho> (i_op1 x) = Some (s, w)" "okval s w" "s = i_type (ir_base ctx (i_op1 x))" "sem_un h k t1 s w = Some v1"
      using d unfolding inner_un [OF u] un_at_def by auto
    have i: "int_type s" "type_bits s < type_bits t1" using x(4) k by (auto simp: conv_Some)
    have f: "fits (type_bits s) w" by (rule okval_fits [OF x(2)])
    have n: "0 < type_bits s" by (rule int_size(2) [OF i(1)])
    have "v = w" if "?c (ir_type_size s) (i_val y)"
    proof -
      have "v = v1 AND mask (type_bits s)" using b(4) m [OF that] i(2) b(2) by (simp add: take_bit_of_mask)
      then have "v = take_bit (type_bits s) v1" by (simp add: take_bit_eq_mask)
      then show ?thesis using x(4) k i(2) take_bit_fits [OF f] n by (auto simp: conv_Some wrap_def min_def)
    qed
    moreover have "int_type (i_type a)" using sem by (auto simp: sem_bin_simps sem_bits_Some)
    ultimately show ?thesis using x b i by auto
  qed
  show "sound_rule (ks, \<lambda>h ctx a x y z. let n = ir_type_size (i_type (ir_base ctx (i_op1 x)))
       in if ?c n (i_val y) then Fold_Copy (i_op1 a) else Fold_Next)" if k: "k = IR_ZEXT"
  proof (rule r, simp add: key_simps, goal_cases)
    case (1 h ctx \<rho> a v x y z op t1 v1 t2)
    have "i_op x = k" "sem_bin h IR_AND (i_type a) t1 t2 v1 (cv t2 (i_val y)) = Some v" using 1(1,7,18) k by simp_all
    from gen [OF 1(11,13) this(1) 1(17) this(2)] k obtain s w where g: "s = i_type (ir_base ctx (i_op1 x))" "sem_un h k t1 s w = Some v1"
      "compat t1 (i_type a)" "?c (ir_type_size s) (i_val y) \<longrightarrow> v = w" by blast
    then show ?case using 1(9) k unfolding Let_def g(1) [symmetric] by (auto simp: copy_ok_def conv_Some)
  qed
  show "sound_rule (ks, \<lambda>h ctx a x y z. let n = ir_type_size (i_type (ir_base ctx (i_op1 x)))
       in if ?c n (i_val y)
          then Fold_Restart ctx ((set_opt IR_ZEXT (i_type a) a)\<lparr>i_op1 := i_op1 x, i_op2 := IR_UNUSED\<rparr>) else Fold_Next)" if k: "k = IR_SEXT"
  proof (rule r, simp add: key_simps, goal_cases)
    case (1 h ctx \<rho> a v x y z op t1 v1 t2)
    have "i_op x = k" "sem_bin h IR_AND (i_type a) t1 t2 v1 (cv t2 (i_val y)) = Some v" using 1(1,7,18) k by simp_all
    from gen [OF 1(11,13) this(1) 1(17) this(2)] k obtain s w where g: "s = i_type (ir_base ctx (i_op1 x))" "den ctx \<rho> (i_op1 x) = Some (s, w)"
      "type_bits s < type_bits (i_type a)" "int_type s" "int_type (i_type a)" "?c (ir_type_size s) (i_val y) \<longrightarrow> v = w" by blast
    have "?c (ir_type_size s) (i_val y) \<Longrightarrow> step_ok h ctx \<rho> a v (Fold_Restart ctx ((set_opt IR_ZEXT (i_type a) a)\<lparr>i_op1 := i_op1 x, i_op2 := IR_UNUSED\<rparr>))"
      by (rule restart_unI [OF 1(2), where ?t1.0 = s and ?v1.0 = w]) (use g in \<open>simp_all add: set_opt_def key_simps conv_Some\<close>)
    then show ?case unfolding Let_def g(1) [symmetric] by simp
  qed
qed

lemma mask_numerals: "(7::int) = mask 3" "(15::int) = mask 4" "(31::int) = mask 5" "(63::int) = mask 6"
  by (simp_all add: mask_eq_exp_minus_1)

lemma val_widths: "\<forall>w. val_u8 w = take_bit 8 (uint w)" "\<forall>w. val_u16 w = take_bit 16 (uint w)"
  "\<forall>w. val_u32 w = take_bit 32 (uint w)" "\<forall>w. val_u64 w = take_bit 64 (uint w)"
  using take_bit_uint [where 'a = 64] by (simp_all add: val_u8_def val_u16_def val_u32_def val_u64_def)

lemma sound_mask: "list_all sound_rule fold_rules_mask"
  unfolding fold_rules_mask_def list.pred_inject
  apply (intro conjI)
  subgoal by (rule and_ext_rule(1) [OF _ refl]) (simp add: rule_simps)
  subgoal by (rule and_ext_rule(2) [OF _ refl]) (simp add: rule_simps)
  subgoal by (rule and_shift_rule(1) [where m = 3, OF _ _ _ mask_numerals(1) val_widths(1) refl]) (simp_all add: rule_simps)
  subgoal by (rule and_shift_rule(1) [where m = 4, OF _ _ _ mask_numerals(2) val_widths(2) refl]) (simp_all add: rule_simps)
  subgoal by (rule and_shift_rule(1) [where m = 5, OF _ _ _ mask_numerals(3) val_widths(3) refl]) (simp_all add: rule_simps)
  subgoal by (rule and_shift_rule(1) [where m = 6, OF _ _ _ mask_numerals(4) val_widths(4) refl]) (simp_all add: rule_simps)
  subgoal by (rule and_shift_rule(2) [where m = 3, OF _ _ _ mask_numerals(1) val_widths(1) refl]) (simp_all add: rule_simps)
  subgoal by (rule and_shift_rule(2) [where m = 4, OF _ _ _ mask_numerals(2) val_widths(2) refl]) (simp_all add: rule_simps)
  subgoal by (rule and_shift_rule(2) [where m = 5, OF _ _ _ mask_numerals(3) val_widths(3) refl]) (simp_all add: rule_simps)
  subgoal by (rule and_shift_rule(2) [where m = 6, OF _ _ _ mask_numerals(4) val_widths(4) refl]) (simp_all add: rule_simps)
  by simp

lemma sound_shift_mask: "list_all sound_rule fold_rules_shift_mask"
  unfolding fold_rules_shift_mask_def list.pred_inject
  apply (intro conjI)
  subgoal by (rule shift_and_rule(1) [where m = 3, OF _ _ _ mask_numerals(1) val_widths(1) refl]) (simp_all add: rule_simps)
  subgoal by (rule shift_and_rule(1) [where m = 4, OF _ _ _ mask_numerals(2) val_widths(2) refl]) (simp_all add: rule_simps)
  subgoal by (rule shift_and_rule(1) [where m = 5, OF _ _ _ mask_numerals(3) val_widths(3) refl]) (simp_all add: rule_simps)
  subgoal by (rule shift_and_rule(1) [where m = 6, OF _ _ _ mask_numerals(4) val_widths(4) refl]) (simp_all add: rule_simps)
  subgoal by (rule shift_and_rule(2) [where m = 3, OF _ _ _ mask_numerals(1) val_widths(1) refl]) (simp_all add: rule_simps)
  subgoal by (rule shift_and_rule(2) [where m = 4, OF _ _ _ mask_numerals(2) val_widths(2) refl]) (simp_all add: rule_simps)
  subgoal by (rule shift_and_rule(2) [where m = 5, OF _ _ _ mask_numerals(3) val_widths(3) refl]) (simp_all add: rule_simps)
  subgoal by (rule shift_and_rule(2) [where m = 6, OF _ _ _ mask_numerals(4) val_widths(4) refl]) (simp_all add: rule_simps)
  subgoal by (rule sound_ruleI) (auto simp: fold_excluded_def excl_cmp_def is_cmp_def)
  by simp

end
