(* ===== verification/Sound_Reassoc.thy ===== *)
theory Sound_Reassoc
  imports Sound_Conv
begin

text \<open>
  Soundness of the reassociation rules of ir_fold.h: chains of additions, subtractions, products
  and bit operations whose constants are combined.
\<close>

section \<open>Arithmetic on the fields of constants\<close>

lemma cv_compat:
  assumes "compat q t" "arith_type t"
  shows "cv q x = wrap t (uint x)" "cv q (x + y) = wrap t (uint x + uint y)" "cv q (x - y) = wrap t (uint x - uint y)"
    "cv q (- x) = wrap t (- cv q x)" "cv q (x * y) = wrap t (uint x * uint y)" "cv q (- (x + y)) = wrap t (- (uint x + uint y))"
proof -
  have q: "q \<noteq> IR_BOOL" using assms compat_arith_iff [OF assms(1)] by (auto simp: arith_type_iff)
  have w: "wrap q = wrap t" by (rule wrap_compat [OF assms(1)])
  have c: "cv q (word_of_int i) = wrap t i" for i using cv_word_of_int [OF q] w by simp
  show "cv q x = wrap t (uint x)" using c [of "uint x"] by simp
  show "cv q (x + y) = wrap t (uint x + uint y)" using c [of "uint x + uint y"] by simp
  show "cv q (x - y) = wrap t (uint x - uint y)" using c [of "uint x - uint y"] by simp
  show "cv q (- x) = wrap t (- cv q x)" using cv_uminus [OF q] w by simp
  show "cv q (x * y) = wrap t (uint x * uint y)" using c [of "uint x * uint y"] by simp
  show "cv q (- (x + y)) = wrap t (- (uint x + uint y))" using c [of "- (uint x + uint y)"] by simp
qed

lemma ref_const_ok:
  assumes "fold_site h ctx \<rho> a v" "t \<noteq> IR_VOID" "den ctx \<rho> r = Some (p, i)" "binary_op op" "sem_bin h op (i_type a) p t i (cv t w) = Some v"
  shows "step_ok h ctx \<rho> a v (fold_ref_const ctx a op r w t)"
  unfolding fold_ref_const_def
  by (rule const_restart_binI [OF assms(1-3), where op = op and t' = "i_type a"]) (use assms(4,5) in simp_all)

lemma const_ref_ok:
  assumes site: "fold_site h ctx \<rho> a v" and t: "t \<noteq> IR_VOID" and d: "den ctx \<rho> r = Some (p, i)"
    and op: "binary_op op" "sem_bin h op (i_type a) t p (cv t w) i = Some v"
  shows "step_ok h ctx \<rho> a v (fold_const_ref ctx a op w t r)"
  unfolding fold_const_ref_def
proof (rule fold_site.const_restart [OF site t])
  fix ctx' q
  assume g: "grows h ctx \<rho> ctx' \<rho>" "den ctx' \<rho> q = Some (t, cv t w)"
  show "eval h ctx' \<rho> (a\<lparr>i_op := op, i_op1 := q, i_op2 := r\<rparr>) = Some v \<and>
      compat (i_type (a\<lparr>i_op := op, i_op1 := q, i_op2 := r\<rparr>)) (i_type a)"
    using eval_binI [of "a\<lparr>i_op := op, i_op1 := q, i_op2 := r\<rparr>" ctx' \<rho>] op g(2) grows_den [OF g(1) d] by simp
qed

text \<open>
  An addition, subtraction or multiplication of a constant and an operation of these kinds, with
  the operands and their values.
\<close>

lemma reassoc_rule:
  assumes keys: "\<forall>(op, k1, k2)\<in>set ks. op \<in> {o'} \<and> k1 = k \<and> IR_IS_CONST_OP k2 \<and> arith_type (const_type k2)"
    and o': "o' \<in> {IR_ADD, IR_SUB, IR_MUL}" "k \<in> {IR_ADD, IR_SUB, IR_MUL}"
    and body: "\<And>h ctx \<rho> a v x y z t2 p q i j. fold_site h ctx \<rho> a v \<Longrightarrow> i_op a = o' \<Longrightarrow> arith_type (i_type a) \<Longrightarrow>
      den ctx \<rho> (i_op1 x) = Some (p, i) \<Longrightarrow> den ctx \<rho> (i_op2 x) = Some (q, j) \<Longrightarrow>
      compat p (i_type a) \<Longrightarrow> compat q (i_type a) \<Longrightarrow> i_type y = t2 \<Longrightarrow> t2 \<noteq> IR_VOID \<Longrightarrow> compat t2 (i_type a) \<Longrightarrow>
      v = wrap (i_type a) (if o' = IR_ADD then (if k = IR_ADD then i + j else if k = IR_SUB then i - j else i * j) + uint (i_val y)
        else if o' = IR_SUB then (if k = IR_ADD then i + j else if k = IR_SUB then i - j else i * j) - uint (i_val y)
        else (if k = IR_ADD then i + j else if k = IR_SUB then i - j else i * j) * uint (i_val y)) \<Longrightarrow>
      step_ok h ctx \<rho> a v (b h ctx a x y z)"
  shows "sound_rule (ks, b)"
proof (rule const_rhs_rule [where Q = arith_type, OF keys], goal_cases)
  case 1
  then show ?case using o' by (auto simp: key_simps)
next
  case (2 h ctx \<rho> a v x y z op t1 v1 t2)
  have op: "op = o'" "i_op x = k" using 2(1,7) o' by auto
  note i = int_addsub [OF 2(18) _ 2(4,3) refl, unfolded op(1), OF o'(1)]
  have u: "binary_op (i_op x)" using op(2) o'(2) by (auto simp: key_simps)
  obtain p i q j where x: "den ctx \<rho> (i_op1 x) = Some (p, i)" "den ctx \<rho> (i_op2 x) = Some (q, j)"
    "sem_bin h k t1 p q i j = Some v1" using 2(11,13) op(2) unfolding inner_bin [OF u] bin_at_def by auto
  have iv: "v1 = wrap (i_type a) (if k = IR_ADD then i + j else if k = IR_SUB then i - j else i * j) \<and>
      compat p (i_type a) \<and> compat q (i_type a)"
    using o'(2) x(3) int_inner(2-4) [OF i(2,1)] by auto
  have t2: "t2 \<noteq> IR_VOID" using 2(17) by (auto simp: arith_type_iff)
  have "v = wrap (i_type a) (if o' = IR_ADD then (if k = IR_ADD then i + j else if k = IR_SUB then i - j else i * j) + uint (i_val y)
        else if o' = IR_SUB then (if k = IR_ADD then i + j else if k = IR_SUB then i - j else i * j) - uint (i_val y)
        else (if k = IR_ADD then i + j else if k = IR_SUB then i - j else i * j) * uint (i_val y))"
    using i(4-6) o'(1) conjunct1 [OF iv] cv_compat(1) [OF i(3,1)] by (auto simp: wrap_absorb)
  then show ?case using body [OF 2(2) _ i(1) x(1,2)] iv 2(3,16) t2 i(3) op by blast
qed

lemma num_opnd_wrap:
  assumes "fold_site h ctx \<rho> a v" "num_const ctx r" "den ctx \<rho> r = Some (q, j)" "compat q t" "arith_type t"
  shows "j = wrap t (uint (i_val (ir_base ctx r)))"
  using fold_site.num_opnd(1) [OF assms(1,3,2)] cv_compat(1) [OF assms(4,5)] by simp

lemma wrap_nested:
  "wrap t (i + wrap t j + k) = wrap t (i + j + k)" "wrap t (i - wrap t j + k) = wrap t (i - j + k)"
  "wrap t (wrap t i + j + k) = wrap t (i + j + k)" "wrap t (wrap t i - j + k) = wrap t (i - j + k)"
  "wrap t (i + wrap t j - k) = wrap t (i + j - k)" "wrap t (i - wrap t j - k) = wrap t (i - j - k)"
  "wrap t (wrap t i + j - k) = wrap t (i + j - k)" "wrap t (wrap t i - j - k) = wrap t (i - j - k)"
  "wrap t (i * wrap t j * k) = wrap t (i * j * k)" "wrap t (k - (i + wrap t j)) = wrap t (k - (i + j))"
  "wrap t (k - (i - wrap t j)) = wrap t (k - (i - j))"
  by (metis wrap_absorb)+

lemma reassoc_lhs_rule:
  assumes keys: "\<forall>(op, k1, k2)\<in>set ks. op \<in> {IR_SUB} \<and> IR_IS_CONST_OP k1 \<and> arith_type (const_type k1) \<and> k2 = k"
    and k: "k \<in> {IR_ADD, IR_SUB}"
    and body: "\<And>h ctx \<rho> a v x y z p q i j. fold_site h ctx \<rho> a v \<Longrightarrow> i_op a = IR_SUB \<Longrightarrow> \<not> excl_arith ctx a x y \<Longrightarrow>
      IR_IS_CONST_OP (i_op x) \<Longrightarrow> i_op y = k \<Longrightarrow> arith_type (i_type a) \<Longrightarrow>
      den ctx \<rho> (i_op1 y) = Some (p, i) \<Longrightarrow> den ctx \<rho> (i_op2 y) = Some (q, j) \<Longrightarrow>
      compat p (i_type a) \<Longrightarrow> compat q (i_type a) \<Longrightarrow> i_type x \<noteq> IR_VOID \<Longrightarrow> compat (i_type x) (i_type a) \<Longrightarrow>
      i_type y \<noteq> IR_VOID \<Longrightarrow> compat (i_type y) (i_type a) \<Longrightarrow>
      v = wrap (i_type a) (uint (i_val x) - (if k = IR_ADD then i + j else i - j)) \<Longrightarrow>
      step_ok h ctx \<rho> a v (b h ctx a x y z)"
  shows "sound_rule (ks, b)"
proof (rule const_lhs_rule [where Q = arith_type, OF keys], simp add: key_simps, goal_cases)
  case (1 h ctx \<rho> a v x y z op t1 t2 v2)
  have op: "op = IR_SUB" "i_op y = k" using 1(1,7) k by auto
  note i = int_addsub [OF 1(18) _ 1(4,3) refl, unfolded op(1), simplified]
  have u: "binary_op (i_op y)" using op(2) k by (auto simp: key_simps)
  obtain p i q j where y: "den ctx \<rho> (i_op1 y) = Some (p, i)" "den ctx \<rho> (i_op2 y) = Some (q, j)"
    "sem_bin h k t2 p q i j = Some v2" using 1(15,17) op(2) unfolding inner_bin [OF u] bin_at_def by auto
  have iv: "v2 = wrap (i_type a) (if k = IR_ADD then i + j else i - j)" "compat p (i_type a)" "compat q (i_type a)"
    using k y(3) int_inner(2-4) [OF i(3,1)] by auto
  have t: "i_type x \<noteq> IR_VOID" "i_type y \<noteq> IR_VOID" "compat (i_type x) (i_type a)" "compat (i_type y) (i_type a)"
    using 1(11,12,15,16) i(2,3) by (auto simp: arith_type_iff)
  have ex: "\<not> excl_arith ctx a x y" using 1(4-6) by (simp add: fold_excluded_def Let_def)
  have "v = wrap (i_type a) (uint (i_val x) - (if k = IR_ADD then i + j else i - j))"
    using i(5) iv(1) cv_compat(1) [OF i(2,1)] by (simp add: wrap_absorb)
  then show ?case by (intro body [OF 1(2) _ ex 1(8) op(2) i(1) y(1,2) iv(2,3) t(1,3,2,4)]) (use 1(3) op in simp_all)
qed

lemmas reassoc_simps = int_arith_simps cv_compat(2-6) wrap_absorb wrap_nested

lemma sound_reassoc_add: "list_all sound_rule fold_rules_reassoc_add"
  unfolding fold_rules_reassoc_add_def list.pred_inject
  apply (intro conjI)
  subgoal by (rule reassoc_rule [where o' = IR_ADD and k = IR_ADD], simp add: rule_simps, simp, simp, (unfold Let_def)?)
    (intro step_ok_if step_ok_simps(1); (rule ref_const_ok const_ref_ok, assumption, simp, assumption, simp add: key_simps);
      drule (4) num_opnd_wrap; simp add: reassoc_simps; simp add: algebra_simps)
  subgoal by (rule reassoc_rule [where o' = IR_ADD and k = IR_ADD], simp add: rule_simps, simp, simp, (unfold Let_def)?)
    (intro step_ok_if step_ok_simps(1); (rule ref_const_ok const_ref_ok, assumption, simp, assumption, simp add: key_simps);
      drule (4) num_opnd_wrap; simp add: reassoc_simps; simp add: algebra_simps)
  subgoal by (rule reassoc_rule [where o' = IR_ADD and k = IR_SUB], simp add: rule_simps, simp, simp, (unfold Let_def)?)
    (intro step_ok_if step_ok_simps(1); (rule ref_const_ok const_ref_ok, assumption, simp, assumption, simp add: key_simps);
      drule (4) num_opnd_wrap; simp add: reassoc_simps; simp add: algebra_simps)
  subgoal by (rule reassoc_rule [where o' = IR_ADD and k = IR_SUB], simp add: rule_simps, simp, simp, (unfold Let_def)?)
    (intro step_ok_if step_ok_simps(1); (rule ref_const_ok const_ref_ok, assumption, simp, assumption, simp add: key_simps);
      drule (4) num_opnd_wrap; simp add: reassoc_simps; simp add: algebra_simps)
  by simp

lemma sound_reassoc_sub: "list_all sound_rule fold_rules_reassoc_sub"
  unfolding fold_rules_reassoc_sub_def list.pred_inject
  apply (intro conjI)
  subgoal by (rule reassoc_rule [where o' = IR_SUB and k = IR_ADD], simp add: rule_simps, simp, simp, (unfold Let_def)?)
    (intro step_ok_if step_ok_simps(1); (rule ref_const_ok const_ref_ok, assumption, simp, assumption, simp add: key_simps);
      drule (4) num_opnd_wrap; simp add: reassoc_simps; simp add: algebra_simps)
  subgoal by (rule reassoc_rule [where o' = IR_SUB and k = IR_ADD], simp add: rule_simps, simp, simp, (unfold Let_def)?)
    (intro step_ok_if step_ok_simps(1); (rule ref_const_ok const_ref_ok, assumption, simp, assumption, simp add: key_simps);
      drule (4) num_opnd_wrap; simp add: reassoc_simps; simp add: algebra_simps)
  subgoal by (rule reassoc_lhs_rule [where k = IR_ADD], simp add: rule_simps, simp)
    (intro step_ok_if step_ok_simps(1); (rule ref_const_ok const_ref_ok, assumption, assumption, assumption, simp add: key_simps);
      drule (4) num_opnd_wrap; simp add: reassoc_simps; simp add: algebra_simps)
  subgoal by (rule reassoc_lhs_rule [where k = IR_ADD], simp add: rule_simps, simp)
    (intro step_ok_if step_ok_simps(1); (rule ref_const_ok const_ref_ok, assumption, assumption, assumption, simp add: key_simps);
      drule (4) num_opnd_wrap; simp add: reassoc_simps; simp add: algebra_simps)
  subgoal by (rule reassoc_rule [where o' = IR_SUB and k = IR_SUB], simp add: rule_simps, simp, simp, (unfold Let_def)?)
    (intro step_ok_if step_ok_simps(1); (rule ref_const_ok const_ref_ok, assumption, simp, assumption, simp add: key_simps);
      drule (4) num_opnd_wrap; simp add: reassoc_simps del: minus_add_distrib; simp add: algebra_simps)
  subgoal by (rule reassoc_rule [where o' = IR_SUB and k = IR_SUB], simp add: rule_simps, simp, simp, (unfold Let_def)?)
    (intro step_ok_if step_ok_simps(1); (rule ref_const_ok const_ref_ok, assumption, simp, assumption, simp add: key_simps);
      drule (4) num_opnd_wrap; simp add: reassoc_simps del: minus_add_distrib; simp add: algebra_simps)
  by simp

text \<open>Where the second constant is the minuend, the rule is excluded.\<close>

lemma const_sub_rule:
  assumes "\<forall>(op, k1, k2)\<in>set ks. op \<in> {IR_SUB} \<and> IR_IS_CONST_OP k1 \<and> arith_type (const_type k1) \<and> k2 = IR_SUB"
  shows "sound_rule (ks, \<lambda>h ctx a x y z. if num_const ctx (i_op2 y)
       then fold_const_ref ctx a (i_op a) (i_val x + cval ctx (i_op2 y)) (i_type x) (i_op1 y)
       else if num_const ctx (i_op1 y) then b h ctx a x y z else Fold_Next)"
proof (rule reassoc_lhs_rule [OF assms], simp, goal_cases)
  case (1 h ctx \<rho> a v x y z p q i j)
  have no: "num_const ctx (i_op2 y) \<or> \<not> num_const ctx (i_op1 y)" using 1(2-5) by (auto simp: excl_arith_def)
  have "step_ok h ctx \<rho> a v (fold_const_ref ctx a (i_op a) (i_val x + cval ctx (i_op2 y)) (i_type x) (i_op1 y))"
    if n: "num_const ctx (i_op2 y)"
  proof (rule const_ref_ok [OF 1(1,11,7)])
    show "binary_op (i_op a)" using 1(2) by (simp add: key_simps)
    have j: "j = wrap (i_type a) (uint (cval ctx (i_op2 y)))" by (rule num_opnd_wrap [OF 1(1) n 1(8,10,6)])
    show "sem_bin h (i_op a) (i_type a) (i_type x) p (cv (i_type x) (i_val x + cval ctx (i_op2 y))) i = Some v"
      using 1(2,6,9,12,15) j by (simp add: reassoc_simps) (simp add: algebra_simps)
  qed
  then show ?case using no by auto
qed

lemma sound_const_sub: "list_all sound_rule fold_rules_const_sub"
  unfolding fold_rules_const_sub_def list.pred_inject
  by (intro conjI const_sub_rule) (simp_all add: rule_simps)

section \<open>Products and bit operations\<close>

lemma mul_mul_rule:
  assumes "\<forall>(op, k1, k2)\<in>set ks. op \<in> {IR_MUL} \<and> k1 = IR_MUL \<and> IR_IS_CONST_OP k2 \<and> arith_type (const_type k2)"
  shows "sound_rule (ks, \<lambda>h ctx a x y z. if num_const ctx (i_op2 x)
       then fold_ref_const ctx a (i_op a) (i_op1 x) (cval ctx (i_op2 x) * i_val y) (i_type y) else Fold_Next)"
  by (rule reassoc_rule [OF assms], simp, simp)
    (intro step_ok_if step_ok_simps(1); (rule ref_const_ok const_ref_ok, assumption, simp, assumption, simp add: key_simps);
      drule (4) num_opnd_wrap; simp add: reassoc_simps; simp add: algebra_simps)

lemma sem_bit_op:
  assumes "op \<in> {IR_AND, IR_OR, IR_XOR}"
  shows "sem_bin h op t t1 t2 i j = Some v \<longleftrightarrow> int_type t \<and> compat t1 t \<and> compat t2 t \<and>
    v = (if op = IR_AND then i AND j else if op = IR_OR then i OR j else i XOR j)"
  using assms by (elim insertE) (simp_all add: sem_bin_simps sem_bits_Some)

lemma bit_bit_rule:
  assumes keys: "\<forall>(op, k1, k2)\<in>set ks. op \<in> {o'} \<and> k1 = o' \<and> IR_IS_CONST_OP k2 \<and> arith_type (const_type k2)"
    and o': "o' \<in> {IR_AND, IR_OR, IR_XOR}"
    and f: "\<And>c d. f c d = (if o' = IR_AND then c AND d else if o' = IR_OR then c OR d else c XOR d)"
  shows "sound_rule (ks, \<lambda>h ctx a x y z. if num_const ctx (i_op2 x)
       then fold_ref_const ctx a (i_op a) (i_op1 x) (f (cval ctx (i_op2 x)) (i_val y)) (i_type y) else Fold_Next)"
proof (rule const_rhs_rule [where Q = arith_type, OF keys], goal_cases)
  case 1
  then show ?case using o' by (auto simp: key_simps)
next
  case (2 h ctx \<rho> a v x y z op t1 v1 t2)
  have op: "op = o'" "i_op x = o'" "binary_op (i_op x)" "binary_op (i_op a)" using 2(1,3,7) o' by (auto simp: key_simps)
  obtain p i q j where x: "den ctx \<rho> (i_op1 x) = Some (p, i)" "den ctx \<rho> (i_op2 x) = Some (q, j)"
    "sem_bin h o' t1 p q i j = Some v1" using 2(11,13) op(2) unfolding inner_bin [OF op(3)] bin_at_def by auto
  have co: "int_type (i_type a)" "compat t1 (i_type a)" "compat t2 (i_type a)" "compat p t1" "compat q t1"
    using 2(18) x(3) unfolding op(1) sem_bit_op [OF o'] by auto
  have t2: "t2 \<noteq> IR_VOID" "t2 \<noteq> IR_BOOL" using 2(17) by (auto simp: arith_type_iff)
  show ?case
  proof (intro step_ok_if step_ok_simps(1))
    assume n: "num_const ctx (i_op2 x)"
    have q: "cv q = cv t2"
      using compat_bits [OF compat_trans [OF co(5) compat_trans [OF co(2) compat_sym [OF co(3)]]]]
        compat_trans [OF co(5) compat_trans [OF co(2) compat_sym [OF co(3)]]] t2(2)
      by (auto simp: cv_def fun_eq_iff)
    have j: "j = cv t2 (cval ctx (i_op2 x))" using fold_site.num_opnd(1) [OF 2(2) x(2) n] q by simp
    show "step_ok h ctx \<rho> a v (fold_ref_const ctx a (i_op a) (i_op1 x) (f (cval ctx (i_op2 x)) (i_val y)) (i_type y))"
    proof (rule ref_const_ok [OF 2(2) _ x(1) op(4)])
      show "i_type y \<noteq> IR_VOID" using 2(16) t2 by simp
      show "sem_bin h (i_op a) (i_type a) p (i_type y) i (cv (i_type y) (f (cval ctx (i_op2 x)) (i_val y))) = Some v"
        using 2(18) x(3) o' j t2(2) co compat_trans [OF co(4,2)] unfolding 2(3,16) op(1) sem_bit_op [OF o'] f
        by (elim insertE) (simp_all add: cv_bits ac_simps)
    qed
  qed
qed

lemma xor_xor_rule:
  "sound_rule ([(IR_XOR, IR_XOR, ANY)],
     \<lambda>h ctx a x y z. if i_op1 x = i_op2 a then Fold_Copy (i_op2 x)
       else if i_op2 x = i_op2 a then Fold_Copy (i_op1 x) else Fold_Next)"
proof (rule bin_rule', simp add: key_simps, goal_cases)
  case (1 h ctx \<rho> a v x y z op k1 k2 t1 v1 t2 v2)
  have op: "op = IR_XOR" "i_op x = IR_XOR" "binary_op (i_op x)" using 1(1,7) by (auto simp: key_simps)
  obtain p i q j where x: "den ctx \<rho> (i_op1 x) = Some (p, i)" "den ctx \<rho> (i_op2 x) = Some (q, j)"
    "sem_bin h IR_XOR t1 p q i j = Some v1" using 1(11,13) op(2) unfolding inner_bin [OF op(3)] bin_at_def by auto
  have co: "compat t1 (i_type a)" "compat p t1" "compat q t1" "v = v1 XOR v2" "v1 = i XOR j"
    using 1(19) x(3) unfolding op(1) by (auto simp: sem_bin_simps sem_bits_Some)
  show ?case
    using x(1,2) 1(14) co compat_trans [OF co(2,1)] compat_trans [OF co(3,1)]
    by (auto simp: copy_ok_def ac_simps)
qed

lemma absorb_excluded:
  "sound_rule ([(IR_AND, IR_AND, ANY), (IR_OR, IR_OR, ANY), (IR_MIN, IR_MIN, ANY), (IR_MAX, IR_MAX, ANY)],
     \<lambda>h ctx a x y z. if i_op1 x = i_op2 a \<or> i_op2 x = i_op2 a then Fold_Copy (i_op2 a) else Fold_Next)"
proof (rule bin_rule', simp add: key_simps, goal_cases)
  case (1 h ctx \<rho> a v x y z op k1 k2 t1 v1 t2 v2)
  have "i_op x = op" "op = IR_AND \<or> op = IR_OR \<or> op = IR_MIN \<or> op = IR_MAX" using 1(1,7) by auto
  moreover have "\<not> excl_arith ctx a x y" using 1(4-6) by (simp add: fold_excluded_def Let_def)
  ultimately have "\<not> (i_op1 x = i_op2 a \<or> i_op2 x = i_op2 a)"
    using 1(3) unfolding excl_arith_def Let_def by (elim disjE) simp_all
  then show ?case by simp
qed

lemma sound_reassoc_bits: "list_all sound_rule fold_rules_reassoc_bits"
  unfolding fold_rules_reassoc_bits_def list.pred_inject
  apply (intro conjI mul_mul_rule xor_xor_rule absorb_excluded)
  subgoal by (simp add: rule_simps)
  subgoal by (simp add: rule_simps)
  subgoal by (rule bit_bit_rule [where o' = IR_AND]) (simp_all add: rule_simps)
  subgoal by (rule bit_bit_rule [where o' = IR_OR]) (simp_all add: rule_simps)
  subgoal by (rule bit_bit_rule [where o' = IR_XOR]) (simp_all add: rule_simps)
  by simp

end
