(* ===== verification/Sound_Swap.thy ===== *)
theory Sound_Swap
  imports Sound_Mask Sound_Reassoc
begin

text \<open>
  Soundness of the rules of ir_fold.h that recognise rotations, that put the operands of
  commutative operations and comparisons in order, and that cancel equal operands.
\<close>

section \<open>Rotations\<close>

definition other_shift :: "ir_op \<Rightarrow> ir_op" where
  "other_shift op = (if op = IR_SHL then IR_SHR else IR_SHL)"

lemma rot_halves:
  assumes "j + k = n"
  shows "take_bit n (push_bit j i) OR drop_bit k i = rol_val n j (i :: int)"
    "drop_bit j i OR take_bit n (push_bit k i) = ror_val n j i"
    "take_bit n (push_bit j i) + drop_bit k (take_bit n i) = take_bit n (push_bit j i) OR drop_bit k (take_bit n i)"
    "drop_bit j (take_bit n i) + take_bit n (push_bit k i) = drop_bit j (take_bit n i) OR take_bit n (push_bit k i)"
proof -
  have k: "n - j = k" using assms by simp
  show "take_bit n (push_bit j i) OR drop_bit k i = rol_val n j i" "drop_bit j i OR take_bit n (push_bit k i) = ror_val n j i"
    by (simp_all add: rol_val_def ror_val_def k)
  show "take_bit n (push_bit j i) + drop_bit k (take_bit n i) = take_bit n (push_bit j i) OR drop_bit k (take_bit n i)"
    by (rule disjunctive_add_eq_or, rule bit_eqI) (use assms in \<open>auto simp: bit_simps\<close>)
  show "drop_bit j (take_bit n i) + take_bit n (push_bit k i) = drop_bit j (take_bit n i) OR take_bit n (push_bit k i)"
    by (rule disjunctive_add_eq_or, rule bit_eqI) (use assms in \<open>auto simp: bit_simps\<close>)
qed

lemma rot_val:
  assumes o1: "o1 \<in> {IR_SHL, IR_SHR}" and i: "fits (type_bits t) i" and n: "j + j' = int (type_bits t)" "0 \<le> j" "0 \<le> j'"
    and s: "sem_bin h o1 t1 p q i j = Some v1" "sem_bin h (other_shift o1) t2 p q' i j' = Some v2" "compat t1 t" "compat t2 t"
    and v: "v = v1 OR v2 \<or> v = wrap t (v1 + v2)"
  shows "sem_bin h (o1 + 3) t1 p q i j = Some v"
proof -
  have tb: "type_bits t1 = type_bits t" "type_bits t2 = type_bits t" using s(3,4) by (simp_all add: compat_bits)
  have w: "wrap t1 = take_bit (type_bits t)" "wrap t2 = take_bit (type_bits t)" "wrap t = take_bit (type_bits t)"
    using tb by (simp_all add: fun_eq_iff wrap_def)
  have ii: "take_bit (type_bits t) i = i" using i by (simp add: fits_iff_take_bit)
  have nn: "nat j + nat j' = type_bits t" using n by linarith
  note r = rot_halves [OF nn, of i, unfolded ii]
  have "fits (type_bits t) (rol_val (type_bits t) (nat j) i)" "fits (type_bits t) (ror_val (type_bits t) (nat j) i)"
    using i by (rule rot_fits)+
  then have f: "take_bit (type_bits t) (rol_val (type_bits t) (nat j) i) = rol_val (type_bits t) (nat j) i"
    "take_bit (type_bits t) (ror_val (type_bits t) (nat j) i) = ror_val (type_bits t) (nat j) i"
    by (simp_all add: fits_iff_take_bit)
  have "v1 OR v2 = (if o1 = IR_SHL then rol_val (type_bits t) (nat j) i else ror_val (type_bits t) (nat j) i) \<and> v1 + v2 = v1 OR v2"
    using o1 s(1,2) by (elim insertE) (simp_all add: other_shift_def shift_Some w r)
  then have "v = (if o1 = IR_SHL then rol_val (type_bits t) (nat j) i else ror_val (type_bits t) (nat j) i)"
    using v f unfolding w by (metis (full_types))
  then show ?thesis using o1 s(1) by (elim insertE) (simp_all add: shift_Some tb)
qed

lemma rot_ok:
  assumes site: "fold_site h ctx \<rho> a v" and d: "den ctx \<rho> r = Some (p, i)" "okval p i" "den ctx \<rho> s = Some (q, j)"
    and o1: "o1 \<in> {IR_SHL, IR_SHR}" and n: "j + j' = int (type_bits (i_type a))" "0 \<le> j" "0 \<le> j'"
    and sem: "sem_bin h o1 t1 p q i j = Some v1" "sem_bin h (other_shift o1) t2 p q' i j' = Some v2"
      "compat t1 (i_type a)" "compat t2 (i_type a)"
    and v: "v = v1 OR v2 \<or> v = wrap (i_type a) (v1 + v2)"
  shows "step_ok h ctx \<rho> a v (Fold_Restart ctx ((set_opt (o1 + 3) t1 a)\<lparr>i_op1 := r, i_op2 := s\<rparr>))"
proof (rule restart_binI [OF site])
  have "compat p t1" using shift_op(2) [OF sem(1)] o1 by auto
  then have "fits (type_bits (i_type a)) i"
    using okval_fits [OF d(2)] compat_bits [of p t1] compat_bits [OF sem(3)] by simp
  from rot_val [OF o1 this n sem v]
  show "sem_bin h (i_op ((set_opt (o1 + 3) t1 a)\<lparr>i_op1 := r, i_op2 := s\<rparr>)) (i_type ((set_opt (o1 + 3) t1 a)\<lparr>i_op1 := r, i_op2 := s\<rparr>)) p q i j = Some v"
    by (simp add: set_opt_def)
qed (use d o1 sem(3) in \<open>auto simp: set_opt_def key_simps\<close>)

text \<open>A count written as the difference of the width and the other count.\<close>

lemma rot_sub_count:
  assumes site: "fold_site h ctx \<rho> a v" and d: "den ctx \<rho> r = Some (q', j')" "den ctx \<rho> s = Some (q, j)" "okval q j"
    and r: "i_op (ir_base ctx r) = IR_SUB" "IR_IS_CONST_REF (i_op1 (ir_base ctx r))" "i_op2 (ir_base ctx r) = s"
      "\<not> sym_ref ctx (i_op1 (ir_base ctx r))" "i_val (ir_base ctx (i_op1 (ir_base ctx r))) = word_of_nat n"
    and b: "n \<le> 64" "j < int n" "arith_type q'"
  shows "j + j' = int n"
proof -
  obtain p1 i1 p2 i2 where u: "bin_at h ctx \<rho> (ir_base ctx r) p1 i1 p2 i2 j'" and q': "q' = i_type (ir_base ctx r)"
    by (rule fold_site.look_bin [OF site d(1)]) (use r(1) in \<open>auto simp: key_simps\<close>)
  have e: "den ctx \<rho> (i_op1 (ir_base ctx r)) = Some (p1, i1)" "p2 = q" "i2 = j" "sem_bin h IR_SUB q' p1 p2 i1 i2 = Some j'"
    using u r(1,3) d(2) q' by (auto simp: bin_at_def)
  have c: "j' = wrap q' (i1 - j)" "compat p1 q'" using int_inner(3) [OF compat_refl b(3) e(4)] e(3) by auto
  have p1: "arith_type p1" using compat_arith_iff [OF c(2)] b(3) by simp
  have "num_const ctx (i_op1 (ir_base ctx r))" using r(2,4) by (simp add: num_const_def sym_ref_def IR_IS_CONST_REF_def)
  then have i1: "i1 = cv p1 (word_of_nat n)" using fold_site.num_opnd(1) [OF site e(1)] r(5) by simp
  have "8 \<le> type_bits p1" using p1 by (cases p1) (simp_all add: arith_type_iff)
  moreover have "8 \<le> type_bits q'" using b(3) by (cases q') (simp_all add: arith_type_iff)
  ultimately have small: "(256::int) \<le> 2 ^ type_bits p1" "(256::int) \<le> 2 ^ type_bits q'"
    using power_increasing [of 8 "type_bits p1" "2::int"] power_increasing [of 8 "type_bits q'" "2::int"] by simp_all
  have "uint (word_of_nat n :: u64) = int n" using b(1) by (simp add: unsigned_of_nat take_bit_nat_eq_self)
  moreover have "int n < 2 ^ type_bits p1" using small(1) b(1) by linarith
  ultimately have i1': "i1 = int n" using p1 i1 by (simp add: cv_def arith_type_iff take_bit_int_eq_self)
  have "0 \<le> int n - j" "int n - j < 2 ^ type_bits q'"
    using okval_fits [OF d(3)] small(2) b(1,2) unfolding fits_def by linarith+
  then have "j' = int n - j" using c(1) i1' by (simp add: wrap_def take_bit_int_eq_self)
  then show ?thesis by simp
qed


lemma sound_rot: "list_all sound_rule fold_rules_rot"
  unfolding fold_rules_rot_def list.pred_inject
proof (intro conjI, rule bin_rule', simp add: key_simps, goal_cases)
  case (1 h ctx \<rho> a v x y z op k1 k2 t1 v1 t2 v2)
  define n where "n = ir_type_size (i_type a) * 8"
  have op: "op = IR_OR \<or> op = IR_ADD" "i_op x \<in> {IR_SHL, IR_SHR}" "i_op y = other_shift (i_op x)" "i_op y \<in> {IR_SHL, IR_SHR}"
    "binary_op (i_op x)" "binary_op (i_op y)" "other_shift (i_op y) = i_op x"
    using 1(1,7,8) by (auto simp: other_shift_def key_simps)
  have ns: "\<not> sym_ref ctx (i_op1 (ir_base ctx (i_op2 x)))" "\<not> sym_ref ctx (i_op1 (ir_base ctx (i_op2 y)))"
    using 1(3,4) op(1) unfolding fold_excluded_def excl_sym_def Let_def 1(5,6) by auto
  obtain p i q j where x: "den ctx \<rho> (i_op1 x) = Some (p, i)" "den ctx \<rho> (i_op2 x) = Some (q, j)"
    "sem_bin h (i_op x) t1 p q i j = Some v1" "okval p i" "okval q j"
    using 1(11,13) unfolding inner_bin [OF op(5)] bin_at_def by auto
  obtain p' i' q' j' where y: "den ctx \<rho> (i_op1 y) = Some (p', i')" "den ctx \<rho> (i_op2 y) = Some (q', j')"
    "sem_bin h (i_op y) t2 p' q' i' j' = Some v2" "okval p' i'" "okval q' j'"
    using 1(16,18) unfolding inner_bin [OF op(6)] bin_at_def by auto
  have co: "compat t1 (i_type a)" "compat t2 (i_type a)" "v = v1 OR v2 \<or> v = wrap (i_type a) (v1 + v2)"
    using op(1) 1(19) int_addsub(2-4) [OF 1(19) _ 1(4,3) refl] by (auto simp: sem_bin_simps sem_bits_Some)
  have tb: "n = type_bits (i_type a)" "type_bits t1 = n" "type_bits t2 = n" "n \<le> 64"
    using compat_bits [OF co(1)] compat_bits [OF co(2)] type_bits_le [of "i_type a"] by (simp_all add: n_def type_bits_def)
  have s: "shift_ok t1 p q j" "shift_ok t2 p' q' j'"
    using x(3) y(3) op(2,4) by (auto simp: shift_Some)
  have lt: "0 \<le> j" "j < int n" "0 \<le> j'" "j' < int n" "arith_type q" "arith_type q'"
    using s okval_fits [OF x(5)] okval_fits [OF y(5)] tb by (auto simp: shift_ok_def fits_def)
  have sum: "j + j' = int n"
    if "IR_IS_CONST_REF (i_op2 x)" "IR_IS_CONST_REF (i_op2 y)" "i_val (ir_base ctx (i_op2 x)) + i_val (ir_base ctx (i_op2 y)) = word_of_nat n"
  proof -
    have "uint (i_val (ir_base ctx (i_op2 x)) + i_val (ir_base ctx (i_op2 y))) = j + j'"
      using shift_count(1) [OF 1(2) x(2,5) that(1) s(1)] shift_count(1) [OF 1(2) y(2,5) that(2) s(2)] lt tb(4)
      by (simp add: uint_word_ariths)
    moreover have "uint (word_of_nat n :: u64) = int n" using tb(4) by (simp add: unsigned_of_nat take_bit_nat_eq_self)
    ultimately show ?thesis using that(3) by simp
  qed
  note rx = rot_ok [OF 1(2) x(1,4,2) op(2) _ lt(1,3) x(3) _ co]
  note ry = rot_ok [OF 1(2) y(1,4,2) op(4) _ lt(3,1) y(3) _ co(2,1)]
  have X: "step_ok h ctx \<rho> a v (Fold_Restart ctx ((set_opt (i_op x + 3) (i_type x) a)\<lparr>i_op1 := i_op1 x, i_op2 := i_op2 x\<rparr>))"
    if "i_op1 x = i_op1 y" "j + j' = int n"
    using rx [of q'] that y op(3) x(1) 1(11) tb(1) by auto
  have Y: "step_ok h ctx \<rho> a v (Fold_Restart ctx ((set_opt (i_op y + 3) (i_type y) a)\<lparr>i_op1 := i_op1 y, i_op2 := i_op2 y\<rparr>))"
    if "i_op1 x = i_op1 y" "j' + j = int n"
    using ry [of q] that x op(7) y(1) 1(16) tb(1) co(3) by (auto simp: ac_simps)
  show ?case unfolding Let_def n_def [symmetric]
  proof (intro step_ok_if step_ok_simps(1), goal_cases)
    case 1
    then show ?case using X sum by blast
  next
    case 2
    then show ?case
      using X rot_sub_count [OF \<open>fold_site h ctx \<rho> a v\<close> y(2) x(2,5) _ _ _ ns(2) _ tb(4) lt(2,6)] by blast
  next
    case 3
    then show ?case
      using Y rot_sub_count [OF \<open>fold_site h ctx \<rho> a v\<close> x(2) y(2,5) _ _ _ ns(1) _ tb(4) lt(4,5)] by blast
  qed
qed simp

section \<open>Operand order and equal operands\<close>

lemma fp_sym: "fp_eq t v w = fp_eq t w v"
  by (auto simp: fp_eq_def)

lemma sem_eq_sym:
  assumes "ci = ci'" "t1 = t2 \<Longrightarrow> cf = cf'"
  shows "sem_eq t t1 t2 ci cf = sem_eq t t2 t1 ci' cf'"
proof (cases "compat t1 t2")
  case True
  have s: "int_type t1 = int_type t2" "compat t2 t1" using compat_sym [OF True] compat_int [OF True] by simp_all
  have "t1 \<noteq> t2 \<Longrightarrow> \<not> (IR_IS_TYPE_FP t1 \<and> t1 = t2) \<and> \<not> (IR_IS_TYPE_FP t2 \<and> t2 = t1)" by blast
  then show ?thesis unfolding sem_eq_def using assms s True by (cases "t1 = t2") auto
next
  case False
  then have "\<not> compat t2 t1" "t1 \<noteq> t2" using compat_sym by auto
  then show ?thesis using False by (simp add: sem_eq_def)
qed

lemma num_inj:
  assumes "fits (type_bits t) v" "fits (type_bits t) w" "num t v = num t w" "t \<noteq> IR_VOID"
  shows "v = w"
  using assms by (auto simp: num_def sval_cases fits_def split: if_splits)

definition commutes :: "ir_op \<Rightarrow> bool" where
  "commutes op \<longleftrightarrow> op \<in> {IR_ADD, IR_MUL, IR_ADD_OV, IR_MUL_OV, IR_AND, IR_OR, IR_XOR, IR_MIN, IR_MAX,
     IR_EQ, IR_NE, IR_ORDERED, IR_UNORDERED}"

lemma sem_commutes:
  assumes "commutes op" "sem_bin h op t t1 t2 v1 v2 = Some v" "okval t1 v1" "okval t2 v2"
    "op \<in> {IR_ADD, IR_MUL, IR_MIN, IR_MAX} \<Longrightarrow> \<not> IR_IS_TYPE_FP t"
  shows "sem_bin h op t t2 t1 v2 v1 = Some v"
proof -
  have mm: "num t v1 = num t v2 \<Longrightarrow> t1 = t \<Longrightarrow> t2 = t \<Longrightarrow> int_type t \<Longrightarrow> v1 = v2"
    using num_inj [of t v1 v2] okval_fits assms(3,4) by (auto simp: int_type_iff)
  consider "op \<in> {IR_ADD, IR_MUL, IR_ADD_OV, IR_MUL_OV, IR_AND, IR_OR, IR_XOR}" | "op \<in> {IR_MIN, IR_MAX}" |
    "op \<in> {IR_EQ, IR_NE, IR_ORDERED, IR_UNORDERED}" using assms(1) by (auto simp: commutes_def)
  then show ?thesis
  proof cases
    case 1
    then show ?thesis using assms(2,5)
      by (elim insertE; simp add: sem_bin_simps sem_arith_Some sem_bits_Some and.commute or.commute xor.commute add.commute mult.commute split: if_splits; blast?)
  next
    case 2
    then show ?thesis using assms(2,5) mm by (elim insertE; simp add: sem_bin_simps sem_minmax_def split: if_splits; fastforce?)
  next
    case 3
    have "sem_eq t t1 t2 (v1 = v2) (fp_eq t1 v1 v2) = sem_eq t t2 t1 (v2 = v1) (fp_eq t2 v2 v1)"
      "sem_eq t t1 t2 (v1 \<noteq> v2) (\<not> fp_eq t1 v1 v2) = sem_eq t t2 t1 (v2 \<noteq> v1) (\<not> fp_eq t2 v2 v1)"
      by (rule sem_eq_sym; auto simp: fp_sym)+
    with 3 show ?thesis using assms(2) by (elim insertE) (auto simp: sem_bin_simps conj_commute disj_commute split: if_splits)
  qed
qed

lemma swap_ok:
  assumes "fold_site h ctx \<rho> a v" "den ctx \<rho> (i_op1 a) = Some (t1, v1)" "den ctx \<rho> (i_op2 a) = Some (t2, v2)"
    "okval t1 v1" "okval t2 v2" "sem_bin h (i_op a) (i_type a) t1 t2 v1 v2 = Some v" "commutes (i_op a)" "\<not> fold_excluded ctx a"
  shows "step_ok h ctx \<rho> a v (fold_swap_ops ctx a)"
    "step_ok h ctx \<rho> a v (Fold_Restart ctx (a\<lparr>i_op1 := i_op2 a, i_op2 := i_op1 a\<rparr>))"
proof -
  have "i_op a \<in> {IR_ADD, IR_MUL, IR_MIN, IR_MAX} \<Longrightarrow> \<not> IR_IS_TYPE_FP (i_type a)"
    using excl_fp [OF assms(8)] by (auto simp: fp_types)
  then have s: "sem_bin h (i_op a) (i_type a) t2 t1 v2 v1 = Some v" by (rule sem_commutes [OF assms(7,6,4,5)])
  have b: "binary_op (i_op a)" using assms(7) by (auto simp: commutes_def key_simps)
  show r: "step_ok h ctx \<rho> a v (Fold_Restart ctx (a\<lparr>i_op1 := i_op2 a, i_op2 := i_op1 a\<rparr>))"
    by (rule restart_binI [OF assms(1)]) (use s b assms(2,3) in simp_all)
  then show "step_ok h ctx \<rho> a v (fold_swap_ops ctx a)" by (simp add: fold_swap_ops_def)
qed

text \<open>The rules of this group look at the two operands alone.\<close>

lemma any_rule:
  assumes keys: "\<forall>(op, k1, k2)\<in>set ks. op \<in> ops \<and> k1 = ANY \<and> k2 = ANY" and ops: "\<forall>op\<in>ops. binary_op op"
    and body: "\<And>h ctx \<rho> a v x y z t1 v1 t2 v2. i_op a \<in> ops \<Longrightarrow> fold_site h ctx \<rho> a v \<Longrightarrow> \<not> fold_excluded ctx a \<Longrightarrow>
      \<not> excl_cmp ctx a x y \<Longrightarrow> den ctx \<rho> (i_op1 a) = Some (t1, v1) \<Longrightarrow> okval t1 v1 \<Longrightarrow> t1 = i_type x \<Longrightarrow>
      den ctx \<rho> (i_op2 a) = Some (t2, v2) \<Longrightarrow> okval t2 v2 \<Longrightarrow> t2 = i_type y \<Longrightarrow>
      sem_bin h (i_op a) (i_type a) t1 t2 v1 v2 = Some v \<Longrightarrow> step_ok h ctx \<rho> a v (b h ctx a x y z)"
  shows "sound_rule (ks, b)"
proof (rule bin_rule', goal_cases)
  case 1
  show ?case using keys ops by fastforce
next
  case (2 h ctx \<rho> a v x y z op k1 k2 t1 v1 t2 v2)
  have "op \<in> ops" using bspec [OF keys 2(1)] by simp
  moreover have "\<not> excl_cmp ctx a x y" using 2(4-6) by (simp add: fold_excluded_def Let_def)
  ultimately show ?case by (intro body [OF _ 2(2,4) _ 2(9,10,11,14,15,16)]) (use 2(3,19) in simp_all)
qed

lemma swap_rules:
  "sound_rule ([(IR_MUL, ANY, ANY), (IR_ORDERED, ANY, ANY), (IR_UNORDERED, ANY, ANY)], \<lambda>h ctx a x y z. fold_swap_ops ctx a)"
  "sound_rule ([(IR_ADD_OV, ANY, ANY), (IR_MUL_OV, ANY, ANY)], \<lambda>h ctx a x y z. if i_op1 a < i_op2 a
       then Fold_Restart ctx (a\<lparr>i_op1 := i_op2 a, i_op2 := i_op1 a\<rparr>) else Fold_Emit a)"
  subgoal by (rule any_rule [where ops = "{IR_MUL, IR_ORDERED, IR_UNORDERED}"], simp, simp add: key_simps)
    (rule swap_ok, assumption+, auto simp: commutes_def)
  subgoal by (rule any_rule [where ops = "{IR_ADD_OV, IR_MUL_OV}"], simp, simp add: key_simps, intro step_ok_if, rule swap_ok)
    (assumption | auto simp: commutes_def)+
  done

lemma add_self_rule:
  "sound_rule ([(IR_ADD, ANY, ANY)], \<lambda>h ctx a x y z. if IR_IS_TYPE_INT (i_type a) \<and> i_op1 a = i_op2 a
       then fold_const_restart ctx 2 (i_type a) (\<lambda>r. (set_opt IR_MUL (i_type a) a)\<lparr>i_op2 := r\<rparr>)
       else fold_swap_ops ctx a)"
proof (rule any_rule [where ops = "{IR_ADD}"], simp, simp add: key_simps, goal_cases)
  case (1 h ctx \<rho> a v x y z t1 v1 t2 v2)
  have op: "i_op a = IR_ADD" using 1(1) by simp
  note i = int_addsub [OF 1(11) _ 1(3) refl refl, unfolded op, simplified]
  have "step_ok h ctx \<rho> a v (fold_const_restart ctx 2 (i_type a) (\<lambda>r. (set_opt IR_MUL (i_type a) a)\<lparr>i_op2 := r\<rparr>))"
    if e: "i_op1 a = i_op2 a"
  proof -
    have "v = wrap (i_type a) (v1 * cv (i_type a) 2)"
      using i(1,4) e 1(5,8) cv_word_of_int [of "i_type a" 2] by (auto simp: wrap_absorb arith_type_iff mult.commute)
    then show ?thesis
      by (intro const_restart_binI [OF 1(2) _ 1(5), where op = IR_MUL and t' = "i_type a"])
        (use i(1,2) in \<open>auto simp: set_opt_def key_simps int_arith_simps\<close>)
  qed
  moreover have "step_ok h ctx \<rho> a v (fold_swap_ops ctx a)"
    by (rule swap_ok [OF 1(2,5,8,6,9,11) _ 1(3)]) (simp add: op commutes_def)
  ultimately show ?case by simp
qed


lemma sub_self_rules:
  "sound_rule ([(IR_SUB, ANY, ANY)], \<lambda>h ctx a x y z. if IR_IS_TYPE_INT (i_type a) \<and> i_op1 a = i_op2 a then IR_FOLD_CONST_U 0 else Fold_Next)"
  "sound_rule ([(IR_SUB_OV, ANY, ANY)], \<lambda>h ctx a x y z. if i_op1 a = i_op2 a then IR_FOLD_CONST_U 0 else Fold_Emit a)"
proof -
  show "sound_rule ([(IR_SUB, ANY, ANY)], \<lambda>h ctx a x y z. if IR_IS_TYPE_INT (i_type a) \<and> i_op1 a = i_op2 a then IR_FOLD_CONST_U 0 else Fold_Next)"
  proof (rule any_rule [where ops = "{IR_SUB}"], simp, simp add: key_simps, goal_cases)
    case (1 h ctx \<rho> a v x y z t1 v1 t2 v2)
    note i = int_addsub [OF 1(11) _ 1(3) refl refl, simplified]
    show ?case using i(1,5) 1(1,5,8) by (auto intro!: const0_ok)
  qed
  show "sound_rule ([(IR_SUB_OV, ANY, ANY)], \<lambda>h ctx a x y z. if i_op1 a = i_op2 a then IR_FOLD_CONST_U 0 else Fold_Emit a)"
    by (rule any_rule [where ops = "{IR_SUB_OV}"], simp, simp add: key_simps)
      (auto simp: sem_bin_simps intro!: const0_ok split: if_splits)
qed

lemma self_copy_rules:
  "sound_rule ([(IR_AND, ANY, ANY), (IR_OR, ANY, ANY), (IR_MIN, ANY, ANY), (IR_MAX, ANY, ANY)],
     \<lambda>h ctx a x y z. if i_op1 a = i_op2 a then Fold_Copy (i_op1 a) else fold_swap_ops ctx a)"
  "sound_rule ([(IR_XOR, ANY, ANY)],
     \<lambda>h ctx a x y z. if i_op1 a = i_op2 a then IR_FOLD_CONST_U 0 else fold_swap_ops ctx a)"
  "sound_rule ([(IR_EQ, ANY, ANY), (IR_NE, ANY, ANY)],
     \<lambda>h ctx a x y z. if i_op1 a \<noteq> i_op2 a then fold_swap_ops ctx a
       else if IR_IS_TYPE_INT (i_type x) then IR_FOLD_BOOL (i_op a = IR_EQ) else Fold_Next)"
proof -
  show "sound_rule ([(IR_AND, ANY, ANY), (IR_OR, ANY, ANY), (IR_MIN, ANY, ANY), (IR_MAX, ANY, ANY)],
     \<lambda>h ctx a x y z. if i_op1 a = i_op2 a then Fold_Copy (i_op1 a) else fold_swap_ops ctx a)"
  proof (rule any_rule [where ops = "{IR_AND, IR_OR, IR_MIN, IR_MAX}"], simp, simp add: key_simps, goal_cases)
    case (1 h ctx \<rho> a v x y z t1 v1 t2 v2)
    have "v = v1 \<and> compat t1 (i_type a)" if "i_op1 a = i_op2 a"
      using that 1(1,5,8,11) by (elim insertE) (auto simp: sem_bin_simps sem_bits_Some sem_minmax_def split: if_splits)
    moreover have "step_ok h ctx \<rho> a v (fold_swap_ops ctx a)"
      by (rule swap_ok [OF 1(2,5,8,6,9,11) _ 1(3)]) (use 1(1) in \<open>auto simp: commutes_def\<close>)
    ultimately show ?case using 1(5) by (auto simp: copy_ok_def)
  qed
  show "sound_rule ([(IR_XOR, ANY, ANY)],
     \<lambda>h ctx a x y z. if i_op1 a = i_op2 a then IR_FOLD_CONST_U 0 else fold_swap_ops ctx a)"
  proof (rule any_rule [where ops = "{IR_XOR}"], simp, simp add: key_simps, goal_cases)
    case (1 h ctx \<rho> a v x y z t1 v1 t2 v2)
    have "step_ok h ctx \<rho> a v (fold_swap_ops ctx a)"
      by (rule swap_ok [OF 1(2,5,8,6,9,11) _ 1(3)]) (use 1(1) in \<open>auto simp: commutes_def\<close>)
    then show ?case using 1(1,5,8,11) by (auto simp: sem_bin_simps sem_bits_Some IR_FOLD_CONST_U_def)
  qed
  show "sound_rule ([(IR_EQ, ANY, ANY), (IR_NE, ANY, ANY)],
     \<lambda>h ctx a x y z. if i_op1 a \<noteq> i_op2 a then fold_swap_ops ctx a
       else if IR_IS_TYPE_INT (i_type x) then IR_FOLD_BOOL (i_op a = IR_EQ) else Fold_Next)"
  proof (rule any_rule [where ops = "{IR_EQ, IR_NE}"], simp, simp add: key_simps, goal_cases)
    case (1 h ctx \<rho> a v x y z t1 v1 t2 v2)
    have "step_ok h ctx \<rho> a v (fold_swap_ops ctx a)"
      by (rule swap_ok [OF 1(2,5,8,6,9,11) _ 1(3)]) (use 1(1) in \<open>auto simp: commutes_def\<close>)
    moreover have "v = of_bool (i_op a = IR_EQ) \<and> i_type a = IR_BOOL" if "i_op1 a = i_op2 a" "IR_IS_TYPE_INT (i_type x)"
      using that 1(1,5,7,8,11) by (auto simp: sem_bin_simps sem_eq_Some fp_types ir_defs)
    ultimately show ?case using fold_site.fold_bool [OF 1(2)] by (intro step_ok_if step_ok_simps(1)) blast+
  qed
qed

lemma xor3: "op \<in> {IR_LT, IR_GE, IR_LE, IR_GT, IR_ULT, IR_UGE, IR_ULE, IR_UGT} \<Longrightarrow>
   sem_bin h op t t1 t2 v1 v2 = Some v \<Longrightarrow> sem_bin h (op XOR 3) t t2 t1 v2 v1 = Some v \<and> t = IR_BOOL"
  using compat_sym [of t1 t2] compat_int [of t1 t2]
  by (elim insertE) (auto simp: sem_bin_simps sem_eq_Some sem_ord_Some)

lemma order_swap_ok:
  assumes "fold_site h ctx \<rho> a v" "den ctx \<rho> (i_op1 a) = Some (t1, v1)" "den ctx \<rho> (i_op2 a) = Some (t2, v2)"
    "i_op a \<in> {IR_LT, IR_GE, IR_LE, IR_GT, IR_ULT, IR_UGE, IR_ULE, IR_UGT}" "sem_bin h (i_op a) (i_type a) t1 t2 v1 v2 = Some v"
  shows "step_ok h ctx \<rho> a v (Fold_Restart ctx (a\<lparr>i_op := i_op a XOR 3, i_op1 := i_op2 a, i_op2 := i_op1 a\<rparr>))"
proof (rule restart_binI [OF assms(1)])
  have "binary_op (i_op a XOR 3)" using assms(4) by (elim insertE) (simp_all add: key_simps)
  then show "binary_op (i_op (a\<lparr>i_op := i_op a XOR 3, i_op1 := i_op2 a, i_op2 := i_op1 a\<rparr>))" by simp
qed (use assms(2,3) conjunct1 [OF xor3 [OF assms(4,5)]] in simp_all)

lemma order_self:
  assumes "i_op a \<in> {IR_LT, IR_GE, IR_LE, IR_GT, IR_ULT, IR_UGE, IR_ULE, IR_UGT}" "fold_site h ctx \<rho> a v"
    "sem_bin h (i_op a) (i_type a) t1 t1 v1 v1 = Some v" "\<not> IR_IS_TYPE_FP t1"
  shows "step_ok h ctx \<rho> a v (IR_FOLD_BOOL (bit (i_op a XOR drop_bit 1 (i_op a)) 0))"
proof -
  have "v = of_bool (bit (i_op a XOR drop_bit 1 (i_op a)) 0)"
    using assms(1,3,4) by (elim insertE) (simp_all add: sem_bin_simps sem_eq_Some sem_ord_Some drop_bit_Suc)
  then show ?thesis using fold_site.fold_bool [OF assms(2)] conjunct2 [OF xor3 [OF assms(1,3)]] by simp
qed

lemma order_rules:
  "sound_rule ([(IR_LT, ANY, ANY), (IR_GE, ANY, ANY), (IR_LE, ANY, ANY), (IR_GT, ANY, ANY)],
     \<lambda>h ctx a x y z. if i_op1 a = i_op2 a then
         (if IR_IS_TYPE_INT (i_type x) then IR_FOLD_BOOL (bit (i_op a XOR drop_bit 1 (i_op a)) 0) else Fold_Next)
       else if i_op1 a < i_op2 a
       then Fold_Restart ctx (a\<lparr>i_op := i_op a XOR 3, i_op1 := i_op2 a, i_op2 := i_op1 a\<rparr>) else Fold_Next)"
  "sound_rule ([(IR_ULT, ANY, ANY), (IR_UGE, ANY, ANY), (IR_ULE, ANY, ANY), (IR_UGT, ANY, ANY)],
     \<lambda>h ctx a x y z. if i_op1 a = i_op2 a then IR_FOLD_BOOL (bit (i_op a XOR drop_bit 1 (i_op a)) 0)
       else if i_op1 a < i_op2 a
       then Fold_Restart ctx (a\<lparr>i_op := i_op a XOR 3, i_op1 := i_op2 a, i_op2 := i_op1 a\<rparr>) else Fold_Next)"
proof -
  show "sound_rule ([(IR_LT, ANY, ANY), (IR_GE, ANY, ANY), (IR_LE, ANY, ANY), (IR_GT, ANY, ANY)],
     \<lambda>h ctx a x y z. if i_op1 a = i_op2 a then
         (if IR_IS_TYPE_INT (i_type x) then IR_FOLD_BOOL (bit (i_op a XOR drop_bit 1 (i_op a)) 0) else Fold_Next)
       else if i_op1 a < i_op2 a
       then Fold_Restart ctx (a\<lparr>i_op := i_op a XOR 3, i_op1 := i_op2 a, i_op2 := i_op1 a\<rparr>) else Fold_Next)"
  proof (rule any_rule [where ops = "{IR_LT, IR_GE, IR_LE, IR_GT}"], simp, simp add: key_simps, goal_cases)
    case (1 h ctx \<rho> a v x y z t1 v1 t2 v2)
    have op: "i_op a \<in> {IR_LT, IR_GE, IR_LE, IR_GT, IR_ULT, IR_UGE, IR_ULE, IR_UGT}" using 1(1) by auto
    have "IR_IS_TYPE_INT (i_type x) \<Longrightarrow> \<not> IR_IS_TYPE_FP t1" using 1(7) by (auto simp: fp_types ir_defs)
    then have "i_op1 a = i_op2 a \<Longrightarrow> IR_IS_TYPE_INT (i_type x) \<Longrightarrow> step_ok h ctx \<rho> a v (IR_FOLD_BOOL (bit (i_op a XOR drop_bit 1 (i_op a)) 0))"
      using order_self [OF op 1(2)] 1(5,8,11) by simp
    then show ?case using order_swap_ok [OF 1(2,5,8) op 1(11)] by (intro step_ok_if step_ok_simps(1))
  qed
  show "sound_rule ([(IR_ULT, ANY, ANY), (IR_UGE, ANY, ANY), (IR_ULE, ANY, ANY), (IR_UGT, ANY, ANY)],
     \<lambda>h ctx a x y z. if i_op1 a = i_op2 a then IR_FOLD_BOOL (bit (i_op a XOR drop_bit 1 (i_op a)) 0)
       else if i_op1 a < i_op2 a
       then Fold_Restart ctx (a\<lparr>i_op := i_op a XOR 3, i_op1 := i_op2 a, i_op2 := i_op1 a\<rparr>) else Fold_Next)"
  proof (rule any_rule [where ops = "{IR_ULT, IR_UGE, IR_ULE, IR_UGT}"], simp, simp add: key_simps, goal_cases)
    case (1 h ctx \<rho> a v x y z t1 v1 t2 v2)
    have op: "i_op a \<in> {IR_LT, IR_GE, IR_LE, IR_GT, IR_ULT, IR_UGE, IR_ULE, IR_UGT}" using 1(1) by auto
    have "IR_ULT \<le> i_op a \<and> i_op a \<le> IR_UGT" using 1(1) by auto
    then have "i_op1 a = i_op2 a \<Longrightarrow> \<not> IR_IS_TYPE_FP t1" using 1(4,7) unfolding excl_cmp_def Let_def by blast
    then have "i_op1 a = i_op2 a \<Longrightarrow>  step_ok h ctx \<rho> a v (IR_FOLD_BOOL (bit (i_op a XOR drop_bit 1 (i_op a)) 0))"
      using order_self [OF op 1(2)] 1(5,8,11) by simp
    then show ?case using order_swap_ok [OF 1(2,5,8) op 1(11)] by (intro step_ok_if step_ok_simps(1))
  qed
qed

lemma sound_swap: "list_all sound_rule fold_rules_swap"
  unfolding fold_rules_swap_def list.pred_inject
  by (intro conjI swap_rules add_self_rule sub_self_rules self_copy_rules order_rules) simp

end
