(* ===== verification/Sound_Cond.thy ===== *)
theory Sound_Cond
  imports Sound_Mask Sound_Reassoc
begin

text \<open>
  Soundness of the rule of ir_fold.h for conditional moves: boolean and integer conditions, and
  conditions that compare with zero.
\<close>

section \<open>Conditional moves\<close>

lemma eval_condI:
  assumes "i_op i = IR_COND" "den ctx \<rho> (i_op1 i) = Some (t1, v1)" "den ctx \<rho> (i_op2 i) = Some (t2, v2)"
    "den ctx \<rho> (i_op3 i) = Some (t3, v3)" "sem_cond (i_type i) t1 t2 t3 v1 v2 v3 = Some v"
  shows "eval h ctx \<rho> i = Some v"
  using assms by (simp add: eval_def key_simps)

lemma true_false_den:
  assumes "fold_site h ctx \<rho> a v"
  shows "den ctx \<rho> IR_TRUE = Some (IR_BOOL, 1)" "den ctx \<rho> IR_FALSE = Some (IR_BOOL, 0)"
  using fold_site.pool [OF assms] by (auto simp: den_def pool_ok_def predefined_ok_def ir_defs cv_def)

lemma truthy_int: "int_type t \<Longrightarrow> truthy t v \<longleftrightarrow> v \<noteq> 0"
  using int_not_fp [of t] by (simp add: truthy_def)

lemma cond_const:
  assumes site: "fold_site h ctx \<rho> a v" and d: "den ctx \<rho> r = Some (t, w)" "IR_IS_CONST_REF r" "\<not> sym_ref ctx r"
  shows "i_val (ir_base ctx r) = 1 \<Longrightarrow> w = 1" "i_val (ir_base ctx r) = 0 \<Longrightarrow> w = 0" "t = i_type (ir_base ctx r)" "t \<noteq> IR_VOID"
proof -
  have n: "num_const ctx r" using d(2,3) by (simp add: num_const_def sym_ref_def IR_IS_CONST_REF_def)
  have "pool_ok ctx" "models h ctx \<rho>" using site by (simp_all add: fold_site_def)
  then show t: "t \<noteq> IR_VOID" using den_okval [of ctx h \<rho> r t w] d(1) by auto
  note c = fold_site.num_opnd [OF site d(1) n]
  show "i_val (ir_base ctx r) = 1 \<Longrightarrow> w = 1" using c(1) type_bits_pos [OF t] by (simp add: cv_def take_bit_int_eq_self)
  show "i_val (ir_base ctx r) = 0 \<Longrightarrow> w = 0" "t = i_type (ir_base ctx r)" using c by simp_all
qed

lemma cond_bool_ok:
  assumes site: "fold_site h ctx \<rho> a v" and op: "i_op a = IR_COND" and d: "den ctx \<rho> (i_op1 a) = Some (IR_BOOL, v1)"
    "den ctx \<rho> (i_op2 a) = Some (t2, v2)" "den ctx \<rho> (i_op3 a) = Some (t3, v3)"
    and ok: "okval IR_BOOL v1" "okval t2 v2" "okval t3 v3" and sem: "sem_cond (i_type a) IR_BOOL t2 t3 v1 v2 v3 = Some v"
    and ns: "\<not> (sym_ref ctx (i_op2 a) \<and> i_val y = 1)" "\<not> (sym_ref ctx (i_op3 a) \<and> i_val z = 0)"
    and yz: "y = ir_base ctx (i_op2 a)" "z = ir_base ctx (i_op3 a)"
    and r: "fold_cond_bool ctx a y z = Some r"
  shows "step_ok h ctx \<rho> a v r"
proof -
  note tf = true_false_den [OF site]
  have c: "compat t2 (i_type a)" "compat t3 (i_type a)" "i_type a \<noteq> IR_VOID" "v = (if v1 \<noteq> 0 then v2 else v3)"
    using sem by (auto simp: sem_cond_Some truthy_int int_type_iff)
  have v1: "v1 = 0 \<or> v1 = 1" using ok(1) by simp
  consider "i_op2 a = IR_TRUE" "i_op3 a = IR_FALSE" "r = Fold_Copy (i_op1 a)"
    | "i_op2 a = IR_TRUE" "r = Fold_Restart ctx ((set_opt IR_OR IR_BOOL a)\<lparr>i_op2 := i_op3 a, i_op3 := IR_UNUSED\<rparr>)"
    | "i_op3 a = IR_FALSE" "r = Fold_Restart ctx ((set_opt IR_AND IR_BOOL a)\<lparr>i_op3 := IR_UNUSED\<rparr>)"
    | "i_op2 a = IR_FALSE" "i_op3 a = IR_TRUE" "r = Fold_Restart ctx ((set_opt IR_NOT IR_BOOL a)\<lparr>i_op2 := IR_UNUSED, i_op3 := IR_UNUSED\<rparr>)"
    | "IR_IS_TYPE_INT (i_type a)" "IR_IS_CONST_REF (i_op2 a)" "IR_IS_CONST_REF (i_op3 a)" "i_val y = 1" "i_val z = 0"
      "r = Fold_Restart ctx ((set_opt (if ir_type_size (i_type a) > 1 then IR_ZEXT else IR_BITCAST)
             (i_type a) a)\<lparr>i_op2 := IR_UNUSED, i_op3 := IR_UNUSED\<rparr>)"
    using r by (auto simp only: fold_cond_bool_def option.inject option.distinct split: if_split_asm)
  then show ?thesis
  proof cases
    case 1
    then show ?thesis using tf d c v1 by (auto simp: copy_ok_def)
  next
    case 2
    have e: "i_type a = IR_BOOL" "t3 = IR_BOOL" "v2 = 1" using 2(1) tf(1) d(2) c(1,2) by auto
    show ?thesis unfolding 2(2)
      by (rule restart_binI [OF site, where ?t1.0 = IR_BOOL and ?v1.0 = v1 and ?t2.0 = IR_BOOL and ?v2.0 = v3])
        (use d e c v1 ok in \<open>auto simp: set_opt_def key_simps sem_bin_simps sem_bits_Some int_type_iff\<close>)
  next
    case 3
    have e: "i_type a = IR_BOOL" "t2 = IR_BOOL" "v3 = 0" using 3(1) tf(2) d(3) c(1,2) by auto
    show ?thesis unfolding 3(2)
      by (rule restart_binI [OF site, where ?t1.0 = IR_BOOL and ?v1.0 = v1 and ?t2.0 = IR_BOOL and ?v2.0 = v2])
        (use d e c v1 ok in \<open>auto simp: set_opt_def key_simps sem_bin_simps sem_bits_Some int_type_iff\<close>)
  next
    case 4
    have e: "i_type a = IR_BOOL" "v2 = 0" "v3 = 1" using 4(1,2) tf d(2,3) c(1,2) by auto
    show ?thesis unfolding 4(3)
      by (rule restart_unI [OF site, where ?t1.0 = IR_BOOL and ?v1.0 = v1])
        (use d e c v1 ok in \<open>auto simp: set_opt_def key_simps sem_un_simps\<close>)
  next
    case 5
    have "v2 = 1" using cond_const(1) [OF site d(2) 5(2)] ns(1) 5(4) yz(1) by auto
    moreover have "v3 = 0" using cond_const(2) [OF site d(3) 5(3)] ns(2) 5(5) yz(2) by auto
    ultimately have v: "v = v1" using c(4) v1 by auto
    have it: "int_type (i_type a)" using 5(1) c(3) by (cases "i_type a") (simp_all add: int_type_iff ir_defs)
    show ?thesis unfolding 5(6)
      by (rule restart_unI [OF site, where ?t1.0 = IR_BOOL and ?v1.0 = v1])
        (use d(1) v v1 it c(3) in \<open>cases "i_type a"; auto simp: set_opt_def key_simps sem_un_simps int_type_iff to_type_def\<close>)+
  qed
qed

lemma cond_int_ok:
  assumes site: "fold_site h ctx \<rho> a v" and d: "den ctx \<rho> (i_op1 a) = Some (t1, v1)"
    "den ctx \<rho> (i_op2 a) = Some (t2, v2)" "den ctx \<rho> (i_op3 a) = Some (t3, v3)" and t1: "int_type t1" "t1 = i_type x"
    and sem: "sem_cond (i_type a) t1 t2 t3 v1 v2 v3 = Some v" and r: "fold_cond_int ctx a x = Some r"
  shows "step_ok h ctx \<rho> a v r"
proof -
  note tf = true_false_den [OF site]
  have c: "compat t2 (i_type a)" "v = (if v1 \<noteq> 0 then v2 else v3)" using sem t1 by (auto simp: sem_cond_Some truthy_int)
  have nv: "i_type x \<noteq> IR_VOID" using t1 by (auto simp: int_type_iff)
  consider (ne) "i_op2 a = IR_TRUE" "i_op3 a = IR_FALSE"
      "r = fold_const_restart ctx 0 (i_type x) (\<lambda>r. (set_opt IR_NE IR_BOOL a)\<lparr>i_op2 := r, i_op3 := IR_UNUSED\<rparr>)"
    | (eq) "i_op2 a = IR_FALSE" "i_op3 a = IR_TRUE"
      "r = fold_const_restart ctx 0 (i_type x) (\<lambda>r. (set_opt IR_EQ IR_BOOL a)\<lparr>i_op2 := r, i_op3 := IR_UNUSED\<rparr>)"
    using r by (auto simp only: fold_cond_int_def option.inject option.distinct split: if_split_asm)
  then show ?thesis
  proof cases
    case ne
    show ?thesis unfolding ne(3)
      by (rule const_restart_binI [OF site nv d(1), where op = IR_NE and t' = IR_BOOL])
        (use ne(1,2) tf d(2,3) c t1 in \<open>auto simp: set_opt_def key_simps sem_bin_simps sem_eq_Some\<close>)
  next
    case eq
    show ?thesis unfolding eq(3)
      by (rule const_restart_binI [OF site nv d(1), where op = IR_EQ and t' = IR_BOOL])
        (use eq(1,2) tf d(2,3) c t1 in \<open>auto simp: set_opt_def key_simps sem_bin_simps sem_eq_Some\<close>)
  qed
qed

text \<open>A condition that compares a value with zero is replaced by the value.\<close>

lemma cond_zero_ok:
  assumes site: "fold_site h ctx \<rho> a v" and op: "i_op a = IR_COND" and d: "den ctx \<rho> (i_op1 a) = Some (t1, v1)"
    "den ctx \<rho> (i_op2 a) = Some (t2, v2)" "den ctx \<rho> (i_op3 a) = Some (t3, v3)"
    and x: "x = ir_base ctx (i_op1 a)" "inner h ctx \<rho> x v1" "t1 = i_type x"
    and sem: "sem_cond (i_type a) t1 t2 t3 v1 v2 v3 = Some v"
    and z: "IR_IS_CONST_REF (i_op2 x)" "IR_IS_TYPE_INT (i_type (ir_base ctx (i_op2 x)))" "i_val (ir_base ctx (i_op2 x)) = 0"
    and ns: "\<not> sym_ref ctx (i_op2 x)"
  shows "i_op x = IR_NE \<Longrightarrow> step_ok h ctx \<rho> a v (Fold_Restart ctx (a\<lparr>i_op1 := i_op1 x\<rparr>))"
    "i_op x = IR_EQ \<Longrightarrow> step_ok h ctx \<rho> a v (Fold_Restart ctx (a\<lparr>i_op1 := i_op1 x, i_op2 := i_op3 a, i_op3 := i_op2 a\<rparr>))"
proof -
  have c: "compat t2 (i_type a)" "compat t3 (i_type a)" "i_type a \<noteq> IR_VOID" "v = (if truthy t1 v1 then v2 else v3)"
    using sem by (auto simp: sem_cond_Some)
  have arg: "\<exists>p i. den ctx \<rho> (i_op1 x) = Some (p, i) \<and> int_type p \<and> p \<noteq> IR_VOID \<and> t1 = IR_BOOL \<and> v1 = of_bool ((i_op x = IR_EQ) = (i = 0))"
    if o: "i_op x \<in> {IR_EQ, IR_NE}"
  proof -
    have b: "binary_op (i_op x)" using o by (auto simp: key_simps)
    obtain p i q j where u: "den ctx \<rho> (i_op1 x) = Some (p, i)" "den ctx \<rho> (i_op2 x) = Some (q, j)"
      "sem_bin h (i_op x) t1 p q i j = Some v1" using x(2,3) unfolding inner_bin [OF b] bin_at_def by auto
    note k = cond_const [OF site u(2) z(1) ns]
    have q: "int_type q" using k(3,4) z(2) by (cases q) (simp_all add: int_type_iff ir_defs)
    have j: "j = 0" using k(2) z(3) by simp
    have "int_type p \<and> t1 = IR_BOOL \<and> v1 = of_bool ((i_op x = IR_EQ) = (i = 0))"
      using o u(3) j q int_not_fp [OF q] by (elim insertE) (auto simp: sem_bin_simps sem_eq_Some)
    then show ?thesis using u(1) int_void by blast
  qed
  show "step_ok h ctx \<rho> a v (Fold_Restart ctx (a\<lparr>i_op1 := i_op1 x\<rparr>))" if "i_op x = IR_NE"
  proof -
    obtain p i where a: "den ctx \<rho> (i_op1 x) = Some (p, i)" "int_type p" "p \<noteq> IR_VOID" "t1 = IR_BOOL" "v1 = of_bool (i \<noteq> 0)"
      using arg \<open>i_op x = IR_NE\<close> by auto
    show ?thesis
      by (rule fold_site.restart_same [OF site], rule eval_condI [where ?t1.0 = p and ?v1.0 = i and ?t2.0 = t2 and ?v2.0 = v2 and ?t3.0 = t3 and ?v3.0 = v3])
        (use op a d c in \<open>auto simp: sem_cond_Some truthy_int int_type_iff\<close>)
  qed
  show "step_ok h ctx \<rho> a v (Fold_Restart ctx (a\<lparr>i_op1 := i_op1 x, i_op2 := i_op3 a, i_op3 := i_op2 a\<rparr>))" if "i_op x = IR_EQ"
  proof -
    obtain p i where a: "den ctx \<rho> (i_op1 x) = Some (p, i)" "int_type p" "p \<noteq> IR_VOID" "t1 = IR_BOOL" "v1 = of_bool (i = 0)"
      using arg \<open>i_op x = IR_EQ\<close> by auto
    show ?thesis
      by (rule fold_site.restart_same [OF site], rule eval_condI [where ?t1.0 = p and ?v1.0 = i and ?t2.0 = t3 and ?v2.0 = v3 and ?t3.0 = t2 and ?v3.0 = v2])
        (use op a d c in \<open>auto simp: sem_cond_Some truthy_int int_type_iff\<close>)
  qed
qed

lemma sound_cond: "list_all sound_rule fold_rules_cond"
  unfolding fold_rules_cond_def list.pred_inject
proof (intro conjI, rule cond_rule, simp, goal_cases)
  case (1 h ctx \<rho> a v x y z k1 k2 t1 v1 t2 v2 t3 v3)
  have p: "pool_ok ctx" "models h ctx \<rho>" using 1(2) by (simp_all add: fold_site_def)
  have ok: "okval t2 v2" "okval t3 v3" using den_okval [OF p 1(13)] den_okval [OF p 1(14)] by blast+
  have ns: "\<not> (sym_ref ctx (i_op2 a) \<and> i_val y = 1)" "\<not> (sym_ref ctx (i_op3 a) \<and> i_val z = 0)"
      "\<not> (sym_ref ctx (i_op2 x) \<and> i_val (ir_base ctx (i_op2 x)) = 0)"
    using 1(3,4) unfolding fold_excluded_def excl_sym_def Let_def 1(5-7) by blast+
  have c: "t1 \<noteq> IR_VOID" "compat t2 (i_type a)" "v = (if truthy t1 v1 then v2 else v3)" using 1(15) by (auto simp: sem_cond_Some)
  have same: "i_op2 a = i_op3 a \<Longrightarrow> copy_ok ctx \<rho> a v (i_op2 a)" using 1(13,14) c by (auto simp: copy_ok_def)
  define f where "f = (if i_type x = IR_BOOL then fold_cond_bool ctx a y z
                  else if IR_IS_TYPE_INT (i_type x) then fold_cond_int ctx a x else None)"
  have some: "step_ok h ctx \<rho> a v r" if "f = Some r" for r
  proof (cases "i_type x = IR_BOOL")
    case True
    with that show ?thesis
      using cond_bool_ok [OF 1(2,3) _ 1(13,14) _ ok _ ns(1,2) 1(6,7)] 1(9,11,12,15) by (simp add: f_def)
  next
    case False
    then have "IR_IS_TYPE_INT (i_type x)" "fold_cond_int ctx a x = Some r" using that by (auto simp: f_def split: if_splits)
    moreover from this(1) have "int_type t1" using c(1) 1(12) by (cases t1) (simp_all add: int_type_iff ir_defs)
    ultimately show ?thesis using cond_int_ok [OF 1(2,9,13,14) _ 1(12,15)] by blast
  qed
  note zero = cond_zero_ok [OF 1(2,3,9,13,14,5,10,12,15)]
  show ?case unfolding f_def [symmetric] Let_def using same some zero ns(3)
    by (cases f) (auto intro!: step_ok_if step_ok_simps(1))
qed simp

end
