(* ===== verification/Fold_Sound.thy ===== *)
theory Fold_Sound
  imports Sound_Swap Sound_Cond
begin

text \<open>
  The engine keeps values: whatever path \<open>ir_folding\<close> takes, through rules, restarts, local CSE,
  emission or a new constant, the reference it returns has the value of the instruction it was
  given.
\<close>

section \<open>The engine\<close>

text \<open>What the builder keeps between calls.\<close>

definition fold_wf :: "ir_ctx \<Rightarrow> bool" where
  "fold_wf ctx \<longleftrightarrow> pool_ok ctx \<and> use_lists ctx = None \<and> 0 < insns_count ctx \<and> 0 < fold_cse_limit ctx \<and>
     (\<forall>op. prev_insn_chain ctx op < insns_count ctx)"

lemma cse_find_spec:
  "cse_find base a limit ref = q \<Longrightarrow> q \<noteq> 0 \<Longrightarrow> limit \<le> q \<and> q \<le> ref \<and> i_op (base q) = i_op a \<and>
     i_type (base q) = i_type a \<and> i_op1 (base q) = i_op1 a \<and> i_op2 (base q) = i_op2 a \<and> i_op3 (base q) = i_op3 a"
proof (induction base a limit ref rule: cse_find.induct)
  case (1 base a limit ref)
  note run = 1(2) [unfolded cse_find.simps [of base a limit ref]]
  show ?case using run 1(1,3) by (auto split: if_splits)
qed

text \<open>The result of a fold: a well-formed context in which nothing lost its value, and a reference.\<close>

definition folded :: "host \<Rightarrow> ir_ctx \<Rightarrow> (ir_ref \<rightharpoonup> int) \<Rightarrow> ir_insn \<Rightarrow> int \<Rightarrow> ir_ctx \<Rightarrow> ir_ref \<Rightarrow> bool" where
  "folded h ctx \<rho> a v ctx' r \<longleftrightarrow>
     fold_wf ctx' \<and> (\<exists>\<rho>'. models h ctx' \<rho>' \<and> den ctx \<rho> \<subseteq>\<^sub>m den ctx' \<rho>' \<and> copy_ok ctx' \<rho>' a v r)"


lemma folded_value:
  assumes wf: "fold_wf ctx" and m: "models h ctx \<rho>" and ev: "eval h ctx \<rho> a = Some v"
    and r: "0 < r" "r < insns_count ctx" and same: "i_op (ir_base ctx r) = i_op a" "i_type (ir_base ctx r) = i_type a"
      "i_op1 (ir_base ctx r) = i_op1 a" "i_op2 (ir_base ctx r) = i_op2 a" "i_op3 (ir_base ctx r) = i_op3 a"
  shows "folded h ctx \<rho> a v ctx r"
proof -
  have "eval h ctx \<rho> (ir_base ctx r) = Some v" using ev eval_cong [OF same] by simp
  then show ?thesis
    using grows_value [OF _ m _ r refl] wf same unfolding folded_def grows_def copy_ok_def fold_wf_def
    by (metis compat_def)
qed

lemma fold_cse_folded:
  assumes wf: "fold_wf ctx" and m: "models h ctx \<rho>" and ev: "eval h ctx \<rho> a = Some v"
    and r: "ir_fold_cse ctx a = r" "r \<noteq> 0"
  shows "folded h ctx \<rho> a v ctx r"
proof -
  obtain limit where "fold_cse_limit ctx \<le> limit" "cse_find (ir_base ctx) a limit (prev_insn_chain ctx (i_op a)) = r"
    by (rule that [of "max (fold_cse_limit ctx) (max (i_op1 a) (max (i_op2 a) (i_op3 a)))"])
      (use r in \<open>auto simp: ir_fold_cse_def Let_def max_def split: if_splits\<close>)
  then have "fold_cse_limit ctx \<le> r" "r \<le> prev_insn_chain ctx (i_op a)"
    and same: "i_op (ir_base ctx r) = i_op a" "i_type (ir_base ctx r) = i_type a"
      "i_op1 (ir_base ctx r) = i_op1 a" "i_op2 (ir_base ctx r) = i_op2 a" "i_op3 (ir_base ctx r) = i_op3 a"
    using cse_find_spec [of "ir_base ctx" a limit] r(2) by fastforce+
  then have "0 < r" "r < insns_count ctx" using wf unfolding fold_wf_def by (meson less_le_trans, meson le_less_trans)
  from folded_value [OF wf m ev this same] show ?thesis .
qed

lemma folded_appended:
  assumes wf: "fold_wf ctx" and m: "models h ctx \<rho>" and ev: "eval h ctx \<rho> a = Some v" and app: "appended ctx a ctx'"
    and "use_lists ctx' = None" "fold_cse_limit ctx' = fold_cse_limit ctx"
    and "\<And>op. prev_insn_chain ctx' op = prev_insn_chain ctx op \<or> prev_insn_chain ctx' op = insns_count ctx"
  shows "folded h ctx \<rho> a v ctx' (insns_count ctx)"
proof -
  have n: "0 < insns_count ctx" "insns_count ctx' = insns_count ctx + 1" "\<And>op. prev_insn_chain ctx op < insns_count ctx"
    using wf app by (auto simp: fold_wf_def appended_def)
  have "prev_insn_chain ctx' op < insns_count ctx'" for op using assms(7) [of op] n(2) n(3) [of op] by auto
  then have "fold_wf ctx'"
    using appended_value(1) [OF _ m ev app n(1)] wf assms(5,6) n by (simp add: fold_wf_def)
  then show ?thesis
    using appended_value [OF _ m ev app n(1)] wf unfolding folded_def fold_wf_def copy_ok_def compat_def by blast
qed

lemma fold_cse_emit_folded:
  assumes wf: "fold_wf ctx" and m: "models h ctx \<rho>" and ev: "eval h ctx \<rho> a = Some v"
    and run: "fold_cse_emit ctx a = (ctx', r)"
  shows "folded h ctx \<rho> a v ctx' r"
proof (cases "ir_fold_cse ctx a = 0")
  case False
  then show ?thesis using fold_cse_folded [OF wf m ev] run by (auto simp: fold_cse_emit_def Let_def)
next
  case True
  obtain c q where e: "ir_emit ctx (i_op a) (i_type a) (i_n a) (i_op1 a) (i_op2 a) (i_op3 a) = (c, q)" by fastforce
  note em = ir_emit_appended [OF e refl refl refl refl refl]
  define n where "n = (if prev_insn_chain c (i_op a) = 0 \<or> q - prev_insn_chain c (i_op a) > 0xffff then 0
    else nat (q - prev_insn_chain c (i_op a)))"
  have c': "ctx' = c\<lparr>ir_base := (ir_base c)(q := (ir_base c q)\<lparr>i_n := n\<rparr>),
      prev_insn_chain := (prev_insn_chain c)(i_op a := q)\<rparr>" "r = q"
    using run True e by (auto simp: fold_cse_emit_def Let_def n_def)
  have "appended ctx a ctx'" using em(1,2) by (auto simp: appended_def c' Let_def)
  then have "folded h ctx \<rho> a v ctx' (insns_count ctx)"
    using em wf by (intro folded_appended [OF wf m ev]) (auto simp: c' fold_wf_def)
  then show ?thesis using c' em(2) by simp
qed

lemma ir_emit_folded:
  assumes wf: "fold_wf ctx" and m: "models h ctx \<rho>" and ev: "eval h ctx \<rho> a = Some v"
    and run: "ir_emit ctx (i_op a) (i_type a) (i_n a) (i_op1 a) (i_op2 a) (i_op3 a) = (ctx', r)"
  shows "folded h ctx \<rho> a v ctx' r"
  using ir_emit_appended [OF run refl refl refl refl refl] wf folded_appended [OF wf m ev]
  by (auto simp: fold_wf_def)

lemma ir_const_folded:
  assumes wf: "fold_wf ctx" and m: "models h ctx \<rho>" and t: "i_type a \<noteq> IR_VOID" "cv (i_type a) w = v"
    and run: "ir_const ctx w (i_type a) = (ctx', r)"
  shows "folded h ctx \<rho> a v ctx' r"
proof -
  have ok: "pool_ok ctx" using wf by (simp add: fold_wf_def)
  note g = ir_const_grows [OF ok m t(1) run]
  have "fold_wf ctx'" using g(1) wf unfolding fold_wf_def grows_def by (metis less_le_trans)
  then show ?thesis using g t(2) unfolding folded_def grows_def copy_ok_def compat_def by blast
qed

section \<open>Every rule\<close>

lemmas sound_groups = sound_eq sound_order sound_uorder sound_nan sound_add sound_sub sound_mul sound_div
  sound_mod_neg_abs sound_ov sound_bitwise sound_shift sound_sar sound_rotate sound_minmax sound_extend
  sound_bitcast sound_fpconv sound_copy sound_cmp_narrow sound_cmp sound_zero sound_addsub sound_muldiv
  sound_and_or sound_xor sound_shift_zero sound_conv sound_mask sound_shift_mask sound_reassoc_add
  sound_reassoc_sub sound_const_sub sound_reassoc_bits sound_rot sound_swap sound_cond

lemma table_sound: "list_all sound_rule fold_table"
  unfolding fold_table_def list_all_append by (intro conjI sound_groups)

text \<open>
  A round of the engine is clean when the constants of the pool are canonical and the instruction
  has none of the shapes for which a rule of ir_fold.h changes the value.
\<close>

definition fold_clean :: "ir_ctx \<Rightarrow> ir_insn \<Rightarrow> bool" where
  "fold_clean ctx a \<longleftrightarrow> canon ctx \<and> \<not> fold_excluded ctx a"

lemma fold_keys_match:
  "k \<in> set (fold_keys (i_op a) (i_op (ir_base ctx (i_op1 a))) (i_op (ir_base ctx (i_op2 a)))) \<Longrightarrow> key_match k ctx a"
  by (auto simp: fold_keys_def key_match_def)

lemma dispatch_ok:
  assumes site: "fold_site h ctx \<rho> a v" and cl: "fold_clean ctx a"
  shows "step_ok h ctx \<rho> a v (fold_dispatch h ctx a (ir_base ctx (i_op1 a)) (ir_base ctx (i_op2 a)) (ir_base ctx (i_op3 a)))"
proof -
  let ?ks = "fold_keys (i_op a) (i_op (ir_base ctx (i_op1 a))) (i_op (ir_base ctx (i_op2 a)))"
  have "step_ok h ctx \<rho> a v (snd R h ctx a (ir_base ctx (i_op1 a)) (ir_base ctx (i_op2 a)) (ir_base ctx (i_op3 a)))"
    if k: "k \<in> set ?ks" "R \<in> set fold_table" "k \<in> set (fst R)" for k R
  proof -
    have "sound_rule R" using table_sound k(2) by (simp add: list_all_iff)
    then show ?thesis using site k(3) fold_keys_match [OF k(1)] cl
      unfolding sound_rule_def fold_clean_def by blast
  qed
  then show ?thesis
    using fold_try_cases [of ?ks h ctx a "ir_base ctx (i_op1 a)" "ir_base ctx (i_op2 a)" "ir_base ctx (i_op3 a)"]
    unfolding fold_dispatch_def by auto
qed

lemma folding_folded:
  assumes "fold_wf ctx" "models h ctx \<rho>" "eval h ctx \<rho> a = Some v"
    and "ir_folding fuel h ctx a (ir_base ctx (i_op1 a)) (ir_base ctx (i_op2 a)) (ir_base ctx (i_op3 a)) = Some e"
    and "list_all (\<lambda>(c, b). fold_clean c b) (fold_trace fuel h ctx a)"
  shows "\<exists>ctx' r. e = Fold_Ref ctx' r \<and> folded h ctx \<rho> a v ctx' r"
  using assms
proof (induction fuel arbitrary: ctx \<rho> a)
  case (Suc fuel)
  let ?r = "fold_dispatch h ctx a (ir_base ctx (i_op1 a)) (ir_base ctx (i_op2 a)) (ir_base ctx (i_op3 a))"
  have cl: "fold_clean ctx a" using Suc.prems(5) by simp
  have nl: "use_lists ctx = None" using Suc.prems(1) by (simp add: fold_wf_def)
  have site: "fold_site h ctx \<rho> a v"
    using Suc.prems(1-3) cl by (simp add: fold_site_def fold_wf_def fold_clean_def)
  note ok = dispatch_ok [OF site cl]
  note void = fold_site.type_ok(1) [OF site]
  show ?case
  proof (cases ?r)
    case (Fold_Restart ctx1 a1)
    then obtain \<rho>1 where r: "grows h ctx \<rho> ctx1 \<rho>1" "eval h ctx1 \<rho>1 a1 = Some v" "compat (i_type a1) (i_type a)"
      using ok by (auto simp: step_ok_def)
    have wf1: "fold_wf ctx1" using r(1) Suc.prems(1) unfolding fold_wf_def grows_def by (metis less_le_trans)
    have "\<exists>ctx' r. e = Fold_Ref ctx' r \<and> folded h ctx1 \<rho>1 a1 v ctx' r"
      using Suc.prems(4,5) r Fold_Restart nl
      by (intro Suc.IH [OF wf1]) (auto simp: fold_leave_def grows_def)
    then obtain ctx' q where q: "e = Fold_Ref ctx' q" "folded h ctx1 \<rho>1 a1 v ctx' q" by blast
    have "folded h ctx \<rho> a v ctx' q"
      using q(2) r(1,3) map_le_trans compat_trans unfolding folded_def grows_def copy_ok_def by metis
    then show ?thesis using q(1) by blast
  next
    case Fold_Next
    obtain ctx' q where "fold_cse_emit ctx a = (ctx', q)" by fastforce
    with Suc.prems Fold_Next nl show ?thesis using fold_cse_emit_folded by (auto simp: fold_leave_def)
  next
    case (Fold_Copy q)
    then have "folded h ctx \<rho> a v ctx q" using ok Suc.prems by (auto simp: folded_def)
    with Suc.prems Fold_Copy nl show ?thesis by (auto simp: fold_leave_def)
  next
    case (Fold_Const w)
    obtain ctx' q where c: "ir_const ctx w (i_type a) = (ctx', q)" by fastforce
    have "folded h ctx \<rho> a v ctx' q"
      using ir_const_folded [OF Suc.prems(1,2) void _ c] ok Fold_Const by simp
    with Suc.prems Fold_Const nl c show ?thesis by (auto simp: fold_leave_def)
  next
    case (Fold_Emit a1)
    obtain ctx' q where c: "ir_emit ctx (i_op a) (i_type a) (i_n a) (i_op1 a) (i_op2 a) (i_op3 a) = (ctx', q)" by fastforce
    have "folded h ctx \<rho> a v ctx' q" by (rule ir_emit_folded [OF Suc.prems(1-3) c])
    with Suc.prems Fold_Emit nl c ok show ?thesis by (auto simp: fold_leave_def)
  next
    case Fold_UB
    then show ?thesis using ok by simp
  qed
qed simp


lemma fold_folded:
  assumes "fold_wf ctx" "models h ctx \<rho>" "eval h ctx \<rho> a = Some v" "ir_fold fuel h ctx a = Some e"
    and "list_all (\<lambda>(c, b). fold_clean c b) (fold_trace fuel h ctx a)"
  shows "\<exists>ctx' r. e = Fold_Ref ctx' r \<and> folded h ctx \<rho> a v ctx' r"
proof (cases "ctx_flags ctx AND IR_OPT_FOLDING = 0")
  case True
  have "pure_op (i_op a)" using eval_okval [OF _ assms(2,3)] assms(1) by (auto simp: fold_wf_def)
  then have "i_op a \<noteq> IR_PHI" by (auto simp: pure_op_def key_simps)
  then show ?thesis using True assms(4) ir_emit_folded [OF assms(1-3)]
    by (auto simp: ir_fold_def Let_def split: prod.splits)
next
  case False
  then show ?thesis using folding_folded [OF assms(1-3) _ assms(5)] assms(4) by (simp add: ir_fold_def)
qed

section \<open>The folding of a fresh context\<close>

lemma fold_find_append: "fold_find (Rs @ Qs) k = (case fold_find Rs k of None \<Rightarrow> fold_find Qs k | Some b \<Rightarrow> Some b)"
  by (induction Rs) simp_all

lemma wf_init: "fold_wf (ir_init mem flags climit ilimit)"
  using pool_ok_init [of mem flags climit ilimit] by (simp add: fold_wf_def ir_init_def)

lemma models_init: "models h ctx Map.empty"
  by (simp add: models_def)

lemma canon_init: "canon (ir_init mem flags climit ilimit)"
proof -
  have "r = IR_NULL \<or> r = IR_FALSE \<or> r = IR_TRUE" if "- 4 < r" "r < 0" for r :: ir_ref using that by presburger
  then show ?thesis
    by (auto simp: canon_def ir_init_def canonical_def cv_def mk_const_def num_def ir_defs)
qed

text \<open>The comparison of the two boolean constants.\<close>

definition eq_insn :: ir_insn where
  "eq_insn = mk_insn IR_EQ IR_BOOL 0 IR_TRUE IR_FALSE IR_UNUSED"

lemma eval_eq_insn: "eval h (ir_init mem flags climit ilimit) Map.empty eq_insn = Some 0"
  by (simp add: eval_def eq_insn_def mk_insn_def mk_const_def den_def ir_init_def key_simps sem_bin_simps sem_eq_def
      mk_bool_def cv_def int_type_iff ir_defs)

interpretation fresh: fold_site h "ir_init mem flags climit ilimit" Map.empty eq_insn 0
  using wf_init [of mem flags climit ilimit] models_init canon_init eval_eq_insn
  by unfold_locales (simp_all add: fold_wf_def)

lemma dispatch_eq_insn:
  assumes "ctx = ir_init mem flags climit ilimit"
  shows "fold_dispatch h ctx eq_insn (ir_base ctx IR_TRUE) (ir_base ctx IR_FALSE) (ir_base ctx IR_UNUSED) = Fold_Copy IR_FALSE"
  by (simp add: assms fold_dispatch_def eq_insn_def mk_insn_def mk_const_def ir_init_def fold_keys_def
      fold_table_def fold_find_append fold_rules_eq_def IR_FOLD_BOOL_def)

lemma clean_eq_insn: "fold_clean (ir_init mem flags climit ilimit) eq_insn"
  using canon_init [of mem flags climit ilimit]
  by (simp add: fold_clean_def fold_excluded_def Let_def excl_cmp_def excl_arith_def excl_sym_def eq_insn_def mk_insn_def
      ir_init_def mk_const_def MAKE_NOP_def ir_defs)



end
