(* ===== verification/Fold_Defects.thy ===== *)
theory Fold_Defects
  imports Fold_Sound
begin

text \<open>
  One of the shapes that \<open>fold_excluded\<close> sets aside, run through the engine: the rule for
  \<open>AND(AND(a, b), b)\<close> copies \<open>b\<close> instead of the inner conjunction.
\<close>

section \<open>A rule that changes the value\<close>

text \<open>Three instructions: the parameters p and q and p AND q.\<close>

definition absorb_ctx :: ir_ctx where
  "absorb_ctx = (let c = ir_init (\<lambda>_. MAKE_NOP) IR_OPT_FOLDING 4 4
     in c\<lparr>ir_base := (ir_base c)(1 := mk_insn IR_PARAM IR_I32 0 0 0 0, 2 := mk_insn IR_PARAM IR_I32 0 0 0 0,
            3 := mk_insn IR_AND IR_I32 0 1 2 0), insns_count := 4\<rparr>)"

definition absorb_insn :: ir_insn where
  "absorb_insn = mk_insn IR_AND IR_I32 0 3 2 0"

definition absorb_vals :: "ir_ref \<rightharpoonup> int" where
  "absorb_vals = [1 \<mapsto> 1, 2 \<mapsto> 3, 3 \<mapsto> 1]"

lemma absorb_site: "fold_wf absorb_ctx \<and> canon absorb_ctx \<and> models h absorb_ctx absorb_vals \<and>
    eval h absorb_ctx absorb_vals absorb_insn = Some 1"
proof -
  let ?c = "ir_init (\<lambda>_. MAKE_NOP) IR_OPT_FOLDING 4 4"
  have b: "r < 0 \<Longrightarrow> ir_base absorb_ctx r = ir_base ?c r" for r by (simp add: absorb_ctx_def Let_def)
  have f: "consts_count absorb_ctx = consts_count ?c" "const_hash absorb_ctx = const_hash ?c" "const_hash_mask absorb_ctx = const_hash_mask ?c"
    by (simp_all add: absorb_ctx_def Let_def)
  have wf: "fold_wf absorb_ctx"
    using pool_ok_cong [OF pool_ok_init b f] by (simp add: fold_wf_def absorb_ctx_def Let_def ir_init_def)
  have ca: "canon absorb_ctx" using canon_init [of "\<lambda>_. MAKE_NOP" IR_OPT_FOLDING 4 4] b f unfolding canon_def by (metis (no_types, lifting))
  have d: "den absorb_ctx absorb_vals 1 = Some (IR_I32, 1)" "den absorb_ctx absorb_vals 2 = Some (IR_I32, 3)"
    "den absorb_ctx absorb_vals 3 = Some (IR_I32, 1)"
    by (simp_all add: den_def absorb_ctx_def Let_def absorb_vals_def mk_insn_def)
  have i: "ir_base absorb_ctx 1 = mk_insn IR_PARAM IR_I32 0 0 0 0" "ir_base absorb_ctx 2 = mk_insn IR_PARAM IR_I32 0 0 0 0"
    "ir_base absorb_ctx 3 = mk_insn IR_AND IR_I32 0 1 2 0" "insns_count absorb_ctx = 4" "consts_count absorb_ctx = 4"
    by (simp_all add: absorb_ctx_def Let_def ir_init_def)
  have a1: "(1::int) AND 3 = 1" by simp
  have e: "eval h absorb_ctx absorb_vals (mk_insn IR_AND IR_I32 0 1 2 0) = Some 1"
    "eval h absorb_ctx absorb_vals absorb_insn = Some 1"
    by (simp_all add: eval_def absorb_insn_def mk_insn_def key_simps d sem_bin_simps sem_bits_Some a1 int_type_iff)
  have "models h absorb_ctx absorb_vals"
    unfolding models_def using i e(1)
    by (auto simp: absorb_vals_def okval_def fits_def mk_insn_def pure_op_def key_simps split: if_splits)
  then show ?thesis using wf ca e(2) by blast
qed

lemma fold_find_skip: "k \<notin> set (concat (map fst Rs)) \<Longrightarrow> fold_find Rs k = None"
  by (induction Rs) auto

lemmas group_defs = fold_rules_eq_def fold_rules_order_def fold_rules_uorder_def fold_rules_nan_def fold_rules_add_def fold_rules_sub_def fold_rules_mul_def fold_rules_div_def fold_rules_mod_neg_abs_def fold_rules_ov_def fold_rules_bitwise_def fold_rules_shift_def fold_rules_sar_def fold_rules_rotate_def fold_rules_minmax_def fold_rules_extend_def fold_rules_bitcast_def fold_rules_fpconv_def fold_rules_copy_def fold_rules_cmp_narrow_def fold_rules_cmp_def fold_rules_zero_def fold_rules_addsub_def fold_rules_muldiv_def fold_rules_and_or_def fold_rules_xor_def fold_rules_shift_zero_def fold_rules_conv_def fold_rules_mask_def fold_rules_shift_mask_def fold_rules_reassoc_add_def fold_rules_reassoc_sub_def fold_rules_const_sub_def fold_rules_reassoc_bits_def fold_rules_rot_def fold_rules_swap_def fold_rules_cond_def

lemma absorb_run: "ir_fold 1 h absorb_ctx absorb_insn = Some (Fold_Ref absorb_ctx 2)"
proof -
  have i: "ir_base absorb_ctx 3 = mk_insn IR_AND IR_I32 0 1 2 0" "ir_base absorb_ctx 2 = mk_insn IR_PARAM IR_I32 0 0 0 0"
    "ctx_flags absorb_ctx = IR_OPT_FOLDING" "use_lists absorb_ctx = None"
    by (simp_all add: absorb_ctx_def Let_def ir_init_def)
  have n: "fold_find fold_table (IR_AND, IR_AND, IR_PARAM) = None" "fold_find fold_table (IR_AND, ANY, IR_PARAM) = None"
    by (rule fold_find_skip, simp add: fold_table_def group_defs)+
  have f: "fold_find fold_table (IR_AND, IR_AND, ANY) =
    Some (\<lambda>h ctx a x y z. if i_op1 x = i_op2 a \<or> i_op2 x = i_op2 a then Fold_Copy (i_op2 a) else Fold_Next)"
    unfolding fold_table_def fold_find_append
    by (simp add: fold_find_skip group_defs)
  show ?thesis
    using n f i by (simp add: ir_fold_def fold_dispatch_def fold_keys_def absorb_insn_def mk_insn_def fold_leave_def)
qed
text \<open>C20: one shape set aside by \<open>fold_excluded\<close> does change the value: with p = 1 and q = 3, (p AND q) AND q is 1, and the engine answers with q, which is 3.\<close>

theorem absorb_defect:
  "\<forall>h. fold_wf absorb_ctx \<and> canon absorb_ctx \<and> models h absorb_ctx absorb_vals \<and>
     eval h absorb_ctx absorb_vals absorb_insn = Some 1 \<and>
     ir_fold 1 h absorb_ctx absorb_insn = Some (Fold_Ref absorb_ctx 2) \<and>
     den absorb_ctx absorb_vals 2 = Some (IR_I32, 3)"
  using absorb_site absorb_run by (simp add: den_def absorb_ctx_def Let_def absorb_vals_def mk_insn_def)

end
