(* ===== verification/Bitset.thy ===== *)
theory Bitset
  imports Bits
begin

text \<open>
  Bit sets of ir_private.h: an array of 64-bit words. Every operation is shown to be the set
  operation it stands for, and the interface the clients rely on is the locale \<open>bounded_set\<close>.
\<close>

section \<open>The operations\<close>

type_synonym ir_bitset = "u64 list"

definition IR_BITSET_BITS :: nat where "IR_BITSET_BITS = 64"

definition ir_bitset_len :: "u32 \<Rightarrow> u32" where
  "ir_bitset_len n = (n + (64 - 1)) div 64"

definition ir_bitset_malloc :: "u32 \<Rightarrow> ir_bitset" where
  "ir_bitset_malloc n = replicate (unat (ir_bitset_len n)) 0"

definition ir_bitset_incl :: "ir_bitset \<Rightarrow> nat \<Rightarrow> ir_bitset" where
  "ir_bitset_incl s n = s[n div IR_BITSET_BITS := s ! (n div IR_BITSET_BITS) OR push_bit (n mod IR_BITSET_BITS) 1]"

definition ir_bitset_excl :: "ir_bitset \<Rightarrow> nat \<Rightarrow> ir_bitset" where
  "ir_bitset_excl s n =
     s[n div IR_BITSET_BITS := s ! (n div IR_BITSET_BITS) AND NOT (push_bit (n mod IR_BITSET_BITS) 1)]"

definition ir_bitset_in :: "ir_bitset \<Rightarrow> nat \<Rightarrow> bool" where
  "ir_bitset_in s n \<longleftrightarrow> s ! (n div IR_BITSET_BITS) AND push_bit (n mod IR_BITSET_BITS) 1 \<noteq> 0"

definition ir_bitset_clear :: "ir_bitset \<Rightarrow> nat \<Rightarrow> ir_bitset" where
  "ir_bitset_clear s len = replicate len 0 @ drop len s"

definition ir_bitset_fill :: "ir_bitset \<Rightarrow> nat \<Rightarrow> ir_bitset" where
  "ir_bitset_fill s len = replicate len (- 1) @ drop len s"

text \<open>A loop over the words that leaves early is a search or a test over the range of indices.\<close>

definition ir_bitset_empty :: "ir_bitset \<Rightarrow> nat \<Rightarrow> bool" where
  "ir_bitset_empty s len = list_all (\<lambda>i. s ! i = 0) [0..<len]"

definition ir_bitset_equal :: "ir_bitset \<Rightarrow> ir_bitset \<Rightarrow> nat \<Rightarrow> bool" where
  "ir_bitset_equal s1 s2 len \<longleftrightarrow> take len s1 = take len s2"

definition ir_bitset_copy :: "ir_bitset \<Rightarrow> ir_bitset \<Rightarrow> nat \<Rightarrow> ir_bitset" where
  "ir_bitset_copy s1 s2 len = take len s2 @ drop len s1"

definition bitset_map :: "(u64 \<Rightarrow> u64 \<Rightarrow> u64) \<Rightarrow> ir_bitset \<Rightarrow> ir_bitset \<Rightarrow> nat \<Rightarrow> ir_bitset" where
  "bitset_map f s1 s2 len = fold (\<lambda>i s1. s1[i := f (s1 ! i) (s2 ! i)]) [0..<len] s1"

definition ir_bitset_intersection :: "ir_bitset \<Rightarrow> ir_bitset \<Rightarrow> nat \<Rightarrow> ir_bitset" where
  "ir_bitset_intersection s1 s2 len = bitset_map (\<lambda>x y. x AND y) s1 s2 len"

definition ir_bitset_union :: "ir_bitset \<Rightarrow> ir_bitset \<Rightarrow> nat \<Rightarrow> ir_bitset" where
  "ir_bitset_union s1 s2 len = bitset_map (\<lambda>x y. x OR y) s1 s2 len"

definition ir_bitset_difference :: "ir_bitset \<Rightarrow> ir_bitset \<Rightarrow> nat \<Rightarrow> ir_bitset" where
  "ir_bitset_difference s1 s2 len = bitset_map (\<lambda>x y. x AND NOT y) s1 s2 len"

definition ir_bitset_is_subset :: "ir_bitset \<Rightarrow> ir_bitset \<Rightarrow> nat \<Rightarrow> bool" where
  "ir_bitset_is_subset s1 s2 len = list_all (\<lambda>i. s1 ! i AND NOT (s2 ! i) = 0) [0..<len]"

definition ir_bitset_first :: "ir_bitset \<Rightarrow> nat \<Rightarrow> int" where
  "ir_bitset_first s len =
     (case find (\<lambda>i. s ! i \<noteq> 0) [0..<len] of
        None \<Rightarrow> -1
      | Some i \<Rightarrow> (case ir_ntzl (s ! i) of None \<Rightarrow> -1 | Some k \<Rightarrow> int (IR_BITSET_BITS * i + k)))"

function bitset_shift_out :: "u64 \<Rightarrow> u32 \<Rightarrow> u32" where
  "bitset_shift_out x j = (let x' = drop_bit 1 x in if x' \<noteq> 0 then bitset_shift_out x' (j + 1) else j + 1)"
  by auto

lemma unat_drop_less: "drop_bit 1 x \<noteq> 0 \<Longrightarrow> unat (drop_bit 1 x) < unat (x :: 'a::len word)"
proof -
  assume "drop_bit 1 x \<noteq> 0"
  then have "x \<noteq> 0" by auto
  then have "0 < unat x" by (simp add: unat_gt_0)
  moreover have "unat (drop_bit 1 x) = unat x div 2" unfolding unat_drop_bit_eq by (simp add: drop_bit_eq_div)
  ultimately show ?thesis by simp
qed

termination bitset_shift_out
  by (relation "measure (\<lambda>(x, j). unat x)") (auto simp: unat_drop_less [simplified])

declare bitset_shift_out.simps [simp del]

definition ir_bitset_last :: "ir_bitset \<Rightarrow> nat \<Rightarrow> int" where
  "ir_bitset_last s len =
     (case find (\<lambda>i. s ! i \<noteq> 0) (rev [0..<len]) of
        None \<Rightarrow> -1
      | Some i \<Rightarrow> sint (bitset_shift_out (s ! i) (word_of_nat (IR_BITSET_BITS * i) - 1)))"

definition ir_bitset_pop_first :: "ir_bitset \<Rightarrow> nat \<Rightarrow> ir_bitset \<times> int" where
  "ir_bitset_pop_first s len =
     (case find (\<lambda>i. s ! i \<noteq> 0) [0..<len] of
        None \<Rightarrow> (s, -1)
      | Some i \<Rightarrow> (let x = s ! i in
          case ir_ntzl x of None \<Rightarrow> (s, -1) | Some k \<Rightarrow> (s[i := x AND (x - 1)], int (IR_BITSET_BITS * i + k))))"

text \<open>\<open>IR_BITSET_FOREACH\<close>: the bits it visits, word by word and from the lowest bit on.\<close>

function word_bits :: "u64 \<Rightarrow> nat \<Rightarrow> nat list" where
  "word_bits x i = (if x \<noteq> 0 then (IR_BITSET_BITS * i + ctz x) # word_bits (x AND (x - 1)) i else [])"
  by auto

lemma unat_clear_less: "x \<noteq> 0 \<Longrightarrow> unat (x AND (x - 1)) < unat (x :: u64)"
proof -
  assume x: "x \<noteq> 0"
  have "x AND (x - 1) \<le> x - 1" by (rule word_and_le1)
  then have "unat (x AND (x - 1)) \<le> unat (x - 1)" by (simp add: word_le_nat_alt)
  also have "\<dots> < unat x" using x by (simp add: unat_minus_one unat_gt_0)
  finally show ?thesis .
qed

termination word_bits
  by (relation "measure (\<lambda>(x, i). unat x)") (auto simp: unat_clear_less)

declare word_bits.simps [simp del]

definition IR_BITSET_FOREACH :: "ir_bitset \<Rightarrow> nat \<Rightarrow> nat list" where
  "IR_BITSET_FOREACH s len = concat (map (\<lambda>i. word_bits (s ! i) i) [0..<len])"

definition IR_BITSET_FOREACH_DIFFERENCE :: "ir_bitset \<Rightarrow> ir_bitset \<Rightarrow> nat \<Rightarrow> nat list" where
  "IR_BITSET_FOREACH_DIFFERENCE s1 s2 len = concat (map (\<lambda>i. word_bits (s1 ! i AND NOT (s2 ! i)) i) [0..<len])"

section \<open>The set a bit set stands for\<close>

definition bits_of :: "ir_bitset \<Rightarrow> nat set" where
  "bits_of s = {n. n < IR_BITSET_BITS * length s \<and> bit (s ! (n div IR_BITSET_BITS)) (n mod IR_BITSET_BITS)}"

lemma bits_of_iff: "n < 64 * length s \<Longrightarrow> n \<in> bits_of s \<longleftrightarrow> bit (s ! (n div 64)) (n mod 64)"
  by (simp add: bits_of_def IR_BITSET_BITS_def)

lemma bits_of_eqI:
  assumes "length s = length s'" "\<And>n. n < 64 * length s \<Longrightarrow> bit (s ! (n div 64)) (n mod 64) \<longleftrightarrow> bit (s' ! (n div 64)) (n mod 64)"
  shows "bits_of s = bits_of s'"
  using assms by (auto simp: bits_of_def IR_BITSET_BITS_def)

lemma bits_of_bound: "bits_of s \<subseteq> {..<64 * length s}"
  by (auto simp: bits_of_def IR_BITSET_BITS_def)

lemma bits_of_update:
  assumes "i < length s"
  shows "n \<in> bits_of (s[i := w]) \<longleftrightarrow> (if n div 64 = i then bit w (n mod 64) else n \<in> bits_of s)"
proof -
  have "n div 64 = i \<Longrightarrow> n < 64 * length s" using assms by linarith
  then show ?thesis using assms by (auto simp: bits_of_def IR_BITSET_BITS_def)
qed

lemma div_mod_64: "(n::nat) div 64 = m div 64 \<Longrightarrow> n mod 64 = m mod 64 \<Longrightarrow> n = m"
  by (metis div_mult_mod_eq)

lemma bits_in: "n < 64 * length s \<Longrightarrow> ir_bitset_in s n \<longleftrightarrow> n \<in> bits_of s"
proof -
  assume "n < 64 * length s"
  moreover have "w AND push_bit k 1 \<noteq> 0 \<longleftrightarrow> bit w k" if "k < 64" for w :: u64 and k
    using that by (metis bit_and_iff bit_push_bit_iff_nat bit_1_iff bit_0 and_exp_eq_0_iff_not_bit push_bit_of_1)
  ultimately show ?thesis by (simp add: ir_bitset_in_def bits_of_iff IR_BITSET_BITS_def)
qed

lemma bits_incl: "n < 64 * length s \<Longrightarrow> bits_of (ir_bitset_incl s n) = insert n (bits_of s)"
proof -
  assume n: "n < 64 * length s"
  then have i: "n div 64 < length s" by auto
  have "m \<in> bits_of (ir_bitset_incl s n) \<longleftrightarrow> m = n \<or> m \<in> bits_of s" for m
    using n i div_mod_64 [of m n] bits_of_iff [of m s] unfolding ir_bitset_incl_def IR_BITSET_BITS_def bits_of_update [OF i]
    by (auto simp: bit_simps)
  then show ?thesis by auto
qed

lemma bits_excl: "n < 64 * length s \<Longrightarrow> bits_of (ir_bitset_excl s n) = bits_of s - {n}"
proof -
  assume n: "n < 64 * length s"
  then have i: "n div 64 < length s" by auto
  have "m \<in> bits_of (ir_bitset_excl s n) \<longleftrightarrow> m \<noteq> n \<and> m \<in> bits_of s" for m
    using n i div_mod_64 [of m n] bits_of_iff [of m s] unfolding ir_bitset_excl_def IR_BITSET_BITS_def bits_of_update [OF i]
    by (auto simp: bit_simps)
  then show ?thesis by auto
qed

lemma bits_malloc: "bits_of (ir_bitset_malloc n) = {}" "bits_of (replicate len 0) = {}"
  by (auto simp: bits_of_def ir_bitset_malloc_def IR_BITSET_BITS_def)


lemma bits_excl_elem: "n \<in> bits_of s \<Longrightarrow> bits_of (ir_bitset_excl s n) = bits_of s - {n}"
  by (rule bits_excl) (use bits_of_bound in blast)

lemma length_ops [simp]:
  "length (ir_bitset_incl s n) = length s" "length (ir_bitset_excl s n) = length s"
  by (simp_all add: ir_bitset_incl_def ir_bitset_excl_def)

text \<open>Word by word operations.\<close>

lemma fold_words:
  "k \<le> length s1 \<Longrightarrow> fold (\<lambda>i s1. s1[i := f (s1 ! i) (s2 ! i)]) [0..<k] s1 = map (\<lambda>i. f (s1 ! i) (s2 ! i)) [0..<k] @ drop k s1"
proof (induction k)
  case (Suc k)
  then have "k < length s1" by simp
  then show ?case using Suc
    by (simp add: nth_append list_update_append list_update_beyond Cons_nth_drop_Suc [symmetric])
qed simp

lemma bitset_map_nth:
  assumes "len \<le> length s1"
  shows "length (bitset_map f s1 s2 len) = length s1"
    "i < length s1 \<Longrightarrow> bitset_map f s1 s2 len ! i = (if i < len then f (s1 ! i) (s2 ! i) else s1 ! i)"
  using assms by (simp_all add: bitset_map_def fold_words nth_append)

lemma bitset_map_bits:
  assumes "len \<le> length s1" "len \<le> length s2" "\<And>x y n. n < 64 \<Longrightarrow> bit (f x y) n \<longleftrightarrow> op (bit x n) (bit y n)"
  shows "bits_of (bitset_map f s1 s2 len) = {n. if n < 64 * len then op (n \<in> bits_of s1) (n \<in> bits_of s2) else n \<in> bits_of s1}"
proof -
  have "n \<in> bits_of (bitset_map f s1 s2 len) \<longleftrightarrow> (if n < 64 * len then op (n \<in> bits_of s1) (n \<in> bits_of s2) else n \<in> bits_of s1)" for n
  proof (cases "n < 64 * length s1")
    case True
    note m = bitset_map_nth [OF assms(1)]
    have i: "n div 64 < length s1" "n div 64 < len \<longleftrightarrow> n < 64 * len" using True by auto
    have e: "n \<in> bits_of (bitset_map f s1 s2 len) \<longleftrightarrow> bit (bitset_map f s1 s2 len ! (n div 64)) (n mod 64)"
      by (rule bits_of_iff) (simp add: m(1) True)
    show ?thesis
    proof (cases "n < 64 * len")
      case l: True
      then have "n < 64 * length s2" using assms(2) by simp
      then show ?thesis using l e m(2) [OF i(1), of f s2] i(2) assms(3) [of "n mod 64"] bits_of_iff [OF True] bits_of_iff [of n s2] by simp
    next
      case False
      then show ?thesis using e m(2) [OF i(1), of f s2] i(2) bits_of_iff [OF True] by simp
    qed
  next
    case False
    then have "\<not> n < 64 * len" using assms(1) by simp
    moreover have "n \<notin> bits_of s1" "n \<notin> bits_of (bitset_map f s1 s2 len)"
      using False bitset_map_nth(1) [OF assms(1)] by (simp_all add: bits_of_def IR_BITSET_BITS_def)
    ultimately show ?thesis by simp
  qed
  then show ?thesis unfolding set_eq_iff mem_Collect_eq by blast
qed

lemma bits_set_ops:
  assumes "length s1 = len" "length s2 = len"
  shows "bits_of (ir_bitset_intersection s1 s2 len) = bits_of s1 \<inter> bits_of s2"
    "bits_of (ir_bitset_union s1 s2 len) = bits_of s1 \<union> bits_of s2"
    "bits_of (ir_bitset_difference s1 s2 len) = bits_of s1 - bits_of s2"
  using bitset_map_bits [of len s1 s2 "\<lambda>x y. x AND y" "(\<and>)"] bitset_map_bits [of len s1 s2 "\<lambda>x y. x OR y" "(\<or>)"]
    bitset_map_bits [of len s1 s2 "\<lambda>x y. x AND NOT y" "\<lambda>p q. p \<and> \<not> q"] bits_of_bound [of s1] bits_of_bound [of s2] assms
  by (auto simp: ir_bitset_intersection_def ir_bitset_union_def ir_bitset_difference_def bit_simps)

lemma word_zero_iff: "(w :: u64) = 0 \<longleftrightarrow> (\<forall>k<64. \<not> bit w k)"
  using bit_word_eqI [of w 0] by auto

lemma all_words: "list_all (\<lambda>i. g i = (0::u64)) [0..<len] \<longleftrightarrow> (\<forall>n<64 * len. \<not> bit (g (n div 64)) (n mod 64))"
proof
  assume "list_all (\<lambda>i. g i = 0) [0..<len]"
  then show "\<forall>n<64 * len. \<not> bit (g (n div 64)) (n mod 64)" by (auto simp: list_all_iff div_less_iff_less_mult mult.commute)
next
  assume a: "\<forall>n<64 * len. \<not> bit (g (n div 64)) (n mod 64)"
  have "g i = 0" if "i < len" for i
  proof (subst word_zero_iff, intro allI impI)
    fix k :: nat assume "k < 64"
    then show "\<not> bit (g i) k" using a [rule_format, of "64 * i + k"] that by simp
  qed
  then show "list_all (\<lambda>i. g i = 0) [0..<len]" by (simp add: list_all_iff)
qed

lemma bits_tests:
  assumes "length s1 = len" "length s2 = len"
  shows "ir_bitset_empty s1 len \<longleftrightarrow> bits_of s1 = {}" "ir_bitset_is_subset s1 s2 len \<longleftrightarrow> bits_of s1 \<subseteq> bits_of s2"
    "ir_bitset_equal s1 s2 len \<longleftrightarrow> bits_of s1 = bits_of s2"
proof -
  show "ir_bitset_empty s1 len \<longleftrightarrow> bits_of s1 = {}"
    using assms by (auto simp: ir_bitset_empty_def all_words bits_of_def IR_BITSET_BITS_def)
  show sub: "ir_bitset_is_subset s1 s2 len \<longleftrightarrow> bits_of s1 \<subseteq> bits_of s2"
    using assms by (auto simp: ir_bitset_is_subset_def all_words bits_of_def IR_BITSET_BITS_def bit_simps)
  show "ir_bitset_equal s1 s2 len \<longleftrightarrow> bits_of s1 = bits_of s2"
  proof
    assume e: "bits_of s1 = bits_of s2"
    have "s1 ! i = s2 ! i" if "i < len" for i
    proof (rule bit_word_eqI)
      fix k :: nat assume "k < LENGTH(64)"
      then show "bit (s1 ! i) k = bit (s2 ! i) k"
        using that assms e bits_of_iff [of "64 * i + k" s1] bits_of_iff [of "64 * i + k" s2] by simp
    qed
    then show "ir_bitset_equal s1 s2 len" using assms by (simp add: ir_bitset_equal_def list_eq_iff_nth_eq)
  qed (use assms in \<open>simp add: ir_bitset_equal_def\<close>)
qed

section \<open>Visiting the elements\<close>

lemma word_bits_spec:
  "set (word_bits x i) = {64 * i + k |k. bit x k} \<and> sorted_wrt (<) (word_bits x i)"
proof (induction x i rule: word_bits.induct)
  case (1 x i)
  show ?case
  proof (cases "x = 0")
    case True
    then show ?thesis by (subst (1 2) word_bits.simps) simp
  next
    case False
    note c = ctz_props [OF False]
    have u: "x AND (x - 1) = unset_bit (ctz x) x" by (rule and_minus_one_clears_lowest [OF False])
    have b: "bit (x AND (x - 1)) k \<longleftrightarrow> bit x k \<and> k \<noteq> ctz x" for k unfolding u by (auto simp: bit_unset_bit_iff)
    have e: "word_bits x i = (64 * i + ctz x) # word_bits (x AND (x - 1)) i"
      using False by (subst word_bits.simps) (simp add: IR_BITSET_BITS_def)
    note IH = 1(1) [OF False]
    have "ctz x < k" if "bit (x AND (x - 1)) k" for k using that b c(2) [of k] by (meson linorder_neqE_nat)
    then have "\<forall>y\<in>set (word_bits (x AND (x - 1)) i). 64 * i + ctz x < y" using IH by auto
    moreover have "{64 * i + k |k. bit x k} = insert (64 * i + ctz x) {64 * i + k |k. bit (x AND (x - 1)) k}"
      using b c(1) by auto
    ultimately show ?thesis using IH unfolding e by simp
  qed
qed

lemma split_range: "a \<le> b \<Longrightarrow> {n. n < a \<and> P n} \<union> {n. a \<le> n \<and> n < b \<and> P n} = {n. n < b \<and> P (n::nat)}"
  by auto

lemma words_bits_spec:
  "set (concat (map (\<lambda>i. word_bits (g i) i) [0..<len])) = {n. n < 64 * len \<and> bit (g (n div 64)) (n mod 64)} \<and>
   sorted_wrt (<) (concat (map (\<lambda>i. word_bits (g i) i) [0..<len]))"
proof (induction len)
  case (Suc len)
  let ?w = "word_bits (g len) len"
  have w: "set ?w = {64 * len + k |k. bit (g len) k}" "sorted_wrt (<) ?w" using word_bits_spec by auto
  have k: "bit (g len) k \<Longrightarrow> k < 64" for k using bit_imp_le_length [of "g len" k] by simp
  have "set ?w = {n. 64 * len \<le> n \<and> n < 64 * Suc len \<and> bit (g (n div 64)) (n mod 64)}" (is "_ = ?R")
  proof (rule set_eqI)
    fix n
    have "n \<in> ?R \<longleftrightarrow> (\<exists>k<64. n = 64 * len + k \<and> bit (g len) k)"
    proof
      assume "n \<in> ?R"
      then have "n div 64 = len" "n mod 64 < 64" "bit (g (n div 64)) (n mod 64)" by auto
      moreover have "n = 64 * (n div 64) + n mod 64" by simp
      ultimately show "\<exists>k<64. n = 64 * len + k \<and> bit (g len) k" by metis
    qed auto
    then show "n \<in> set ?w \<longleftrightarrow> n \<in> ?R" using w(1) k by auto
  qed
  then have "set (concat (map (\<lambda>i. word_bits (g i) i) [0..<Suc len])) = {n. n < 64 * Suc len \<and> bit (g (n div 64)) (n mod 64)}"
    using conjunct1 [OF Suc] split_range [of "64 * len" "64 * Suc len" "\<lambda>n. bit (g (n div 64)) (n mod 64)"] by simp
  moreover have "\<forall>x\<in>set (concat (map (\<lambda>i. word_bits (g i) i) [0..<len])). \<forall>y\<in>set ?w. x < y"
    unfolding conjunct1 [OF Suc] w(1) by auto
  then have "sorted_wrt (<) (concat (map (\<lambda>i. word_bits (g i) i) [0..<Suc len]))"
    using conjunct2 [OF Suc] w(2) by (simp add: sorted_wrt_append)
  ultimately show ?case by simp
qed simp

lemma sorted_wrt_less_unique:
  "sorted_wrt (<) xs \<Longrightarrow> xs = sorted_list_of_set (set (xs :: nat list))"
  by (metis sorted_list_of_set.idem_if_sorted_distinct strict_sorted_iff)

lemma foreach_sorted:
  "length s = len \<Longrightarrow> IR_BITSET_FOREACH s len = sorted_list_of_set (bits_of s)"
  "length s1 = len \<Longrightarrow> length s2 = len \<Longrightarrow> IR_BITSET_FOREACH_DIFFERENCE s1 s2 len = sorted_list_of_set (bits_of s1 - bits_of s2)"
proof -
  assume "length s = len"
  then have "{n. n < 64 * len \<and> bit (s ! (n div 64)) (n mod 64)} = bits_of s" by (auto simp: bits_of_def IR_BITSET_BITS_def)
  then show "IR_BITSET_FOREACH s len = sorted_list_of_set (bits_of s)"
    using words_bits_spec [of "\<lambda>i. s ! i" len] sorted_wrt_less_unique [of "IR_BITSET_FOREACH s len"] by (simp add: IR_BITSET_FOREACH_def)
next
  assume "length s1 = len" "length s2 = len"
  then have "{n. n < 64 * len \<and> bit (s1 ! (n div 64) AND NOT (s2 ! (n div 64))) (n mod 64)} = bits_of s1 - bits_of s2"
    by (auto simp: bits_of_def IR_BITSET_BITS_def bit_simps)
  then show "IR_BITSET_FOREACH_DIFFERENCE s1 s2 len = sorted_list_of_set (bits_of s1 - bits_of s2)"
    using words_bits_spec [of "\<lambda>i. s1 ! i AND NOT (s2 ! i)" len] sorted_wrt_less_unique [of "IR_BITSET_FOREACH_DIFFERENCE s1 s2 len"]
    by (simp add: IR_BITSET_FOREACH_DIFFERENCE_def)
qed

lemma find_upt: "find P [0..<len] = Some i \<longleftrightarrow> i < len \<and> P i \<and> (\<forall>j<i. \<not> P j)"
  by (auto simp: find_Some_iff)

lemma find_rev_upt: "find P (rev [0..<len]) = Some i \<longleftrightarrow> i < len \<and> P i \<and> (\<forall>j. i < j \<and> j < len \<longrightarrow> \<not> P j)"
proof (induction len)
  case (Suc len)
  then show ?case by (auto simp: less_Suc_eq)
qed simp

lemma bit_word_elem:
  assumes "length s = len" "i < len" "bit (s ! i) k"
  shows "64 * i + k \<in> bits_of s"
  using assms bit_imp_le_length [OF assms(3)] by (auto simp: bits_of_iff)

lemma words_below:
  assumes "\<forall>j<i. s ! j = 0" "n \<in> bits_of s"
  shows "i \<le> n div 64"
proof (rule ccontr)
  assume "\<not> i \<le> n div 64"
  then have "s ! (n div 64) = 0" using assms(1) by simp
  then show False using assms(2) by (simp add: bits_of_def IR_BITSET_BITS_def)
qed

lemma find_None_bits: "length s = len \<Longrightarrow> find (\<lambda>i. s ! i \<noteq> 0) [0..<len] = None \<longleftrightarrow> bits_of s = {}"
  "length s = len \<Longrightarrow> find (\<lambda>i. s ! i \<noteq> 0) (rev [0..<len]) = None \<longleftrightarrow> bits_of s = {}"
  using bits_tests(1) [of s len s] by (auto simp: find_None_iff ir_bitset_empty_def list_all_iff)

lemma first_word_least:
  assumes "length s = len" "find (\<lambda>i. s ! i \<noteq> 0) [0..<len] = Some i"
  shows "64 * i + ctz (s ! i) = Min (bits_of s)" "64 * i + ctz (s ! i) \<in> bits_of s"
proof -
  have i: "i < len" "s ! i \<noteq> 0" "\<forall>j<i. s ! j = 0" using assms(2) by (auto simp: find_upt)
  note c = ctz_props [OF i(2)]
  show m: "64 * i + ctz (s ! i) \<in> bits_of s" by (rule bit_word_elem [OF assms(1) i(1) c(1)])
  have fin: "finite (bits_of s)" using bits_of_bound finite_subset by blast
  have "64 * i + ctz (s ! i) \<le> n" if n: "n \<in> bits_of s" for n
  proof (cases "n div 64 = i")
    case True
    then have "bit (s ! i) (n mod 64)" using n by (auto simp: bits_of_def IR_BITSET_BITS_def)
    then have "ctz (s ! i) \<le> n mod 64" using c(2) not_less by blast
    then show ?thesis using True div_mult_mod_eq [of n 64] by linarith
  next
    case False
    then have "Suc i \<le> n div 64" using words_below [OF i(3) n] by simp
    then show ?thesis using c(3) by (simp add: less_eq_div_iff_mult_less_eq)
  qed
  then show "64 * i + ctz (s ! i) = Min (bits_of s)" using m fin by (intro Min_eqI [symmetric]) auto
qed

lemma bits_first:
  assumes "length s = len"
  shows "ir_bitset_first s len = (if bits_of s = {} then -1 else int (Min (bits_of s)))"
proof (cases "find (\<lambda>i. s ! i \<noteq> 0) [0..<len]")
  case None
  then show ?thesis using find_None_bits(1) [OF assms] by (simp add: ir_bitset_first_def)
next
  case (Some i)
  have "bits_of s \<noteq> {}" using Some find_None_bits(1) [OF assms] by simp
  moreover have "s ! i \<noteq> 0" using Some by (simp add: find_upt)
  ultimately show ?thesis using first_word_least(1) [OF assms Some] Some by (simp add: ir_bitset_first_def ir_ntzl_def IR_BITSET_BITS_def)
qed

lemma bits_pop_first:
  assumes "length s = len"
  shows "ir_bitset_pop_first s len = (s', b) \<Longrightarrow> length s' = len \<and>
    (if bits_of s = {} then b = -1 \<and> s' = s else b = int (Min (bits_of s)) \<and> bits_of s' = bits_of s - {Min (bits_of s)})"
proof (cases "find (\<lambda>i. s ! i \<noteq> 0) [0..<len]")
  case None
  then show "ir_bitset_pop_first s len = (s', b) \<Longrightarrow> ?thesis" using find_None_bits(1) [OF assms] assms by (simp add: ir_bitset_pop_first_def)
next
  case (Some i)
  then have i: "i < length s" "s ! i \<noteq> 0" using assms by (auto simp: find_upt)
  have ne: "bits_of s \<noteq> {}" using Some find_None_bits(1) [OF assms] by simp
  note f = first_word_least [OF assms Some]
  have "n \<in> bits_of (s[i := unset_bit (ctz (s ! i)) (s ! i)]) \<longleftrightarrow> n \<in> bits_of s \<and> n \<noteq> 64 * i + ctz (s ! i)" for n
  proof -
    have "n = 64 * i + ctz (s ! i) \<longleftrightarrow> n div 64 = i \<and> n mod 64 = ctz (s ! i)"
      using div_mod_64 [of n "64 * i + ctz (s ! i)"] ctz_props(3) [OF i(2)] by auto
    moreover have "n div 64 = i \<Longrightarrow> n \<in> bits_of s \<longleftrightarrow> bit (s ! i) (n mod 64)" using bits_of_iff [of n s] i(1) by auto
    ultimately show ?thesis unfolding bits_of_update [OF i(1)] by (auto simp: bit_unset_bit_iff)
  qed
  then have "bits_of (s[i := s ! i AND (s ! i - 1)]) = bits_of s - {Min (bits_of s)}"
    unfolding and_minus_one_clears_lowest [OF i(2)] f(1) [symmetric] by auto
  moreover have "ir_bitset_pop_first s len = (s[i := s ! i AND (s ! i - 1)], int (Min (bits_of s)))"
    unfolding f(1) [symmetric] using i Some by (simp add: ir_bitset_pop_first_def ir_ntzl_def IR_BITSET_BITS_def Let_def)
  ultimately show "ir_bitset_pop_first s len = (s', b) \<Longrightarrow> ?thesis" using ne assms by (metis length_list_update prod.inject)
qed


text \<open>The last element: the loop shifts the highest word out bit by bit.\<close>

lemma shift_out_spec: "bit x k \<Longrightarrow> (\<And>m. k < m \<Longrightarrow> \<not> bit x m) \<Longrightarrow> bitset_shift_out x j = j + word_of_nat k + 1"
proof (induction k arbitrary: x j)
  case 0
  have "drop_bit 1 x = 0" using 0(2) by (auto simp: bit_eq_iff bit_drop_bit_eq)
  then show ?case by (subst bitset_shift_out.simps) simp
next
  case (Suc k)
  have b: "bit (drop_bit 1 x) k" "k < m \<Longrightarrow> \<not> bit (drop_bit 1 x) m" for m
    using Suc(2,3) by (auto simp: bit_drop_bit_eq)
  then have "drop_bit 1 x \<noteq> 0" by auto
  then have "bitset_shift_out x j = bitset_shift_out (drop_bit 1 x) (j + 1)" by (subst bitset_shift_out.simps) (simp add: Let_def)
  then show ?case using Suc(1) [OF b(1) b(2)] by (simp add: ac_simps)
qed

lemma highest_bit:
  assumes "(x::u64) \<noteq> 0"
  obtains k where "bit x k" "\<And>m. k < m \<Longrightarrow> \<not> bit x m" "k < 64"
proof -
  let ?B = "{k. bit x k}"
  have "?B \<subseteq> {..<64}" using bit_imp_le_length [of x] by auto
  then have fin: "finite ?B" using finite_subset by blast
  have ne: "?B \<noteq> {}" using assms by (auto simp: bit_eq_iff)
  have "bit x (Max ?B)" using Max_in [OF fin ne] by simp
  moreover have "\<not> bit x m" if "Max ?B < m" for m using Max_ge [OF fin, of m] that by (metis mem_Collect_eq not_less)
  moreover have "Max ?B < 64" using calculation(1) bit_imp_le_length [of x "Max ?B"] by simp
  ultimately show thesis by (rule that)
qed

lemma bits_last:
  assumes "length s = len" "64 * len \<le> 2 ^ 31"
  shows "ir_bitset_last s len = (if bits_of s = {} then -1 else int (Max (bits_of s)))"
proof (cases "find (\<lambda>i. s ! i \<noteq> 0) (rev [0..<len])")
  case None
  then show ?thesis using find_None_bits(2) [OF assms(1)] by (simp add: ir_bitset_last_def)
next
  case (Some i)
  then have i: "i < len" "s ! i \<noteq> 0" "\<And>j. i < j \<Longrightarrow> j < len \<Longrightarrow> s ! j = 0" by (auto simp: find_rev_upt)
  obtain k where k: "bit (s ! i) k" "\<And>m. k < m \<Longrightarrow> \<not> bit (s ! i) m" "k < 64" using highest_bit [OF i(2)] by blast
  have fin: "finite (bits_of s)" using bits_of_bound finite_subset by blast
  have m: "64 * i + k \<in> bits_of s" by (rule bit_word_elem [OF assms(1) i(1) k(1)])
  have "n \<le> 64 * i + k" if n: "n \<in> bits_of s" for n
  proof -
    have b: "bit (s ! (n div 64)) (n mod 64)" "n div 64 < len" using n assms(1) by (auto simp: bits_of_def IR_BITSET_BITS_def)
    have d: "n = 64 * (n div 64) + n mod 64" by simp
    have "n div 64 \<le> i" using i(3) [of "n div 64"] b by (cases "n div 64 \<le> i") simp_all
    moreover have "n div 64 = i \<Longrightarrow> n mod 64 \<le> k" using b(1) k(2) not_le by blast
    moreover have "n mod 64 < 64" by simp
    ultimately show ?thesis using d by (cases "n div 64 = i") linarith+
  qed
  then have mx: "Max (bits_of s) = 64 * i + k" using m fin by (intro Max_eqI) auto
  have lt: "64 * i + k < 2 ^ 31" using i(1) k(3) assms(2) by linarith
  have "ir_bitset_last s len = sint (word_of_nat (64 * i) - 1 + word_of_nat k + 1 :: u32)"
    using Some shift_out_spec [OF k(1,2)] by (simp add: ir_bitset_last_def IR_BITSET_BITS_def)
  also have "\<dots> = sint (word_of_nat (64 * i + k) :: u32)" by simp
  also have "\<dots> = int (64 * i + k)" using lt signed_take_bit_int_eq_self [of 31 "int (64 * i + k)"] unfolding signed_of_nat by simp
  finally show ?thesis using mx m by auto
qed


section \<open>The interface of a bounded set\<close>

text \<open>
  What the clients of a set of small numbers rely on: a membership test, and insertion of a new
  element and deletion of an element that change nothing else. Both representations of ir_private.h
  provide it.
\<close>

locale bounded_set =
  fixes invar :: "'s \<Rightarrow> bool" and capacity :: "'s \<Rightarrow> nat" and elems :: "'s \<Rightarrow> nat set"
    and mem :: "'s \<Rightarrow> nat \<Rightarrow> bool" and add :: "'s \<Rightarrow> nat \<Rightarrow> 's" and del :: "'s \<Rightarrow> nat \<Rightarrow> 's"
  assumes bounded: "invar s \<Longrightarrow> elems s \<subseteq> {..<capacity s}"
    and mem_iff: "invar s \<Longrightarrow> n < capacity s \<Longrightarrow> mem s n \<longleftrightarrow> n \<in> elems s"
    and add_invar: "invar s \<Longrightarrow> n < capacity s \<Longrightarrow> n \<notin> elems s \<Longrightarrow> invar (add s n) \<and> capacity (add s n) = capacity s"
    and add_elems: "invar s \<Longrightarrow> n < capacity s \<Longrightarrow> n \<notin> elems s \<Longrightarrow> elems (add s n) = insert n (elems s)"
    and del_invar: "invar s \<Longrightarrow> n \<in> elems s \<Longrightarrow> invar (del s n) \<and> capacity (del s n) = capacity s"
    and del_elems: "invar s \<Longrightarrow> n \<in> elems s \<Longrightarrow> elems (del s n) = elems s - {n}"
begin

lemma finite_elems: "invar s \<Longrightarrow> finite (elems s)"
  using bounded finite_subset by blast

lemma card_le: "invar s \<Longrightarrow> card (elems s) \<le> capacity s"
  using card_mono [OF _ bounded] by fastforce

lemma mem_add: "invar s \<Longrightarrow> n < capacity s \<Longrightarrow> n \<notin> elems s \<Longrightarrow> m < capacity s \<Longrightarrow> mem (add s n) m \<longleftrightarrow> m = n \<or> mem s m"
  using mem_iff [of "add s n" m] mem_iff [of s m] add_invar [of s n] add_elems [of s n] by auto

lemma mem_del: "invar s \<Longrightarrow> n \<in> elems s \<Longrightarrow> m < capacity s \<Longrightarrow> mem (del s n) m \<longleftrightarrow> m \<noteq> n \<and> mem s m"
  using mem_iff [of "del s n" m] mem_iff [of s m] del_invar [of s n] del_elems [of s n] by auto

lemma del_add: "invar s \<Longrightarrow> n < capacity s \<Longrightarrow> n \<notin> elems s \<Longrightarrow> elems (del (add s n) n) = elems s"
  using del_elems [of "add s n" n] add_invar [of s n] add_elems [of s n] by auto

text \<open>Adding the new elements of a list, as the passes do with a test before each insertion.\<close>

lemma add_all:
  assumes "invar s" "\<forall>n\<in>set ns. n < capacity s"
  shows "invar (fold (\<lambda>n s. if mem s n then s else add s n) ns s) \<and>
    capacity (fold (\<lambda>n s. if mem s n then s else add s n) ns s) = capacity s \<and>
    elems (fold (\<lambda>n s. if mem s n then s else add s n) ns s) = elems s \<union> set ns"
  using assms
proof (induction ns arbitrary: s)
  case (Cons n ns)
  let ?s = "if mem s n then s else add s n"
  have n: "n < capacity s" using Cons.prems by simp
  have "invar ?s" "capacity ?s = capacity s" "elems ?s = insert n (elems s)"
    using mem_iff [OF Cons.prems(1) n] add_invar [OF Cons.prems(1) n] add_elems [OF Cons.prems(1) n] Cons.prems(1) by auto
  then show ?case using Cons.IH [of ?s] Cons.prems(2) by simp
qed simp

end

interpretation bitset: bounded_set "\<lambda>s. True" "\<lambda>s. 64 * length s" bits_of ir_bitset_in ir_bitset_incl ir_bitset_excl
  by unfold_locales (simp_all add: bits_of_bound bits_in bits_incl bits_excl_elem)

section \<open>Properties\<close>

text \<open>C36: the iteration macros visit exactly the members of a bit set, in increasing order and each once.\<close>

theorem bitset_foreach: "IR_BITSET_FOREACH s (length s) = sorted_list_of_set (bits_of s)"
  by (rule foreach_sorted(1) [OF refl])

text \<open>C37: \<open>ir_bitset_first\<close> gives the least member and \<open>ir_bitset_pop_first\<close> also removes it; both answer
  -1 on the empty set and leave everything else in place.\<close>

theorem bitset_first_pop:
  "ir_bitset_first s (length s) = (if bits_of s = {} then -1 else int (Min (bits_of s))) \<and>
   (case ir_bitset_pop_first s (length s) of (s', b) \<Rightarrow>
      b = ir_bitset_first s (length s) \<and> length s' = length s \<and> bits_of s' = bits_of s - {Min (bits_of s)})"
proof -
  obtain s' b where r: "ir_bitset_pop_first s (length s) = (s', b)" by fastforce
  show ?thesis using bits_first [OF refl, of s] bits_pop_first [OF refl r] by (simp add: r split: if_splits)
qed

end
