(* ===== verification/Sparse_Set.thy ===== *)
theory Sparse_Set
  imports Bitset
begin

text \<open>
  The sparse sets and bit queues of ir_private.h. A sparse set keeps its members in a dense array and
  the position of each possible member in an array that is never initialised.
\<close>

section \<open>Sparse sets\<close>

record ir_sparse_set =
  ss_size :: nat
  ss_len :: nat
  ss_data :: "int \<Rightarrow> nat"

definition IR_SPARSE_SET_DENSE :: "ir_sparse_set \<Rightarrow> nat \<Rightarrow> nat" where
  "IR_SPARSE_SET_DENSE s n = ss_data s (int n)"

definition IR_SPARSE_SET_SPARSE :: "ir_sparse_set \<Rightarrow> nat \<Rightarrow> nat" where
  "IR_SPARSE_SET_SPARSE s n = ss_data s (-1 - int n)"

text \<open>\<open>mem\<close> is what the allocated memory happens to hold.\<close>

definition ir_sparse_set_init :: "(int \<Rightarrow> nat) \<Rightarrow> nat \<Rightarrow> ir_sparse_set" where
  "ir_sparse_set_init mem n = \<lparr>ss_size = n, ss_len = 0, ss_data = mem\<rparr>"

definition ir_sparse_set_clear :: "ir_sparse_set \<Rightarrow> ir_sparse_set" where
  "ir_sparse_set_clear s = s\<lparr>ss_len := 0\<rparr>"

definition ir_sparse_set_empty :: "ir_sparse_set \<Rightarrow> bool" where
  "ir_sparse_set_empty s \<longleftrightarrow> ss_len s = 0"

definition ir_sparse_set_in :: "ir_sparse_set \<Rightarrow> nat \<Rightarrow> bool" where
  "ir_sparse_set_in s n = (let idx = IR_SPARSE_SET_SPARSE s n in idx < ss_len s \<and> IR_SPARSE_SET_DENSE s idx = n)"

definition ir_sparse_set_add :: "ir_sparse_set \<Rightarrow> nat \<Rightarrow> ir_sparse_set" where
  "ir_sparse_set_add s n =
     (let idx = ss_len s in s\<lparr>ss_len := ss_len s + 1, ss_data := (ss_data s)(int idx := n, -1 - int n := idx)\<rparr>)"

definition ir_sparse_set_del :: "ir_sparse_set \<Rightarrow> nat \<Rightarrow> ir_sparse_set" where
  "ir_sparse_set_del s n =
     (let last = IR_SPARSE_SET_DENSE s (ss_len s - 1);
          s = (if last \<noteq> n
               then let idx = IR_SPARSE_SET_SPARSE s n in s\<lparr>ss_data := (ss_data s)(int idx := last, -1 - int last := idx)\<rparr>
               else s)
      in s\<lparr>ss_len := ss_len s - 1\<rparr>)"

text \<open>On the empty set \<open>ir_sparse_set_pop\<close> returns -1 as an unsigned number.\<close>

definition ir_sparse_set_pop :: "ir_sparse_set \<Rightarrow> ir_sparse_set \<times> nat" where
  "ir_sparse_set_pop s =
     (if ss_len s > 0
      then (s\<lparr>ss_len := ss_len s - 1\<rparr>, IR_SPARSE_SET_DENSE s (ss_len s - 1))
      else (s, 2 ^ 32 - 1))"

definition IR_SPARSE_SET_FOREACH :: "ir_sparse_set \<Rightarrow> nat list" where
  "IR_SPARSE_SET_FOREACH s = map (IR_SPARSE_SET_DENSE s) [0..< ss_len s]"

lemmas sparse_defs = IR_SPARSE_SET_DENSE_def IR_SPARSE_SET_SPARSE_def

text \<open>The invariant: the two arrays are inverse on the members.\<close>

definition sparse_ok :: "ir_sparse_set \<Rightarrow> bool" where
  "sparse_ok s \<longleftrightarrow> ss_len s \<le> ss_size s \<and>
     (\<forall>i < ss_len s. IR_SPARSE_SET_DENSE s i < ss_size s \<and> IR_SPARSE_SET_SPARSE s (IR_SPARSE_SET_DENSE s i) = i)"

definition sparse_elems :: "ir_sparse_set \<Rightarrow> nat set" where
  "sparse_elems s = IR_SPARSE_SET_DENSE s ` {..< ss_len s}"

lemma foreach_elems:
  assumes "sparse_ok s"
  shows "set (IR_SPARSE_SET_FOREACH s) = sparse_elems s" "distinct (IR_SPARSE_SET_FOREACH s)" "card (sparse_elems s) = ss_len s"
proof -
  have "inj_on (IR_SPARSE_SET_DENSE s) {..< ss_len s}"
    by (rule inj_on_inverseI [of _ "IR_SPARSE_SET_SPARSE s"]) (use assms in \<open>simp add: sparse_ok_def\<close>)
  then show "distinct (IR_SPARSE_SET_FOREACH s)" "card (sparse_elems s) = ss_len s"
    by (simp_all add: IR_SPARSE_SET_FOREACH_def sparse_elems_def distinct_map card_image atLeast_upt)
  show "set (IR_SPARSE_SET_FOREACH s) = sparse_elems s"
    by (simp add: IR_SPARSE_SET_FOREACH_def sparse_elems_def atLeast_upt)
qed

lemma sparse_room:
  assumes "sparse_ok s" "n < ss_size s" "n \<notin> sparse_elems s"
  shows "ss_len s < ss_size s"
proof -
  have "insert n (sparse_elems s) \<subseteq> {..< ss_size s}" using assms by (auto simp: sparse_ok_def sparse_elems_def)
  then have "card (insert n (sparse_elems s)) \<le> ss_size s" using card_mono [of "{..< ss_size s}"] by fastforce
  moreover have "finite (sparse_elems s)" by (simp add: sparse_elems_def)
  ultimately show ?thesis using foreach_elems(3) [OF assms(1)] assms(3) by simp
qed

lemma sparse_in: "sparse_ok s \<Longrightarrow> ir_sparse_set_in s n \<longleftrightarrow> n \<in> sparse_elems s"
  by (auto simp: ir_sparse_set_in_def Let_def sparse_ok_def sparse_elems_def intro: rev_image_eqI)

lemma sparse_add:
  assumes "sparse_ok s" "n < ss_size s" "n \<notin> sparse_elems s"
  shows "sparse_ok (ir_sparse_set_add s n)" "ss_size (ir_sparse_set_add s n) = ss_size s"
    "sparse_elems (ir_sparse_set_add s n) = insert n (sparse_elems s)"
proof -
  let ?t = "ir_sparse_set_add s n"
  have d: "IR_SPARSE_SET_DENSE ?t i = (if i = ss_len s then n else IR_SPARSE_SET_DENSE s i)"
    "IR_SPARSE_SET_SPARSE ?t m = (if m = n then ss_len s else IR_SPARSE_SET_SPARSE s m)"
    "ss_len ?t = ss_len s + 1" "ss_size ?t = ss_size s" for i m
    by (auto simp: ir_sparse_set_add_def sparse_defs Let_def)
  have ne: "i < ss_len s \<Longrightarrow> IR_SPARSE_SET_DENSE s i \<noteq> n" for i using assms(3) by (auto simp: sparse_elems_def)
  show "sparse_ok ?t" using assms(1,2) ne sparse_room [OF assms] unfolding sparse_ok_def d
    by (auto simp: less_Suc_eq)
  show "ss_size ?t = ss_size s" by (rule d)
  have "{..< ss_len ?t} = insert (ss_len s) {..< ss_len s}" unfolding d(3) by auto
  then show "sparse_elems ?t = insert n (sparse_elems s)" using ne unfolding sparse_elems_def by (auto simp: d(1) image_iff)
qed

lemma sparse_del:
  assumes "sparse_ok s" "n \<in> sparse_elems s"
  shows "sparse_ok (ir_sparse_set_del s n)" "ss_size (ir_sparse_set_del s n) = ss_size s"
    "sparse_elems (ir_sparse_set_del s n) = sparse_elems s - {n}"
proof -
  let ?t = "ir_sparse_set_del s n" and ?l = "ss_len s - 1"
  obtain k where k: "k < ss_len s" "IR_SPARSE_SET_DENSE s k = n" using assms(2) by (auto simp: sparse_elems_def)
  have sp: "i < ss_len s \<Longrightarrow> IR_SPARSE_SET_SPARSE s (IR_SPARSE_SET_DENSE s i) = i" for i using assms(1) by (simp add: sparse_ok_def)
  have inj: "i < ss_len s \<Longrightarrow> j < ss_len s \<Longrightarrow> IR_SPARSE_SET_DENSE s i = IR_SPARSE_SET_DENSE s j \<Longrightarrow> i = j" for i j using sp by metis
  have last: "IR_SPARSE_SET_DENSE s ?l \<noteq> n \<longleftrightarrow> k \<noteq> ?l" using k inj [of ?l k] by auto
  have idx: "IR_SPARSE_SET_SPARSE s n = k" using sp [OF k(1)] k(2) by simp
  have d: "IR_SPARSE_SET_DENSE ?t i = (if i = k then IR_SPARSE_SET_DENSE s ?l else IR_SPARSE_SET_DENSE s i)" if "i < ?l" for i
    using that last idx by (auto simp: ir_sparse_set_del_def sparse_defs Let_def)
  have e: "IR_SPARSE_SET_SPARSE ?t m = (if m = IR_SPARSE_SET_DENSE s ?l \<and> k \<noteq> ?l then k else IR_SPARSE_SET_SPARSE s m)" for m
    using last idx by (auto simp: ir_sparse_set_del_def sparse_defs Let_def)
  have f: "ss_len ?t = ?l" "ss_size ?t = ss_size s" by (auto simp: ir_sparse_set_del_def Let_def)
  have l: "?l < ss_len s" using k(1) by simp
  have "IR_SPARSE_SET_DENSE ?t i < ss_size s \<and> IR_SPARSE_SET_SPARSE ?t (IR_SPARSE_SET_DENSE ?t i) = i" if i: "i < ?l" for i
  proof (cases "i = k")
    case True
    then show ?thesis using d [OF i] e assms(1) i l by (simp add: sparse_ok_def)
  next
    case False
    have "IR_SPARSE_SET_DENSE s i \<noteq> IR_SPARSE_SET_DENSE s ?l" using inj [of i ?l] i l by auto
    then show ?thesis using False d [OF i] e assms(1) i by (simp add: sparse_ok_def)
  qed
  then show "sparse_ok ?t" using assms(1) f unfolding sparse_ok_def by auto
  show "ss_size ?t = ss_size s" by (rule f)
  have "m \<in> sparse_elems ?t \<longleftrightarrow> m \<in> sparse_elems s \<and> m \<noteq> n" for m
  proof
    assume "m \<in> sparse_elems ?t"
    then obtain i where i: "i < ?l" "m = IR_SPARSE_SET_DENSE ?t i" "i < ss_len s" using f by (auto simp: sparse_elems_def)
    show "m \<in> sparse_elems s \<and> m \<noteq> n"
    proof (cases "i = k")
      case True
      then show ?thesis using i d [OF i(1)] l last by (simp add: sparse_elems_def)
    next
      case False
      then have "IR_SPARSE_SET_DENSE s i \<noteq> n" using inj [OF i(3) k(1)] k(2) by metis
      then show ?thesis using False i d [OF i(1)] by (simp add: sparse_elems_def)
    qed
  next
    assume "m \<in> sparse_elems s \<and> m \<noteq> n"
    then obtain i where i: "i < ss_len s" "m = IR_SPARSE_SET_DENSE s i" "i \<noteq> k" using k by (auto simp: sparse_elems_def)
    then have "m = IR_SPARSE_SET_DENSE ?t (if i = ?l then k else i) \<and> (if i = ?l then k else i) < ?l"
      using d [of i] d [of k] k(1) by (cases "i = ?l") simp_all
    then show "m \<in> sparse_elems ?t" unfolding sparse_elems_def f(1) by blast
  qed
  then show "sparse_elems ?t = sparse_elems s - {n}" by blast
qed

lemma sparse_pop:
  assumes "sparse_ok s" "ir_sparse_set_pop s = (s', n)"
  shows "if sparse_elems s = {} then s' = s \<and> n = 2 ^ 32 - 1
    else sparse_ok s' \<and> n \<in> sparse_elems s \<and> sparse_elems s' = sparse_elems s - {n}"
proof (cases "ss_len s = 0")
  case True
  then show ?thesis using assms by (auto simp: sparse_elems_def ir_sparse_set_pop_def)
next
  case False
  have n: "n = IR_SPARSE_SET_DENSE s (ss_len s - 1)" "s' = s\<lparr>ss_len := ss_len s - 1\<rparr>"
    using assms(2) False by (auto simp: ir_sparse_set_pop_def)
  then have "n \<in> sparse_elems s" "s' = ir_sparse_set_del s n" using False by (auto simp: sparse_elems_def ir_sparse_set_del_def)
  then show ?thesis using sparse_del [OF assms(1)] by auto
qed

lemma sparse_init: "sparse_ok (ir_sparse_set_init m k)" "sparse_elems (ir_sparse_set_init m k) = {}"
  "sparse_ok s \<Longrightarrow> sparse_ok (ir_sparse_set_clear s)" "sparse_elems (ir_sparse_set_clear s) = {}"
  by (simp_all add: sparse_ok_def sparse_elems_def ir_sparse_set_init_def ir_sparse_set_clear_def)

interpretation sparse: bounded_set sparse_ok ss_size sparse_elems ir_sparse_set_in ir_sparse_set_add ir_sparse_set_del
proof
  show "sparse_elems s \<subseteq> {..< ss_size s}" if "sparse_ok s" for s using that by (auto simp: sparse_ok_def sparse_elems_def)
qed (simp_all add: sparse_in sparse_add sparse_del)


section \<open>Bit queues\<close>

record ir_bitqueue =
  bq_len :: nat
  bq_pos :: nat
  bq_set :: ir_bitset

definition ir_bitqueue_init :: "u32 \<Rightarrow> ir_bitqueue" where
  "ir_bitqueue_init n =
     \<lparr>bq_len = unat (ir_bitset_len n), bq_pos = unat (ir_bitset_len n - 1), bq_set = ir_bitset_malloc n\<rparr>"

definition ir_bitqueue_grow :: "ir_bitqueue \<Rightarrow> u32 \<Rightarrow> ir_bitqueue" where
  "ir_bitqueue_grow q n =
     (let len = unat (ir_bitset_len n)
      in if len > bq_len q then q\<lparr>bq_set := bq_set q @ replicate (len - bq_len q) 0, bq_len := len\<rparr> else q)"

definition ir_bitqueue_clear :: "ir_bitqueue \<Rightarrow> ir_bitqueue" where
  "ir_bitqueue_clear q = q\<lparr>bq_pos := bq_len q - 1, bq_set := ir_bitset_clear (bq_set q) (bq_len q)\<rparr>"

text \<open>The loop looks at the word at \<open>pos\<close> before it tests the bound.\<close>

definition ir_bitqueue_pop :: "ir_bitqueue \<Rightarrow> ir_bitqueue \<times> int" where
  "ir_bitqueue_pop q =
     (case find (\<lambda>i. bq_set q ! i \<noteq> 0) (bq_pos q # [bq_pos q + 1..<bq_len q]) of
        None \<Rightarrow> (q\<lparr>bq_pos := bq_len q - 1\<rparr>, -1)
      | Some i \<Rightarrow> (let x = bq_set q ! i in
          (q\<lparr>bq_set := (bq_set q)[i := x AND (x - 1)], bq_pos := i\<rparr>,
           int (IR_BITSET_BITS * i + (case ir_ntzl x of Some k \<Rightarrow> k | None \<Rightarrow> 0)))))"

definition ir_bitqueue_add :: "ir_bitqueue \<Rightarrow> nat \<Rightarrow> ir_bitqueue" where
  "ir_bitqueue_add q n =
     (let i = n div IR_BITSET_BITS; q = q\<lparr>bq_set := ir_bitset_incl (bq_set q) n\<rparr>
      in if i < bq_pos q then q\<lparr>bq_pos := i\<rparr> else q)"

definition ir_bitqueue_del :: "ir_bitqueue \<Rightarrow> nat \<Rightarrow> ir_bitqueue" where
  "ir_bitqueue_del q n = q\<lparr>bq_set := ir_bitset_excl (bq_set q) n\<rparr>"

definition ir_bitqueue_in :: "ir_bitqueue \<Rightarrow> nat \<Rightarrow> bool" where
  "ir_bitqueue_in q n = ir_bitset_in (bq_set q) n"

text \<open>The invariant: no member lies in a word before \<open>pos\<close>.\<close>

definition queue_ok :: "ir_bitqueue \<Rightarrow> bool" where
  "queue_ok q \<longleftrightarrow> length (bq_set q) = bq_len q \<and> bq_pos q < bq_len q \<and> (\<forall>i<bq_pos q. bq_set q ! i = 0)"

definition queue_elems :: "ir_bitqueue \<Rightarrow> nat set" where
  "queue_elems q = bits_of (bq_set q)"

lemma find_from:
  assumes "pos < len" "\<forall>i<pos. \<not> P i"
  shows "find P (pos # [pos + 1..<len]) = find P [0..<len]"
proof -
  have "[0..<len] = [0..<pos] @ pos # [pos + 1..<len]"
    using assms(1) upt_add_eq_append [of 0 pos "len - pos"] by (simp add: upt_conv_Cons)
  moreover have "find P (xs @ ys) = find P ys" if "\<forall>x\<in>set xs. \<not> P x" for xs ys
    using that by (induction xs) simp_all
  ultimately show ?thesis using assms(2) by simp
qed

lemma bits_of_nth_zero: "i < length s \<Longrightarrow> s ! i = 0 \<longleftrightarrow> (\<forall>n\<in>bits_of s. n div 64 \<noteq> i)"
proof
  assume "i < length s" and *: "\<forall>n\<in>bits_of s. n div 64 \<noteq> i"
  then have "\<not> bit (s ! i) k" if "k < 64" for k using bit_word_elem [OF refl, of i s k] that by fastforce
  then show "s ! i = 0" by (simp add: word_zero_iff)
qed (auto simp: bits_of_def IR_BITSET_BITS_def)

lemma queue_ok_iff:
  "queue_ok q \<longleftrightarrow> length (bq_set q) = bq_len q \<and> bq_pos q < bq_len q \<and> (\<forall>n\<in>queue_elems q. bq_pos q \<le> n div 64)"
  using bits_of_nth_zero [of _ "bq_set q"] unfolding queue_ok_def queue_elems_def
  by (metis (no_types, lifting) leD leI less_trans)

lemma queue_pop:
  assumes "queue_ok q" "ir_bitqueue_pop q = (q', b)"
  shows "queue_ok q' \<and> bq_len q' = bq_len q \<and>
    (if queue_elems q = {} then b = -1 \<and> queue_elems q' = {}
     else b = int (Min (queue_elems q)) \<and> queue_elems q' = queue_elems q - {Min (queue_elems q)})"
proof -
  have len: "length (bq_set q) = bq_len q" "bq_pos q < bq_len q" "\<forall>i<bq_pos q. \<not> bq_set q ! i \<noteq> 0"
    using assms(1) by (auto simp: queue_ok_def)
  note f = find_from [OF len(2,3)]
  obtain s' c where p: "ir_bitset_pop_first (bq_set q) (bq_len q) = (s', c)" by fastforce
  note sp = bits_pop_first [OF len(1) p]
  show ?thesis
  proof (cases "find (\<lambda>i. bq_set q ! i \<noteq> 0) [0..<bq_len q]")
    case None
    then have q': "q' = q\<lparr>bq_pos := bq_len q - 1\<rparr>" "b = -1" using assms(2) f by (auto simp: ir_bitqueue_pop_def)
    have "queue_elems q = {}" using None find_None_bits(1) [OF len(1)] by (simp add: queue_elems_def)
    then show ?thesis using q' len by (simp add: queue_ok_iff queue_elems_def)
  next
    case (Some i)
    have i: "i < bq_len q" "bq_set q ! i \<noteq> 0" "\<forall>j<i. bq_set q ! j = 0" using Some by (auto simp: find_upt)
    have r: "s' = (bq_set q)[i := bq_set q ! i AND (bq_set q ! i - 1)]" "c = int (64 * i + ctz (bq_set q ! i))"
      using p Some i by (auto simp: ir_bitset_pop_first_def ir_ntzl_def IR_BITSET_BITS_def Let_def)
    have q': "q' = q\<lparr>bq_set := s', bq_pos := i\<rparr>" "b = c"
      using assms(2) f Some i r by (auto simp: ir_bitqueue_pop_def ir_ntzl_def IR_BITSET_BITS_def Let_def)
    have ne: "bits_of (bq_set q) \<noteq> {}" using Some find_None_bits(1) [OF len(1)] by auto
    have "queue_ok q'" using q' r(1) i len(1) by (simp add: queue_ok_def)
    then show ?thesis using sp ne q' by (simp add: queue_elems_def)
  qed
qed

lemma queue_add:
  assumes "queue_ok q" "n < 64 * bq_len q"
  shows "queue_ok (ir_bitqueue_add q n) \<and> bq_len (ir_bitqueue_add q n) = bq_len q \<and>
    queue_elems (ir_bitqueue_add q n) = insert n (queue_elems q)"
proof -
  have len: "length (bq_set q) = bq_len q" "bq_pos q < bq_len q" using assms(1) by (auto simp: queue_ok_def)
  have e: "queue_elems (ir_bitqueue_add q n) = insert n (queue_elems q)"
    using assms(2) len by (simp add: queue_elems_def ir_bitqueue_add_def Let_def bits_incl)
  have f: "bq_len (ir_bitqueue_add q n) = bq_len q" "length (bq_set (ir_bitqueue_add q n)) = bq_len q"
    "bq_pos (ir_bitqueue_add q n) = (if n div 64 < bq_pos q then n div 64 else bq_pos q)"
    using len by (simp_all add: ir_bitqueue_add_def Let_def IR_BITSET_BITS_def)
  show ?thesis using e f len assms(1) unfolding queue_ok_iff by auto
qed

lemma queue_del:
  assumes "queue_ok q" "n < 64 * bq_len q"
  shows "queue_ok (ir_bitqueue_del q n) \<and> queue_elems (ir_bitqueue_del q n) = queue_elems q - {n}"
proof -
  have "length (bq_set q) = bq_len q" using assms(1) by (auto simp: queue_ok_def)
  then have e: "queue_elems (ir_bitqueue_del q n) = queue_elems q - {n}"
    using assms(2) by (simp add: queue_elems_def ir_bitqueue_del_def bits_excl)
  then show ?thesis using assms(1) unfolding queue_ok_iff by (simp add: ir_bitqueue_del_def)
qed

interpretation bitqueue: bounded_set queue_ok "\<lambda>q. 64 * bq_len q" queue_elems ir_bitqueue_in ir_bitqueue_add ir_bitqueue_del
proof
  show b: "queue_elems q \<subseteq> {..<64 * bq_len q}" if "queue_ok q" for q
    using that bits_of_bound [of "bq_set q"] by (simp add: queue_ok_def queue_elems_def)
  show "ir_bitqueue_in q n \<longleftrightarrow> n \<in> queue_elems q" if "queue_ok q" "n < 64 * bq_len q" for q n
    using that bits_in [of n "bq_set q"] by (simp add: queue_ok_def ir_bitqueue_in_def queue_elems_def)
  show "queue_ok (ir_bitqueue_del q n) \<and> 64 * bq_len (ir_bitqueue_del q n) = 64 * bq_len q"
    "queue_elems (ir_bitqueue_del q n) = queue_elems q - {n}" if "queue_ok q" "n \<in> queue_elems q" for q n
    using queue_del [of q n] that b [OF that(1)] by (auto simp: ir_bitqueue_del_def)
qed (use queue_add in auto)

section \<open>Properties\<close>

text \<open>C31: a bit queue hands out its least member: \<open>ir_bitqueue_pop\<close> keeps the invariant that no member lies
  before the position the search starts from.\<close>

theorem bitqueue_pop_min:
  assumes "queue_ok q" "ir_bitqueue_pop q = (q', b)"
  shows "queue_ok q' \<and> (if queue_elems q = {} then b = -1 \<and> queue_elems q' = {}
     else b = int (Min (queue_elems q)) \<and> queue_elems q' = queue_elems q - {Min (queue_elems q)})"
  using queue_pop [OF assms] by blast

theorem bitqueue_pop_min_witness:
  "queue_ok \<lparr>bq_len = 2, bq_pos = 1, bq_set = [0, 12]\<rparr> \<and>
   queue_ok (fst (ir_bitqueue_pop \<lparr>bq_len = 2, bq_pos = 1, bq_set = [0, 12]\<rparr>))"
proof -
  let ?q = "\<lparr>bq_len = 2, bq_pos = 1, bq_set = [0, 12]\<rparr>"
  have ok: "queue_ok ?q" by (simp add: queue_ok_def)
  show ?thesis using bitqueue_pop_min [OF ok prod.collapse [symmetric]] ok by blast
qed



end
