(* ===== verification/Containers.thy ===== *)
theory Containers
  imports Bitset IR_Types
begin

text \<open>
  The growing arrays, lists and work lists of ir_private.h and ir.c. Memory is explicit where the code
  moves it: \<open>memmove\<close> has no result when it reaches outside the array.
\<close>

section \<open>Arrays\<close>

type_synonym ir_array = "ir_ref list"

definition array_grow_size :: "u32 \<Rightarrow> u32" where
  "array_grow_size n =
     (if n \<ge> 256 then IR_ALIGNED_SIZE n 256
      else let n = n - 1; n = n OR drop_bit 1 n; n = n OR drop_bit 2 n; n = n OR drop_bit 4 n in n + 1)"

text \<open>\<open>mem\<close> is what the memory added by \<open>ir_mem_realloc\<close> happens to hold.\<close>

definition ir_array_grow :: "(nat \<Rightarrow> ir_ref) \<Rightarrow> ir_array \<Rightarrow> u32 \<Rightarrow> ir_array" where
  "ir_array_grow mem a n = a @ map mem [length a..<unat (array_grow_size n)]"

definition memmove :: "'a list \<Rightarrow> nat \<Rightarrow> nat \<Rightarrow> nat \<Rightarrow> 'a list option" where
  "memmove xs dst src n =
     (if dst + n \<le> length xs \<and> src + n \<le> length xs
      then Some (take dst xs @ take n (drop src xs) @ drop (dst + n) xs) else None)"

definition ir_array_get :: "ir_array \<Rightarrow> nat \<Rightarrow> ir_ref" where
  "ir_array_get a i = (if i < length a then a ! i else IR_UNUSED)"

definition ir_array_at :: "ir_array \<Rightarrow> nat \<Rightarrow> ir_ref" where
  "ir_array_at a i = a ! i"

definition ir_array_set :: "(nat \<Rightarrow> ir_ref) \<Rightarrow> ir_array \<Rightarrow> nat \<Rightarrow> ir_ref \<Rightarrow> ir_array" where
  "ir_array_set mem a i val =
     (let a = (if i \<ge> length a then ir_array_grow mem a (word_of_nat i + 1) else a) in a[i := val])"

definition ir_array_insert :: "(nat \<Rightarrow> ir_ref) \<Rightarrow> ir_array \<Rightarrow> nat \<Rightarrow> ir_ref \<Rightarrow> ir_array option" where
  "ir_array_insert mem a i val =
     (let a = (if a ! (length a - 1) \<noteq> 0 then ir_array_grow mem a (word_of_nat (length a) + 1) else a)
      in map_option (\<lambda>a. a[i := val]) (memmove a (i + 1) i (length a - i - 1)))"

definition ir_array_remove :: "ir_array \<Rightarrow> nat \<Rightarrow> ir_array option" where
  "ir_array_remove a i = map_option (\<lambda>a. a[length a - 1 := IR_UNUSED]) (memmove a i (i + 1) (length a - i - 1))"

section \<open>Lists\<close>

record ir_list =
  list_a :: ir_array
  list_len :: nat

definition ir_list_init :: "(nat \<Rightarrow> ir_ref) \<Rightarrow> nat \<Rightarrow> ir_list" where
  "ir_list_init mem n = \<lparr>list_a = map mem [0..<n], list_len = 0\<rparr>"

definition ir_list_clear :: "ir_list \<Rightarrow> ir_list" where
  "ir_list_clear l = l\<lparr>list_len := 0\<rparr>"

definition ir_list_capasity :: "ir_list \<Rightarrow> nat" where
  "ir_list_capasity l = length (list_a l)"

definition ir_list_push :: "(nat \<Rightarrow> ir_ref) \<Rightarrow> ir_list \<Rightarrow> ir_ref \<Rightarrow> ir_list" where
  "ir_list_push mem l val = l\<lparr>list_a := ir_array_set mem (list_a l) (list_len l) val, list_len := list_len l + 1\<rparr>"

definition ir_list_push_unchecked :: "ir_list \<Rightarrow> ir_ref \<Rightarrow> ir_list" where
  "ir_list_push_unchecked l val = l\<lparr>list_a := (list_a l)[list_len l := val], list_len := list_len l + 1\<rparr>"

definition ir_list_pop :: "ir_list \<Rightarrow> ir_list \<times> ir_ref" where
  "ir_list_pop l = (l\<lparr>list_len := list_len l - 1\<rparr>, ir_array_at (list_a l) (list_len l - 1))"

definition ir_list_peek :: "ir_list \<Rightarrow> ir_ref" where
  "ir_list_peek l = ir_array_at (list_a l) (list_len l - 1)"

definition ir_list_at :: "ir_list \<Rightarrow> nat \<Rightarrow> ir_ref" where
  "ir_list_at l i = ir_array_at (list_a l) i"

definition ir_list_set :: "ir_list \<Rightarrow> nat \<Rightarrow> ir_ref \<Rightarrow> ir_list" where
  "ir_list_set l i val = l\<lparr>list_a := (list_a l)[i := val]\<rparr>"

definition ir_list_del :: "ir_list \<Rightarrow> nat \<Rightarrow> ir_list" where
  "ir_list_del l i = l\<lparr>list_len := list_len l - 1, list_a := (list_a l)[i := ir_array_at (list_a l) (list_len l - 1)]\<rparr>"

definition ir_list_find :: "ir_list \<Rightarrow> ir_ref \<Rightarrow> u32" where
  "ir_list_find l val =
     (case find (\<lambda>i. ir_array_at (list_a l) i = val) [0..<list_len l] of None \<Rightarrow> - 1 | Some i \<Rightarrow> word_of_nat i)"

definition ir_list_contains :: "ir_list \<Rightarrow> ir_ref \<Rightarrow> bool" where
  "ir_list_contains l val \<longleftrightarrow> ir_list_find l val \<noteq> - 1"

definition ir_list_insert :: "(nat \<Rightarrow> ir_ref) \<Rightarrow> ir_list \<Rightarrow> nat \<Rightarrow> ir_ref \<Rightarrow> ir_list option" where
  "ir_list_insert mem l i val =
     (let a = (if list_len l \<ge> length (list_a l) then ir_array_grow mem (list_a l) (word_of_nat (length (list_a l)) + 1)
               else list_a l)
      in map_option (\<lambda>a. l\<lparr>list_a := a[i := val], list_len := list_len l + 1\<rparr>) (memmove a (i + 1) i (list_len l - i)))"

definition ir_list_remove :: "ir_list \<Rightarrow> nat \<Rightarrow> ir_list option" where
  "ir_list_remove l i =
     map_option (\<lambda>a. l\<lparr>list_a := a, list_len := list_len l - 1\<rparr>) (memmove (list_a l) i (i + 1) (list_len l - i))"

section \<open>Work lists\<close>

record ir_worklist =
  wl_list :: ir_list
  wl_visited :: ir_bitset

definition ir_worklist_init :: "(nat \<Rightarrow> ir_ref) \<Rightarrow> u32 \<Rightarrow> ir_worklist" where
  "ir_worklist_init mem n = \<lparr>wl_list = ir_list_init mem (unat n), wl_visited = ir_bitset_malloc n\<rparr>"

definition ir_worklist_capasity :: "ir_worklist \<Rightarrow> nat" where
  "ir_worklist_capasity w = ir_list_capasity (wl_list w)"

definition ir_worklist_clear :: "ir_worklist \<Rightarrow> ir_worklist" where
  "ir_worklist_clear w =
     (let w = w\<lparr>wl_list := ir_list_clear (wl_list w)\<rparr>
      in w\<lparr>wl_visited := ir_bitset_clear (wl_visited w) (unat (ir_bitset_len (word_of_nat (ir_worklist_capasity w))))\<rparr>)"

definition ir_worklist_push :: "ir_worklist \<Rightarrow> ir_ref \<Rightarrow> ir_worklist \<times> bool" where
  "ir_worklist_push w val =
     (if ir_bitset_in (wl_visited w) (nat val) then (w, False)
      else (w\<lparr>wl_visited := ir_bitset_incl (wl_visited w) (nat val),
              wl_list := ir_list_push_unchecked (wl_list w) val\<rparr>, True))"

definition ir_worklist_pop :: "ir_worklist \<Rightarrow> ir_worklist \<times> ir_ref" where
  "ir_worklist_pop w = (let (l, r) = ir_list_pop (wl_list w) in (w\<lparr>wl_list := l\<rparr>, r))"

definition ir_worklist_peek :: "ir_worklist \<Rightarrow> ir_ref" where
  "ir_worklist_peek w = ir_list_peek (wl_list w)"

section \<open>Growth\<close>

lemma grow_small: "\<forall>k\<in>set [1..<256]. k \<le> unat (array_grow_size (word_of_nat k))"
  by code_simp

lemma grow_size:
  assumes "0 < unat n" "unat n \<le> 2 ^ 32 - 256"
  shows "unat n \<le> unat (array_grow_size n)"
proof (cases "n \<ge> 256")
  case False
  then have "unat n < 256" by (simp add: word_le_nat_alt)
  then show ?thesis using assms(1) bspec [OF grow_small, of "unat n"] by simp
next
  case True
  have a: "unat n \<le> 4294967040" using assms(2) by simp
  have "int (unat n) + 255 < 4294967296" using a by linarith
  then have w: "uint n + 255 < 2 ^ 32" by simp
  have "uint (n + 255) = uint n + 255" using w by (simp add: uint_word_ariths)
  moreover have "uint (array_grow_size n) = uint (n + 255) div 256 * 256"
  proof -
    have "(n + 255) AND NOT (mask 8 :: u32) = push_bit 8 (drop_bit 8 (n + 255))"
      by (auto simp: bit_eq_iff bit_simps)
    then have "array_grow_size n = push_bit 8 (drop_bit 8 (n + 255))"
      using True by (simp add: array_grow_size_def IR_ALIGNED_SIZE_def mask_eq_exp_minus_1)
    then have "uint (array_grow_size n) = take_bit 32 (push_bit 8 (drop_bit 8 (uint (n + 255))))"
      by (simp add: unsigned_push_bit_eq unsigned_drop_bit_eq take_bit_uint [where 'a = 32, simplified])
    also have "\<dots> = take_bit 32 (uint (n + 255) div 256 * 256)" by (simp add: push_bit_eq_mult drop_bit_eq_div)
    also have "\<dots> = uint (n + 255) div 256 * 256"
    proof (rule take_bit_int_eq_self)
      have "uint (n + 255) div 256 * 256 \<le> uint (n + 255)" by simp
      then show "uint (n + 255) div 256 * 256 < 2 ^ 32" using uint_bounded [of "n + 255"] by simp
    qed (simp add: pos_imp_zdiv_nonneg_iff)
    finally show ?thesis .
  qed
  moreover have "uint (n + 255) = uint (n + 255) div 256 * 256 + uint (n + 255) mod 256" "uint (n + 255) mod 256 < 256" by simp_all
  ultimately have "uint n \<le> uint (array_grow_size n)" by linarith
  then show ?thesis by (simp add: word_le_def [symmetric] word_le_nat_alt)
qed


lemma array_grow_spec:
  assumes "0 < unat n" "unat n \<le> 2 ^ 32 - 256"
  shows "unat n \<le> length (ir_array_grow mem a n)" "length a \<le> length (ir_array_grow mem a n)"
    "i < length a \<Longrightarrow> ir_array_grow mem a n ! i = a ! i" "k \<le> length a \<Longrightarrow> take k (ir_array_grow mem a n) = take k a"
  using grow_size [OF assms] by (simp_all add: ir_array_grow_def nth_append)

lemma word_Suc: "k < 2 ^ 32 - 256 \<Longrightarrow> unat (word_of_nat k + 1 :: u32) = k + 1"
proof -
  assume "k < 2 ^ 32 - 256"
  then have "unat (word_of_nat (k + 1) :: u32) = k + 1" unfolding unsigned_of_nat by (intro trans [OF of_nat_id] take_bit_nat_eq_self) simp
  then show ?thesis by (simp add: add.commute)
qed

lemma array_grow_Suc:
  assumes "k < 2 ^ 32 - 256"
  shows "k < length (ir_array_grow mem a (word_of_nat k + 1))" "length a \<le> length (ir_array_grow mem a (word_of_nat k + 1))"
    "i < length a \<Longrightarrow> ir_array_grow mem a (word_of_nat k + 1) ! i = a ! i"
    "j \<le> length a \<Longrightarrow> take j (ir_array_grow mem a (word_of_nat k + 1)) = take j a"
proof -
  have u: "unat (word_of_nat k + 1 :: u32) = k + 1" by (rule word_Suc [OF assms])
  have "0 < unat (word_of_nat k + 1 :: u32)" "unat (word_of_nat k + 1 :: u32) \<le> 2 ^ 32 - 256" using u assms by simp_all
  note g = array_grow_spec [OF this, where mem = mem and a = a]
  show "k < length (ir_array_grow mem a (word_of_nat k + 1))" using g(1) u by simp
  show "length a \<le> length (ir_array_grow mem a (word_of_nat k + 1))" by (rule g(2))
  show "i < length a \<Longrightarrow> ir_array_grow mem a (word_of_nat k + 1) ! i = a ! i" by (rule g(3))
  show "j \<le> length a \<Longrightarrow> take j (ir_array_grow mem a (word_of_nat k + 1)) = take j a" by (rule g(4))
qed

lemma array_set_get:
  assumes "i < 2 ^ 32 - 256"
  shows "ir_array_get (ir_array_set mem a i val) i = val"
    "j \<noteq> i \<Longrightarrow> j < length a \<Longrightarrow> ir_array_get (ir_array_set mem a i val) j = ir_array_get a j"
  using array_grow_Suc [OF assms, where mem = mem and a = a] by (auto simp: ir_array_set_def ir_array_get_def Let_def)

section \<open>Lists stand for their first elements\<close>

definition list_ok :: "ir_list \<Rightarrow> bool" where
  "list_ok l \<longleftrightarrow> list_len l \<le> length (list_a l)"

definition list_abs :: "ir_list \<Rightarrow> ir_ref list" where
  "list_abs l = take (list_len l) (list_a l)"

lemma list_abs_length [simp]: "list_ok l \<Longrightarrow> length (list_abs l) = list_len l"
  by (simp add: list_ok_def list_abs_def)

lemma list_push:
  assumes "list_ok l" "list_len l < 2 ^ 32 - 256"
  shows "list_ok (ir_list_push mem l v)" "list_abs (ir_list_push mem l v) = list_abs l @ [v]"
  using array_grow_Suc [OF assms(2), where mem = mem and a = "list_a l"] assms(1)
  by (auto simp: ir_list_push_def ir_array_set_def list_ok_def list_abs_def Let_def take_Suc_conv_app_nth)

lemma list_push_unchecked:
  assumes "list_ok l" "list_len l < ir_list_capasity l"
  shows "list_ok (ir_list_push_unchecked l v)" "list_abs (ir_list_push_unchecked l v) = list_abs l @ [v]"
    "ir_list_capasity (ir_list_push_unchecked l v) = ir_list_capasity l"
  using assms by (auto simp: ir_list_push_unchecked_def list_ok_def list_abs_def ir_list_capasity_def take_Suc_conv_app_nth)

lemma list_pop:
  assumes "list_ok l" "list_abs l \<noteq> []" "ir_list_pop l = (l', v)"
  shows "list_ok l'" "list_abs l = list_abs l' @ [v]" "ir_list_capasity l' = ir_list_capasity l" "ir_list_peek l = v"
proof -
  have n: "0 < list_len l" using assms(2) by (auto simp: list_abs_def)
  have r: "l' = l\<lparr>list_len := list_len l - 1\<rparr>" "v = list_a l ! (list_len l - 1)"
    using assms(3) by (auto simp: ir_list_pop_def ir_array_at_def)
  have "take (Suc (list_len l - 1)) (list_a l) = take (list_len l - 1) (list_a l) @ [v]"
    using n assms(1) r(2) by (intro trans [OF take_Suc_conv_app_nth]) (auto simp: list_ok_def)
  then show "list_abs l = list_abs l' @ [v]" using n r by (simp add: list_abs_def)
  show "list_ok l'" "ir_list_capasity l' = ir_list_capasity l" "ir_list_peek l = v"
    using assms(1) r by (auto simp: list_ok_def ir_list_capasity_def ir_list_peek_def ir_array_at_def)
qed

lemma list_access:
  assumes "list_ok l" "i < list_len l"
  shows "ir_list_at l i = list_abs l ! i" "list_ok (ir_list_set l i v)" "list_abs (ir_list_set l i v) = (list_abs l)[i := v]"
  using assms by (auto simp: ir_list_at_def ir_array_at_def list_abs_def ir_list_set_def list_ok_def take_update_swap)

lemma list_del:
  assumes "list_ok l" "i < list_len l"
  shows "list_ok (ir_list_del l i)" "list_abs (ir_list_del l i) = butlast ((list_abs l)[i := last (list_abs l)])"
proof -
  let ?n = "list_len l - 1"
  have n: "Suc ?n = list_len l" using assms(2) by simp
  have l: "last (list_abs l) = list_a l ! ?n"
    using assms n last_conv_nth [of "list_abs l"] unfolding list_abs_def list_ok_def by (cases "list_a l") auto
  show "list_ok (ir_list_del l i)" using assms by (simp add: ir_list_del_def list_ok_def)
  show "list_abs (ir_list_del l i) = butlast ((list_abs l)[i := last (list_abs l)])"
    unfolding l using assms n
    by (simp add: ir_list_del_def list_abs_def ir_array_at_def butlast_conv_take list_ok_def take_update_swap)
qed

lemma list_insert:
  assumes "list_ok l" "i < list_len l" "length (list_a l) < 2 ^ 32 - 256"
  shows "\<exists>l'. ir_list_insert mem l i v = Some l' \<and> list_ok l' \<and> list_abs l' = take i (list_abs l) @ v # drop i (list_abs l)"
proof -
  define a where "a = (if list_len l \<ge> length (list_a l) then ir_array_grow mem (list_a l) (word_of_nat (length (list_a l)) + 1) else list_a l)"
  have g: "list_len l < length a" "take (list_len l) a = list_abs l"
    using array_grow_Suc [OF assms(3), where mem = mem and a = "list_a l"] assms(1) by (auto simp: a_def list_ok_def list_abs_def)
  have m: "memmove a (i + 1) i (list_len l - i) = Some (take (i + 1) a @ take (list_len l - i) (drop i a) @ drop (list_len l + 1) a)"
    using g(1) assms(2) by (simp add: memmove_def)
  let ?l = "l\<lparr>list_a := (take (i + 1) a @ take (list_len l - i) (drop i a) @ drop (list_len l + 1) a)[i := v], list_len := list_len l + 1\<rparr>"
  have r: "ir_list_insert mem l i v = Some ?l" using m by (simp add: ir_list_insert_def Let_def a_def [symmetric])
  have t: "take i a = take i (list_abs l)" "take (list_len l - i) (drop i a) = drop i (list_abs l)"
    using assms(2) unfolding g(2) [symmetric] by (simp_all add: drop_take min_def)
  have len: "length (drop i (list_abs l)) = list_len l - i" using assms(1) by simp
  have "take (i + 1) a = take i (list_abs l) @ [a ! i]" using assms(2) g(1) t(1) by (simp add: take_Suc_conv_app_nth)
  then have "(take (i + 1) a @ take (list_len l - i) (drop i a) @ drop (list_len l + 1) a)[i := v] =
      take i (list_abs l) @ v # drop i (list_abs l) @ drop (list_len l + 1) a"
    using assms(1,2) t(2) by (simp add: list_update_append)
  moreover have "length (take i (list_abs l) @ v # drop i (list_abs l)) = list_len l + 1" using assms(1,2) len by simp
  moreover have "list_abs ?l = take (list_len l + 1) ((take (i + 1) a @ take (list_len l - i) (drop i a) @ drop (list_len l + 1) a)[i := v])"
    by (simp add: list_abs_def)
  ultimately have "list_abs ?l = take i (list_abs l) @ v # drop i (list_abs l)"
    by (metis append.assoc append_Cons append_eq_conv_conj)
  moreover have "list_ok ?l" using g(1) assms(2) by (simp add: list_ok_def)
  ultimately show ?thesis using r by blast
qed

lemma list_remove:
  assumes "list_ok l" "i < list_len l"
  shows "list_len l < length (list_a l) \<Longrightarrow> \<exists>l'. ir_list_remove l i = Some l' \<and> list_ok l' \<and>
      list_abs l' = take i (list_abs l) @ drop (i + 1) (list_abs l)"
    "list_len l = length (list_a l) \<Longrightarrow> ir_list_remove l i = None"
proof -
  assume g: "list_len l < length (list_a l)"
  let ?a = "take i (list_a l) @ take (list_len l - i) (drop (i + 1) (list_a l)) @ drop (list_len l) (list_a l)"
  have r: "ir_list_remove l i = Some (l\<lparr>list_a := ?a, list_len := list_len l - 1\<rparr>)"
    using g assms(2) by (simp add: ir_list_remove_def memmove_def)
  have "take (list_len l - 1) ?a = take i (list_a l) @ take (list_len l - 1 - i) (drop (i + 1) (list_a l))"
    using g assms(2) by simp
  also have "\<dots> = take i (list_abs l) @ drop (i + 1) (list_abs l)"
    using assms(2) by (simp add: list_abs_def drop_take min_def)
  finally show "\<exists>l'. ir_list_remove l i = Some l' \<and> list_ok l' \<and> list_abs l' = take i (list_abs l) @ drop (i + 1) (list_abs l)"
    using r g assms(2) by (auto simp: list_ok_def list_abs_def)
qed (use assms(2) in \<open>simp add: ir_list_remove_def memmove_def\<close>)

lemma list_find:
  assumes "list_ok l" "list_len l < 2 ^ 32"
  shows "ir_list_contains l v \<longleftrightarrow> v \<in> set (list_abs l)"
proof (cases "find (\<lambda>i. ir_array_at (list_a l) i = v) [0..<list_len l]")
  case None
  then have "\<forall>i<list_len l. list_a l ! i \<noteq> v" by (simp add: find_None_iff ir_array_at_def)
  then have "v \<notin> set (list_abs l)" using assms(1) by (auto simp: list_abs_def list_ok_def in_set_conv_nth)
  then show ?thesis using None by (simp add: ir_list_contains_def ir_list_find_def)
next
  case (Some i)
  then have i: "i < list_len l" "list_a l ! i = v" by (auto simp: find_upt ir_array_at_def)
  then have "v \<in> set (list_abs l)" using assms(1) by (auto simp: list_abs_def list_ok_def in_set_conv_nth)
  moreover have "(word_of_nat i :: u32) \<noteq> - 1"
  proof
    assume e: "(word_of_nat i :: u32) = - 1"
    have "unat (word_of_nat i :: u32) = i" using i(1) assms(2) unfolding unsigned_of_nat by (intro trans [OF of_nat_id] take_bit_nat_eq_self) simp
    then show False using e i(1) assms(2) by (simp add: unsigned_minus_1_eq_mask mask_eq_exp_minus_1)
  qed
  ultimately show ?thesis using Some by (simp add: ir_list_contains_def ir_list_find_def)
qed

section \<open>Work lists never overflow\<close>

definition worklist_ok :: "ir_worklist \<Rightarrow> bool" where
  "worklist_ok w \<longleftrightarrow> list_ok (wl_list w) \<and> distinct (list_abs (wl_list w)) \<and>
     ir_worklist_capasity w \<le> 64 * length (wl_visited w) \<and>
     (\<forall>r\<in>set (list_abs (wl_list w)). 0 \<le> r \<and> r < int (ir_worklist_capasity w) \<and> nat r \<in> bits_of (wl_visited w))"

lemma worklist_room:
  assumes "worklist_ok w" "0 \<le> r" "r < int (ir_worklist_capasity w)" "r \<notin> set (list_abs (wl_list w))"
  shows "list_len (wl_list w) < ir_worklist_capasity w"
proof -
  have "insert r (set (list_abs (wl_list w))) \<subseteq> {0..<int (ir_worklist_capasity w)}" using assms by (auto simp: worklist_ok_def)
  then have "card (insert r (set (list_abs (wl_list w)))) \<le> card {0..<int (ir_worklist_capasity w)}" by (intro card_mono) simp_all
  then show ?thesis using assms by (simp add: worklist_ok_def distinct_card)
qed

lemma worklist_push:
  assumes "worklist_ok w" "0 \<le> r" "r < int (ir_worklist_capasity w)" "ir_worklist_push w r = (w', b)"
  shows "worklist_ok w'" "ir_worklist_capasity w' = ir_worklist_capasity w" "b \<longleftrightarrow> nat r \<notin> bits_of (wl_visited w)"
    "bits_of (wl_visited w') = insert (nat r) (bits_of (wl_visited w))"
    "list_abs (wl_list w') = (if b then list_abs (wl_list w) @ [r] else list_abs (wl_list w))"
proof -
  have n: "nat r < 64 * length (wl_visited w)" using assms(1-3) by (auto simp: worklist_ok_def)
  note m = bitset.mem_iff [OF TrueI n]
  have lok: "list_ok (wl_list w)" using assms(1) by (simp add: worklist_ok_def)
  have "worklist_ok w' \<and> ir_worklist_capasity w' = ir_worklist_capasity w \<and> (b \<longleftrightarrow> nat r \<notin> bits_of (wl_visited w)) \<and>
    bits_of (wl_visited w') = insert (nat r) (bits_of (wl_visited w)) \<and>
    list_abs (wl_list w') = (if b then list_abs (wl_list w) @ [r] else list_abs (wl_list w))"
  proof (cases "nat r \<in> bits_of (wl_visited w)")
    case True
    then have "w' = w" "b = False" using assms(4) m by (simp_all add: ir_worklist_push_def)
    then show ?thesis using True assms(1) by (simp add: insert_absorb)
  next
    case False
    have w': "w' = w\<lparr>wl_visited := ir_bitset_incl (wl_visited w) (nat r), wl_list := ir_list_push_unchecked (wl_list w) r\<rparr>" "b = True"
      using assms(4) m False by (simp_all add: ir_worklist_push_def)
    have old: "r \<notin> set (list_abs (wl_list w))" using assms(1) False unfolding worklist_ok_def by blast
    have room: "list_len (wl_list w) < ir_list_capasity (wl_list w)"
      using worklist_room [OF assms(1-3) old] by (simp add: ir_worklist_capasity_def)
    note p = list_push_unchecked [OF lok room, of r]
    have v: "bits_of (wl_visited w') = insert (nat r) (bits_of (wl_visited w))" using bits_incl [OF n] w' by simp
    have c: "ir_worklist_capasity w' = ir_worklist_capasity w" using p(3) w' by (simp add: ir_worklist_capasity_def)
    have l: "list_abs (wl_list w') = list_abs (wl_list w) @ [r]" "list_ok (wl_list w')" "length (wl_visited w') = length (wl_visited w)"
      using p w' by simp_all
    have "worklist_ok w'" using assms(1-3) old l(2,3) c unfolding worklist_ok_def l(1) v by simp
    then show ?thesis using False w'(2) v c l(1) by simp
  qed
  then show "worklist_ok w'" "ir_worklist_capasity w' = ir_worklist_capasity w" "b \<longleftrightarrow> nat r \<notin> bits_of (wl_visited w)"
    "bits_of (wl_visited w') = insert (nat r) (bits_of (wl_visited w))"
    "list_abs (wl_list w') = (if b then list_abs (wl_list w) @ [r] else list_abs (wl_list w))" by blast+
qed

lemma worklist_pop:
  assumes "worklist_ok w" "list_abs (wl_list w) \<noteq> []" "ir_worklist_pop w = (w', r)"
  shows "worklist_ok w'" "list_abs (wl_list w) = list_abs (wl_list w') @ [r]" "wl_visited w' = wl_visited w"
    "ir_worklist_capasity w' = ir_worklist_capasity w"
proof -
  obtain l v where l: "ir_list_pop (wl_list w) = (l, v)" by fastforce
  have w': "w' = w\<lparr>wl_list := l\<rparr>" "r = v" using assms(3) l by (auto simp: ir_worklist_pop_def)
  have "list_ok (wl_list w)" using assms(1) by (simp add: worklist_ok_def)
  note p = list_pop [OF this assms(2) l]
  show a: "list_abs (wl_list w) = list_abs (wl_list w') @ [r]" "wl_visited w' = wl_visited w"
    "ir_worklist_capasity w' = ir_worklist_capasity w"
    using p w' by (simp_all add: ir_worklist_capasity_def)
  show "worklist_ok w'" using assms(1) p(1) w' a unfolding worklist_ok_def by (simp add: a(1))
qed

lemma bitset_len_covers: "unat n \<le> 2 ^ 32 - 64 \<Longrightarrow> unat n \<le> 64 * unat (ir_bitset_len n)"
proof -
  assume n: "unat n \<le> 2 ^ 32 - 64"
  have "unat (n + 63) = unat n + 63" using n by (simp add: unat_word_ariths)
  then have "unat (ir_bitset_len n) = (unat n + 63) div 64" by (simp add: ir_bitset_len_def unat_div)
  then show ?thesis by simp
qed

lemma worklist_init:
  assumes "unat n \<le> 2 ^ 32 - 64"
  shows "worklist_ok (ir_worklist_init m n)" "ir_worklist_capasity (ir_worklist_init m n) = unat n"
    "list_abs (wl_list (ir_worklist_init m n)) = []" "bits_of (wl_visited (ir_worklist_init m n)) = {}"
  using bitset_len_covers [OF assms]
  by (simp_all add: worklist_ok_def ir_worklist_init_def ir_list_init_def ir_worklist_capasity_def ir_list_capasity_def
      list_ok_def list_abs_def bits_malloc ir_bitset_malloc_def)

text \<open>
  A run of pushes and pops: the elements pushed are new each time, so the work list hands out every
  element at most once and at most \<open>capacity\<close> pushes succeed.
\<close>

datatype wl_op = Push ir_ref | Pop

fun wl_run :: "ir_worklist \<Rightarrow> wl_op list \<Rightarrow> ir_worklist \<times> ir_ref list" where
  "wl_run w [] = (w, [])"
| "wl_run w (Push r # ops) = wl_run (fst (ir_worklist_push w r)) ops"
| "wl_run w (Pop # ops) =
     (if list_len (wl_list w) = 0 then wl_run w ops
      else let (w, r) = ir_worklist_pop w; (w, rs) = wl_run w ops in (w, r # rs))"

lemma wl_run_spec:
  assumes "worklist_ok w" "\<forall>r. Push r \<in> set ops \<longrightarrow> 0 \<le> r \<and> r < int (ir_worklist_capasity w)" "wl_run w ops = (w', rs)"
  shows "worklist_ok w' \<and> ir_worklist_capasity w' = ir_worklist_capasity w \<and> distinct rs \<and>
    set rs \<inter> set (list_abs (wl_list w')) = {} \<and>
    (\<forall>r\<in>set rs. 0 \<le> r \<and> nat r \<in> bits_of (wl_visited w') \<and> (r \<in> set (list_abs (wl_list w)) \<or> nat r \<notin> bits_of (wl_visited w))) \<and>
    set (list_abs (wl_list w')) \<subseteq> set (list_abs (wl_list w)) \<union> {r. 0 \<le> r \<and> nat r \<notin> bits_of (wl_visited w)} \<and>
    bits_of (wl_visited w') = bits_of (wl_visited w) \<union> {nat r |r. Push r \<in> set ops}"
  using assms
proof (induction w ops arbitrary: rs rule: wl_run.induct)
  case (1 w)
  then show ?case by (auto simp: worklist_ok_def)
next
  case (2 w r ops)
  obtain w1 b where w1: "ir_worklist_push w r = (w1, b)" by fastforce
  have r: "0 \<le> r" "r < int (ir_worklist_capasity w)" using 2(3) by auto
  note p = worklist_push [OF 2(2) r w1]
  have run: "wl_run w1 ops = (w', rs)" using 2(4) w1 by simp
  have pr: "\<forall>r. Push r \<in> set ops \<longrightarrow> 0 \<le> r \<and> r < int (ir_worklist_capasity w1)" using 2(3) p(2) by simp
  note ih = 2(1) [unfolded w1 fst_conv, OF p(1) pr run]
  have l: "set (list_abs (wl_list w1)) \<subseteq> insert r (set (list_abs (wl_list w)))"
    "r \<in> set (list_abs (wl_list w1)) \<Longrightarrow> r \<in> set (list_abs (wl_list w)) \<or> nat r \<notin> bits_of (wl_visited w)"
    using p(3,5) by (auto split: if_splits)
  have u: "{nat s |s. Push s \<in> set (Push r # ops)} = insert (nat r) {nat r |r. Push r \<in> set ops}" by auto
  show ?case using ih p(2,4) l r(1) unfolding u by (auto; blast?)
next
  case (3 w ops)
  show ?case
  proof (cases "list_len (wl_list w) = 0")
    case True
    have u: "{nat s |s. Push s \<in> set (Pop # ops)} = {nat r |r. Push r \<in> set ops}" by auto
    have pr: "\<forall>r. Push r \<in> set ops \<longrightarrow> 0 \<le> r \<and> r < int (ir_worklist_capasity w)" using 3(4) by simp
    have run: "wl_run w ops = (w', rs)" using 3(5) True by simp
    show ?thesis unfolding u by (rule 3(1) [OF True 3(3) pr run])
  next
    case False
    obtain w1 r where w1: "ir_worklist_pop w = (w1, r)" by fastforce
    obtain rs1 where run: "wl_run w1 ops = (w', rs1)" and e: "rs = r # rs1"
      using 3(5) False w1 by (auto split: prod.splits)
    have ne: "list_abs (wl_list w) \<noteq> []" using False 3(3) by (auto simp: worklist_ok_def list_abs_def list_ok_def)
    note p = worklist_pop [OF 3(3) ne w1]
    have pr: "\<forall>r. Push r \<in> set ops \<longrightarrow> 0 \<le> r \<and> r < int (ir_worklist_capasity w1)" using 3(4) p(4) by simp
    note ih = 3(2) [OF False w1 [symmetric] refl p(1) pr run]
    have "distinct (list_abs (wl_list w1) @ [r])" "0 \<le> r" "nat r \<in> bits_of (wl_visited w)"
      using 3(3) p(2) by (auto simp: worklist_ok_def)
    then have "r \<notin> set (list_abs (wl_list w1))" "0 \<le> r" "nat r \<in> bits_of (wl_visited w1)" using p(3) by simp_all
    moreover have "{nat s |s. Push s \<in> set (Pop # ops)} = {nat r |r. Push r \<in> set ops}" by auto
    ultimately show ?thesis using ih p(2,3,4) unfolding e by auto
  qed
qed

section \<open>Properties\<close>



text \<open>C30: \<open>ir_list_remove\<close> moves one element more than the list has after the removed one. On a list with
  spare capacity it removes the element and keeps the order; on a full list it reads past the array.\<close>

theorem list_remove_spec:
  assumes "list_ok l" "i < list_len l"
  shows "if list_len l < ir_list_capasity l
    then \<exists>l'. ir_list_remove l i = Some l' \<and> list_ok l' \<and> list_abs l' = take i (list_abs l) @ drop (i + 1) (list_abs l)
    else ir_list_remove l i = None"
  using list_remove [OF assms] assms(1) by (auto simp: ir_list_capasity_def list_ok_def)

theorem list_remove_spec_witness: "ir_list_remove \<lparr>list_a = [7, 8], list_len = 2\<rparr> 0 = None"
  using list_remove_spec [of "\<lparr>list_a = [7, 8], list_len = 2\<rparr>" 0] by (simp add: list_ok_def ir_list_capasity_def)

end
