(* ===== verification/Hashtab.thy ===== *)
theory Hashtab
  imports IR_Types Bits
begin

text \<open>
  The chained hash tables of ir.c (32-bit and 64-bit keys) and what the string table of ir_strtab.c
  shares with them: buckets in an array, addressed by byte offsets, chained through \<open>next\<close> from heads that
  lie before the array and are indexed by the key with all bits of the mask set.
\<close>

section \<open>Chains\<close>

abbreviation (input) IR_INVALID_IDX :: nat where "IR_INVALID_IDX \<equiv> 0xffffffff"
abbreviation (input) IR_INVALID_VAL :: ir_ref where "IR_INVALID_VAL \<equiv> - (2 ^ 31)"

text \<open>
  The loop of every look-up: follow \<open>next\<close> from an offset until the bucket matches. The loop is not
  bounded by the code; \<open>None\<close> would mean that it does not end. The result is the index of the bucket.
\<close>

partial_function (option) chain_walk :: "nat \<Rightarrow> (nat \<Rightarrow> nat) \<Rightarrow> (nat \<Rightarrow> bool) \<Rightarrow> nat \<Rightarrow> nat option option" where
  [code]: "chain_walk sz nxt match pos =
     (if pos \<noteq> IR_INVALID_IDX then
        (if match (pos div sz) then Some (Some (pos div sz)) else chain_walk sz nxt match (nxt (pos div sz)))
      else Some None)"

text \<open>The last bucket before \<open>n\<close> in a slot, and how an offset stands for it.\<close>

primrec last_slot :: "(nat \<Rightarrow> 'h) \<Rightarrow> nat \<Rightarrow> 'h \<Rightarrow> nat option" where
  "last_slot slot 0 h = None"
| "last_slot slot (Suc n) h = (if slot n = h then Some n else last_slot slot n h)"

definition offset :: "nat \<Rightarrow> nat option \<Rightarrow> nat" where
  "offset sz r = (case r of None \<Rightarrow> IR_INVALID_IDX | Some i \<Rightarrow> sz * i)"

definition heads_ok :: "nat \<Rightarrow> nat \<Rightarrow> (nat \<Rightarrow> 'h) \<Rightarrow> ('h \<Rightarrow> nat) \<Rightarrow> bool" where
  "heads_ok sz n slot hs \<longleftrightarrow> (\<forall>h. hs h = offset sz (last_slot slot n h))"

definition nexts_ok :: "nat \<Rightarrow> nat \<Rightarrow> (nat \<Rightarrow> 'h) \<Rightarrow> (nat \<Rightarrow> nat) \<Rightarrow> bool" where
  "nexts_ok sz n slot nxt \<longleftrightarrow> (\<forall>i<n. nxt i = offset sz (last_slot slot i (slot i)))"

text \<open>The last index before \<open>n\<close> with a property.\<close>

primrec find_last :: "(nat \<Rightarrow> bool) \<Rightarrow> nat \<Rightarrow> nat option" where
  "find_last P 0 = None"
| "find_last P (Suc n) = (if P n then Some n else find_last P n)"

lemma find_last_Some: "find_last P n = Some i \<longleftrightarrow> i < n \<and> P i \<and> (\<forall>j. i < j \<and> j < n \<longrightarrow> \<not> P j)"
  by (induction n) (auto simp: less_Suc_eq)

lemma find_last_None: "find_last P n = None \<longleftrightarrow> (\<forall>i<n. \<not> P i)"
  by (induction n) (auto simp: less_Suc_eq)

lemma find_last_cong: "(\<And>i. i < n \<Longrightarrow> P i = Q i) \<Longrightarrow> find_last P n = find_last Q n"
  by (induction n) auto

lemma last_slot_Some: "last_slot slot n h = Some i \<longleftrightarrow> i < n \<and> slot i = h \<and> (\<forall>j. i < j \<and> j < n \<longrightarrow> slot j \<noteq> h)"
  by (induction n) (auto simp: less_Suc_eq)

lemma last_slot_None: "last_slot slot n h = None \<longleftrightarrow> (\<forall>i<n. slot i \<noteq> h)"
  by (induction n) (auto simp: less_Suc_eq)

lemma find_last_skip: "i \<le> k \<Longrightarrow> \<forall>j<k. i \<le> j \<longrightarrow> \<not> P j \<Longrightarrow> find_last P k = find_last P i"
  by (induction k) (auto simp: le_Suc_eq)

lemma last_slot_cong: "(\<And>i. i < n \<Longrightarrow> s i = s' i) \<Longrightarrow> last_slot s n h = last_slot s' n h"
  by (induction n) auto

lemma chain_walk_spec:
  assumes sz: "0 < sz" "sz * n \<le> IR_INVALID_IDX" and nx: "nexts_ok sz n slot nxt"
    and m: "\<And>i. i < n \<Longrightarrow> match i \<Longrightarrow> slot i = h"
  shows "k \<le> n \<Longrightarrow> chain_walk sz nxt match (offset sz (last_slot slot k h)) = Some (find_last match k)"
proof (induction k rule: less_induct)
  case (less k)
  show ?case
  proof (cases "last_slot slot k h")
    case None
    then have "\<forall>i<k. slot i \<noteq> h" by (simp add: last_slot_None)
    then have "find_last match k = None" using m less.prems by (auto simp: find_last_None)
    then show ?thesis using None by (subst chain_walk.simps) (simp add: offset_def)
  next
    case (Some i)
    then have i: "i < k" "slot i = h" "\<forall>j. i < j \<and> j < k \<longrightarrow> slot j \<noteq> h" by (auto simp: last_slot_Some)
    have "sz * i < sz * n" using i(1) less.prems sz(1) by simp
    then have "sz * i < IR_INVALID_IDX" using sz(2) by linarith
    then have off: "sz * i \<noteq> IR_INVALID_IDX" "sz * i div sz = i" using sz(1) by auto
    have e: "find_last match k = (if match i then Some i else find_last match i)"
    proof (cases "match i")
      case True
      then show ?thesis using i m less.prems by (auto simp: find_last_Some)
    next
      case False
      have "\<forall>j<k. i \<le> j \<longrightarrow> \<not> match j"
      proof (intro allI impI)
        fix j assume j: "j < k" "i \<le> j"
        show "\<not> match j"
        proof (cases "j = i")
          case False
          then have "slot j \<noteq> h" using i(3) j by simp
          then show ?thesis using m [of j] j(1) less.prems by auto
        qed (use False in simp)
      qed
      then show ?thesis using False find_last_skip [of i k match] i(1) by simp
    qed
    have nxt: "nxt i = offset sz (last_slot slot i h)" using nx i less.prems by (simp add: nexts_ok_def)
    show ?thesis using less.IH [OF i(1)] i(1) less.prems off e nxt Some
      by (subst chain_walk.simps) (simp add: offset_def)
  qed
qed

lemma heads_insert:
  assumes "heads_ok sz n slot hs" "\<And>i. i < n \<Longrightarrow> slot' i = slot i"
  shows "heads_ok sz (Suc n) slot' (hs(slot' n := sz * n))"
  using assms last_slot_cong [of n slot' slot] by (auto simp: heads_ok_def offset_def)

lemma nexts_insert:
  assumes "heads_ok sz n slot hs" "nexts_ok sz n slot nxt" "\<And>i. i < n \<Longrightarrow> slot' i = slot i \<and> nxt' i = nxt i"
    "nxt' n = hs (slot' n)"
  shows "nexts_ok sz (Suc n) slot' nxt'"
  unfolding nexts_ok_def
proof (intro allI impI)
  fix i assume i: "i < Suc n"
  have c: "last_slot slot' i h = last_slot slot i h" for h by (rule last_slot_cong) (use i assms(3) in auto)
  show "nxt' i = offset sz (last_slot slot' i (slot' i))"
    using i assms c by (cases "i = n") (auto simp: heads_ok_def nexts_ok_def less_Suc_eq)
qed

text \<open>The loop that rebuilds all chains.\<close>

primrec rebuild :: "nat \<Rightarrow> (nat \<Rightarrow> 'h) \<Rightarrow> nat \<Rightarrow> ('h \<Rightarrow> nat) \<times> (nat \<Rightarrow> nat) \<Rightarrow> ('h \<Rightarrow> nat) \<times> (nat \<Rightarrow> nat)" where
  "rebuild sz slot 0 st = st"
| "rebuild sz slot (Suc n) st = (let (hs, nxt) = rebuild sz slot n st in (hs(slot n := sz * n), nxt(n := hs (slot n))))"

lemma rebuild_ok:
  assumes "rebuild sz slot n (\<lambda>_. IR_INVALID_IDX, nxt) = (hs', nxt')"
  shows "heads_ok sz n slot hs'" "nexts_ok sz n slot nxt'"
  using assms
proof (induction n arbitrary: hs' nxt')
  case 0
  { case 1 then show ?case by (auto simp: heads_ok_def offset_def) }
  { case 2 then show ?case by (auto simp: nexts_ok_def) }
next
  case (Suc n)
  obtain hs nx where r: "rebuild sz slot n (\<lambda>_. IR_INVALID_IDX, nxt) = (hs, nx)" by fastforce
  note IH = Suc(1) [OF r] Suc(2) [OF r]
  { case 1 then show ?case using heads_insert [OF IH(1)] r by auto }
  { case 2 then show ?case using nexts_insert [OF IH(1,2), where slot' = slot] r by auto }
qed

section \<open>The number of heads\<close>

text \<open>Filling the bits below the highest one.\<close>

definition smear :: "u32 \<Rightarrow> u32" where
  "smear x =
     (let x = x OR drop_bit 1 x; x = x OR drop_bit 2 x; x = x OR drop_bit 4 x; x = x OR drop_bit 8 x
      in x OR drop_bit 16 x)"

definition ir_hashtab_hash_size :: "u32 \<Rightarrow> u32" where
  "ir_hashtab_hash_size n = (let n = smear (n - 1) in max (n + 1) 4)"

lemma smear_step:
  fixes x y :: u32
  assumes "\<And>i. bit y i \<longleftrightarrow> (\<exists>d<n. bit x (i + d))"
  shows "bit (y OR drop_bit n y) i \<longleftrightarrow> (\<exists>d<2 * n. bit x (i + d))"
proof -
  have "(\<exists>d<2 * n. bit x (i + d)) \<longleftrightarrow> (\<exists>d<n. bit x (i + d)) \<or> (\<exists>d<n. bit x (i + n + d))"
  proof
    assume "\<exists>d<2 * n. bit x (i + d)"
    then obtain d where d: "d < 2 * n" "bit x (i + d)" by blast
    show "(\<exists>d<n. bit x (i + d)) \<or> (\<exists>d<n. bit x (i + n + d))"
    proof (cases "d < n")
      case False
      then have "d - n < n" "i + n + (d - n) = i + d" using d(1) by auto
      then show ?thesis using d(2) by metis
    qed (use d in blast)
  next
    assume "(\<exists>d<n. bit x (i + d)) \<or> (\<exists>d<n. bit x (i + n + d))"
    then show "\<exists>d<2 * n. bit x (i + d)"
    proof
      assume "\<exists>d<n. bit x (i + n + d)"
      then obtain d where "d < n" "bit x (i + (n + d))" by (auto simp: ac_simps)
      then show ?thesis by (intro exI [of _ "n + d"]) simp
    qed (metis add_lessD1 mult_2 trans_less_add1)
  qed
  then show ?thesis using assms by (simp add: bit_or_iff bit_drop_bit_eq add.commute add.left_commute)
qed

lemma bit_smear: "bit (smear x) i \<longleftrightarrow> (\<exists>j\<ge>i. bit x j)"
proof -
  define y1 where "y1 = x OR drop_bit 1 x"
  define y2 where "y2 = y1 OR drop_bit 2 y1"
  define y4 where "y4 = y2 OR drop_bit 4 y2"
  define y8 where "y8 = y4 OR drop_bit 8 y4"
  have b0: "bit x i \<longleftrightarrow> (\<exists>d<1. bit x (i + d))" for i by simp
  have b1: "bit y1 i \<longleftrightarrow> (\<exists>d<2. bit x (i + d))" for i using smear_step [OF b0] unfolding y1_def mult_1_right .
  have b2: "bit y2 i \<longleftrightarrow> (\<exists>d<4. bit x (i + d))" for i using smear_step [OF b1] unfolding y2_def by simp
  have b4: "bit y4 i \<longleftrightarrow> (\<exists>d<8. bit x (i + d))" for i using smear_step [OF b2] unfolding y4_def by simp
  have b8: "bit y8 i \<longleftrightarrow> (\<exists>d<16. bit x (i + d))" for i using smear_step [OF b4] unfolding y8_def by simp
  have "bit (smear x) i \<longleftrightarrow> (\<exists>d<32. bit x (i + d))"
    using smear_step [OF b8, of i] by (simp add: smear_def Let_def y1_def y2_def y4_def y8_def)
  also have "\<dots> \<longleftrightarrow> (\<exists>j\<ge>i. bit x j)"
  proof
    assume "\<exists>j\<ge>i. bit x j"
    then obtain j where j: "j \<ge> i" "bit x j" by blast
    then have "j < 32" using bit_imp_le_length [OF j(2)] by simp
    then show "\<exists>d<32. bit x (i + d)" using j by (intro exI [of _ "j - i"]) simp
  qed (auto intro: le_add1)
  finally show ?thesis .
qed

lemma smear_mask:
  assumes "unat x < 2 ^ 31"
  obtains k where "k \<le> 31" "smear x = mask k" "unat x < 2 ^ k"
proof -
  define k where "k = (LEAST k. \<forall>j\<ge>k. \<not> bit x j)"
  have top: "\<forall>j\<ge>31. \<not> bit x j"
  proof (intro allI impI)
    fix j :: nat assume "31 \<le> j"
    then have "unat x < 2 ^ j" using assms power_increasing [of 31 j "2::nat"] by simp
    then have "\<not> bit (unat x) j" by (simp add: bit_iff_odd)
    then show "\<not> bit x j" using bit_imp_le_length [of x j] by (auto simp: bit_unsigned_iff)
  qed
  have k: "\<forall>j\<ge>k. \<not> bit x j" unfolding k_def by (rule LeastI [of _ 31]) (use top in blast)
  have le: "k \<le> 31" unfolding k_def by (rule Least_le) (use top in blast)
  have hi: "\<exists>j\<ge>i. bit x j" if "i < k" for i using not_less_Least [of i "\<lambda>k. \<forall>j\<ge>k. \<not> bit x j"] that unfolding k_def by blast
  have "smear x = mask k"
  proof (rule bit_word_eqI)
    fix i :: nat assume "i < LENGTH(32)"
    moreover have "(\<exists>j\<ge>i. bit x j) \<longleftrightarrow> i < k" using k hi by (meson le_trans not_less)
    ultimately show "bit (smear x) i = bit (mask k :: u32) i" by (simp add: bit_smear bit_mask_iff)
  qed
  moreover have "take_bit k x = x" by (rule bit_word_eqI) (use k in \<open>auto simp: bit_take_bit_iff not_le [symmetric]\<close>)
  then have "unat x < 2 ^ k" by (metis take_bit_nat_less_exp unsigned_take_bit_eq)
  ultimately show thesis using that le by blast
qed

lemma hash_size_power:
  assumes "0 < unat n" "unat n \<le> 2 ^ 31"
  obtains k where "2 \<le> k" "k \<le> 31" "ir_hashtab_hash_size n = 2 ^ k" "unat n \<le> 2 ^ k"
proof -
  have n1: "unat (n - 1) = unat n - 1" using assms(1) by (simp add: unat_minus_one unat_gt_0)
  then have "unat (n - 1) < 2 ^ 31" using assms by simp
  then obtain k where k: "k \<le> 31" "smear (n - 1) = mask k" "unat (n - 1) < 2 ^ k" by (rule smear_mask)
  have e: "smear (n - 1) + 1 = 2 ^ k" unfolding k(2) by (simp add: mask_eq_exp_minus_1)
  have u: "uint (2 ^ j :: u32) = 2 ^ j" if "j \<le> 31" for j
  proof -
    have "(2::int) ^ j < 2 ^ 32" using that by (intro power_strict_increasing) simp_all
    then show ?thesis using uint_word_of_int [of "2 ^ j", where 'a = 32] by simp
  qed
  show thesis
  proof (cases "2 \<le> k")
    case True
    have "(4 :: u32) \<le> 2 ^ k" using u [OF k(1)] power_increasing [OF True, of "2::int"] by (simp add: word_le_def)
    then have "ir_hashtab_hash_size n = 2 ^ k" using e by (simp add: ir_hashtab_hash_size_def Let_def max_def)
    then show ?thesis using that [OF True k(1)] k(3) n1 by simp
  next
    case False
    then have "k = 0 \<or> k = 1" by linarith
    then have "ir_hashtab_hash_size n = 2 ^ 2" "unat n \<le> 2 ^ 2"
      using e k(3) n1 by (auto simp: ir_hashtab_hash_size_def Let_def max_def)
    then show ?thesis using that [of 2] by simp
  qed
qed

lemma hash_size_ge: "0 < unat n \<Longrightarrow> unat n \<le> 2 ^ 31 \<Longrightarrow> unat n \<le> unat (ir_hashtab_hash_size n)"
proof -
  assume n: "0 < unat n" "unat n \<le> 2 ^ 31"
  obtain k where k: "k \<le> 31" "ir_hashtab_hash_size n = 2 ^ k" "unat n \<le> 2 ^ k" using hash_size_power [OF n] by blast
  have "(2::nat) ^ k < 2 ^ 32" using k(1) by (intro power_strict_increasing) simp_all
  then have "unat (of_nat (2 ^ k) :: u32) = 2 ^ k"
    unfolding unsigned_of_nat by (intro trans [OF of_nat_id] take_bit_nat_eq_self) simp
  then have "unat (2 ^ k :: u32) = 2 ^ k" by simp
  then show ?thesis using k by simp
qed

text \<open>
  The heads lie before the buckets: the mask is the negated number of heads, and every index, read as a
  signed number, is at least minus that number and less than zero.
\<close>

lemma head_index:
  assumes "0 < unat n" "unat n \<le> 2 ^ 31" "msk = - ir_hashtab_hash_size n"
  shows "- uint (ir_hashtab_hash_size n) \<le> sint (key OR msk) \<and> sint (key OR msk) < 0"
proof -
  obtain k where k: "2 \<le> k" "k \<le> 31" "ir_hashtab_hash_size n = 2 ^ k" using hash_size_power [OF assms(1,2)] by blast
  have lt: "(2::int) ^ k \<le> 2 ^ 31" using k(2) by (intro power_increasing) simp_all
  have u: "uint (2 ^ k :: u32) = 2 ^ k" using uint_word_of_int [of "2 ^ k", where 'a = 32] lt by simp
  have p: "(0::int) < 2 ^ k" by simp
  have m: "uint msk = 2 ^ 32 - 2 ^ k"
    unfolding assms(3) k(3) uint_word_ariths(4) u using lt p by (simp add: zmod_zminus1_eq_if)
  have "uint msk \<le> uint (key OR msk)" using le_word_or1 [of msk key] by (simp add: word_le_def)
  then have big: "2 ^ 32 - 2 ^ k \<le> uint (key OR msk)" "2 ^ 31 \<le> uint (key OR msk)" using m lt by simp_all
  have "bit (uint (key OR msk)) 31"
  proof -
    have "uint (key OR msk) div 2 ^ 31 = 1" using big(2) uint_bounded [of "key OR msk"] by (intro div_pos_geq [THEN trans]) simp_all
    then show ?thesis by (simp add: bit_iff_odd)
  qed
  then have "sint (key OR msk) = uint (key OR msk) - 2 ^ 32"
    by (simp add: sint_uint signed_take_bit_eq_take_bit_minus take_bit_uint [where 'a = 32, simplified])
  then show ?thesis using big(1) uint_bounded [of "key OR msk"] u unfolding k(3) by simp
qed

section \<open>Tables\<close>

text \<open>
  The three tables have the same code for different keys: a bucket holds the key, a value and the offset
  of the next bucket of the chain. \<open>sz\<close> is the size of a bucket and \<open>slot\<close> the index of a head.
\<close>

record 'k ir_bucket =
  hb_key :: 'k
  hb_val :: ir_ref
  hb_next :: nat

record 'k ir_table =
  ht_heads :: "u32 \<Rightarrow> nat"
  ht_data :: "nat \<Rightarrow> 'k ir_bucket"
  ht_mask :: u32
  ht_size :: u32
  ht_count :: nat
  ht_pos :: nat

definition set_nexts :: "(nat \<Rightarrow> 'k ir_bucket) \<Rightarrow> (nat \<Rightarrow> nat) \<Rightarrow> nat \<Rightarrow> 'k ir_bucket" where
  "set_nexts data nxt = (\<lambda>i. (data i)\<lparr>hb_next := nxt i\<rparr>)"

definition table_resize :: "nat \<Rightarrow> ('k \<Rightarrow> u32 \<Rightarrow> u32) \<Rightarrow> (u32 \<Rightarrow> u32) \<Rightarrow> 'k ir_table \<Rightarrow> 'k ir_table" where
  "table_resize sz slot hash_size tab =
     (let n = ht_size tab * 2; msk = - hash_size n;
          (hs, nxt) = rebuild sz (\<lambda>i. slot (hb_key (ht_data tab i)) msk) (ht_count tab)
            (\<lambda>_. IR_INVALID_IDX, \<lambda>i. hb_next (ht_data tab i))
      in tab\<lparr>ht_heads := hs, ht_data := set_nexts (ht_data tab) nxt, ht_mask := msk, ht_size := n\<rparr>)"

definition table_init :: "(u32 \<Rightarrow> u32) \<Rightarrow> (nat \<Rightarrow> 'k ir_bucket) \<Rightarrow> u32 \<Rightarrow> 'k ir_table" where
  "table_init hash_size mem n =
     \<lparr>ht_heads = (\<lambda>_. IR_INVALID_IDX), ht_data = mem, ht_mask = - hash_size n, ht_size = n, ht_count = 0, ht_pos = 0\<rparr>"

definition table_lookup :: "nat \<Rightarrow> ('k \<Rightarrow> u32 \<Rightarrow> u32) \<Rightarrow> 'k ir_table \<Rightarrow> 'k \<Rightarrow> nat option option" where
  "table_lookup sz slot tab key =
     chain_walk sz (\<lambda>i. hb_next (ht_data tab i)) (\<lambda>i. hb_key (ht_data tab i) = key) (ht_heads tab (slot key (ht_mask tab)))"

text \<open>A new bucket at the end of the array, at the head of its chain, after growing a full table.\<close>

definition table_append :: "nat \<Rightarrow> ('k \<Rightarrow> u32 \<Rightarrow> u32) \<Rightarrow> (u32 \<Rightarrow> u32) \<Rightarrow> 'k ir_table \<Rightarrow> 'k \<Rightarrow> ir_ref \<Rightarrow> 'k ir_table" where
  "table_append sz slot hash_size tab key val =
     (let tab = (if ht_count tab \<ge> unat (ht_size tab) then table_resize sz slot hash_size tab else tab);
          pos = ht_pos tab; h = slot key (ht_mask tab);
          b = \<lparr>hb_key = key, hb_val = val, hb_next = ht_heads tab h\<rparr>
      in tab\<lparr>ht_pos := pos + sz, ht_count := ht_count tab + 1, ht_data := (ht_data tab)(pos div sz := b),
             ht_heads := (ht_heads tab)(h := pos)\<rparr>)"

section \<open>The table with 32-bit keys\<close>

type_synonym ir_hashtab = "u32 ir_table"

definition hashtab_slot :: "u32 \<Rightarrow> u32 \<Rightarrow> u32" where
  "hashtab_slot key msk = key OR msk"

abbreviation (input) sizeof_hashtab_bucket :: nat where "sizeof_hashtab_bucket \<equiv> 12"

definition ir_hashtab_resize :: "ir_hashtab \<Rightarrow> ir_hashtab" where
  "ir_hashtab_resize tab = table_resize sizeof_hashtab_bucket hashtab_slot ir_hashtab_hash_size tab"

definition ir_hashtab_init :: "(nat \<Rightarrow> u32 ir_bucket) \<Rightarrow> u32 \<Rightarrow> ir_hashtab" where
  "ir_hashtab_init mem n = table_init ir_hashtab_hash_size mem n"

definition ir_hashtab_find :: "ir_hashtab \<Rightarrow> u32 \<Rightarrow> ir_ref option" where
  "ir_hashtab_find tab key =
     map_option (\<lambda>r. case r of None \<Rightarrow> IR_INVALID_VAL | Some i \<Rightarrow> hb_val (ht_data tab i))
       (table_lookup sizeof_hashtab_bucket hashtab_slot tab key)"

definition ir_hashtab_add :: "ir_hashtab \<Rightarrow> u32 \<Rightarrow> ir_ref \<Rightarrow> (ir_hashtab \<times> bool) option" where
  "ir_hashtab_add tab key val =
     map_option (\<lambda>r. case r of
         Some i \<Rightarrow> (tab, hb_val (ht_data tab i) = val)
       | None \<Rightarrow> (table_append sizeof_hashtab_bucket hashtab_slot ir_hashtab_hash_size tab key val, True))
       (table_lookup sizeof_hashtab_bucket hashtab_slot tab key)"

text \<open>
  The comparison of \<open>ir_hashtab_key_sort\<close> is the difference of the keys as an \<open>int\<close>. It orders the keys
  only when no two of them are \<open>2 ^ 31\<close> or more apart; C leaves \<open>qsort\<close> undefined otherwise.
\<close>

definition ir_hashtab_key_cmp :: "u32 ir_bucket \<Rightarrow> u32 ir_bucket \<Rightarrow> int" where
  "ir_hashtab_key_cmp b1 b2 = sint (hb_key b1 - hb_key b2)"

definition cmp_orders :: "u32 ir_bucket list \<Rightarrow> bool" where
  "cmp_orders bs = list_all (\<lambda>b1. list_all (\<lambda>b2. (ir_hashtab_key_cmp b1 b2 < 0) = (hb_key b1 < hb_key b2)) bs) bs"

definition ir_hashtab_key_sort :: "ir_hashtab \<Rightarrow> ir_hashtab option" where
  "ir_hashtab_key_sort tab =
     (if ht_count tab = 0 then Some tab
      else let bs = map (ht_data tab) [0..<ht_count tab] in
        if \<not> cmp_orders bs then None
        else
          let bs = sort_key hb_key bs; data = (\<lambda>i. if i < ht_count tab then bs ! i else ht_data tab i);
              (hs, nxt) = rebuild sizeof_hashtab_bucket (\<lambda>i. hashtab_slot (hb_key (data i)) (ht_mask tab)) (ht_count tab)
                (\<lambda>_. IR_INVALID_IDX, \<lambda>i. hb_next (data i))
          in Some (tab\<lparr>ht_heads := hs, ht_data := set_nexts data nxt\<rparr>))"

section \<open>The table with 64-bit keys\<close>

type_synonym ir_addrtab = "u64 ir_table"

definition addrtab_slot :: "u64 \<Rightarrow> u32 \<Rightarrow> u32" where
  "addrtab_slot key msk = ucast (key OR ucast msk)"

abbreviation (input) sizeof_addrtab_bucket :: nat where "sizeof_addrtab_bucket \<equiv> 16"

definition ir_addrtab_resize :: "ir_addrtab \<Rightarrow> ir_addrtab" where
  "ir_addrtab_resize tab = table_resize sizeof_addrtab_bucket (\<lambda>key msk. ucast key OR msk) ir_hashtab_hash_size tab"

definition ir_addrtab_init :: "(nat \<Rightarrow> u64 ir_bucket) \<Rightarrow> u32 \<Rightarrow> ir_addrtab" where
  "ir_addrtab_init mem n = table_init ir_hashtab_hash_size mem n"

definition ir_addrtab_find :: "ir_addrtab \<Rightarrow> u64 \<Rightarrow> ir_ref option" where
  "ir_addrtab_find tab key =
     map_option (\<lambda>r. case r of None \<Rightarrow> IR_INVALID_VAL | Some i \<Rightarrow> hb_val (ht_data tab i))
       (table_lookup sizeof_addrtab_bucket addrtab_slot tab key)"

definition ir_addrtab_set :: "ir_addrtab \<Rightarrow> u64 \<Rightarrow> ir_ref \<Rightarrow> ir_addrtab option" where
  "ir_addrtab_set tab key val =
     map_option (\<lambda>r. case r of
         Some i \<Rightarrow> tab\<lparr>ht_data := (ht_data tab)(i := (ht_data tab i)\<lparr>hb_val := val\<rparr>)\<rparr>
       | None \<Rightarrow> table_append sizeof_addrtab_bucket addrtab_slot ir_hashtab_hash_size tab key val)
       (table_lookup sizeof_addrtab_bucket addrtab_slot tab key)"

lemma addrtab_slot_eq: "addrtab_slot key msk = ucast key OR msk"
  by (rule bit_word_eqI) (auto simp: addrtab_slot_def bit_simps)

section \<open>A table stands for a map\<close>

definition table_ok :: "nat \<Rightarrow> ('k \<Rightarrow> u32 \<Rightarrow> u32) \<Rightarrow> 'k ir_table \<Rightarrow> bool" where
  "table_ok sz slot tab \<longleftrightarrow>
     (let sl = (\<lambda>i. slot (hb_key (ht_data tab i)) (ht_mask tab)) in
      heads_ok sz (ht_count tab) sl (ht_heads tab) \<and>
      nexts_ok sz (ht_count tab) sl (\<lambda>i. hb_next (ht_data tab i)) \<and>
      inj_on (\<lambda>i. hb_key (ht_data tab i)) {..<ht_count tab} \<and>
      ht_pos tab = sz * ht_count tab \<and> ht_count tab \<le> unat (ht_size tab) \<and>
      0 < unat (ht_size tab) \<and> 0 < sz \<and> sz * unat (ht_size tab) \<le> IR_INVALID_IDX)"

definition table_map :: "'k ir_table \<Rightarrow> 'k \<rightharpoonup> ir_ref" where
  "table_map tab key = map_option (\<lambda>i. hb_val (ht_data tab i)) (find_last (\<lambda>i. hb_key (ht_data tab i) = key) (ht_count tab))"

text \<open>The offsets stay 32-bit numbers when \<open>n\<close> more buckets are added: a table grows by doubling when it is full.\<close>

definition table_room :: "nat \<Rightarrow> 'k ir_table \<Rightarrow> nat \<Rightarrow> bool" where
  "table_room sz tab n \<longleftrightarrow> sz * (2 * (ht_count tab + n)) \<le> IR_INVALID_IDX"

lemma table_lookup_spec:
  assumes "table_ok sz slot tab"
  shows "table_lookup sz slot tab key = Some (find_last (\<lambda>i. hb_key (ht_data tab i) = key) (ht_count tab))"
proof -
  let ?sl = "\<lambda>i. slot (hb_key (ht_data tab i)) (ht_mask tab)"
  have "ht_count tab \<le> unat (ht_size tab)" "sz * unat (ht_size tab) \<le> IR_INVALID_IDX"
    using assms by (simp_all add: table_ok_def Let_def)
  then have sz: "sz * ht_count tab \<le> IR_INVALID_IDX" using mult_le_mono2 [of "ht_count tab" "unat (ht_size tab)" sz] by linarith
  have sz0: "0 < sz" using assms by (simp add: table_ok_def Let_def)
  have h: "ht_heads tab (slot key (ht_mask tab)) = offset sz (last_slot ?sl (ht_count tab) (slot key (ht_mask tab)))"
    using assms by (simp add: table_ok_def Let_def heads_ok_def)
  show ?thesis unfolding table_lookup_def h
    by (rule chain_walk_spec [OF sz0 sz, where slot = ?sl]) (use assms in \<open>auto simp: table_ok_def Let_def\<close>)
qed

lemma table_resize_spec:
  assumes "table_ok sz slot tab" "sz * (2 * unat (ht_size tab)) \<le> IR_INVALID_IDX"
  shows "table_ok sz slot (table_resize sz slot hsz tab)" "table_map (table_resize sz slot hsz tab) = table_map tab"
    "unat (ht_size (table_resize sz slot hsz tab)) = 2 * unat (ht_size tab)" "ht_count (table_resize sz slot hsz tab) = ht_count tab"
proof -
  let ?t = "table_resize sz slot hsz tab" and ?m = "- hsz (ht_size tab * 2)"
  obtain hs nxt where r: "rebuild sz (\<lambda>i. slot (hb_key (ht_data tab i)) ?m) (ht_count tab)
      (\<lambda>_. IR_INVALID_IDX, \<lambda>i. hb_next (ht_data tab i)) = (hs, nxt)" by fastforce
  have t: "?t = tab\<lparr>ht_heads := hs, ht_data := set_nexts (ht_data tab) nxt, ht_mask := ?m, ht_size := ht_size tab * 2\<rparr>"
    using r by (simp add: table_resize_def Let_def)
  note k = rebuild_ok [OF r]
  have "0 < sz" using assms(1) by (simp add: table_ok_def Let_def)
  then have "2 * unat (ht_size tab) \<le> sz * (2 * unat (ht_size tab))" by simp
  then have "2 * unat (ht_size tab) < 4294967296" using assms(2) by linarith
  then show s: "unat (ht_size ?t) = 2 * unat (ht_size tab)" using t by (simp add: unat_word_ariths)
  show c: "ht_count ?t = ht_count tab" using t by simp
  show "table_ok sz slot ?t" using k assms s c t by (simp add: table_ok_def Let_def set_nexts_def)
  show "table_map ?t = table_map tab" using t by (simp add: table_map_def set_nexts_def fun_eq_iff)
qed

lemma table_append_spec:
  assumes ok: "table_ok sz slot tab" and room: "table_room sz tab 1" and new: "table_map tab key = None"
  shows "table_ok sz slot (table_append sz slot hsz tab key val)"
    "table_map (table_append sz slot hsz tab key val) = (table_map tab)(key \<mapsto> val)"
    "ht_count (table_append sz slot hsz tab key val) = ht_count tab + 1"
proof -
  define t where "t = (if ht_count tab \<ge> unat (ht_size tab) then table_resize sz slot hsz tab else tab)"
  have full: "sz * (2 * unat (ht_size tab)) \<le> IR_INVALID_IDX" if "ht_count tab \<ge> unat (ht_size tab)"
  proof -
    have "sz * (2 * unat (ht_size tab)) \<le> sz * (2 * (ht_count tab + 1))" using that by (intro mult_le_mono2) simp
    then show ?thesis using room unfolding table_room_def by linarith
  qed
  have t: "table_ok sz slot t" "table_map t = table_map tab" "ht_count t < unat (ht_size t)" "ht_count t = ht_count tab"
    using full table_resize_spec [OF ok, of hsz] ok by (auto simp: t_def table_ok_def Let_def)
  have none: "\<forall>i<ht_count t. hb_key (ht_data t i) \<noteq> key"
    using new unfolding t(2) [symmetric] by (simp add: table_map_def find_last_None)
  define n where "n = ht_count t"
  define b where "b = \<lparr>hb_key = key, hb_val = val, hb_next = ht_heads t (slot key (ht_mask t))\<rparr>"
  define t' where "t' = t\<lparr>ht_pos := ht_pos t + sz, ht_count := n + 1, ht_data := (ht_data t)(n := b),
    ht_heads := (ht_heads t)(slot key (ht_mask t) := sz * n)\<rparr>"
  have pos: "ht_pos t = sz * n" "0 < sz" using t(1) by (simp_all add: table_ok_def Let_def n_def)
  have run: "table_append sz slot hsz tab key val = t'"
    using pos by (simp add: table_append_def Let_def t'_def b_def n_def t_def [symmetric])
  let ?sl = "\<lambda>i. slot (hb_key (ht_data t i)) (ht_mask t)" and ?sl' = "\<lambda>i. slot (hb_key (ht_data t' i)) (ht_mask t')"
  have sl: "i < n \<Longrightarrow> ?sl' i = ?sl i" "?sl' n = slot key (ht_mask t)" for i by (simp_all add: t'_def b_def)
  have ok_t: "heads_ok sz n ?sl (ht_heads t)" "nexts_ok sz n ?sl (\<lambda>i. hb_next (ht_data t i))"
    using t(1) by (simp_all add: table_ok_def Let_def n_def)
  have "heads_ok sz (Suc n) ?sl' (ht_heads t')"
    using heads_insert [OF ok_t(1), of ?sl'] sl by (simp add: t'_def b_def)
  moreover have "nexts_ok sz (Suc n) ?sl' (\<lambda>i. hb_next (ht_data t' i))"
    by (rule nexts_insert [OF ok_t]) (simp_all add: t'_def b_def)
  moreover have "inj_on (\<lambda>i. hb_key (ht_data t' i)) {..<Suc n}"
    using t(1) none unfolding lessThan_Suc by (auto simp: inj_on_def t'_def b_def n_def table_ok_def Let_def)
  ultimately show "table_ok sz slot (table_append sz slot hsz tab key val)"
    unfolding run using t(1,3) pos by (auto simp: table_ok_def Let_def t'_def n_def)
  have "table_map t' k = ((table_map t)(key \<mapsto> val)) k" for k
  proof -
    have e: "find_last (\<lambda>i. hb_key (ht_data t' i) = k) n = find_last (\<lambda>i. hb_key (ht_data t i) = k) n"
      by (rule find_last_cong) (simp add: t'_def)
    have f: "find_last (\<lambda>i. hb_key (ht_data t' i) = k) (Suc n) = (if k = key then Some n else find_last (\<lambda>i. hb_key (ht_data t i) = k) n)"
      using e by (auto simp: t'_def b_def)
    have d: "ht_count t' = Suc n" "hb_val (ht_data t' n) = val" by (simp_all add: t'_def b_def)
    have "map_option (\<lambda>i. hb_val (ht_data t' i)) (find_last (\<lambda>i. hb_key (ht_data t i) = k) n) =
        map_option (\<lambda>i. hb_val (ht_data t i)) (find_last (\<lambda>i. hb_key (ht_data t i) = k) n)"
      by (rule option.map_cong0) (auto simp: t'_def find_last_Some)
    then show ?thesis unfolding table_map_def d(1) f n_def [symmetric] using d(2) by simp
  qed
  then show "table_map (table_append sz slot hsz tab key val) = (table_map tab)(key \<mapsto> val)"
    unfolding run t(2) [symmetric] by blast
  show "ht_count (table_append sz slot hsz tab key val) = ht_count tab + 1" unfolding run using t(4) by (simp add: t'_def n_def)
qed

lemma table_init_spec:
  assumes "0 < unat n" "0 < sz" "sz * unat n \<le> IR_INVALID_IDX"
  shows "table_ok sz slot (table_init hsz mem n)" "table_map (table_init hsz mem n) = Map.empty"
  using assms by (auto simp: table_ok_def table_init_def Let_def heads_ok_def nexts_ok_def offset_def table_map_def fun_eq_iff)


text \<open>Replacing the value of a bucket.\<close>

lemma table_set_val_spec:
  fixes val :: ir_ref
  assumes ok: "table_ok sz slot tab" and i: "find_last (\<lambda>i. hb_key (ht_data tab i) = key) (ht_count tab) = Some i"
  defines "t' \<equiv> tab\<lparr>ht_data := (ht_data tab)(i := (ht_data tab i)\<lparr>hb_val := val\<rparr>)\<rparr>"
  shows "table_ok sz slot t'" "table_map t' = (table_map tab)(key \<mapsto> val)" "ht_count t' = ht_count tab"
proof -
  have key: "hb_key (ht_data t' j) = hb_key (ht_data tab j)" "hb_next (ht_data t' j) = hb_next (ht_data tab j)" for j
    by (simp_all add: t'_def)
  have val: "hb_val (ht_data t' j) = (if j = i then val else hb_val (ht_data tab j))" for j by (simp add: t'_def)
  have rest: "ht_heads t' = ht_heads tab" "ht_count t' = ht_count tab" "ht_mask t' = ht_mask tab" "ht_size t' = ht_size tab"
    "ht_pos t' = ht_pos tab" by (simp_all add: t'_def)
  show "ht_count t' = ht_count tab" by (rule rest)
  show "table_ok sz slot t'" using ok unfolding table_ok_def Let_def key rest .
  have "table_map t' k = ((table_map tab)(key \<mapsto> val)) k" for k
  proof (cases "k = key")
    case True
    then show ?thesis using i by (simp add: table_map_def key rest val)
  next
    case False
    have "j \<noteq> i" if "find_last (\<lambda>i. hb_key (ht_data tab i) = k) (ht_count tab) = Some j" for j
      using that i False by (auto simp: find_last_Some)
    then show ?thesis using False
      by (cases "find_last (\<lambda>i. hb_key (ht_data tab i) = k) (ht_count tab)") (auto simp: table_map_def key rest val)
  qed
  then show "table_map t' = (table_map tab)(key \<mapsto> val)" by blast
qed

section \<open>What the tables promise\<close>

text \<open>A sequence of stores, on a table and on a map.\<close>

primrec put_all :: "('t \<Rightarrow> 'k \<Rightarrow> 'v \<Rightarrow> 't option) \<Rightarrow> ('k \<times> 'v) list \<Rightarrow> 't \<Rightarrow> 't option" where
  "put_all put [] t = Some t"
| "put_all put (kv # kvs) t = Option.bind (put t (fst kv) (snd kv)) (put_all put kvs)"

primrec put_map :: "('v option \<Rightarrow> 'v \<Rightarrow> 'v) \<Rightarrow> ('k \<times> 'v) list \<Rightarrow> ('k \<rightharpoonup> 'v) \<Rightarrow> 'k \<rightharpoonup> 'v" where
  "put_map rl [] m = m"
| "put_map rl (kv # kvs) m = put_map rl kvs (m(fst kv \<mapsto> rl (m (fst kv)) (snd kv)))"

text \<open>
  A table finds what it stands for, and storing a key updates the map by a rule that says what becomes of a
  key that is already there. A table with room for \<open>n\<close> more keys has room for one less after a store.
\<close>

locale key_table =
  fixes ok :: "'t \<Rightarrow> bool" and abs :: "'t \<Rightarrow> 'k \<rightharpoonup> 'v" and room :: "'t \<Rightarrow> nat \<Rightarrow> bool"
    and find :: "'t \<Rightarrow> 'k \<Rightarrow> 'v option" and missing :: 'v
    and put :: "'t \<Rightarrow> 'k \<Rightarrow> 'v \<Rightarrow> 't option" and rule :: "'v option \<Rightarrow> 'v \<Rightarrow> 'v"
  assumes find_law: "ok t \<Longrightarrow> find t k = Some (case abs t k of None \<Rightarrow> missing | Some v \<Rightarrow> v)"
    and put_law: "ok t \<Longrightarrow> room t (Suc n) \<Longrightarrow>
      \<exists>t'. put t k v = Some t' \<and> ok t' \<and> room t' n \<and> abs t' = (abs t)(k \<mapsto> rule (abs t k) v)"
begin

lemma put_all_spec:
  "ok t \<Longrightarrow> room t (length kvs + n) \<Longrightarrow>
     \<exists>t'. put_all put kvs t = Some t' \<and> ok t' \<and> room t' n \<and> abs t' = put_map rule kvs (abs t)"
proof (induction kvs arbitrary: t)
  case (Cons kv kvs)
  obtain t1 where t1: "put t (fst kv) (snd kv) = Some t1" "ok t1" "room t1 (length kvs + n)"
      "abs t1 = (abs t)(fst kv \<mapsto> rule (abs t (fst kv)) (snd kv))"
    using put_law [of t "length kvs + n" "fst kv" "snd kv"] Cons.prems by auto
  show ?case unfolding put_all.simps put_map.simps t1(4) [symmetric] t1(1) bind.bind_lunit by (rule Cons.IH [OF t1(2,3)])
qed simp

lemma find_put_all:
  assumes "ok t" "room t (length kvs)"
  shows "Option.bind (put_all put kvs t) (\<lambda>t. find t k) =
    Some (case put_map rule kvs (abs t) k of None \<Rightarrow> missing | Some v \<Rightarrow> v)"
  using put_all_spec [of t kvs 0] find_law assms by fastforce

end


text \<open>Keys that stay and keys that are replaced.\<close>

definition keep_old :: "'v option \<Rightarrow> 'v \<Rightarrow> 'v" where
  "keep_old r v = (case r of None \<Rightarrow> v | Some w \<Rightarrow> w)"

definition take_new :: "'v option \<Rightarrow> 'v \<Rightarrow> 'v" where
  "take_new r v = v"

abbreviation hashtab_ok :: "ir_hashtab \<Rightarrow> bool" where "hashtab_ok \<equiv> table_ok sizeof_hashtab_bucket hashtab_slot"
abbreviation addrtab_ok :: "ir_addrtab \<Rightarrow> bool" where "addrtab_ok \<equiv> table_ok sizeof_addrtab_bucket addrtab_slot"

lemma table_room_mono: "table_room sz tab n \<Longrightarrow> ht_count tab' + m \<le> ht_count tab + n \<Longrightarrow> table_room sz tab' m"
proof -
  assume r: "table_room sz tab n" and c: "ht_count tab' + m \<le> ht_count tab + n"
  have "sz * (2 * (ht_count tab' + m)) \<le> sz * (2 * (ht_count tab + n))" using c by (intro mult_le_mono2) simp
  then show ?thesis using r unfolding table_room_def by linarith
qed

lemma hashtab_add_cases:
  assumes "hashtab_ok t" "table_room sizeof_hashtab_bucket t (Suc n)"
  shows "\<exists>t'. ir_hashtab_add t k v = Some (t', keep_old (table_map t k) v = v) \<and> hashtab_ok t' \<and>
    table_room sizeof_hashtab_bucket t' n \<and> table_map t' = (table_map t)(k \<mapsto> keep_old (table_map t k) v)"
proof (cases "find_last (\<lambda>i. hb_key (ht_data t i) = k) (ht_count t)")
  case None
  then have m: "table_map t k = None" by (simp add: table_map_def)
  have r1: "table_room sizeof_hashtab_bucket t 1" by (rule table_room_mono [OF assms(2)]) simp
  note a = table_append_spec [OF assms(1) r1 m, of ir_hashtab_hash_size v]
  have "table_room sizeof_hashtab_bucket (table_append sizeof_hashtab_bucket hashtab_slot ir_hashtab_hash_size t k v) n"
    by (rule table_room_mono [OF assms(2)]) (simp add: a(3))
  then show ?thesis using a m None table_lookup_spec [OF assms(1)] by (simp add: ir_hashtab_add_def keep_old_def)
next
  case (Some i)
  then have m: "table_map t k = Some (hb_val (ht_data t i))" by (simp add: table_map_def)
  have "table_room sizeof_hashtab_bucket t n" by (rule table_room_mono [OF assms(2)]) simp
  then show ?thesis using m Some table_lookup_spec [OF assms(1)] assms(1)
    by (simp add: ir_hashtab_add_def keep_old_def fun_upd_idem)
qed

lemma table_find_spec:
  "table_ok sz slot t \<Longrightarrow> map_option (\<lambda>r. case r of None \<Rightarrow> d | Some i \<Rightarrow> hb_val (ht_data t i)) (table_lookup sz slot t k) =
     Some (case table_map t k of None \<Rightarrow> d | Some v \<Rightarrow> v)"
  by (simp add: table_lookup_spec table_map_def option.case_eq_if option.map_sel)

interpretation hashtab: key_table hashtab_ok table_map "table_room sizeof_hashtab_bucket" ir_hashtab_find IR_INVALID_VAL
  "\<lambda>t k v. map_option fst (ir_hashtab_add t k v)" keep_old
proof (unfold_locales, goal_cases)
  case (1 t k)
  then show ?case unfolding ir_hashtab_find_def by (rule table_find_spec)
next
  case (2 t n k v)
  then show ?case using hashtab_add_cases [of t n k v] by auto
qed

lemma addrtab_set_cases:
  assumes "addrtab_ok t" "table_room sizeof_addrtab_bucket t (Suc n)"
  shows "\<exists>t'. ir_addrtab_set t k v = Some t' \<and> addrtab_ok t' \<and>
    table_room sizeof_addrtab_bucket t' n \<and> table_map t' = (table_map t)(k \<mapsto> v)"
proof (cases "find_last (\<lambda>i. hb_key (ht_data t i) = k) (ht_count t)")
  case None
  then have m: "table_map t k = None" by (simp add: table_map_def)
  have r1: "table_room sizeof_addrtab_bucket t 1" by (rule table_room_mono [OF assms(2)]) simp
  note a = table_append_spec [OF assms(1) r1 m, of ir_hashtab_hash_size v]
  have "table_room sizeof_addrtab_bucket (table_append sizeof_addrtab_bucket addrtab_slot ir_hashtab_hash_size t k v) n"
    by (rule table_room_mono [OF assms(2)]) (simp add: a(3))
  then show ?thesis using a None table_lookup_spec [OF assms(1)] by (simp add: ir_addrtab_set_def)
next
  case (Some i)
  note a = table_set_val_spec [OF assms(1) Some, of v]
  have "table_room sizeof_addrtab_bucket (t\<lparr>ht_data := (ht_data t)(i := (ht_data t i)\<lparr>hb_val := v\<rparr>)\<rparr>) n"
    by (rule table_room_mono [OF assms(2)]) simp
  then show ?thesis using a Some table_lookup_spec [OF assms(1)] by (simp add: ir_addrtab_set_def)
qed

interpretation addrtab: key_table addrtab_ok table_map "table_room sizeof_addrtab_bucket" ir_addrtab_find IR_INVALID_VAL
  ir_addrtab_set take_new
proof (unfold_locales, goal_cases)
  case (1 t k)
  then show ?case unfolding ir_addrtab_find_def by (rule table_find_spec)
next
  case (2 t n k v)
  then show ?case using addrtab_set_cases [of t n k v] by (auto simp: take_new_def)
qed

lemma keep_map: "put_map keep_old kvs m = map_of kvs ++ m"
  by (induction kvs arbitrary: m) (auto simp: keep_old_def fun_eq_iff map_add_def split: option.splits)

lemma new_map: "put_map take_new kvs m = m ++ map_of (rev kvs)"
  by (induction kvs arbitrary: m) (auto simp: take_new_def)

lemma hashtab_init_ok:
  assumes "0 < unat n" "12 * unat n \<le> IR_INVALID_IDX"
  shows "hashtab_ok (ir_hashtab_init mem n)" "table_map (ir_hashtab_init mem n) = Map.empty"
  using table_init_spec [OF assms(1), of 12] assms(2) by (simp_all add: ir_hashtab_init_def)

lemma addrtab_init_ok:
  assumes "0 < unat n" "16 * unat n \<le> IR_INVALID_IDX"
  shows "addrtab_ok (ir_addrtab_init mem n)" "table_map (ir_addrtab_init mem n) = Map.empty"
  using table_init_spec [OF assms(1), of 16] assms(2) by (simp_all add: ir_addrtab_init_def)


text \<open>The mask is the negated number of heads that fits the size.\<close>

definition mask_ok :: "(u32 \<Rightarrow> u32) \<Rightarrow> 'k ir_table \<Rightarrow> bool" where
  "mask_ok hsz tab \<longleftrightarrow> ht_mask tab = - hsz (ht_size tab)"

lemma mask_init [simp]: "mask_ok hsz (table_init hsz mem n)"
  by (simp add: mask_ok_def table_init_def)

lemma mask_append: "mask_ok hsz tab \<Longrightarrow> mask_ok hsz (table_append sz slot hsz tab key val)"
  by (simp add: mask_ok_def table_append_def table_resize_def Let_def split_def)

lemma mask_add: "mask_ok ir_hashtab_hash_size t \<Longrightarrow> ir_hashtab_add t k v = Some r \<Longrightarrow> mask_ok ir_hashtab_hash_size (fst r)"
  by (auto simp: ir_hashtab_add_def mask_append split: option.splits)

lemma mask_put_all:
  "mask_ok ir_hashtab_hash_size t \<Longrightarrow> put_all (\<lambda>t k v. map_option fst (ir_hashtab_add t k v)) kvs t = Some t' \<Longrightarrow>
     mask_ok ir_hashtab_hash_size t'"
  by (induction kvs arbitrary: t) (auto simp: Option.bind_eq_Some_conv dest: mask_add)

lemma heads_in_bounds:
  assumes "hashtab_ok t" "mask_ok ir_hashtab_hash_size t"
  shows "- uint (ir_hashtab_hash_size (ht_size t)) \<le> sint (hashtab_slot k (ht_mask t)) \<and> sint (hashtab_slot k (ht_mask t)) < 0"
proof -
  have "0 < unat (ht_size t)" "unat (ht_size t) \<le> 2 ^ 31" using assms(1) by (auto simp: table_ok_def Let_def)
  then show ?thesis unfolding hashtab_slot_def using head_index assms(2) [unfolded mask_ok_def] by blast
qed

section \<open>Sorting by key\<close>

lemma signed_take_bit_word_sub: "sint (x - y) = signed_take_bit 31 (uint x - uint y)" for x y :: u32
proof -
  have "x - y = word_of_int (uint x - uint y)" by simp
  then show ?thesis by (simp only: sint_sbintrunc') simp
qed

lemma cmp_ordersI:
  assumes "\<And>b1 b2. b1 \<in> set bs \<Longrightarrow> b2 \<in> set bs \<Longrightarrow> uint (hb_key b1) - uint (hb_key b2) < 2 ^ 31"
  shows "cmp_orders bs"
  unfolding cmp_orders_def list_all_iff
proof (intro ballI)
  fix b1 b2 assume b: "b1 \<in> set bs" "b2 \<in> set bs"
  let ?d = "uint (hb_key b1) - uint (hb_key b2)"
  have d: "- (2 ^ 31) \<le> ?d" "?d < 2 ^ 31" using assms [OF b(2,1)] assms [OF b] by linarith+
  have "sint (hb_key b1 - hb_key b2) = signed_take_bit 31 ?d"
    by (simp add: signed_take_bit_word_sub)
  also have "\<dots> = ?d" using d by (intro signed_take_bit_int_eq_self) simp_all
  finally show "(ir_hashtab_key_cmp b1 b2 < 0) = (hb_key b1 < hb_key b2)"
    by (simp add: ir_hashtab_key_cmp_def word_less_def)
qed

lemma table_map_iff:
  assumes "inj_on (\<lambda>i. hb_key (ht_data t i)) {..<ht_count t}"
  shows "table_map t k = Some v \<longleftrightarrow> (k, v) \<in> (\<lambda>b. (hb_key b, hb_val b)) ` ht_data t ` {..<ht_count t}"
  using assms by (auto simp: table_map_def find_last_Some inj_on_def image_iff)

lemma table_map_cong:
  assumes "inj_on (\<lambda>i. hb_key (ht_data t i)) {..<ht_count t}" "inj_on (\<lambda>i. hb_key (ht_data t' i)) {..<ht_count t'}"
    and "(\<lambda>b. (hb_key b, hb_val b)) ` ht_data t ` {..<ht_count t} = (\<lambda>b. (hb_key b, hb_val b)) ` ht_data t' ` {..<ht_count t'}"
  shows "table_map t = table_map t'"
proof
  fix k
  have "table_map t k = Some v \<longleftrightarrow> table_map t' k = Some v" for v
    unfolding table_map_iff [OF assms(1)] table_map_iff [OF assms(2)] assms(3) ..
  then show "table_map t k = table_map t' k" by (metis not_Some_eq)
qed

lemma inj_on_keys: "inj_on (\<lambda>i. hb_key (bs ! i)) {..<length bs} \<longleftrightarrow> distinct (map hb_key bs)"
  by (auto simp: distinct_conv_nth inj_on_def)

lemma key_sort_spec:
  assumes ok: "hashtab_ok t" and near: "cmp_orders (map (ht_data t) [0..<ht_count t])"
  shows "\<exists>t'. ir_hashtab_key_sort t = Some t' \<and> hashtab_ok t' \<and> table_map t' = table_map t \<and>
    ht_count t' = ht_count t \<and> sorted (map (\<lambda>i. hb_key (ht_data t' i)) [0..<ht_count t'])"
proof (cases "ht_count t = 0")
  case True
  then show ?thesis using ok by (simp add: ir_hashtab_key_sort_def)
next
  case False
  define n where "n = ht_count t"
  define xs where "xs = map (ht_data t) [0..<n]"
  define bs where "bs = sort_key hb_key xs"
  define d where "d = (\<lambda>i. if i < n then bs ! i else ht_data t i)"
  obtain hs nxt where r: "rebuild sizeof_hashtab_bucket (\<lambda>i. hashtab_slot (hb_key (d i)) (ht_mask t)) n
      (\<lambda>_. IR_INVALID_IDX, \<lambda>i. hb_next (d i)) = (hs, nxt)" by fastforce
  define t' where "t' = t\<lparr>ht_heads := hs, ht_data := set_nexts d nxt\<rparr>"
  have run: "ir_hashtab_key_sort t = Some t'"
    using False near r unfolding ir_hashtab_key_sort_def t'_def d_def bs_def xs_def n_def by (simp add: Let_def)
  have len: "length bs = n" "length xs = n" by (simp_all add: bs_def xs_def)
  have dat: "hb_key (ht_data t' i) = hb_key (d i)" "hb_val (ht_data t' i) = hb_val (d i)" "hb_next (ht_data t' i) = nxt i"
    "ht_count t' = n" for i by (simp_all add: t'_def set_nexts_def n_def)
  have inj: "inj_on (\<lambda>i. hb_key (ht_data t i)) {..<n}" using ok by (simp add: table_ok_def Let_def n_def)
  then have "inj_on (\<lambda>i. hb_key (xs ! i)) {..<length xs}" by (simp add: len inj_on_def) (simp add: xs_def)
  then have "distinct (map hb_key xs)" by (simp only: inj_on_keys)
  then have "distinct (map hb_key bs)" unfolding bs_def by (simp add: distinct_map)
  then have "inj_on (\<lambda>i. hb_key (bs ! i)) {..<n}" using inj_on_keys [of bs] len by simp
  then have inj': "inj_on (\<lambda>i. hb_key (ht_data t' i)) {..<n}" by (simp add: dat inj_on_def d_def)
  have ok': "hashtab_ok t'"
    using rebuild_ok [OF r] ok inj' unfolding table_ok_def Let_def dat by (simp add: t'_def n_def)
  have "(\<lambda>b. (hb_key b, hb_val b)) ` ht_data t' ` {..<n} = (\<lambda>b. (hb_key b, hb_val b)) ` d ` {..<n}"
    by (simp add: image_image dat)
  also have "d ` {..<n} = set bs" using nth_image [of n bs] by (simp add: d_def len lessThan_atLeast0 cong: image_cong_simp)
  also have "set bs = ht_data t ` {..<n}" by (simp add: bs_def xs_def lessThan_atLeast0)
  finally have "table_map t' = table_map t" using inj inj' by (intro table_map_cong) (simp_all add: dat n_def)
  moreover have "map (\<lambda>i. hb_key (ht_data t' i)) [0..<n] = map hb_key bs"
    by (rule nth_equalityI) (simp_all add: len dat d_def)
  then have "sorted (map (\<lambda>i. hb_key (ht_data t' i)) [0..<n])" by (simp add: bs_def)
  ultimately show ?thesis using run ok' dat(4) by (simp add: n_def)
qed

section \<open>Properties\<close>

text \<open>C24: A 32-bit key table that is initialised and then given any sequence of additions finds, for every key, the value it
  was added with first, and the invalid value for a key that was never added; no look-up and no addition fails to
  end, and growing the table changes nothing.\<close>

theorem hashtab_find_first:
  assumes "0 < unat n" "12 * unat n \<le> 0xffffffff" "24 * length kvs \<le> 0xffffffff"
  shows "Option.bind (put_all (\<lambda>t k v. map_option fst (ir_hashtab_add t k v)) kvs (ir_hashtab_init mem n)) (\<lambda>t. ir_hashtab_find t k) =
    Some (case map_of kvs k of None \<Rightarrow> IR_INVALID_VAL | Some v \<Rightarrow> v)"
  using hashtab.find_put_all [OF hashtab_init_ok(1) [OF assms(1,2)], where kvs = kvs and k = k] assms
  by (simp add: table_room_def keep_map hashtab_init_ok(2)) (simp add: ir_hashtab_init_def table_init_def)

abbreviation zero_mem :: "nat \<Rightarrow> ('k :: zero) ir_bucket" where
  "zero_mem \<equiv> \<lambda>_. \<lparr>hb_key = 0, hb_val = 0, hb_next = 0\<rparr>"

theorem hashtab_find_first_witness:
  "Option.bind (put_all (\<lambda>t k v. map_option fst (ir_hashtab_add t k v)) [(7, 1), (7, 2), (11, 3)] (ir_hashtab_init zero_mem 1))
     (\<lambda>t. ir_hashtab_find t 7) = Some 1"
  using hashtab_find_first [of 1 "[(7, 1), (7, 2), (11, 3)]" zero_mem 7] by simp

text \<open>C25: A 64-bit key table that is initialised and then given any sequence of stores finds, for every key, the value it was
  stored with last, and the invalid value for a key that was never stored.\<close>

theorem addrtab_find_last:
  assumes "0 < unat n" "16 * unat n \<le> 0xffffffff" "32 * length kvs \<le> 0xffffffff"
  shows "Option.bind (put_all ir_addrtab_set kvs (ir_addrtab_init mem n)) (\<lambda>t. ir_addrtab_find t k) =
    Some (case map_of (rev kvs) k of None \<Rightarrow> IR_INVALID_VAL | Some v \<Rightarrow> v)"
  using addrtab.find_put_all [OF addrtab_init_ok(1) [OF assms(1,2)], where kvs = kvs and k = k] assms
  by (simp add: table_room_def new_map addrtab_init_ok(2)) (simp add: ir_addrtab_init_def table_init_def)

theorem addrtab_find_last_witness:
  "Option.bind (put_all ir_addrtab_set [(7, 1), (7, 2), (0x100000007, 3)] (ir_addrtab_init zero_mem 1)) (\<lambda>t. ir_addrtab_find t 7) = Some 2"
  using addrtab_find_last [of 1 "[(7, 1), (7, 2), (0x100000007, 3)]" zero_mem 7] by simp

text \<open>C26: The heads of the chains lie in front of the buckets, and the code reaches them with a negative index. However a
  table was filled, the index of every key is at least minus the number of heads and below zero, so no look-up
  leaves the memory that was allocated.\<close>

theorem hashtab_heads_safe:
  assumes "0 < unat n" "12 * unat n \<le> 0xffffffff" "24 * length kvs \<le> 0xffffffff"
  shows "\<exists>t. put_all (\<lambda>t k v. map_option fst (ir_hashtab_add t k v)) kvs (ir_hashtab_init mem n) = Some t \<and>
    - uint (ir_hashtab_hash_size (ht_size t)) \<le> sint (hashtab_slot k (ht_mask t)) \<and> sint (hashtab_slot k (ht_mask t)) < 0 \<and>
    unat (ht_size t) \<le> unat (ir_hashtab_hash_size (ht_size t))"
proof -
  have "table_room sizeof_hashtab_bucket (ir_hashtab_init mem n) (length kvs + 0)"
    using assms(3) by (simp add: table_room_def ir_hashtab_init_def table_init_def)
  from hashtab.put_all_spec [OF hashtab_init_ok(1) [OF assms(1,2)] this] obtain t where
    t: "put_all (\<lambda>t k v. map_option fst (ir_hashtab_add t k v)) kvs (ir_hashtab_init mem n) = Some t" "hashtab_ok t" by blast
  have m: "mask_ok ir_hashtab_hash_size t" by (rule mask_put_all [OF _ t(1)]) (simp add: ir_hashtab_init_def)
  have "0 < unat (ht_size t)" "unat (ht_size t) \<le> 2 ^ 31" using t(2) by (auto simp: table_ok_def Let_def)
  then have "unat (ht_size t) \<le> unat (ir_hashtab_hash_size (ht_size t))" by (rule hash_size_ge)
  then show ?thesis using t(1) heads_in_bounds [OF t(2) m] by blast
qed

theorem hashtab_heads_safe_witness:
  "\<exists>t. put_all (\<lambda>t k v. map_option fst (ir_hashtab_add t k v)) [(7, 1), (11, 3)] (ir_hashtab_init zero_mem 1) = Some t \<and>
    - uint (ir_hashtab_hash_size (ht_size t)) \<le> sint (hashtab_slot 5 (ht_mask t)) \<and> sint (hashtab_slot 5 (ht_mask t)) < 0 \<and>
    unat (ht_size t) \<le> unat (ir_hashtab_hash_size (ht_size t))"
  using hashtab_heads_safe [of 1 "[(7, 1), (11, 3)]" zero_mem 5] by simp




end
