(* ===== verification/Strtab.thy ===== *)
theory Strtab
  imports Hashtab
begin

text \<open>
  The string table (ir_strtab.c) and its use for the names, the string literals and the prototypes of a
  context (ir.c). Addresses are integers. The bytes of the table's own buffer lie at the address \<open>st_buf\<close>, which
  is 0 when the table has none; then a bucket keeps the caller's pointer and the caller's memory \<open>cm\<close> is read. The
  address \<open>realloc\<close> returns and the bytes of fresh memory are arguments of the operations.
\<close>

section \<open>Buckets\<close>

type_synonym u8 = "8 word"

record ir_strtab_key =
  sk_h :: u32
  sk_len :: u32
  sk_str :: int

record ir_strtab =
  st_tab :: "ir_strtab_key ir_table"
  st_buf :: int
  st_bytes :: "u8 list"
  buf_size :: u32
  buf_top :: u32

abbreviation (input) sizeof_strtab_bucket :: nat where "sizeof_strtab_bucket \<equiv> 24"

definition strtab_slot :: "ir_strtab_key \<Rightarrow> u32 \<Rightarrow> u32" where
  "strtab_slot key msk = sk_h key OR msk"

text \<open>The bytes of a string; a \<open>char\<close> of the hash function is signed.\<close>

definition mem_bytes :: "(int \<Rightarrow> u8) \<Rightarrow> int \<Rightarrow> u32 \<Rightarrow> u8 list" where
  "mem_bytes cm p len = map (\<lambda>i. cm (p + int i)) [0..<unat len]"

definition str_bytes :: "(int \<Rightarrow> u8) \<Rightarrow> ir_strtab \<Rightarrow> ir_strtab_key \<Rightarrow> u8 list" where
  "str_bytes cm st key =
     (if st_buf st = 0 then mem_bytes cm (sk_str key) (sk_len key)
      else map (\<lambda>i. st_bytes st ! nat (sk_str key - st_buf st + int i)) [0..<unat (sk_len key)])"

definition ir_str_hash :: "u8 list \<Rightarrow> u32" where
  "ir_str_hash str = foldl (\<lambda>h c. (push_bit 5 h + h) + scast c) 5381 str OR 0x10000000"

definition ir_strtab_hash_size :: "u32 \<Rightarrow> u32" where
  "ir_strtab_hash_size n = smear (n - 1) + 1"

section \<open>Operations\<close>

definition ir_strtab_resize :: "ir_strtab \<Rightarrow> ir_strtab" where
  "ir_strtab_resize st = st\<lparr>st_tab := table_resize sizeof_strtab_bucket strtab_slot ir_strtab_hash_size (st_tab st)\<rparr>"

partial_function (option) grow_loop :: "u32 \<Rightarrow> u32 \<Rightarrow> u32 \<Rightarrow> u32 option" where
  [code]: "grow_loop sz tp len = (let sz = sz * 2 in if sz - tp < len + 1 then grow_loop sz tp len else Some sz)"

definition move_strings :: "int \<Rightarrow> ir_strtab_key ir_table \<Rightarrow> ir_strtab_key ir_table" where
  "move_strings d tab = tab\<lparr>ht_data := (\<lambda>i. if i < ht_count tab
     then (ht_data tab i)\<lparr>hb_key := (hb_key (ht_data tab i))\<lparr>sk_str := sk_str (hb_key (ht_data tab i)) + d\<rparr>\<rparr> else ht_data tab i)\<rparr>"

definition ir_strtab_grow_buf :: "(int \<Rightarrow> u32 \<Rightarrow> int) \<Rightarrow> (nat \<Rightarrow> u8) \<Rightarrow> ir_strtab \<Rightarrow> u32 \<Rightarrow> ir_strtab option" where
  "ir_strtab_grow_buf realloc fresh st len =
     (let old = st_buf st in
      map_option (\<lambda>n.
        let st = st\<lparr>buf_size := n, st_buf := realloc old n,
              st_bytes := map (\<lambda>i. if i < length (st_bytes st) then st_bytes st ! i else fresh i) [0..<unat n]\<rparr>
        in if st_buf st \<noteq> old then st\<lparr>st_tab := move_strings (st_buf st - old) (st_tab st)\<rparr> else st)
      (grow_loop (buf_size st) (buf_top st) len))"

definition ir_strtab_init :: "(nat \<Rightarrow> ir_strtab_key ir_bucket) \<Rightarrow> int \<Rightarrow> (nat \<Rightarrow> u8) \<Rightarrow> u32 \<Rightarrow> u32 \<Rightarrow> ir_strtab" where
  "ir_strtab_init mem addr fresh n bsize =
     (if bsize \<noteq> 0 then
        \<lparr>st_tab = table_init ir_strtab_hash_size mem n, st_buf = addr, st_bytes = map fresh [0..<unat bsize], buf_size = bsize, buf_top = 0\<rparr>
      else \<lparr>st_tab = table_init ir_strtab_hash_size mem n, st_buf = 0, st_bytes = [], buf_size = 0, buf_top = 0\<rparr>)"

text \<open>The loop of the three look-ups.\<close>

definition strtab_walk :: "(int \<Rightarrow> u8) \<Rightarrow> ir_strtab \<Rightarrow> int \<Rightarrow> u32 \<Rightarrow> nat option option" where
  "strtab_walk cm st str len =
     (let h = ir_str_hash (mem_bytes cm str len); tab = st_tab st in
      chain_walk sizeof_strtab_bucket (\<lambda>i. hb_next (ht_data tab i))
        (\<lambda>i. let p = hb_key (ht_data tab i) in sk_h p = h \<and> sk_len p = len \<and> str_bytes cm st p = mem_bytes cm str len)
        (ht_heads tab (h OR ht_mask tab)))"

definition ir_strtab_find :: "(int \<Rightarrow> u8) \<Rightarrow> ir_strtab \<Rightarrow> int \<Rightarrow> u32 \<Rightarrow> ir_ref option" where
  "ir_strtab_find cm st str len =
     map_option (\<lambda>r. case r of Some i \<Rightarrow> hb_val (ht_data (st_tab st) i) | None \<Rightarrow> 0) (strtab_walk cm st str len)"

definition strtab_copy :: "(int \<Rightarrow> u8) \<Rightarrow> ir_strtab \<Rightarrow> int \<Rightarrow> u32 \<Rightarrow> ir_strtab \<times> int" where
  "strtab_copy cm st str len =
     (let tp = unat (buf_top st) in
      (st\<lparr>st_bytes := (take tp (st_bytes st) @ mem_bytes cm str len @ drop (tp + unat len) (st_bytes st))[tp + unat len := 0],
          buf_top := buf_top st + (len + 1)\<rparr>,
       st_buf st + int tp))"

definition ir_strtab_lookup ::
  "(int \<Rightarrow> u8) \<Rightarrow> (int \<Rightarrow> u32 \<Rightarrow> int) \<Rightarrow> (nat \<Rightarrow> u8) \<Rightarrow> ir_strtab \<Rightarrow> int \<Rightarrow> u32 \<Rightarrow> ir_ref \<Rightarrow> (ir_strtab \<times> ir_ref) option" where
  "ir_strtab_lookup cm realloc fresh st str len val =
     Option.bind (strtab_walk cm st str len) (\<lambda>r. case r of
         Some i \<Rightarrow> Some (st, hb_val (ht_data (st_tab st) i))
       | None \<Rightarrow>
           let h = ir_str_hash (mem_bytes cm str len);
               st = (if ht_count (st_tab st) \<ge> unat (ht_size (st_tab st)) then ir_strtab_resize st else st)
           in map_option (\<lambda>(st, str).
                (let tab = st_tab st; pos = ht_pos tab;
                     key = \<lparr>sk_h = h, sk_len = len, sk_str = str\<rparr>; h = h OR ht_mask tab;
                     b = \<lparr>hb_key = key, hb_val = val, hb_next = ht_heads tab h\<rparr>
                 in (st\<lparr>st_tab := tab\<lparr>ht_pos := pos + sizeof_strtab_bucket, ht_count := ht_count tab + 1,
                        ht_data := (ht_data tab)(pos div sizeof_strtab_bucket := b), ht_heads := (ht_heads tab)(h := pos)\<rparr>\<rparr>, val)))
              (if st_buf st \<noteq> 0 then
                 map_option (\<lambda>st. strtab_copy cm st str len)
                   (if buf_size st - buf_top st < len + 1 then ir_strtab_grow_buf realloc fresh st (len + 1) else Some st)
               else Some (st, str)))"

definition ir_strtab_update :: "(int \<Rightarrow> u8) \<Rightarrow> ir_strtab \<Rightarrow> int \<Rightarrow> u32 \<Rightarrow> ir_ref \<Rightarrow> (ir_strtab \<times> ir_ref) option" where
  "ir_strtab_update cm st str len val =
     map_option (\<lambda>r. case r of
         Some i \<Rightarrow> (let tab = st_tab st in
           (st\<lparr>st_tab := tab\<lparr>ht_data := (ht_data tab)(i := (ht_data tab i)\<lparr>hb_val := val\<rparr>)\<rparr>\<rparr>, val))
       | None \<Rightarrow> (st, 0)) (strtab_walk cm st str len)"

definition ir_strtab_str :: "ir_strtab \<Rightarrow> ir_ref \<Rightarrow> int option" where
  "ir_strtab_str st idx =
     (if 0 \<le> idx \<and> nat idx < ht_count (st_tab st) then Some (sk_str (hb_key (ht_data (st_tab st) (nat idx)))) else None)"

definition ir_strtab_strl :: "ir_strtab \<Rightarrow> ir_ref \<Rightarrow> (int \<times> u32) option" where
  "ir_strtab_strl st idx =
     (let b = hb_key (ht_data (st_tab st) (nat idx)) in
      if 0 \<le> idx \<and> nat idx < ht_count (st_tab st) then Some (sk_str b, sk_len b) else None)"

definition ir_strtab_apply :: "ir_strtab \<Rightarrow> (int \<Rightarrow> u32 \<Rightarrow> ir_ref \<Rightarrow> 's \<Rightarrow> 's) \<Rightarrow> 's \<Rightarrow> 's" where
  "ir_strtab_apply st func s =
     fold (\<lambda>i. let b = ht_data (st_tab st) i in func (sk_str (hb_key b)) (sk_len (hb_key b)) (hb_val b)) [0..<ht_count (st_tab st)] s"

section \<open>The strings of a table\<close>

definition st_string :: "(int \<Rightarrow> u8) \<Rightarrow> ir_strtab \<Rightarrow> nat \<Rightarrow> u8 list" where
  "st_string cm st i = str_bytes cm st (hb_key (ht_data (st_tab st) i))"

definition strtab_ok :: "(int \<Rightarrow> u8) \<Rightarrow> ir_strtab \<Rightarrow> bool" where
  "strtab_ok cm st \<longleftrightarrow>
     table_ok sizeof_strtab_bucket strtab_slot (st_tab st) \<and>
     inj_on (st_string cm st) {..<ht_count (st_tab st)} \<and>
     (\<forall>i<ht_count (st_tab st). sk_h (hb_key (ht_data (st_tab st) i)) = ir_str_hash (st_string cm st i)) \<and>
     (st_buf st \<noteq> 0 \<longrightarrow>
        0 < unat (buf_size st) \<and> unat (buf_top st) \<le> unat (buf_size st) \<and> length (st_bytes st) = unat (buf_size st) \<and>
        (\<forall>i<ht_count (st_tab st). let k = hb_key (ht_data (st_tab st) i) in
           st_buf st \<le> sk_str k \<and> sk_str k + int (unat (sk_len k)) < st_buf st + int (unat (buf_top st))))"

definition strtab_map :: "(int \<Rightarrow> u8) \<Rightarrow> ir_strtab \<Rightarrow> u8 list \<rightharpoonup> ir_ref" where
  "strtab_map cm st s =
     map_option (\<lambda>i. hb_val (ht_data (st_tab st) i)) (find_last (\<lambda>i. st_string cm st i = s) (ht_count (st_tab st)))"

lemma length_mem_bytes [simp]: "length (mem_bytes cm p len) = unat len"
  by (simp add: mem_bytes_def)

lemma length_str_bytes [simp]: "length (str_bytes cm st k) = unat (sk_len k)"
  by (simp add: str_bytes_def)

lemma strtab_walk_spec:
  assumes "strtab_ok cm st"
  shows "strtab_walk cm st str len =
    Some (find_last (\<lambda>i. st_string cm st i = mem_bytes cm str len) (ht_count (st_tab st)))"
proof -
  let ?t = "st_tab st" and ?s = "mem_bytes cm str len"
  let ?sl = "\<lambda>i. strtab_slot (hb_key (ht_data ?t i)) (ht_mask ?t)"
  let ?m = "\<lambda>i. let p = hb_key (ht_data ?t i) in sk_h p = ir_str_hash ?s \<and> sk_len p = len \<and> str_bytes cm st p = ?s"
  have ok: "table_ok sizeof_strtab_bucket strtab_slot ?t" using assms by (simp add: strtab_ok_def)
  have sz: "sizeof_strtab_bucket * ht_count ?t \<le> IR_INVALID_IDX"
    using ok mult_le_mono2 [of "ht_count ?t" "unat (ht_size ?t)" 24] by (simp add: table_ok_def Let_def)
  have "ht_heads ?t (ir_str_hash ?s OR ht_mask ?t) = offset sizeof_strtab_bucket (last_slot ?sl (ht_count ?t) (ir_str_hash ?s OR ht_mask ?t))"
    using ok by (simp add: table_ok_def Let_def heads_ok_def)
  then have "strtab_walk cm st str len = Some (find_last ?m (ht_count ?t))"
    unfolding strtab_walk_def Let_def
    using chain_walk_spec [OF _ sz, where slot = ?sl and match = ?m and h = "ir_str_hash ?s OR ht_mask ?t" and k = "ht_count ?t"] ok
    by (simp add: table_ok_def Let_def strtab_slot_def)
  also have "find_last ?m (ht_count ?t) = find_last (\<lambda>i. st_string cm st i = ?s) (ht_count ?t)"
  proof (rule find_last_cong)
    fix i assume i: "i < ht_count ?t"
    have "sk_len (hb_key (ht_data ?t i)) = len" if "st_string cm st i = ?s"
      using arg_cong [OF that, of length] by (simp add: st_string_def word_unat_eq_iff)
    then show "?m i = (st_string cm st i = ?s)" using assms i by (auto simp: strtab_ok_def st_string_def Let_def)
  qed
  finally show ?thesis .
qed


section \<open>The steps of an insertion\<close>

definition same_strings :: "(int \<Rightarrow> u8) \<Rightarrow> ir_strtab \<Rightarrow> ir_strtab \<Rightarrow> bool" where
  "same_strings cm st st' \<longleftrightarrow>
     ht_count (st_tab st') = ht_count (st_tab st) \<and>
     (\<forall>i<ht_count (st_tab st). st_string cm st' i = st_string cm st i \<and> hb_val (ht_data (st_tab st') i) = hb_val (ht_data (st_tab st) i))"

lemma same_strings_refl [simp]: "same_strings cm st st"
  by (simp add: same_strings_def)

lemma same_strings_trans: "same_strings cm st st' \<Longrightarrow> same_strings cm st' st'' \<Longrightarrow> same_strings cm st st''"
  by (simp add: same_strings_def)

lemma strtab_resize_ok:
  assumes "strtab_ok cm st" "sizeof_strtab_bucket * (2 * unat (ht_size (st_tab st))) \<le> IR_INVALID_IDX"
  shows "strtab_ok cm (ir_strtab_resize st)" "same_strings cm st (ir_strtab_resize st)"
    "ht_count (st_tab (ir_strtab_resize st)) < unat (ht_size (st_tab (ir_strtab_resize st)))"
    "st_buf (ir_strtab_resize st) = st_buf st" "buf_size (ir_strtab_resize st) = buf_size st" "buf_top (ir_strtab_resize st) = buf_top st"
proof -
  let ?st = "ir_strtab_resize st"
  have ok: "table_ok sizeof_strtab_bucket strtab_slot (st_tab st)" using assms(1) by (simp add: strtab_ok_def)
  note r = table_resize_spec [OF ok assms(2), of ir_strtab_hash_size]
  have tab: "st_tab ?st = table_resize sizeof_strtab_bucket strtab_slot ir_strtab_hash_size (st_tab st)"
    and buf: "st_buf ?st = st_buf st" "buf_size ?st = buf_size st" "buf_top ?st = buf_top st" "st_bytes ?st = st_bytes st"
    by (simp_all add: ir_strtab_resize_def)
  have key: "hb_key (ht_data (st_tab ?st) i) = hb_key (ht_data (st_tab st) i)" "hb_val (ht_data (st_tab ?st) i) = hb_val (ht_data (st_tab st) i)" for i
    by (simp_all add: tab table_resize_def Let_def split_def set_nexts_def)
  have str: "st_string cm ?st i = st_string cm st i" for i unfolding st_string_def key by (simp add: str_bytes_def buf)
  have c: "ht_count (st_tab ?st) = ht_count (st_tab st)" using r(4) by (simp add: tab)
  show "strtab_ok cm ?st" using assms(1) r(1) unfolding strtab_ok_def key str c buf tab [symmetric] by (simp add: inj_on_def str)
  show "same_strings cm st ?st" by (simp add: same_strings_def c str key)
  show "ht_count (st_tab ?st) < unat (ht_size (st_tab ?st))" using ok r(3) unfolding c by (simp add: tab table_ok_def Let_def)
qed (simp_all add: ir_strtab_resize_def)

lemma grow_loop_spec:
  assumes "0 < unat sz" "unat tp \<le> unat sz" "unat tp + unat len + 1 < 2 ^ 31" "unat sz < unat tp + unat len + 1"
  shows "\<exists>n. grow_loop sz tp len = Some n \<and> unat sz \<le> unat n \<and> unat tp + unat len + 1 \<le> unat n"
  using assms
proof (induction "2 ^ 32 - unat sz" arbitrary: sz rule: less_induct)
  case less
  have d: "unat (sz * 2) = 2 * unat sz" using less.prems(3,4) by (simp add: unat_word_ariths)
  have l: "unat (len + 1) = unat len + 1" using less.prems(3) by (simp add: unat_word_ariths)
  have s: "unat (sz * 2 - tp) = 2 * unat sz - unat tp" using d less.prems(2) by (simp add: unat_sub word_le_nat_alt)
  show ?case
  proof (cases "sz * 2 - tp < len + 1")
    case True
    then have lt: "2 * unat sz < unat tp + unat len + 1" using s l less.prems(2) by (simp add: word_less_nat_alt)
    have "\<exists>n. grow_loop (sz * 2) tp len = Some n \<and> unat (sz * 2) \<le> unat n \<and> unat tp + unat len + 1 \<le> unat n"
      by (rule less.hyps) (use d less.prems lt in auto)
    then show ?thesis using True d by (subst grow_loop.simps) (auto simp: Let_def)
  next
    case False
    then have "unat tp + unat len + 1 \<le> 2 * unat sz" using s l less.prems(2) by (simp add: word_less_nat_alt)
    then show ?thesis using False d by (subst grow_loop.simps) (simp add: Let_def)
  qed
qed


lemma unat_less: "unat w < 2 ^ 32" for w :: u32
  using unsigned_less [of w] by simp

lemma str_bytes_in_buf:
  assumes "st_buf st \<noteq> 0" "st_buf st' \<noteq> 0" "sk_len k' = sk_len k" "sk_str k' - st_buf st' = sk_str k - st_buf st"
    "st_buf st \<le> sk_str k" "sk_str k + int (unat (sk_len k)) < st_buf st + int n" "take n (st_bytes st') = take n (st_bytes st)"
    "n \<le> length (st_bytes st)" "n \<le> length (st_bytes st')"
  shows "str_bytes cm st' k' = str_bytes cm st k"
proof -
  have "st_bytes st' ! nat (sk_str k - st_buf st + int i) = st_bytes st ! nat (sk_str k - st_buf st + int i)" if "i < unat (sk_len k)" for i
  proof -
    have "nat (sk_str k - st_buf st + int i) < n" using that assms(5,6) by linarith
    then show ?thesis using assms(7) by (metis nth_take)
  qed
  then show ?thesis using assms(1-4) by (simp add: str_bytes_def)
qed

lemma strtab_grow_buf_ok:
  assumes ok: "strtab_ok cm st" "st_buf st \<noteq> 0" and ra: "\<And>a n. realloc a n \<noteq> 0"
    and len: "unat (buf_top st) + unat len + 1 < 2 ^ 31" "unat (buf_size st) < unat (buf_top st) + unat len + 1"
  shows "\<exists>st'. ir_strtab_grow_buf realloc fresh st len = Some st' \<and> strtab_ok cm st' \<and> same_strings cm st st' \<and> st_buf st' \<noteq> 0 \<and>
    buf_top st' = buf_top st \<and> unat (buf_top st) + unat len + 1 \<le> unat (buf_size st') \<and> ht_size (st_tab st') = ht_size (st_tab st)"
proof -
  have b: "0 < unat (buf_size st)" "unat (buf_top st) \<le> unat (buf_size st)" "length (st_bytes st) = unat (buf_size st)"
    "\<And>i. i < ht_count (st_tab st) \<Longrightarrow> st_buf st \<le> sk_str (hb_key (ht_data (st_tab st) i)) \<and>
       sk_str (hb_key (ht_data (st_tab st) i)) + int (unat (sk_len (hb_key (ht_data (st_tab st) i)))) < st_buf st + int (unat (buf_top st))"
    using ok by (simp_all add: strtab_ok_def Let_def)
  obtain n where n: "grow_loop (buf_size st) (buf_top st) len = Some n" "unat (buf_size st) \<le> unat n" "unat (buf_top st) + unat len + 1 \<le> unat n"
    using grow_loop_spec [OF b(1,2) len] by blast
  define a where "a = realloc (st_buf st) n"
  define bs where "bs = map (\<lambda>i. if i < length (st_bytes st) then st_bytes st ! i else fresh i) [0..<unat n]"
  define st' where "st' = st\<lparr>buf_size := n, st_buf := a, st_bytes := bs, st_tab := move_strings (a - st_buf st) (st_tab st)\<rparr>"
  have "move_strings 0 tab = tab" for tab by (cases tab) (auto simp: move_strings_def fun_eq_iff)
  then have run: "ir_strtab_grow_buf realloc fresh st len = Some st'"
    using n(1) by (auto simp: ir_strtab_grow_buf_def Let_def st'_def a_def bs_def)
  have a0: "a \<noteq> 0" using ra by (simp add: a_def)
  have tk: "take (unat (buf_top st)) bs = take (unat (buf_top st)) (st_bytes st)"
    by (rule nth_equalityI) (use b(2,3) n(2) in \<open>auto simp: bs_def\<close>)
  have tab: "ht_count (st_tab st') = ht_count (st_tab st)" "ht_heads (st_tab st') = ht_heads (st_tab st)" "ht_mask (st_tab st') = ht_mask (st_tab st)"
    "ht_size (st_tab st') = ht_size (st_tab st)" "ht_pos (st_tab st') = ht_pos (st_tab st)" "hb_next (ht_data (st_tab st') i) = hb_next (ht_data (st_tab st) i)"
    "hb_val (ht_data (st_tab st') i) = hb_val (ht_data (st_tab st) i)" "sk_h (hb_key (ht_data (st_tab st') i)) = sk_h (hb_key (ht_data (st_tab st) i))"
    "sk_len (hb_key (ht_data (st_tab st') i)) = sk_len (hb_key (ht_data (st_tab st) i))" for i
    by (simp_all add: st'_def move_strings_def)
  have ptr: "sk_str (hb_key (ht_data (st_tab st') i)) = sk_str (hb_key (ht_data (st_tab st) i)) + (a - st_buf st)" if "i < ht_count (st_tab st)" for i
    using that by (simp add: st'_def move_strings_def)
  have buf: "st_buf st' = a" "st_bytes st' = bs" "buf_size st' = n" "buf_top st' = buf_top st" by (simp_all add: st'_def)
  have str: "st_string cm st' i = st_string cm st i" if i: "i < ht_count (st_tab st)" for i
    unfolding st_string_def
    by (rule str_bytes_in_buf [where n = "unat (buf_top st)"]) (use i ok(2) b n a0 tk in \<open>simp_all add: buf tab ptr\<close>, simp_all add: bs_def)
  have "inj_on (st_string cm st') {..<ht_count (st_tab st)}" using ok(1) str by (simp add: strtab_ok_def inj_on_def)
  moreover from this have "inj_on (\<lambda>i. hb_key (ht_data (st_tab st') i)) {..<ht_count (st_tab st)}"
    by (auto simp: inj_on_def st_string_def)
  then have "table_ok sizeof_strtab_bucket strtab_slot (st_tab st')"
    using ok(1) unfolding strtab_ok_def table_ok_def Let_def tab strtab_slot_def by simp
  moreover have "\<forall>i<ht_count (st_tab st). a \<le> sk_str (hb_key (ht_data (st_tab st') i)) \<and>
      sk_str (hb_key (ht_data (st_tab st') i)) + int (unat (sk_len (hb_key (ht_data (st_tab st) i)))) < a + int (unat (buf_top st))"
  proof (intro allI impI)
    fix i assume i: "i < ht_count (st_tab st)"
    show "a \<le> sk_str (hb_key (ht_data (st_tab st') i)) \<and>
      sk_str (hb_key (ht_data (st_tab st') i)) + int (unat (sk_len (hb_key (ht_data (st_tab st) i)))) < a + int (unat (buf_top st))"
      using b(4) [OF i] unfolding ptr [OF i] by linarith
  qed
  ultimately have "strtab_ok cm st'"
    using ok(1) b n str unfolding strtab_ok_def Let_def tab buf by (simp add: bs_def)
  moreover have "same_strings cm st st'" by (simp add: same_strings_def tab str)
  ultimately show ?thesis using run n a0 by (simp add: buf tab)
qed

lemma strtab_copy_ok:
  assumes ok: "strtab_ok cm st" "st_buf st \<noteq> 0" and fits: "unat (buf_top st) + unat len + 1 \<le> unat (buf_size st)"
    and r: "strtab_copy cm st str len = (st', p)"
  shows "strtab_ok cm st' \<and> same_strings cm st st' \<and> st_tab st' = st_tab st \<and> st_buf st' = st_buf st \<and>
    str_bytes cm st' \<lparr>sk_h = h, sk_len = len, sk_str = p\<rparr> = mem_bytes cm str len \<and>
    st_buf st' \<le> p \<and> p + int (unat len) < st_buf st' + int (unat (buf_top st'))"
proof -
  let ?tp = "unat (buf_top st)" and ?s = "mem_bytes cm str len"
  define bs where "bs = (take ?tp (st_bytes st) @ ?s @ drop (?tp + unat len) (st_bytes st))[?tp + unat len := 0]"
  have p: "p = st_buf st + int ?tp" and st': "st' = st\<lparr>st_bytes := bs, buf_top := buf_top st + (len + 1)\<rparr>"
    using r by (simp_all add: strtab_copy_def Let_def bs_def)
  have b: "0 < unat (buf_size st)" "length (st_bytes st) = unat (buf_size st)"
    "\<And>i. i < ht_count (st_tab st) \<Longrightarrow> st_buf st \<le> sk_str (hb_key (ht_data (st_tab st) i)) \<and>
       sk_str (hb_key (ht_data (st_tab st) i)) + int (unat (sk_len (hb_key (ht_data (st_tab st) i)))) < st_buf st + int ?tp"
    using ok by (simp_all add: strtab_ok_def Let_def)
  have lb: "length bs = unat (buf_size st)" using b(2) fits by (simp add: bs_def)
  have tk: "take ?tp bs = take ?tp (st_bytes st)" using b(2) fits by (simp add: bs_def take_update_cancel)
  have mid: "bs ! (?tp + i) = ?s ! i" if "i < unat len" for i using that b(2) fits by (simp add: bs_def nth_append)
  have "?tp + unat len + 1 < 2 ^ 32" using fits unat_less [of "buf_size st"] by simp
  then have top': "unat (buf_top st + (len + 1)) = ?tp + unat len + 1" by (simp add: unat_word_ariths)
  have str: "st_string cm st' i = st_string cm st i" if i: "i < ht_count (st_tab st)" for i
    unfolding st_string_def
    by (rule str_bytes_in_buf [where n = ?tp]) (use i ok(2) b fits tk lb in \<open>simp_all add: st'\<close>)
  have "inj_on (st_string cm st') {..<ht_count (st_tab st)}" using ok(1) str by (simp add: strtab_ok_def inj_on_def)
  moreover have "\<forall>i<ht_count (st_tab st). let k = hb_key (ht_data (st_tab st) i) in
      st_buf st \<le> sk_str k \<and> sk_str k + int (unat (sk_len k)) < st_buf st + int (?tp + unat len + 1)"
  proof (intro allI impI)
    fix i assume i: "i < ht_count (st_tab st)"
    show "let k = hb_key (ht_data (st_tab st) i) in
      st_buf st \<le> sk_str k \<and> sk_str k + int (unat (sk_len k)) < st_buf st + int (?tp + unat len + 1)"
      using b(3) [OF i] unfolding Let_def by linarith
  qed
  ultimately have "strtab_ok cm st'"
    using ok(1) b fits lb top' str unfolding strtab_ok_def Let_def by (simp add: st')
  moreover have "same_strings cm st st'" using str by (simp add: same_strings_def st')
  moreover have "str_bytes cm st' \<lparr>sk_h = h, sk_len = len, sk_str = p\<rparr> = ?s"
    by (rule nth_equalityI) (use ok(2) mid in \<open>auto simp: str_bytes_def st' p nat_add_distrib\<close>)
  ultimately show ?thesis using top' by (simp add: st' p)
qed


lemma table_append_fits:
  assumes "ht_count tab < unat (ht_size tab)"
  shows "table_append sz slot hsz tab key val =
    tab\<lparr>ht_pos := ht_pos tab + sz, ht_count := ht_count tab + 1,
        ht_data := (ht_data tab)(ht_pos tab div sz := \<lparr>hb_key = key, hb_val = val, hb_next = ht_heads tab (slot key (ht_mask tab))\<rparr>),
        ht_heads := (ht_heads tab)(slot key (ht_mask tab) := ht_pos tab)\<rparr>"
  using assms by (simp add: table_append_def Let_def)

lemma strtab_append_ok:
  fixes val :: ir_ref
  assumes ok: "strtab_ok cm st" and room: "table_room sizeof_strtab_bucket (st_tab st) 1" and c: "ht_count (st_tab st) < unat (ht_size (st_tab st))"
    and key: "str_bytes cm st key = s" "sk_h key = ir_str_hash s"
    and buf: "st_buf st \<noteq> 0 \<Longrightarrow> st_buf st \<le> sk_str key \<and> sk_str key + int (unat (sk_len key)) < st_buf st + int (unat (buf_top st))"
    and new: "strtab_map cm st s = None"
  defines "st' \<equiv> st\<lparr>st_tab := table_append sizeof_strtab_bucket strtab_slot ir_strtab_hash_size (st_tab st) key val\<rparr>"
  shows "strtab_ok cm st' \<and> strtab_map cm st' = (strtab_map cm st)(s \<mapsto> val) \<and> ht_count (st_tab st') = ht_count (st_tab st) + 1 \<and>
    (\<forall>i<ht_count (st_tab st). st_string cm st' i = st_string cm st i \<and> hb_val (ht_data (st_tab st') i) = hb_val (ht_data (st_tab st) i)) \<and>
    st_string cm st' (ht_count (st_tab st)) = s \<and> hb_val (ht_data (st_tab st') (ht_count (st_tab st))) = val"
proof -
  let ?t = "st_tab st" and ?n = "ht_count (st_tab st)"
  have tok: "table_ok sizeof_strtab_bucket strtab_slot ?t" using ok by (simp add: strtab_ok_def)
  have none: "\<forall>i<?n. st_string cm st i \<noteq> s" using new by (simp add: strtab_map_def find_last_None)
  then have "table_map ?t key = None" using key(1) by (auto simp: table_map_def find_last_None st_string_def)
  note a = table_append_spec [OF tok room this, of ir_strtab_hash_size val]
  have "ht_pos ?t div 24 = ?n" using tok by (simp add: table_ok_def Let_def)
  then have data: "ht_data (st_tab st') = (ht_data ?t)(?n := \<lparr>hb_key = key, hb_val = val, hb_next = ht_heads ?t (strtab_slot key (ht_mask ?t))\<rparr>)"
    by (simp add: st'_def table_append_fits [OF c])
  have cnt: "ht_count (st_tab st') = Suc ?n" using a(3) by (simp add: st'_def)
  have rest: "st_buf st' = st_buf st" "st_bytes st' = st_bytes st" "buf_size st' = buf_size st" "buf_top st' = buf_top st" by (simp_all add: st'_def)
  have str: "st_string cm st' i = (if i = ?n then s else st_string cm st i)" for i
    by (simp add: st_string_def data key(1) [symmetric]) (simp add: str_bytes_def rest)
  have "inj_on (st_string cm st') {..<Suc ?n}" using ok none unfolding lessThan_Suc by (auto simp: inj_on_def str strtab_ok_def)
  moreover have "\<forall>i<Suc ?n. sk_h (hb_key (ht_data (st_tab st') i)) = ir_str_hash (st_string cm st' i)"
    using ok key(2) by (auto simp: str data strtab_ok_def less_Suc_eq)
  moreover have "table_ok sizeof_strtab_bucket strtab_slot (st_tab st')" using a(1) by (simp add: st'_def)
  ultimately have "strtab_ok cm st'"
    using ok buf unfolding strtab_ok_def cnt rest by (auto simp: data Let_def less_Suc_eq)
  moreover have "strtab_map cm st' = (strtab_map cm st)(s \<mapsto> val)"
  proof
    fix x
    have e: "find_last (\<lambda>i. st_string cm st' i = x) ?n = find_last (\<lambda>i. st_string cm st i = x) ?n"
      by (rule find_last_cong) (simp add: str)
    have "map_option (\<lambda>i. hb_val (ht_data (st_tab st') i)) (find_last (\<lambda>i. st_string cm st i = x) ?n) =
        map_option (\<lambda>i. hb_val (ht_data ?t i)) (find_last (\<lambda>i. st_string cm st i = x) ?n)"
      by (rule option.map_cong0) (auto simp: data find_last_Some)
    then show "strtab_map cm st' x = ((strtab_map cm st)(s \<mapsto> val)) x"
      by (simp add: strtab_map_def cnt e) (simp add: str data)
  qed
  ultimately show ?thesis by (simp add: cnt str data)
qed

lemma same_strings_map: "same_strings cm st st' \<Longrightarrow> strtab_map cm st' = strtab_map cm st"
proof
  fix s assume a: "same_strings cm st st'"
  have "find_last (\<lambda>i. st_string cm st' i = s) (ht_count (st_tab st)) = find_last (\<lambda>i. st_string cm st i = s) (ht_count (st_tab st))"
    by (rule find_last_cong) (use a in \<open>simp add: same_strings_def\<close>)
  moreover have "map_option (\<lambda>i. hb_val (ht_data (st_tab st') i)) (find_last (\<lambda>i. st_string cm st i = s) (ht_count (st_tab st))) =
      map_option (\<lambda>i. hb_val (ht_data (st_tab st) i)) (find_last (\<lambda>i. st_string cm st i = s) (ht_count (st_tab st)))"
    by (rule option.map_cong0) (use a in \<open>auto simp: same_strings_def find_last_Some\<close>)
  ultimately show "strtab_map cm st' s = strtab_map cm st s" using a by (simp add: strtab_map_def same_strings_def)
qed


text \<open>The string gets its place: a copy in the buffer, which grows when it is full, or the caller's memory.\<close>

lemma strtab_place_ok:
  assumes ok: "strtab_ok cm st" and ra: "\<And>a n. realloc a n \<noteq> 0"
    and fits: "st_buf st \<noteq> 0 \<Longrightarrow> unat (buf_top st) + unat len + 2 < 2 ^ 31"
  shows "\<exists>st' p. (if st_buf st \<noteq> 0 then
        map_option (\<lambda>st. strtab_copy cm st str len)
          (if buf_size st - buf_top st < len + 1 then ir_strtab_grow_buf realloc fresh st (len + 1) else Some st)
      else Some (st, str)) = Some (st', p) \<and> strtab_ok cm st' \<and> (st_buf st' = 0 \<longleftrightarrow> st_buf st = 0) \<and> same_strings cm st st' \<and> ht_size (st_tab st') = ht_size (st_tab st) \<and>
    str_bytes cm st' \<lparr>sk_h = h, sk_len = len, sk_str = p\<rparr> = mem_bytes cm str len \<and>
    (st_buf st' \<noteq> 0 \<longrightarrow> st_buf st' \<le> p \<and> p + int (unat len) < st_buf st' + int (unat (buf_top st')))"
proof (cases "st_buf st = 0")
  case True
  then show ?thesis using ok by (simp add: str_bytes_def)
next
  case False
  have l1: "unat (len + 1) = unat len + 1" using fits [OF False] by (simp add: unat_word_ariths)
  have le: "unat (buf_top st) \<le> unat (buf_size st)" using ok False by (simp add: strtab_ok_def)
  then have d: "unat (buf_size st - buf_top st) = unat (buf_size st) - unat (buf_top st)" by (simp add: unat_sub word_le_nat_alt)
  have "\<exists>st1. (if buf_size st - buf_top st < len + 1 then ir_strtab_grow_buf realloc fresh st (len + 1) else Some st) = Some st1 \<and>
      strtab_ok cm st1 \<and> same_strings cm st st1 \<and> st_buf st1 \<noteq> 0 \<and> unat (buf_top st1) + unat len + 1 \<le> unat (buf_size st1) \<and>
      ht_size (st_tab st1) = ht_size (st_tab st)"
  proof (cases "buf_size st - buf_top st < len + 1")
    case True
    then have "unat (buf_size st) < unat (buf_top st) + unat (len + 1) + 1" using d le by (simp add: word_less_nat_alt l1)
    then show ?thesis using strtab_grow_buf_ok [OF ok False ra, where len = "len + 1" and fresh = fresh] fits [OF False] True by (fastforce simp: l1)
  next
    case no: False
    then have "unat (buf_top st) + unat len + 1 \<le> unat (buf_size st)" using d le by (simp add: word_less_nat_alt l1)
    then show ?thesis using no ok False by simp
  qed
  then obtain st1 where s1: "(if buf_size st - buf_top st < len + 1 then ir_strtab_grow_buf realloc fresh st (len + 1) else Some st) = Some st1"
    "strtab_ok cm st1" "same_strings cm st st1" "st_buf st1 \<noteq> 0" "unat (buf_top st1) + unat len + 1 \<le> unat (buf_size st1)"
    "ht_size (st_tab st1) = ht_size (st_tab st)" by blast
  obtain st2 p where s2: "strtab_copy cm st1 str len = (st2, p)" by fastforce
  from strtab_copy_ok [OF s1(2,4,5) s2, of h] show ?thesis using s1 s2 False same_strings_trans by fastforce
qed

lemma strtab_lookup_spec:
  fixes str :: int
  assumes ok: "strtab_ok cm st" and room: "table_room sizeof_strtab_bucket (st_tab st) 1" and ra: "\<And>a n. realloc a n \<noteq> 0"
    and fits: "st_buf st \<noteq> 0 \<Longrightarrow> unat (buf_top st) + unat len + 2 < 2 ^ 31"
  defines "s \<equiv> mem_bytes cm str len"
  shows "\<exists>st' v. ir_strtab_lookup cm realloc fresh st str len val = Some (st', v) \<and> strtab_ok cm st' \<and> (st_buf st' = 0 \<longleftrightarrow> st_buf st = 0) \<and>
    v = keep_old (strtab_map cm st s) val \<and> strtab_map cm st' = (strtab_map cm st)(s \<mapsto> v) \<and>
    (\<forall>i<ht_count (st_tab st). st_string cm st' i = st_string cm st i \<and> hb_val (ht_data (st_tab st') i) = hb_val (ht_data (st_tab st) i)) \<and>
    (if strtab_map cm st s = None then ht_count (st_tab st') = ht_count (st_tab st) + 1 \<and> st_string cm st' (ht_count (st_tab st)) = s \<and>
        hb_val (ht_data (st_tab st') (ht_count (st_tab st))) = val
     else st' = st)"
proof (cases "find_last (\<lambda>i. st_string cm st i = s) (ht_count (st_tab st))")
  case (Some i)
  then have m: "strtab_map cm st s = Some (hb_val (ht_data (st_tab st) i))" by (simp add: strtab_map_def)
  show ?thesis using Some m ok
    by (simp add: ir_strtab_lookup_def strtab_walk_spec [OF ok] s_def [symmetric] keep_old_def fun_upd_idem)
next
  case None
  then have m: "strtab_map cm st s = None" by (simp add: strtab_map_def)
  define st1 where "st1 = (if ht_count (st_tab st) \<ge> unat (ht_size (st_tab st)) then ir_strtab_resize st else st)"
  have full: "sizeof_strtab_bucket * (2 * unat (ht_size (st_tab st))) \<le> IR_INVALID_IDX" if "ht_count (st_tab st) \<ge> unat (ht_size (st_tab st))"
    using room that by (simp add: table_room_def)
  have s1: "strtab_ok cm st1" "same_strings cm st st1" "ht_count (st_tab st1) < unat (ht_size (st_tab st1))"
    "st_buf st1 \<noteq> 0 \<longrightarrow> unat (buf_top st1) + unat len + 2 < 2 ^ 31"
    using strtab_resize_ok [OF ok full] ok fits by (auto simp: st1_def)
  obtain st2 p where s2: "(if st_buf st1 \<noteq> 0 then map_option (\<lambda>st. strtab_copy cm st str len)
          (if buf_size st1 - buf_top st1 < len + 1 then ir_strtab_grow_buf realloc fresh st1 (len + 1) else Some st1)
        else Some (st1, str)) = Some (st2, p)" and
      buf2: "st_buf st2 = 0 \<longleftrightarrow> st_buf st1 = 0" and ok2: "strtab_ok cm st2" "same_strings cm st1 st2" "ht_size (st_tab st2) = ht_size (st_tab st1)"
      "str_bytes cm st2 \<lparr>sk_h = ir_str_hash s, sk_len = len, sk_str = p\<rparr> = s"
      "st_buf st2 \<noteq> 0 \<longrightarrow> st_buf st2 \<le> p \<and> p + int (unat len) < st_buf st2 + int (unat (buf_top st2))"
    using strtab_place_ok [OF s1(1), where realloc = realloc and len = len and str = str and fresh = fresh and h = "ir_str_hash s"] ra s1(4) unfolding s_def by blast
  have same: "same_strings cm st st2" by (rule same_strings_trans [OF s1(2) ok2(2)])
  then have cnt: "ht_count (st_tab st2) = ht_count (st_tab st)" "strtab_map cm st2 = strtab_map cm st"
    by (simp_all add: same_strings_map) (simp add: same_strings_def)
  have c2: "ht_count (st_tab st2) < unat (ht_size (st_tab st2))" using s1(2,3) ok2(2,3) by (simp add: same_strings_def)
  have room2: "table_room sizeof_strtab_bucket (st_tab st2) 1" by (rule table_room_mono [OF room]) (simp add: cnt)
  let ?key = "\<lparr>sk_h = ir_str_hash s, sk_len = len, sk_str = p\<rparr>"
  have run: "ir_strtab_lookup cm realloc fresh st str len val =
      Some (st2\<lparr>st_tab := table_append sizeof_strtab_bucket strtab_slot ir_strtab_hash_size (st_tab st2) ?key val\<rparr>, val)"
    unfolding table_append_fits [OF c2]
    using None s2 by (simp add: ir_strtab_lookup_def strtab_walk_spec [OF ok] s_def [symmetric] Let_def st1_def [symmetric] strtab_slot_def)
  have "strtab_map cm st2 s = None" using m cnt by simp
  moreover have "st_buf st2 = 0 \<longleftrightarrow> st_buf st = 0" using buf2 by (simp add: st1_def ir_strtab_resize_def)
  ultimately show ?thesis using strtab_append_ok [OF ok2(1) room2 c2 ok2(4), of val] run m same ok2(5) by (simp add: keep_old_def cnt) (simp add: same_strings_def)
qed


lemma strtab_init_ok:
  assumes "0 < unat n" "sizeof_strtab_bucket * unat n \<le> IR_INVALID_IDX"
  shows "strtab_ok cm (ir_strtab_init mem addr fresh n bsize)" "strtab_map cm (ir_strtab_init mem addr fresh n bsize) = Map.empty"
    "ht_count (st_tab (ir_strtab_init mem addr fresh n bsize)) = 0"
  using table_init_spec [OF assms(1), of 24] assms(2)
  by (auto simp: strtab_ok_def ir_strtab_init_def strtab_map_def table_init_def unat_gt_0 fun_eq_iff)

section \<open>The strings of a context\<close>

text \<open>What the allocator returns: the address and the bytes of fresh memory, and where a block moves.\<close>

record heap_env =
  env_buckets :: "nat \<Rightarrow> ir_strtab_key ir_bucket"
  env_malloc :: int
  env_realloc :: "int \<Rightarrow> u32 \<Rightarrow> int"
  env_fresh :: "nat \<Rightarrow> u8"

partial_function (option) strlen :: "(int \<Rightarrow> u8) \<Rightarrow> int \<Rightarrow> nat option" where
  [code]: "strlen cm s = (if cm s = 0 then Some 0 else Option.bind (strlen cm (s + 1)) (\<lambda>n. Some (Suc n)))"

text \<open>The table of a context is created by its first string. Lengths above 32 bits violate an assertion.\<close>

definition ctx_strtab :: "heap_env \<Rightarrow> ir_strtab option \<Rightarrow> ir_strtab" where
  "ctx_strtab env tab =
     (case tab of None \<Rightarrow> ir_strtab_init (env_buckets env) (env_malloc env) (env_fresh env) 64 4096 | Some st \<Rightarrow> st)"

definition ir_stringl :: "(int \<Rightarrow> u8) \<Rightarrow> heap_env \<Rightarrow> ir_strtab option \<Rightarrow> int \<Rightarrow> nat \<Rightarrow> (ir_strtab \<times> ir_ref) option" where
  "ir_stringl cm env tab s len =
     (let st = ctx_strtab env tab in
      if len > 0xffffffff then None
      else ir_strtab_lookup cm (env_realloc env) (env_fresh env) st s (of_nat len) (int (ht_count (st_tab st)) + 1))"

definition ir_string :: "(int \<Rightarrow> u8) \<Rightarrow> heap_env \<Rightarrow> ir_strtab option \<Rightarrow> int \<Rightarrow> (ir_strtab \<times> ir_ref) option" where
  "ir_string cm env tab s =
     (let st = ctx_strtab env tab in
      Option.bind (strlen cm s) (\<lambda>len.
        if len > 0xffffffff then None
        else ir_strtab_lookup cm (env_realloc env) (env_fresh env) st s (of_nat len) (int (ht_count (st_tab st)) + 1)))"

text \<open>Negative names belong to the loader, whose answer is an argument.\<close>

definition ir_get_str :: "(ir_ref \<Rightarrow> int option) \<Rightarrow> ir_strtab option \<Rightarrow> ir_ref \<Rightarrow> int option" where
  "ir_get_str loader_str tab idx =
     (if idx < 0 then loader_str idx
      else case tab of None \<Rightarrow> None | Some st \<Rightarrow> ir_strtab_str st (idx - 1))"

definition ir_get_strl :: "(ir_ref \<Rightarrow> (int \<times> u32) option) \<Rightarrow> ir_strtab option \<Rightarrow> ir_ref \<Rightarrow> (int \<times> u32) option" where
  "ir_get_strl loader_strl tab idx =
     (if idx < 0 then loader_strl idx
      else case tab of None \<Rightarrow> None | Some st \<Rightarrow> ir_strtab_strl st (idx - 1))"

text \<open>A prototype is a string: flags, the type of the result, the number of parameters and their types.\<close>

definition stack_mem :: "int \<Rightarrow> u8 list \<Rightarrow> int \<Rightarrow> u8" where
  "stack_mem a bs x = (if a \<le> x \<and> nat (x - a) < length bs then bs ! nat (x - a) else 0)"

definition ir_proto_t :: "u8 \<Rightarrow> u8 \<Rightarrow> u8 list \<Rightarrow> u8 list" where
  "ir_proto_t fl ret params = fl # ret # of_nat (length params) # params"

definition ir_proto :: "int \<Rightarrow> heap_env \<Rightarrow> ir_strtab option \<Rightarrow> u8 \<Rightarrow> u8 \<Rightarrow> u8 list \<Rightarrow> (ir_strtab \<times> ir_ref) option" where
  "ir_proto a env tab fl ret params =
     (if length params > 255 then None
      else ir_stringl (stack_mem a (ir_proto_t fl ret params)) env tab a (3 + length params))"

definition ir_proto_0 where "ir_proto_0 a env tab fl ret = ir_stringl (stack_mem a (ir_proto_t fl ret [])) env tab a 3"
definition ir_proto_1 where "ir_proto_1 a env tab fl ret t1 = ir_stringl (stack_mem a (ir_proto_t fl ret [t1])) env tab a 4"
definition ir_proto_2 where
  "ir_proto_2 a env tab fl ret t1 t2 = ir_stringl (stack_mem a (ir_proto_t fl ret [t1, t2])) env tab a 5"
definition ir_proto_3 where
  "ir_proto_3 a env tab fl ret t1 t2 t3 = ir_stringl (stack_mem a (ir_proto_t fl ret [t1, t2, t3])) env tab a 6"
definition ir_proto_4 where
  "ir_proto_4 a env tab fl ret t1 t2 t3 t4 = ir_stringl (stack_mem a (ir_proto_t fl ret [t1, t2, t3, t4])) env tab a 7"
definition ir_proto_5 where
  "ir_proto_5 a env tab fl ret t1 t2 t3 t4 t5 = ir_stringl (stack_mem a (ir_proto_t fl ret [t1, t2, t3, t4, t5])) env tab a 8"

text \<open>The table of a context: every string has its place plus one as its value, in a buffer of the table.\<close>

definition ctx_strings_ok :: "ir_strtab \<Rightarrow> bool" where
  "ctx_strings_ok st \<longleftrightarrow> st_buf st \<noteq> 0 \<and> strtab_ok (\<lambda>_. 0) st \<and>
     (\<forall>i<ht_count (st_tab st). hb_val (ht_data (st_tab st) i) = int i + 1)"

definition ctx_string :: "ir_strtab \<Rightarrow> ir_ref \<Rightarrow> u8 list option" where
  "ctx_string st idx =
     map_option (\<lambda>(p, len). str_bytes (\<lambda>_. 0) st \<lparr>sk_h = 0, sk_len = len, sk_str = p\<rparr>) (ir_get_strl (\<lambda>_. None) (Some st) idx)"

lemma buf_cm: "st_buf st \<noteq> 0 \<Longrightarrow> str_bytes cm st k = str_bytes cm' st k"
  by (simp add: str_bytes_def)

lemma buf_cm_ok: "st_buf st \<noteq> 0 \<Longrightarrow> strtab_ok cm st = strtab_ok cm' st" "st_buf st \<noteq> 0 \<Longrightarrow> strtab_map cm st = strtab_map cm' st"
  "st_buf st \<noteq> 0 \<Longrightarrow> st_string cm st = st_string cm' st"
  by (simp_all add: strtab_ok_def strtab_map_def st_string_def fun_eq_iff buf_cm [of st cm _ cm'] inj_on_def)

lemma ctx_string_eq:
  "ctx_string st idx = (if 0 < idx \<and> nat (idx - 1) < ht_count (st_tab st) then Some (st_string (\<lambda>_. 0) st (nat (idx - 1))) else None)"
  by (auto simp: ctx_string_def ir_get_strl_def ir_strtab_strl_def st_string_def str_bytes_def Let_def)


lemma ctx_strtab_ok:
  assumes "\<And>st. tab = Some st \<Longrightarrow> ctx_strings_ok st" "env_malloc env \<noteq> 0"
  shows "ctx_strings_ok (ctx_strtab env tab)"
proof (cases tab)
  case None
  then show ?thesis using assms(2) strtab_init_ok(1,3) [of 64]
    by (simp add: ctx_strtab_def ctx_strings_ok_def) (simp add: ir_strtab_init_def)
qed (use assms(1) in \<open>simp add: ctx_strtab_def\<close>)

lemma ctx_stringl_spec:
  assumes ok: "ctx_strings_ok st" and st: "st = ctx_strtab env tab" and ra: "\<And>a n. env_realloc env a n \<noteq> 0"
    and room: "ht_count (st_tab st) < 2 ^ 26" "unat (buf_top st) + len + 2 < 2 ^ 31"
    and s: "s = mem_bytes cm p (of_nat len)"
  shows "\<exists>st' idx. ir_stringl cm env tab p len = Some (st', idx) \<and> ctx_strings_ok st' \<and> ctx_string st' idx = Some s \<and>
    (\<forall>j t. ctx_string st j = Some t \<longrightarrow> ctx_string st' j = Some t) \<and> (\<forall>j. ctx_string st' j = Some s \<longrightarrow> j = idx)"
proof -
  let ?n = "ht_count (st_tab st)"
  have buf: "st_buf st \<noteq> 0" and sok: "strtab_ok cm st" and val: "\<And>i. i < ?n \<Longrightarrow> hb_val (ht_data (st_tab st) i) = int i + 1"
    using ok buf_cm_ok(1) [of st cm "\<lambda>_. 0"] by (auto simp: ctx_strings_ok_def)
  have len: "unat (of_nat len :: u32) = len" using room(2) by (simp add: unsigned_of_nat take_bit_nat_eq_self)
  have tr: "table_room sizeof_strtab_bucket (st_tab st) 1" using room(1) by (simp add: table_room_def)
  obtain st' v where r: "ir_strtab_lookup cm (env_realloc env) (env_fresh env) st p (of_nat len) (int ?n + 1) = Some (st', v)"
      "strtab_ok cm st'" "st_buf st' = 0 \<longleftrightarrow> st_buf st = 0" "v = keep_old (strtab_map cm st s) (int ?n + 1)"
      and old: "\<forall>i<?n. st_string cm st' i = st_string cm st i \<and> hb_val (ht_data (st_tab st') i) = hb_val (ht_data (st_tab st) i)"
      and new: "if strtab_map cm st s = None then ht_count (st_tab st') = ?n + 1 \<and> st_string cm st' ?n = s \<and> hb_val (ht_data (st_tab st') ?n) = int ?n + 1
        else st' = st"
    using strtab_lookup_spec [OF sok tr, where realloc = "env_realloc env" and fresh = "env_fresh env" and str = p and len = "of_nat len" and val = "int ?n + 1"]
      ra len room(2) s by auto
  have buf': "st_buf st' \<noteq> 0" using r(3) buf by simp
  have str: "st_string (\<lambda>_. 0) st = st_string cm st" "st_string (\<lambda>_. 0) st' = st_string cm st'"
    by (rule buf_cm_ok(3), rule buf, rule buf_cm_ok(3), rule buf')
  have run: "ir_stringl cm env tab p len = Some (st', v)" using r(1) room(2) by (simp add: ir_stringl_def st)
  have cnt: "?n \<le> ht_count (st_tab st')" using new by (auto split: if_splits)
  have val': "\<forall>i<ht_count (st_tab st'). hb_val (ht_data (st_tab st') i) = int i + 1"
    using new old val by (auto split: if_splits simp: less_Suc_eq)
  have ok': "ctx_strings_ok st'" using r(2) buf' val' buf_cm_ok(1) [of st' cm "\<lambda>_. 0"] by (simp add: ctx_strings_ok_def)
  have here: "0 < v \<and> nat (v - 1) < ht_count (st_tab st') \<and> st_string cm st' (nat (v - 1)) = s"
  proof (cases "find_last (\<lambda>i. st_string cm st i = s) ?n")
    case None
    then show ?thesis using new r(4) by (simp add: strtab_map_def keep_old_def)
  next
    case (Some i)
    then have "i < ?n" "st_string cm st i = s" by (auto simp: find_last_Some)
    then show ?thesis using new r(4) Some val by (simp add: strtab_map_def keep_old_def)
  qed
  have "j = v" if "ctx_string st' j = Some s" for j
  proof -
    have j: "0 < j" "nat (j - 1) < ht_count (st_tab st')" "st_string cm st' (nat (j - 1)) = s"
      using that by (auto simp: ctx_string_eq str split: if_splits)
    then have "nat (j - 1) = nat (v - 1)" using here r(2) by (auto simp: strtab_ok_def inj_on_def)
    then show ?thesis using here j(1) by linarith
  qed
  moreover have "ctx_string st' v = Some s" using here by (simp add: ctx_string_eq str)
  moreover have "\<forall>j t. ctx_string st j = Some t \<longrightarrow> ctx_string st' j = Some t" using old cnt by (auto simp: ctx_string_eq str)
  ultimately show ?thesis using run ok' by blast
qed


lemma stack_mem_bytes: "length bs \<le> 300 \<Longrightarrow> mem_bytes (stack_mem a bs) a (of_nat (length bs)) = bs"
  by (rule nth_equalityI) (auto simp: mem_bytes_def stack_mem_def unsigned_of_nat take_bit_nat_eq_self)

lemma proto_is_string:
  assumes "length params \<le> 255"
  shows "ir_proto a env tab fl ret params = ir_stringl (stack_mem a (ir_proto_t fl ret params)) env tab a (length (ir_proto_t fl ret params))"
    "ir_proto_t fl ret params = mem_bytes (stack_mem a (ir_proto_t fl ret params)) a (of_nat (length (ir_proto_t fl ret params)))"
  using assms stack_mem_bytes [of "ir_proto_t fl ret params" a] by (simp_all add: ir_proto_def ir_proto_t_def numeral_3_eq_3)

section \<open>Properties\<close>

text \<open>C23: A look-up in the string table returns the value the string is stored with or stores it with the given value,
  whether or not buckets and buffer have to grow and wherever the buffer moves: the map from the
  contents of strings to values gains exactly this entry, and the string is found afterwards.\<close>

theorem strtab_lookup_map:
  assumes "strtab_ok cm st" "48 * (ht_count (st_tab st) + 1) \<le> 0xffffffff" "\<And>a n. realloc a n \<noteq> 0"
    "st_buf st \<noteq> 0 \<Longrightarrow> unat (buf_top st) + unat len + 2 < 2 ^ 31"
  shows "\<exists>st' v. ir_strtab_lookup cm realloc fresh st str len val = Some (st', v) \<and> strtab_ok cm st' \<and>
    v = (case strtab_map cm st (mem_bytes cm str len) of None \<Rightarrow> val | Some w \<Rightarrow> w) \<and>
    strtab_map cm st' = (strtab_map cm st)(mem_bytes cm str len \<mapsto> v) \<and> ir_strtab_find cm st' str len = Some v"
proof -
  have room: "table_room sizeof_strtab_bucket (st_tab st) 1" using assms(2) by (simp add: table_room_def)
  obtain st' v where r: "ir_strtab_lookup cm realloc fresh st str len val = Some (st', v)" "strtab_ok cm st'"
      "v = keep_old (strtab_map cm st (mem_bytes cm str len)) val" "strtab_map cm st' = (strtab_map cm st)(mem_bytes cm str len \<mapsto> v)"
    using strtab_lookup_spec [OF assms(1) room, where realloc = realloc and str = str and len = len and fresh = fresh and val = val] assms(3,4) by blast
  have "ir_strtab_find cm st' str len = Some (case strtab_map cm st' (mem_bytes cm str len) of None \<Rightarrow> 0 | Some v \<Rightarrow> v)"
    by (simp add: ir_strtab_find_def strtab_walk_spec [OF r(2)] strtab_map_def option.case_eq_if option.map_sel)
  then show ?thesis using r by (simp add: keep_old_def)
qed

abbreviation demo_env :: heap_env where
  "demo_env \<equiv> \<lparr>env_buckets = \<lambda>_. \<lparr>hb_key = \<lparr>sk_h = 0, sk_len = 0, sk_str = 0\<rparr>, hb_val = 0, hb_next = 0\<rparr>, env_malloc = 4096,
     env_realloc = \<lambda>_ _. 8192, env_fresh = \<lambda>_. 0\<rparr>"

abbreviation demo_strtab :: ir_strtab where
  "demo_strtab \<equiv> ir_strtab_init (env_buckets demo_env) 4096 (\<lambda>_. 0) 64 4"

theorem strtab_lookup_map_witness:
  "\<exists>st' v. ir_strtab_lookup (\<lambda>_. 65) (\<lambda>_ _. 8192) (\<lambda>_. 0) demo_strtab 16 10 7 = Some (st', v) \<and> strtab_ok (\<lambda>_. 65) st' \<and>
    v = (case strtab_map (\<lambda>_. 65) demo_strtab (mem_bytes (\<lambda>_. 65) 16 10) of None \<Rightarrow> 7 | Some w \<Rightarrow> w) \<and>
    strtab_map (\<lambda>_. 65) st' = (strtab_map (\<lambda>_. 65) demo_strtab)(mem_bytes (\<lambda>_. 65) 16 10 \<mapsto> v) \<and>
    ir_strtab_find (\<lambda>_. 65) st' 16 10 = Some v"
  by (rule strtab_lookup_map) (use strtab_init_ok(1,3) [of 64] in simp_all, simp add: ir_strtab_init_def)

text \<open>C21: Strings of a context are interned: \<open>ir_stringl\<close> returns an index from which \<open>ir_get_strl\<close> gives back exactly the
  bytes, two strings have one index only when they are equal, and every index given out before keeps
  its string although the buffer may have moved.\<close>

theorem string_intern:
  assumes "\<And>st. tab = Some st \<Longrightarrow> ctx_strings_ok st" "env_malloc env \<noteq> 0" "\<And>a n. env_realloc env a n \<noteq> 0"
    "ht_count (st_tab (ctx_strtab env tab)) < 2 ^ 26" "unat (buf_top (ctx_strtab env tab)) + len + 2 < 2 ^ 31"
  shows "\<exists>st' idx. ir_stringl cm env tab p len = Some (st', idx) \<and> ctx_strings_ok st' \<and>
    ctx_string st' idx = Some (mem_bytes cm p (of_nat len)) \<and>
    (\<forall>j. ctx_string st' j = ctx_string st' idx \<longrightarrow> j = idx) \<and>
    (\<forall>j t. ctx_string (ctx_strtab env tab) j = Some t \<longrightarrow> ctx_string st' j = Some t)"
  using ctx_stringl_spec [OF ctx_strtab_ok [OF assms(1,2)] refl assms(3-5) refl, where cm = cm and p = p] by metis

theorem string_intern_witness:
  "\<exists>st' idx. ir_stringl (\<lambda>_. 65) demo_env None 16 10 = Some (st', idx) \<and> ctx_strings_ok st' \<and>
    ctx_string st' idx = Some (mem_bytes (\<lambda>_. 65) 16 (of_nat 10)) \<and>
    (\<forall>j. ctx_string st' j = ctx_string st' idx \<longrightarrow> j = idx) \<and>
    (\<forall>j t. ctx_string (ctx_strtab demo_env None) j = Some t \<longrightarrow> ctx_string st' j = Some t)"
  by (rule string_intern) (simp_all add: ctx_strtab_def ir_strtab_init_def table_init_def)



end
