(* ===== verification/Use_Lists.thy ===== *)
theory Use_Lists
  imports Context Bits
begin

text \<open>
  Def-use edges (ir.c): for every definition the list of the instructions that use it, once per operand.
  The lists lie in one array; a list that cannot grow in place moves to the end of the array.
\<close>

section \<open>Building the lists\<close>

text \<open>
  While the instructions are read, a single use is kept in \<open>refs\<close> itself; more of them form a linked
  list in an array of pairs, whose head \<open>refs\<close> names by a negative number.
\<close>

record use_state =
  us_lists :: "ir_ref \<Rightarrow> ir_use_list"
  us_linked :: "ir_ref list"
  us_count :: nat

definition link_use :: "ir_ref \<Rightarrow> ir_ref \<Rightarrow> use_state \<Rightarrow> use_state" where
  "link_use i def st =
     (if def > 0 then
        let ul = us_lists st def; st = st\<lparr>us_count := us_count st + 1\<rparr> in
        if ul_refs ul = 0 then st\<lparr>us_lists := (us_lists st)(def := \<lparr>ul_refs = i, ul_count = 1\<rparr>)\<rparr>
        else st\<lparr>us_linked := us_linked st @ [i, ul_refs ul],
                us_lists := (us_lists st)(def := \<lparr>ul_refs = - (int (length (us_linked st)) + 1), ul_count = ul_count ul + 1\<rparr>)\<rparr>
      else st)"

function link_uses :: "ir_ref \<Rightarrow> (ir_ref \<Rightarrow> ir_insn) \<Rightarrow> ir_ref \<Rightarrow> use_state \<Rightarrow> (ir_ref \<Rightarrow> ir_insn) \<times> use_state" where
  "link_uses cnt base i st =
     (if i < cnt then
        let n = ir_input_edges_count (base i); base = base(i := (base i)\<lparr>i_n := n\<rparr>);
            st = fold (\<lambda>j. link_use i (ir_insn_op base i j)) [1..<Suc n] st
        in link_uses cnt base (i + int (ir_insn_inputs_to_len n)) st
      else (base, st))"
  by pat_completeness auto
termination
  by (relation "measure (\<lambda>(cnt, base, i, st). nat (cnt - i))") (auto simp: ir_insn_inputs_to_len_def)

declare link_uses.simps [simp del]

text \<open>A linked list becomes a part of the array, from its end.\<close>

partial_function (option) unlink :: "ir_ref list \<Rightarrow> ir_ref \<Rightarrow> int \<Rightarrow> (ir_ref \<Rightarrow> ir_ref) \<Rightarrow> (ir_ref \<times> int \<times> (ir_ref \<Rightarrow> ir_ref)) option" where
  [code]: "unlink linked n ec edges =
     (if n < 0 then unlink linked (linked ! nat (- n)) (ec - 1) (edges(ec - 1 := linked ! nat (- n - 1)))
      else Some (n, ec, edges))"

definition flatten_list ::
  "ir_ref list \<Rightarrow> ir_ref \<Rightarrow> ((ir_ref \<Rightarrow> ir_use_list) \<times> int \<times> (ir_ref \<Rightarrow> ir_ref)) option \<Rightarrow>
     ((ir_ref \<Rightarrow> ir_use_list) \<times> int \<times> (ir_ref \<Rightarrow> ir_ref)) option" where
  "flatten_list linked d r = Option.bind r (\<lambda>(ls, ec, edges).
     let n = ul_refs (ls d) in
     if n \<noteq> 0 then
       Option.bind (unlink linked n ec edges) (\<lambda>(n, ec, edges).
         if n > 0 then Some (ls(d := (ls d)\<lparr>ul_refs := ec - 1\<rparr>), ec - 1, edges(ec - 1 := n)) else None)
     else Some (ls, ec, edges))"

definition ir_build_def_use_lists :: "(ir_ref \<Rightarrow> ir_ref) \<Rightarrow> ir_ctx \<Rightarrow> ir_ctx option" where
  "ir_build_def_use_lists mem ctx =
     (let (base, st) = link_uses (insns_count ctx) (ir_base ctx) (IR_UNUSED + 1)
            \<lparr>us_lists = \<lambda>_. \<lparr>ul_refs = 0, ul_count = 0\<rparr>, us_linked = [], us_count = 0\<rparr>
      in if us_count st > 0x7fffffff then None
         else map_option (\<lambda>(ls, ec, edges).
                ctx\<lparr>ir_base := base, use_edges_count := int (us_count st), use_edges := edges, use_lists := Some ls\<rparr>)
           (fold (flatten_list (us_linked st)) (rev [1..insns_count ctx - 1]) (Some (us_lists st, int (us_count st), mem))))"

section \<open>Updates\<close>

definition use_list :: "ir_ctx \<Rightarrow> ir_ref \<Rightarrow> ir_use_list" where
  "use_list ctx r = the (use_lists ctx) r"

definition set_use_list :: "ir_ref \<Rightarrow> ir_use_list \<Rightarrow> ir_ctx \<Rightarrow> ir_ctx" where
  "set_use_list r ul ctx = ctx\<lparr>use_lists := map_option (\<lambda>f. f(r := ul)) (use_lists ctx)\<rparr>"

text \<open>Copying the uses that stay to the front; \<open>p\<close> reads, \<open>q\<close> writes.\<close>

primrec keep_uses :: "ir_ref \<Rightarrow> nat \<Rightarrow> int \<Rightarrow> int \<Rightarrow> (ir_ref \<Rightarrow> ir_ref) \<Rightarrow> int \<times> int \<times> (ir_ref \<Rightarrow> ir_ref)" where
  "keep_uses ref 0 p q edges = (p, q, edges)"
| "keep_uses ref (Suc n) p q edges =
     (let use = edges p in
      if use \<noteq> ref then keep_uses ref n (p + 1) (q + 1) (if p \<noteq> q then edges(q := use) else edges)
      else keep_uses ref n (p + 1) q edges)"

definition ir_use_list_remove_all :: "ir_ctx \<Rightarrow> ir_ref \<Rightarrow> ir_ref \<Rightarrow> ir_ctx" where
  "ir_use_list_remove_all ctx from ref =
     (let ul = use_list ctx from;
          (p, q, edges) = keep_uses ref (nat (ul_count ul)) (ul_refs ul) (ul_refs ul) (use_edges ctx)
      in if p \<noteq> q then
           (set_use_list from (ul\<lparr>ul_count := ul_count ul - (p - q)\<rparr>) ctx)
             \<lparr>use_edges := (\<lambda>k. if q \<le> k \<and> k < p then IR_UNUSED else edges k)\<rparr>
         else ctx\<lparr>use_edges := edges\<rparr>)"

primrec shift_uses :: "nat \<Rightarrow> int \<Rightarrow> (ir_ref \<Rightarrow> ir_ref) \<Rightarrow> ir_ref \<Rightarrow> ir_ref" where
  "shift_uses 0 p edges = edges(p := IR_UNUSED)"
| "shift_uses (Suc n) p edges = shift_uses n (p + 1) (edges(p := edges (p + 1)))"

primrec remove_one_loop :: "ir_ref \<Rightarrow> nat \<Rightarrow> int \<Rightarrow> (ir_ref \<Rightarrow> ir_ref) \<Rightarrow> (ir_ref \<Rightarrow> ir_ref) option" where
  "remove_one_loop ref 0 p edges = None"
| "remove_one_loop ref (Suc n) p edges =
     (if edges p = ref then Some (shift_uses n p edges) else remove_one_loop ref n (p + 1) edges)"

definition ir_use_list_remove_one :: "ir_ctx \<Rightarrow> ir_ref \<Rightarrow> ir_ref \<Rightarrow> ir_ctx" where
  "ir_use_list_remove_one ctx from ref =
     (let ul = use_list ctx from in
      case remove_one_loop ref (nat (ul_count ul)) (ul_refs ul) (use_edges ctx) of
        None \<Rightarrow> ctx
      | Some edges \<Rightarrow> (set_use_list from (ul\<lparr>ul_count := ul_count ul - 1\<rparr>) ctx)\<lparr>use_edges := edges\<rparr>)"

primrec replace_one_loop :: "ir_ref \<Rightarrow> ir_ref \<Rightarrow> nat \<Rightarrow> int \<Rightarrow> (ir_ref \<Rightarrow> ir_ref) \<Rightarrow> ir_ref \<Rightarrow> ir_ref" where
  "replace_one_loop use new_use 0 p edges = edges"
| "replace_one_loop use new_use (Suc n) p edges =
     (if edges p = use then edges(p := new_use) else replace_one_loop use new_use n (p + 1) edges)"

definition ir_use_list_replace_one :: "ir_ctx \<Rightarrow> ir_ref \<Rightarrow> ir_ref \<Rightarrow> ir_ref \<Rightarrow> ir_ctx" where
  "ir_use_list_replace_one ctx ref use new_use =
     (let ul = use_list ctx ref in
      ctx\<lparr>use_edges := replace_one_loop use new_use (nat (ul_count ul)) (ul_refs ul) (use_edges ctx)\<rparr>)"

definition ir_use_list_replace_all :: "ir_ctx \<Rightarrow> ir_ref \<Rightarrow> ir_ref \<Rightarrow> ir_ref \<Rightarrow> ir_ctx" where
  "ir_use_list_replace_all ctx ref use new_use =
     (let ul = use_list ctx ref in
      ctx\<lparr>use_edges := fold (\<lambda>p edges. if edges p = use then edges(p := new_use) else edges)
        [ul_refs ul..ul_refs ul + ul_count ul - 1] (use_edges ctx)\<rparr>)"

text \<open>The result tells that pointers into the array have to be taken again.\<close>

definition ir_use_list_add :: "ir_ctx \<Rightarrow> ir_ref \<Rightarrow> ir_ref \<Rightarrow> ir_ctx \<times> bool" where
  "ir_use_list_add ctx to ref =
     (let ul = use_list ctx to; n = ul_refs ul + ul_count ul; uec = use_edges_count ctx in
      if n < uec \<and> use_edges ctx n = IR_UNUSED then
        ((set_use_list to (ul\<lparr>ul_count := ul_count ul + 1\<rparr>) ctx)\<lparr>use_edges := (use_edges ctx)(n := ref)\<rparr>, False)
      else
        let old_size = IR_ALIGNED_SIZE (word_of_int (uec * 4) :: u64) 4096;
            new_size = IR_ALIGNED_SIZE (word_of_int ((uec + ul_count ul + 1) * 4)) 4096
        in if n = uec then
             ((set_use_list to (ul\<lparr>ul_count := ul_count ul + 1\<rparr>) ctx)
                \<lparr>use_edges := (use_edges ctx)(n := ref), use_edges_count := uec + 1\<rparr>, old_size < new_size)
           else
             let edges = (\<lambda>k. if uec \<le> k \<and> k < uec + ul_count ul then use_edges ctx (ul_refs ul + (k - uec)) else use_edges ctx k)
             in ((set_use_list to \<lparr>ul_refs = uec, ul_count = ul_count ul + 1\<rparr> ctx)
                  \<lparr>use_edges := edges(uec + ul_count ul := ref), use_edges_count := uec + (ul_count ul + 1)\<rparr>, True))"

text \<open>
  \<open>ir_replace\<close> takes the number of uses and the place of the next one again only when the list
  of the new definition may have moved the array. \<open>None\<close> is a violated assertion or a loop that does not end.
\<close>

definition replace_use :: "ir_ref \<Rightarrow> ir_ref \<Rightarrow> ir_ref \<Rightarrow> ir_ctx \<Rightarrow> ir_ctx option" where
  "replace_use ref new_ref use ctx =
     (let j = ir_insn_find_op (ir_base ctx) use ref in
      if use = ref \<or> j = 0 then None else Some (ctx\<lparr>ir_base := ir_insn_set_op (ir_base ctx) use j new_ref\<rparr>))"

primrec replace_const_loop :: "ir_ref \<Rightarrow> ir_ref \<Rightarrow> nat \<Rightarrow> int \<Rightarrow> ir_ctx \<Rightarrow> ir_ctx option" where
  "replace_const_loop ref new_ref 0 p ctx = Some ctx"
| "replace_const_loop ref new_ref (Suc n) p ctx =
     Option.bind (replace_use ref new_ref (use_edges ctx p) ctx) (replace_const_loop ref new_ref n (p + 1))"

partial_function (option) replace_loop :: "ir_ref \<Rightarrow> ir_ref \<Rightarrow> int \<Rightarrow> int \<Rightarrow> int \<Rightarrow> ir_ctx \<Rightarrow> ir_ctx option" where
  [code]: "replace_loop ref new_ref i n p ctx =
     (if i < n then
        let use = use_edges ctx p in
        case replace_use ref new_ref use ctx of
          None \<Rightarrow> None
        | Some ctx \<Rightarrow>
            (case ir_use_list_add ctx new_ref use of (ctx, moved) \<Rightarrow>
              if moved then let ul = use_list ctx ref in replace_loop ref new_ref (i + 1) (ul_count ul) (ul_refs ul + i + 1) ctx
              else replace_loop ref new_ref (i + 1) n (p + 1) ctx)
      else Some ctx)"

definition ir_replace :: "ir_ctx \<Rightarrow> ir_ref \<Rightarrow> ir_ref \<Rightarrow> ir_ctx option" where
  "ir_replace ctx ref new_ref =
     (if ref = new_ref then None
      else let ul = use_list ctx ref in
        if new_ref \<le> 0 then replace_const_loop ref new_ref (nat (ul_count ul)) (ul_refs ul) ctx
        else replace_loop ref new_ref 0 (ul_count ul) (ul_refs ul) ctx)"

definition ir_update_op :: "ir_ctx \<Rightarrow> ir_ref \<Rightarrow> nat \<Rightarrow> ir_ref \<Rightarrow> ir_ctx option" where
  "ir_update_op ctx ref idx new_val =
     (let old_val = ir_insn_op (ir_base ctx) ref idx in
      if old_val = new_val then None
      else
        let ctx = (if new_val > 0 then fst (ir_use_list_add ctx new_val ref) else ctx);
            ctx = ctx\<lparr>ir_base := ir_insn_set_op (ir_base ctx) ref idx new_val\<rparr>
        in Some (if old_val > 0 then ir_use_list_remove_one ctx old_val ref else ctx))"


section \<open>Segments of the array\<close>

primrec seg :: "(ir_ref \<Rightarrow> ir_ref) \<Rightarrow> int \<Rightarrow> nat \<Rightarrow> ir_ref list" where
  "seg edges p 0 = []"
| "seg edges p (Suc n) = edges p # seg edges (p + 1) n"

lemma length_seg [simp]: "length (seg edges p n) = n"
  by (induction n arbitrary: p) auto

lemma nth_seg: "i < n \<Longrightarrow> seg edges p n ! i = edges (p + int i)"
  by (induction n arbitrary: p i) (auto simp: nth_Cons' algebra_simps split: nat.splits)

lemma set_seg: "set (seg edges p n) = edges ` {p..<p + int n}"
proof (induction n arbitrary: p)
  case (Suc n)
  have "{p..<p + int (Suc n)} = insert p {p + 1..<p + 1 + int n}" by auto
  then show ?case using Suc [of "p + 1"] by simp
qed simp

lemma seg_cong: "(\<And>k. p \<le> k \<Longrightarrow> k < p + int n \<Longrightarrow> e k = e' k) \<Longrightarrow> seg e p n = seg e' p n"
  by (induction n arbitrary: p) auto

lemma seg_append: "seg e p (m + n) = seg e p m @ seg e (p + int m) n"
  by (induction m arbitrary: p) (auto simp: algebra_simps)

lemma seg_upd [simp]: "k < p \<or> p + int n \<le> k \<Longrightarrow> seg (e(k := v)) p n = seg e p n"
  by (rule seg_cong) auto

lemma shift_uses_spec:
  "seg (shift_uses n p e) p n = seg e (p + 1) n \<and> shift_uses n p e (p + int n) = IR_UNUSED \<and>
   (\<forall>k. k < p \<or> p + int n < k \<longrightarrow> shift_uses n p e k = e k)"
proof (induction n arbitrary: p e)
  case (Suc n)
  define e1 where "e1 = e(p := e (p + 1))"
  have e1: "e1 p = e (p + 1)" "seg e1 (p + 1 + 1) n = seg e (p + 1 + 1) n" "k \<noteq> p \<Longrightarrow> e1 k = e k" for k by (simp_all add: e1_def)
  note ih = Suc [of "p + 1" e1]
  have r: "shift_uses (Suc n) p e = shift_uses n (p + 1) e1" by (simp add: e1_def)
  have "shift_uses n (p + 1) e1 p = e (p + 1)" using ih e1(1) by simp
  then show ?case unfolding r using ih e1 by (simp add: add.assoc [symmetric])
qed simp

lemma remove_one_loop_spec:
  "case remove_one_loop ref n p e of
     None \<Rightarrow> ref \<notin> set (seg e p n)
   | Some e' \<Rightarrow> ref \<in> set (seg e p n) \<and> seg e' p (n - 1) = remove1 ref (seg e p n) \<and> e' (p + int n - 1) = IR_UNUSED \<and>
       (\<forall>k. k < p \<or> p + int n \<le> k \<longrightarrow> e' k = e k)"
proof (induction n arbitrary: p)
  case (Suc n)
  show ?case
  proof (cases "e p = ref")
    case True
    then show ?thesis using shift_uses_spec [of n p e] by simp
  next
    case False
    note ih = Suc [of "p + 1"]
    show ?thesis
    proof (cases "remove_one_loop ref n (p + 1) e")
      case None
      then show ?thesis using ih False by simp
    next
      case (Some e')
      then have "0 < n" using ih by (cases n) auto
      then obtain m where "n = Suc m" by (cases n) auto
      then show ?thesis using ih False Some by (auto simp: algebra_simps)
    qed
  qed
qed simp

primrec replace1 :: "'a \<Rightarrow> 'a \<Rightarrow> 'a list \<Rightarrow> 'a list" where
  "replace1 u v [] = []"
| "replace1 u v (x # xs) = (if x = u then v # xs else x # replace1 u v xs)"

lemma replace_one_loop_spec:
  "seg (replace_one_loop u v n p e) p n = replace1 u v (seg e p n) \<and> (\<forall>k. k < p \<or> p + int n \<le> k \<longrightarrow> replace_one_loop u v n p e k = e k)"
proof (induction n arbitrary: p)
  case (Suc n)
  show ?case using Suc [of "p + 1"] by auto
qed simp

lemma keep_uses_spec:
  assumes "keep_uses ref n p q e = (p', q', e')" "q \<le> p"
  shows "p' = p + int n \<and> q' = q + int (length (filter (\<lambda>u. u \<noteq> ref) (seg e p n))) \<and> q' \<le> p' \<and>
    seg e' q (length (filter (\<lambda>u. u \<noteq> ref) (seg e p n))) = filter (\<lambda>u. u \<noteq> ref) (seg e p n) \<and>
    (\<forall>k. k < q \<or> p + int n \<le> k \<longrightarrow> e' k = e k)"
  using assms
proof (induction n arbitrary: p q e)
  case (Suc n)
  show ?case
  proof (cases "e p = ref")
    case True
    then have "keep_uses ref n (p + 1) q e = (p', q', e')" "q \<le> p + 1" using Suc.prems by simp_all
    from Suc.IH [OF this] show ?thesis using True by auto
  next
    case False
    define e1 where "e1 = (if p \<noteq> q then e(q := e p) else e)"
    have r: "keep_uses ref n (p + 1) (q + 1) e1 = (p', q', e')" "q + 1 \<le> p + 1"
      using Suc.prems False by (simp_all add: e1_def Let_def split: if_splits)
    have e1: "seg e1 (p + 1) n = seg e (p + 1) n" "e1 q = e p" "k \<noteq> q \<Longrightarrow> e1 k = e k" for k
      using Suc.prems(2) by (auto simp: e1_def)
    have "e' q = e p" using Suc.IH [OF r] e1(2) by simp
    then show ?thesis using Suc.IH [OF r] False e1 by auto
  qed
qed simp

section \<open>The lists\<close>

definition uses :: "ir_ctx \<Rightarrow> ir_ref \<Rightarrow> ir_ref list" where
  "uses ctx r = seg (use_edges ctx) (ul_refs (use_list ctx r)) (nat (ul_count (use_list ctx r)))"

definition owned :: "ir_ctx \<Rightarrow> ir_ref \<Rightarrow> int set" where
  "owned ctx r = {ul_refs (use_list ctx r)..<ul_refs (use_list ctx r) + ul_count (use_list ctx r)}"

text \<open>The lists lie inside the array, apart from each other, and hold no unused entry.\<close>

definition uses_ok :: "ir_ctx \<Rightarrow> bool" where
  "uses_ok ctx \<longleftrightarrow> use_lists ctx \<noteq> None \<and>
     (\<forall>r>0. 0 \<le> ul_refs (use_list ctx r) \<and> 0 \<le> ul_count (use_list ctx r) \<and>
        ul_refs (use_list ctx r) + ul_count (use_list ctx r) \<le> use_edges_count ctx \<and> (\<forall>k\<in>owned ctx r. use_edges ctx k \<noteq> IR_UNUSED)) \<and>
     (\<forall>r>0. \<forall>r'>0. r \<noteq> r' \<longrightarrow> owned ctx r \<inter> owned ctx r' = {})"


lemma uses_frame:
  assumes "use_list ctx' r = use_list ctx r" "\<And>k. k \<in> owned ctx r \<Longrightarrow> use_edges ctx' k = use_edges ctx k"
  shows "uses ctx' r = uses ctx r" "owned ctx' r = owned ctx r"
proof -
  show "owned ctx' r = owned ctx r" using assms(1) by (simp add: owned_def)
  show "uses ctx' r = uses ctx r" unfolding uses_def assms(1)
    by (rule seg_cong, rule assms(2)) (cases "0 \<le> ul_count (use_list ctx r)", auto simp: owned_def)
qed

lemma use_list_set [simp]: "use_lists ctx \<noteq> None \<Longrightarrow> use_list (set_use_list r ul ctx) r' = (if r' = r then ul else use_list ctx r')"
  by (auto simp: use_list_def set_use_list_def)

lemma use_list_edges [simp]: "use_list (ctx\<lparr>use_edges := e\<rparr>) r = use_list ctx r" "use_list (ctx\<lparr>use_edges_count := c\<rparr>) r = use_list ctx r"
  "use_list (ctx\<lparr>ir_base := b\<rparr>) r = use_list ctx r"
  by (simp_all add: use_list_def)

lemma set_use_list_fields [simp]: "use_edges (set_use_list r ul ctx) = use_edges ctx" "use_edges_count (set_use_list r ul ctx) = use_edges_count ctx"
  "ir_base (set_use_list r ul ctx) = ir_base ctx" "insns_count (set_use_list r ul ctx) = insns_count ctx"
  "use_lists (set_use_list r ul ctx) = None \<longleftrightarrow> use_lists ctx = None"
  by (auto simp: set_use_list_def)

text \<open>One list changes, inside what it owns, the rest stays.\<close>

definition only_list :: "ir_ctx \<Rightarrow> ir_ctx \<Rightarrow> ir_ref \<Rightarrow> ir_ref list \<Rightarrow> bool" where
  "only_list ctx ctx' r us \<longleftrightarrow> uses_ok ctx' \<and> uses ctx' r = us \<and> (\<forall>r'>0. r' \<noteq> r \<longrightarrow> uses ctx' r' = uses ctx r') \<and>
     ir_base ctx' = ir_base ctx \<and> insns_count ctx' = insns_count ctx"

lemma owned_set: "owned ctx r = {ul_refs (use_list ctx r)..<ul_refs (use_list ctx r) + ul_count (use_list ctx r)}"
  by (simp add: owned_def)

lemma uses_length: "uses_ok ctx \<Longrightarrow> 0 < r \<Longrightarrow> int (length (uses ctx r)) = ul_count (use_list ctx r)"
  by (simp add: uses_ok_def uses_def)

lemma only_listI:
  assumes ok: "uses_ok ctx" and r: "0 < r" and lists: "use_lists ctx' \<noteq> None" "\<And>r'. r' \<noteq> r \<Longrightarrow> use_list ctx' r' = use_list ctx r'"
    and cnt: "use_edges_count ctx \<le> use_edges_count ctx'"
    and new: "0 \<le> ul_refs (use_list ctx' r)" "0 \<le> ul_count (use_list ctx' r)" "ul_refs (use_list ctx' r) + ul_count (use_list ctx' r) \<le> use_edges_count ctx'"
    and apart: "\<And>r'. 0 < r' \<Longrightarrow> r' \<noteq> r \<Longrightarrow> owned ctx r' \<inter> owned ctx' r = {}"
    and edges: "\<And>r' k. 0 < r' \<Longrightarrow> r' \<noteq> r \<Longrightarrow> k \<in> owned ctx r' \<Longrightarrow> use_edges ctx' k = use_edges ctx k"
    and us: "uses ctx' r = us" "IR_UNUSED \<notin> set us" and rest: "ir_base ctx' = ir_base ctx" "insns_count ctx' = insns_count ctx"
  shows "only_list ctx ctx' r us"
proof -
  have f: "uses ctx' r' = uses ctx r'" "owned ctx' r' = owned ctx r'" if "0 < r'" "r' \<noteq> r" for r'
    using uses_frame [of ctx' r' ctx] lists(2) [OF that(2)] edges [OF that] by auto
  have "use_edges ctx' k \<noteq> IR_UNUSED" if "k \<in> owned ctx' r" for k
  proof -
    have "owned ctx' r = {ul_refs (use_list ctx' r)..<ul_refs (use_list ctx' r) + int (nat (ul_count (use_list ctx' r)))}"
      using new(2) by (simp add: owned_def)
    then have "set us = use_edges ctx' ` owned ctx' r" unfolding us(1) [symmetric] uses_def set_seg by simp
    then show ?thesis using us(2) that by auto
  qed
  moreover have "use_edges ctx' k \<noteq> IR_UNUSED" if "0 < r'" "r' \<noteq> r" "k \<in> owned ctx' r'" for r' k
  proof -
    have "k \<in> owned ctx r'" using f(2) that by simp
    then have "use_edges ctx k \<noteq> IR_UNUSED" "use_edges ctx' k = use_edges ctx k" using ok that edges by (auto simp: uses_ok_def)
    then show ?thesis by simp
  qed
  ultimately have e: "\<forall>r'>0. \<forall>k\<in>owned ctx' r'. use_edges ctx' k \<noteq> IR_UNUSED" by blast
  have b: "0 \<le> ul_refs (use_list ctx' r') \<and> 0 \<le> ul_count (use_list ctx' r') \<and> ul_refs (use_list ctx' r') + ul_count (use_list ctx' r') \<le> use_edges_count ctx'"
    if r': "0 < r'" for r'
  proof (cases "r' = r")
    case False
    have "0 \<le> ul_refs (use_list ctx r') \<and> 0 \<le> ul_count (use_list ctx r') \<and> ul_refs (use_list ctx r') + ul_count (use_list ctx r') \<le> use_edges_count ctx"
      using ok r' by (simp add: uses_ok_def)
    then show ?thesis unfolding lists(2) [OF False] using cnt by linarith
  qed (use new in simp)
  have d: "\<forall>r1>0. \<forall>r2>0. r1 \<noteq> r2 \<longrightarrow> owned ctx' r1 \<inter> owned ctx' r2 = {}"
  proof (intro allI impI)
    fix r1 r2 :: ir_ref assume r12: "0 < r1" "0 < r2" "r1 \<noteq> r2"
    have "owned ctx r1 \<inter> owned ctx r2 = {}" using ok r12 by (simp add: uses_ok_def)
    then show "owned ctx' r1 \<inter> owned ctx' r2 = {}"
      using apart [of r1] apart [of r2] f(2) [of r1] f(2) [of r2] r12 by (cases "r1 = r"; cases "r2 = r") auto
  qed
  have "uses_ok ctx'" unfolding uses_ok_def using lists(1) b e d by blast
  then show ?thesis unfolding only_list_def using us(1) f(1) rest by simp
qed

lemma uses_nonzero: "uses_ok ctx \<Longrightarrow> 0 < r \<Longrightarrow> IR_UNUSED \<notin> set (uses ctx r)"
proof -
  assume a: "uses_ok ctx" "0 < r"
  then have "0 \<le> ul_count (use_list ctx r)" "\<forall>k\<in>owned ctx r. use_edges ctx k \<noteq> IR_UNUSED" by (auto simp: uses_ok_def)
  then show ?thesis unfolding uses_def set_seg owned_def by auto
qed

lemma use_list_remove_one_spec:
  assumes ok: "uses_ok ctx" and r: "0 < from"
  shows "only_list ctx (ir_use_list_remove_one ctx from ref) from (remove1 ref (uses ctx from))"
proof -
  let ?ul = "use_list ctx from" and ?ctx = "ir_use_list_remove_one ctx from ref"
  have b: "0 \<le> ul_refs ?ul" "0 \<le> ul_count ?ul" "ul_refs ?ul + ul_count ?ul \<le> use_edges_count ctx" "use_lists ctx \<noteq> None"
    using ok r by (auto simp: uses_ok_def)
  have apart: "owned ctx r' \<inter> owned ctx from = {}" if "0 < r'" "r' \<noteq> from" for r' using ok r that by (simp add: uses_ok_def)
  show ?thesis
  proof (cases "remove_one_loop ref (nat (ul_count ?ul)) (ul_refs ?ul) (use_edges ctx)")
    case None
    then have "ref \<notin> set (uses ctx from)" using remove_one_loop_spec [where ref = ref and n = "nat (ul_count ?ul)" and p = "ul_refs ?ul" and e = "use_edges ctx"] by (simp add: uses_def)
    moreover have "?ctx = ctx" using None by (simp add: ir_use_list_remove_one_def)
    ultimately show ?thesis using ok by (simp add: only_list_def remove1_idem)
  next
    case (Some e)
    note s = remove_one_loop_spec [where ref = ref and n = "nat (ul_count ?ul)" and p = "ul_refs ?ul" and e = "use_edges ctx", unfolded Some, simplified]
    have pos: "0 < ul_count ?ul" using s by (cases "nat (ul_count ?ul)") auto
    have c: "?ctx = (set_use_list from (?ul\<lparr>ul_count := ul_count ?ul - 1\<rparr>) ctx)\<lparr>use_edges := e\<rparr>" using Some by (simp add: ir_use_list_remove_one_def Let_def)
    have l: "use_list ?ctx r' = (if r' = from then ?ul\<lparr>ul_count := ul_count ?ul - 1\<rparr> else use_list ctx r')" for r' using b(4) by (simp add: c)
    show ?thesis
    proof (rule only_listI [OF ok r])
      show "uses ?ctx from = remove1 ref (uses ctx from)" using s b pos by (simp add: uses_def l) (simp add: c nat_diff_distrib)
      show "IR_UNUSED \<notin> set (remove1 ref (uses ctx from))" using uses_nonzero [OF ok r] set_remove1_subset by fast
      fix r' assume r': "0 < r'" "r' \<noteq> from"
      have "owned ?ctx from \<subseteq> owned ctx from" by (auto simp: owned_def l)
      then show "owned ctx r' \<inter> owned ?ctx from = {}" using apart [OF r'] by blast
      fix k assume "k \<in> owned ctx r'"
      then have "k \<notin> owned ctx from" using apart [OF r'] by blast
      then show "use_edges ?ctx k = use_edges ctx k" using s b by (auto simp: owned_def c)
    qed (use b pos l in \<open>auto simp: c\<close>)
  qed
qed


lemma uses_okD:
  assumes "uses_ok ctx" "0 < r"
  shows "0 \<le> ul_refs (use_list ctx r)" "0 \<le> ul_count (use_list ctx r)"
    "ul_refs (use_list ctx r) + ul_count (use_list ctx r) \<le> use_edges_count ctx" "use_lists ctx \<noteq> None"
    "\<And>r'. 0 < r' \<Longrightarrow> r' \<noteq> r \<Longrightarrow> owned ctx r' \<inter> owned ctx r = {}"
  using assms by (auto simp: uses_ok_def)

text \<open>Updates that stay inside the list.\<close>

lemma only_list_inside:
  assumes ok: "uses_ok ctx" and r: "0 < r" and c: "0 \<le> c" "c \<le> ul_count (use_list ctx r)"
    and ctx': "ctx' = (set_use_list r ((use_list ctx r)\<lparr>ul_count := c\<rparr>) ctx)\<lparr>use_edges := e\<rparr>"
    and e: "\<And>k. k < ul_refs (use_list ctx r) \<or> ul_refs (use_list ctx r) + ul_count (use_list ctx r) \<le> k \<Longrightarrow> e k = use_edges ctx k"
    and us: "seg e (ul_refs (use_list ctx r)) (nat c) = us" "IR_UNUSED \<notin> set us"
  shows "only_list ctx ctx' r us"
proof (rule only_listI [OF ok r])
  note b = uses_okD [OF ok r]
  have l: "use_list ctx' r' = (if r' = r then (use_list ctx r)\<lparr>ul_count := c\<rparr> else use_list ctx r')" for r' using b(4) by (simp add: ctx')
  show "use_lists ctx' \<noteq> None" "use_edges_count ctx \<le> use_edges_count ctx'" "0 \<le> ul_refs (use_list ctx' r)" "0 \<le> ul_count (use_list ctx' r)"
    "ul_refs (use_list ctx' r) + ul_count (use_list ctx' r) \<le> use_edges_count ctx'" "ir_base ctx' = ir_base ctx" "insns_count ctx' = insns_count ctx"
    "uses ctx' r = us"
    using b c l us(1) by (auto simp: ctx' uses_def)
  show "use_list ctx' r' = use_list ctx r'" if "r' \<noteq> r" for r' using l that by simp
  fix r' assume r': "0 < r'" "r' \<noteq> r"
  have "owned ctx' r \<subseteq> owned ctx r" using c by (auto simp: owned_def l)
  then show "owned ctx r' \<inter> owned ctx' r = {}" using b(5) [OF r'] by blast
  fix k assume "k \<in> owned ctx r'"
  then have "k \<notin> owned ctx r" using b(5) [OF r'] by blast
  then show "use_edges ctx' k = use_edges ctx k" using e by (auto simp: owned_def ctx')
qed (rule us(2))

lemma use_list_remove_all_spec:
  assumes ok: "uses_ok ctx" and r: "0 < from"
  shows "only_list ctx (ir_use_list_remove_all ctx from ref) from (filter (\<lambda>u. u \<noteq> ref) (uses ctx from))"
proof -
  let ?ul = "use_list ctx from"
  define us where "us = filter (\<lambda>u. u \<noteq> ref) (uses ctx from)"
  obtain p q e where k: "keep_uses ref (nat (ul_count ?ul)) (ul_refs ?ul) (ul_refs ?ul) (use_edges ctx) = (p, q, e)" by (metis prod_cases3)
  note s = keep_uses_spec [OF k order_refl]
  note b = uses_okD [OF ok r]
  have pq: "p = ul_refs ?ul + ul_count ?ul" "q = ul_refs ?ul + int (length us)" "q \<le> p" "seg e (ul_refs ?ul) (length us) = us"
    "\<And>k. k < ul_refs ?ul \<or> p \<le> k \<Longrightarrow> e k = use_edges ctx k"
    using s b(2) by (auto simp: us_def uses_def)
  define e' where "e' = (\<lambda>k. if q \<le> k \<and> k < p then IR_UNUSED else e k)"
  have cnt: "ul_count ?ul - (p - q) = int (length us)" using pq(1,2) by simp
  have "only_list ctx ((set_use_list from (?ul\<lparr>ul_count := int (length us)\<rparr>) ctx)\<lparr>use_edges := e'\<rparr>) from us"
  proof (rule only_list_inside [OF ok r _ _ refl])
    show "seg e' (ul_refs ?ul) (nat (int (length us))) = us" unfolding nat_int using pq(2,4) by (subst seg_cong [of _ _ e' e]) (auto simp: e'_def)
    show "IR_UNUSED \<notin> set us" using uses_nonzero [OF ok r] by (simp add: us_def)
  qed (use pq in \<open>auto simp: e'_def\<close>)
  moreover have "ir_use_list_remove_all ctx from ref = (set_use_list from (?ul\<lparr>ul_count := int (length us)\<rparr>) ctx)\<lparr>use_edges := e'\<rparr>"
  proof (cases "p = q")
    case True
    then have "ul_count ?ul = int (length us)" "e' = e" using cnt by (auto simp: e'_def)
    moreover have "set_use_list from ?ul ctx = ctx" using b(4) by (auto simp: set_use_list_def use_list_def fun_upd_idem)
    ultimately show ?thesis using True k by (simp add: ir_use_list_remove_all_def Let_def) (metis ir_use_list.surjective ir_use_list.update_convs(2) old.unit.exhaust)
  next
    case False
    then show ?thesis using k by (simp add: ir_use_list_remove_all_def Let_def e'_def cnt [symmetric])
  qed
  ultimately show ?thesis by (simp add: us_def)
qed

lemma set_same_list: "use_lists ctx \<noteq> None \<Longrightarrow> set_use_list r ((use_list ctx r)\<lparr>ul_count := ul_count (use_list ctx r)\<rparr>) ctx = ctx"
  by (auto simp: set_use_list_def use_list_def fun_upd_idem)

lemma replace1_set: "set (replace1 u v xs) \<subseteq> insert v (set xs)"
  by (induction xs) auto

lemma use_list_replace_one_spec:
  assumes ok: "uses_ok ctx" and r: "0 < ref" and v: "v \<noteq> IR_UNUSED"
  shows "only_list ctx (ir_use_list_replace_one ctx ref u v) ref (replace1 u v (uses ctx ref))"
proof (rule only_list_inside [OF ok r _ order_refl])
  note b = uses_okD [OF ok r]
  note s = replace_one_loop_spec [where u = u and v = v and n = "nat (ul_count (use_list ctx ref))" and p = "ul_refs (use_list ctx ref)" and e = "use_edges ctx"]
  show "ir_use_list_replace_one ctx ref u v = (set_use_list ref ((use_list ctx ref)\<lparr>ul_count := ul_count (use_list ctx ref)\<rparr>) ctx)
      \<lparr>use_edges := replace_one_loop u v (nat (ul_count (use_list ctx ref))) (ul_refs (use_list ctx ref)) (use_edges ctx)\<rparr>"
    unfolding set_same_list [OF b(4)] by (simp add: ir_use_list_replace_one_def Let_def)
  show "0 \<le> ul_count (use_list ctx ref)" by (rule b(2))
  show "IR_UNUSED \<notin> set (replace1 u v (uses ctx ref))" using uses_nonzero [OF ok r] v replace1_set [of u v "uses ctx ref"] by auto
qed (use replace_one_loop_spec uses_okD(2) [OF ok r] in \<open>auto simp: uses_def\<close>)

lemma replace_all_seg:
  "seg (fold (\<lambda>p e. if e p = u then e(p := v) else e) [p..p + int n - 1] e) p n = map (\<lambda>x. if x = u then v else x) (seg e p n) \<and>
   (\<forall>k. k < p \<or> p + int n \<le> k \<longrightarrow> fold (\<lambda>p e. if e p = u then e(p := v) else e) [p..p + int n - 1] e k = e k)"
proof (induction n arbitrary: p e)
  case (Suc n)
  define e1 where "e1 = (if e p = u then e(p := v) else e)"
  have l: "[p..p + int (Suc n) - 1] = p # [p + 1..p + 1 + int n - 1]" by (subst upto_rec1) auto
  have f: "fold (\<lambda>p e. if e p = u then e(p := v) else e) [p..p + int (Suc n) - 1] e =
      fold (\<lambda>p e. if e p = u then e(p := v) else e) [p + 1..p + 1 + int n - 1] e1" unfolding l e1_def by simp
  have e1: "e1 p = (if e p = u then v else e p)" "seg e1 (p + 1) n = seg e (p + 1) n" "\<And>k. k \<noteq> p \<Longrightarrow> e1 k = e k" by (auto simp: e1_def)
  note ih = Suc [of "p + 1" e1]
  show ?case unfolding f using ih e1 by auto
qed simp

lemma use_list_replace_all_spec:
  assumes ok: "uses_ok ctx" and r: "0 < ref" and v: "v \<noteq> IR_UNUSED"
  shows "only_list ctx (ir_use_list_replace_all ctx ref u v) ref (map (\<lambda>x. if x = u then v else x) (uses ctx ref))"
proof (rule only_list_inside [OF ok r _ order_refl])
  note b = uses_okD [OF ok r]
  let ?ul = "use_list ctx ref"
  define e where "e = fold (\<lambda>p e. if e p = u then e(p := v) else e) [ul_refs ?ul..ul_refs ?ul + ul_count ?ul - 1] (use_edges ctx)"
  note s = replace_all_seg [where u = u and v = v and n = "nat (ul_count ?ul)" and p = "ul_refs ?ul" and e = "use_edges ctx"]
  show "ir_use_list_replace_all ctx ref u v = (set_use_list ref (?ul\<lparr>ul_count := ul_count ?ul\<rparr>) ctx)\<lparr>use_edges := e\<rparr>"
    unfolding set_same_list [OF b(4)] by (simp add: ir_use_list_replace_all_def Let_def e_def)
  show "0 \<le> ul_count ?ul" by (rule b(2))
  show "IR_UNUSED \<notin> set (map (\<lambda>x. if x = u then v else x) (uses ctx ref))" using uses_nonzero [OF ok r] v by auto
  show "seg e (ul_refs ?ul) (nat (ul_count ?ul)) = map (\<lambda>x. if x = u then v else x) (uses ctx ref)"
    using s b(2) by (simp add: e_def uses_def)
  show "e k = use_edges ctx k" if "k < ul_refs ?ul \<or> ul_refs ?ul + ul_count ?ul \<le> k" for k using s b(2) that by (auto simp: e_def)
qed


lemma seg_snoc: "seg e p (Suc n) = seg e p n @ [e (p + int n)]"
  using seg_append [of e p n 1] by simp

lemma use_list_add_spec:
  assumes ok: "uses_ok ctx" and r: "0 < to" and ref: "ref \<noteq> IR_UNUSED"
  shows "only_list ctx (fst (ir_use_list_add ctx to ref)) to (uses ctx to @ [ref])"
    "use_list (fst (ir_use_list_add ctx to ref)) r' = use_list ctx r' \<or> r' = to"
    "use_edges_count ctx \<le> use_edges_count (fst (ir_use_list_add ctx to ref))"
proof -
  let ?ul = "use_list ctx to" and ?ctx = "fst (ir_use_list_add ctx to ref)" and ?uec = "use_edges_count ctx"
  define n where "n = ul_refs ?ul + ul_count ?ul"
  note b = uses_okD [OF ok r]
  have nz: "IR_UNUSED \<notin> set (uses ctx to @ [ref])" using uses_nonzero [OF ok r] ref by simp
  have inside: "k < ?uec" "use_edges ctx k \<noteq> IR_UNUSED" if "0 < r'" "k \<in> owned ctx r'" for r' k
    using uses_okD(3) [OF ok that(1)] ok that by (auto simp: owned_def uses_ok_def)
  have sn: "nat (ul_count ?ul + 1) = Suc (nat (ul_count ?ul))" using b(2) by simp
  have grow: "only_list ctx ctx' to (uses ctx to @ [ref])"
    if c: "ctx' = (set_use_list to (?ul\<lparr>ul_count := ul_count ?ul + 1\<rparr>) ctx)\<lparr>use_edges := (use_edges ctx)(n := ref), use_edges_count := uec\<rparr>"
      and uec: "?uec \<le> uec" "n < uec" and free: "n < ?uec \<Longrightarrow> use_edges ctx n = IR_UNUSED" for ctx' uec
  proof (rule only_listI [OF ok r])
    have l: "use_list ctx' r' = (if r' = to then ?ul\<lparr>ul_count := ul_count ?ul + 1\<rparr> else use_list ctx r')" for r' using b(4) by (simp add: c)
    show "uses ctx' to = uses ctx to @ [ref]"
      unfolding uses_def l using b(2) by (simp add: sn seg_snoc c n_def del: seg.simps)
    fix r' assume r': "0 < r'" "r' \<noteq> to"
    have "n \<notin> owned ctx r'" using inside [OF r'(1)] free by blast
    moreover have "owned ctx' to = insert n (owned ctx to)" using b(2) by (auto simp: owned_def l n_def)
    ultimately show "owned ctx r' \<inter> owned ctx' to = {}" using b(5) [OF r'] by auto
    show "use_edges ctx' k = use_edges ctx k" if "k \<in> owned ctx r'" for k using \<open>n \<notin> owned ctx r'\<close> that by (auto simp: c)
  qed (use b uec nz in \<open>auto simp: c n_def\<close>)
  have move: "only_list ctx ctx' to (uses ctx to @ [ref])"
    if c: "ctx' = (set_use_list to \<lparr>ul_refs = ?uec, ul_count = ul_count ?ul + 1\<rparr> ctx)
        \<lparr>use_edges := e(?uec + ul_count ?ul := ref), use_edges_count := ?uec + (ul_count ?ul + 1)\<rparr>"
      and e: "e = (\<lambda>k. if ?uec \<le> k \<and> k < ?uec + ul_count ?ul then use_edges ctx (ul_refs ?ul + (k - ?uec)) else use_edges ctx k)" for ctx' e
  proof (rule only_listI [OF ok r])
    have l: "use_list ctx' r' = (if r' = to then \<lparr>ul_refs = ?uec, ul_count = ul_count ?ul + 1\<rparr> else use_list ctx r')" for r' using b(4) by (simp add: c)
    have "seg e ?uec (nat (ul_count ?ul)) = uses ctx to"
      by (rule nth_equalityI) (auto simp: nth_seg uses_def e)
    then show "uses ctx' to = uses ctx to @ [ref]"
      unfolding uses_def [of ctx'] l using b(2) by (simp add: sn seg_snoc c del: seg.simps)
    fix r' assume r': "0 < r'" "r' \<noteq> to"
    show "owned ctx r' \<inter> owned ctx' to = {}" using inside [OF r'(1)] by (fastforce simp: owned_def [of ctx'] l)
    show "use_edges ctx' k = use_edges ctx k" if "k \<in> owned ctx r'" for k using inside(1) [OF r'(1) that] b(2) by (auto simp: c e)
  qed (use b nz in \<open>auto simp: c\<close>)
  show "only_list ctx ?ctx to (uses ctx to @ [ref])"
  proof (cases "n < ?uec \<and> use_edges ctx n = IR_UNUSED")
    case True
    then show ?thesis by (intro grow [of _ ?uec]) (auto simp: ir_use_list_add_def Let_def n_def)
  next
    case F: False
    show ?thesis
    proof (cases "n = ?uec")
      case True
      then show ?thesis using F by (intro grow [of _ "?uec + 1"]) (auto simp: ir_use_list_add_def Let_def n_def)
    next
      case False
      then show ?thesis using F by (intro move [OF _ refl]) (auto simp: ir_use_list_add_def Let_def n_def)
    qed
  qed
  show "use_list ?ctx r' = use_list ctx r' \<or> r' = to" using b(4) by (simp add: ir_use_list_add_def Let_def)
  show "?uec \<le> use_edges_count ?ctx" using b(2) by (simp add: ir_use_list_add_def Let_def)
qed


section \<open>Operands\<close>

function insn_list :: "ir_ref \<Rightarrow> (ir_ref \<Rightarrow> ir_insn) \<Rightarrow> ir_ref \<Rightarrow> ir_ref list" where
  "insn_list cnt base i = (if i < cnt then i # insn_list cnt base (i + int (ir_insn_len (base i))) else [])"
  by pat_completeness auto
termination
  by (relation "measure (\<lambda>(cnt, base, i). nat (cnt - i))") (auto simp: ir_insn_len_def ir_insn_inputs_to_len_def)

declare insn_list.simps [simp del]

definition insn_ops :: "(ir_ref \<Rightarrow> ir_insn) \<Rightarrow> ir_ref \<Rightarrow> ir_ref list" where
  "insn_ops base r = map (ir_insn_op base r) [1..<Suc (i_n (base r))]"

definition insns :: "ir_ctx \<Rightarrow> ir_ref list" where
  "insns ctx = insn_list (insns_count ctx) (ir_base ctx) (IR_UNUSED + 1)"

lemma insn_list_ge: "r \<in> set (insn_list cnt base i) \<Longrightarrow> i \<le> r"
proof (induction cnt base i rule: insn_list.induct)
  case (1 cnt base i)
  then show ?case by (subst (asm) (2) insn_list.simps) (fastforce split: if_splits)
qed

lemma insn_list_gap:
  "r \<in> set (insn_list cnt base i) \<Longrightarrow> r' \<in> set (insn_list cnt base i) \<Longrightarrow> r < r' \<Longrightarrow> r + int (ir_insn_len (base r)) \<le> r'"
proof (induction cnt base i rule: insn_list.induct)
  case (1 cnt base i)
  let ?next = "insn_list cnt base (i + int (ir_insn_len (base i)))"
  have l: "i < cnt" "set (insn_list cnt base i) = insert i (set ?next)"
    using 1(2) by (auto simp: insn_list.simps [of cnt base i] split: if_splits)
  have ge: "i + int (ir_insn_len (base i)) \<le> x" if "x \<in> set ?next" for x using insn_list_ge [OF that] .
  show ?case
  proof (cases "r = i")
    case True
    then show ?thesis using 1(3,4) l(2) ge by auto
  next
    case False
    then have "r \<in> set ?next" using 1(2) l(2) by simp
    moreover from this have "r' \<in> set ?next" using 1(3,4) l(2) ge [of r] by auto
    ultimately show ?thesis using 1(1) [OF l(1)] 1(4) by simp
  qed
qed

lemma insn_list_cong: "(\<And>r. i_n (base' r) = i_n (base r)) \<Longrightarrow> insn_list cnt base' i = insn_list cnt base i"
proof (induction cnt base i rule: insn_list.induct)
  case (1 cnt base i)
  then show ?case by (simp add: insn_list.simps [of cnt base' i] insn_list.simps [of cnt base i] ir_insn_len_def)
qed

lemma slot_get_set: "k < 4 \<Longrightarrow> k' < 4 \<Longrightarrow> slot_get (slot_set insn k v) k' = (if k' = k then v else slot_get insn k')"
  by (auto simp: slot_get_def slot_set_def)

lemma insn_op_set:
  "ir_insn_op (ir_insn_set_op base r n v) r' n' = (if r' + int (n' div 4) = r + int (n div 4) \<and> n' mod 4 = n mod 4 then v else ir_insn_op base r' n')"
  by (auto simp: ir_insn_op_def ir_insn_set_op_def Let_def slot_get_set)

lemma i_n_set [simp]: "i_n (ir_insn_set_op base r n v r') = i_n (base r')"
  by (auto simp: ir_insn_set_op_def Let_def slot_set_def)

lemma div_mod_4: "(n::nat) div 4 = m div 4 \<Longrightarrow> n mod 4 = m mod 4 \<Longrightarrow> n = m"
  by (metis div_mod_decomp)

lemma length_insn_ops [simp]: "length (insn_ops base r) = i_n (base r)"
  by (simp add: insn_ops_def del: upt_Suc)

lemma nth_insn_ops [simp]: "k < i_n (base r) \<Longrightarrow> insn_ops base r ! k = ir_insn_op base r (Suc k)"
  by (simp add: insn_ops_def del: upt_Suc)

lemma insn_ops_set_same:
  assumes "1 \<le> n" "n \<le> i_n (base r)"
  shows "insn_ops (ir_insn_set_op base r n v) r = (insn_ops base r)[n - 1 := v]"
proof (rule nth_equalityI)
  fix i assume "i < length (insn_ops (ir_insn_set_op base r n v) r)"
  then have i: "i < i_n (base r)" by simp
  have "(Suc i div 4 = n div 4 \<and> Suc i mod 4 = n mod 4) = (Suc i = n)" using div_mod_4 [of "Suc i" n] by metis
  then have "insn_ops (ir_insn_set_op base r n v) r ! i = (if Suc i = n then v else ir_insn_op base r (Suc i))"
    using i by (simp add: insn_op_set)
  also have "(Suc i = n) = (n - 1 = i)" using assms(1) by auto
  finally show "insn_ops (ir_insn_set_op base r n v) r ! i = (insn_ops base r)[n - 1 := v] ! i" using i by (simp add: nth_list_update)
qed simp

lemma insn_ops_set_other:
  assumes in_r: "r \<in> set (insn_list cnt base i)" "r' \<in> set (insn_list cnt base i)" "r' \<noteq> r" and n: "n \<le> i_n (base r)"
  shows "insn_ops (ir_insn_set_op base r n v) r' = insn_ops base r'"
proof -
  have "r' + int (n' div 4) \<noteq> r + int (n div 4)" if "n' \<le> i_n (base r')" for n'
  proof -
    have a: "int (n div 4) < int (ir_insn_len (base r))" "int (n' div 4) < int (ir_insn_len (base r'))"
      using n that div_le_mono [of n _ 4] div_le_mono [of n' _ 4] by (simp_all add: ir_insn_len_def ir_insn_inputs_to_len_def drop_bit_eq_div less_Suc_eq_le)
    show ?thesis
    proof (cases "r < r'")
      case True
      then show ?thesis using insn_list_gap [OF in_r(1,2)] a by linarith
    next
      case False
      then show ?thesis using insn_list_gap [OF in_r(2,1)] in_r(3) a by linarith
    qed
  qed
  then show ?thesis by (auto simp: insn_ops_def insn_op_set)
qed

lemma find_op_first:
  assumes "v \<in> set (insn_ops base r)"
  shows "1 \<le> ir_insn_find_op base r v" "ir_insn_find_op base r v \<le> i_n (base r)" "insn_ops base r ! (ir_insn_find_op base r v - 1) = v"
proof -
  obtain j where j: "find (\<lambda>i. ir_insn_op base r i = v) [1..<Suc (i_n (base r))] = Some j"
    using assms by (cases "find (\<lambda>i. ir_insn_op base r i = v) [1..<Suc (i_n (base r))]") (auto simp: find_None_iff insn_ops_def)
  then obtain k where "k < length [1..<Suc (i_n (base r))]" "ir_insn_op base r ([1..<Suc (i_n (base r))] ! k) = v" "j = [1..<Suc (i_n (base r))] ! k"
    unfolding find_Some_iff by blast
  then have "1 \<le> j" "j \<le> i_n (base r)" "ir_insn_op base r j = v" by (simp_all del: upt_Suc)
  then show "1 \<le> ir_insn_find_op base r v" "ir_insn_find_op base r v \<le> i_n (base r)" "insn_ops base r ! (ir_insn_find_op base r v - 1) = v"
    using j by (simp_all add: ir_insn_find_op_def del: upt_Suc)
qed

section \<open>The lists agree with the operands\<close>

definition use_count :: "ir_ctx \<Rightarrow> ir_ref \<Rightarrow> ir_ref \<Rightarrow> nat" where
  "use_count ctx r d = (if r \<in> set (insns ctx) then count_list (insn_ops (ir_base ctx) r) d else 0)"

definition def_use_ok :: "ir_ctx \<Rightarrow> bool" where
  "def_use_ok ctx \<longleftrightarrow> uses_ok ctx \<and> (\<forall>d>0. \<forall>r. count_list (uses ctx d) r = use_count ctx r d)"

lemma count_list_update:
  "k < length xs \<Longrightarrow> count_list (xs[k := v]) d + of_bool (xs ! k = d) = count_list xs d + of_bool (v = d)"
proof (induction xs arbitrary: k)
  case (Cons x xs)
  then show ?case by (cases k) auto
qed simp

lemma count_list_remove1: "count_list (remove1 x xs) y = count_list xs y - of_bool (x = y \<and> x \<in> set xs)"
proof (induction xs)
  case (Cons a xs)
  have "x = y \<Longrightarrow> x \<in> set xs \<Longrightarrow> 0 < count_list xs y" using count_list_0_iff by fastforce
  then show ?case using Cons by auto
qed simp


text \<open>Setting one operand.\<close>

lemma set_op_counts:
  assumes r: "r \<in> set (insns ctx)" and n: "1 \<le> n" "n \<le> i_n (ir_base ctx r)" and c: "ctx' = ctx\<lparr>ir_base := ir_insn_set_op (ir_base ctx) r n v\<rparr>"
  shows "insns ctx' = insns ctx" "insn_ops (ir_base ctx') r = (insn_ops (ir_base ctx) r)[n - 1 := v]"
    "r' \<in> set (insns ctx) \<Longrightarrow> r' \<noteq> r \<Longrightarrow> insn_ops (ir_base ctx') r' = insn_ops (ir_base ctx) r'"
    "use_count ctx' r d + of_bool (insn_ops (ir_base ctx) r ! (n - 1) = d) = use_count ctx r d + of_bool (v = d)"
    "r' \<noteq> r \<Longrightarrow> use_count ctx' r' d = use_count ctx r' d"
proof -
  show i: "insns ctx' = insns ctx" unfolding insns_def by (simp add: c) (rule insn_list_cong, simp)
  show ops: "insn_ops (ir_base ctx') r = (insn_ops (ir_base ctx) r)[n - 1 := v]" using insn_ops_set_same [where base = "ir_base ctx" and r = r, OF n] by (simp add: c)
  show u: "insn_ops (ir_base ctx') r' = insn_ops (ir_base ctx) r'" if "r' \<in> set (insns ctx)" "r' \<noteq> r" for r'
  proof -
    have "insn_ops (ir_insn_set_op (ir_base ctx) r n v) r' = insn_ops (ir_base ctx) r'"
      by (rule insn_ops_set_other [of r "insns_count ctx" "ir_base ctx" "IR_UNUSED + 1" r' n v]) (use r that n in \<open>unfold insns_def\<close>, blast+)
    then show ?thesis by (simp add: c)
  qed
  show "use_count ctx' r d + of_bool (insn_ops (ir_base ctx) r ! (n - 1) = d) = use_count ctx r d + of_bool (v = d)"
  proof -
    have "n - 1 < length (insn_ops (ir_base ctx) r)" using n by simp
    from count_list_update [OF this, of v d] show ?thesis unfolding use_count_def i ops if_P [OF r] .
  qed
  show "use_count ctx' r' d = use_count ctx r' d" if "r' \<noteq> r" using u that unfolding use_count_def i by simp
qed

lemma only_list_base: "only_list ctx ctx' r us \<Longrightarrow> insns ctx' = insns ctx \<and> use_count ctx' = use_count ctx"
proof -
  assume "only_list ctx ctx' r us"
  then have b: "ir_base ctx' = ir_base ctx" "insns_count ctx' = insns_count ctx" by (simp_all add: only_list_def)
  have i: "insns ctx' = insns ctx" unfolding insns_def b ..
  moreover have "use_count ctx' = use_count ctx" unfolding use_count_def [abs_def] i b ..
  ultimately show ?thesis ..
qed

lemma base_uses: "uses (ctx\<lparr>ir_base := b\<rparr>) = uses ctx" "uses_ok (ctx\<lparr>ir_base := b\<rparr>) = uses_ok ctx"
  by (simp_all add: uses_def uses_ok_def owned_def fun_eq_iff)

lemma use_in_insns: "def_use_ok ctx \<Longrightarrow> 0 < d \<Longrightarrow> r \<in> set (uses ctx d) \<Longrightarrow> r \<in> set (insns ctx)"
  by (metis count_list_0_iff def_use_ok_def use_count_def)

lemma insns_pos: "r \<in> set (insns ctx) \<Longrightarrow> 0 < r"
  using insn_list_ge by (fastforce simp: insns_def)

lemma update_op_ok:
  assumes ok: "def_use_ok ctx" and r: "ref \<in> set (insns ctx)" and n: "1 \<le> idx" "idx \<le> i_n (ir_base ctx ref)"
    and new: "new_val \<noteq> ir_insn_op (ir_base ctx) ref idx"
  shows "\<exists>ctx'. ir_update_op ctx ref idx new_val = Some ctx' \<and> def_use_ok ctx' \<and> insns ctx' = insns ctx \<and>
    insn_ops (ir_base ctx') ref = (insn_ops (ir_base ctx) ref)[idx - 1 := new_val] \<and>
    (\<forall>r'\<in>set (insns ctx). r' \<noteq> ref \<longrightarrow> insn_ops (ir_base ctx') r' = insn_ops (ir_base ctx) r')"
proof -
  define old where "old = ir_insn_op (ir_base ctx) ref idx"
  define c1 where "c1 = (if new_val > 0 then fst (ir_use_list_add ctx new_val ref) else ctx)"
  define c2 where "c2 = c1\<lparr>ir_base := ir_insn_set_op (ir_base c1) ref idx new_val\<rparr>"
  define c3 where "c3 = (if old > 0 then ir_use_list_remove_one c2 old ref else c2)"
  have run: "ir_update_op ctx ref idx new_val = Some c3"
    using new by (simp add: ir_update_op_def c1_def c2_def c3_def old_def Let_def)
  have u0: "uses_ok ctx" "\<And>d r. 0 < d \<Longrightarrow> count_list (uses ctx d) r = use_count ctx r d" using ok by (auto simp: def_use_ok_def)
  have rp: "ref \<noteq> IR_UNUSED" using insns_pos [OF r] by simp
  have o: "insn_ops (ir_base ctx) ref ! (idx - 1) = old" using n by (simp add: old_def)
  have s1: "uses_ok c1" "ir_base c1 = ir_base ctx" "insns c1 = insns ctx" "use_count c1 = use_count ctx"
      "\<And>d. 0 < d \<Longrightarrow> uses c1 d = (if d = new_val then uses ctx d @ [ref] else uses ctx d)"
    using use_list_add_spec(1) [OF u0(1) _ rp, of new_val] only_list_base [of ctx c1 new_val] u0(1) by (auto simp: c1_def only_list_def)
  have n1: "idx \<le> i_n (ir_base c1 ref)" "ref \<in> set (insns c1)" using n r s1 by simp_all
  note s2 = set_op_counts [OF n1(2) n(1) n1(1) c2_def]
  have u2: "uses_ok c2" "uses c2 = uses c1" using s1(1) by (simp_all add: c2_def base_uses)
  have s3: "uses_ok c3" "ir_base c3 = ir_base c2" "insns c3 = insns c2" "use_count c3 = use_count c2"
      "\<And>d. 0 < d \<Longrightarrow> uses c3 d = (if d = old then remove1 ref (uses c2 d) else uses c2 d)"
    using use_list_remove_one_spec [OF u2(1), of old ref] only_list_base [of c2 c3 old] u2(1) by (auto simp: c3_def only_list_def)
  have "count_list (uses c3 d) r' = use_count c3 r' d" if d: "0 < d" for d r'
  proof (cases "r' = ref")
    case False
    then show ?thesis using s3(4,5) s2(5) u2(2) s1(4,5) u0(2) d by (simp add: count_list_remove1)
  next
    case True
    have "use_count c2 ref d + of_bool (old = d) = use_count ctx ref d + of_bool (new_val = d)"
      using s2(4) [of d] o s1(2,4) by simp
    moreover have "old = d \<Longrightarrow> ref \<in> set (uses c2 d)"
      using s1(5) [OF d] u2(2) u0(2) [OF d, of ref] r o n count_list_0_iff [of "uses ctx d" ref]
        count_list_0_iff [of "insn_ops (ir_base ctx) ref" d] nth_mem [of "idx - 1" "insn_ops (ir_base ctx) ref"]
      by (auto simp: use_count_def)
    ultimately show ?thesis using True s3(4,5) u2(2) s1(5) u0(2) [OF d, of ref] d new
      by (auto simp: count_list_remove1 old_def)
  qed
  then have "def_use_ok c3" using s3(1) by (simp add: def_use_ok_def)
  then show ?thesis using run s2(1-3) s3(2,3) s1(2,3) by auto
qed


section \<open>Replacing a definition\<close>

text \<open>What holds after the first \<open>i\<close> uses were replaced.\<close>

definition replaced :: "ir_ref \<Rightarrow> ir_ref \<Rightarrow> ir_ctx \<Rightarrow> nat \<Rightarrow> ir_ctx \<Rightarrow> bool" where
  "replaced ref new_ref ctx0 i ctx \<longleftrightarrow>
     uses_ok ctx \<and> insns ctx = insns ctx0 \<and> use_list ctx ref = use_list ctx0 ref \<and> uses ctx ref = uses ctx0 ref \<and>
     (\<forall>r. use_count ctx r ref = count_list (drop i (uses ctx0 ref)) r) \<and>
     (\<forall>d>0. d \<noteq> ref \<longrightarrow> (\<forall>r. count_list (uses ctx d) r = use_count ctx r d)) \<and>
     (\<forall>r\<in>set (insns ctx0). map (\<lambda>x. if x = ref then new_ref else x) (insn_ops (ir_base ctx) r) =
        map (\<lambda>x. if x = ref then new_ref else x) (insn_ops (ir_base ctx0) r))"

lemma replaced_0: "def_use_ok ctx \<Longrightarrow> 0 < ref \<Longrightarrow> replaced ref new_ref ctx 0 ctx"
  by (auto simp: replaced_def def_use_ok_def)

lemma map_update_id: "(map f xs)[k := f (xs ! k)] = map f xs"
  unfolding map_update [symmetric] list_update_id ..

lemma replaced_step:
  assumes R: "replaced ref new_ref ctx0 i ctx" and i: "i < length (uses ctx0 ref)" and ref: "0 < ref" "new_ref \<noteq> ref"
    and self: "ref \<notin> set (uses ctx0 ref)" and u: "u = uses ctx0 ref ! i"
  shows "\<exists>ctx1. replace_use ref new_ref u ctx = Some ctx1 \<and> uses_ok ctx1 \<and>
    (new_ref \<le> 0 \<longrightarrow> replaced ref new_ref ctx0 (Suc i) ctx1 \<and> use_edges ctx1 = use_edges ctx) \<and>
    (0 < new_ref \<longrightarrow> replaced ref new_ref ctx0 (Suc i) (fst (ir_use_list_add ctx1 new_ref u)))"
proof -
  let ?f = "\<lambda>x. if x = ref then new_ref else x"
  have ok: "uses_ok ctx" "insns ctx = insns ctx0" "use_list ctx ref = use_list ctx0 ref" "uses ctx ref = uses ctx0 ref"
    "\<And>r. use_count ctx r ref = count_list (drop i (uses ctx0 ref)) r" "\<And>d r. 0 < d \<Longrightarrow> d \<noteq> ref \<Longrightarrow> count_list (uses ctx d) r = use_count ctx r d"
    "\<And>r. r \<in> set (insns ctx0) \<Longrightarrow> map ?f (insn_ops (ir_base ctx) r) = map ?f (insn_ops (ir_base ctx0) r)"
    using R unfolding replaced_def by blast+
  have dr: "drop i (uses ctx0 ref) = u # drop (Suc i) (uses ctx0 ref)" using i u by (simp add: Cons_nth_drop_Suc)
  then have "0 < use_count ctx u ref" using ok(5) by simp
  then have uin: "u \<in> set (insns ctx)" and op: "ref \<in> set (insn_ops (ir_base ctx) u)"
    using count_list_0_iff [of "insn_ops (ir_base ctx) u" ref] by (auto simp: use_count_def split: if_splits)
  have u0: "u \<noteq> ref" "u \<noteq> IR_UNUSED" using self nth_mem [OF i] u insns_pos [OF uin] by auto
  define j where "j = ir_insn_find_op (ir_base ctx) u ref"
  define ctx1 where "ctx1 = ctx\<lparr>ir_base := ir_insn_set_op (ir_base ctx) u j new_ref\<rparr>"
  note jf = find_op_first [OF op, folded j_def]
  have run: "replace_use ref new_ref u ctx = Some ctx1" using jf(1) u0 by (simp add: replace_use_def Let_def j_def [symmetric] ctx1_def)
  note s = set_op_counts [OF uin jf(1,2) ctx1_def]
  have us: "uses_ok ctx1" "uses ctx1 = uses ctx" "use_list ctx1 ref = use_list ctx ref" "use_edges ctx1 = use_edges ctx"
    using ok(1) by (simp_all add: ctx1_def base_uses)
  have cnt: "use_count ctx1 r ref = count_list (drop (Suc i) (uses ctx0 ref)) r" for r
    using s(4) [of ref] s(5) [of r ref] ok(5) [of r] dr ref(2) jf(3) by (cases "r = u") auto
  have cnt': "use_count ctx1 r d = use_count ctx r d + of_bool (r = u \<and> d = new_ref)" if "d \<noteq> ref" for r d
    using s(4) [of d] s(5) [of r d] that jf(3) by (cases "r = u") auto
  have ops: "map ?f (insn_ops (ir_base ctx1) r) = map ?f (insn_ops (ir_base ctx0) r)" if r: "r \<in> set (insns ctx0)" for r
  proof (cases "r = u")
    case True
    have "map ?f (insn_ops (ir_base ctx1) u) = (map ?f (insn_ops (ir_base ctx) u))[j - 1 := ?f (insn_ops (ir_base ctx) u ! (j - 1))]"
      unfolding s(2) map_update jf(3) using ref(2) by simp
    also have "\<dots> = map ?f (insn_ops (ir_base ctx) u)" by (rule map_update_id [of ?f])
    finally show ?thesis using ok(7) [OF r] True by simp
  next
    case False
    then show ?thesis using s(3) [of r] ok(2,7) r by simp
  qed
  have const: "replaced ref new_ref ctx0 (Suc i) ctx1" if "new_ref \<le> 0"
    unfolding replaced_def us(2,3) s(1) ok(2-4)
  proof (intro conjI allI impI ballI)
    fix d r :: ir_ref assume "0 < d" "d \<noteq> ref"
    then show "count_list (uses ctx d) r = use_count ctx1 r d" using ok(6) cnt' that by simp
  qed (use us(1) cnt ops in simp_all)
  have add: "replaced ref new_ref ctx0 (Suc i) (fst (ir_use_list_add ctx1 new_ref u))" if new: "0 < new_ref"
  proof -
    let ?c = "fst (ir_use_list_add ctx1 new_ref u)"
    have a: "only_list ctx1 ?c new_ref (uses ctx1 new_ref @ [u])" "use_list ?c ref = use_list ctx1 ref"
      using use_list_add_spec(1) [OF us(1) new u0(2)] use_list_add_spec(2) [OF us(1) new u0(2), of ref] ref by auto
    note b = only_list_base [OF a(1)]
    have "count_list (uses ?c d) r = use_count ?c r d" if d: "0 < d" "d \<noteq> ref" for d r
      using a(1) b d us(2) ok(6) cnt' [OF d(2), of r] by (cases "d = new_ref") (auto simp: only_list_def)
    moreover have "uses ?c ref = uses ctx0 ref" "ir_base ?c = ir_base ctx1" "uses_ok ?c" using a(1) ref us(2) ok(4) by (auto simp: only_list_def)
    moreover have "insns ?c = insns ctx0" "use_count ?c = use_count ctx1" "use_list ?c ref = use_list ctx0 ref" using a(2) b us(3) ok(2,3) s(1) by simp_all
    ultimately show ?thesis unfolding replaced_def using cnt ops by simp
  qed
  show ?thesis using run us(1,4) const add by blast
qed

lemma replaced_const_loop:
  assumes "new_ref \<le> 0" "0 < ref" "ref \<notin> set (uses ctx0 ref)"
  shows "replaced ref new_ref ctx0 i ctx \<Longrightarrow> i + n = length (uses ctx0 ref) \<Longrightarrow>
    seg (use_edges ctx) p n = drop i (uses ctx0 ref) \<Longrightarrow>
    \<exists>ctx'. replace_const_loop ref new_ref n p ctx = Some ctx' \<and> replaced ref new_ref ctx0 (length (uses ctx0 ref)) ctx'"
proof (induction n arbitrary: i p ctx)
  case (Suc n)
  have i: "i < length (uses ctx0 ref)" using Suc.prems(2) by simp
  have hd: "use_edges ctx p = uses ctx0 ref ! i" "seg (use_edges ctx) (p + 1) n = drop (Suc i) (uses ctx0 ref)"
    using Suc.prems(3) Cons_nth_drop_Suc [OF i] by (metis list.inject seg.simps(2))+
  have ne: "new_ref \<noteq> ref" using assms by simp
  obtain ctx1 where c: "replace_use ref new_ref (use_edges ctx p) ctx = Some ctx1" "replaced ref new_ref ctx0 (Suc i) ctx1" "use_edges ctx1 = use_edges ctx"
    using replaced_step [OF Suc.prems(1) i assms(2) ne assms(3) hd(1)] assms(1) by auto
  have "Suc i + n = length (uses ctx0 ref)" "seg (use_edges ctx1) (p + 1) n = drop (Suc i) (uses ctx0 ref)" using Suc.prems(2) hd(2) c(3) by simp_all
  from Suc.IH [OF c(2) this] show ?case using c(1) by simp
qed simp

lemma replaced_loop:
  assumes "0 < new_ref" "0 < ref" "new_ref \<noteq> ref" "ref \<notin> set (uses ctx0 ref)" "uses_ok ctx0"
  shows "replaced ref new_ref ctx0 i ctx \<Longrightarrow> i \<le> length (uses ctx0 ref) \<Longrightarrow>
    \<exists>ctx'. replace_loop ref new_ref (int i) (ul_count (use_list ctx0 ref)) (ul_refs (use_list ctx0 ref) + int i) ctx = Some ctx' \<and>
      replaced ref new_ref ctx0 (length (uses ctx0 ref)) ctx'"
proof (induction "length (uses ctx0 ref) - i" arbitrary: i ctx)
  case 0
  then have "int i = ul_count (use_list ctx0 ref)" using uses_length [OF assms(5,2)] by simp
  then show ?case using 0 by (subst replace_loop.simps) simp
next
  case (Suc m)
  have i: "i < length (uses ctx0 ref)" using Suc.hyps(2) by simp
  then have lt: "int i < ul_count (use_list ctx0 ref)" using uses_length [OF assms(5,2)] by simp
  let ?p = "ul_refs (use_list ctx0 ref) + int i"
  have same: "use_list ctx ref = use_list ctx0 ref" "uses ctx ref = uses ctx0 ref" using Suc.prems(1) by (simp_all add: replaced_def)
  have "uses ctx ref ! i = use_edges ctx ?p" unfolding uses_def same(1) by (rule nth_seg) (use lt in simp)
  then have u: "use_edges ctx ?p = uses ctx0 ref ! i" by (simp add: same(2))
  obtain ctx1 where c: "replace_use ref new_ref (use_edges ctx ?p) ctx = Some ctx1"
      "replaced ref new_ref ctx0 (Suc i) (fst (ir_use_list_add ctx1 new_ref (use_edges ctx ?p)))"
    using replaced_step [OF Suc.prems(1) i assms(2,3,4) u] assms(1) by auto
  obtain ctx2 moved where a: "ir_use_list_add ctx1 new_ref (use_edges ctx ?p) = (ctx2, moved)" by fastforce
  have R: "replaced ref new_ref ctx0 (Suc i) ctx2" using c(2) a by simp
  then have l2: "use_list ctx2 ref = use_list ctx0 ref" by (simp add: replaced_def)
  have "m = length (uses ctx0 ref) - Suc i" "Suc i \<le> length (uses ctx0 ref)" using Suc.hyps(2) i by simp_all
  note ih = Suc.hyps(1) [OF this(1) R this(2)]
  have "replace_loop ref new_ref (int i) (ul_count (use_list ctx0 ref)) ?p ctx =
      replace_loop ref new_ref (int (Suc i)) (ul_count (use_list ctx0 ref)) (ul_refs (use_list ctx0 ref) + int (Suc i)) ctx2"
    by (subst replace_loop.simps) (use lt c(1) a l2 in \<open>simp add: Let_def algebra_simps\<close>)
  then show ?case using ih by simp
qed

lemma replace_ok:
  assumes ok: "def_use_ok ctx" and ref: "0 < ref" "new_ref \<noteq> ref" and self: "ref \<notin> set (uses ctx ref)"
  shows "\<exists>ctx'. ir_replace ctx ref new_ref = Some ctx' \<and> uses_ok ctx' \<and> insns ctx' = insns ctx \<and>
    (\<forall>r\<in>set (insns ctx). insn_ops (ir_base ctx') r = map (\<lambda>x. if x = ref then new_ref else x) (insn_ops (ir_base ctx) r)) \<and>
    (\<forall>d>0. d \<noteq> ref \<longrightarrow> (\<forall>r. count_list (uses ctx' d) r = use_count ctx' r d))"
proof -
  let ?f = "\<lambda>x. if x = ref then new_ref else x" and ?n = "length (uses ctx ref)"
  have uo: "uses_ok ctx" using ok by (simp add: def_use_ok_def)
  have n: "nat (ul_count (use_list ctx ref)) = ?n" using uses_length [OF uo ref(1)] by simp
  note R = replaced_0 [OF ok ref(1), of new_ref]
  have "\<exists>ctx'. ir_replace ctx ref new_ref = Some ctx' \<and> replaced ref new_ref ctx ?n ctx'"
  proof (cases "new_ref \<le> 0")
    case True
    have "seg (use_edges ctx) (ul_refs (use_list ctx ref)) ?n = drop 0 (uses ctx ref)" unfolding n [symmetric] by (simp add: uses_def)
    from replaced_const_loop [OF True ref(1) self R _ this] show ?thesis using True ref(2) n by (simp add: ir_replace_def Let_def)
  next
    case False
    then have "0 < new_ref" by simp
    from replaced_loop [OF this ref self uo R] show ?thesis using False ref(2) by (simp add: ir_replace_def Let_def)
  qed
  then obtain ctx' where c: "ir_replace ctx ref new_ref = Some ctx'" "replaced ref new_ref ctx ?n ctx'" by blast
  have "insn_ops (ir_base ctx') r = map ?f (insn_ops (ir_base ctx) r)" if r: "r \<in> set (insns ctx)" for r
  proof -
    have "use_count ctx' r ref = 0" "insns ctx' = insns ctx" using c(2) by (simp_all add: replaced_def)
    then have "ref \<notin> set (insn_ops (ir_base ctx') r)" using r by (simp add: use_count_def count_list_0_iff)
    then have "map ?f (insn_ops (ir_base ctx') r) = insn_ops (ir_base ctx') r" by (intro map_idI) auto
    then show ?thesis using c(2) r by (simp add: replaced_def)
  qed
  then show ?thesis using c by (simp add: replaced_def)
qed


section \<open>The lists that are built\<close>

text \<open>The instructions with the numbers of their inputs, and their edges in order.\<close>

definition with_inputs :: "(ir_ref \<Rightarrow> ir_insn) \<Rightarrow> ir_ref \<Rightarrow> ir_insn" where
  "with_inputs base = (\<lambda>r. (base r)\<lparr>i_n := ir_input_edges_count (base r)\<rparr>)"

definition edge_list :: "(ir_ref \<Rightarrow> ir_insn) \<Rightarrow> ir_ref list \<Rightarrow> (ir_ref \<times> ir_ref) list" where
  "edge_list base rs = concat (map (\<lambda>r. map (Pair r) (insn_ops base r)) rs)"

definition users :: "(ir_ref \<times> ir_ref) list \<Rightarrow> ir_ref \<Rightarrow> ir_ref list" where
  "users es d = map fst (filter (\<lambda>e. snd e = d) es)"

lemma op_upd_n [simp]: "ir_insn_op (base(i := (base i)\<lparr>i_n := n\<rparr>)) r j = ir_insn_op base r j"
  by (auto simp: ir_insn_op_def slot_get_def)

lemma op_with_inputs [simp]: "ir_insn_op (with_inputs base) r j = ir_insn_op base r j"
  by (auto simp: ir_insn_op_def slot_get_def with_inputs_def)

lemma inputs_idem: "ir_input_edges_count (insn\<lparr>i_n := ir_input_edges_count insn\<rparr>) = ir_input_edges_count insn"
  by (simp add: ir_input_edges_count_def Let_def)

lemma with_inputs_upd: "with_inputs (base(i := with_inputs base i)) = with_inputs base"
  by (auto simp: with_inputs_def inputs_idem)

lemma link_uses_eq:
  "link_uses cnt base i st =
     ((\<lambda>r. if r \<in> set (insn_list cnt (with_inputs base) i) then with_inputs base r else base r),
      fold (\<lambda>(u, d). link_use u d) (edge_list (with_inputs base) (insn_list cnt (with_inputs base) i)) st)"
proof (induction cnt base i st rule: link_uses.induct)
  case (1 cnt base i st)
  show ?case
  proof (cases "i < cnt")
    case False
    then show ?thesis by (simp add: insn_list.simps [of cnt _ i] link_uses.simps [of cnt base i] edge_list_def)
  next
    case True
    define b1 where "b1 = base(i := with_inputs base i)"
    define n where "n = ir_input_edges_count (base i)"
    define st1 where "st1 = fold (\<lambda>j. link_use i (ir_insn_op base i j)) [1..<Suc n] st"
    let ?i = "i + int (ir_insn_inputs_to_len n)"
    have b1: "b1 = base(i := (base i)\<lparr>i_n := n\<rparr>)" by (simp add: b1_def with_inputs_def n_def)
    have wi: "with_inputs b1 = with_inputs base" unfolding b1_def by (rule with_inputs_upd)
    have run: "link_uses cnt base i st = link_uses cnt b1 ?i st1"
      using True by (simp add: link_uses.simps [of cnt base i] Let_def b1 n_def st1_def del: upt_Suc)
    have ih: "link_uses cnt b1 ?i st1 = ((\<lambda>r. if r \<in> set (insn_list cnt (with_inputs b1) ?i) then with_inputs b1 r else b1 r),
        fold (\<lambda>(u, d). link_use u d) (edge_list (with_inputs b1) (insn_list cnt (with_inputs b1) ?i)) st1)"
      by (rule "1.IH" [OF True n_def b1]) (simp add: st1_def b1 del: upt_Suc)
    have il: "insn_list cnt (with_inputs base) i = i # insn_list cnt (with_inputs base) ?i"
      using True by (simp add: insn_list.simps [of cnt "with_inputs base" i]) (simp add: with_inputs_def ir_insn_len_def n_def)
    have st1: "st1 = fold (\<lambda>(u, d). link_use u d) (map (Pair i) (insn_ops (with_inputs base) i)) st"
      by (simp add: st1_def insn_ops_def fold_map comp_def n_def) (simp add: with_inputs_def)
    show ?thesis unfolding run ih unfolding wi il st1 by (auto simp: edge_list_def b1_def)
  qed
qed

inductive chain :: "ir_ref list \<Rightarrow> ir_ref \<Rightarrow> ir_ref list \<Rightarrow> bool" for l where
  one: "0 < n \<Longrightarrow> chain l n [n]"
| cons: "n < 0 \<Longrightarrow> nat (- n) < length l \<Longrightarrow> chain l (l ! nat (- n)) xs \<Longrightarrow> chain l n (l ! nat (- n - 1) # xs)"

lemma chain_append: "chain l n xs \<Longrightarrow> chain (l @ l') n xs"
proof (induction rule: chain.induct)
  case (cons n xs)
  have "(l @ l') ! nat (- n) = l ! nat (- n)" "(l @ l') ! nat (- n - 1) = l ! nat (- n - 1)" using cons.hyps by (auto simp: nth_append)
  then show ?case using chain.cons [of n "l @ l'" xs] cons by simp
qed (rule chain.one)

lemma chain_nonempty: "chain l n xs \<Longrightarrow> xs \<noteq> [] \<and> n \<noteq> 0"
  by (induction rule: chain.induct) auto

lemma unlink_spec:
  "chain l n xs \<Longrightarrow> \<exists>n' e'. unlink l n ec e = Some (n', ec - int (length xs) + 1, e') \<and> 0 < n' \<and>
     seg (e'(ec - int (length xs) := n')) (ec - int (length xs)) (length xs) = rev xs \<and> (\<forall>k\<ge>ec. e' k = e k)"
proof (induction arbitrary: ec e rule: chain.induct)
  case (one n)
  then show ?case by (subst unlink.simps) auto
next
  case (cons n xs)
  define e1 where "e1 = e(ec - 1 := l ! nat (- n - 1))"
  obtain n' e' where r: "unlink l (l ! nat (- n)) (ec - 1) e1 = Some (n', ec - 1 - int (length xs) + 1, e')" "0 < n'"
      "seg (e'(ec - 1 - int (length xs) := n')) (ec - 1 - int (length xs)) (length xs) = rev xs" "\<forall>k\<ge>ec - 1. e' k = e1 k"
    using cons.IH [of "ec - 1" e1] by blast
  have "unlink l n ec e = unlink l (l ! nat (- n)) (ec - 1) e1"
    using cons.hyps by (subst unlink.simps) (simp add: e1_def)
  moreover have "e' (ec - 1) = l ! nat (- n - 1)" "\<forall>k\<ge>ec. e' k = e k" using r(4) by (auto simp: e1_def)
  moreover have "seg (e'(ec - int (Suc (length xs)) := n')) (ec - int (Suc (length xs))) (Suc (length xs)) = rev xs @ [e' (ec - 1)]"
    using r(3) chain_nonempty [OF cons.hyps(3)] by (simp add: seg_snoc algebra_simps del: seg.simps)
  moreover have "ec - 1 - int (length xs) + 1 = ec - int (Suc (length xs)) + 1" by simp
  ultimately show ?case using r(1,2) unfolding length_Cons rev.simps by metis
qed


definition links_ok :: "(ir_ref \<times> ir_ref) list \<Rightarrow> use_state \<Rightarrow> bool" where
  "links_ok es st \<longleftrightarrow> us_count st = length (filter (\<lambda>e. 0 < snd e) es) \<and>
     (\<forall>d>0. ul_count (us_lists st d) = int (length (users es d)) \<and>
        (if users es d = [] then ul_refs (us_lists st d) = 0 else chain (us_linked st) (ul_refs (us_lists st d)) (rev (users es d))))"

lemma users_append [simp]: "users (es @ es') d = users es d @ users es' d"
  by (simp add: users_def)

lemma link_use_ok:
  assumes ok: "links_ok es st" and u: "0 < u"
  shows "links_ok (es @ [(u, d)]) (link_use u d st)"
proof (cases "0 < d")
  case False
  then have "users (es @ [(u, d)]) d' = users es d'" if "0 < d'" for d' using that by (auto simp: users_def)
  then show ?thesis using ok False by (simp add: links_ok_def link_use_def)
next
  case True
  have U: "users (es @ [(u, d)]) d' = (if d' = d then users es d @ [u] else users es d')" for d' by (auto simp: users_def)
  have old: "ul_count (us_lists st d') = int (length (users es d'))"
      "if users es d' = [] then ul_refs (us_lists st d') = 0 else chain (us_linked st) (ul_refs (us_lists st d')) (rev (users es d'))" if "0 < d'" for d'
    using ok that by (auto simp: links_ok_def)
  show ?thesis
  proof (cases "ul_refs (us_lists st d) = 0")
    case z: True
    then have e: "users es d = []" using old(2) [OF True] chain_nonempty by (auto split: if_splits)
    have "link_use u d st = st\<lparr>us_count := us_count st + 1, us_lists := (us_lists st)(d := \<lparr>ul_refs = u, ul_count = 1\<rparr>)\<rparr>"
      using True z by (simp add: link_use_def Let_def)
    then show ?thesis using ok True U e old chain.one [OF u] by (simp add: links_ok_def)
  next
    case z: False
    define l where "l = us_linked st @ [u, ul_refs (us_lists st d)]"
    define h where "h = - (int (length (us_linked st)) + 1)"
    have ne: "users es d \<noteq> []" "chain (us_linked st) (ul_refs (us_lists st d)) (rev (users es d))" using old(2) [OF True] z by (auto split: if_splits)
    have n: "nat (- h) = Suc (length (us_linked st))" "nat (- h - 1) = length (us_linked st)" by (simp_all add: h_def)
    have "l ! nat (- h) = ul_refs (us_lists st d)" "l ! nat (- h - 1) = u" unfolding n by (simp_all add: l_def nth_append)
    moreover have "chain l (ul_refs (us_lists st d)) (rev (users es d))" unfolding l_def by (rule chain_append [OF ne(2)])
    ultimately have "chain l h (u # rev (users es d))" using chain.cons [of h l "rev (users es d)"] n by (simp add: h_def) (simp add: l_def)
    moreover have "link_use u d st = st\<lparr>us_count := us_count st + 1, us_linked := l,
        us_lists := (us_lists st)(d := \<lparr>ul_refs = h, ul_count = ul_count (us_lists st d) + 1\<rparr>)\<rparr>"
      using True z by (simp add: link_use_def Let_def l_def h_def)
    moreover have "if users es d' = [] then ul_refs (us_lists st d') = 0 else chain l (ul_refs (us_lists st d')) (rev (users es d'))" if "0 < d'" for d'
      using old(2) [OF that] chain_append [of "us_linked st" _ _ "[u, ul_refs (us_lists st d)]"] by (auto simp: l_def split: if_splits)
    ultimately show ?thesis using ok True U old(1) ne(1) by (simp add: links_ok_def)
  qed
qed

lemma links_fold:
  assumes "links_ok es0 st" "\<forall>e\<in>set es. 0 < fst e"
  shows "links_ok (es0 @ es) (fold (\<lambda>(u, d). link_use u d) es st)"
  using assms
proof (induction es arbitrary: es0 st)
  case (Cons e es)
  obtain u d where e: "e = (u, d)" by fastforce
  have "links_ok (es0 @ [(u, d)]) (link_use u d st)" by (rule link_use_ok) (use Cons.prems e in auto)
  from Cons.IH [OF this] Cons.prems(2) show ?case by (simp add: e)
qed simp

text \<open>Flattening: the lists go to the array from its end, one after the other.\<close>

definition flat_ok :: "(ir_ref \<times> ir_ref) list \<Rightarrow> (ir_ref \<Rightarrow> ir_use_list) \<Rightarrow> (ir_ref \<Rightarrow> ir_ref) \<Rightarrow> int \<Rightarrow> int \<Rightarrow> ir_ref \<Rightarrow> bool" where
  "flat_ok es ls e lo hi d \<longleftrightarrow> ul_count (ls d) = int (length (users es d)) \<and>
     (if users es d = [] then ul_refs (ls d) = 0
      else lo \<le> ul_refs (ls d) \<and> ul_refs (ls d) + ul_count (ls d) \<le> hi \<and> seg e (ul_refs (ls d)) (length (users es d)) = users es d)"

lemma flatten_one:
  assumes "ul_count (ls d) = int (length (users es d))"
    "if users es d = [] then ul_refs (ls d) = 0 else chain l (ul_refs (ls d)) (rev (users es d))"
  shows "\<exists>ls' e'. flatten_list l d (Some (ls, ec, e)) = Some (ls', ec - int (length (users es d)), e') \<and>
    flat_ok es ls' e' (ec - int (length (users es d))) ec d \<and> (\<forall>d'. d' \<noteq> d \<longrightarrow> ls' d' = ls d') \<and> (\<forall>k\<ge>ec. e' k = e k)"
proof (cases "users es d = []")
  case True
  then show ?thesis using assms by (simp add: flatten_list_def flat_ok_def)
next
  case False
  let ?us = "users es d"
  have c: "chain l (ul_refs (ls d)) (rev ?us)" using assms(2) False by simp
  obtain n' e' where u: "unlink l (ul_refs (ls d)) ec e = Some (n', ec - int (length ?us) + 1, e')" "0 < n'"
      "seg (e'(ec - int (length ?us) := n')) (ec - int (length ?us)) (length ?us) = ?us" "\<forall>k\<ge>ec. e' k = e k"
    using unlink_spec [OF c, of ec e] by auto
  have "ul_refs (ls d) \<noteq> 0" using chain_nonempty [OF c] by simp
  then have "flatten_list l d (Some (ls, ec, e)) =
      Some (ls(d := (ls d)\<lparr>ul_refs := ec - int (length ?us)\<rparr>), ec - int (length ?us), e'(ec - int (length ?us) := n'))"
    using u(1,2) by (simp add: flatten_list_def Let_def)
  moreover have "ec - int (length ?us) < ec" using False by simp
  ultimately show ?thesis using u(3,4) assms(1) False by (auto simp: flat_ok_def)
qed


lemma flat_ok_mono:
  assumes "flat_ok es ls e lo hi d" "ls' d = ls d" "\<And>k. lo \<le> k \<Longrightarrow> k < hi \<Longrightarrow> e' k = e k" "lo' \<le> lo" "hi \<le> hi'"
  shows "flat_ok es ls' e' lo' hi' d"
proof (cases "users es d = []")
  case False
  have f: "ul_count (ls d) = int (length (users es d))" "lo \<le> ul_refs (ls d)" "ul_refs (ls d) + ul_count (ls d) \<le> hi"
      "seg e (ul_refs (ls d)) (length (users es d)) = users es d" using assms(1) False by (auto simp: flat_ok_def)
  have "seg e' (ul_refs (ls d)) (length (users es d)) = seg e (ul_refs (ls d)) (length (users es d))"
    by (rule seg_cong, rule assms(3)) (use f in auto)
  then show ?thesis using f assms(2,4,5) False by (simp add: flat_ok_def)
qed (use assms in \<open>simp add: flat_ok_def\<close>)

definition seg_of :: "(ir_ref \<Rightarrow> ir_use_list) \<Rightarrow> ir_ref \<Rightarrow> int set" where
  "seg_of ls d = {ul_refs (ls d)..<ul_refs (ls d) + ul_count (ls d)}"

lemma flat_ok_seg: "flat_ok es ls e lo hi d \<Longrightarrow> seg_of ls d \<subseteq> {lo..<hi}"
  by (auto simp: flat_ok_def seg_of_def split: if_splits)

lemma flatten_all:
  assumes "distinct ds" "\<forall>d\<in>set ds. ul_count (ls d) = int (length (users es d)) \<and>
    (if users es d = [] then ul_refs (ls d) = 0 else chain l (ul_refs (ls d)) (rev (users es d)))"
  shows "\<exists>ls' e'. fold (flatten_list l) ds (Some (ls, ec, e)) = Some (ls', ec - int (\<Sum>d\<leftarrow>ds. length (users es d)), e') \<and>
    (\<forall>d\<in>set ds. flat_ok es ls' e' (ec - int (\<Sum>d\<leftarrow>ds. length (users es d))) ec d) \<and> (\<forall>d. d \<notin> set ds \<longrightarrow> ls' d = ls d) \<and>
    (\<forall>k\<ge>ec. e' k = e k) \<and> (\<forall>d\<in>set ds. \<forall>d'\<in>set ds. d \<noteq> d' \<longrightarrow> seg_of ls' d \<inter> seg_of ls' d' = {})"
  using assms
proof (induction ds arbitrary: ls ec e)
  case (Cons d ds)
  have d: "ul_count (ls d) = int (length (users es d))" "if users es d = [] then ul_refs (ls d) = 0 else chain l (ul_refs (ls d)) (rev (users es d))"
    using Cons.prems(2) by simp_all
  obtain ls1 e1 where s1: "flatten_list l d (Some (ls, ec, e)) = Some (ls1, ec - int (length (users es d)), e1)"
      "flat_ok es ls1 e1 (ec - int (length (users es d))) ec d" "\<forall>d'. d' \<noteq> d \<longrightarrow> ls1 d' = ls d'" "\<forall>k\<ge>ec. e1 k = e k"
    using flatten_one [of ls d es l ec e] d by blast
  define ec1 where "ec1 = ec - int (length (users es d))"
  let ?ec = "ec1 - int (\<Sum>d\<leftarrow>ds. length (users es d))"
  have "\<forall>d\<in>set ds. ul_count (ls1 d) = int (length (users es d)) \<and>
      (if users es d = [] then ul_refs (ls1 d) = 0 else chain l (ul_refs (ls1 d)) (rev (users es d)))"
    using Cons.prems s1(3) by auto
  with Cons.prems(1) have "\<exists>ls2 e2. fold (flatten_list l) ds (Some (ls1, ec1, e1)) = Some (ls2, ?ec, e2) \<and>
      (\<forall>d\<in>set ds. flat_ok es ls2 e2 ?ec ec1 d) \<and> (\<forall>d. d \<notin> set ds \<longrightarrow> ls2 d = ls1 d) \<and> (\<forall>k\<ge>ec1. e2 k = e1 k) \<and>
      (\<forall>d\<in>set ds. \<forall>d'\<in>set ds. d \<noteq> d' \<longrightarrow> seg_of ls2 d \<inter> seg_of ls2 d' = {})" by (intro Cons.IH) simp_all
  then obtain ls2 e2 where s2: "fold (flatten_list l) ds (Some (ls1, ec1, e1)) = Some (ls2, ?ec, e2)"
      "\<forall>d\<in>set ds. flat_ok es ls2 e2 ?ec ec1 d" "\<forall>d. d \<notin> set ds \<longrightarrow> ls2 d = ls1 d" "\<forall>k\<ge>ec1. e2 k = e1 k"
      "\<forall>d\<in>set ds. \<forall>d'\<in>set ds. d \<noteq> d' \<longrightarrow> seg_of ls2 d \<inter> seg_of ls2 d' = {}"
    by blast
  have le: "ec1 \<le> ec" "?ec \<le> ec1" by (simp_all add: ec1_def)
  have d2: "ls2 d = ls1 d" using s2(3) Cons.prems(1) by simp
  have fd: "flat_ok es ls2 e2 ec1 ec d"
    by (rule flat_ok_mono [where ls = ls1 and e = e1 and lo = ec1 and hi = ec]) (use s1(2) d2 s2(4) in \<open>auto simp: ec1_def\<close>)
  have "flat_ok es ls2 e2 ?ec ec d'" if "d' \<in> set (d # ds)" for d'
  proof (cases "d' = d")
    case True
    then show ?thesis using flat_ok_mono [where ls = ls2 and ls' = ls2 and e = e2 and e' = e2 and lo = ec1 and hi = ec and lo' = ?ec and hi' = ec and d = d] fd le by simp
  next
    case False
    then show ?thesis using that s2(2) le(1)
      flat_ok_mono [where ls = ls2 and ls' = ls2 and e = e2 and e' = e2 and lo = ?ec and hi = ec1 and lo' = ?ec and hi' = ec and d = d'] by simp
  qed
  moreover have "seg_of ls2 d \<inter> seg_of ls2 d' = {}" if "d' \<in> set ds" for d'
    using flat_ok_seg [OF fd] flat_ok_seg [of es ls2 e2 ?ec ec1 d'] s2(2) that by fastforce
  moreover have "ec - int (\<Sum>d\<leftarrow>d # ds. length (users es d)) = ?ec" by (simp add: ec1_def)
  moreover have "fold (flatten_list l) (d # ds) (Some (ls, ec, e)) = Some (ls2, ?ec, e2)" using s1(1) s2(1) by (simp add: ec1_def)
  moreover have "\<forall>k\<ge>ec. e2 k = e k" using s2(4) s1(4) le(1) by auto
  moreover have "\<forall>d'. d' \<notin> set (d # ds) \<longrightarrow> ls2 d' = ls d'" using s2(3) s1(3) by auto
  moreover have "\<forall>d1\<in>set (d # ds). \<forall>d2\<in>set (d # ds). d1 \<noteq> d2 \<longrightarrow> seg_of ls2 d1 \<inter> seg_of ls2 d2 = {}"
    using calculation(2) s2(5) by (auto simp: Int_commute)
  ultimately show ?case by metis
qed simp

text \<open>The edges are counted by definition and by user.\<close>

lemma sum_users:
  assumes "\<forall>e\<in>set es. snd e < cnt"
  shows "(\<Sum>d\<leftarrow>rev [1..cnt - 1]. length (users es d)) = length (filter (\<lambda>e. 0 < snd e) es)"
  using assms
proof (induction es)
  case (Cons e es)
  have "(\<Sum>d\<leftarrow>rev [1..cnt - 1]. length (users (e # es) d)) =
      (\<Sum>d\<leftarrow>rev [1..cnt - 1]. of_bool (d = snd e)) + (\<Sum>d\<leftarrow>rev [1..cnt - 1]. length (users es d))"
    unfolding sum_list_addf [symmetric] by (intro arg_cong [where f = sum_list] map_cong) (auto simp: users_def)
  also have "(\<Sum>d\<leftarrow>rev [1..cnt - 1]. of_bool (d = snd e) :: nat) = (\<Sum>d\<in>{1..cnt - 1}. of_bool (d = snd e))"
    by (subst sum_list_distinct_conv_sum_set) simp_all
  also have "\<dots> = of_bool (0 < snd e)" using Cons.prems by (auto simp: sum.delta')
  finally show ?case using Cons by auto
qed (simp add: users_def)

lemma users_count:
  "distinct rs \<Longrightarrow> count_list (users (edge_list base rs) d) r = (if r \<in> set rs then count_list (insn_ops base r) d else 0)"
proof (induction rs)
  case (Cons a rs)
  have "users (edge_list base (a # rs)) d = replicate (count_list (insn_ops base a) d) a @ users (edge_list base rs) d"
  proof -
    have "map fst (filter (\<lambda>e. snd e = d) (map (Pair a) xs)) = replicate (count_list xs d) a" for xs by (induction xs) auto
    then show ?thesis by (simp add: users_def edge_list_def)
  qed
  moreover have "count_list (replicate n a) r = (if r = a then n else 0)" for n by (induction n) auto
  ultimately show ?case using Cons by auto
qed (simp add: users_def edge_list_def)


lemma insn_list_distinct: "distinct (insn_list cnt base i)"
proof (induction cnt base i rule: insn_list.induct)
  case (1 cnt base i)
  have "i \<notin> set (insn_list cnt base (i + int (ir_insn_len (base i))))"
    using insn_list_ge [of i cnt base "i + int (ir_insn_len (base i))"] by (auto simp: ir_insn_len_def ir_insn_inputs_to_len_def)
  then show ?case using 1 by (simp add: insn_list.simps [of cnt base i])
qed

lemma insn_list_cong_on:
  "(\<And>r. r \<in> set (insn_list cnt base i) \<Longrightarrow> i_n (base' r) = i_n (base r)) \<Longrightarrow> insn_list cnt base' i = insn_list cnt base i"
proof (induction cnt base i rule: insn_list.induct)
  case (1 cnt base i)
  show ?case
  proof (cases "i < cnt")
    case True
    let ?i = "i + int (ir_insn_len (base i))"
    have l: "insn_list cnt base i = i # insn_list cnt base ?i" using True by (simp add: insn_list.simps [of cnt base i])
    have "i_n (base' i) = i_n (base i)" "insn_list cnt base' ?i = insn_list cnt base ?i" using 1 True l by auto
    then show ?thesis using True l by (simp add: insn_list.simps [of cnt base' i] ir_insn_len_def)
  qed (simp add: insn_list.simps [of cnt _ i])
qed

definition ctx_edges :: "ir_ctx \<Rightarrow> (ir_ref \<times> ir_ref) list" where
  "ctx_edges ctx = edge_list (with_inputs (ir_base ctx)) (insn_list (insns_count ctx) (with_inputs (ir_base ctx)) (IR_UNUSED + 1))"

lemma build_ok:
  assumes low: "\<forall>e\<in>set (ctx_edges ctx). snd e < insns_count ctx" and few: "length (filter (\<lambda>e. 0 < snd e) (ctx_edges ctx)) \<le> 0x7fffffff"
  shows "\<exists>ctx'. ir_build_def_use_lists mem ctx = Some ctx' \<and> def_use_ok ctx' \<and> (\<forall>d>0. uses ctx' d = users (ctx_edges ctx) d) \<and>
    insns ctx' = insn_list (insns_count ctx) (with_inputs (ir_base ctx)) (IR_UNUSED + 1) \<and>
    (\<forall>r\<in>set (insns ctx'). insn_ops (ir_base ctx') r = insn_ops (with_inputs (ir_base ctx)) r)"
proof -
  let ?cnt = "insns_count ctx" and ?wi = "with_inputs (ir_base ctx)"
  define L where "L = insn_list ?cnt ?wi (IR_UNUSED + 1)"
  define es where "es = ctx_edges ctx"
  define st0 where "st0 = \<lparr>us_lists = \<lambda>_. \<lparr>ul_refs = 0, ul_count = 0\<rparr>, us_linked = [], us_count = 0\<rparr>"
  define st where "st = fold (\<lambda>(u, d). link_use u d) es st0"
  define base where "base = (\<lambda>r. if r \<in> set L then ?wi r else ir_base ctx r)"
  have run: "link_uses ?cnt (ir_base ctx) (IR_UNUSED + 1) st0 = (base, st)"
    unfolding link_uses_eq by (simp add: base_def L_def st_def es_def ctx_edges_def)
  have es_L: "es = edge_list ?wi L" by (simp add: es_def ctx_edges_def L_def)
  have pos: "\<forall>e\<in>set es. 0 < fst e" unfolding es_L edge_list_def using insn_list_ge [of _ ?cnt ?wi "IR_UNUSED + 1"] by (fastforce simp: L_def)
  have "links_ok [] st0" by (simp add: links_ok_def st0_def users_def)
  from links_fold [OF this pos] have links: "links_ok es st" by (simp add: st_def)
  define ds where "ds = rev [1..?cnt - 1]"
  have "\<forall>d\<in>set ds. ul_count (us_lists st d) = int (length (users es d)) \<and>
      (if users es d = [] then ul_refs (us_lists st d) = 0 else chain (us_linked st) (ul_refs (us_lists st d)) (rev (users es d)))"
    using links by (auto simp: links_ok_def ds_def)
  moreover have "distinct ds" by (simp add: ds_def)
  ultimately obtain ls e where
      f: "fold (flatten_list (us_linked st)) ds (Some (us_lists st, int (us_count st), mem)) = Some (ls, int (us_count st) - int (\<Sum>d\<leftarrow>ds. length (users es d)), e)"
      and fl: "\<forall>d\<in>set ds. flat_ok es ls e (int (us_count st) - int (\<Sum>d\<leftarrow>ds. length (users es d))) (int (us_count st)) d"
      and rest: "\<forall>d. d \<notin> set ds \<longrightarrow> ls d = us_lists st d"
      and apart: "\<forall>d\<in>set ds. \<forall>d'\<in>set ds. d \<noteq> d' \<longrightarrow> seg_of ls d \<inter> seg_of ls d' = {}"
    using flatten_all [of ds "us_lists st" es "us_linked st" "int (us_count st)" mem] by blast
  have cnt: "us_count st = length (filter (\<lambda>e. 0 < snd e) es)" using links by (simp add: links_ok_def)
  have zero: "int (us_count st) - int (\<Sum>d\<leftarrow>ds. length (users es d)) = 0" using sum_users [of es ?cnt] low unfolding ds_def cnt es_def by simp
  define ctx' where "ctx' = ctx\<lparr>ir_base := base, use_edges_count := int (us_count st), use_edges := e, use_lists := Some ls\<rparr>"
  have built: "ir_build_def_use_lists mem ctx = Some ctx'"
    using few f run by (simp add: ir_build_def_use_lists_def st0_def [symmetric] ds_def [symmetric] cnt es_def [symmetric] ctx'_def)
  have ok: "flat_ok es ls e 0 (int (us_count st)) d" if d: "0 < d" for d
  proof (cases "d \<in> set ds")
    case False
    then have "users es d = []" using low d by (force simp: users_def ds_def es_def filter_empty_conv)
    then show ?thesis using rest False links d by (simp add: flat_ok_def links_ok_def)
  qed (use fl zero in simp)
  have ul: "use_list ctx' = ls" by (simp add: use_list_def ctx'_def fun_eq_iff)
  have ed: "use_edges ctx' = e" and uec: "use_edges_count ctx' = int (us_count st)" by (simp_all add: ctx'_def)
  have us: "uses ctx' d = users es d" if d: "0 < d" for d
    using ok [OF d] by (cases "users es d = []") (auto simp: uses_def ul ed flat_ok_def)
  have own: "owned ctx' = seg_of ls" by (simp add: owned_def seg_of_def ul fun_eq_iff)
  have base_n: "i_n (base r) = i_n (?wi r)" if "r \<in> set L" for r using that by (simp add: base_def)
  have il: "insns ctx' = L" unfolding insns_def L_def by (simp add: ctx'_def) (rule insn_list_cong_on, rule base_n, simp add: L_def)
  have "ir_insn_op base = ir_insn_op ?wi" by (auto simp: fun_eq_iff ir_insn_op_def base_def with_inputs_def slot_get_def)
  then have ops: "insn_ops base r = insn_ops ?wi r" if "r \<in> set L" for r using base_n [OF that] by (simp add: insn_ops_def)
  have "uses_ok ctx'"
    unfolding uses_ok_def
  proof (intro conjI allI impI ballI)
    fix r :: ir_ref assume r: "0 < r"
    show "0 \<le> ul_refs (use_list ctx' r)" "0 \<le> ul_count (use_list ctx' r)"
      "ul_refs (use_list ctx' r) + ul_count (use_list ctx' r) \<le> use_edges_count ctx'"
      using ok [OF r] unfolding ul uec by (auto simp: flat_ok_def split: if_splits)
    fix k assume "k \<in> owned ctx' r"
    then have "use_edges ctx' k \<in> set (uses ctx' r)" by (auto simp: uses_def set_seg owned_def)
    then show "use_edges ctx' k \<noteq> IR_UNUSED" using us [OF r] pos by (auto simp: users_def)
  next
    fix r r' :: ir_ref assume r: "0 < r" "0 < r'" "r \<noteq> r'"
    have "seg_of ls d = {}" if "0 < d" "d \<notin> set ds" for d
    proof -
      have "users es d = []" using low that by (force simp: users_def ds_def es_def filter_empty_conv)
      then show ?thesis using ok [OF that(1)] by (simp add: flat_ok_def seg_of_def)
    qed
    then show "owned ctx' r \<inter> owned ctx' r' = {}" using apart r unfolding own by blast
  qed (simp add: ctx'_def)
  moreover have "count_list (uses ctx' d) r = use_count ctx' r d" if d: "0 < d" for d r
  proof -
    have "count_list (users es d) r = (if r \<in> set L then count_list (insn_ops ?wi r) d else 0)"
      unfolding es_L by (rule users_count) (simp add: L_def insn_list_distinct)
    then show ?thesis using us [OF d] il ops by (simp add: use_count_def) (simp add: ctx'_def)
  qed
  ultimately have "def_use_ok ctx'" by (simp add: def_use_ok_def)
  moreover have "ir_base ctx' = base" by (simp add: ctx'_def)
  ultimately show ?thesis using built us il ops by (simp add: es_def L_def)
qed


section \<open>Properties\<close>

text \<open>C4: Building the def-use lists always ends and yields, for every definition, the instructions that use it,
  once per operand and in program order; the lists lie apart from each other in one array and hold no unused entry.\<close>

theorem build_def_use_lists:
  assumes "\<forall>e\<in>set (ctx_edges ctx). snd e < insns_count ctx" "length (ctx_edges ctx) \<le> 0x7fffffff"
  shows "\<exists>ctx'. ir_build_def_use_lists mem ctx = Some ctx' \<and> def_use_ok ctx' \<and> (\<forall>d>0. uses ctx' d = users (ctx_edges ctx) d)"
proof -
  have "length (filter (\<lambda>e. 0 < snd e) (ctx_edges ctx)) \<le> 0x7fffffff" using assms(2) length_filter_le le_trans by blast
  from build_ok [OF assms(1) this, of mem] show ?thesis by blast
qed

text \<open>A small context for the examples: two additions of definitions without inputs.\<close>

definition demo_insn :: "ir_op \<Rightarrow> nat \<Rightarrow> ir_ref \<Rightarrow> ir_ref \<Rightarrow> ir_insn" where
  "demo_insn op n a b = \<lparr>i_op = op, i_type = IR_I32, i_n = n, i_op1 = a, i_op2 = b, i_op3 = 0, i_val = 0, i_ops0 = 0\<rparr>"

definition demo_use_ctx :: ir_ctx where
  "demo_use_ctx = (ir_init (\<lambda>_. MAKE_NOP) 0 256 256)\<lparr>insns_count := 6,
     ir_base := (\<lambda>_. demo_insn IR_NOP 0 0 0)(4 := demo_insn IR_ADD 2 2 3, 5 := demo_insn IR_ADD 2 4 4)\<rparr>"

lemma nth_26: "(a0 # a1 # a2 # a3 # a4 # a5 # a6 # a7 # a8 # a9 # a10 # a11 # a12 # a13 # a14 # a15 # a16 # a17 # a18 # a19 # a20 # a21 # a22 # a23 # a24 # a25 # a26 # xs) ! 26 = a26"
  by simp

lemma add_row: "ir_ops ! IR_ADD = (''ADD'', IR_OP_FLAGS ir_op_flag_d2C IR_OPND_DATA IR_OPND_DATA IR_OPND_UNUSED)"
  unfolding ir_ops_def by (rule nth_26)

lemma nop_row: "ir_ops ! IR_NOP = (''NOP'', IR_OP_FLAGS ir_op_flag_v IR_OPND_UNUSED IR_OPND_UNUSED IR_OPND_UNUSED)"
  unfolding ir_ops_def by (rule nth_Cons_0)

lemma demo_inputs: "ir_input_edges_count (demo_insn IR_ADD n a b) = 2" "ir_input_edges_count (demo_insn IR_NOP n a b) = 0"
proof -
  have "ir_op_flags IR_ADD = IR_OP_FLAGS ir_op_flag_d2C IR_OPND_DATA IR_OPND_DATA IR_OPND_UNUSED"
    "ir_op_flags IR_NOP = IR_OP_FLAGS ir_op_flag_v IR_OPND_UNUSED IR_OPND_UNUSED IR_OPND_UNUSED"
    by (simp_all only: ir_op_flags_def length_ir_ops add_row nop_row snd_conv) simp_all
  then show "ir_input_edges_count (demo_insn IR_ADD n a b) = 2" "ir_input_edges_count (demo_insn IR_NOP n a b) = 0"
    by (simp_all add: demo_insn_def ir_input_edges_count_def IR_INPUT_EDGES_COUNT_def IR_OP_HAS_VAR_INPUTS_def IR_OP_FLAGS_def op_flag_def)
qed

lemma demo_base: "with_inputs (ir_base demo_use_ctx) = ir_base demo_use_ctx"
proof -
  have "(demo_insn op n a b)\<lparr>i_n := m\<rparr> = demo_insn op m a b" for op n a b m by (simp add: demo_insn_def)
  then show ?thesis by (simp add: with_inputs_def demo_use_ctx_def demo_inputs fun_eq_iff)
qed

lemma demo_list: "insn_list (insns_count demo_use_ctx) (ir_base demo_use_ctx) (IR_UNUSED + 1) = [1, 2, 3, 4, 5]"
  by (simp add: demo_use_ctx_def insn_list.simps demo_insn_def ir_insn_len_def ir_insn_inputs_to_len_def)

lemma demo_ops: "insn_ops (ir_base demo_use_ctx) 4 = [2, 3]" "insn_ops (ir_base demo_use_ctx) 5 = [4, 4]"
    "r < 4 \<Longrightarrow> insn_ops (ir_base demo_use_ctx) r = []"
  by (simp_all add: insn_ops_def demo_use_ctx_def demo_insn_def ir_insn_op_def slot_get_def upt_rec)

lemma demo_edges: "ctx_edges demo_use_ctx = [(4, 2), (4, 3), (5, 4), (5, 4)]"
  unfolding ctx_edges_def demo_base demo_list by (simp add: edge_list_def demo_ops)

theorem build_def_use_lists_witness:
  "\<exists>ctx'. ir_build_def_use_lists (\<lambda>_. 0) demo_use_ctx = Some ctx' \<and> def_use_ok ctx' \<and> (\<forall>d>0. uses ctx' d = users (ctx_edges demo_use_ctx) d)"
  by (rule build_def_use_lists) (simp_all add: demo_edges, simp_all add: demo_use_ctx_def)

text \<open>C5: Changing one operand with \<open>ir_update_op\<close> changes exactly this operand and keeps all def-use lists in
  agreement with the operands.\<close>

theorem update_op:
  assumes "def_use_ok ctx" "ref \<in> set (insns ctx)" "1 \<le> idx" "idx \<le> i_n (ir_base ctx ref)" "new_val \<noteq> ir_insn_op (ir_base ctx) ref idx"
  shows "\<exists>ctx'. ir_update_op ctx ref idx new_val = Some ctx' \<and> def_use_ok ctx' \<and> insns ctx' = insns ctx \<and>
    insn_ops (ir_base ctx') ref = (insn_ops (ir_base ctx) ref)[idx - 1 := new_val] \<and>
    (\<forall>r'\<in>set (insns ctx). r' \<noteq> ref \<longrightarrow> insn_ops (ir_base ctx') r' = insn_ops (ir_base ctx) r')"
  using assms by (rule update_op_ok)

text \<open>C3: \<open>ir_replace\<close> always ends. Afterwards no instruction uses the old definition: every operand that named it
  names the new one, whether a definition or a constant, all other operands are as before, and the list of every other definition
  agrees with the operands, although lists move while one of them is read.\<close>

theorem replace_all_uses:
  assumes "def_use_ok ctx" "0 < ref" "new_ref \<noteq> ref" "ref \<notin> set (uses ctx ref)"
  shows "\<exists>ctx'. ir_replace ctx ref new_ref = Some ctx' \<and> insns ctx' = insns ctx \<and>
    (\<forall>r\<in>set (insns ctx). insn_ops (ir_base ctx') r = map (\<lambda>x. if x = ref then new_ref else x) (insn_ops (ir_base ctx) r)) \<and>
    (\<forall>d>0. d \<noteq> ref \<longrightarrow> (\<forall>r. count_list (uses ctx' d) r = use_count ctx' r d))"
  using replace_ok [OF assms] by blast

definition demo_built :: ir_ctx where
  "demo_built = the (ir_build_def_use_lists (\<lambda>_. 0) demo_use_ctx)"

lemma demo_built:
  "def_use_ok demo_built" "uses demo_built 2 = [4]" "insns demo_built = [1, 2, 3, 4, 5]" "insn_ops (ir_base demo_built) 4 = [2, 3]"
proof -
  have low: "\<forall>e\<in>set (ctx_edges demo_use_ctx). snd e < insns_count demo_use_ctx" by (simp add: demo_edges) (simp add: demo_use_ctx_def)
  have few: "length (filter (\<lambda>e. 0 < snd e) (ctx_edges demo_use_ctx)) \<le> 0x7fffffff" by (simp add: demo_edges)
  obtain c where c: "ir_build_def_use_lists (\<lambda>_. 0) demo_use_ctx = Some c" "def_use_ok c" "\<forall>d>0. uses c d = users (ctx_edges demo_use_ctx) d"
    "insns c = insn_list (insns_count demo_use_ctx) (with_inputs (ir_base demo_use_ctx)) (IR_UNUSED + 1)"
    "\<forall>r\<in>set (insns c). insn_ops (ir_base c) r = insn_ops (with_inputs (ir_base demo_use_ctx)) r"
    using build_ok [OF low few, of "\<lambda>_. 0"] by blast
  then show "def_use_ok demo_built" "uses demo_built 2 = [4]" "insns demo_built = [1, 2, 3, 4, 5]" "insn_ops (ir_base demo_built) 4 = [2, 3]"
    unfolding demo_base demo_list by (simp_all add: demo_built_def demo_edges users_def demo_ops)
qed

lemma demo_built_op: "1 \<le> i_n (ir_base demo_built 4)" "ir_insn_op (ir_base demo_built) 4 1 = 2"
proof -
  show n: "1 \<le> i_n (ir_base demo_built 4)" using arg_cong [OF demo_built(4), of length] by simp
  show "ir_insn_op (ir_base demo_built) 4 1 = 2" using arg_cong [OF demo_built(4), of "\<lambda>xs. xs ! 0"] n by simp
qed

theorem update_op_witness:
  "\<exists>ctx'. ir_update_op demo_built 4 1 3 = Some ctx' \<and> def_use_ok ctx' \<and> insns ctx' = insns demo_built \<and>
    insn_ops (ir_base ctx') 4 = (insn_ops (ir_base demo_built) 4)[1 - 1 := 3] \<and>
    (\<forall>r'\<in>set (insns demo_built). r' \<noteq> 4 \<longrightarrow> insn_ops (ir_base ctx') r' = insn_ops (ir_base demo_built) r')"
  by (rule update_op) (use demo_built demo_built_op in simp_all)

theorem replace_all_uses_witness:
  "\<exists>ctx'. ir_replace demo_built 2 3 = Some ctx' \<and> insns ctx' = insns demo_built \<and>
    (\<forall>r\<in>set (insns demo_built). insn_ops (ir_base ctx') r = map (\<lambda>x. if x = 2 then 3 else x) (insn_ops (ir_base demo_built) r)) \<and>
    (\<forall>d>0. d \<noteq> 2 \<longrightarrow> (\<forall>r. count_list (uses ctx' d) r = use_count ctx' r d))"
  by (rule replace_all_uses) (use demo_built in simp_all)

end
