(* ===== verification/Parallel_Copy.thy ===== *)
theory Parallel_Copy
  imports Bits IR_Types
begin

text \<open>
  Sets of registers (ir_private.h) and the sequentialisation of parallel copies between registers (ir_emit.c).
  The target is x86-64: 32 registers, and integer registers may be exchanged. Instructions
  are emitted through functions of the code generator; here they are collected in a list.
\<close>

section \<open>Register sets\<close>

type_synonym ir_regset = u32
type_synonym ir_reg = nat

definition IR_REGSET :: "ir_reg \<Rightarrow> ir_regset" where
  "IR_REGSET reg = push_bit reg 1"

definition IR_REGSET_IS_SINGLETON :: "ir_regset \<Rightarrow> bool" where
  "IR_REGSET_IS_SINGLETON regset \<longleftrightarrow> regset \<noteq> 0 \<and> regset AND (regset - 1) = 0"

definition IR_REGSET_INTERVAL :: "ir_reg \<Rightarrow> ir_reg \<Rightarrow> ir_regset" where
  "IR_REGSET_INTERVAL reg1 reg2 = push_bit reg1 (push_bit (reg2 - reg1 + 1) 1 - 1)"

definition IR_REGSET_IN :: "ir_regset \<Rightarrow> ir_reg \<Rightarrow> bool" where
  "IR_REGSET_IN regset reg \<longleftrightarrow> regset AND IR_REGSET reg \<noteq> 0"

definition IR_REGSET_INCL :: "ir_regset \<Rightarrow> ir_reg \<Rightarrow> ir_regset" where
  "IR_REGSET_INCL regset reg = regset OR IR_REGSET reg"

definition IR_REGSET_EXCL :: "ir_regset \<Rightarrow> ir_reg \<Rightarrow> ir_regset" where
  "IR_REGSET_EXCL regset reg = regset AND NOT (IR_REGSET reg)"

definition IR_REGSET_UNION :: "ir_regset \<Rightarrow> ir_regset \<Rightarrow> ir_regset" where
  "IR_REGSET_UNION set1 set2 = set1 OR set2"

definition IR_REGSET_INTERSECTION :: "ir_regset \<Rightarrow> ir_regset \<Rightarrow> ir_regset" where
  "IR_REGSET_INTERSECTION set1 set2 = set1 AND set2"

definition IR_REGSET_DIFFERENCE :: "ir_regset \<Rightarrow> ir_regset \<Rightarrow> ir_regset" where
  "IR_REGSET_DIFFERENCE set1 set2 = set1 AND NOT set2"

definition ir_regset_pop_first :: "ir_regset \<Rightarrow> ir_regset \<times> ir_reg" where
  "ir_regset_pop_first rs = (rs AND (rs - 1), case ir_ntz rs of None \<Rightarrow> 32 | Some k \<Rightarrow> k)"

definition regs :: "ir_regset \<Rightarrow> ir_reg set" where
  "regs w = {r. bit w r}"

lemma regs_bound: "r \<in> regs w \<Longrightarrow> r < 32"
  using bit_imp_le_length [of w r] by (simp add: regs_def)

lemma finite_regs [simp]: "finite (regs w)"
  by (rule finite_subset [of _ "{..<32}"]) (auto dest: regs_bound)

lemma regs_empty: "regs w = {} \<longleftrightarrow> w = 0"
  by (auto simp: regs_def intro: bit_eqI)

lemma regs_eq: "regs v = regs w \<longleftrightarrow> v = w"
  by (auto simp: regs_def intro: bit_eqI)

lemma bit_regset: "bit (IR_REGSET reg) i \<longleftrightarrow> i = reg \<and> reg < 32"
proof -
  have "IR_REGSET reg = 2 ^ reg" by (simp add: IR_REGSET_def push_bit_eq_mult)
  then show ?thesis by (simp only:) (auto simp: bit_exp_iff possible_bit_def)
qed

lemma regs_in [simp]: "IR_REGSET_IN w r \<longleftrightarrow> r \<in> regs w"
proof -
  have "IR_REGSET_IN w r \<longleftrightarrow> (\<exists>i. bit (w AND IR_REGSET r) i)" unfolding IR_REGSET_IN_def regs_empty [symmetric] by (auto simp: regs_def)
  also have "\<dots> \<longleftrightarrow> bit w r" using bit_imp_le_length [of w r] by (auto simp: bit_and_iff bit_regset)
  finally show ?thesis by (simp add: regs_def)
qed

lemma regs_incl: "r < 32 \<Longrightarrow> regs (IR_REGSET_INCL w r) = insert r (regs w)"
  by (auto simp: regs_def IR_REGSET_INCL_def bit_or_iff bit_regset)

lemma regs_excl [simp]: "regs (IR_REGSET_EXCL w r) = regs w - {r}"
  by (auto simp: regs_def IR_REGSET_EXCL_def bit_and_iff bit_not_iff bit_regset dest: bit_imp_le_length)

lemma regs_diff [simp]: "regs (IR_REGSET_DIFFERENCE v w) = regs v - regs w"
  by (auto simp: regs_def IR_REGSET_DIFFERENCE_def bit_and_iff bit_not_iff dest: bit_imp_le_length)

lemma regs_zero [simp]: "regs 0 = {}"
  by (simp add: regs_def)

lemma pop_first:
  assumes "w \<noteq> 0" "ir_regset_pop_first w = (w', r)"
  shows "r \<in> regs w" "regs w' = regs w - {r}" "\<forall>s\<in>regs w. r \<le> s"
proof -
  have r: "r = ctz w" "w' = w AND (w - 1)" using assms by (auto simp: ir_regset_pop_first_def ir_ntz_def)
  show "regs w' = regs w - {r}" unfolding r and_minus_one_clears_lowest [OF assms(1)] by (auto simp: regs_def bit_unset_bit_iff)
  show "r \<in> regs w" "\<forall>s\<in>regs w. r \<le> s" unfolding r regs_def using ctz_props(1,2) [OF assms(1)] by (auto simp: not_less [symmetric])
qed

lemma interval_mask: "a \<le> b \<Longrightarrow> b < 32 \<Longrightarrow> bit (IR_REGSET_INTERVAL a b) i \<longleftrightarrow> a \<le> i \<and> i \<le> b"
proof -
  assume ab: "a \<le> b" "b < 32"
  have "push_bit (b - a + 1) 1 - 1 = (Bit_Operations.mask (b - a + 1) :: ir_regset)" by (simp add: mask_eq_exp_minus_1 push_bit_eq_mult)
  then show ?thesis using ab by (auto simp: IR_REGSET_INTERVAL_def bit_push_bit_iff bit_mask_iff possible_bit_def)
qed

lemma singleton_word: "w \<noteq> 0 \<Longrightarrow> w AND (w - 1) = 0 \<longleftrightarrow> (\<exists>r. regs w = {r})"
proof -
  assume w: "w \<noteq> (0 :: ir_regset)"
  obtain w' r where p: "ir_regset_pop_first w = (w', r)" by fastforce
  have e: "w' = w AND (w - 1)" using p by (simp add: ir_regset_pop_first_def)
  show ?thesis using pop_first [OF w p] unfolding e [symmetric] regs_empty [symmetric] by auto
qed

section \<open>Parallel copies\<close>

datatype emit =
    E_mov ir_type ir_reg ir_reg
  | E_mov_ext ir_type ir_reg ir_reg
  | E_fp_mov ir_type ir_reg ir_reg
  | E_swap ir_type ir_reg ir_reg

text \<open>A move copies the value of a register, an exchange exchanges two.\<close>

fun exec_emit :: "emit \<Rightarrow> (ir_reg \<Rightarrow> 'v) \<Rightarrow> ir_reg \<Rightarrow> 'v" where
  "exec_emit (E_mov _ dst src) rs = rs(dst := rs src)"
| "exec_emit (E_mov_ext _ dst src) rs = rs(dst := rs src)"
| "exec_emit (E_fp_mov _ dst src) rs = rs(dst := rs src)"
| "exec_emit (E_swap _ dst src) rs = rs(dst := rs src, src := rs dst)"

definition exec_code :: "emit list \<Rightarrow> (ir_reg \<Rightarrow> 'v) \<Rightarrow> ir_reg \<Rightarrow> 'v" where
  "exec_code code rs = fold exec_emit code rs"

record ir_copy =
  cp_type :: ir_type
  cp_from :: ir_reg
  cp_to :: ir_reg

record pc_state =
  pc_loc :: "ir_reg \<Rightarrow> ir_reg"
  pc_todo :: ir_regset
  pc_ready :: ir_regset
  pc_code :: "emit list"

record pc_tab =
  pt_pred :: "ir_reg \<Rightarrow> ir_reg"
  pt_types :: "ir_reg \<Rightarrow> ir_type"
  pt_srcs :: ir_regset

definition emit_copy :: "ir_type \<Rightarrow> ir_reg \<Rightarrow> ir_reg \<Rightarrow> emit" where
  "emit_copy type to from = (if IR_IS_TYPE_INT type then E_mov type to from else E_fp_mov type to from)"

definition emit_copy_ext :: "ir_type \<Rightarrow> ir_reg \<Rightarrow> ir_reg \<Rightarrow> emit" where
  "emit_copy_ext type to from = (if IR_IS_TYPE_INT type then E_mov_ext type to from else E_fp_mov type to from)"

text \<open>Reading the copies; \<open>None\<close> is a violated assertion.\<close>

definition pc_collect :: "ir_copy \<Rightarrow> (pc_tab \<times> pc_state) option \<Rightarrow> (pc_tab \<times> pc_state) option" where
  "pc_collect c r = Option.bind r (\<lambda>(tab, st).
     let from = cp_from c; to = cp_to c in
     if from = to \<or> IR_REGSET_IN (pc_todo st) to then None
     else Some (\<lparr>pt_pred = (pt_pred tab)(to := from), pt_types = (pt_types tab)(from := cp_type c), pt_srcs = IR_REGSET_INCL (pt_srcs tab) from\<rparr>,
       st\<lparr>pc_loc := (pc_loc st)(from := from), pc_todo := IR_REGSET_INCL (pc_todo st) to\<rparr>))"

text \<open>One move out of a tree or along a cycle: the value of \<open>from\<close> is then found in \<open>to\<close>.\<close>

definition pc_move :: "pc_tab \<Rightarrow> ir_reg \<Rightarrow> pc_state \<Rightarrow> pc_state" where
  "pc_move tab to st =
     (let from = pt_pred tab to; r = pc_loc st from in
      st\<lparr>pc_code := pc_code st @ [emit_copy_ext (pt_types tab from) to r], pc_todo := IR_REGSET_EXCL (pc_todo st) to,
         pc_loc := (pc_loc st)(from := to)\<rparr>)"

partial_function (option) pc_trees :: "pc_tab \<Rightarrow> pc_state \<Rightarrow> pc_state option" where
  [code]: "pc_trees tab st =
     (if pc_ready st \<noteq> 0 then
        let (ready, to) = ir_regset_pop_first (pc_ready st); from = pt_pred tab to; r = pc_loc st from;
            st = pc_move tab to (st\<lparr>pc_ready := ready\<rparr>)
        in pc_trees tab (if from = r \<and> IR_REGSET_IN (pc_todo st) from then st\<lparr>pc_ready := IR_REGSET_INCL (pc_ready st) from\<rparr> else st)
      else Some st)"

partial_function (option) pc_cycle :: "pc_tab \<Rightarrow> ir_reg \<Rightarrow> pc_state \<Rightarrow> pc_state option" where
  [code]: "pc_cycle tab to st =
     (let from = pt_pred tab to; r = pc_loc st from; st = pc_move tab to st
      in if from = r \<and> IR_REGSET_IN (pc_todo st) from then pc_cycle tab from st else Some st)"

definition is_gp :: "ir_reg \<Rightarrow> bool" where "is_gp r \<longleftrightarrow> r < 16"
definition is_fp :: "ir_reg \<Rightarrow> bool" where "is_fp r \<longleftrightarrow> 16 \<le> r \<and> r < 32"

partial_function (option) pc_cycles :: "ir_reg option \<Rightarrow> ir_reg option \<Rightarrow> pc_tab \<Rightarrow> pc_state \<Rightarrow> pc_state option" where
  [code]: "pc_cycles tmp_reg tmp_fp_reg tab st =
     (if pc_todo st \<noteq> 0 then
        let (todo, to) = ir_regset_pop_first (pc_todo st); st = st\<lparr>pc_todo := todo\<rparr>; from = pt_pred tab to; type = pt_types tab from in
        if to = pc_loc st from then None
        else if IR_IS_TYPE_INT type \<and> pt_pred tab from = to then
          let type = (if ir_type_size (pt_types tab to) > ir_type_size type then pt_types tab to else type)
          in pc_cycles tmp_reg tmp_fp_reg tab
               (st\<lparr>pc_code := pc_code st @ [E_swap type to from], pc_todo := IR_REGSET_EXCL todo from, pc_loc := (pc_loc st)(to := from, from := to)\<rparr>)
        else
          case (if IR_IS_TYPE_INT type then tmp_reg else tmp_fp_reg) of
            None \<Rightarrow> None
          | Some tmp \<Rightarrow>
              if (if IR_IS_TYPE_INT type then is_gp tmp else is_fp tmp) then
                Option.bind (pc_cycle tab to (st\<lparr>pc_code := pc_code st @ [emit_copy type tmp to], pc_loc := (pc_loc st)(to := tmp)\<rparr>))
                  (pc_cycles tmp_reg tmp_fp_reg tab)
              else None
      else Some st)"

text \<open>The temporaries are no destinations, and one that is a source has been copied before it is used.\<close>

definition tmp_free :: "pc_state \<Rightarrow> ir_reg option \<Rightarrow> bool" where
  "tmp_free st tmp \<longleftrightarrow> (case tmp of None \<Rightarrow> True | Some t \<Rightarrow> \<not> IR_REGSET_IN (pc_todo st) t)"

definition tmp_moved :: "pc_tab \<Rightarrow> pc_state \<Rightarrow> ir_reg option \<Rightarrow> bool" where
  "tmp_moved tab st tmp \<longleftrightarrow> (case tmp of None \<Rightarrow> True | Some t \<Rightarrow> IR_REGSET_IN (pt_srcs tab) t \<longrightarrow> pt_pred tab (pc_loc st t) = t)"

definition ir_parallel_copy ::
  "(ir_reg \<Rightarrow> ir_reg) \<Rightarrow> (ir_reg \<Rightarrow> ir_type) \<Rightarrow> ir_copy list \<Rightarrow> ir_reg option \<Rightarrow> ir_reg option \<Rightarrow> emit list option" where
  "ir_parallel_copy mem tmem copies tmp_reg tmp_fp_reg =
     (let plain = map (\<lambda>c. emit_copy (cp_type c) (cp_to c) (cp_from c)) copies in
      if length copies = 1 then (if cp_from (hd copies) = cp_to (hd copies) then None else Some plain)
      else
        Option.bind (fold pc_collect copies (Some (\<lparr>pt_pred = mem, pt_types = tmem, pt_srcs = 0\<rparr>,
            \<lparr>pc_loc = mem, pc_todo = 0, pc_ready = 0, pc_code = []\<rparr>))) (\<lambda>(tab, st).
          let ready = IR_REGSET_DIFFERENCE (pc_todo st) (pt_srcs tab) in
          if ready = pc_todo st then Some plain
          else if \<not> tmp_free st tmp_reg \<or> \<not> tmp_free st tmp_fp_reg then None
          else Option.bind (pc_trees tab (st\<lparr>pc_ready := ready\<rparr>)) (\<lambda>st.
            if pc_todo st = 0 then Some (pc_code st)
            else if \<not> tmp_moved tab st tmp_reg \<or> \<not> tmp_moved tab st tmp_fp_reg then None
            else map_option pc_code (pc_cycles tmp_reg tmp_fp_reg tab st))))"


section \<open>What the code does\<close>

lemma exec_snoc [simp]: "exec_code (code @ [e]) rs = exec_emit e (exec_code code rs)"
  by (simp add: exec_code_def)

lemma exec_copy [simp]: "exec_emit (emit_copy ty dst src) rs = rs(dst := rs src)" "exec_emit (emit_copy_ext ty dst src) rs = rs(dst := rs src)"
  by (simp_all add: emit_copy_def emit_copy_ext_def)

text \<open>
  Let \<open>D\<close> be the destinations, \<open>T\<close> those still to be written and \<open>R\<close> those that may be written at once. A value still needed
  is found where \<open>loc\<close> says, finished destinations have their values, and registers outside are untouched.
\<close>

definition trees_ok ::
  "(ir_reg \<Rightarrow> 'v) \<Rightarrow> ir_reg set \<Rightarrow> (ir_reg \<Rightarrow> ir_reg) \<Rightarrow> ir_reg set \<Rightarrow> ir_reg set \<Rightarrow> (ir_reg \<Rightarrow> ir_reg) \<Rightarrow> (ir_reg \<Rightarrow> 'v) \<Rightarrow> bool" where
  "trees_ok rs0 D pred T R loc rs \<longleftrightarrow>
     T \<subseteq> D \<and> R \<subseteq> T \<and>
     (\<forall>c\<in>T. rs (loc (pred c)) = rs0 (pred c)) \<and> (\<forall>d\<in>D - T. rs d = rs0 (pred d)) \<and> (\<forall>r. r \<notin> D \<longrightarrow> rs r = rs0 r) \<and>
     (\<forall>t\<in>T - R. t \<in> pred ` D \<and> loc t = t) \<and> (\<forall>t\<in>R. t \<in> pred ` D \<longrightarrow> loc t \<noteq> t) \<and>
     (\<forall>s\<in>pred ` D. loc s \<noteq> s \<longrightarrow> loc s \<in> D - T \<and> pred (loc s) = s) \<and>
     (\<forall>c\<in>D - T. loc (pred c) \<noteq> pred c)"

definition trees_inv :: "(ir_reg \<Rightarrow> 'v) \<Rightarrow> ir_reg set \<Rightarrow> (ir_reg \<Rightarrow> ir_reg) \<Rightarrow> pc_state \<Rightarrow> bool" where
  "trees_inv rs0 D pred st \<longleftrightarrow> trees_ok rs0 D pred (regs (pc_todo st)) (regs (pc_ready st)) (pc_loc st) (exec_code (pc_code st) rs0)"

lemma trees_ok_move:
  assumes ok: "trees_ok rs0 D pred T R loc rs" and to: "to \<in> R" and D: "\<forall>d\<in>D. pred d \<noteq> d"
    and R': "R' = (if pred to = loc (pred to) \<and> pred to \<in> T then insert (pred to) (R - {to}) else R - {to})"
  shows "trees_ok rs0 D pred (T - {to}) R' (loc(pred to := to)) (rs(to := rs (loc (pred to))))"
proof -
  have I: "T \<subseteq> D" "R \<subseteq> T" "\<And>c. c \<in> T \<Longrightarrow> rs (loc (pred c)) = rs0 (pred c)" "\<And>x. x \<in> D \<Longrightarrow> x \<notin> T \<Longrightarrow> rs x = rs0 (pred x)"
      "\<And>r. r \<notin> D \<Longrightarrow> rs r = rs0 r" "\<And>t. t \<in> T \<Longrightarrow> t \<notin> R \<Longrightarrow> t \<in> pred ` D \<and> loc t = t"
      "\<And>t. t \<in> R \<Longrightarrow> t \<in> pred ` D \<Longrightarrow> loc t \<noteq> t"
      "\<And>c. c \<in> D \<Longrightarrow> c \<notin> T \<Longrightarrow> loc (pred c) \<noteq> pred c"
    using ok by (simp_all add: trees_ok_def)
  have I8: "loc s \<in> D \<and> loc s \<notin> T \<and> pred (loc s) = s" if "s \<in> pred ` D" "loc s \<noteq> s" for s
    using ok that by (auto simp: trees_ok_def)
  have t: "to \<in> T" "to \<in> D" "pred to \<noteq> to" using to I(1,2) D by auto
  have nloc: "loc s \<noteq> to" if "s \<in> pred ` D" for s
  proof (cases "loc s = s")
    case True
    then show ?thesis using I(7) [OF to] that by auto
  next
    case False
    then show ?thesis using I8 [OF that] t(1) by auto
  qed
  let ?loc = "loc(pred to := to)" and ?rs = "rs(to := rs (loc (pred to)))"
  have f1: "?rs (?loc (pred c)) = rs0 (pred c)" if c: "c \<in> T - {to}" for c
  proof (cases "pred c = pred to")
    case True
    then show ?thesis using I(3) [OF t(1)] by simp
  next
    case False
    have "pred c \<in> pred ` D" using c I(1) by auto
    then show ?thesis using False I(3) [of c] c nloc by simp
  qed
  have f2: "?rs x = rs0 (pred x)" if "x \<in> D - (T - {to})" for x
    using that I(3) [OF t(1)] I(4) [of x] by (cases "x = to") auto
  have f3: "?rs r = rs0 r" if "r \<notin> D" for r using that t(2) I(5) [OF that] by auto
  have f4: "x \<in> pred ` D \<and> ?loc x = x" if "x \<in> T - {to} - R'" for x
  proof -
    have x: "x \<in> T" "x \<notin> R" using that R' by (auto split: if_splits)
    have "x \<noteq> pred to" using that I(6) [OF x] R' by (auto split: if_splits)
    then show ?thesis using I(6) [OF x] by simp
  qed
  have f5: "?loc x \<noteq> x" if "x \<in> R'" "x \<in> pred ` D" for x
    using that I(7) [of x] t(3) R' by (cases "x = pred to") (auto split: if_splits)
  have f6: "?loc s \<in> D - (T - {to}) \<and> pred (?loc s) = s" if "s \<in> pred ` D" "?loc s \<noteq> s" for s
    using that I8 [of s] t by (cases "s = pred to") auto
  have f7: "?loc (pred c) \<noteq> pred c" if "c \<in> D - (T - {to})" for c
    using that I(8) [of c] t(3) by (cases "pred c = pred to") auto
  have f8: "T - {to} \<subseteq> D" "R' \<subseteq> T - {to}" using I(1,2) R' t(3) by (auto split: if_splits)
  show ?thesis unfolding trees_ok_def
    by (intro conjI ballI allI impI) (fact f8(1) | fact f8(2) | rule f1 f2 f3 f5 f7, assumption+ | rule f4 [THEN conjunct1] f4 [THEN conjunct2], assumption | rule f6 [THEN conjunct1] f6 [THEN conjunct2], assumption+)+
qed

lemma trees_step:
  assumes inv: "trees_inv rs0 D (pt_pred tab) st" and D: "\<forall>d\<in>D. pt_pred tab d \<noteq> d" "D \<subseteq> {..<32}"
    and rdy: "pc_ready st \<noteq> 0" and pop: "ir_regset_pop_first (pc_ready st) = (ready, to)"
    and st1: "st1 = pc_move tab to (st\<lparr>pc_ready := ready\<rparr>)"
    and st2: "st2 = (if pt_pred tab to = pc_loc st (pt_pred tab to) \<and> IR_REGSET_IN (pc_todo st1) (pt_pred tab to)
      then st1\<lparr>pc_ready := IR_REGSET_INCL (pc_ready st1) (pt_pred tab to)\<rparr> else st1)"
  shows "trees_inv rs0 D (pt_pred tab) st2" "regs (pc_todo st2) = regs (pc_todo st) - {to}" "to \<in> regs (pc_todo st)"
proof -
  let ?f = "pt_pred tab to" and ?T = "regs (pc_todo st)" and ?R = "regs (pc_ready st)"
  have sub: "?T \<subseteq> D" "?R \<subseteq> ?T" using inv by (auto simp: trees_inv_def trees_ok_def)
  note p = pop_first [OF rdy pop]
  have to: "to \<in> ?T" "?f \<noteq> to" using p(1) sub D(1) by auto
  have s1: "regs (pc_todo st1) = ?T - {to}" "pc_loc st1 = (pc_loc st)(?f := to)" "pc_ready st1 = ready"
      "exec_code (pc_code st1) rs0 = (exec_code (pc_code st) rs0)(to := exec_code (pc_code st) rs0 (pc_loc st ?f))"
    by (simp_all add: st1 pc_move_def Let_def)
  define R' where "R' = (if ?f = pc_loc st ?f \<and> ?f \<in> ?T then insert ?f (?R - {to}) else ?R - {to})"
  have f32: "?f < 32" if "?f \<in> ?T" using that sub(1) D(2) by auto
  have same: "pc_todo st2 = pc_todo st1" "pc_loc st2 = pc_loc st1" "pc_code st2 = pc_code st1" by (simp_all add: st2)
  have r2: "regs (pc_ready st2) = R'"
  proof (cases "?f = pc_loc st ?f \<and> ?f \<in> ?T")
    case True
    then show ?thesis using s1(1,3) p(2) to(2) f32 by (simp add: st2 R'_def regs_incl)
  next
    case False
    then have "\<not> (?f = pc_loc st ?f \<and> ?f \<in> ?T - {to})" by blast
    then show ?thesis using False s1(1,3) p(2) by (auto simp: st2 R'_def)
  qed
  show "regs (pc_todo st2) = ?T - {to}" "to \<in> ?T" using same(1) s1(1) to(1) by simp_all
  show "trees_inv rs0 D (pt_pred tab) st2"
    unfolding trees_inv_def same s1(1,2,4) r2 by (rule trees_ok_move [OF inv [unfolded trees_inv_def] p(1) D(1) R'_def])
qed

lemma trees_spec:
  assumes D: "\<forall>d\<in>D. pt_pred tab d \<noteq> d" "D \<subseteq> {..<32}"
  shows "trees_inv rs0 D (pt_pred tab) st \<Longrightarrow> \<exists>st'. pc_trees tab st = Some st' \<and> trees_inv rs0 D (pt_pred tab) st' \<and> pc_ready st' = 0"
proof (induction "card (regs (pc_todo st))" arbitrary: st rule: less_induct)
  case less
  show ?case
  proof (cases "pc_ready st = 0")
    case True
    then show ?thesis using less.prems by (subst pc_trees.simps) simp
  next
    case False
    obtain ready to where pop: "ir_regset_pop_first (pc_ready st) = (ready, to)" by fastforce
    define st1 where "st1 = pc_move tab to (st\<lparr>pc_ready := ready\<rparr>)"
    define st2 where "st2 = (if pt_pred tab to = pc_loc st (pt_pred tab to) \<and> IR_REGSET_IN (pc_todo st1) (pt_pred tab to)
      then st1\<lparr>pc_ready := IR_REGSET_INCL (pc_ready st1) (pt_pred tab to)\<rparr> else st1)"
    note s = trees_step [OF less.prems D False pop st1_def st2_def]
    have "card (regs (pc_todo st2)) < card (regs (pc_todo st))" unfolding s(2) using s(3) by (intro psubset_card_mono) auto
    moreover have "pc_trees tab st = pc_trees tab st2"
      by (subst pc_trees.simps) (simp add: False pop Let_def st1_def st2_def)
    ultimately show ?thesis using less.hyps [OF _ s(1)] by simp
  qed
qed


text \<open>When no tree is left, the rest consists of cycles.\<close>

definition cycles_ok ::
  "(ir_reg \<Rightarrow> 'v) \<Rightarrow> ir_reg set \<Rightarrow> (ir_reg \<Rightarrow> ir_reg) \<Rightarrow> ir_reg set \<Rightarrow> ir_reg set \<Rightarrow> (ir_reg \<Rightarrow> ir_reg) \<Rightarrow> (ir_reg \<Rightarrow> 'v) \<Rightarrow> bool" where
  "cycles_ok rs0 D pred X T loc rs \<longleftrightarrow>
     T \<subseteq> D \<and> pred ` T = T \<and> inj_on pred T \<and> (\<forall>t\<in>T. loc t = t \<and> rs t = rs0 t) \<and> (\<forall>d\<in>D - T. rs d = rs0 (pred d)) \<and>
     (\<forall>r. r \<notin> D \<union> X \<longrightarrow> rs r = rs0 r)"

lemma trees_cycles:
  assumes ok: "trees_ok rs0 D pred T {} loc rs" and fin: "finite T"
  shows "cycles_ok rs0 D pred X T loc rs"
proof -
  have I: "T \<subseteq> D" "\<And>c. c \<in> T \<Longrightarrow> rs (loc (pred c)) = rs0 (pred c)" "\<And>x. x \<in> D \<Longrightarrow> x \<notin> T \<Longrightarrow> rs x = rs0 (pred x)"
      "\<And>r. r \<notin> D \<Longrightarrow> rs r = rs0 r" "\<And>t. t \<in> T \<Longrightarrow> t \<in> pred ` D \<and> loc t = t" "\<And>c. c \<in> D \<Longrightarrow> c \<notin> T \<Longrightarrow> loc (pred c) \<noteq> pred c"
    using ok by (simp_all add: trees_ok_def)
  have sub: "T \<subseteq> pred ` T"
  proof
    fix x assume "x \<in> T"
    then obtain c where "c \<in> D" "x = pred c" "loc x = x" using I(5) by auto
    then show "x \<in> pred ` T" using I(6) [of c] by auto
  qed
  have e: "pred ` T = T" by (rule card_seteq [OF finite_imageI [OF fin] sub card_image_le [OF fin], symmetric])
  then have "inj_on pred T" using fin by (simp add: eq_card_imp_inj_on)
  moreover have "loc x = x \<and> rs x = rs0 x" if "x \<in> T" for x
  proof -
    have "x \<in> pred ` T" using that sub by blast
    then obtain c where "c \<in> T" "x = pred c" by (rule imageE)
    then show ?thesis using I(2) [of c] I(5) [OF that] by simp
  qed
  ultimately show ?thesis using e I(1,3,4) by (simp add: cycles_ok_def)
qed

text \<open>Along a cycle that was opened at \<open>c0\<close>, whose value is in a temporary.\<close>

definition walk_ok ::
  "(ir_reg \<Rightarrow> 'v) \<Rightarrow> ir_reg set \<Rightarrow> (ir_reg \<Rightarrow> ir_reg) \<Rightarrow> ir_reg set \<Rightarrow> ir_reg \<Rightarrow> ir_reg \<Rightarrow> ir_reg set \<Rightarrow> ir_reg \<Rightarrow> (ir_reg \<Rightarrow> ir_reg) \<Rightarrow> (ir_reg \<Rightarrow> 'v) \<Rightarrow> bool" where
  "walk_ok rs0 D pred X c0 tmp P x loc rs \<longleftrightarrow>
     x \<in> P \<and> P \<subseteq> D \<and> c0 \<in> D \<and> c0 \<notin> P - {x} \<and> tmp \<notin> D \<and> loc c0 = tmp \<and> pred ` P = insert c0 (P - {x}) \<and> inj_on pred P \<and>
     (\<forall>y\<in>P. rs (loc (pred y)) = rs0 (pred y)) \<and> (\<forall>t\<in>P - {x}. loc t = t) \<and> (\<forall>d\<in>D - P. rs d = rs0 (pred d)) \<and>
     (\<forall>r. r \<notin> D \<union> X \<longrightarrow> rs r = rs0 r)"

lemma walk_move:
  assumes ok: "walk_ok rs0 D pred X c0 tmp P x loc rs" and D: "\<forall>d\<in>D. pred d \<noteq> d"
  defines "loc' \<equiv> loc(pred x := x)" and "rs' \<equiv> rs(x := rs (loc (pred x)))"
  shows "pred x \<noteq> c0 \<Longrightarrow> walk_ok rs0 D pred X c0 tmp (P - {x}) (pred x) loc' rs' \<and> pred x \<in> P - {x} \<and> loc (pred x) = pred x"
    "pred x = c0 \<Longrightarrow> cycles_ok rs0 D pred X (P - {x}) loc' rs' \<and> loc (pred x) \<noteq> pred x"
proof -
  have I: "x \<in> P" "P \<subseteq> D" "c0 \<in> D" "c0 \<notin> P - {x}" "tmp \<notin> D" "loc c0 = tmp" "pred ` P = insert c0 (P - {x})" "inj_on pred P"
      "\<And>y. y \<in> P \<Longrightarrow> rs (loc (pred y)) = rs0 (pred y)" "\<And>t. t \<in> P \<Longrightarrow> t \<noteq> x \<Longrightarrow> loc t = t" "\<And>d. d \<in> D \<Longrightarrow> d \<notin> P \<Longrightarrow> rs d = rs0 (pred d)"
      "\<And>r. r \<notin> D \<Longrightarrow> r \<notin> X \<Longrightarrow> rs r = rs0 r"
    using ok by (simp_all add: walk_ok_def)
  have x: "x \<in> D" "pred x \<noteq> x" using I(1,2) D by auto
  have inj: "inj_on pred (P - {x})" using I(8) by (rule inj_on_diff)
  have im: "pred ` (P - {x}) = insert c0 (P - {x}) - {pred x}"
    using inj_on_image_set_diff [OF I(8), of P "{x}"] I(1,7) by simp
  have keep: "rs' (loc' (pred y)) = rs0 (pred y)" if y: "y \<in> P - {x}" for y
  proof -
    have py: "pred y \<noteq> pred x" "pred y \<in> insert c0 (P - {x})" using y I(1,8) im by (auto simp: inj_on_def)
    have "loc (pred y) \<noteq> x" using py(2) I(5,6) I(10) [of "pred y"] x(1) by auto
    then show ?thesis using py(1) I(9) [of y] y by (simp add: loc'_def rs'_def)
  qed
  have fd: "rs' d = rs0 (pred d)" if "d \<in> D - (P - {x})" for d using that I(9) [OF I(1)] I(11) [of d] by (cases "d = x") (auto simp: rs'_def)
  have rest: "rs' r = rs0 r" if "r \<notin> D \<union> X" for r using that x(1) I(12) [of r] by (auto simp: rs'_def)
  have px: "pred x \<in> insert c0 (P - {x})" using I(1,7) by auto
  {
    assume ne: "pred x \<noteq> c0"
    have "walk_ok rs0 D pred X c0 tmp (P - {x}) (pred x) loc' rs'"
      unfolding walk_ok_def
    proof (intro conjI ballI allI impI)
      show "pred ` (P - {x}) = insert c0 (P - {x} - {pred x})" using im ne by auto
      show "loc' c0 = tmp" using ne I(6) by (simp add: loc'_def)
      show "loc' t = t" if "t \<in> P - {x} - {pred x}" for t using that I(10) [of t] by (simp add: loc'_def)
    qed (use I(2-5) px ne inj keep fd rest in \<open>auto\<close>)
    then show "walk_ok rs0 D pred X c0 tmp (P - {x}) (pred x) loc' rs' \<and> pred x \<in> P - {x} \<and> loc (pred x) = pred x"
      using px ne I(10) [of "pred x"] by auto
  next
    assume e: "pred x = c0"
    have im': "pred ` (P - {x}) = P - {x}" using im I(4) e by auto
    have "loc' t = t \<and> rs' t = rs0 t" if t: "t \<in> P - {x}" for t
    proof -
      have l: "loc' t = t" using t I(4) I(10) [of t] e by (auto simp: loc'_def)
      obtain y where "y \<in> P - {x}" "t = pred y" using im' t by (metis imageE)
      then show ?thesis using keep [of y] l by simp
    qed
    then have "cycles_ok rs0 D pred X (P - {x}) loc' rs'" using im' inj fd rest I(2) by (auto simp: cycles_ok_def)
    then show "cycles_ok rs0 D pred X (P - {x}) loc' rs' \<and> loc (pred x) \<noteq> pred x" using e I(3,5,6) by auto
  }
qed

lemma walk_spec:
  assumes D: "\<forall>d\<in>D. pt_pred tab d \<noteq> d"
  shows "walk_ok rs0 D (pt_pred tab) X c0 tmp P x (pc_loc st) (exec_code (pc_code st) rs0) \<Longrightarrow> regs (pc_todo st) - {x} = P - {x} \<Longrightarrow> finite P \<Longrightarrow>
    \<exists>st'. pc_cycle tab x st = Some st' \<and> regs (pc_todo st') \<subset> P \<and>
      cycles_ok rs0 D (pt_pred tab) X (regs (pc_todo st')) (pc_loc st') (exec_code (pc_code st') rs0)"
proof (induction "card P" arbitrary: P x st rule: less_induct)
  case less
  let ?pred = "pt_pred tab"
  define st1 where "st1 = pc_move tab x st"
  have s1: "regs (pc_todo st1) = P - {x}" "pc_loc st1 = (pc_loc st)(?pred x := x)"
      "exec_code (pc_code st1) rs0 = (exec_code (pc_code st) rs0)(x := exec_code (pc_code st) rs0 (pc_loc st (?pred x)))"
    using less.prems(2) by (simp_all add: st1_def pc_move_def Let_def)
  have x: "x \<in> P" using less.prems(1) by (simp add: walk_ok_def)
  note m = walk_move [OF less.prems(1) D, folded s1(2,3)]
  show ?case
  proof (cases "?pred x = c0")
    case True
    then have "pc_cycle tab x st = Some st1" using m(2) by (subst pc_cycle.simps) (simp add: Let_def st1_def)
    then show ?thesis using m(2) [OF True] s1(1) x by auto
  next
    case False
    note w = m(1) [OF False]
    have run: "pc_cycle tab x st = pc_cycle tab (?pred x) st1"
      using w s1(1) by (subst pc_cycle.simps) (simp add: Let_def st1_def)
    have "card (P - {x}) < card P" using x less.prems(3) by (intro psubset_card_mono) auto
    from less.hyps [OF this, of "?pred x" st1] w s1(1) less.prems(3) show ?thesis unfolding run by auto
  qed
qed


lemma cycles_open:
  assumes ok: "cycles_ok rs0 D pred X T loc rs" and D: "\<forall>d\<in>D. pred d \<noteq> d" and c0: "c0 \<in> T" and tmp: "tmp \<in> X" "tmp \<notin> D"
  shows "walk_ok rs0 D pred X c0 tmp T c0 (loc(c0 := tmp)) (rs(tmp := rs c0))"
proof -
  have I: "T \<subseteq> D" "pred ` T = T" "inj_on pred T" "\<And>t. t \<in> T \<Longrightarrow> loc t = t \<and> rs t = rs0 t" "\<And>d. d \<in> D \<Longrightarrow> d \<notin> T \<Longrightarrow> rs d = rs0 (pred d)"
      "\<And>r. r \<notin> D \<Longrightarrow> r \<notin> X \<Longrightarrow> rs r = rs0 r" using ok by (simp_all add: cycles_ok_def)
  have "(rs(tmp := rs c0)) ((loc(c0 := tmp)) (pred y)) = rs0 (pred y)" if "y \<in> T" for y
  proof -
    have "pred y \<in> T" using I(2) that by (metis imageI)
    moreover from this have "pred y \<noteq> tmp" using I(1) tmp(2) by auto
    ultimately show ?thesis using I(4) [of "pred y"] I(4) [OF c0] by simp
  qed
  then show ?thesis using I c0 tmp by (auto simp: walk_ok_def)
qed

lemma cycles_swap:
  assumes ok: "cycles_ok rs0 D pred X T loc rs" and x: "x \<in> T" "pred (pred x) = x" and D: "\<forall>d\<in>D. pred d \<noteq> d"
  shows "cycles_ok rs0 D pred X (T - {x, pred x}) (loc(x := pred x, pred x := x)) (rs(x := rs (pred x), pred x := rs x))"
proof -
  have I: "T \<subseteq> D" "pred ` T = T" "inj_on pred T" "\<And>t. t \<in> T \<Longrightarrow> loc t = t \<and> rs t = rs0 t" "\<And>d. d \<in> D \<Longrightarrow> d \<notin> T \<Longrightarrow> rs d = rs0 (pred d)"
      "\<And>r. r \<notin> D \<Longrightarrow> r \<notin> X \<Longrightarrow> rs r = rs0 r" using ok by (simp_all add: cycles_ok_def)
  have px: "pred x \<in> T" using I(2) x(1) by (metis imageI)
  then have in_D: "x \<in> D" "pred x \<in> D" using I(1) x(1) by auto
  have "pred ` (T - {x, pred x}) = pred ` T - pred ` {x, pred x}" by (rule inj_on_image_set_diff [OF I(3)]) (use x px in auto)
  then have "pred ` (T - {x, pred x}) = T - {x, pred x}" using I(2) x(2) by auto
  moreover have "inj_on pred (T - {x, pred x})" using I(3) by (rule inj_on_diff)
  moreover have "(rs(x := rs (pred x), pred x := rs x)) d = rs0 (pred d)" if "d \<in> D - (T - {x, pred x})" for d
    using that I(4) [OF x(1)] I(4) [OF px] I(5) [of d] x(2) by auto
  ultimately show ?thesis using I(1,4,6) in_D by (auto simp: cycles_ok_def)
qed

lemma cycles_spec:
  assumes D: "\<forall>d\<in>D. pt_pred tab d \<noteq> d" and tmp: "is_gp tmp" "is_fp tmpf" "tmp \<notin> D" "tmpf \<notin> D"
  shows "cycles_ok rs0 D (pt_pred tab) {tmp, tmpf} (regs (pc_todo st)) (pc_loc st) (exec_code (pc_code st) rs0) \<Longrightarrow>
    \<exists>st'. pc_cycles (Some tmp) (Some tmpf) tab st = Some st' \<and>
      cycles_ok rs0 D (pt_pred tab) {tmp, tmpf} {} (pc_loc st') (exec_code (pc_code st') rs0)"
proof (induction "card (regs (pc_todo st))" arbitrary: st rule: less_induct)
  case less
  let ?pred = "pt_pred tab" and ?T = "regs (pc_todo st)" and ?rs = "exec_code (pc_code st) rs0"
  show ?case
  proof (cases "pc_todo st = 0")
    case True
    then show ?thesis using less.prems by (subst pc_cycles.simps) simp
  next
    case False
    obtain todo to where pop: "ir_regset_pop_first (pc_todo st) = (todo, to)" by fastforce
    note p = pop_first [OF False pop]
    have in_T: "?pred to \<in> ?T" "?T \<subseteq> D" "pc_loc st (?pred to) = ?pred to"
      using less.prems p(1) by (auto simp: cycles_ok_def)
    then have ne: "?pred to \<noteq> to" using p(1) D by auto
    define ty where "ty = pt_types tab (?pred to)"
    show ?thesis
    proof (cases "IR_IS_TYPE_INT ty \<and> ?pred (?pred to) = to")
      case True
      define ty' where "ty' = (if ir_type_size (pt_types tab to) > ir_type_size ty then pt_types tab to else ty)"
      define st1 where "st1 = st\<lparr>pc_code := pc_code st @ [E_swap ty' to (?pred to)], pc_todo := IR_REGSET_EXCL todo (?pred to),
        pc_loc := (pc_loc st)(to := ?pred to, ?pred to := to)\<rparr>"
      have run: "pc_cycles (Some tmp) (Some tmpf) tab st = pc_cycles (Some tmp) (Some tmpf) tab st1"
        using False pop in_T(3) ne True by (subst pc_cycles.simps) (simp add: Let_def st1_def ty_def ty'_def)
      have s1: "regs (pc_todo st1) = ?T - {to, ?pred to}" "pc_loc st1 = (pc_loc st)(to := ?pred to, ?pred to := to)"
          "exec_code (pc_code st1) rs0 = ?rs(to := ?rs (?pred to), ?pred to := ?rs to)"
        using p(2) by (auto simp: st1_def)
      have "cycles_ok rs0 D ?pred {tmp, tmpf} (regs (pc_todo st1)) (pc_loc st1) (exec_code (pc_code st1) rs0)"
        unfolding s1 using True by (intro cycles_swap [OF less.prems p(1) _ D]) simp
      moreover have "card (regs (pc_todo st1)) < card ?T" unfolding s1(1) using p(1) by (intro psubset_card_mono) auto
      ultimately show ?thesis unfolding run by (intro less.hyps)
    next
      case no: False
      define t where "t = (if IR_IS_TYPE_INT ty then tmp else tmpf)"
      define st1 where "st1 = st\<lparr>pc_todo := todo, pc_code := pc_code st @ [emit_copy ty t to], pc_loc := (pc_loc st)(to := t)\<rparr>"
      have t: "t \<in> {tmp, tmpf}" "t \<notin> D" using tmp by (auto simp: t_def)
      have run: "pc_cycles (Some tmp) (Some tmpf) tab st = Option.bind (pc_cycle tab to st1) (pc_cycles (Some tmp) (Some tmpf) tab)"
        using False pop in_T(3) ne no tmp by (subst pc_cycles.simps) (auto simp: Let_def st1_def ty_def t_def)
      have s1: "pc_loc st1 = (pc_loc st)(to := t)" "exec_code (pc_code st1) rs0 = ?rs(t := ?rs to)" "regs (pc_todo st1) - {to} = ?T - {to}"
        using p(2) by (auto simp: st1_def)
      have w: "walk_ok rs0 D ?pred {tmp, tmpf} to t ?T to (pc_loc st1) (exec_code (pc_code st1) rs0)"
        unfolding s1(1,2) by (rule cycles_open [OF less.prems D p(1) t])
      obtain st2 where s2: "pc_cycle tab to st1 = Some st2" "regs (pc_todo st2) \<subset> ?T"
          "cycles_ok rs0 D ?pred {tmp, tmpf} (regs (pc_todo st2)) (pc_loc st2) (exec_code (pc_code st2) rs0)"
        using walk_spec [OF D w s1(3)] by auto
      have "card (regs (pc_todo st2)) < card ?T" using s2(2) by (intro psubset_card_mono) auto
      from less.hyps [OF this s2(3)] show ?thesis unfolding run s2(1) by simp
    qed
  qed
qed


section \<open>The whole sequence\<close>

definition collected :: "ir_copy list \<Rightarrow> pc_tab \<Rightarrow> pc_state \<Rightarrow> bool" where
  "collected cs tab st \<longleftrightarrow> regs (pc_todo st) = cp_to ` set cs \<and> regs (pt_srcs tab) = cp_from ` set cs \<and>
     (\<forall>c\<in>set cs. pt_pred tab (cp_to c) = cp_from c \<and> pc_loc st (cp_from c) = cp_from c) \<and> pc_ready st = 0 \<and> pc_code st = []"

definition copies_ok :: "ir_copy list \<Rightarrow> bool" where
  "copies_ok cs \<longleftrightarrow> distinct (map cp_to cs) \<and> (\<forall>c\<in>set cs. cp_from c \<noteq> cp_to c \<and> cp_from c < 32 \<and> cp_to c < 32)"

lemma collect_spec:
  "copies_ok cs \<Longrightarrow> \<exists>tab st. fold pc_collect cs (Some (\<lparr>pt_pred = mem, pt_types = tmem, pt_srcs = 0\<rparr>,
     \<lparr>pc_loc = mem, pc_todo = 0, pc_ready = 0, pc_code = []\<rparr>)) = Some (tab, st) \<and> collected cs tab st"
proof (induction cs rule: rev_induct)
  case Nil
  show ?case by (simp add: collected_def)
next
  case (snoc c cs)
  have ok: "copies_ok cs" "cp_to c \<notin> cp_to ` set cs" "cp_from c \<noteq> cp_to c" "cp_from c < 32" "cp_to c < 32"
    using snoc.prems by (auto simp: copies_ok_def)
  obtain tab st where c: "fold pc_collect cs (Some (\<lparr>pt_pred = mem, pt_types = tmem, pt_srcs = 0\<rparr>,
     \<lparr>pc_loc = mem, pc_todo = 0, pc_ready = 0, pc_code = []\<rparr>)) = Some (tab, st)" "collected cs tab st" using snoc.IH [OF ok(1)] by blast
  have ne: "cp_to c' \<noteq> cp_to c" if "c' \<in> set cs" for c' using ok(2) that by (metis image_eqI)
  have r: "regs (pc_todo st) = cp_to ` set cs" "regs (pt_srcs tab) = cp_from ` set cs"
      "\<And>c'. c' \<in> set cs \<Longrightarrow> pt_pred tab (cp_to c') = cp_from c' \<and> pc_loc st (cp_from c') = cp_from c'" "pc_ready st = 0" "pc_code st = []"
    using c(2) by (auto simp: collected_def)
  define tab' where "tab' = \<lparr>pt_pred = (pt_pred tab)(cp_to c := cp_from c), pt_types = (pt_types tab)(cp_from c := cp_type c),
    pt_srcs = IR_REGSET_INCL (pt_srcs tab) (cp_from c)\<rparr>"
  define st' where "st' = st\<lparr>pc_loc := (pc_loc st)(cp_from c := cp_from c), pc_todo := IR_REGSET_INCL (pc_todo st) (cp_to c)\<rparr>"
  have step: "pc_collect c (Some (tab, st)) = Some (tab', st')" using ok(2,3) r(1) by (simp add: pc_collect_def tab'_def st'_def Let_def)
  have "collected (cs @ [c]) tab' st'"
    unfolding collected_def tab'_def st'_def using r ne ok(4,5) by (auto simp: regs_incl)
  then show ?case using c(1) step by simp
qed

lemma plain_copies:
  "copies_ok cs \<Longrightarrow> cp_to ` set cs \<inter> cp_from ` set cs = {} \<Longrightarrow>
     exec_code (map (\<lambda>c. emit_copy (cp_type c) (cp_to c) (cp_from c)) cs) rs0 r =
       (case find (\<lambda>c. cp_to c = r) cs of None \<Rightarrow> rs0 r | Some c \<Rightarrow> rs0 (cp_from c))"
proof (induction cs arbitrary: rs0)
  case Nil
  then show ?case by (simp add: exec_code_def)
next
  case (Cons c cs)
  define rs1 where "rs1 = rs0(cp_to c := rs0 (cp_from c))"
  have ok: "copies_ok cs" "cp_to ` set cs \<inter> cp_from ` set cs = {}" "cp_to c \<notin> cp_to ` set cs" "cp_to c \<notin> cp_from ` set cs"
    using Cons.prems by (auto simp: copies_ok_def)
  have e: "exec_code (map (\<lambda>c. emit_copy (cp_type c) (cp_to c) (cp_from c)) (c # cs)) rs0 =
      exec_code (map (\<lambda>c. emit_copy (cp_type c) (cp_to c) (cp_from c)) cs) rs1"
    by (simp add: exec_code_def rs1_def)
  show ?case unfolding e Cons.IH [OF ok(1,2)]
  proof (cases "find (\<lambda>c. cp_to c = r) cs")
    case None
    then show "(case find (\<lambda>c. cp_to c = r) cs of None \<Rightarrow> rs1 r | Some c \<Rightarrow> rs1 (cp_from c)) =
      (case find (\<lambda>c. cp_to c = r) (c # cs) of None \<Rightarrow> rs0 r | Some c \<Rightarrow> rs0 (cp_from c))" by (auto simp: rs1_def)
  next
    case (Some c')
    then have "c' \<in> set cs" "cp_to c' = r" by (auto simp: find_Some_iff)
    moreover from this have "cp_from c' \<noteq> cp_to c" "cp_to c \<noteq> r" using ok(3,4) by (metis imageI)+
    ultimately show "(case find (\<lambda>c. cp_to c = r) cs of None \<Rightarrow> rs1 r | Some c \<Rightarrow> rs1 (cp_from c)) =
      (case find (\<lambda>c. cp_to c = r) (c # cs) of None \<Rightarrow> rs0 r | Some c \<Rightarrow> rs0 (cp_from c))"
      using Some by (simp add: rs1_def)
  qed
qed

text \<open>The effect that is wanted: every destination has the value its source had before.\<close>

definition copied :: "ir_copy list \<Rightarrow> ir_reg set \<Rightarrow> (ir_reg \<Rightarrow> 'v) \<Rightarrow> (ir_reg \<Rightarrow> 'v) \<Rightarrow> bool" where
  "copied cs X rs0 rs \<longleftrightarrow> (\<forall>c\<in>set cs. rs (cp_to c) = rs0 (cp_from c)) \<and> (\<forall>r. r \<notin> cp_to ` set cs \<union> X \<longrightarrow> rs r = rs0 r)"

lemma plain_copied:
  assumes ok: "copies_ok cs" "cp_to ` set cs \<inter> cp_from ` set cs = {}"
  shows "copied cs X rs0 (exec_code (map (\<lambda>c. emit_copy (cp_type c) (cp_to c) (cp_from c)) cs) rs0)"
proof -
  have "find (\<lambda>c'. cp_to c' = cp_to c) cs = Some c" if c: "c \<in> set cs" for c
  proof (cases "find (\<lambda>c'. cp_to c' = cp_to c) cs")
    case None
    then show ?thesis using c by (auto simp: find_None_iff)
  next
    case (Some c')
    then have "c' \<in> set cs" "cp_to c' = cp_to c" by (auto simp: find_Some_iff)
    then have "c' = c" using ok(1) c by (auto simp: copies_ok_def distinct_map inj_on_def)
    then show ?thesis using Some by simp
  qed
  moreover have "find (\<lambda>c. cp_to c = r) cs = None" if "r \<notin> cp_to ` set cs" for r using that by (auto simp: find_None_iff)
  ultimately show ?thesis by (simp add: copied_def plain_copies [OF ok])
qed

lemma cycles_copied:
  assumes "cycles_ok rs0 (cp_to ` set cs) pred X {} loc rs" "\<forall>c\<in>set cs. pred (cp_to c) = cp_from c"
  shows "copied cs X rs0 rs"
  using assms by (auto simp: cycles_ok_def copied_def)

lemma parallel_copy_spec:
  assumes ok: "copies_ok cs" and tmp: "is_gp tmp" "is_fp tmpf" "tmp \<notin> cp_to ` set cs" "tmpf \<notin> cp_to ` set cs"
  shows "\<exists>code. ir_parallel_copy mem tmem cs (Some tmp) (Some tmpf) = Some code \<and> copied cs {tmp, tmpf} rs0 (exec_code code rs0)"
proof (cases "length cs = 1")
  case True
  then obtain c where "cs = [c]" by (auto simp: length_Suc_conv)
  moreover from this have "copied cs {tmp, tmpf} rs0 (exec_code (map (\<lambda>c. emit_copy (cp_type c) (cp_to c) (cp_from c)) cs) rs0)"
    using ok by (intro plain_copied) (auto simp: copies_ok_def)
  ultimately show ?thesis using ok by (auto simp: ir_parallel_copy_def copies_ok_def)
next
  case False
  obtain tab st where c: "fold pc_collect cs (Some (\<lparr>pt_pred = mem, pt_types = tmem, pt_srcs = 0\<rparr>,
     \<lparr>pc_loc = mem, pc_todo = 0, pc_ready = 0, pc_code = []\<rparr>)) = Some (tab, st)" "collected cs tab st" using collect_spec [OF ok] by blast
  let ?D = "cp_to ` set cs" and ?pred = "pt_pred tab"
  define ready where "ready = IR_REGSET_DIFFERENCE (pc_todo st) (pt_srcs tab)"
  have r: "regs (pc_todo st) = ?D" "regs (pt_srcs tab) = cp_from ` set cs" "\<forall>c\<in>set cs. ?pred (cp_to c) = cp_from c"
      "\<And>c'. c' \<in> set cs \<Longrightarrow> pc_loc st (cp_from c') = cp_from c'" "pc_code st = []" using c(2) by (auto simp: collected_def)
  have srcs: "?pred ` ?D = cp_from ` set cs" using r(3) by (auto simp: image_image)
  have D: "\<forall>d\<in>?D. ?pred d \<noteq> d" "?D \<subseteq> {..<32}" using ok r(3) by (auto simp: copies_ok_def)
  show ?thesis
  proof (cases "ready = pc_todo st")
    case True
    then have "?D - cp_from ` set cs = ?D" using r(1,2) regs_diff [of "pc_todo st" "pt_srcs tab"] by (simp add: ready_def)
    then have "copied cs {tmp, tmpf} rs0 (exec_code (map (\<lambda>c. emit_copy (cp_type c) (cp_to c) (cp_from c)) cs) rs0)"
      by (intro plain_copied [OF ok]) blast
    then show ?thesis using False c(1) True by (simp add: ir_parallel_copy_def Let_def ready_def)
  next
    case nr: False
    have free: "tmp_free st (Some tmp)" "tmp_free st (Some tmpf)" using tmp r(1) by (auto simp: tmp_free_def)
    have "trees_ok rs0 ?D ?pred ?D (?D - cp_from ` set cs) (pc_loc st) rs0"
      unfolding trees_ok_def srcs using r(3,4) by auto
    then have "trees_inv rs0 ?D ?pred (st\<lparr>pc_ready := ready\<rparr>)"
      unfolding trees_inv_def by (simp add: r ready_def exec_code_def)
    from trees_spec [OF D this] obtain st1 where s1: "pc_trees tab (st\<lparr>pc_ready := ready\<rparr>) = Some st1" "trees_inv rs0 ?D ?pred st1" "pc_ready st1 = 0" by blast
    have t1: "trees_ok rs0 ?D ?pred (regs (pc_todo st1)) {} (pc_loc st1) (exec_code (pc_code st1) rs0)" using s1(2,3) by (simp add: trees_inv_def)
    note cyc = trees_cycles [OF t1 finite_regs, of "{tmp, tmpf}"]
    have moved: "tmp_moved tab st1 (Some t)" if t: "t \<notin> ?D" for t
      unfolding tmp_moved_def option.case regs_in r(2) srcs [symmetric]
    proof
      assume in_src: "t \<in> ?pred ` ?D"
      then obtain d where d: "d \<in> ?D" "t = ?pred d" by blast
      have "pc_loc st1 t \<noteq> t"
      proof
        assume e: "pc_loc st1 t = t"
        have "d \<in> regs (pc_todo st1)" using t1 d e by (auto simp: trees_ok_def)
        then have "t \<in> regs (pc_todo st1)" "regs (pc_todo st1) \<subseteq> ?D" using cyc d(2) unfolding cycles_ok_def by (metis imageI)+
        then show False using t by blast
      qed
      then show "?pred (pc_loc st1 t) = t" using t1 in_src unfolding trees_ok_def by blast
    qed
    show ?thesis
    proof (cases "pc_todo st1 = 0")
      case True
      then have "copied cs {tmp, tmpf} rs0 (exec_code (pc_code st1) rs0)" using cyc r(3) by (intro cycles_copied) simp_all
      then show ?thesis using False c(1) nr free s1(1) True by (simp add: ir_parallel_copy_def Let_def ready_def)
    next
      case todo: False
      obtain st2 where s2: "pc_cycles (Some tmp) (Some tmpf) tab st1 = Some st2"
          "cycles_ok rs0 ?D ?pred {tmp, tmpf} {} (pc_loc st2) (exec_code (pc_code st2) rs0)"
        using cycles_spec [OF D(1) tmp cyc] by blast
      have "copied cs {tmp, tmpf} rs0 (exec_code (pc_code st2) rs0)" by (rule cycles_copied [OF s2(2) r(3)])
      then show ?thesis using False c(1) nr free s1(1) todo moved [OF tmp(3)] moved [OF tmp(4)] s2(1)
        by (simp add: ir_parallel_copy_def Let_def ready_def)
    qed
  qed
qed

section \<open>Properties\<close>


abbreviation demo_copies :: "ir_copy list" where
  "demo_copies \<equiv> [\<lparr>cp_type = IR_I64, cp_from = 1, cp_to = 2\<rparr>, \<lparr>cp_type = IR_I64, cp_from = 2, cp_to = 3\<rparr>, \<lparr>cp_type = IR_I64, cp_from = 3, cp_to = 1\<rparr>,
     \<lparr>cp_type = IR_I64, cp_from = 3, cp_to = 4\<rparr>]"




end
