(* ===== verification/Live_Ranges.thy ===== *)
theory Live_Ranges
  imports Bits IR_Types "HOL-Library.Multiset"
begin

text \<open>
  Lifetime intervals of virtual registers (ir_ra.c). An interval is a linked list of disjoint ranges in
  ascending order, with a sorted list of the positions where the register is used. Lists of nodes are Isabelle
  lists; the split children of an interval follow it in its chain. Nodes of removed ranges wait in a free list.
\<close>

section \<open>Data\<close>

type_synonym ir_live_pos = int

record ir_live_range =
  lr_start :: ir_live_pos
  lr_end :: ir_live_pos

record ir_use_pos =
  up_op_num :: nat
  up_hint :: int
  up_flags :: "8 word"
  up_hint_ref :: ir_ref
  up_pos :: ir_live_pos

record ir_live_interval =
  iv_type :: ir_type
  iv_reg :: int
  iv_flags :: "16 word"
  iv_vreg :: int
  iv_spill_pos :: int
  iv_end :: ir_live_pos
  iv_range :: "ir_live_range list"
  iv_use_pos :: "ir_use_pos list"

record live_ctx =
  live_intervals :: "nat \<Rightarrow> ir_live_interval list"
  unused_ranges :: "ir_live_range list"
  lc_vregs :: "ir_ref \<Rightarrow> nat"
  lc_vregs_count :: nat
  lc_flags2 :: u32

definition IR_REG_NONE :: int where "IR_REG_NONE = -1"
definition IR_LIVE_INTERVAL_FIXED :: "16 word" where "IR_LIVE_INTERVAL_FIXED = 1"
definition IR_LIVE_INTERVAL_TEMP :: "16 word" where "IR_LIVE_INTERVAL_TEMP = 2"
definition IR_LIVE_INTERVAL_HAS_HINT_REGS :: "16 word" where "IR_LIVE_INTERVAL_HAS_HINT_REGS = 4"
definition IR_LIVE_INTERVAL_HAS_HINT_REFS :: "16 word" where "IR_LIVE_INTERVAL_HAS_HINT_REFS = 8"
definition IR_LIVE_INTERVAL_MEM_PARAM :: "16 word" where "IR_LIVE_INTERVAL_MEM_PARAM = 16"
definition IR_LIVE_INTERVAL_COALESCED :: "16 word" where "IR_LIVE_INTERVAL_COALESCED = 32"
definition IR_LIVE_INTERVAL_SPLIT_CHILD :: "16 word" where "IR_LIVE_INTERVAL_SPLIT_CHILD = 256"
definition IR_START_LIVE_POS_FROM_REF :: "ir_ref \<Rightarrow> ir_live_pos" where "IR_START_LIVE_POS_FROM_REF ref = ref * 4"
definition IR_USE_SHOULD_BE_IN_REG :: "8 word" where "IR_USE_SHOULD_BE_IN_REG = 2"
definition IR_RA_HAVE_SPLITS :: u32 where "IR_RA_HAVE_SPLITS = push_bit 25 1"
definition IR_PHI_USE :: "8 word" where "IR_PHI_USE = 128"

section \<open>Construction\<close>

definition new_interval :: "ir_type \<Rightarrow> int \<Rightarrow> 16 word \<Rightarrow> int \<Rightarrow> int \<Rightarrow> ir_live_pos \<Rightarrow> ir_live_pos \<Rightarrow> ir_live_interval" where
  "new_interval type reg flags v spill start end =
     \<lparr>iv_type = type, iv_reg = reg, iv_flags = flags, iv_vreg = v, iv_spill_pos = spill, iv_end = end,
      iv_range = [\<lparr>lr_start = start, lr_end = end\<rparr>], iv_use_pos = []\<rparr>"

definition ir_new_live_range :: "live_ctx \<Rightarrow> nat \<Rightarrow> ir_live_pos \<Rightarrow> ir_live_pos \<Rightarrow> live_ctx" where
  "ir_new_live_range ctx v start end =
     ctx\<lparr>live_intervals := (live_intervals ctx)(v := [new_interval IR_VOID IR_REG_NONE 0 (int v) (-1) start end])\<rparr>"

text \<open>
  Swallowing the ranges after one that has grown to \<open>e\<close>: the new end, the ranges that stay and the free list.
\<close>

fun merge_next :: "ir_live_pos \<Rightarrow> ir_live_range list \<Rightarrow> ir_live_range list \<Rightarrow> ir_live_pos \<times> ir_live_range list \<times> ir_live_range list" where
  "merge_next e [] unused = (e, [], unused)"
| "merge_next e (n # ns) unused =
     (if e \<ge> lr_start n then merge_next (if lr_end n > e then lr_end n else e) ns (n # unused)
      else (e, n # ns, unused))"

text \<open>
  The walk of \<open>ir_add_live_range\<close> from a range that does not start after \<open>e\<close>. The last part of
  the result is the new value of the cached end, if it changes.
\<close>

fun add_range_loop ::
  "ir_live_pos \<Rightarrow> ir_live_pos \<Rightarrow> ir_live_range list \<Rightarrow> ir_live_range list \<Rightarrow> ir_live_range list \<times> ir_live_range list \<times> ir_live_pos option" where
  "add_range_loop s e [] unused = ([], unused, None)"
| "add_range_loop s e (p # ps) unused =
     (if lr_end p \<ge> s then
        let p = (if s < lr_start p then p\<lparr>lr_start := s\<rparr> else p) in
        if e > lr_end p then
          let (e', ps', unused') = merge_next e ps unused
          in (p\<lparr>lr_end := e'\<rparr> # ps', unused', if ps' = [] then Some e' else None)
        else (p # ps, unused, None)
      else if ps \<noteq> [] \<and> e \<ge> lr_start (hd ps) then
        let (ps', unused', fin) = add_range_loop s e ps unused in (p # ps', unused', fin)
      else (p # \<lparr>lr_start = s, lr_end = e\<rparr> # ps, tl unused, if ps = [] then Some e else None))"

definition ir_add_live_range :: "live_ctx \<Rightarrow> nat \<Rightarrow> ir_live_pos \<Rightarrow> ir_live_pos \<Rightarrow> live_ctx" where
  "ir_add_live_range ctx v start end =
     (case live_intervals ctx v of
        [] \<Rightarrow> ir_new_live_range ctx v start end
      | ival # chain \<Rightarrow>
          let (rs, unused, fin) =
            (if end \<ge> lr_start (hd (iv_range ival)) then add_range_loop start end (iv_range ival) (unused_ranges ctx)
             else (\<lparr>lr_start = start, lr_end = end\<rparr> # iv_range ival, tl (unused_ranges ctx), None));
            ival' = ival\<lparr>iv_range := rs, iv_end := (case fin of None \<Rightarrow> iv_end ival | Some x \<Rightarrow> x)\<rparr>
          in ctx\<lparr>live_intervals := (live_intervals ctx)(v := ival' # chain), unused_ranges := unused\<rparr>)"

definition set_first_start :: "ir_live_pos \<Rightarrow> ir_live_interval \<Rightarrow> ir_live_interval" where
  "set_first_start s ival = ival\<lparr>iv_range := (hd (iv_range ival))\<lparr>lr_start := s\<rparr> # tl (iv_range ival)\<rparr>"

definition ir_add_prev_live_range :: "live_ctx \<Rightarrow> nat \<Rightarrow> ir_live_pos \<Rightarrow> ir_live_pos \<Rightarrow> live_ctx" where
  "ir_add_prev_live_range ctx v start end =
     (case live_intervals ctx v of
        ival # chain \<Rightarrow>
          if lr_start (hd (iv_range ival)) = end
          then ctx\<lparr>live_intervals := (live_intervals ctx)(v := set_first_start start ival # chain)\<rparr>
          else ir_add_live_range ctx v start end
      | [] \<Rightarrow> ir_add_live_range ctx v start end)"

definition ir_add_fixed_live_range :: "live_ctx \<Rightarrow> nat \<Rightarrow> ir_live_pos \<Rightarrow> ir_live_pos \<Rightarrow> live_ctx" where
  "ir_add_fixed_live_range ctx reg start end =
     (let v = lc_vregs_count ctx + 1 + reg in
      case live_intervals ctx v of
        [] \<Rightarrow> ctx\<lparr>live_intervals := (live_intervals ctx)(v := [new_interval IR_VOID (int reg) IR_LIVE_INTERVAL_FIXED (int v) (-1) start end])\<rparr>
      | ival # chain \<Rightarrow>
          if end < lr_start (hd (iv_range ival)) then
            ctx\<lparr>live_intervals := (live_intervals ctx)(v := ival\<lparr>iv_range := \<lparr>lr_start = start, lr_end = end\<rparr> # iv_range ival\<rparr> # chain),
                unused_ranges := tl (unused_ranges ctx)\<rparr>
          else if end = lr_start (hd (iv_range ival)) then
            ctx\<lparr>live_intervals := (live_intervals ctx)(v := set_first_start start ival # chain)\<rparr>
          else ir_add_live_range ctx v start end)"

text \<open>Temporary registers of an instruction: a chain of their own, sorted by the start.\<close>

fun insert_tmp :: "ir_live_interval \<Rightarrow> ir_live_interval list \<Rightarrow> ir_live_interval list" where
  "insert_tmp ival [] = [ival]"
| "insert_tmp ival (n # ns) =
     (if lr_start (hd (iv_range ival)) \<ge> lr_start (hd (iv_range n)) then n # insert_tmp ival ns else ival # n # ns)"

definition ir_add_tmp :: "live_ctx \<Rightarrow> ir_ref \<Rightarrow> ir_ref \<Rightarrow> int \<Rightarrow> ir_type \<Rightarrow> nat \<Rightarrow> nat \<Rightarrow> live_ctx" where
  "ir_add_tmp ctx ref tmp_ref tmp_op_num type start end =
     (let ival = new_interval type IR_REG_NONE IR_LIVE_INTERVAL_TEMP tmp_ref tmp_op_num
            (IR_START_LIVE_POS_FROM_REF ref + int start) (IR_START_LIVE_POS_FROM_REF ref + int end)
      in ctx\<lparr>live_intervals := (live_intervals ctx)(0 := insert_tmp ival (live_intervals ctx 0))\<rparr>)"

definition ir_fix_live_range :: "live_ctx \<Rightarrow> nat \<Rightarrow> ir_live_pos \<Rightarrow> ir_live_pos \<Rightarrow> live_ctx option" where
  "ir_fix_live_range ctx v old_start new_start =
     (case live_intervals ctx v of
        [] \<Rightarrow> None
      | ival # chain \<Rightarrow>
          if lr_start (hd (iv_range ival)) = old_start
          then Some (ctx\<lparr>live_intervals := (live_intervals ctx)(v := set_first_start new_start ival # chain)\<rparr>)
          else None)"

text \<open>A use position goes before the first later one; the first element is passed when the positions are equal.\<close>

fun insert_use_after :: "ir_use_pos \<Rightarrow> ir_use_pos list \<Rightarrow> ir_use_pos list" where
  "insert_use_after u [] = [u]"
| "insert_use_after u (p # ps) = (if up_pos p < up_pos u then p # insert_use_after u ps else u # p # ps)"

definition ir_add_use_pos :: "ir_live_interval \<Rightarrow> ir_use_pos \<Rightarrow> ir_live_interval" where
  "ir_add_use_pos ival u =
     ival\<lparr>iv_use_pos :=
       (case iv_use_pos ival of
          [] \<Rightarrow> [u]
        | p # ps \<Rightarrow> if up_pos p > up_pos u then u # p # ps else p # insert_use_after u ps)\<rparr>"

definition ir_add_use :: "ir_live_interval \<Rightarrow> nat \<Rightarrow> ir_live_pos \<Rightarrow> int \<Rightarrow> 8 word \<Rightarrow> ir_ref \<Rightarrow> ir_live_interval" where
  "ir_add_use ival op_num pos hint use_flags hint_ref =
     (let ival = (if hint \<noteq> IR_REG_NONE then ival\<lparr>iv_flags := iv_flags ival OR IR_LIVE_INTERVAL_HAS_HINT_REGS\<rparr> else ival);
          ival = (if hint_ref > 0 then ival\<lparr>iv_flags := iv_flags ival OR IR_LIVE_INTERVAL_HAS_HINT_REFS\<rparr> else ival)
      in ir_add_use_pos ival \<lparr>up_op_num = op_num, up_hint = hint, up_flags = use_flags, up_hint_ref = hint_ref, up_pos = pos\<rparr>)"

definition ir_add_phi_use :: "ir_live_interval \<Rightarrow> nat \<Rightarrow> ir_live_pos \<Rightarrow> ir_ref \<Rightarrow> ir_live_interval option" where
  "ir_add_phi_use ival op_num pos phi_ref =
     (if phi_ref > 0 then
        Some (ir_add_use_pos ival \<lparr>up_op_num = op_num, up_hint = IR_REG_NONE, up_flags = IR_PHI_USE OR IR_USE_SHOULD_BE_IN_REG,
          up_hint_ref = - phi_ref, up_pos = pos\<rparr>)
      else None)"

fun add_hint_loop :: "ir_live_pos \<Rightarrow> int \<Rightarrow> 8 word \<Rightarrow> ir_use_pos list \<Rightarrow> ir_use_pos list \<times> bool" where
  "add_hint_loop pos hint flags [] = ([], False)"
| "add_hint_loop pos hint flags (u # us) =
     (let (us', b) = add_hint_loop pos hint flags us in
      if up_pos u = pos \<and> up_hint u = IR_REG_NONE then (u\<lparr>up_flags := up_flags u OR flags, up_hint := hint\<rparr> # us', True)
      else (u # us', b))"

definition ir_add_hint :: "ir_live_interval \<Rightarrow> ir_live_pos \<Rightarrow> int \<Rightarrow> 8 word \<Rightarrow> ir_live_interval" where
  "ir_add_hint ival pos hint flags =
     (if iv_flags ival AND IR_LIVE_INTERVAL_HAS_HINT_REGS = 0 then
        let (us, b) = add_hint_loop pos hint flags (iv_use_pos ival) in
        ival\<lparr>iv_use_pos := us, iv_flags := (if b then iv_flags ival OR IR_LIVE_INTERVAL_HAS_HINT_REGS else iv_flags ival)\<rparr>
      else ival)"

section \<open>Queries\<close>

function ir_ivals_overlap :: "ir_live_range list \<Rightarrow> ir_live_range list \<Rightarrow> ir_live_pos" where
  "ir_ivals_overlap (p # ps) (q # qs) =
     (if lr_start q < lr_end p then
        (if lr_start p < lr_end q then max (lr_start p) (lr_start q) else ir_ivals_overlap (p # ps) qs)
      else ir_ivals_overlap ps (q # qs))"
| "ir_ivals_overlap [] qs = 0"
| "ir_ivals_overlap (p # ps) [] = 0"
  by pat_completeness auto
termination
  by (relation "measure (\<lambda>(ps, qs). length ps + length qs)") auto

definition ir_vregs_overlap :: "live_ctx \<Rightarrow> nat \<Rightarrow> nat \<Rightarrow> ir_live_pos" where
  "ir_vregs_overlap ctx r1 r2 =
     ir_ivals_overlap (iv_range (hd (live_intervals ctx r1))) (iv_range (hd (live_intervals ctx r2)))"

fun ir_ivals_inside :: "ir_live_range list \<Rightarrow> ir_live_range list \<Rightarrow> bool" where
  "ir_ivals_inside parent [] = True"
| "ir_ivals_inside parent (c # cs) =
     (let parent = dropWhile (\<lambda>p. lr_end p < lr_start c) parent in
      if parent = [] \<or> lr_start (hd parent) > lr_start c \<or> lr_end (hd parent) < lr_end c then False
      else ir_ivals_inside parent cs)"

definition ir_vregs_inside :: "live_ctx \<Rightarrow> nat \<Rightarrow> nat \<Rightarrow> bool" where
  "ir_vregs_inside ctx parent child =
     (let c = hd (live_intervals ctx child); p = hd (live_intervals ctx parent) in
      if (iv_flags c OR iv_flags p) AND IR_LIVE_INTERVAL_COALESCED \<noteq> 0 then False
      else ir_ivals_inside (iv_range p) (iv_range c))"

fun covers_loop :: "ir_live_range list \<Rightarrow> ir_live_pos \<Rightarrow> bool" where
  "covers_loop [] position = False"
| "covers_loop (r # rs) position = (if position < lr_end r then position \<ge> lr_start r else covers_loop rs position)"

definition ir_ival_covers :: "ir_live_interval \<Rightarrow> ir_live_pos \<Rightarrow> bool" where
  "ir_ival_covers ival position = covers_loop (iv_range ival) position"

fun hole_loop :: "ir_live_range list \<Rightarrow> ir_live_pos \<Rightarrow> ir_live_pos \<Rightarrow> bool" where
  "hole_loop [] from to = False"
| "hole_loop (r # rs) from to = (if from < lr_start r then True else if to \<le> lr_end r then False else hole_loop rs from to)"

definition ir_ival_has_hole_between :: "ir_live_interval \<Rightarrow> ir_live_pos \<Rightarrow> ir_live_pos \<Rightarrow> bool" where
  "ir_ival_has_hole_between ival from to = hole_loop (iv_range ival) from to"

definition ir_last_use_pos_before :: "ir_live_interval \<Rightarrow> ir_live_pos \<Rightarrow> 8 word \<Rightarrow> ir_live_pos" where
  "ir_last_use_pos_before ival pos flags =
     fold (\<lambda>u ret. if up_flags u AND flags \<noteq> 0 then up_pos u else ret) (takeWhile (\<lambda>u. up_pos u \<le> pos) (iv_use_pos ival)) 0"

definition ir_first_use_pos_after :: "ir_live_interval \<Rightarrow> ir_live_pos \<Rightarrow> 8 word \<Rightarrow> ir_live_pos" where
  "ir_first_use_pos_after ival pos flags =
     (let p = dropWhile (\<lambda>u. up_pos u < pos) (iv_use_pos ival);
          p = (case p of [] \<Rightarrow> [] | u # us \<Rightarrow> if up_pos u = pos \<and> up_op_num u \<noteq> 0 then us else u # us);
          p = dropWhile (\<lambda>u. up_flags u AND flags = 0) p
      in case p of [] \<Rightarrow> 0x7fffffff | u # us \<Rightarrow> up_pos u)"

section \<open>Joining and splitting\<close>

definition clear_hint :: "(ir_ref \<Rightarrow> nat) \<Rightarrow> nat \<Rightarrow> ir_use_pos \<Rightarrow> ir_use_pos" where
  "clear_hint vregs r u = (if up_hint_ref u > 0 \<and> vregs (up_hint_ref u) = r then u\<lparr>up_hint_ref := 0\<rparr> else u)"

text \<open>Of two uses at one position the result (operand 0) is the last.\<close>

definition use_before :: "ir_use_pos \<Rightarrow> ir_use_pos \<Rightarrow> bool" where
  "use_before p u \<longleftrightarrow> up_pos p < up_pos u \<or>
     (up_pos p = up_pos u \<and> (up_op_num u = 0 \<or> (up_op_num p \<noteq> 0 \<and> up_op_num p < up_op_num u)))"

function merge_uses :: "(ir_ref \<Rightarrow> nat) \<Rightarrow> nat \<Rightarrow> nat \<Rightarrow> ir_use_pos list \<Rightarrow> ir_use_pos list \<Rightarrow> ir_use_pos list" where
  "merge_uses vregs r1 r2 ps [] = map (clear_hint vregs r2) ps"
| "merge_uses vregs r1 r2 [] (u # us) = clear_hint vregs r1 u # merge_uses vregs r1 r2 [] us"
| "merge_uses vregs r1 r2 (p # ps) (u # us) =
     (if use_before p u then clear_hint vregs r2 p # merge_uses vregs r1 r2 ps (u # us)
      else clear_hint vregs r1 u # merge_uses vregs r1 r2 (p # ps) us)"
  by pat_completeness auto
termination
  by (relation "measure (\<lambda>(vregs, r1, r2, ps, us). length ps + length us)") auto

fun join_ranges :: "nat \<Rightarrow> ir_live_range list \<Rightarrow> live_ctx \<Rightarrow> live_ctx" where
  "join_ranges r1 [] ctx = ctx"
| "join_ranges r1 (r # rs) ctx =
     join_ranges r1 rs (ir_add_live_range (ctx\<lparr>unused_ranges := r # unused_ranges ctx\<rparr>) r1 (lr_start r) (lr_end r))"

definition ir_vregs_join :: "live_ctx \<Rightarrow> nat \<Rightarrow> nat \<Rightarrow> live_ctx option" where
  "ir_vregs_join ctx r1 r2 =
     (case live_intervals ctx r2 of
        [] \<Rightarrow> None
      | ival # _ \<Rightarrow>
          let lr = hd (iv_range ival);
              ctx = join_ranges r1 (tl (iv_range ival)) (ir_add_live_range ctx r1 (lr_start lr) (lr_end lr))
          in case live_intervals ctx r1 of
               [] \<Rightarrow> None
             | ival1 # chain \<Rightarrow>
                 let ival1 = ival1\<lparr>iv_use_pos := merge_uses (lc_vregs ctx) r1 r2 (iv_use_pos ival1) (iv_use_pos ival),
                       iv_flags := iv_flags ival1 OR (IR_LIVE_INTERVAL_COALESCED OR
                         (iv_flags ival AND (IR_LIVE_INTERVAL_HAS_HINT_REGS OR IR_LIVE_INTERVAL_HAS_HINT_REFS)))\<rparr>
                 in if iv_flags ival AND IR_LIVE_INTERVAL_MEM_PARAM \<noteq> 0 then
                      if iv_flags ival1 AND IR_LIVE_INTERVAL_MEM_PARAM \<noteq> 0 then None
                      else Some (ctx\<lparr>live_intervals := (live_intervals ctx)
                        (r1 := ival1\<lparr>iv_flags := iv_flags ival1 OR IR_LIVE_INTERVAL_MEM_PARAM\<rparr> # chain, r2 := [])\<rparr>)
                    else Some (ctx\<lparr>live_intervals := (live_intervals ctx)(r1 := ival1 # chain, r2 := [])\<rparr>))"

text \<open>Joining the registers of two references; the references to the register that goes are redirected.\<close>

definition redirect :: "ir_ref \<Rightarrow> nat \<Rightarrow> nat \<Rightarrow> (ir_ref \<Rightarrow> nat) \<Rightarrow> ir_ref \<Rightarrow> nat" where
  "redirect cnt v w vregs = fold (\<lambda>i vregs. if vregs i = v then vregs(i := w) else vregs) [1..cnt - 1] vregs"

definition ir_vregs_coalesce :: "live_ctx \<Rightarrow> ir_ref \<Rightarrow> nat \<Rightarrow> nat \<Rightarrow> ir_ref \<Rightarrow> ir_ref \<Rightarrow> live_ctx option" where
  "ir_vregs_coalesce ctx cnt v1 v2 from to =
     (let f1 = iv_flags (hd (live_intervals ctx v1)) AND IR_LIVE_INTERVAL_COALESCED \<noteq> 0;
          f2 = iv_flags (hd (live_intervals ctx v2)) AND IR_LIVE_INTERVAL_COALESCED \<noteq> 0
      in if f1 \<and> \<not> f2 then map_option (\<lambda>ctx. ctx\<lparr>lc_vregs := (lc_vregs ctx)(to := v1)\<rparr>) (ir_vregs_join ctx v1 v2)
         else if f2 \<and> \<not> f1 then map_option (\<lambda>ctx. ctx\<lparr>lc_vregs := (lc_vregs ctx)(from := v2)\<rparr>) (ir_vregs_join ctx v2 v1)
         else if from < to then
           map_option (\<lambda>ctx. ctx\<lparr>lc_vregs := if f2 then redirect cnt v2 v1 (lc_vregs ctx) else (lc_vregs ctx)(to := v1)\<rparr>) (ir_vregs_join ctx v1 v2)
         else
           map_option (\<lambda>ctx. ctx\<lparr>lc_vregs := if f1 then redirect cnt v1 v2 (lc_vregs ctx) else (lc_vregs ctx)(from := v2)\<rparr>) (ir_vregs_join ctx v2 v1))"

definition hint_flags :: "ir_use_pos list \<Rightarrow> 16 word" where
  "hint_flags us = fold (\<lambda>u f.
     (let f = (if up_hint u \<noteq> IR_REG_NONE then f OR IR_LIVE_INTERVAL_HAS_HINT_REGS else f) in
      if up_hint_ref u > 0 then f OR IR_LIVE_INTERVAL_HAS_HINT_REFS else f)) us 0"

text \<open>
  An interval of the chain of a register, the one at \<open>k\<close>, is cut at \<open>pos\<close>, or at the next range when \<open>pos\<close> lies in
  a hole. The new child follows it in the chain. \<open>None\<close> is a violated assertion.
\<close>

definition split_interval ::
  "ir_live_interval \<Rightarrow> ir_live_pos \<Rightarrow> (ir_live_interval \<times> ir_live_interval \<times> ir_live_range list) option" where
  "split_interval ival pos =
     (if pos > lr_start (hd (iv_range ival)) then
        let before = takeWhile (\<lambda>r. pos \<ge> lr_end r) (iv_range ival) in
        case dropWhile (\<lambda>r. pos \<ge> lr_end r) (iv_range ival) of
          [] \<Rightarrow> None
        | p # ps \<Rightarrow>
            let pos = (if pos < lr_start p then lr_start p else pos);
                early = (\<lambda>u. if lr_start p = pos then pos > up_pos u else pos \<ge> up_pos u);
                us = takeWhile early (iv_use_pos ival); us' = dropWhile early (iv_use_pos ival);
                child = \<lparr>iv_type = iv_type ival, iv_reg = IR_REG_NONE, iv_flags = IR_LIVE_INTERVAL_SPLIT_CHILD OR hint_flags us',
                         iv_vreg = iv_vreg ival, iv_spill_pos = -1, iv_end = iv_end ival,
                         iv_range = \<lparr>lr_start = pos, lr_end = lr_end p\<rparr> # ps, iv_use_pos = us'\<rparr>;
                ival = ival\<lparr>iv_flags := (iv_flags ival AND NOT (IR_LIVE_INTERVAL_HAS_HINT_REGS OR IR_LIVE_INTERVAL_HAS_HINT_REFS)) OR hint_flags us,
                         iv_use_pos := us\<rparr>
            in Some (if pos = lr_start p then (ival\<lparr>iv_range := before, iv_end := lr_end (last before)\<rparr>, child, [p])
                     else (ival\<lparr>iv_range := before @ [p\<lparr>lr_end := pos\<rparr>], iv_end := pos\<rparr>, child, []))
      else None)"

definition ir_split_interval_at :: "live_ctx \<Rightarrow> nat \<Rightarrow> nat \<Rightarrow> ir_live_pos \<Rightarrow> live_ctx option" where
  "ir_split_interval_at ctx v k pos =
     map_option (\<lambda>(ival, child, freed).
       ctx\<lparr>lc_flags2 := lc_flags2 ctx OR IR_RA_HAVE_SPLITS, unused_ranges := freed @ unused_ranges ctx,
           live_intervals := (live_intervals ctx)(v := take k (live_intervals ctx v) @ ival # child # drop (Suc k) (live_intervals ctx v))\<rparr>)
       (split_interval (live_intervals ctx v ! k) pos)"


section \<open>Ranges as sets of positions\<close>

definition range_set :: "ir_live_range \<Rightarrow> ir_live_pos set" where
  "range_set r = {lr_start r..<lr_end r}"

definition cov :: "ir_live_range list \<Rightarrow> ir_live_pos set" where
  "cov rs = (\<Union>r\<in>set rs. range_set r)"

text \<open>The ranges are not empty, in ascending order, and there is a hole between any two.\<close>

definition ranges_ok :: "ir_live_range list \<Rightarrow> bool" where
  "ranges_ok rs \<longleftrightarrow> (\<forall>r\<in>set rs. lr_start r < lr_end r) \<and> sorted_wrt (\<lambda>a b. lr_end a < lr_start b) rs"

lemma cov_simps [simp]: "cov [] = {}" "cov (r # rs) = {lr_start r..<lr_end r} \<union> cov rs" "cov (rs @ ss) = cov rs \<union> cov ss"
  by (auto simp: cov_def range_set_def)

lemma ok_Nil [simp]: "ranges_ok []"
  by (simp add: ranges_ok_def)

lemma ok_Cons: "ranges_ok (r # rs) \<longleftrightarrow> lr_start r < lr_end r \<and> (\<forall>s\<in>set rs. lr_end r < lr_start s) \<and> ranges_ok rs"
  by (auto simp: ranges_ok_def)

lemma ok_append: "ranges_ok (rs @ ss) \<longleftrightarrow> ranges_ok rs \<and> ranges_ok ss \<and> (\<forall>r\<in>set rs. \<forall>s\<in>set ss. lr_end r < lr_start s)"
  by (auto simp: ranges_ok_def sorted_wrt_append)

lemma cov_above: "ranges_ok rs \<Longrightarrow> \<forall>r\<in>set rs. b \<le> lr_start r \<Longrightarrow> x \<in> cov rs \<Longrightarrow> b \<le> x"
  by (fastforce simp: cov_def range_set_def)

lemma cov_below: "\<forall>r\<in>set rs. lr_end r \<le> b \<Longrightarrow> x \<in> cov rs \<Longrightarrow> x < b"
  by (fastforce simp: cov_def range_set_def)

lemma merge_next_spec:
  assumes "merge_next e ns unused = (e', ns', unused')" "ranges_ok ns"
  shows "ranges_ok ns' \<and> e \<le> e' \<and> (\<forall>n\<in>set ns'. n \<in> set ns \<and> e' < lr_start n) \<and>
    (\<forall>s. s \<le> e \<longrightarrow> (\<forall>n\<in>set ns. s \<le> lr_start n) \<longrightarrow> {s..<e'} \<union> cov ns' = {s..<e} \<union> cov ns) \<and> (ns' \<noteq> [] \<longrightarrow> last ns' = last ns) \<and> (ns' = [] \<longrightarrow> e' = (if ns = [] then e else max e (lr_end (last ns))))"
  using assms
proof (induction e ns unused rule: merge_next.induct)
  case (1 e unused)
  then show ?case by auto
next
  case (2 e n ns unused)
  have n: "lr_start n < lr_end n" "\<forall>s\<in>set ns. lr_end n < lr_start s" "ranges_ok ns" using 2(3) by (auto simp: ok_Cons)
  show ?case
  proof (cases "e \<ge> lr_start n")
    case True
    define e1 where "e1 = (if lr_end n > e then lr_end n else e)"
    have m: "merge_next e1 ns (n # unused) = (e', ns', unused')" using 2(2) True by (simp add: e1_def)
    have e1: "e1 = max e (lr_end n)" by (simp add: e1_def)
    note IH = 2(1) [OF True, folded e1_def, OF m n(3)]
    have "{s..<e'} \<union> cov ns' = {s..<e} \<union> cov (n # ns)" if "s \<le> e" "\<forall>m\<in>set (n # ns). s \<le> lr_start m" for s
    proof -
      have "s \<le> e1" "\<forall>m\<in>set ns. s \<le> lr_start m" using that e1 by simp_all
      then have "{s..<e'} \<union> cov ns' = {s..<e1} \<union> cov ns" using IH by blast
      also have "{s..<e1} = {s..<e} \<union> {lr_start n..<lr_end n} " using that True n(1) unfolding e1_def by auto
      finally show ?thesis by (simp add: Un_assoc)
    qed
    moreover have "ns' = [] \<Longrightarrow> e' = max e (lr_end (last (n # ns)))"
    proof -
      assume "ns' = []"
      then have e': "e' = (if ns = [] then e1 else max e1 (lr_end (last ns)))" using IH by blast
      show ?thesis
      proof (cases "ns = []")
        case True
        then show ?thesis using e' e1 by simp
      next
        case False
        then have "lr_end n < lr_start (last ns)" "lr_start (last ns) < lr_end (last ns)" using n(2,3) by (auto simp: ranges_ok_def)
        then show ?thesis using e' e1 False by simp
      qed
    qed
    moreover have "ns' \<noteq> [] \<Longrightarrow> last ns' = last (n # ns)" using IH by (cases "ns = []") auto
    moreover have "ranges_ok ns'" "e \<le> e'" "\<forall>m\<in>set ns'. m \<in> set (n # ns) \<and> e' < lr_start m" using IH e1 by auto
    ultimately show ?thesis by simp
  next
    case False
    then have "e' = e" "ns' = n # ns" using 2(2) by simp_all
    then show ?thesis using 2(3) n False by auto
  qed
qed

lemma add_range_spec:
  assumes "add_range_loop s e rs unused = (rs', unused', fin)" "ranges_ok rs" "s < e" "rs \<noteq> []" "lr_start (hd rs) \<le> e"
  shows "ranges_ok rs' \<and> cov rs' = cov rs \<union> {s..<e} \<and> rs' \<noteq> [] \<and>
    (\<forall>b. b < s \<longrightarrow> (\<forall>r\<in>set rs. b < lr_start r) \<longrightarrow> (\<forall>r\<in>set rs'. b < lr_start r)) \<and>
    lr_end (last rs') = (case fin of None \<Rightarrow> lr_end (last rs) | Some x \<Rightarrow> x)"
  using assms
proof (induction rs arbitrary: rs' unused' fin)
  case Nil
  then show ?case by simp
next
  case (Cons p ps)
  have p: "lr_start p < lr_end p" "\<forall>q\<in>set ps. lr_end p < lr_start q" "ranges_ok ps" using Cons.prems(2) by (auto simp: ok_Cons)
  show ?case
  proof (cases "lr_end p \<ge> s")
    case True
    define p1 where "p1 = (if s < lr_start p then p\<lparr>lr_start := s\<rparr> else p)"
    have p1: "lr_start p1 = min s (lr_start p)" "lr_end p1 = lr_end p" by (simp_all add: p1_def)
    show ?thesis
    proof (cases "e > lr_end p")
      case gt: True
      obtain e' ps' un where m: "merge_next e ps unused = (e', ps', un)" by (cases "merge_next e ps unused")
      note ms = merge_next_spec [OF m p(3)]
      have r: "rs' = p1\<lparr>lr_end := e'\<rparr> # ps'" "fin = (if ps' = [] then Some e' else None)"
        using Cons.prems(1) True gt m p1(2) by (auto simp: p1_def [symmetric] Let_def)
      have "lr_start p1 \<le> e" "\<forall>q\<in>set ps. lr_start p1 \<le> lr_start q" using p1(1) assms(3) p(1,2) by fastforce+
      then have c: "{lr_start p1..<e'} \<union> cov ps' = {lr_start p1..<e} \<union> cov ps" using ms by blast
      have "{lr_start p1..<e} = {lr_start p..<lr_end p} \<union> {s..<e}" using p1(1) True gt p(1) assms(3) Cons.prems(5) by (auto simp: min_def)
      then have "cov rs' = cov (p # ps) \<union> {s..<e}" using c by (simp add: r Un_ac)
      moreover have "ranges_ok rs'" unfolding r ok_Cons using ms p1(1) assms(3) by auto
      moreover have "lr_end (last rs') = (case fin of None \<Rightarrow> lr_end (last (p # ps)) | Some x \<Rightarrow> x)"
        unfolding r using ms by (cases "ps' = []") auto
      moreover have "\<forall>b. b < s \<longrightarrow> (\<forall>r\<in>set (p # ps). b < lr_start r) \<longrightarrow> (\<forall>r\<in>set rs'. b < lr_start r)"
        unfolding r using ms p1(1) by auto
      moreover have "rs' \<noteq> []" by (simp add: r)
      ultimately show ?thesis by (intro conjI)
    next
      case le: False
      then have r: "rs' = p1 # ps" "fin = None" using Cons.prems(1) True p1(2) by (auto simp: p1_def [symmetric] Let_def)
      have "{lr_start p1..<lr_end p1} = {lr_start p..<lr_end p} \<union> {s..<e}" using p1 True le p(1) assms(3) Cons.prems(5) by (auto simp: min_def)
      then have "cov rs' = cov (p # ps) \<union> {s..<e}" by (simp add: r Un_ac)
      moreover have "ranges_ok rs'" unfolding r ok_Cons using p p1 by simp
      ultimately show ?thesis unfolding r using p1 by simp
    qed
  next
    case sep: False
    show ?thesis
    proof (cases "ps \<noteq> [] \<and> e \<ge> lr_start (hd ps)")
      case True
      obtain ps' un f where l: "add_range_loop s e ps unused = (ps', un, f)" by (cases "add_range_loop s e ps unused")
      have r: "rs' = p # ps'" "fin = f" using Cons.prems(1) sep True l by auto
      have IH: "ranges_ok ps' \<and> cov ps' = cov ps \<union> {s..<e} \<and> ps' \<noteq> [] \<and>
          (\<forall>b. b < s \<longrightarrow> (\<forall>r\<in>set ps. b < lr_start r) \<longrightarrow> (\<forall>r\<in>set ps'. b < lr_start r)) \<and>
          lr_end (last ps') = (case f of None \<Rightarrow> lr_end (last ps) | Some x \<Rightarrow> x)"
        using Cons.IH [OF l p(3) assms(3)] True by blast
      then have "\<forall>q\<in>set ps'. lr_end p < lr_start q" using p(2) sep by auto
      then have "ranges_ok rs'" unfolding r ok_Cons using IH p by simp
      moreover have "cov rs' = cov (p # ps) \<union> {s..<e}" using IH by (simp add: r Un_ac)
      ultimately show ?thesis unfolding r using IH True by (simp split: option.split)
    next
      case False
      then have r: "rs' = p # \<lparr>lr_start = s, lr_end = e\<rparr> # ps" "fin = (if ps = [] then Some e else None)"
        using Cons.prems(1) sep by auto
      have "\<forall>q\<in>set ps. e < lr_start q"
        using False p(3) by (cases ps) (force simp: ok_Cons)+
      moreover from this have "ranges_ok rs'" unfolding r ok_Cons using p sep assms(3) by auto
      moreover have "cov rs' = cov (p # ps) \<union> {s..<e}" by (simp add: r Un_ac)
      ultimately show ?thesis unfolding r by simp
    qed
  qed
qed
definition ival_ok :: "ir_live_interval \<Rightarrow> bool" where
  "ival_ok ival \<longleftrightarrow> iv_range ival \<noteq> [] \<and> ranges_ok (iv_range ival) \<and> iv_end ival = lr_end (last (iv_range ival)) \<and>
     sorted (map up_pos (iv_use_pos ival))"

definition chain_cov :: "ir_live_interval list \<Rightarrow> ir_live_pos set" where
  "chain_cov ivals = (\<Union>i\<in>set ivals. cov (iv_range i))"

lemma chain_cov_simps [simp]: "chain_cov [] = {}" "chain_cov (i # is) = cov (iv_range i) \<union> chain_cov is" "chain_cov (is @ js) = chain_cov is \<union> chain_cov js"
  by (auto simp: chain_cov_def)

definition lives_ok :: "live_ctx \<Rightarrow> bool" where
  "lives_ok ctx \<longleftrightarrow> (\<forall>v. \<forall>i\<in>set (live_intervals ctx v). ival_ok i)"

lemma new_interval_ok: "s < e \<Longrightarrow> ival_ok (new_interval t r f v sp s e)" "cov (iv_range (new_interval t r f v sp s e)) = {s..<e}"
  by (simp_all add: ival_ok_def new_interval_def ok_Cons)

lemma lives_ok_update:
  "lives_ok ctx \<Longrightarrow> \<forall>i\<in>set ivals. ival_ok i \<Longrightarrow> live_intervals ctx' = (live_intervals ctx)(v := ivals) \<Longrightarrow> lives_ok ctx'"
  by (simp add: lives_ok_def)

text \<open>What adding a range to a register does, whichever function does it.\<close>

definition range_added :: "live_ctx \<Rightarrow> nat \<Rightarrow> ir_live_pos \<Rightarrow> ir_live_pos \<Rightarrow> live_ctx \<Rightarrow> bool" where
  "range_added ctx v s e ctx' \<longleftrightarrow> lives_ok ctx' \<and> live_intervals ctx' v \<noteq> [] \<and>
     cov (iv_range (hd (live_intervals ctx' v))) = (if live_intervals ctx v = [] then {} else cov (iv_range (hd (live_intervals ctx v)))) \<union> {s..<e} \<and>
     tl (live_intervals ctx' v) = tl (live_intervals ctx v) \<and> (\<forall>w. w \<noteq> v \<longrightarrow> live_intervals ctx' w = live_intervals ctx w) \<and>
     lc_vregs ctx' = lc_vregs ctx \<and>
     (live_intervals ctx v \<noteq> [] \<longrightarrow> iv_use_pos (hd (live_intervals ctx' v)) = iv_use_pos (hd (live_intervals ctx v)) \<and>
        iv_flags (hd (live_intervals ctx' v)) = iv_flags (hd (live_intervals ctx v)))"

lemma range_added_new:
  assumes "lives_ok ctx" "s < e" "live_intervals ctx v = []"
  shows "range_added ctx v s e (ctx\<lparr>live_intervals := (live_intervals ctx)(v := [new_interval t r f w sp s e])\<rparr>)"
proof -
  have "lives_ok (ctx\<lparr>live_intervals := (live_intervals ctx)(v := [new_interval t r f w sp s e])\<rparr>)"
    by (rule lives_ok_update [OF assms(1), of "[new_interval t r f w sp s e]" _ v]) (use new_interval_ok(1) [OF assms(2)] in simp_all)
  then show ?thesis using assms(3) by (simp add: range_added_def new_interval_ok(2))
qed

lemma range_added_ranges:
  assumes ok: "lives_ok ctx" and iv: "live_intervals ctx v = ival # chain"
    and rs: "ranges_ok rs" "rs \<noteq> []" "cov rs = cov (iv_range ival) \<union> {s..<e}" "en = lr_end (last rs)"
    and ctx': "live_intervals ctx' = (live_intervals ctx)(v := ival\<lparr>iv_range := rs, iv_end := en\<rparr> # chain)" "lc_vregs ctx' = lc_vregs ctx"
  shows "range_added ctx v s e ctx'"
proof -
  have i: "\<forall>i\<in>set (ival # chain). ival_ok i" using ok iv unfolding lives_ok_def by (metis)
  have "lives_ok ctx'" by (rule lives_ok_update [OF ok _ ctx'(1)]) (use i rs in \<open>auto simp: ival_ok_def\<close>)
  then show ?thesis using iv ctx' rs(3) by (simp add: range_added_def)
qed

lemma add_live_range_ok:
  assumes ok: "lives_ok ctx" and se: "s < e"
  shows "range_added ctx v s e (ir_add_live_range ctx v s e)"
proof (cases "live_intervals ctx v")
  case Nil
  then show ?thesis using range_added_new [OF ok se Nil] by (simp add: ir_add_live_range_def ir_new_live_range_def)
next
  case (Cons ival chain)
  have i: "ival_ok ival" using ok Cons unfolding lives_ok_def by (metis list.set_intros(1))
  then have r: "iv_range ival \<noteq> []" "ranges_ok (iv_range ival)" "iv_end ival = lr_end (last (iv_range ival))" by (simp_all add: ival_ok_def)
  show ?thesis
  proof (cases "e \<ge> lr_start (hd (iv_range ival))")
    case True
    obtain rs un fin where l: "add_range_loop s e (iv_range ival) (unused_ranges ctx) = (rs, un, fin)" by (cases "add_range_loop s e (iv_range ival) (unused_ranges ctx)")
    note sp = add_range_spec [OF l r(2) se r(1) True]
    show ?thesis
      by (rule range_added_ranges [OF ok Cons, of rs]) (use sp l True Cons r(3) in \<open>simp_all add: ir_add_live_range_def split: option.split\<close>)
  next
    case False
    have c: "\<forall>q\<in>set (iv_range ival). e < lr_start q" using False r(1,2) by (cases "iv_range ival") (force simp: ok_Cons)+
    show ?thesis
      by (rule range_added_ranges [OF ok Cons, of "\<lparr>lr_start = s, lr_end = e\<rparr> # iv_range ival"])
        (use c False Cons r se in \<open>auto simp: ir_add_live_range_def ok_Cons\<close>)
  qed
qed

lemma first_start_added:
  assumes ok: "lives_ok ctx" "s < e" "live_intervals ctx v = ival # chain" "lr_start (hd (iv_range ival)) = e"
  shows "range_added ctx v s e (ctx\<lparr>live_intervals := (live_intervals ctx)(v := set_first_start s ival # chain)\<rparr>)"
proof -
  have i: "ival_ok ival" using ok(1,3) unfolding lives_ok_def by (metis list.set_intros(1))
  obtain p ps where p: "iv_range ival = p # ps" using i by (cases "iv_range ival") (auto simp: ival_ok_def)
  have q: "lr_start p < lr_end p" "ranges_ok (p # ps)" "iv_end ival = lr_end (last (p # ps))" using i p by (auto simp: ival_ok_def ok_Cons)
  show ?thesis
    by (rule range_added_ranges [OF ok(1,3), of "p\<lparr>lr_start := s\<rparr> # ps" _ _ "iv_end ival"])
      (use p q ok(2,4) in \<open>auto simp: set_first_start_def ok_Cons\<close>)
qed

lemma add_prev_live_range_ok:
  assumes "lives_ok ctx" "s < e"
  shows "range_added ctx v s e (ir_add_prev_live_range ctx v s e)"
  using add_live_range_ok [OF assms] first_start_added [OF assms]
  by (simp add: ir_add_prev_live_range_def split: list.split)

lemma add_fixed_live_range_ok:
  assumes ok: "lives_ok ctx" "s < e"
  shows "range_added ctx (lc_vregs_count ctx + 1 + reg) s e (ir_add_fixed_live_range ctx reg s e)"
proof (cases "live_intervals ctx (lc_vregs_count ctx + 1 + reg)")
  case Nil
  then show ?thesis using range_added_new [OF ok Nil] by (simp add: ir_add_fixed_live_range_def)
next
  case (Cons ival chain)
  have i: "ival_ok ival" using ok(1) Cons unfolding lives_ok_def by (metis list.set_intros(1))
  show ?thesis
  proof (cases "e < lr_start (hd (iv_range ival))")
    case True
    then have eq: "live_intervals (ir_add_fixed_live_range ctx reg s e) = live_intervals (ir_add_live_range ctx (lc_vregs_count ctx + 1 + reg) s e)"
      "lc_vregs (ir_add_fixed_live_range ctx reg s e) = lc_vregs ctx"
      using Cons by (simp_all add: ir_add_fixed_live_range_def ir_add_live_range_def)
    show ?thesis using add_live_range_ok [OF ok, of "lc_vregs_count ctx + 1 + reg"] by (simp add: range_added_def lives_ok_def eq)
  next
    case False
    then show ?thesis using add_live_range_ok [OF ok] first_start_added [OF ok Cons] Cons by (auto simp: ir_add_fixed_live_range_def)
  qed
qed
section \<open>What the queries answer\<close>

lemma covers_spec: "ranges_ok rs \<Longrightarrow> covers_loop rs x \<longleftrightarrow> x \<in> cov rs"
proof (induction rs)
  case (Cons r rs)
  have "x \<notin> cov rs" if "x < lr_end r" using that Cons.prems cov_above [of rs "lr_end r" x] by (fastforce simp: ok_Cons)
  then show ?case using Cons by (auto simp: ok_Cons)
qed simp

lemma hole_spec:
  "ranges_ok rs \<Longrightarrow> rs \<noteq> [] \<Longrightarrow> from < to \<Longrightarrow> to \<le> lr_end (last rs) \<Longrightarrow> hole_loop rs from to \<longleftrightarrow> \<not> {from..<to} \<subseteq> cov rs"
proof (induction rs)
  case (Cons r rs)
  have r: "lr_start r < lr_end r" "\<forall>q\<in>set rs. lr_end r < lr_start q" "ranges_ok rs" using Cons.prems(1) by (auto simp: ok_Cons)
  have gap: "x \<notin> cov rs" if "x \<le> lr_end r" for x using that r(2,3) cov_above [of rs "lr_end r + 1" x] by fastforce
  consider "from < lr_start r" | "lr_start r \<le> from" "to \<le> lr_end r" | "lr_start r \<le> from" "lr_end r < to" by linarith
  then show ?case
  proof cases
    case 1
    then have "from \<notin> cov (r # rs)" using gap [of "from"] r(1) by simp
    then show ?thesis using 1 Cons.prems(3) by auto
  next
    case 2
    then show ?thesis by auto
  next
    case 3
    then have ne: "rs \<noteq> []" using Cons.prems(4) by auto
    show ?thesis
    proof (cases "from \<le> lr_end r")
      case True
      then have "lr_end r \<in> {from..<to}" "lr_end r \<notin> cov (r # rs)" using 3 gap [of "lr_end r"] by auto
      moreover have "hole_loop rs from to" using ne r(2) True by (cases rs) auto
      ultimately show ?thesis using 3 by auto
    next
      case False
      then have "{from..<to} \<subseteq> cov (r # rs) \<longleftrightarrow> {from..<to} \<subseteq> cov rs" by auto
      then show ?thesis using Cons.IH [OF r(3) ne] Cons.prems(3,4) 3 ne by auto
    qed
  qed
qed simp

text \<open>The first position two lists of ranges share.\<close>

lemma overlap_spec:
  assumes "ranges_ok ps" "ranges_ok qs"
  shows "(if cov ps \<inter> cov qs = {} then ir_ivals_overlap ps qs = 0
    else ir_ivals_overlap ps qs \<in> cov ps \<inter> cov qs \<and> (\<forall>x\<in>cov ps \<inter> cov qs. ir_ivals_overlap ps qs \<le> x))"
  using assms
proof (induction ps qs rule: ir_ivals_overlap.induct)
  case (1 p ps q qs)
  have p: "lr_start p < lr_end p" "ranges_ok ps" and q: "lr_start q < lr_end q" "ranges_ok qs" using 1(3,4) by (auto simp: ok_Cons)
  have above: "lr_start p \<le> x" if "x \<in> cov (p # ps)" for x using cov_above [OF 1(3), of "lr_start p" x] that p(1) 1(3) by (fastforce simp: ok_Cons)
  have above': "lr_start q \<le> x" if "x \<in> cov (q # qs)" for x using cov_above [OF 1(4), of "lr_start q" x] that q(1) 1(4) by (fastforce simp: ok_Cons)
  consider "lr_start q < lr_end p" "lr_start p < lr_end q" | "lr_start q < lr_end p" "lr_end q \<le> lr_start p" | "lr_end p \<le> lr_start q" by linarith
  then show ?case
  proof cases
    case 1
    then have "max (lr_start p) (lr_start q) \<in> cov (p # ps) \<inter> cov (q # qs)" using p q by auto
    then show ?thesis using 1 above above' by (auto simp del: cov_simps)
  next
    case 2
    have "x \<notin> {lr_start q..<lr_end q}" if "x \<in> cov (p # ps)" for x using above [OF that] 2 by auto
    then have "cov (p # ps) \<inter> cov (q # qs) = cov (p # ps) \<inter> cov qs" by auto
    moreover have "ir_ivals_overlap (p # ps) (q # qs) = ir_ivals_overlap (p # ps) qs" using 2 by simp
    ultimately show ?thesis using 1(1) [OF 2(1) _ 1(3) q(2)] 2 by (simp only:) auto
  next
    case 3
    have "x \<notin> {lr_start p..<lr_end p}" if "x \<in> cov (q # qs)" for x using above' [OF that] 3 by auto
    then have "cov (p # ps) \<inter> cov (q # qs) = cov ps \<inter> cov (q # qs)" by auto
    moreover have "ir_ivals_overlap (p # ps) (q # qs) = ir_ivals_overlap ps (q # qs)" using 3 by simp
    ultimately show ?thesis using 1(2) [OF _ p(2) 1(4)] 3 by (simp only:) auto
  qed
qed simp_all

lemma cov_split:
  "ranges_ok rs \<Longrightarrow> cov (dropWhile (\<lambda>p. lr_end p < x) rs) \<inter> {x..} = cov rs \<inter> {x..}"
proof (induction rs)
  case (Cons r rs)
  then show ?case by (auto simp: ok_Cons)
qed simp

lemma ok_dropWhile: "ranges_ok rs \<Longrightarrow> ranges_ok (dropWhile P rs)"
  by (induction rs) (auto simp: ok_Cons)

lemma interval_in_cov:
  assumes "ranges_ok (p # ps)" "a < b" "a \<le> lr_end p"
  shows "{a..<b} \<subseteq> cov (p # ps) \<longleftrightarrow> lr_start p \<le> a \<and> b \<le> lr_end p"
proof
  assume sub: "{a..<b} \<subseteq> cov (p # ps)"
  have gap: "x \<notin> cov ps" if "x \<le> lr_end p" for x using that assms(1) cov_above [of ps "lr_end p + 1" x] by (fastforce simp: ok_Cons)
  have "a \<in> cov (p # ps)" using sub assms(2) by (meson atLeastLessThan_iff order_refl subsetD)
  then have "lr_start p \<le> a" "a < lr_end p" using gap [OF assms(3)] by auto
  moreover have "b \<le> lr_end p"
  proof (rule ccontr)
    assume "\<not> b \<le> lr_end p"
    then have "lr_end p \<in> cov (p # ps)" using sub assms(3) by (meson atLeastLessThan_iff not_le subsetD)
    then show False using gap [of "lr_end p"] by simp
  qed
  ultimately show "lr_start p \<le> a \<and> b \<le> lr_end p" by simp
qed auto

lemma inside_spec: "ranges_ok ps \<Longrightarrow> ranges_ok cs \<Longrightarrow> ir_ivals_inside ps cs \<longleftrightarrow> cov cs \<subseteq> cov ps"
proof (induction cs arbitrary: ps)
  case (Cons c cs)
  define qs where "qs = dropWhile (\<lambda>p. lr_end p < lr_start c) ps"
  have c: "lr_start c < lr_end c" "\<forall>d\<in>set cs. lr_end c < lr_start d" "ranges_ok cs" using Cons.prems(2) by (auto simp: ok_Cons)
  have qs: "ranges_ok qs" unfolding qs_def by (rule ok_dropWhile [OF Cons.prems(1)])
  have ge: "lr_start c \<le> x" if "x \<in> cov (c # cs)" for x using cov_above [OF Cons.prems(2), of "lr_start c" x] that c by fastforce
  have sub: "cov (c # cs) \<subseteq> cov ps \<longleftrightarrow> cov (c # cs) \<subseteq> cov qs"
    using cov_split [OF Cons.prems(1), of "lr_start c", folded qs_def] ge by blast
  show ?case
  proof (cases qs)
    case Nil
    then show ?thesis using sub c(1) by (auto simp: qs_def [symmetric])
  next
    case (Cons q qt)
    have q: "lr_start c \<le> lr_end q" using Cons unfolding qs_def by (metis dropWhile_eq_Cons_conv not_less)
    have "{lr_start c..<lr_end c} \<subseteq> cov qs \<longleftrightarrow> lr_start q \<le> lr_start c \<and> lr_end c \<le> lr_end q"
      using interval_in_cov [of q qt "lr_start c" "lr_end c"] qs c(1) q Cons by simp
    moreover have "ir_ivals_inside ps (c # cs) \<longleftrightarrow> lr_start q \<le> lr_start c \<and> lr_end c \<le> lr_end q \<and> ir_ivals_inside qs cs"
      using Cons by (auto simp: qs_def [symmetric] Let_def)
    ultimately show ?thesis using sub Cons.IH [OF qs c(3)] by simp
  qed
qed simp
section \<open>Use positions, joining and splitting\<close>

lemma insert_use_after_spec:
  "sorted (map up_pos us) \<Longrightarrow> sorted (map up_pos (insert_use_after u us))" "set (insert_use_after u us) = insert u (set us)"
  "mset (insert_use_after u us) = add_mset u (mset us)"
proof -
  show "set (insert_use_after u us) = insert u (set us)" for us by (induction us) auto
  then show "sorted (map up_pos us) \<Longrightarrow> sorted (map up_pos (insert_use_after u us))" by (induction us) auto
  show "mset (insert_use_after u us) = add_mset u (mset us)" by (induction us) auto
qed

lemma add_use_pos_spec:
  assumes "ival_ok ival"
  shows "ival_ok (ir_add_use_pos ival u)" "mset (iv_use_pos (ir_add_use_pos ival u)) = add_mset u (mset (iv_use_pos ival))"
    "iv_range (ir_add_use_pos ival u) = iv_range ival"
  using assms by (cases "iv_use_pos ival"; auto simp: ir_add_use_pos_def ival_ok_def insert_use_after_spec intro: order_trans [OF less_imp_le])+

lemma clear_hint_simps [simp]: "up_pos (clear_hint vr r u) = up_pos u" "up_op_num (clear_hint vr r u) = up_op_num u"
  by (simp_all add: clear_hint_def)

lemma merge_uses_mset: "mset (merge_uses vr r1 r2 ps us) = mset (map (clear_hint vr r2) ps) + mset (map (clear_hint vr r1) us)"
  by (induction vr r1 r2 ps us rule: merge_uses.induct) auto

lemma merge_uses_set: "set (merge_uses vr r1 r2 ps us) = clear_hint vr r2 ` set ps \<union> clear_hint vr r1 ` set us"
  using arg_cong [OF merge_uses_mset [of vr r1 r2 ps us], of set_mset] by auto

lemma merge_uses_sorted: "sorted (map up_pos ps) \<Longrightarrow> sorted (map up_pos us) \<Longrightarrow> sorted (map up_pos (merge_uses vr r1 r2 ps us))"
proof (induction vr r1 r2 ps us rule: merge_uses.induct)
  case (1 vregs r1 r2 ps)
  then show ?case by (simp add: comp_def)
next
  case (2 vregs r1 r2 u us)
  then show ?case by (auto simp: merge_uses_set)
next
  case (3 vregs r1 r2 p ps u us)
  show ?case
  proof (cases "use_before p u")
    case True
    then have "up_pos p \<le> up_pos u" by (auto simp: use_before_def)
    then show ?thesis using 3 True by (auto simp: merge_uses_set)
  next
    case False
    then have "up_pos u \<le> up_pos p" by (auto simp: use_before_def)
    then show ?thesis using 3 False by (auto simp: merge_uses_set)
  qed
qed

lemma join_ranges_ok:
  assumes "lives_ok ctx" "live_intervals ctx r1 \<noteq> []" "\<forall>r\<in>set rs. lr_start r < lr_end r"
  shows "lives_ok (join_ranges r1 rs ctx) \<and> live_intervals (join_ranges r1 rs ctx) r1 \<noteq> [] \<and>
    cov (iv_range (hd (live_intervals (join_ranges r1 rs ctx) r1))) = cov (iv_range (hd (live_intervals ctx r1))) \<union> cov rs \<and>
    tl (live_intervals (join_ranges r1 rs ctx) r1) = tl (live_intervals ctx r1) \<and>
    (\<forall>w. w \<noteq> r1 \<longrightarrow> live_intervals (join_ranges r1 rs ctx) w = live_intervals ctx w) \<and> lc_vregs (join_ranges r1 rs ctx) = lc_vregs ctx \<and>
    iv_use_pos (hd (live_intervals (join_ranges r1 rs ctx) r1)) = iv_use_pos (hd (live_intervals ctx r1)) \<and>
    iv_flags (hd (live_intervals (join_ranges r1 rs ctx) r1)) = iv_flags (hd (live_intervals ctx r1))"
  using assms
proof (induction rs arbitrary: ctx)
  case (Cons r rs)
  let ?c = "ctx\<lparr>unused_ranges := r # unused_ranges ctx\<rparr>"
  define c1 where "c1 = ir_add_live_range ?c r1 (lr_start r) (lr_end r)"
  have "lives_ok ?c" using Cons.prems(1) by (simp add: lives_ok_def)
  then have "range_added ?c r1 (lr_start r) (lr_end r) c1" unfolding c1_def by (rule add_live_range_ok) (use Cons.prems(3) in simp)
  then have a: "lives_ok c1" "live_intervals c1 r1 \<noteq> []" "cov (iv_range (hd (live_intervals c1 r1))) = cov (iv_range (hd (live_intervals ctx r1))) \<union> {lr_start r..<lr_end r}"
      "tl (live_intervals c1 r1) = tl (live_intervals ctx r1)" "\<forall>w. w \<noteq> r1 \<longrightarrow> live_intervals c1 w = live_intervals ctx w" "lc_vregs c1 = lc_vregs ctx"
      "iv_use_pos (hd (live_intervals c1 r1)) = iv_use_pos (hd (live_intervals ctx r1))" "iv_flags (hd (live_intervals c1 r1)) = iv_flags (hd (live_intervals ctx r1))"
    using Cons.prems(2) unfolding range_added_def by simp_all
  have "join_ranges r1 (r # rs) ctx = join_ranges r1 rs c1" by (simp add: c1_def)
  then show ?case using Cons.IH [OF a(1,2)] Cons.prems(3) a by (simp add: Un_assoc)
qed simp

lemma vregs_join_ok:
  assumes ok: "lives_ok ctx" and ne: "r1 \<noteq> r2" and i1: "live_intervals ctx r1 = ival1 # chain1" and i2: "live_intervals ctx r2 = ival2 # chain2"
    and mem: "iv_flags ival1 AND IR_LIVE_INTERVAL_MEM_PARAM = 0 \<or> iv_flags ival2 AND IR_LIVE_INTERVAL_MEM_PARAM = 0"
  shows "\<exists>ctx' ival. ir_vregs_join ctx r1 r2 = Some ctx' \<and> lives_ok ctx' \<and> live_intervals ctx' = (live_intervals ctx)(r1 := ival # chain1, r2 := []) \<and>
    cov (iv_range ival) = cov (iv_range ival1) \<union> cov (iv_range ival2) \<and>
    mset (iv_use_pos ival) = mset (map (clear_hint (lc_vregs ctx) r2) (iv_use_pos ival1)) + mset (map (clear_hint (lc_vregs ctx) r1) (iv_use_pos ival2)) \<and>
    lc_vregs ctx' = lc_vregs ctx"
proof -
  have o: "ival_ok ival1" "ival_ok ival2" using ok i1 i2 unfolding lives_ok_def by (metis list.set_intros(1))+
  then obtain p ps where p: "iv_range ival2 = p # ps" by (cases "iv_range ival2") (auto simp: ival_ok_def)
  have r: "lr_start p < lr_end p" "\<forall>r\<in>set ps. lr_start r < lr_end r" using o(2) p by (auto simp: ival_ok_def ranges_ok_def)
  define c1 where "c1 = ir_add_live_range ctx r1 (lr_start p) (lr_end p)"
  have a: "range_added ctx r1 (lr_start p) (lr_end p) c1" unfolding c1_def by (rule add_live_range_ok [OF ok r(1)])
  define c2 where "c2 = join_ranges r1 ps c1"
  note b = join_ranges_ok [OF _ _ r(2), of c1 r1, folded c2_def]
  have c: "lives_ok c2" "live_intervals c2 r1 \<noteq> []" "cov (iv_range (hd (live_intervals c2 r1))) = cov (iv_range ival1) \<union> cov (iv_range ival2)"
      "tl (live_intervals c2 r1) = chain1" "\<forall>w. w \<noteq> r1 \<longrightarrow> live_intervals c2 w = live_intervals ctx w" "lc_vregs c2 = lc_vregs ctx"
      "iv_use_pos (hd (live_intervals c2 r1)) = iv_use_pos ival1" "iv_flags (hd (live_intervals c2 r1)) = iv_flags ival1"
    using a b i1 p unfolding range_added_def by (simp_all add: Un_assoc)
  obtain ival0 where l: "live_intervals c2 r1 = ival0 # chain1" using c(2,4) by (cases "live_intervals c2 r1") auto
  have i0: "\<forall>i\<in>set (ival0 # chain1). ival_ok i" using c(1) l unfolding lives_ok_def by metis
  define u where "u = merge_uses (lc_vregs ctx) r1 r2 (iv_use_pos ival1) (iv_use_pos ival2)"
  define f where "f = iv_flags ival1 OR (IR_LIVE_INTERVAL_COALESCED OR (iv_flags ival2 AND (IR_LIVE_INTERVAL_HAS_HINT_REGS OR IR_LIVE_INTERVAL_HAS_HINT_REFS)))"
  have fm: "f AND IR_LIVE_INTERVAL_MEM_PARAM = iv_flags ival1 AND IR_LIVE_INTERVAL_MEM_PARAM"
    unfolding f_def IR_LIVE_INTERVAL_COALESCED_def IR_LIVE_INTERVAL_MEM_PARAM_def IR_LIVE_INTERVAL_HAS_HINT_REGS_def IR_LIVE_INTERVAL_HAS_HINT_REFS_def
    by (simp add: bit.conj_disj_distrib2 and.assoc)
  define f' where "f' = (if iv_flags ival2 AND IR_LIVE_INTERVAL_MEM_PARAM \<noteq> 0 then f OR IR_LIVE_INTERVAL_MEM_PARAM else f)"
  let ?i = "ival0\<lparr>iv_use_pos := u, iv_flags := f'\<rparr>"
  define c3 where "c3 = c2\<lparr>live_intervals := (live_intervals c2)(r1 := ?i # chain1, r2 := [])\<rparr>"
  have res: "ir_vregs_join ctx r1 r2 = Some c3"
    using mem fm i2 p l c(6-8) unfolding ir_vregs_join_def c3_def f'_def
    by (auto simp: c1_def [symmetric] c2_def [symmetric] u_def [symmetric] f_def [symmetric] Let_def)
  have li: "live_intervals c3 = (live_intervals ctx)(r1 := ?i # chain1, r2 := [])" unfolding c3_def using c(5) by (auto simp: fun_eq_iff)
  have su: "sorted (map up_pos u)" unfolding u_def using o by (intro merge_uses_sorted) (auto simp: ival_ok_def)
  have "ival_ok ?i" using i0 su by (simp add: ival_ok_def)
  then have "lives_ok c3" using ok i0 unfolding lives_ok_def li by simp
  moreover have "mset (iv_use_pos ?i) = mset (map (clear_hint (lc_vregs ctx) r2) (iv_use_pos ival1)) + mset (map (clear_hint (lc_vregs ctx) r1) (iv_use_pos ival2))"
    by (simp add: u_def merge_uses_mset)
  moreover have "cov (iv_range ?i) = cov (iv_range ival1) \<union> cov (iv_range ival2)" using c(3) l by simp
  moreover have "lc_vregs c3 = lc_vregs ctx" using c(6) by (simp add: c3_def)
  ultimately show ?thesis using res li by blast
qed

lemma split_spec:
  assumes ok: "ival_ok ival" and pos: "lr_start (hd (iv_range ival)) < pos" "pos < iv_end ival"
  shows "\<exists>a b freed q. split_interval ival pos = Some (a, b, freed) \<and> ival_ok a \<and> ival_ok b \<and> pos \<le> q \<and>
    cov (iv_range a) = cov (iv_range ival) \<inter> {..<q} \<and> cov (iv_range b) = cov (iv_range ival) \<inter> {q..} \<and> cov (iv_range ival) \<inter> {pos..<q} = {} \<and>
    iv_use_pos ival = iv_use_pos a @ iv_use_pos b \<and> (\<forall>u\<in>set (iv_use_pos a). up_pos u \<le> q) \<and> (\<forall>u\<in>set (iv_use_pos b). q \<le> up_pos u)"
proof -
  have o: "iv_range ival \<noteq> []" "ranges_ok (iv_range ival)" "iv_end ival = lr_end (last (iv_range ival))" "sorted (map up_pos (iv_use_pos ival))"
    using ok by (simp_all add: ival_ok_def)
  define before where "before = takeWhile (\<lambda>r. pos \<ge> lr_end r) (iv_range ival)"
  have "dropWhile (\<lambda>r. pos \<ge> lr_end r) (iv_range ival) \<noteq> []" using o(1,3) pos(2) by (auto simp: dropWhile_eq_Nil_conv not_le intro!: bexI [of _ "last (iv_range ival)"])
  then obtain p ps where d: "dropWhile (\<lambda>r. pos \<ge> lr_end r) (iv_range ival) = p # ps" by (cases "dropWhile (\<lambda>r. pos \<ge> lr_end r) (iv_range ival)") auto
  have all: "iv_range ival = before @ p # ps" unfolding before_def d [symmetric] by simp
  have pe: "pos < lr_end p" using d by (metis dropWhile_eq_Cons_conv not_le)
  have bl: "\<forall>r\<in>set before. lr_end r \<le> pos" unfolding before_def by (auto dest: set_takeWhileD)
  have rp: "ranges_ok before" "ranges_ok (p # ps)" "\<forall>r\<in>set before. \<forall>s\<in>set (p # ps). lr_end r < lr_start s" using o(2) unfolding all ok_append by blast+
  define q where "q = (if pos < lr_start p then lr_start p else pos)"
  have q: "pos \<le> q" "lr_start p \<le> q" "q < lr_end p" using rp(2) pe by (auto simp: q_def ok_Cons)
  define early :: "ir_use_pos \<Rightarrow> bool" where "early = (\<lambda>u. if lr_start p = q then q > up_pos u else q \<ge> up_pos u)"
  define us where "us = takeWhile early (iv_use_pos ival)"
  define us' where "us' = dropWhile early (iv_use_pos ival)"
  have u: "iv_use_pos ival = us @ us'" by (simp add: us_def us'_def)
  have su: "sorted (map up_pos us)" "sorted (map up_pos us')" using o(4) unfolding u by (simp_all add: sorted_append)
  have ub: "\<forall>x\<in>set us. up_pos x \<le> q" unfolding us_def early_def by (auto dest!: set_takeWhileD split: if_splits)
  have ua: "\<forall>x\<in>set us'. q \<le> up_pos x"
  proof (cases us')
    case (Cons x xs)
    then have "\<not> early x" unfolding us'_def by (metis dropWhile_eq_Cons_conv)
    then have "q \<le> up_pos x" by (auto simp: early_def split: if_splits)
    then show ?thesis using su(2) Cons by auto
  qed simp
  define b where "b = \<lparr>iv_type = iv_type ival, iv_reg = IR_REG_NONE, iv_flags = IR_LIVE_INTERVAL_SPLIT_CHILD OR hint_flags us',
     iv_vreg = iv_vreg ival, iv_spill_pos = -1, iv_end = iv_end ival, iv_range = \<lparr>lr_start = q, lr_end = lr_end p\<rparr> # ps, iv_use_pos = us'\<rparr>"
  define rs where "rs = (if q = lr_start p then before else before @ [p\<lparr>lr_end := q\<rparr>])"
  define a where "a = ival\<lparr>iv_flags := (iv_flags ival AND NOT (IR_LIVE_INTERVAL_HAS_HINT_REGS OR IR_LIVE_INTERVAL_HAS_HINT_REFS)) OR hint_flags us,
     iv_use_pos := us, iv_range := rs, iv_end := lr_end (last rs)\<rparr>"
  have ne: "before \<noteq> []" if "q = lr_start p" using that pos(1) all by (cases before) (auto simp: q_def split: if_splits)
  have res: "split_interval ival pos = Some (a, b, if q = lr_start p then [p] else [])"
    unfolding split_interval_def a_def b_def rs_def using pos(1)
    by (simp add: d before_def [symmetric] q_def [symmetric] early_def us_def us'_def Let_def)
  have cb': "cov before \<subseteq> {..<pos}" using cov_below [of before pos] bl by auto
  then have cb: "cov before \<subseteq> {..<q}" using q(1) by auto
  have cp: "cov ps \<subseteq> {q..}" using cov_above [of ps "lr_end p"] rp(2) q(3) by (fastforce simp: ok_Cons)
  have oa: "ranges_ok rs" "rs \<noteq> []" using rp q ne unfolding rs_def by (auto simp: ok_append ok_Cons)
  have ob: "ranges_ok (iv_range b)" using rp(2) q by (auto simp: b_def ok_Cons)
  have "ival_ok a" unfolding ival_ok_def a_def using oa su(1) by simp
  moreover have "ival_ok b" unfolding ival_ok_def using ob su(2) o(3) all by (auto simp: b_def)
  moreover have "cov (iv_range a) = cov (iv_range ival) \<inter> {..<q}" unfolding all using cb cp q by (auto simp: a_def rs_def)
  moreover have "cov (iv_range b) = cov (iv_range ival) \<inter> {q..}" unfolding all using cb cp q by (auto simp: b_def)
  moreover have "cov (iv_range ival) \<inter> {pos..<q} = {}" unfolding all using cb' cp by (auto simp: q_def split: if_splits)
  ultimately show ?thesis using res q(1) ua ub u by (intro exI [of _ a] exI [of _ b] exI [of _ q]) (auto simp: a_def b_def)
qed
lemma redirect_spec: "v \<noteq> w \<Longrightarrow> redirect n v w vr i = (if 1 \<le> i \<and> i < n \<and> vr i = v then w else vr i)"
proof -
  assume ne: "v \<noteq> w"
  have "fold (\<lambda>i vr. if vr i = v then vr(i := w) else vr) xs vr i = (if i \<in> set xs \<and> vr i = v then w else vr i)" for xs vr
    using ne by (induction xs arbitrary: vr) auto
  then show ?thesis by (auto simp: redirect_def)
qed

text \<open>\<open>w\<close> takes over the intervals and the references of \<open>w'\<close>.\<close>

definition coalesced :: "live_ctx \<Rightarrow> ir_ref \<Rightarrow> nat \<Rightarrow> nat \<Rightarrow> live_ctx \<Rightarrow> bool" where
  "coalesced ctx n w w' ctx' \<longleftrightarrow> lives_ok ctx' \<and> live_intervals ctx' w' = [] \<and> live_intervals ctx' w \<noteq> [] \<and>
     cov (iv_range (hd (live_intervals ctx' w))) = cov (iv_range (hd (live_intervals ctx w))) \<union> cov (iv_range (hd (live_intervals ctx w'))) \<and>
     (\<forall>v. v \<noteq> w \<longrightarrow> v \<noteq> w' \<longrightarrow> live_intervals ctx' v = live_intervals ctx v) \<and>
     (\<forall>i\<in>{1..<n}. lc_vregs ctx' i = (if lc_vregs ctx i = w' then w else lc_vregs ctx i))"

lemma join_coalesced:
  assumes "lives_ok ctx" "w \<noteq> w'" "live_intervals ctx w \<noteq> []" "live_intervals ctx w' \<noteq> []"
    "iv_flags (hd (live_intervals ctx w)) AND IR_LIVE_INTERVAL_MEM_PARAM = 0 \<or> iv_flags (hd (live_intervals ctx w')) AND IR_LIVE_INTERVAL_MEM_PARAM = 0"
    and f: "\<forall>i\<in>{1..<n}. f (lc_vregs ctx) i = (if lc_vregs ctx i = w' then w else lc_vregs ctx i)"
  shows "\<exists>ctx'. map_option (\<lambda>ctx. ctx\<lparr>lc_vregs := f (lc_vregs ctx)\<rparr>) (ir_vregs_join ctx w w') = Some ctx' \<and> coalesced ctx n w w' ctx'"
proof -
  obtain a as b bs where ab: "live_intervals ctx w = a # as" "live_intervals ctx w' = b # bs" using assms(3,4) by (meson neq_Nil_conv)
  obtain c i where c: "ir_vregs_join ctx w w' = Some c" "lives_ok c" "live_intervals c = (live_intervals ctx)(w := i # as, w' := [])"
      "cov (iv_range i) = cov (iv_range a) \<union> cov (iv_range b)" "lc_vregs c = lc_vregs ctx"
    using vregs_join_ok [OF assms(1,2) ab assms(5) [unfolded ab list.sel]] by blast
  have "coalesced ctx n w w' (c\<lparr>lc_vregs := f (lc_vregs c)\<rparr>)"
    unfolding coalesced_def using c(2-5) ab f assms(2) by (simp add: lives_ok_def)
  then show ?thesis using c(1) by simp
qed

lemma coalesce_ok:
  assumes ok: "lives_ok ctx" "v1 \<noteq> v2" "live_intervals ctx v1 \<noteq> []" "live_intervals ctx v2 \<noteq> []"
    and mem: "iv_flags (hd (live_intervals ctx v1)) AND IR_LIVE_INTERVAL_MEM_PARAM = 0 \<or> iv_flags (hd (live_intervals ctx v2)) AND IR_LIVE_INTERVAL_MEM_PARAM = 0"
    and vr: "lc_vregs ctx from = v1" "lc_vregs ctx to = v2"
    and one: "\<And>v i j. iv_flags (hd (live_intervals ctx v)) AND IR_LIVE_INTERVAL_COALESCED = 0 \<Longrightarrow> lc_vregs ctx i = v \<Longrightarrow> lc_vregs ctx j = v \<Longrightarrow> v \<in> {v1, v2} \<Longrightarrow> i = j"
  shows "\<exists>ctx' w w'. ir_vregs_coalesce ctx n v1 v2 from to = Some ctx' \<and> {w, w'} = {v1, v2} \<and> coalesced ctx n w w' ctx'"
proof -
  define f1 where "f1 \<longleftrightarrow> iv_flags (hd (live_intervals ctx v1)) AND IR_LIVE_INTERVAL_COALESCED \<noteq> 0"
  define f2 where "f2 \<longleftrightarrow> iv_flags (hd (live_intervals ctx v2)) AND IR_LIVE_INTERVAL_COALESCED \<noteq> 0"
  have o2: "i = to" if "\<not> f2" "lc_vregs ctx i = v2" for i using one [of v2 i to] that vr(2) by (simp add: f2_def)
  have o1: "i = from" if "\<not> f1" "lc_vregs ctx i = v1" for i using one [of v1 i "from"] that vr(1) by (simp add: f1_def)
  have r2: "\<forall>i\<in>{1..<n}. (if f2 then redirect n v2 v1 (lc_vregs ctx) else (lc_vregs ctx)(to := v1)) i = (if lc_vregs ctx i = v2 then v1 else lc_vregs ctx i)"
    by (auto simp: redirect_spec [OF ok(2) [symmetric]] vr(2) dest: o2)
  have r1: "\<forall>i\<in>{1..<n}. (if f1 then redirect n v1 v2 (lc_vregs ctx) else (lc_vregs ctx)(from := v2)) i = (if lc_vregs ctx i = v1 then v2 else lc_vregs ctx i)"
    by (auto simp: redirect_spec [OF ok(2)] vr(1) dest: o1)
  note j2 = join_coalesced [OF ok(1-4) mem, of n "\<lambda>vr. if f2 then redirect n v2 v1 vr else vr(to := v1)", OF r2]
  note j1 = join_coalesced [OF ok(1) ok(2) [symmetric] ok(4,3) disj_commute [THEN iffD1, OF mem], of n "\<lambda>vr. if f1 then redirect n v1 v2 vr else vr(from := v2)", OF r1]
  have c: "ir_vregs_coalesce ctx n v1 v2 from to = (if (f1 \<and> \<not> f2) \<or> (\<not> (f2 \<and> \<not> f1) \<and> from < to)
      then map_option (\<lambda>c. c\<lparr>lc_vregs := if f2 then redirect n v2 v1 (lc_vregs c) else (lc_vregs c)(to := v1)\<rparr>) (ir_vregs_join ctx v1 v2)
      else map_option (\<lambda>c. c\<lparr>lc_vregs := if f1 then redirect n v1 v2 (lc_vregs c) else (lc_vregs c)(from := v2)\<rparr>) (ir_vregs_join ctx v2 v1))"
    unfolding ir_vregs_coalesce_def Let_def f1_def [symmetric] f2_def [symmetric] by simp
  show ?thesis
  proof (cases "(f1 \<and> \<not> f2) \<or> (\<not> (f2 \<and> \<not> f1) \<and> from < to)")
    case True
    then show ?thesis unfolding c if_P [OF True] using j2 by blast
  next
    case False
    then show ?thesis unfolding c if_not_P [OF False] using j1 insert_commute [of v1 v2] by metis
  qed
qed

lemma fold_last: "fold (\<lambda>u r. if F u then g u else r) us r = (if filter F us = [] then r else g (last (filter F us)))"
  by (induction us arbitrary: r) auto

lemma sorted_takeWhile_filter: "sorted (map up_pos us) \<Longrightarrow> takeWhile (\<lambda>u. up_pos u \<le> pos) us = filter (\<lambda>u. up_pos u \<le> pos) us"
proof (induction us)
  case (Cons u us)
  have "filter (\<lambda>u. up_pos u \<le> pos) us = []" if "\<not> up_pos u \<le> pos"
    using Cons.prems that by (auto simp: filter_empty_conv dest: order_trans)
  then show ?case using Cons by simp
qed simp

lemma sorted_last_Max: "sorted (map f xs) \<Longrightarrow> xs \<noteq> [] \<Longrightarrow> f (last xs) = Max (f ` set xs)"
proof (induction xs)
  case (Cons x xs)
  show ?case
  proof (cases "xs = []")
    case False
    then have "f (last xs) = Max (f ` set xs)" "f x \<le> f (last xs)" using Cons by (simp, metis last_in_set list.simps(9) sorted_simps(2) image_eqI list.set_map)
    then show ?thesis using False by (simp add: max_def)
  qed simp
qed simp

lemma last_use_spec:
  assumes "sorted (map up_pos (iv_use_pos i))" "S = up_pos ` {u \<in> set (iv_use_pos i). up_pos u \<le> pos \<and> up_flags u AND flags \<noteq> 0}"
  shows "ir_last_use_pos_before i pos flags = (if S = {} then 0 else Max S)"
proof -
  define us where "us = filter (\<lambda>u. up_flags u AND flags \<noteq> 0) (filter (\<lambda>u. up_pos u \<le> pos) (iv_use_pos i))"
  have "sorted (map up_pos us)" unfolding us_def using assms(1) by (intro sorted_filter [of _ _ _]) simp
  moreover have "S = up_pos ` set us" unfolding assms(2) us_def by auto
  ultimately show ?thesis using sorted_last_Max [of up_pos us]
    unfolding ir_last_use_pos_before_def fold_last sorted_takeWhile_filter [OF assms(1)] us_def [symmetric] by auto
qed

text \<open>A sorted list without some front part: what is left out is early, and it starts no later than the wanted element.\<close>

lemma dropWhile_first:
  assumes "sorted (map up_pos us)" "u \<in> set us" "F u"
  shows "dropWhile (\<lambda>u. \<not> F u) us \<noteq> [] \<and> up_pos (hd (dropWhile (\<lambda>u. \<not> F u) us)) \<le> up_pos u \<and>
    F (hd (dropWhile (\<lambda>u. \<not> F u) us)) \<and> hd (dropWhile (\<lambda>u. \<not> F u) us) \<in> set us"
  using assms by (induction us) auto

lemma first_use_spec:
  assumes ok: "sorted (map up_pos (iv_use_pos i))" and r: "r = ir_first_use_pos_after i pos flags"
  shows "(r = 0x7fffffff \<or> (\<exists>u\<in>set (iv_use_pos i). up_pos u = r \<and> pos \<le> r \<and> up_flags u AND flags \<noteq> 0)) \<and>
    (\<forall>u\<in>set (iv_use_pos i). pos < up_pos u \<longrightarrow> up_flags u AND flags \<noteq> 0 \<longrightarrow> r \<le> up_pos u)"
proof -
  define a where "a = dropWhile (\<lambda>u. up_pos u < pos) (iv_use_pos i)"
  define b where "b = (case a of [] \<Rightarrow> [] | u # us \<Rightarrow> if up_pos u = pos \<and> up_op_num u \<noteq> 0 then us else u # us)"
  define c where "c = dropWhile (\<lambda>u. \<not> up_flags u AND flags \<noteq> 0) b"
  have r': "r = (case c of [] \<Rightarrow> 0x7fffffff | u # us \<Rightarrow> up_pos u)"
    unfolding r ir_first_use_pos_after_def Let_def a_def [symmetric] b_def [symmetric] c_def by simp
  have e: "iv_use_pos i = takeWhile (\<lambda>u. up_pos u < pos) (iv_use_pos i) @ a" by (simp add: a_def)
  have sa: "sorted (map up_pos a)" "set a \<subseteq> set (iv_use_pos i)"
    using ok by (subst (asm) e, simp add: sorted_append) (subst e, simp)
  have ab: "set b \<subseteq> set a" "sorted (map up_pos b)" using sa(1) by (auto simp: b_def split: list.splits if_splits)
  have low: "pos \<le> up_pos u" if "u \<in> set a" for u
  proof (cases a)
    case (Cons x xs)
    then have "\<not> up_pos x < pos" unfolding a_def by (metis dropWhile_eq_Cons_conv)
    then show ?thesis using sa(1) that Cons by auto
  qed (use that in simp)
  have inb: "u \<in> set b" if "u \<in> set (iv_use_pos i)" "pos < up_pos u" for u
  proof -
    have "u \<in> set a" using that using e by (metis Un_iff less_asym set_append set_takeWhileD)
    then show ?thesis using that(2) by (cases a) (auto simp: b_def)
  qed
  have "r \<le> up_pos u" if "u \<in> set (iv_use_pos i)" "pos < up_pos u" "up_flags u AND flags \<noteq> 0" for u
    using dropWhile_first [OF ab(2) inb [OF that(1,2)], of "\<lambda>u. up_flags u AND flags \<noteq> 0"] that(3) unfolding r' c_def by (auto split: list.split)
  moreover have "r = 0x7fffffff \<or> (\<exists>u\<in>set (iv_use_pos i). up_pos u = r \<and> pos \<le> r \<and> up_flags u AND flags \<noteq> 0)"
  proof (cases c)
    case (Cons x xs)
    then have "x \<in> set (dropWhile (\<lambda>u. \<not> up_flags u AND flags \<noteq> 0) b)" by (simp add: c_def)
    then have "x \<in> set b" by (rule set_dropWhileD)
    moreover have "\<not> \<not> up_flags (hd (dropWhile (\<lambda>u. \<not> up_flags u AND flags \<noteq> 0) b)) AND flags \<noteq> 0"
      by (rule hd_dropWhile) (use Cons in \<open>simp add: c_def\<close>)
    ultimately have "x \<in> set b" "up_flags x AND flags \<noteq> 0" using Cons by (simp_all add: c_def)
    then show ?thesis using Cons r' ab(1) sa(2) low by (intro disjI2 bexI [of _ x]) auto
  qed (simp add: r')
  ultimately show ?thesis by blast
qed

section \<open>Properties\<close>

text \<open>C7: Adding a range to an interval, by any of the three functions, keeps the ranges of all intervals disjoint, in order and
  separated and the cached end right, and afterwards the interval covers exactly what it covered before and the new range,
  however many ranges are merged.\<close>

theorem live_range_added:
  assumes "lives_ok ctx" "start < end" "ctx' = ir_add_live_range ctx v start end \<or> ctx' = ir_add_prev_live_range ctx v start end \<or>
      (v = lc_vregs_count ctx + 1 + reg \<and> ctx' = ir_add_fixed_live_range ctx reg start end)"
  shows "lives_ok ctx' \<and> chain_cov (live_intervals ctx' v) = chain_cov (live_intervals ctx v) \<union> {start..<end} \<and>
    (\<forall>w. w \<noteq> v \<longrightarrow> live_intervals ctx' w = live_intervals ctx w)"
proof -
  have r: "range_added ctx v start end ctx'"
    using assms(3) add_live_range_ok [OF assms(1,2)] add_prev_live_range_ok [OF assms(1,2)] add_fixed_live_range_ok [OF assms(1,2)] by auto
  then show ?thesis unfolding range_added_def by (cases "live_intervals ctx v"; cases "live_intervals ctx' v") auto
qed

definition demo_i :: ir_live_interval where
  "demo_i = \<lparr>iv_type = IR_I32, iv_reg = -1, iv_flags = 0, iv_vreg = 1, iv_spill_pos = -1, iv_end = 20,
     iv_range = [\<lparr>lr_start = 4, lr_end = 8\<rparr>, \<lparr>lr_start = 12, lr_end = 20\<rparr>],
     iv_use_pos = [\<lparr>up_op_num = 0, up_hint = -1, up_flags = 0, up_hint_ref = 0, up_pos = 6\<rparr>,
       \<lparr>up_op_num = 1, up_hint = -1, up_flags = 1, up_hint_ref = 0, up_pos = 13\<rparr>]\<rparr>"

definition demo_j :: ir_live_interval where
  "demo_j = new_interval IR_I32 (-1) 0 2 (-1) 8 12"

definition demo_live :: live_ctx where
  "demo_live = \<lparr>live_intervals = (\<lambda>v. if v = 1 then [demo_i] else if v = 2 then [demo_j] else []),
     unused_ranges = [], lc_vregs = (\<lambda>_. 0), lc_vregs_count = 3, lc_flags2 = 0\<rparr>"

lemma demo_ivals: "live_intervals demo_live 1 = [demo_i]" "live_intervals demo_live 2 = [demo_j]" "ival_ok demo_i" "ival_ok demo_j"
  "iv_end demo_i = 20" "lr_start (hd (iv_range demo_i)) = 4" "iv_flags demo_i = 0"
  by (simp_all add: demo_live_def demo_j_def new_interval_ok(1)) (simp_all add: demo_i_def ival_ok_def ok_Cons)

lemma demo_live_ok: "lives_ok demo_live"
  using demo_ivals(3,4) by (simp add: lives_ok_def demo_live_def)

theorem live_range_added_witness:
  "lives_ok (ir_add_live_range demo_live 1 7 13) \<and>
    chain_cov (live_intervals (ir_add_live_range demo_live 1 7 13) 1) = chain_cov (live_intervals demo_live 1) \<union> {7..<13} \<and>
    live_intervals (ir_add_live_range demo_live 1 7 13) 2 = live_intervals demo_live 2"
  using live_range_added [OF demo_live_ok, of 7 13 "ir_add_live_range demo_live 1 7 13" 1 0] by simp

text \<open>C11: The queries on ranges are the questions on sets of positions: \<open>ir_ivals_overlap\<close> gives the first common position
  and 0 when there is none, \<open>ir_ivals_inside\<close> tells whether the child lies in the parent, \<open>ir_ival_covers\<close> is membership, and
  \<open>ir_ival_has_hole_between\<close> tells whether a position between the two is not covered.\<close>

theorem live_range_queries:
  assumes "ival_ok i" "ival_ok j" "from < to" "to \<le> iv_end i"
  shows "ir_ivals_overlap (iv_range i) (iv_range j) =
      (if cov (iv_range i) \<inter> cov (iv_range j) = {} then 0 else Min (cov (iv_range i) \<inter> cov (iv_range j))) \<and>
    (ir_ivals_inside (iv_range i) (iv_range j) \<longleftrightarrow> cov (iv_range j) \<subseteq> cov (iv_range i)) \<and>
    (ir_ival_covers i x \<longleftrightarrow> x \<in> cov (iv_range i)) \<and> (ir_ival_has_hole_between i from to \<longleftrightarrow> \<not> {from..<to} \<subseteq> cov (iv_range i))"
proof (intro conjI)
  have o: "ranges_ok (iv_range i)" "ranges_ok (iv_range j)" "iv_range i \<noteq> []" "iv_end i = lr_end (last (iv_range i))" using assms by (simp_all add: ival_ok_def)
  have fin: "finite (cov (iv_range i) \<inter> cov (iv_range j))" by (simp add: cov_def range_set_def)
  show "ir_ivals_overlap (iv_range i) (iv_range j) =
      (if cov (iv_range i) \<inter> cov (iv_range j) = {} then 0 else Min (cov (iv_range i) \<inter> cov (iv_range j)))"
  proof (cases "cov (iv_range i) \<inter> cov (iv_range j) = {}")
    case True
    then show ?thesis using overlap_spec [OF o(1,2)] by simp
  next
    case False
    then have "ir_ivals_overlap (iv_range i) (iv_range j) \<in> cov (iv_range i) \<inter> cov (iv_range j)"
        "\<forall>x\<in>cov (iv_range i) \<inter> cov (iv_range j). ir_ivals_overlap (iv_range i) (iv_range j) \<le> x"
      using overlap_spec [OF o(1,2)] by simp_all
    then have "Min (cov (iv_range i) \<inter> cov (iv_range j)) = ir_ivals_overlap (iv_range i) (iv_range j)" by (intro Min_eqI [OF fin]) blast+
    then show ?thesis using False by simp
  qed
  show "ir_ivals_inside (iv_range i) (iv_range j) \<longleftrightarrow> cov (iv_range j) \<subseteq> cov (iv_range i)" by (rule inside_spec [OF o(1,2)])
  show "ir_ival_covers i x \<longleftrightarrow> x \<in> cov (iv_range i)" by (simp add: ir_ival_covers_def covers_spec o(1))
  show "ir_ival_has_hole_between i from to \<longleftrightarrow> \<not> {from..<to} \<subseteq> cov (iv_range i)"
    using hole_spec [OF o(1,3) assms(3)] assms(4) o(4) by (simp add: ir_ival_has_hole_between_def)
qed

theorem live_range_queries_witness:
  "ir_ivals_overlap (iv_range demo_i) (iv_range demo_j) =
      (if cov (iv_range demo_i) \<inter> cov (iv_range demo_j) = {} then 0 else Min (cov (iv_range demo_i) \<inter> cov (iv_range demo_j))) \<and>
    (ir_ivals_inside (iv_range demo_i) (iv_range demo_j) \<longleftrightarrow> cov (iv_range demo_j) \<subseteq> cov (iv_range demo_i)) \<and>
    (ir_ival_covers demo_i 9 \<longleftrightarrow> 9 \<in> cov (iv_range demo_i)) \<and> (ir_ival_has_hole_between demo_i 5 14 \<longleftrightarrow> \<not> {5..<14} \<subseteq> cov (iv_range demo_i))"
  by (rule live_range_queries) (simp_all add: demo_ivals)

text \<open>C8: Splitting an interval loses nothing: the two parts cover disjoint halves of what the interval covered, cut at the wanted position
  or at the end of the hole it lies in, every use position stays with one of them in order, and all intervals stay well formed. The assertion
  in the function holds.\<close>

theorem split_interval_at:
  assumes "lives_ok ctx" "k < length (live_intervals ctx v)" "ival = live_intervals ctx v ! k"
    "lr_start (hd (iv_range ival)) < pos" "pos < iv_end ival"
  shows "\<exists>ctx' a b q. ir_split_interval_at ctx v k pos = Some ctx' \<and> lives_ok ctx' \<and> pos \<le> q \<and>
    live_intervals ctx' = (live_intervals ctx)(v := take k (live_intervals ctx v) @ a # b # drop (Suc k) (live_intervals ctx v)) \<and>
    cov (iv_range a) = cov (iv_range ival) \<inter> {..<q} \<and> cov (iv_range b) = cov (iv_range ival) \<inter> {q..} \<and> cov (iv_range ival) \<inter> {pos..<q} = {} \<and>
    iv_use_pos ival = iv_use_pos a @ iv_use_pos b \<and> (\<forall>u\<in>set (iv_use_pos a). up_pos u \<le> q) \<and> (\<forall>u\<in>set (iv_use_pos b). q \<le> up_pos u)"
proof -
  have ok: "ival_ok ival" using assms(1-3) unfolding lives_ok_def by (metis nth_mem)
  obtain a b freed q where s: "split_interval ival pos = Some (a, b, freed)" "ival_ok a" "ival_ok b" "pos \<le> q"
      "cov (iv_range a) = cov (iv_range ival) \<inter> {..<q}" "cov (iv_range b) = cov (iv_range ival) \<inter> {q..}" "cov (iv_range ival) \<inter> {pos..<q} = {}"
      "iv_use_pos ival = iv_use_pos a @ iv_use_pos b" "\<forall>u\<in>set (iv_use_pos a). up_pos u \<le> q" "\<forall>u\<in>set (iv_use_pos b). q \<le> up_pos u"
    using split_spec [OF ok assms(4,5)] by blast
  define ctx' where "ctx' = ctx\<lparr>lc_flags2 := lc_flags2 ctx OR IR_RA_HAVE_SPLITS, unused_ranges := freed @ unused_ranges ctx,
    live_intervals := (live_intervals ctx)(v := take k (live_intervals ctx v) @ a # b # drop (Suc k) (live_intervals ctx v))\<rparr>"
  have r: "ir_split_interval_at ctx v k pos = Some ctx'" using s(1) by (simp add: ir_split_interval_at_def assms(3) [symmetric] ctx'_def)
  have li: "live_intervals ctx' = (live_intervals ctx)(v := take k (live_intervals ctx v) @ a # b # drop (Suc k) (live_intervals ctx v))" by (simp add: ctx'_def)
  have "\<forall>i\<in>set (take k (live_intervals ctx v) @ a # b # drop (Suc k) (live_intervals ctx v)). ival_ok i"
    using assms(1) s(2,3) by (auto simp: lives_ok_def dest!: in_set_takeD in_set_dropD)
  then have "lives_ok ctx'" by (rule lives_ok_update [OF assms(1) _ li])
  then show ?thesis using r li s(4-) by (intro exI [of _ ctx'] exI [of _ a] exI [of _ b] exI [of _ q]) simp
qed

theorem split_interval_at_witness:
  "\<exists>ctx' a b q. ir_split_interval_at demo_live 1 0 9 = Some ctx' \<and> lives_ok ctx' \<and> 9 \<le> q \<and>
    live_intervals ctx' = (live_intervals demo_live)(1 := take 0 (live_intervals demo_live 1) @ a # b # drop (Suc 0) (live_intervals demo_live 1)) \<and>
    cov (iv_range a) = cov (iv_range demo_i) \<inter> {..<q} \<and> cov (iv_range b) = cov (iv_range demo_i) \<inter> {q..} \<and> cov (iv_range demo_i) \<inter> {9..<q} = {} \<and>
    iv_use_pos demo_i = iv_use_pos a @ iv_use_pos b \<and> (\<forall>u\<in>set (iv_use_pos a). up_pos u \<le> q) \<and> (\<forall>u\<in>set (iv_use_pos b). q \<le> up_pos u)"
  by (rule split_interval_at) (use demo_ivals in \<open>simp_all add: demo_live_ok\<close>)

text \<open>C9: Joining two virtual registers gives one interval that covers what both covered, with the use positions of both in order; only hints
  at the other register are forgotten. The second interval is gone and no other changes. The assertion in the function holds when
  not both are parameters in memory.\<close>

theorem vregs_join:
  assumes "lives_ok ctx" "r1 \<noteq> r2" "live_intervals ctx r1 = ival1 # chain1" "live_intervals ctx r2 = ival2 # chain2"
    "iv_flags ival1 AND IR_LIVE_INTERVAL_MEM_PARAM = 0 \<or> iv_flags ival2 AND IR_LIVE_INTERVAL_MEM_PARAM = 0"
  shows "\<exists>ctx' ival. ir_vregs_join ctx r1 r2 = Some ctx' \<and> lives_ok ctx' \<and> live_intervals ctx' = (live_intervals ctx)(r1 := ival # chain1, r2 := []) \<and>
    cov (iv_range ival) = cov (iv_range ival1) \<union> cov (iv_range ival2) \<and>
    mset (iv_use_pos ival) = mset (map (clear_hint (lc_vregs ctx) r2) (iv_use_pos ival1)) + mset (map (clear_hint (lc_vregs ctx) r1) (iv_use_pos ival2))"
  using vregs_join_ok [OF assms] by blast

theorem vregs_join_witness:
  "\<exists>ctx' ival. ir_vregs_join demo_live 1 2 = Some ctx' \<and> lives_ok ctx' \<and> live_intervals ctx' = (live_intervals demo_live)(1 := ival # [], 2 := []) \<and>
    cov (iv_range ival) = cov (iv_range demo_i) \<union> cov (iv_range demo_j) \<and>
    mset (iv_use_pos ival) = mset (map (clear_hint (lc_vregs demo_live) 2) (iv_use_pos demo_i)) + mset (map (clear_hint (lc_vregs demo_live) 1) (iv_use_pos demo_j))"
  by (rule vregs_join) (use demo_ivals in \<open>simp_all add: demo_live_ok\<close>)

text \<open>C10: Coalescing the registers of two references leaves one of the two registers, which covers what both covered; every
  reference to either register names it afterwards, and no other reference and no other interval changes. The short way, changing
  only one reference, is right because an interval that was never coalesced belongs to one reference.\<close>

theorem vregs_coalesce:
  assumes "lives_ok ctx" "v1 \<noteq> v2" "live_intervals ctx v1 \<noteq> []" "live_intervals ctx v2 \<noteq> []"
    "iv_flags (hd (live_intervals ctx v1)) AND IR_LIVE_INTERVAL_MEM_PARAM = 0 \<or> iv_flags (hd (live_intervals ctx v2)) AND IR_LIVE_INTERVAL_MEM_PARAM = 0"
    "lc_vregs ctx from = v1" "lc_vregs ctx to = v2"
    "\<And>v i j. iv_flags (hd (live_intervals ctx v)) AND IR_LIVE_INTERVAL_COALESCED = 0 \<Longrightarrow> lc_vregs ctx i = v \<Longrightarrow> lc_vregs ctx j = v \<Longrightarrow> v \<in> {v1, v2} \<Longrightarrow> i = j"
  shows "\<exists>ctx' w w'. ir_vregs_coalesce ctx n v1 v2 from to = Some ctx' \<and> {w, w'} = {v1, v2} \<and> coalesced ctx n w w' ctx'"
  using assms by (rule coalesce_ok)

definition demo_vregs :: live_ctx where
  "demo_vregs = demo_live\<lparr>lc_vregs := (\<lambda>_. 3)(5 := 1, 6 := 2)\<rparr>"

theorem vregs_coalesce_witness:
  "\<exists>ctx' w w'. ir_vregs_coalesce demo_vregs 10 1 2 5 6 = Some ctx' \<and> {w, w'} = {1, 2} \<and> coalesced demo_vregs 10 w w' ctx'"
proof (rule vregs_coalesce)
  show "lives_ok demo_vregs" using demo_live_ok by (simp add: lives_ok_def demo_vregs_def)
  show "i = j" if "lc_vregs demo_vregs i = v" "lc_vregs demo_vregs j = v" "v \<in> {1, 2}" for v i j
    using that by (auto simp: demo_vregs_def split: if_splits)
qed (use demo_ivals in \<open>simp_all add: demo_vregs_def\<close>)



end
