(* ===== verification/Spill_Slots.thy ===== *)
theory Spill_Slots
  imports Live_Ranges
begin

text \<open>
  Spill slots on the stack frame (ir_ra.c): allocation by size with reuse of the parts left over, and the linear scan that gives
  every spilled virtual register a slot. Pointers have 8 bytes. Offsets are of type \<open>int32_t\<close>, whose overflow is undefined in C;
  they are integers here.
\<close>

section \<open>Allocation of a slot\<close>

record slot_state =
  stack_frame_size :: int
  unused_slot_4 :: int
  unused_slot_2 :: int
  unused_slot_1 :: int
  handled :: "(nat \<Rightarrow> ir_live_interval list) option"
  ra_flags2 :: u32

definition has_handled :: "slot_state \<Rightarrow> nat \<Rightarrow> bool" where
  "has_handled st sz \<longleftrightarrow> (case handled st of None \<Rightarrow> False | Some h \<Rightarrow> h sz \<noteq> [])"

definition pop_handled :: "slot_state \<Rightarrow> nat \<Rightarrow> slot_state \<times> int" where
  "pop_handled st sz = (let h = the (handled st) in (st\<lparr>handled := Some (h(sz := tl (h sz)))\<rparr>, iv_spill_pos (hd (h sz))))"

definition new_slot8 :: "slot_state \<Rightarrow> slot_state \<times> int" where
  "new_slot8 st = (st\<lparr>stack_frame_size := stack_frame_size st + 8\<rparr>, stack_frame_size st)"

definition ir_allocate_small_spill_slot :: "slot_state \<Rightarrow> nat \<Rightarrow> (slot_state \<times> int) option" where
  "ir_allocate_small_spill_slot st sz =
     (if sz \<notin> {0, 1, 2, 4, 8} then None
      else Some
       (if has_handled st sz then pop_handled st sz
        else if sz = 8 then new_slot8 st
        else if sz = 4 then
          if unused_slot_4 st \<noteq> 0 then (st\<lparr>unused_slot_4 := 0\<rparr>, unused_slot_4 st)
          else if has_handled st 8 then let (st, ret) = pop_handled st 8 in (st\<lparr>unused_slot_4 := ret + 4\<rparr>, ret)
          else let (st, ret) = new_slot8 st in (st\<lparr>unused_slot_4 := ret + 4\<rparr>, ret)
        else if sz = 2 then
          if unused_slot_2 st \<noteq> 0 then (st\<lparr>unused_slot_2 := 0\<rparr>, unused_slot_2 st)
          else if unused_slot_4 st \<noteq> 0 then (st\<lparr>unused_slot_2 := unused_slot_4 st + 2, unused_slot_4 := 0\<rparr>, unused_slot_4 st)
          else if has_handled st 4 then let (st, ret) = pop_handled st 4 in (st\<lparr>unused_slot_2 := ret + 2\<rparr>, ret)
          else if has_handled st 8 then let (st, ret) = pop_handled st 8 in (st\<lparr>unused_slot_2 := ret + 2, unused_slot_4 := ret + 4\<rparr>, ret)
          else let (st, ret) = new_slot8 st in (st\<lparr>unused_slot_2 := ret + 2, unused_slot_4 := ret + 4\<rparr>, ret)
        else if sz = 1 then
          if unused_slot_1 st \<noteq> 0 then (st\<lparr>unused_slot_1 := 0\<rparr>, unused_slot_1 st)
          else if unused_slot_2 st \<noteq> 0 then (st\<lparr>unused_slot_1 := unused_slot_2 st + 1, unused_slot_2 := 0\<rparr>, unused_slot_2 st)
          else if unused_slot_4 st \<noteq> 0 then
            (st\<lparr>unused_slot_1 := unused_slot_4 st + 1, unused_slot_2 := unused_slot_4 st + 2, unused_slot_4 := 0\<rparr>, unused_slot_4 st)
          else if has_handled st 2 then let (st, ret) = pop_handled st 2 in (st\<lparr>unused_slot_1 := ret + 1\<rparr>, ret)
          else if has_handled st 4 then let (st, ret) = pop_handled st 4 in (st\<lparr>unused_slot_1 := ret + 1, unused_slot_2 := ret + 2\<rparr>, ret)
          else if has_handled st 8 then
            let (st, ret) = pop_handled st 8 in (st\<lparr>unused_slot_1 := ret + 1, unused_slot_2 := ret + 2, unused_slot_4 := ret + 4\<rparr>, ret)
          else let (st, ret) = new_slot8 st in (st\<lparr>unused_slot_1 := ret + 1, unused_slot_2 := ret + 2, unused_slot_4 := ret + 4\<rparr>, ret)
        else (st, 0)))"

definition ir_allocate_spill_slot :: "slot_state \<Rightarrow> ir_type \<Rightarrow> (slot_state \<times> int) option" where
  "ir_allocate_spill_slot st type = ir_allocate_small_spill_slot st (ir_type_size type)"

definition IR_16B_FRAME_ALIGNMENT :: u32 where "IR_16B_FRAME_ALIGNMENT = push_bit 11 1"

definition align_int :: "int \<Rightarrow> int \<Rightarrow> int" where
  "align_int sz alignment = (sz + (alignment - 1)) AND NOT (alignment - 1)"

definition ir_allocate_big_spill_slot :: "slot_state \<Rightarrow> int \<Rightarrow> (slot_state \<times> int) option" where
  "ir_allocate_big_spill_slot st sz =
     (if sz \<le> 8 then
        let sz = (if sz = 3 then 4 else if sz > 4 \<and> sz < 8 then 8 else sz)
        in if sz < 0 then None else ir_allocate_small_spill_slot st (nat sz)
      else
        let ret = align_int (stack_frame_size st) 16; sz = align_int sz 8
        in Some (st\<lparr>ra_flags2 := ra_flags2 st OR IR_16B_FRAME_ALIGNMENT, stack_frame_size := ret + sz\<rparr>, ret))"

section \<open>Linear scan for spill slots\<close>

definition iv_start :: "ir_live_interval \<Rightarrow> ir_live_pos" where
  "iv_start ival = lr_start (hd (iv_range ival))"

definition spill_size :: "ir_live_interval \<Rightarrow> nat" where
  "spill_size ival = ir_type_size (iv_type ival)"

text \<open>An interval whose time is over offers its slot for reuse, unless the slot is offered already.\<close>

definition release :: "ir_live_interval \<Rightarrow> slot_state \<Rightarrow> slot_state option" where
  "release ival st =
     (let sz = spill_size ival; h = the (handled st) in
      if sz \<notin> {1, 2, 4, 8} then None
      else if \<exists>old\<in>set (h sz). iv_spill_pos old = iv_spill_pos ival then Some st
      else Some (st\<lparr>handled := Some (h(sz := ival # h sz))\<rparr>))"

fun expire :: "ir_live_pos \<Rightarrow> ir_live_interval list \<Rightarrow> slot_state \<Rightarrow> (ir_live_interval list \<times> slot_state) option" where
  "expire position [] st = Some ([], st)"
| "expire position (other # active) st =
     (if iv_end other \<le> position then Option.bind (release other st) (expire position active)
      else map_option (\<lambda>(active, st). (other # active, st)) (expire position active st))"

fun spill_loop :: "slot_state \<Rightarrow> ir_live_interval list \<Rightarrow> ir_live_interval list \<Rightarrow> (slot_state \<times> ir_live_interval list) option" where
  "spill_loop st active [] = Some (st, [])"
| "spill_loop st active (ival # unhandled) =
     Option.bind (expire (iv_start ival) active st) (\<lambda>(active, st).
     Option.bind (ir_allocate_spill_slot st (iv_type ival)) (\<lambda>(st, pos).
       let ival = ival\<lparr>iv_spill_pos := pos\<rparr> in
       if unhandled \<noteq> [] \<and> iv_end ival > iv_start (hd unhandled)
       then map_option (\<lambda>(st, ivals). (st, ival # ivals)) (spill_loop st (ival # active) unhandled)
       else Option.bind (release ival st) (\<lambda>st. map_option (\<lambda>(st, ivals). (st, ival # ivals)) (spill_loop st active unhandled))))"

fun ir_add_to_unhandled_spill :: "(nat \<times> ir_live_interval) list \<Rightarrow> nat \<times> ir_live_interval \<Rightarrow> (nat \<times> ir_live_interval) list" where
  "ir_add_to_unhandled_spill [] x = [x]"
| "ir_add_to_unhandled_spill (y # ys) x =
     (if iv_start (snd x) \<le> iv_start (snd y) then x # y # ys else y # ir_add_to_unhandled_spill ys x)"

definition IR_LIVE_INTERVAL_SPILLED :: "16 word" where "IR_LIVE_INTERVAL_SPILLED = 128"

definition chain_end :: "ir_live_interval list \<Rightarrow> ir_live_pos" where
  "chain_end ivals = lr_end (last (iv_range (last ivals)))"

text \<open>A register needs a slot when it was split or got no register, and has no slot yet.\<close>

definition needs_slot :: "ir_live_interval list \<Rightarrow> bool" where
  "needs_slot ivals \<longleftrightarrow> ivals \<noteq> [] \<and> (tl ivals \<noteq> [] \<or> iv_reg (hd ivals) = IR_REG_NONE) \<and> iv_spill_pos (hd ivals) = -1"

definition collect_spill :: "nat \<Rightarrow> live_ctx \<times> (nat \<times> ir_live_interval) list \<Rightarrow> live_ctx \<times> (nat \<times> ir_live_interval) list" where
  "collect_spill j s =
     (case s of (ctx, unhandled) \<Rightarrow>
        let ivals = live_intervals ctx j in
        if needs_slot ivals then
          let ival = (hd ivals)\<lparr>iv_flags := iv_flags (hd ivals) OR IR_LIVE_INTERVAL_SPILLED\<rparr> in
          if iv_flags ival AND IR_LIVE_INTERVAL_MEM_PARAM = 0 then
            let ival = ival\<lparr>iv_end := chain_end (ival # tl ivals)\<rparr>
            in (ctx\<lparr>live_intervals := (live_intervals ctx)(j := ival # tl ivals)\<rparr>, ir_add_to_unhandled_spill unhandled (j, ival))
          else (ctx\<lparr>live_intervals := (live_intervals ctx)(j := ival # tl ivals)\<rparr>, unhandled)
        else s)"

definition write_back :: "(nat \<times> ir_live_interval) list \<Rightarrow> live_ctx \<Rightarrow> live_ctx" where
  "write_back xs ctx =
     fold (\<lambda>(j, ival) ctx. ctx\<lparr>live_intervals := (live_intervals ctx)(j := ival # tl (live_intervals ctx j))\<rparr>) xs ctx"

definition assign_spill_slots :: "live_ctx \<Rightarrow> slot_state \<Rightarrow> (live_ctx \<times> slot_state) option" where
  "assign_spill_slots ctx st =
     (let (ctx, unhandled) = fold collect_spill (rev [1..<Suc (lc_vregs_count ctx)]) (ctx, []) in
      if unhandled \<noteq> [] then
        map_option (\<lambda>(st, ivals). (write_back (zip (map fst unhandled) ivals) ctx, st\<lparr>handled := None\<rparr>))
          (spill_loop (st\<lparr>handled := Some (\<lambda>_. [])\<rparr>) [] (map snd unhandled))
      else Some (ctx, st))"

section \<open>The frame as a set of slots\<close>

type_synonym slot = "int \<times> nat"

definition holds_byte :: "slot \<Rightarrow> int \<Rightarrow> nat" where
  "holds_byte s x = (if fst s \<le> x \<and> x < fst s + int (snd s) then 1 else 0)"

text \<open>How many of the slots a byte of the frame belongs to.\<close>

definition byte_count :: "slot list \<Rightarrow> int \<Rightarrow> nat" where
  "byte_count ss x = sum_list (map (\<lambda>s. holds_byte s x) ss)"

definition handled_slots :: "slot_state \<Rightarrow> nat \<Rightarrow> slot list" where
  "handled_slots st sz = (case handled st of None \<Rightarrow> [] | Some h \<Rightarrow> map (\<lambda>i. (iv_spill_pos i, sz)) (h sz))"

definition free_slots :: "slot_state \<Rightarrow> slot list" where
  "free_slots st =
     (if unused_slot_4 st \<noteq> 0 then [(unused_slot_4 st, 4)] else []) @ (if unused_slot_2 st \<noteq> 0 then [(unused_slot_2 st, 2)] else []) @
     (if unused_slot_1 st \<noteq> 0 then [(unused_slot_1 st, 1)] else []) @
     handled_slots st 1 @ handled_slots st 2 @ handled_slots st 4 @ handled_slots st 8"

definition aligned :: "slot \<Rightarrow> bool" where
  "aligned s \<longleftrightarrow> fst s mod int (snd s) = 0 \<and> 0 < snd s"

text \<open>
  Slots in use and free ones lie in the frame, are aligned to their sizes, and no byte belongs to two of them.
\<close>

definition frame_ok :: "slot list \<Rightarrow> slot_state \<Rightarrow> bool" where
  "frame_ok live st \<longleftrightarrow> stack_frame_size st mod 8 = 0 \<and> 0 \<le> stack_frame_size st \<and> (\<forall>s\<in>set (live @ free_slots st). 0 < snd s) \<and>
     (\<forall>s\<in>set (free_slots st). aligned s) \<and>
     (\<forall>x. byte_count (live @ free_slots st) x \<le> (if 0 \<le> x \<and> x < stack_frame_size st then 1 else 0))"

lemma byte_count_simps [simp]: "byte_count [] x = 0" "byte_count (s # ss) x = holds_byte s x + byte_count ss x"
  "byte_count (ss @ ts) x = byte_count ss x + byte_count ts x"
  by (simp_all add: byte_count_def)

lemma byte_count_mem: "s \<in> set ss \<Longrightarrow> holds_byte s x \<le> byte_count ss x"
  by (induction ss) auto

lemma frame_bounds:
  assumes "frame_ok live st" "s \<in> set (live @ free_slots st)"
  shows "0 \<le> fst s" "fst s + int (snd s) \<le> stack_frame_size st"
proof -
  have n: "0 < snd s" using assms unfolding frame_ok_def by blast
  have "holds_byte s x \<le> (if 0 \<le> x \<and> x < stack_frame_size st then 1 else 0)" for x
    using byte_count_mem [OF assms(2), of x] assms(1) unfolding frame_ok_def by (meson order_trans)
  from this [of "fst s"] this [of "fst s + int (snd s) - 1"] n
  show "0 \<le> fst s" "fst s + int (snd s) \<le> stack_frame_size st" by (auto simp: holds_byte_def split: if_splits)
qed
text \<open>Reading the frame by its parts.\<close>

definition unused_slots :: "int \<Rightarrow> nat \<Rightarrow> slot list" where
  "unused_slots p k = (if p \<noteq> 0 then [(p, k)] else [])"

definition offered :: "slot_state \<Rightarrow> slot list" where
  "offered st = handled_slots st 1 @ handled_slots st 2 @ handled_slots st 4 @ handled_slots st 8"

lemma free_parts:
  "free_slots st = unused_slots (unused_slot_4 st) 4 @ unused_slots (unused_slot_2 st) 2 @ unused_slots (unused_slot_1 st) 1 @ offered st"
  by (simp add: free_slots_def unused_slots_def offered_def)

lemma unused_slots_simps [simp]: "unused_slots 0 k = []" "p \<noteq> 0 \<Longrightarrow> unused_slots p k = [(p, k)]"
  by (simp_all add: unused_slots_def)

lemma offered_update [simp]:
  "offered (st\<lparr>unused_slot_4 := a\<rparr>) = offered st" "offered (st\<lparr>unused_slot_2 := a\<rparr>) = offered st" "offered (st\<lparr>unused_slot_1 := a\<rparr>) = offered st"
  "offered (st\<lparr>stack_frame_size := a\<rparr>) = offered st" "offered (st\<lparr>ra_flags2 := f\<rparr>) = offered st"
  by (simp_all add: offered_def handled_slots_def)

lemma holds_split:
  "holds_byte (r, 8) x = holds_byte (r, 4) x + holds_byte (r + 4, 4) x"
  "holds_byte (r, 4) x = holds_byte (r, 2) x + holds_byte (r + 2, 2) x"
  "holds_byte (r, 2) x = holds_byte (r, 1) x + holds_byte (r + 1, 1) x"
  by (auto simp: holds_byte_def)

lemma aligned_parts:
  "aligned (r, 8) \<Longrightarrow> aligned (r, 4) \<and> aligned (r + 4, 4)" "aligned (r, 4) \<Longrightarrow> aligned (r, 2) \<and> aligned (r + 2, 2)"
  "aligned (r, 2) \<Longrightarrow> aligned (r, 1) \<and> aligned (r + 1, 1)"
  by (simp_all add: aligned_def) presburger+

lemma pop_handled_spec:
  assumes "has_handled st k" "k \<in> {1, 2, 4, 8}" "pop_handled st k = (st', r)"
  shows "\<And>x. byte_count (offered st) x = holds_byte (r, k) x + byte_count (offered st') x" "(r, k) \<in> set (offered st)" "set (offered st') \<subseteq> set (offered st)"
    "unused_slot_4 st' = unused_slot_4 st" "unused_slot_2 st' = unused_slot_2 st" "unused_slot_1 st' = unused_slot_1 st" "stack_frame_size st' = stack_frame_size st"
proof -
  obtain h i js where h: "handled st = Some h" "h k = i # js" using assms(1) by (cases "handled st") (auto simp: has_handled_def neq_Nil_conv)
  have st': "st' = st\<lparr>handled := Some (h(k := js))\<rparr>" "r = iv_spill_pos i" using assms(3) h by (auto simp: pop_handled_def)
  show "unused_slot_4 st' = unused_slot_4 st" "unused_slot_2 st' = unused_slot_2 st" "unused_slot_1 st' = unused_slot_1 st" "stack_frame_size st' = stack_frame_size st"
    by (simp_all add: st')
  show "byte_count (offered st) x = holds_byte (r, k) x + byte_count (offered st') x" for x
    using assms(2) h by (auto simp: st' offered_def handled_slots_def)
  show "(r, k) \<in> set (offered st)" "set (offered st') \<subseteq> set (offered st)"
    using assms(2) h by (auto simp: st' offered_def handled_slots_def)
qed

lemma frame_step:
  assumes ok: "frame_ok live st" and fs: "stack_frame_size st \<le> stack_frame_size st'" "stack_frame_size st' mod 8 = 0"
    and bytes: "\<And>x. holds_byte (r, sz) x + byte_count (free_slots st') x \<le> byte_count (free_slots st) x +
      (if stack_frame_size st \<le> x \<and> x < stack_frame_size st' then 1 else 0)"
    and al: "\<forall>s\<in>set ((r, sz) # free_slots st'). aligned s"
  shows "frame_ok ((r, sz) # live) st' \<and> aligned (r, sz)"
proof -
  have "byte_count (((r, sz) # live) @ free_slots st') x \<le> (if 0 \<le> x \<and> x < stack_frame_size st' then 1 else 0)" for x
  proof -
    have "byte_count (((r, sz) # live) @ free_slots st') x \<le> byte_count (live @ free_slots st) x + (if stack_frame_size st \<le> x \<and> x < stack_frame_size st' then 1 else 0)"
      using bytes [of x] by simp
    moreover have "byte_count (live @ free_slots st) x \<le> (if 0 \<le> x \<and> x < stack_frame_size st then 1 else 0)" using ok unfolding frame_ok_def by blast
    moreover have "0 \<le> stack_frame_size st" using ok unfolding frame_ok_def by blast
    ultimately show ?thesis using fs(1) by (auto split: if_splits)
  qed
  moreover have "\<forall>s\<in>set (((r, sz) # live) @ free_slots st'). 0 < snd s" using ok al unfolding frame_ok_def aligned_def by auto
  ultimately show ?thesis using ok fs al unfolding frame_ok_def by auto
qed

text \<open>A block of \<open>k\<close> bytes at \<open>r\<close> has been taken out of the free slots, or from the end of the frame.\<close>

definition taken :: "slot_state \<Rightarrow> slot_state \<Rightarrow> int \<Rightarrow> nat \<Rightarrow> bool" where
  "taken st st' r k \<longleftrightarrow> stack_frame_size st \<le> stack_frame_size st' \<and> stack_frame_size st' mod 8 = 0 \<and> 0 \<le> r \<and>
     (\<forall>s\<in>set ((r, k) # free_slots st'). aligned s) \<and>
     (\<forall>x. holds_byte (r, k) x + byte_count (free_slots st') x =
        byte_count (free_slots st) x + (if stack_frame_size st \<le> x \<and> x < stack_frame_size st' then 1 else 0))"

lemma taken_ok: "frame_ok live st \<Longrightarrow> taken st st' r k \<Longrightarrow> frame_ok ((r, k) # live) st' \<and> aligned (r, k)"
  by (rule frame_step) (auto simp: taken_def)

lemma carve:
  "taken st st' r 8 \<Longrightarrow> unused_slot_4 st' = 0 \<Longrightarrow> taken st (st'\<lparr>unused_slot_4 := r + 4\<rparr>) r 4"
  "taken st st' r 4 \<Longrightarrow> unused_slot_2 st' = 0 \<Longrightarrow> taken st (st'\<lparr>unused_slot_2 := r + 2\<rparr>) r 2"
  "taken st st' r 2 \<Longrightarrow> unused_slot_1 st' = 0 \<Longrightarrow> taken st (st'\<lparr>unused_slot_1 := r + 1\<rparr>) r 1"
proof -
  show "taken st (st'\<lparr>unused_slot_4 := r + 4\<rparr>) r 4" if "taken st st' r 8" "unused_slot_4 st' = 0"
    using that aligned_parts(1) [of r] holds_split(1) [of r] by (simp add: taken_def free_parts ac_simps)
  show "taken st (st'\<lparr>unused_slot_2 := r + 2\<rparr>) r 2" if "taken st st' r 4" "unused_slot_2 st' = 0"
    using that aligned_parts(2) [of r] holds_split(2) [of r] by (simp add: taken_def free_parts ac_simps)
  show "taken st (st'\<lparr>unused_slot_1 := r + 1\<rparr>) r 1" if "taken st st' r 2" "unused_slot_1 st' = 0"
    using that aligned_parts(3) [of r] holds_split(3) [of r] by (simp add: taken_def free_parts ac_simps)
qed

lemma taken_new: "frame_ok live st \<Longrightarrow> new_slot8 st = (st', r) \<Longrightarrow> taken st st' r 8"
proof -
  assume a: "frame_ok live st" "new_slot8 st = (st', r)"
  then have e: "st' = st\<lparr>stack_frame_size := stack_frame_size st + 8\<rparr>" "r = stack_frame_size st" by (auto simp: new_slot8_def)
  have f: "stack_frame_size st mod 8 = 0" "0 \<le> stack_frame_size st" "\<forall>s\<in>set (free_slots st). aligned s" using a(1) by (auto simp: frame_ok_def)
  have "free_slots st' = free_slots st" by (simp add: e free_parts)
  then show "taken st st' r 8" using f by (simp add: taken_def e aligned_def holds_byte_def)
qed

lemma taken_pop: "frame_ok live st \<Longrightarrow> has_handled st k \<Longrightarrow> k \<in> {1, 2, 4, 8} \<Longrightarrow> pop_handled st k = (st', r) \<Longrightarrow> taken st st' r k"
proof -
  assume a: "frame_ok live st" "has_handled st k" "k \<in> {1, 2, 4, 8}" "pop_handled st k = (st', r)"
  note p = pop_handled_spec [OF a(2-4)]
  have f: "stack_frame_size st mod 8 = 0" "\<forall>s\<in>set (free_slots st). aligned s" using a(1) by (auto simp: frame_ok_def)
  have "0 \<le> r" using frame_bounds(1) [OF a(1), of "(r, k)"] p(2) by (simp add: free_parts)
  moreover have "\<forall>s\<in>set ((r, k) # free_slots st'). aligned s" using f(2) p(2-7) by (auto simp: free_parts)
  ultimately show "taken st st' r k" using f(1) p(1,4-7) by (simp add: taken_def free_parts)
qed

lemma taken_unused:
  assumes "frame_ok live st"
  shows "unused_slot_4 st \<noteq> 0 \<Longrightarrow> taken st (st\<lparr>unused_slot_4 := 0\<rparr>) (unused_slot_4 st) 4"
    "unused_slot_2 st \<noteq> 0 \<Longrightarrow> taken st (st\<lparr>unused_slot_2 := 0\<rparr>) (unused_slot_2 st) 2"
    "unused_slot_1 st \<noteq> 0 \<Longrightarrow> taken st (st\<lparr>unused_slot_1 := 0\<rparr>) (unused_slot_1 st) 1"
proof -
  have f: "stack_frame_size st mod 8 = 0" "\<forall>s\<in>set (free_slots st). aligned s" using assms by (auto simp: frame_ok_def)
  show "taken st (st\<lparr>unused_slot_4 := 0\<rparr>) (unused_slot_4 st) 4" if "unused_slot_4 st \<noteq> 0"
    using that f frame_bounds(1) [OF assms, of "(unused_slot_4 st, 4)"] by (simp add: taken_def free_parts)
  show "taken st (st\<lparr>unused_slot_2 := 0\<rparr>) (unused_slot_2 st) 2" if "unused_slot_2 st \<noteq> 0"
    using that f frame_bounds(1) [OF assms, of "(unused_slot_2 st, 2)"] by (simp add: taken_def free_parts)
  show "taken st (st\<lparr>unused_slot_1 := 0\<rparr>) (unused_slot_1 st) 1" if "unused_slot_1 st \<noteq> 0"
    using that f frame_bounds(1) [OF assms, of "(unused_slot_1 st, 1)"] by (simp add: taken_def free_parts)
qed

lemma fields_kept:
  "new_slot8 st = (st', r) \<Longrightarrow> unused_slot_4 st' = unused_slot_4 st \<and> unused_slot_2 st' = unused_slot_2 st \<and> unused_slot_1 st' = unused_slot_1 st"
  "pop_handled st k = (st', r) \<Longrightarrow> unused_slot_4 st' = unused_slot_4 st \<and> unused_slot_2 st' = unused_slot_2 st \<and> unused_slot_1 st' = unused_slot_1 st"
  by (auto simp: new_slot8_def pop_handled_def Let_def)

lemma slot_state_commute:
  "st\<lparr>unused_slot_2 := b, unused_slot_4 := a\<rparr> = st\<lparr>unused_slot_4 := a, unused_slot_2 := b\<rparr>"
  "st\<lparr>unused_slot_1 := c, unused_slot_4 := a\<rparr> = st\<lparr>unused_slot_4 := a, unused_slot_1 := c\<rparr>"
  "st\<lparr>unused_slot_1 := c, unused_slot_2 := b\<rparr> = st\<lparr>unused_slot_2 := b, unused_slot_1 := c\<rparr>"
  by simp_all

lemma small_slot_taken:
  assumes ok: "frame_ok live st" and sz: "sz \<in> {1, 2, 4, 8}" and r: "ir_allocate_small_spill_slot st sz = Some (st', r)"
  shows "taken st st' r sz"
proof (cases "has_handled st sz")
  case True
  then show ?thesis using r sz by (intro taken_pop [OF ok True sz]) (auto simp: ir_allocate_small_spill_slot_def)
next
  case False
  note pop = taken_pop [OF ok] and new = taken_new [OF ok] and un = taken_unused [OF ok]
  obtain n nr where n: "new_slot8 st = (n, nr)" by (cases "new_slot8 st")
  obtain p2 r2 p4 r4 p8 r8 where p: "pop_handled st 2 = (p2, r2)" "pop_handled st 4 = (p4, r4)" "pop_handled st 8 = (p8, r8)"
    by (metis prod.exhaust)
  consider "sz = 8" | "sz = 4" | "sz = 2" | "sz = 1" using sz by blast
  then show ?thesis
  proof cases
    case 1
    then show ?thesis using r False new by (simp add: ir_allocate_small_spill_slot_def)
  next
    case 2
    show ?thesis using r False fields_kept(1) [OF n] fields_kept(2) [OF p(3)] un(1) carve(1) [OF pop [OF _ _ p(3)]] carve(1) [OF new [OF n]] unfolding 2
      by (auto simp: ir_allocate_small_spill_slot_def n p split: if_splits)
  next
    case 3
    show ?thesis using r False fields_kept(1) [OF n] fields_kept(2) [OF p(3)] fields_kept(2) [OF p(2)] un(2) carve(2) [OF un(1)]
        carve(2) [OF pop [OF _ _ p(2)]] carve(2) [OF carve(1) [OF pop [OF _ _ p(3)]]] carve(2) [OF carve(1) [OF new [OF n]]] unfolding 3
      by (auto simp: ir_allocate_small_spill_slot_def n p slot_state_commute split: if_splits)
  next
    case 4
    show ?thesis using r False fields_kept(1) [OF n] fields_kept(2) [OF p(3)] fields_kept(2) [OF p(2)] fields_kept(2) [OF p(1)] un(3) carve(3) [OF un(2)] carve(3) [OF carve(2) [OF un(1)]]
        carve(3) [OF pop [OF _ _ p(1)]] carve(3) [OF carve(2) [OF pop [OF _ _ p(2)]]]
        carve(3) [OF carve(2) [OF carve(1) [OF pop [OF _ _ p(3)]]]] carve(3) [OF carve(2) [OF carve(1) [OF new [OF n]]]] unfolding 4
      by (auto simp: ir_allocate_small_spill_slot_def n p slot_state_commute split: if_splits)
  qed
qed

lemma small_slot_ok:
  assumes ok: "frame_ok live st" and sz: "sz \<in> {1, 2, 4, 8}"
  shows "\<exists>st' r. ir_allocate_small_spill_slot st sz = Some (st', r) \<and> frame_ok ((r, sz) # live) st' \<and> aligned (r, sz)"
proof -
  obtain st' r where r: "ir_allocate_small_spill_slot st sz = Some (st', r)"
    using sz unfolding ir_allocate_small_spill_slot_def by (metis (no_types, lifting) insertCI prod.exhaust insert_iff)
  then show ?thesis using taken_ok [OF ok small_slot_taken [OF ok sz r]] by blast
qed
section \<open>Slots during the scan\<close>

definition slot_of :: "ir_live_interval \<Rightarrow> slot" where
  "slot_of i = (iv_spill_pos i, spill_size i)"

definition sized :: "ir_live_interval \<Rightarrow> bool" where
  "sized i \<longleftrightarrow> spill_size i \<in> {1, 2, 4, 8}"

lemma frame_ok_cong:
  "frame_ok live st \<Longrightarrow> set live' = set live \<Longrightarrow> (\<And>x. byte_count live' x = byte_count live x) \<Longrightarrow> frame_ok live' st"
  unfolding frame_ok_def by simp

lemma frame_weaken:
  assumes "frame_ok (s # live) st"
  shows "frame_ok live st"
proof -
  have "byte_count (live @ free_slots st) x \<le> (if 0 \<le> x \<and> x < stack_frame_size st then 1 else 0)" for x
  proof -
    have "byte_count ((s # live) @ free_slots st) x \<le> (if 0 \<le> x \<and> x < stack_frame_size st then 1 else 0)" using assms unfolding frame_ok_def by blast
    then show ?thesis by (simp split: if_splits)
  qed
  then show ?thesis using assms unfolding frame_ok_def by simp
qed

lemma frame_fewer:
  assumes ok: "frame_ok live st" and st': "stack_frame_size st' = stack_frame_size st" "set (free_slots st') \<subseteq> set (free_slots st)"
    "\<And>x. byte_count (free_slots st') x \<le> byte_count (free_slots st) x"
  shows "frame_ok live st'"
proof -
  have "byte_count (live @ free_slots st') x \<le> (if 0 \<le> x \<and> x < stack_frame_size st' then 1 else 0)" for x
  proof -
    have "byte_count (live @ free_slots st) x \<le> (if 0 \<le> x \<and> x < stack_frame_size st then 1 else 0)" using ok unfolding frame_ok_def by blast
    then show ?thesis using st'(1) st'(3) [of x] by (simp split: if_splits)
  qed
  then show ?thesis using ok st'(1,2) unfolding frame_ok_def by auto
qed

lemma release_ok:
  assumes ok: "frame_ok (slot_of i # live) st" and i: "sized i" "aligned (slot_of i)" "handled st \<noteq> None"
  shows "\<exists>st'. release i st = Some st' \<and> frame_ok live st' \<and> handled st' \<noteq> None \<and> stack_frame_size st' = stack_frame_size st"
proof -
  obtain h where h: "handled st = Some h" using i(3) by blast
  show ?thesis
  proof (cases "\<exists>old\<in>set (h (spill_size i)). iv_spill_pos old = iv_spill_pos i")
    case True
    have "frame_ok live st" by (rule frame_weaken [OF ok])
    then show ?thesis using True h i by (auto simp: release_def sized_def)
  next
    case False
    let ?st = "st\<lparr>handled := Some (h(spill_size i := i # h (spill_size i)))\<rparr>"
    have fs: "set (free_slots ?st) = insert (slot_of i) (set (free_slots st))" "\<And>x. byte_count (free_slots ?st) x = holds_byte (slot_of i) x + byte_count (free_slots st) x"
      using i(1) h by (auto simp: sized_def free_parts offered_def handled_slots_def slot_of_def)
    have "frame_ok live ?st" using ok i(2) unfolding frame_ok_def by (simp add: fs ac_simps)
    then show ?thesis using False h i(1) by (auto simp: release_def sized_def Let_def)
  qed
qed

lemma expire_ok:
  assumes "frame_ok (map slot_of active @ live) st" "\<forall>a\<in>set active. sized a \<and> aligned (slot_of a)" "handled st \<noteq> None"
  shows "\<exists>st'. expire position active st = Some (filter (\<lambda>a. position < iv_end a) active, st') \<and>
    frame_ok (map slot_of (filter (\<lambda>a. position < iv_end a) active) @ live) st' \<and> handled st' \<noteq> None \<and>
    stack_frame_size st' = stack_frame_size st"
  using assms
proof (induction active arbitrary: live st)
  case (Cons a active)
  show ?case
  proof (cases "iv_end a \<le> position")
    case True
    obtain st1 where s1: "release a st = Some st1" "frame_ok (map slot_of active @ live) st1" "handled st1 \<noteq> None" "stack_frame_size st1 = stack_frame_size st"
      using release_ok [of a "map slot_of active @ live" st] Cons.prems by auto
    then show ?thesis using Cons.IH [OF s1(2) _ s1(3)] Cons.prems(2) True by simp
  next
    case False
    have "frame_ok (map slot_of active @ (slot_of a # live)) st" by (rule frame_ok_cong [OF Cons.prems(1)]) auto
    then obtain st' where s: "expire position active st = Some (filter (\<lambda>a. position < iv_end a) active, st')"
        "frame_ok (map slot_of (filter (\<lambda>a. position < iv_end a) active) @ (slot_of a # live)) st'" "handled st' \<noteq> None" "stack_frame_size st' = stack_frame_size st"
      using Cons.IH [of "slot_of a # live" st] Cons.prems by auto
    have "frame_ok (map slot_of (filter (\<lambda>a. position < iv_end a) (a # active)) @ live) st'" by (rule frame_ok_cong [OF s(2)]) (use False in auto)
    then show ?thesis using s False by auto
  qed
qed simp

lemma alloc_handled:
  assumes "ir_allocate_small_spill_slot st k = Some (st', r)" "handled st \<noteq> None"
  shows "handled st' \<noteq> None"
  using assms by (auto simp: ir_allocate_small_spill_slot_def pop_handled_def new_slot8_def Let_def split: if_splits)

lemma frame_disjoint:
  assumes "frame_ok live st" "s = live ! a" "t = live ! b" "a < b" "b < length live"
  shows "\<not> (fst s \<le> x \<and> x < fst s + int (snd s) \<and> fst t \<le> x \<and> x < fst t + int (snd t))"
proof
  assume h: "fst s \<le> x \<and> x < fst s + int (snd s) \<and> fst t \<le> x \<and> x < fst t + int (snd t)"
  have e: "live = take a live @ s # drop (Suc a) live" using assms by (simp add: id_take_nth_drop)
  have "t \<in> set (drop (Suc a) live)" using assms by (auto simp: in_set_conv_nth intro!: exI [of _ "b - Suc a"])
  then have "1 \<le> byte_count (drop (Suc a) live) x" using byte_count_mem [of t _ x] h by (fastforce simp: holds_byte_def)
  moreover have "byte_count live x = byte_count (take a live) x + (holds_byte s x + byte_count (drop (Suc a) live) x)"
    using arg_cong [OF e, of "\<lambda>ss. byte_count ss x"] by simp
  moreover have "holds_byte s x = 1" using h by (simp add: holds_byte_def)
  moreover have "byte_count (live @ free_slots st) x \<le> (if 0 \<le> x \<and> x < stack_frame_size st then 1 else 0)" using assms(1) unfolding frame_ok_def by blast
  ultimately show False by (simp split: if_splits)
qed

definition apart :: "slot \<Rightarrow> slot \<Rightarrow> bool" where
  "apart s t \<longleftrightarrow> fst s + int (snd s) \<le> fst t \<or> fst t + int (snd t) \<le> fst s"

lemma frame_apart:
  assumes "frame_ok (s # live) st" "t \<in> set live"
  shows "apart s t"
proof -
  obtain b where b: "b < length live" "t = live ! b" using assms(2) by (auto simp: in_set_conv_nth)
  have n: "0 < snd s" "0 < snd t" using assms unfolding frame_ok_def by auto
  note d = frame_disjoint [OF assms(1), of s 0 t "Suc b"]
  show ?thesis using d [of "fst s"] d [of "fst t"] b n unfolding apart_def by force
qed

text \<open>The result of the scan, seen from a state with some intervals active.\<close>

definition spills_ok :: "slot list \<Rightarrow> ir_live_interval list \<Rightarrow> ir_live_interval list \<Rightarrow> slot_state \<Rightarrow> ir_live_interval list \<Rightarrow> bool" where
  "spills_ok live active unhandled st' res \<longleftrightarrow>
     map (\<lambda>i. i\<lparr>iv_spill_pos := 0\<rparr>) res = map (\<lambda>i. i\<lparr>iv_spill_pos := 0\<rparr>) unhandled \<and>
     (\<forall>i\<in>set res. aligned (slot_of i) \<and> 0 \<le> iv_spill_pos i \<and> iv_spill_pos i + int (spill_size i) \<le> stack_frame_size st' \<and>
        (\<forall>s\<in>set live. apart (slot_of i) s) \<and> (\<forall>a\<in>set active. iv_start i < iv_end a \<longrightarrow> apart (slot_of i) (slot_of a))) \<and>
     sorted_wrt (\<lambda>i j. iv_start j < iv_end i \<longrightarrow> apart (slot_of j) (slot_of i)) res"
lemma strip_simps [simp]: "iv_start (i\<lparr>iv_spill_pos := p\<rparr>) = iv_start i" "spill_size (i\<lparr>iv_spill_pos := p\<rparr>) = spill_size i"
  by (simp_all add: iv_start_def spill_size_def)

lemma strip_starts:
  assumes "map (\<lambda>i. i\<lparr>iv_spill_pos := 0\<rparr>) res = map (\<lambda>i. i\<lparr>iv_spill_pos := 0\<rparr>) unhandled"
  shows "map iv_start res = map iv_start unhandled" "map spill_size res = map spill_size unhandled"
  using arg_cong [OF assms, of "map iv_start"] arg_cong [OF assms, of "map spill_size"] by (simp_all add: comp_def)

lemma spills_ok_step:
  assumes ok: "spills_ok live active' rest st' res" and sub: "active1 = filter (\<lambda>a. iv_start i < iv_end a) active" "set active1 \<subseteq> set active'"
    and srt: "sorted (map iv_start (i # rest))"
    and i': "i'\<lparr>iv_spill_pos := 0\<rparr> = i\<lparr>iv_spill_pos := 0\<rparr>" "iv_start i' = iv_start i" "iv_end i' = iv_end i"
    and fr: "frame_ok (slot_of i' # map slot_of active1 @ live) st2" "aligned (slot_of i')" "stack_frame_size st2 \<le> stack_frame_size st'"
    and kept: "i' \<in> set active' \<or> rest = [] \<or> iv_end i' \<le> iv_start (hd rest)"
  shows "spills_ok live active (i # rest) st' (i' # res)"
proof -
  have strip: "map (\<lambda>i. i\<lparr>iv_spill_pos := 0\<rparr>) res = map (\<lambda>i. i\<lparr>iv_spill_pos := 0\<rparr>) rest" using ok by (simp add: spills_ok_def)
  have starts: "\<exists>k\<in>set rest. iv_start k = iv_start j" if "j \<in> set res" for j
    using strip_starts(1) [OF strip] that by (metis in_set_conv_nth length_map nth_map)
  then have later: "iv_start i \<le> iv_start j" "rest \<noteq> [] \<and> iv_start (hd rest) \<le> iv_start j" if "j \<in> set res" for j
    using srt that by (fastforce, cases rest) fastforce+
  have bound: "0 \<le> iv_spill_pos i'" "iv_spill_pos i' + int (spill_size i') \<le> stack_frame_size st'"
    using frame_bounds [OF fr(1), of "slot_of i'"] fr(3) by (auto simp: slot_of_def)
  have ap: "apart (slot_of i') s" if "s \<in> set live \<or> s \<in> slot_of ` set active1" for s by (rule frame_apart [OF fr(1)]) (use that in auto)
  have 1: "\<forall>a\<in>set active. iv_start i' < iv_end a \<longrightarrow> apart (slot_of i') (slot_of a)" using ap sub(1) i'(2) by auto
  have 2: "\<forall>a\<in>set active. iv_start j < iv_end a \<longrightarrow> apart (slot_of j) (slot_of a)" if j: "j \<in> set res" for j
  proof (intro ballI impI)
    fix a assume a: "a \<in> set active" "iv_start j < iv_end a"
    then have "a \<in> set active'" using later(1) [OF j] sub by auto
    then show "apart (slot_of j) (slot_of a)" using ok a(2) j unfolding spills_ok_def by blast
  qed
  have 3: "\<forall>j\<in>set res. iv_start j < iv_end i' \<longrightarrow> apart (slot_of j) (slot_of i')"
  proof (intro ballI impI)
    fix j assume j: "j \<in> set res" "iv_start j < iv_end i'"
    then have "i' \<in> set active'" using kept later(2) [OF j(1)] by auto
    then show "apart (slot_of j) (slot_of i')" using ok j unfolding spills_ok_def by blast
  qed
  show ?thesis using ok strip i'(1) bound fr(2) ap 1 2 3 unfolding spills_ok_def by simp
qed

lemma spill_loop_ok:
  assumes "frame_ok (map slot_of active @ live) st" "\<forall>a\<in>set active. sized a \<and> aligned (slot_of a)" "handled st \<noteq> None"
    "sorted (map iv_start unhandled)" "\<forall>i\<in>set unhandled. sized i"
  shows "\<exists>st' res. spill_loop st active unhandled = Some (st', res) \<and> spills_ok live active unhandled st' res \<and>
    stack_frame_size st \<le> stack_frame_size st' \<and> (\<exists>live'. frame_ok (live' @ live) st')"
  using assms
proof (induction unhandled arbitrary: active st)
  case Nil
  then show ?case by (auto simp: spills_ok_def)
next
  case (Cons i rest)
  define active1 where "active1 = filter (\<lambda>a. iv_start i < iv_end a) active"
  obtain st1 where s1: "expire (iv_start i) active st = Some (active1, st1)" "frame_ok (map slot_of active1 @ live) st1" "handled st1 \<noteq> None"
      "stack_frame_size st1 = stack_frame_size st"
    using expire_ok [OF Cons.prems(1-3)] unfolding active1_def by blast
  have sz: "spill_size i \<in> {1, 2, 4, 8}" using Cons.prems(5) by (simp add: sized_def)
  obtain st2 r where s2: "ir_allocate_small_spill_slot st1 (spill_size i) = Some (st2, r)" "frame_ok ((r, spill_size i) # map slot_of active1 @ live) st2" "aligned (r, spill_size i)"
    using small_slot_ok [OF s1(2) sz] by blast
  have t: "stack_frame_size st1 \<le> stack_frame_size st2" using small_slot_taken [OF s1(2) sz s2(1)] by (simp add: taken_def)
  have h2: "handled st2 \<noteq> None" by (rule alloc_handled [OF s2(1) s1(3)])
  have al: "ir_allocate_spill_slot st1 (iv_type i) = Some (st2, r)" using s2(1) by (simp add: ir_allocate_spill_slot_def spill_size_def)
  define i' where "i' = i\<lparr>iv_spill_pos := r\<rparr>"
  have i': "i'\<lparr>iv_spill_pos := 0\<rparr> = i\<lparr>iv_spill_pos := 0\<rparr>" "iv_start i' = iv_start i" "iv_end i' = iv_end i" "slot_of i' = (r, spill_size i)" "sized i'"
    using sz by (simp_all add: i'_def iv_start_def slot_of_def spill_size_def sized_def)
  have rest: "sorted (map iv_start rest)" "\<forall>i\<in>set rest. sized i" using Cons.prems(4,5) by auto
  have act: "\<forall>a\<in>set active1. sized a \<and> aligned (slot_of a)" using Cons.prems(2) by (auto simp: active1_def)
  note step = spills_ok_step [OF _ active1_def _ Cons.prems(4) i'(1-3) s2(2) [folded i'(4)] s2(3) [folded i'(4)]]
  show ?case
  proof (cases "rest \<noteq> [] \<and> iv_end i' > iv_start (hd rest)")
    case True
    obtain st3 res where s3: "spill_loop st2 (i' # active1) rest = Some (st3, res)" "spills_ok live (i' # active1) rest st3 res" "stack_frame_size st2 \<le> stack_frame_size st3"
        "\<exists>live'. frame_ok (live' @ live) st3"
      using Cons.IH [of "i' # active1" st2] s2(2,3) i'(4,5) act h2 rest by auto
    have "spills_ok live active (i # rest) st3 (i' # res)" by (rule step [OF s3(2) _ s3(3)]) auto
    then show ?thesis using s1(1,4) al s3 True t i'(3) by (simp add: i'_def [symmetric] Let_def)
  next
    case False
    obtain st3 where s3: "release i' st2 = Some st3" "frame_ok (map slot_of active1 @ live) st3" "handled st3 \<noteq> None" "stack_frame_size st3 = stack_frame_size st2"
      using release_ok [of i' "map slot_of active1 @ live" st2] s2(2,3) i'(4,5) h2 by auto
    obtain st4 res where s4: "spill_loop st3 active1 rest = Some (st4, res)" "spills_ok live active1 rest st4 res" "stack_frame_size st3 \<le> stack_frame_size st4"
        "\<exists>live'. frame_ok (live' @ live) st4"
      using Cons.IH [of active1 st3] s3(2,3) act rest by auto
    have "spills_ok live active (i # rest) st4 (i' # res)" by (rule step [OF s4(2)]) (use False s3(4) s4(3) in auto)
    then show ?thesis using s1(1,4) al s3 s4 False t i'(3) by (auto simp: i'_def [symmetric] Let_def)
  qed
qed
section \<open>Big slots\<close>

lemma align_int_eq: "align_int s (2 ^ k) = (s + 2 ^ k - 1) div 2 ^ k * 2 ^ k"
proof -
  have m: "(2 :: int) ^ k - 1 = Bit_Operations.mask k" by (simp add: mask_eq_exp_minus_1)
  have "x AND NOT (Bit_Operations.mask k) = push_bit k (drop_bit k x)" for x :: int
    by (rule bit_eqI) (auto simp: bit_simps)
  then show ?thesis by (simp add: align_int_def m push_bit_eq_mult drop_bit_eq_div) (simp add: mask_eq_exp_minus_1 add_diff_eq)
qed

lemma align_int_bounds: "s \<le> align_int s 16" "align_int s 16 mod 16 = 0" "s \<le> align_int s 8" "align_int s 8 mod 8 = 0" "align_int s 8 < s + 8"
  using align_int_eq [of s 4] align_int_eq [of s 3] by simp_all

lemma big_slot_ok:
  assumes ok: "frame_ok live st" and sz: "0 < size_arg"
  shows "\<exists>st' r n. ir_allocate_big_spill_slot st size_arg = Some (st', r) \<and> size_arg \<le> int n \<and> frame_ok ((r, n) # live) st' \<and>
    (if size_arg \<le> 8 then aligned (r, n) else r mod 16 = 0)"
proof (cases "size_arg \<le> 8")
  case True
  define n where "n = nat (if size_arg = 3 then 4 else if size_arg > 4 \<and> size_arg < 8 then 8 else size_arg)"
  have n: "n \<in> {1, 2, 4, 8}" "size_arg \<le> int n" using True sz by (auto simp: n_def)
  have e: "ir_allocate_big_spill_slot st size_arg = ir_allocate_small_spill_slot st n" using True sz by (auto simp: ir_allocate_big_spill_slot_def n_def)
  show ?thesis unfolding e using small_slot_ok [OF ok n(1)] n(2) True by auto
next
  case False
  define r where "r = align_int (stack_frame_size st) 16"
  define n where "n = nat (align_int size_arg 8)"
  let ?st = "st\<lparr>ra_flags2 := ra_flags2 st OR IR_16B_FRAME_ALIGNMENT, stack_frame_size := r + int n\<rparr>"
  have n: "size_arg \<le> int n" "int n mod 8 = 0" "0 < n" "int n = align_int size_arg 8" using align_int_bounds [of size_arg] False by (simp_all add: n_def)
  have f: "0 \<le> stack_frame_size st" using ok by (simp add: frame_ok_def)
  have r: "stack_frame_size st \<le> r" "r mod 16 = 0" using align_int_bounds by (simp_all add: r_def)
  have fs: "free_slots ?st = free_slots st" by (simp add: free_parts)
  have "byte_count (((r, n) # live) @ free_slots ?st) x \<le> (if 0 \<le> x \<and> x < stack_frame_size ?st then 1 else 0)" for x
  proof -
    have "byte_count (live @ free_slots st) x \<le> (if 0 \<le> x \<and> x < stack_frame_size st then 1 else 0)" using ok unfolding frame_ok_def by blast
    then show ?thesis using r(1) f fs by (auto simp: holds_byte_def split: if_splits)
  qed
  moreover have "(r + int n) mod 8 = 0" using r(2) n(2) by presburger
  ultimately have "frame_ok ((r, n) # live) ?st" using ok n(3) r(1) f fs unfolding frame_ok_def by auto
  moreover have "ir_allocate_big_spill_slot st size_arg = Some (?st, r)" using False n(4) by (simp add: ir_allocate_big_spill_slot_def r_def Let_def)
  ultimately show ?thesis using False r(2) n(1) by auto
qed

section \<open>All registers\<close>

lemma mem_param_kept: "(f OR IR_LIVE_INTERVAL_SPILLED) AND IR_LIVE_INTERVAL_MEM_PARAM = f AND IR_LIVE_INTERVAL_MEM_PARAM"
  unfolding IR_LIVE_INTERVAL_SPILLED_def IR_LIVE_INTERVAL_MEM_PARAM_def by (simp add: bit.conj_disj_distrib2)

text \<open>The registers that get a slot, and the interval that stands for one.\<close>

definition gets_slot :: "live_ctx \<Rightarrow> nat \<Rightarrow> bool" where
  "gets_slot ctx v \<longleftrightarrow> needs_slot (live_intervals ctx v) \<and> iv_flags (hd (live_intervals ctx v)) AND IR_LIVE_INTERVAL_MEM_PARAM = 0"

definition spill_head :: "live_ctx \<Rightarrow> nat \<Rightarrow> ir_live_interval" where
  "spill_head ctx v = (let ivals = live_intervals ctx v in
     (hd ivals)\<lparr>iv_flags := iv_flags (hd ivals) OR IR_LIVE_INTERVAL_SPILLED, iv_end := chain_end ivals\<rparr>)"

lemma unhandled_spill_set: "set (ir_add_to_unhandled_spill xs x) = insert x (set xs)"
  by (induction xs) auto

lemma unhandled_spill_sorted: "sorted (map (\<lambda>x. iv_start (snd x)) xs) \<Longrightarrow> sorted (map (\<lambda>x. iv_start (snd x)) (ir_add_to_unhandled_spill xs x))"
  by (induction xs) (auto simp: unhandled_spill_set)

lemma unhandled_spill_distinct: "distinct (map fst xs) \<Longrightarrow> fst x \<notin> fst ` set xs \<Longrightarrow> distinct (map fst (ir_add_to_unhandled_spill xs x))"
  by (induction xs) (auto simp: unhandled_spill_set)

definition chain_ok :: "ir_live_interval list \<Rightarrow> bool" where
  "chain_ok ivals \<longleftrightarrow> (\<forall>i\<in>set ivals. iv_range i \<noteq> []) \<and> (\<forall>r\<in>set (concat (map iv_range ivals)). lr_start r < lr_end r) \<and>
     sorted_wrt (\<lambda>a b. lr_end a \<le> lr_start b) (concat (map iv_range ivals))"

lemma chain_end_head: "iv_range i = iv_range j \<Longrightarrow> chain_end (i # ivals) = chain_end (j # ivals)"
  by (simp add: chain_end_def)

lemma chain_cov_bounds:
  assumes "chain_ok ivals" "ivals \<noteq> []" "x \<in> chain_cov ivals"
  shows "iv_start (hd ivals) \<le> x" "x < chain_end ivals"
proof -
  define rs where "rs = concat (map iv_range ivals)"
  have ne: "\<forall>i\<in>set ivals. iv_range i \<noteq> []" and se: "\<forall>r\<in>set rs. lr_start r < lr_end r" and so: "sorted_wrt (\<lambda>a b. lr_end a \<le> lr_start b) rs"
    using assms(1) by (auto simp: chain_ok_def rs_def)
  obtain r where r: "r \<in> set rs" "lr_start r \<le> x" "x < lr_end r" using assms(3) by (auto simp: chain_cov_def cov_def range_set_def rs_def)
  have h: "hd rs = hd (iv_range (hd ivals))" "rs \<noteq> []" using ne assms(2) by (cases ivals; auto simp: rs_def hd_append)+
  have l: "last rs = last (iv_range (last ivals))"
    using ne assms(2) unfolding rs_def by (induction ivals rule: rev_induct) auto
  have "lr_start (hd rs) \<le> lr_start r" using so r(1) se by (cases rs) fastforce+
  then show "iv_start (hd ivals) \<le> x" using r(2) h by (simp add: iv_start_def)
  have "lr_end r \<le> lr_end (last rs)" using so r(1) se
  proof (induction rs rule: rev_induct)
    case (snoc a rs)
    then show ?case by (fastforce simp: sorted_wrt_append)
  qed simp
  then show "x < chain_end ivals" using r(3) l by (simp add: chain_end_def)
qed

lemma collect_spills:
  assumes "distinct js"
  shows "\<exists>ctx' un. fold collect_spill js (ctx, []) = (ctx', un) \<and> sorted (map (\<lambda>x. iv_start (snd x)) un) \<and> distinct (map fst un) \<and>
    set un = (\<lambda>j. (j, spill_head ctx j)) ` {j \<in> set js. gets_slot ctx j} \<and>
    (\<forall>v. tl (live_intervals ctx' v) = tl (live_intervals ctx v)) \<and>
    (\<forall>v. v \<notin> set js \<longrightarrow> live_intervals ctx' v = live_intervals ctx v)"
  using assms
proof (induction js rule: rev_induct)
  case (snoc j js)
  obtain ctx1 un where c: "fold collect_spill js (ctx, []) = (ctx1, un)" "sorted (map (\<lambda>x. iv_start (snd x)) un)" "distinct (map fst un)"
      "set un = (\<lambda>j. (j, spill_head ctx j)) ` {j \<in> set js. gets_slot ctx j}" "\<forall>v. tl (live_intervals ctx1 v) = tl (live_intervals ctx v)"
      "\<forall>v. v \<notin> set js \<longrightarrow> live_intervals ctx1 v = live_intervals ctx v"
    using snoc.IH snoc.prems unfolding distinct_append by blast
  have j: "j \<notin> set js" "live_intervals ctx1 j = live_intervals ctx j" using snoc.prems c(6) by auto
  let ?ivals = "live_intervals ctx j"
  consider "gets_slot ctx j" | "needs_slot ?ivals" "\<not> gets_slot ctx j" | "\<not> needs_slot ?ivals" by blast
  then show ?case
  proof cases
    case 1
    then have ne: "?ivals \<noteq> []" by (simp add: gets_slot_def needs_slot_def)
    have hd_end: "chain_end ((hd ?ivals)\<lparr>iv_flags := f\<rparr> # tl ?ivals) = chain_end ?ivals" for f
      using ne by (cases ?ivals) (simp_all add: chain_end_def)
    have st: "collect_spill j (ctx1, un) = (ctx1\<lparr>live_intervals := (live_intervals ctx1)(j := spill_head ctx j # tl ?ivals)\<rparr>, ir_add_to_unhandled_spill un (j, spill_head ctx j))"
      using 1 by (simp add: collect_spill_def j(2) gets_slot_def mem_param_kept spill_head_def hd_end Let_def)
    have "fst (j, spill_head ctx j) \<notin> fst ` set un" using c(4) j(1) by auto
    note un = unhandled_spill_sorted [OF c(2), of "(j, spill_head ctx j)"] unhandled_spill_distinct [OF c(3) this]
    have "{i \<in> set (js @ [j]). gets_slot ctx i} = insert j {i \<in> set js. gets_slot ctx i}" using 1 by auto
    then show ?thesis using c(1,4-6) st un by (simp add: unhandled_spill_set comp_def)
  next
    case 2
    then have st: "collect_spill j (ctx1, un) =
        (ctx1\<lparr>live_intervals := (live_intervals ctx1)(j := (hd ?ivals)\<lparr>iv_flags := iv_flags (hd ?ivals) OR IR_LIVE_INTERVAL_SPILLED\<rparr> # tl ?ivals)\<rparr>, un)"
      by (simp add: collect_spill_def j(2) gets_slot_def mem_param_kept Let_def)
    have e: "{i \<in> set (js @ [j]). gets_slot ctx i} = {i \<in> set js. gets_slot ctx i}" using 2 by auto
    show ?thesis unfolding e using c 2 j st by (auto simp: needs_slot_def)
  next
    case 3
    then have st: "collect_spill j (ctx1, un) = (ctx1, un)" by (simp add: collect_spill_def j(2) Let_def)
    have e: "{i \<in> set (js @ [j]). gets_slot ctx i} = {i \<in> set js. gets_slot ctx i}" using 3 by (auto simp: gets_slot_def)
    show ?thesis unfolding e using c j st by auto
  qed
qed simp

lemma write_back_spec:
  "distinct (map fst xs) \<Longrightarrow> live_intervals (write_back xs ctx) v =
     (case map_of xs v of None \<Rightarrow> live_intervals ctx v | Some i \<Rightarrow> i # tl (live_intervals ctx v))"
proof (induction xs arbitrary: ctx)
  case Nil
  then show ?case by (simp add: write_back_def)
next
  case (Cons x xs)
  obtain j i where x: "x = (j, i)" by (cases x)
  have "write_back (x # xs) ctx = write_back xs (ctx\<lparr>live_intervals := (live_intervals ctx)(j := i # tl (live_intervals ctx j))\<rparr>)" by (simp add: write_back_def x)
  moreover have "map_of xs j = None" using Cons.prems x by (simp add: map_of_eq_None_iff)
  ultimately show ?case using Cons x by (auto split: option.split)
qed
lemma apart_sym: "apart s t \<longleftrightarrow> apart t s"
  by (auto simp: apart_def)

text \<open>What the scan promises: slots in the frame, aligned, apart from what was there, and apart from each other while both are needed.\<close>

definition slots_assigned :: "slot list \<Rightarrow> live_ctx \<Rightarrow> live_ctx \<Rightarrow> slot_state \<Rightarrow> bool" where
  "slots_assigned live ctx ctx' st' \<longleftrightarrow>
     (\<forall>v\<in>{v. 1 \<le> v \<and> v \<le> lc_vregs_count ctx \<and> gets_slot ctx v}. \<exists>i. live_intervals ctx' v = i # tl (live_intervals ctx v) \<and>
        iv_range i = iv_range (hd (live_intervals ctx v)) \<and> iv_type i = iv_type (hd (live_intervals ctx v)) \<and>
        aligned (slot_of i) \<and> 0 \<le> iv_spill_pos i \<and> iv_spill_pos i + int (spill_size i) \<le> stack_frame_size st' \<and> (\<forall>s\<in>set live. apart (slot_of i) s)) \<and>
     (\<forall>v w. v \<in> {v. 1 \<le> v \<and> v \<le> lc_vregs_count ctx \<and> gets_slot ctx v} \<longrightarrow> w \<in> {v. 1 \<le> v \<and> v \<le> lc_vregs_count ctx \<and> gets_slot ctx v} \<longrightarrow>
        v \<noteq> w \<longrightarrow> chain_cov (live_intervals ctx v) \<inter> chain_cov (live_intervals ctx w) \<noteq> {} \<longrightarrow>
        apart (slot_of (hd (live_intervals ctx' v))) (slot_of (hd (live_intervals ctx' w))))"

lemma sorted_wrt_pairs:
  assumes "sorted_wrt P xs" "a \<in> set xs" "b \<in> set xs" "a \<noteq> b"
  shows "P a b \<or> P b a"
  using assms by (induction xs) auto

lemma assign_ok:
  assumes fr: "frame_ok live st" and ch: "\<And>v. chain_ok (live_intervals ctx v)"
    and sz: "\<And>v. 1 \<le> v \<Longrightarrow> v \<le> lc_vregs_count ctx \<Longrightarrow> gets_slot ctx v \<Longrightarrow> sized (hd (live_intervals ctx v))"
  shows "\<exists>ctx' st'. assign_spill_slots ctx st = Some (ctx', st') \<and> slots_assigned live ctx ctx' st'"
proof -
  let ?js = "rev [1..<Suc (lc_vregs_count ctx)]"
  define G where "G = {v. 1 \<le> v \<and> v \<le> lc_vregs_count ctx \<and> gets_slot ctx v}"
  have "distinct ?js" by simp
  from collect_spills [OF this, of ctx] obtain ctx1 un where c: "fold collect_spill ?js (ctx, []) = (ctx1, un)" "sorted (map (\<lambda>x. iv_start (snd x)) un)" "distinct (map fst un)"
      "set un = (\<lambda>j. (j, spill_head ctx j)) ` {j \<in> set ?js. gets_slot ctx j}" "\<forall>v. tl (live_intervals ctx1 v) = tl (live_intervals ctx v)"
    by blast
  have G: "{j \<in> set ?js. gets_slot ctx j} = G" by (auto simp: G_def)
  have un: "set un = (\<lambda>j. (j, spill_head ctx j)) ` G" using c(4) unfolding G .
  have ne: "live_intervals ctx v \<noteq> []" if "v \<in> G" for v using that by (simp add: G_def gets_slot_def needs_slot_def)
  show ?thesis
  proof (cases "un = []")
    case True
    then have "G = {}" using un by simp
    then have "slots_assigned live ctx ctx1 st" unfolding slots_assigned_def G_def [symmetric] by simp
    then show ?thesis using c(1) True by (simp add: assign_spill_slots_def)
  next
    case False
    let ?st = "st\<lparr>handled := Some (\<lambda>_. [])\<rparr>"
    have "frame_ok (map slot_of [] @ live) ?st"
      unfolding list.map append_Nil by (rule frame_fewer [OF fr]) (auto simp: free_parts offered_def handled_slots_def)
    moreover have "\<forall>i\<in>set (map snd un). sized i"
      using un sz by (auto simp: G_def spill_head_def Let_def sized_def spill_size_def)
    ultimately obtain st' res where l: "spill_loop ?st [] (map snd un) = Some (st', res)" "spills_ok live [] (map snd un) st' res"
      using spill_loop_ok [of "[]" live ?st "map snd un"] c(2) by (auto simp: comp_def)
    have strip: "map (\<lambda>i. i\<lparr>iv_spill_pos := 0\<rparr>) res = map (\<lambda>i. i\<lparr>iv_spill_pos := 0\<rparr>) (map snd un)" using l(2) by (simp add: spills_ok_def)
    then have len: "length res = length un" by (metis length_map)
    define xs where "xs = zip (map fst un) res"
    define ctx' where "ctx' = write_back xs ctx1"
    have d: "distinct (map fst xs)" "map fst xs = map fst un" "map snd xs = res" using c(3) len by (simp_all add: xs_def)
    have fst_xs: "fst ` set xs = G" using arg_cong [OF d(2), of set] un by (simp add: image_image)
    have pair: "\<exists>i. (v, i) \<in> set xs \<and> i\<lparr>iv_spill_pos := 0\<rparr> = (spill_head ctx v)\<lparr>iv_spill_pos := 0\<rparr> \<and> live_intervals ctx' v = i # tl (live_intervals ctx v)" if v: "v \<in> G" for v
    proof -
      obtain i where i: "(v, i) \<in> set xs" using fst_xs v by force
      then obtain k where k: "k < length xs" "xs ! k = (v, i)" by (auto simp: in_set_conv_nth)
      have lx: "length xs = length un" by (simp add: xs_def len)
      have "fst (un ! k) = v" "res ! k = i" using k len by (auto simp: xs_def)
      moreover have "un ! k \<in> set un" using k lx by simp
      ultimately have u: "un ! k = (v, spill_head ctx v)" using un by auto
      have "i\<lparr>iv_spill_pos := 0\<rparr> = (spill_head ctx v)\<lparr>iv_spill_pos := 0\<rparr>"
        using arg_cong [OF strip, of "\<lambda>ys. ys ! k"] k lx len u \<open>res ! k = i\<close> by simp
      moreover have "map_of xs v = Some i" using d(1) i by simp
      then have "live_intervals ctx' v = i # tl (live_intervals ctx v)" using c(5) by (simp add: ctx'_def write_back_spec [OF d(1)])
      ultimately show ?thesis using i by blast
    qed
    have eqs: "iv_range i = iv_range (hd (live_intervals ctx v)) \<and> iv_type i = iv_type (hd (live_intervals ctx v)) \<and> iv_end i = chain_end (live_intervals ctx v) \<and>
        iv_start i = iv_start (hd (live_intervals ctx v))" if "i\<lparr>iv_spill_pos := 0\<rparr> = (spill_head ctx v)\<lparr>iv_spill_pos := 0\<rparr>" for i v
      using arg_cong [OF that, of iv_range] arg_cong [OF that, of iv_type] arg_cong [OF that, of iv_end] by (simp add: spill_head_def Let_def iv_start_def)
    have props: "aligned (slot_of i) \<and> 0 \<le> iv_spill_pos i \<and> iv_spill_pos i + int (spill_size i) \<le> stack_frame_size st' \<and> (\<forall>s\<in>set live. apart (slot_of i) s)"
      if "(v, i) \<in> set xs" for v i
    proof -
      have "i \<in> set res" using that d(3) by (metis imageI list.set_map snd_conv)
      then show ?thesis using l(2) unfolding spills_ok_def by blast
    qed
    have sw: "sorted_wrt (\<lambda>a b. iv_start (snd b) < iv_end (snd a) \<longrightarrow> apart (slot_of (snd b)) (slot_of (snd a))) xs"
      using l(2) unfolding spills_ok_def d(3) [symmetric] sorted_wrt_map by blast
    have two: "apart (slot_of (hd (live_intervals ctx' v))) (slot_of (hd (live_intervals ctx' w)))"
      if vw: "v \<in> G" "w \<in> G" "v \<noteq> w" "chain_cov (live_intervals ctx v) \<inter> chain_cov (live_intervals ctx w) \<noteq> {}" for v w
    proof -
      obtain x where x: "x \<in> chain_cov (live_intervals ctx v)" "x \<in> chain_cov (live_intervals ctx w)" using vw(4) by blast
      obtain i where i: "(v, i) \<in> set xs" "i\<lparr>iv_spill_pos := 0\<rparr> = (spill_head ctx v)\<lparr>iv_spill_pos := 0\<rparr>" "live_intervals ctx' v = i # tl (live_intervals ctx v)" using pair [OF vw(1)] by blast
      obtain j where j: "(w, j) \<in> set xs" "j\<lparr>iv_spill_pos := 0\<rparr> = (spill_head ctx w)\<lparr>iv_spill_pos := 0\<rparr>" "live_intervals ctx' w = j # tl (live_intervals ctx w)" using pair [OF vw(2)] by blast
      have b: "iv_start i \<le> x" "x < iv_end i" "iv_start j \<le> x" "x < iv_end j"
        using chain_cov_bounds [OF ch ne [OF vw(1)] x(1)] chain_cov_bounds [OF ch ne [OF vw(2)] x(2)] eqs [OF i(2)] eqs [OF j(2)] by simp_all
      have "apart (slot_of i) (slot_of j)"
        using sorted_wrt_pairs [OF sw i(1) j(1)] vw(3) b apart_sym by auto
      then show ?thesis using i(3) j(3) by simp
    qed
    have one: "\<exists>i. live_intervals ctx' v = i # tl (live_intervals ctx v) \<and> iv_range i = iv_range (hd (live_intervals ctx v)) \<and> iv_type i = iv_type (hd (live_intervals ctx v)) \<and>
        aligned (slot_of i) \<and> 0 \<le> iv_spill_pos i \<and> iv_spill_pos i + int (spill_size i) \<le> stack_frame_size (st'\<lparr>handled := None\<rparr>) \<and> (\<forall>s\<in>set live. apart (slot_of i) s)"
      if v: "v \<in> G" for v
    proof -
      obtain i where i: "(v, i) \<in> set xs" "i\<lparr>iv_spill_pos := 0\<rparr> = (spill_head ctx v)\<lparr>iv_spill_pos := 0\<rparr>" "live_intervals ctx' v = i # tl (live_intervals ctx v)" using pair [OF v] by blast
      show ?thesis using i(3) eqs [OF i(2)] props [OF i(1)] by simp
    qed
    have "slots_assigned live ctx ctx' (st'\<lparr>handled := None\<rparr>)"
      unfolding slots_assigned_def G_def [symmetric] using one two by blast
    moreover have "assign_spill_slots ctx st = Some (ctx', st'\<lparr>handled := None\<rparr>)"
      using c(1) False l(1) by (simp add: assign_spill_slots_def ctx'_def xs_def)
    ultimately show ?thesis by blast
  qed
qed
section \<open>Properties\<close>

text \<open>C12: A slot of 1, 2, 4 or 8 bytes is always found, aligned to its size and inside the frame, and shares no byte with a slot in use
  or with what is left over for later, whether it is a slot offered again, a part of a bigger one or the end of the frame.\<close>

theorem small_spill_slot:
  assumes "frame_ok live st" "type \<noteq> IR_VOID"
  shows "\<exists>st' r. ir_allocate_spill_slot st type = Some (st', r) \<and> frame_ok ((r, ir_type_size type) # live) st' \<and>
    r mod int (ir_type_size type) = 0 \<and> 0 \<le> r \<and> r + int (ir_type_size type) \<le> stack_frame_size st' \<and> (\<forall>s\<in>set live. apart (r, ir_type_size type) s)"
proof -
  have "ir_type_size type \<in> {1, 2, 4, 8}" using assms(2) by (cases type) simp_all
  then obtain st' r where r: "ir_allocate_spill_slot st type = Some (st', r)" "frame_ok ((r, ir_type_size type) # live) st'" "aligned (r, ir_type_size type)"
    using small_slot_ok [OF assms(1)] unfolding ir_allocate_spill_slot_def by blast
  then show ?thesis using frame_bounds [OF r(2), of "(r, ir_type_size type)"] frame_apart [OF r(2)] by (auto simp: aligned_def)
qed

definition demo_frame :: slot_state where
  "demo_frame = \<lparr>stack_frame_size = 16, unused_slot_4 = 4, unused_slot_2 = 0, unused_slot_1 = 0, handled = None, ra_flags2 = 0\<rparr>"

lemma demo_frame_ok: "frame_ok [(0, 4), (8, 8)] demo_frame"
  by (auto simp: frame_ok_def demo_frame_def free_slots_def handled_slots_def aligned_def holds_byte_def)

theorem small_spill_slot_witness:
  "\<exists>st' r. ir_allocate_spill_slot demo_frame IR_I16 = Some (st', r) \<and> frame_ok ((r, ir_type_size IR_I16) # [(0, 4), (8, 8)]) st' \<and>
    r mod int (ir_type_size IR_I16) = 0 \<and> 0 \<le> r \<and> r + int (ir_type_size IR_I16) \<le> stack_frame_size st' \<and>
    (\<forall>s\<in>set [(0, 4), (8, 8)]. apart (r, ir_type_size IR_I16) s)"
  by (rule small_spill_slot [OF demo_frame_ok]) simp



text \<open>C6: The scan gives every spilled virtual register a slot, in the frame, aligned, and apart from the slots that were there before. Two registers
  that live at a common position get slots without a common byte, although slots are used again as soon as a register dies.\<close>

theorem spill_slots_apart:
  assumes "frame_ok live st" "\<And>v. chain_ok (live_intervals ctx v)"
    "\<And>v. 1 \<le> v \<Longrightarrow> v \<le> lc_vregs_count ctx \<Longrightarrow> gets_slot ctx v \<Longrightarrow> iv_type (hd (live_intervals ctx v)) \<noteq> IR_VOID"
  shows "\<exists>ctx' st'. assign_spill_slots ctx st = Some (ctx', st') \<and> slots_assigned live ctx ctx' st'"
proof (rule assign_ok [OF assms(1,2)])
  show "sized (hd (live_intervals ctx v))" if "1 \<le> v" "v \<le> lc_vregs_count ctx" "gets_slot ctx v" for v
    using assms(3) [OF that] by (cases "iv_type (hd (live_intervals ctx v))") (simp_all add: sized_def spill_size_def)
qed

theorem spill_slots_apart_witness:
  "\<exists>ctx' st'. assign_spill_slots demo_live demo_frame = Some (ctx', st') \<and> slots_assigned [(0, 4), (8, 8)] demo_live ctx' st'"
proof (rule spill_slots_apart [OF demo_frame_ok])
  show "chain_ok (live_intervals demo_live v)" for v by (auto simp: demo_live_def chain_ok_def demo_i_def demo_j_def new_interval_def)
  show "iv_type (hd (live_intervals demo_live v)) \<noteq> IR_VOID" if "gets_slot demo_live v" for v
    using that by (auto simp: gets_slot_def needs_slot_def demo_live_def demo_i_def demo_j_def new_interval_def split: if_splits)
qed

end
