(* ===== verification/Spec2Isabelle.thy ===== *)
theory Spec2Isabelle
  imports Fold_Defects Sparse_Set Containers Strtab Use_Lists Parallel_Copy Spill_Slots
begin

text \<open>Header.\<close>

end
